(* ===== verification/Prelude.thy ===== *)
theory Prelude
  imports Complex_Main "HOL-Library.Multiset"
begin

text \<open>
  Shared vocabulary of the development.

  \<^item> identifiers, instants and the error values of \<open>common/errors/api-error.ts\<close>;
  \<^item> database tables as lists of rows, with the Prisma operations the services use:
    \<open>update_where\<close> (\<open>updateMany\<close>), \<open>count_where\<close> (\<open>count\<close>), \<open>sum_by\<close> (\<open>aggregate _sum\<close>),
    \<open>upsert\<close>, and the generic lemmas about them;
  \<^item> the locale \<open>guarded_system\<close>, a state machine with an invariant that every operation keeps,
    interpreted by the services that are such machines.

  The collections \<open>table_simps\<close> and \<open>op_defs\<close> gather the rewrite rules for tables and the
  definitions a service proof unfolds.
\<close>

named_theorems table_simps
named_theorems op_defs

type_synonym id = string

text \<open>A \<open>Date\<close> is its time value: milliseconds since 1 January 1970 UTC.\<close>

type_synonym instant = int

section \<open>Errors\<close>

text \<open>
  An \<open>ApiError\<close> is its HTTP status and its machine readable code (the human message is not
  modelled); any other thrown \<open>Error\<close> is a \<open>JsError\<close>.
\<close>

datatype error = ApiError nat string | JsError string

definition notFound :: error where "notFound = ApiError 404 ''not_found''"
definition forbidden :: error where "forbidden = ApiError 403 ''forbidden''"
definition unauthorized :: error where "unauthorized = ApiError 401 ''unauthorized''"
definition invalid :: error where "invalid = ApiError 422 ''invalid_request''"
definition conflict :: "string \<Rightarrow> error" where "conflict code = ApiError 409 code"
definition quota :: error where "quota = ApiError 403 ''quota_exceeded''"
definition spendLimit :: error where "spendLimit = ApiError 402 ''spend_limit_reached''"
definition invalidState :: error where "invalidState = ApiError 409 ''invalid_state''"

lemmas error_defs = notFound_def forbidden_def unauthorized_def invalid_def conflict_def
  quota_def spendLimit_def invalidState_def

type_synonym 'a result = "error + 'a"

definition is_ok :: "'a result \<Rightarrow> bool" where
  "is_ok r \<longleftrightarrow> (case r of Inl _ \<Rightarrow> False | Inr _ \<Rightarrow> True)"

lemma is_ok_simps [simp]: "is_ok (Inr x)" "\<not> is_ok (Inl e)"
  by (simp_all add: is_ok_def)

text \<open>A call that may throw, and what is done with its value.\<close>

definition and_then :: "'a result \<Rightarrow> ('a \<Rightarrow> 'b result) \<Rightarrow> 'b result" where
  "and_then r f = (case r of Inl e \<Rightarrow> Inl e | Inr v \<Rightarrow> f v)"

lemma and_then_simps [simp]: "and_then (Inr v) f = f v" "and_then (Inl e) f = Inl e"
  by (simp_all add: and_then_def)

lemma and_then_Inr: "and_then r f = Inr v \<longleftrightarrow> (\<exists>u. r = Inr u \<and> f u = Inr v)"
  by (cases r) auto

section \<open>Tables\<close>

definition update_where :: "('r \<Rightarrow> bool) \<Rightarrow> ('r \<Rightarrow> 'r) \<Rightarrow> 'r list \<Rightarrow> 'r list" where
  "update_where p f rows = map (\<lambda>r. if p r then f r else r) rows"

definition count_where :: "('r \<Rightarrow> bool) \<Rightarrow> 'r list \<Rightarrow> nat" where
  "count_where p rows = length (filter p rows)"

definition sum_by :: "('r \<Rightarrow> 'n::comm_monoid_add) \<Rightarrow> 'r list \<Rightarrow> 'n" where
  "sum_by f rows = sum_list (map f rows)"

lemma length_update_where [table_simps, simp]: "length (update_where p f rows) = length rows"
  by (simp add: update_where_def)

lemma update_where_Nil [table_simps, simp]: "update_where p f [] = []"
  by (simp add: update_where_def)

lemma update_where_Cons [table_simps, simp]:
  "update_where p f (r # rows) = (if p r then f r else r) # update_where p f rows"
  by (simp add: update_where_def)

lemma update_where_append [table_simps, simp]:
  "update_where p f (xs @ ys) = update_where p f xs @ update_where p f ys"
  by (simp add: update_where_def)

lemma update_where_none: "\<forall>r\<in>set rows. \<not> p r \<Longrightarrow> update_where p f rows = rows"
  by (induction rows) auto

lemma map_update_where:
  "(\<And>r. p r \<Longrightarrow> g (f r) = g r) \<Longrightarrow> map g (update_where p f rows) = map g rows"
  by (induction rows) auto

lemma in_update_where:
  "r \<in> set (update_where p f rows) \<longleftrightarrow> (\<exists>s\<in>set rows. r = (if p s then f s else s))"
  by (auto simp: update_where_def)

lemma ball_update_where:
  "(\<forall>r\<in>set (update_where p f rows). P r) \<longleftrightarrow> (\<forall>s\<in>set rows. if p s then P (f s) else P s)"
  by (auto simp: update_where_def)

lemma count_where_Nil [table_simps, simp]: "count_where p [] = 0"
  by (simp add: count_where_def)

lemma count_where_Cons [table_simps, simp]:
  "count_where p (r # rows) = (if p r then Suc (count_where p rows) else count_where p rows)"
  by (simp add: count_where_def)

lemma count_where_0_iff: "count_where p rows = 0 \<longleftrightarrow> (\<forall>r\<in>set rows. \<not> p r)"
  by (induction rows) auto

lemma sum_by_Nil [table_simps, simp]: "sum_by f [] = 0"
  by (simp add: sum_by_def)

lemma sum_by_Cons [table_simps, simp]: "sum_by f (r # rows) = f r + sum_by f rows"
  by (simp add: sum_by_def)

lemma sum_by_append [table_simps, simp]: "sum_by f (xs @ ys) = sum_by f xs + sum_by f ys"
  by (simp add: sum_by_def)

lemma sum_by_nonneg: "\<forall>r\<in>set rows. 0 \<le> f r \<Longrightarrow> 0 \<le> sum_by f rows" for f :: "'r \<Rightarrow> int"
  by (induction rows) auto

lemma sum_by_mset: "mset xs = mset ys \<Longrightarrow> sum_by f xs = sum_by f ys"
  by (simp add: sum_by_def) (metis mset_map sum_mset_sum_list)

lemma sum_by_sort_key: "sum_by f (sort_key k rows) = sum_by f rows"
  by (rule sum_by_mset) simp

lemma sum_by_filter_le:
  "\<forall>r\<in>set rows. 0 \<le> f r \<Longrightarrow> sum_by f (filter p rows) \<le> sum_by f rows" for f :: "'r \<Rightarrow> int"
  by (induction rows) auto

lemma sum_by_filter_split:
  "sum_by f (filter p rows) + sum_by f (filter (\<lambda>r. \<not> p r) rows) = sum_by f rows"
  by (induction rows) (auto simp: ac_simps)

section \<open>Rows with a unique key\<close>

definition uniq :: "('r \<Rightarrow> 'k) \<Rightarrow> 'r list \<Rightarrow> bool" where
  "uniq k rows \<longleftrightarrow> distinct (map k rows)"

definition find_by :: "('r \<Rightarrow> 'k) \<Rightarrow> 'k \<Rightarrow> 'r list \<Rightarrow> 'r option" where
  "find_by k x rows = List.find (\<lambda>r. k r = x) rows"

lemma find_by_Nil [table_simps, simp]: "find_by k x [] = None"
  by (simp add: find_by_def)

lemma find_by_Cons [table_simps, simp]: "find_by k x (r # rows) = (if k r = x then Some r else find_by k x rows)"
  by (simp add: find_by_def)

lemma find_by_Some: "find_by k x rows = Some r \<Longrightarrow> r \<in> set rows \<and> k r = x"
  by (induction rows) (auto split: if_splits)

lemma find_by_None: "find_by k x rows = None \<longleftrightarrow> x \<notin> k ` set rows"
  by (induction rows) auto

lemma find_by_uniq: "uniq k rows \<Longrightarrow> r \<in> set rows \<Longrightarrow> find_by k (k r) rows = Some r"
  by (induction rows) (auto simp: uniq_def image_iff split: if_splits)

lemma find_by_update_where:
  assumes "\<And>r. p r \<Longrightarrow> k (f r) = k r"
  shows "find_by k x (update_where p f rows)
     = map_option (\<lambda>r. if p r then f r else r) (find_by k x rows)"
  using assms by (induction rows) auto

lemma uniq_update_where:
  assumes "\<And>r. p r \<Longrightarrow> k (f r) = k r"
  shows "uniq k (update_where p f rows) = uniq k rows"
  using assms by (simp add: uniq_def map_update_where)

lemma keys_update_where:
  assumes "\<And>r. k (f r) = k r"
  shows "k ` set (update_where p f rows) = k ` set rows"
  using map_update_where [of p k f rows] assms by (metis list.set_map)

text \<open>Updating the one row with a given key changes a sum by the change of that row.\<close>

lemma sum_by_update_row:
  fixes g :: "'r \<Rightarrow> int"
  assumes "uniq k rows" "r \<in> set rows"
  shows "sum_by g (update_where (\<lambda>s. k s = k r) f rows) = sum_by g rows + (g (f r) - g r)"
  using assms
proof (induction rows)
  case (Cons s rows)
  show ?case
  proof (cases "k s = k r")
    case True
    then have "k r \<notin> k ` set rows" using Cons.prems(1) by (auto simp: uniq_def)
    then have upd: "update_where (\<lambda>s. k s = k r) f rows = rows"
      by (intro update_where_none) (auto simp: image_iff)
    have "r \<notin> set rows" using \<open>k r \<notin> k ` set rows\<close> by blast
    with Cons.prems(2) have "s = r" by simp
    with upd show ?thesis by simp
  next
    case False
    with Cons show ?thesis by (auto simp: uniq_def)
  qed
qed simp

text \<open>
  A loop over a snapshot of rows, each step writing the row it is at, is one pass over the table.
\<close>

lemma uniq_inj: "uniq k rows \<Longrightarrow> r \<in> set rows \<Longrightarrow> s \<in> set rows \<Longrightarrow> k r = k s \<Longrightarrow> r = s"
  by (auto simp: uniq_def distinct_map inj_on_def)

lemma fold_row_updates:
  assumes step: "\<And>v rows. uniq k rows \<Longrightarrow> v \<in> set rows \<Longrightarrow> step v rows = map (\<lambda>r. if r = v then f v else r) rows"
    and key: "\<And>r. k (f r) = k r"
    and "uniq k rows" "set vs \<subseteq> set rows" "distinct vs"
  shows "fold step vs rows = map (\<lambda>r. if r \<in> set vs then f r else r) rows"
  using assms(3-5)
proof (induction vs arbitrary: rows)
  case (Cons v vs)
  let ?rows = "map (\<lambda>r. if r = v then f v else r) rows"
  have v: "v \<in> set rows" and sub: "set vs \<subseteq> set rows" and new: "v \<notin> set vs" using Cons.prems by auto
  have keys: "map k ?rows = map k rows" using key by auto
  have "f v \<notin> set vs"
  proof
    assume "f v \<in> set vs"
    then have "f v = v" using uniq_inj [OF Cons.prems(1), of "f v" v] key v sub by auto
    with \<open>f v \<in> set vs\<close> new show False by simp
  qed
  moreover have "fold step vs ?rows = map (\<lambda>r. if r \<in> set vs then f r else r) ?rows"
  proof (rule Cons.IH)
    show "uniq k ?rows" using Cons.prems(1) keys by (simp only: uniq_def)
    show "set vs \<subseteq> set ?rows" using sub new by auto
    show "distinct vs" using Cons.prems(3) by simp
  qed
  ultimately show ?case using step [OF Cons.prems(1) v] new by auto
qed simp

section \<open>Upsert\<close>

text \<open>Update the rows with key \<open>x\<close>, or append a new one when there is none.\<close>

definition upsert :: "('r \<Rightarrow> 'k) \<Rightarrow> 'k \<Rightarrow> 'r \<Rightarrow> ('r \<Rightarrow> 'r) \<Rightarrow> 'r list \<Rightarrow> 'r list" where
  "upsert k x new f rows =
     (if x \<in> k ` set rows then update_where (\<lambda>r. k r = x) f rows else rows @ [new])"

text \<open>A pass of upserts that overwrite can be repeated: the second pass changes nothing.\<close>

lemma upsert_keys: "k new = x \<Longrightarrow> (\<And>r. k (f r) = k r) \<Longrightarrow> k ` set (upsert k x new f rows) = insert x (k ` set rows)"
proof -
  assume "k new = x" and f: "\<And>r. k (f r) = k r"
  then have "k ` set (update_where (\<lambda>r. k r = x) f rows) = k ` set rows"
    using map_update_where [of "\<lambda>r. k r = x" k f rows] by (metis list.set_map)
  with \<open>k new = x\<close> show ?thesis by (auto simp: upsert_def)
qed

lemma upsert_pass_idem:
  assumes key: "\<And>g r. k (upd g r) = k r" "\<And>g. k (new g) = kf g"
    and over: "\<And>g h r. upd g (upd h r) = upd g r" "\<And>g. upd g (new g) = new g"
  defines "pass \<equiv> fold (\<lambda>g. upsert k (kf g) (new g) (upd g))"
  shows "pass gs (pass gs rows) = pass gs rows"
proof -
  define app where "app = (\<lambda>g r. if k r = kf g then upd g r else r)"
  have app_key: "k (fold app gs r) = k r" for gs r
    by (induction gs arbitrary: r) (auto simp: app_def key)
  have over': "upd g (fold app gs r) = upd g r" for g gs r
    by (induction gs arbitrary: r) (auto simp: app_def over)
  have present: "pass gs rows' = map (fold app gs) rows'" if "kf ` set gs \<subseteq> k ` set rows'" for gs rows'
    using that
  proof (induction gs arbitrary: rows')
    case (Cons g gs)
    have "upsert k (kf g) (new g) (upd g) rows' = map (app g) rows'"
      using Cons.prems by (simp add: upsert_def update_where_def app_def)
    moreover have "k ` set (map (app g) rows') = k ` set rows'"
      using app_key [of "[g]"] by (simp add: image_image)
    ultimately show ?case using Cons by (simp add: pass_def)
  qed (simp add: pass_def)
  have stable: "kf ` set gs \<subseteq> k ` set (pass gs rows) \<and> (\<forall>r\<in>set (pass gs rows). fold app gs r = r)"
  proof (induction gs rule: rev_induct)
    case (snoc g gs)
    let ?rows = "pass gs rows"
    have pass: "pass (gs @ [g]) rows = upsert k (kf g) (new g) (upd g) ?rows" by (simp add: pass_def)
    have "fold app (gs @ [g]) r = r" if "r \<in> set (upsert k (kf g) (new g) (upd g) ?rows)" for r
    proof -
      have hit: "fold app (gs @ [g]) r = upd g r" if "k r = kf g"
        using that app_key [of gs r] over' [of g gs r] by (simp add: app_def)
      have miss: "fold app (gs @ [g]) r = fold app gs r" if "k r \<noteq> kf g"
        using that app_key [of gs r] by (simp add: app_def)
      from \<open>r \<in> set (upsert k (kf g) (new g) (upd g) ?rows)\<close>
      consider (old) "r \<in> set ?rows" "k r \<noteq> kf g" | (upd) s where "r = upd g s" "k s = kf g" | (new) "r = new g"
        by (auto simp: upsert_def in_update_where image_iff split: if_splits)
      then show ?thesis
      proof cases
        case old
        then show ?thesis using miss snoc.IH by simp
      qed (use hit key over in simp_all)
    qed
    then show ?case using snoc.IH by (auto simp: pass upsert_keys key)
  qed simp
  then show ?thesis using present [of gs "pass gs rows"] by (simp add: map_idI)
qed

section \<open>State machines that keep an invariant\<close>

text \<open>
  A service: states, operations that take a state to an outcome and a new state, and an
  invariant that every operation keeps.  A run is any sequence of operations.
\<close>

locale guarded_system =
  fixes inv :: "'s \<Rightarrow> bool"
    and step :: "'op \<Rightarrow> 's \<Rightarrow> 's"
  assumes step_inv: "inv s \<Longrightarrow> inv (step op s)"
begin

lemma run_inv: "inv s \<Longrightarrow> inv (fold step ops s)"
  by (induction ops arbitrary: s) (simp_all add: step_inv)

lemma run_take_inv: "inv s \<Longrightarrow> inv (fold step (take n ops) s)"
  by (rule run_inv)

end

end
