(* ===== verification/JS_Number.thy ===== *)
theory JS_Number
  imports Prelude
begin

text \<open>
  JavaScript numbers.  Every TypeScript value of type \<open>number\<close> is an IEEE 754 double.  A finite
  double is modelled as the rational it denotes, and every arithmetic operation of the source
  whose exact result need not be a double is followed by \<open>fl\<close>, the rounding to the nearest
  double with ties to even (53 significant bits, least exponent \<open>-1074\<close>).  Overflow to infinity
  is outside the model: it starts at \<open>2 ^ 1024\<close>, and the quantities the program keeps (minor
  currency units, minutes, milliseconds, bytes) stay below \<open>2 ^ 53\<close>.

  The lemmas are the three laws of rounding that the money computations use: integers up to
  \<open>2 ^ 53\<close> are exact, rounding is monotone, and so a rounded value stays between the floor and
  the ceiling of the exact one.  They are packaged as the locale \<open>rounding\<close>, interpreted on
  \<open>fl\<close>.
\<close>

section \<open>Binary logarithms\<close>

fun ilog2 :: "nat \<Rightarrow> nat" where
  "ilog2 n = (if n < 2 then 0 else Suc (ilog2 (n div 2)))"

declare ilog2.simps [simp del]

lemma ilog2_bounds: "0 < n \<Longrightarrow> 2 ^ ilog2 n \<le> n \<and> n < 2 ^ Suc (ilog2 n)"
proof (induction n rule: ilog2.induct)
  case (1 n)
  show ?case
  proof (cases "n < 2")
    case True
    with "1.prems" show ?thesis by (simp add: ilog2.simps [of n])
  next
    case False
    with "1.IH" have "2 ^ ilog2 (n div 2) \<le> n div 2 \<and> n div 2 < 2 ^ Suc (ilog2 (n div 2))"
      by simp
    then have "2 * 2 ^ ilog2 (n div 2) \<le> n \<and> n < 2 * 2 ^ Suc (ilog2 (n div 2))"
      by presburger
    with False show ?thesis by (simp add: ilog2.simps [of n])
  qed
qed

text \<open>The exponent of a positive rational: the integer \<open>k\<close> with \<open>2 ^ k \<le> x < 2 ^ (k + 1)\<close>.\<close>

definition flog2 :: "rat \<Rightarrow> int" where
  "flog2 x =
     (let (p, q) = quotient_of x;
          k = int (ilog2 (nat p)) - int (ilog2 (nat q))
      in if 2 powi k \<le> x then k else k - 1)"

lemma powi_of_nat: "(2::rat) powi int n = 2 ^ n"
  by (simp add: power_int_def)

lemma powi_pos [simp]: "0 < (2::rat) powi k"
  by (rule zero_less_power_int) simp

lemma powi_add_one: "(2::rat) powi (k + 1) = 2 * 2 powi k"
  by (simp add: power_int_add)

lemma powi_le: "a \<le> b \<Longrightarrow> (2::rat) powi a \<le> 2 powi b"
  by (rule power_int_increasing) simp_all

lemma powi_less_imp: "(2::rat) powi a < 2 powi b \<Longrightarrow> a < b"
  by (meson linorder_not_le powi_le)

lemma ilog2_rat_bounds:
  assumes "0 < p"
  shows "(2::rat) ^ ilog2 (nat p) \<le> of_int p \<and> (of_int p :: rat) < 2 ^ Suc (ilog2 (nat p))"
proof -
  obtain n where p: "p = int n" "0 < n" using assms zero_less_imp_eq_int by blast
  have "of_nat (2 ^ ilog2 n) \<le> (of_nat n :: rat)" "(of_nat n :: rat) < of_nat (2 ^ Suc (ilog2 n))"
    using ilog2_bounds [OF p(2)] by (simp_all only: of_nat_le_iff of_nat_less_iff)
  then show ?thesis using p by simp
qed

lemma flog2_bounds:
  assumes "0 < x"
  shows "2 powi flog2 x \<le> x \<and> x < 2 powi (flog2 x + 1)"
proof -
  obtain p q where pq: "quotient_of x = (p, q)" by (cases "quotient_of x")
  have q: "0 < q" using quotient_of_denom_pos [OF pq] .
  have x: "x = of_int p / of_int q" using quotient_of_div [OF pq] .
  have p: "0 < p" using assms q unfolding x by (simp add: zero_less_divide_iff)
  let ?a = "ilog2 (nat p)" and ?b = "ilog2 (nat q)"
  have pb: "(2::rat) ^ ?a \<le> of_int p" "(of_int p :: rat) < 2 ^ Suc ?a"
    using ilog2_rat_bounds [OF p] by simp_all
  have qb: "(2::rat) ^ ?b \<le> of_int q" "(of_int q :: rat) < 2 ^ Suc ?b"
    using ilog2_rat_bounds [OF q] by simp_all
  let ?k = "int ?a - int ?b"
  have k: "(2::rat) powi ?k = 2 ^ ?a / 2 ^ ?b"
    by (simp add: power_int_diff powi_of_nat)
  have up: "x < 2 powi (?k + 1)"
  proof -
    have "x < 2 ^ Suc ?a / of_int q"
      unfolding x using pb(2) q by (intro divide_strict_right_mono) simp_all
    also have "\<dots> \<le> 2 ^ Suc ?a / 2 ^ ?b"
      using qb(1) by (intro divide_left_mono) (simp_all add: q)
    finally show ?thesis by (simp add: powi_add_one k)
  qed
  have lo: "2 powi (?k - 1) \<le> x"
  proof -
    have "(2::rat) powi (?k - 1) = 2 ^ ?a / 2 ^ Suc ?b"
      by (simp add: power_int_diff powi_of_nat)
    also have "\<dots> \<le> of_int p / 2 ^ Suc ?b"
      using pb(1) by (intro divide_right_mono) simp_all
    also have "\<dots> \<le> x"
      unfolding x using qb(2) p q by (intro divide_left_mono) simp_all
    finally show ?thesis .
  qed
  show ?thesis
    using up lo by (simp add: flog2_def pq Let_def)
qed

lemma flog2_mono:
  assumes "0 < x" "x \<le> y" shows "flog2 x \<le> flog2 y"
proof -
  have "(2::rat) powi flog2 x < 2 powi (flog2 y + 1)"
    using flog2_bounds [of x] flog2_bounds [of y] assms by linarith
  then show ?thesis using powi_less_imp by fastforce
qed

section \<open>Rounding to the nearest double\<close>

text \<open>Nearest integer, ties to even.\<close>

definition rne :: "rat \<Rightarrow> int" where
  "rne x =
     (let f = \<lfloor>x\<rfloor>; d = x - of_int f
      in if d < 1 / 2 then f else if 1 / 2 < d then f + 1
         else if even f then f else f + 1)"

lemma rne_of_int [simp]: "rne (of_int n) = n"
  by (simp add: rne_def)

lemma rne_bounds: "\<lfloor>x\<rfloor> \<le> rne x \<and> rne x \<le> \<lfloor>x\<rfloor> + 1"
  by (simp add: rne_def Let_def)

lemma rne_mono: assumes "x \<le> y" shows "rne x \<le> rne y"
proof (cases "\<lfloor>x\<rfloor> = \<lfloor>y\<rfloor>")
  case True
  with assms show ?thesis by (auto simp: rne_def Let_def)
next
  case False
  with floor_mono [OF assms] have "\<lfloor>x\<rfloor> + 1 \<le> \<lfloor>y\<rfloor>" by simp
  then show ?thesis using rne_bounds [of x] rne_bounds [of y] by linarith
qed

definition ulp_exp :: "rat \<Rightarrow> int" where
  "ulp_exp x = max (flog2 x - 52) (- 1074)"

definition fl_pos :: "rat \<Rightarrow> rat" where
  "fl_pos x = of_int (rne (x / 2 powi ulp_exp x)) * 2 powi ulp_exp x"

definition fl :: "rat \<Rightarrow> rat" where
  "fl x = (if x = 0 then 0 else if 0 < x then fl_pos x else - fl_pos (- x))"

lemma fl_0 [simp]: "fl 0 = 0"
  by (simp add: fl_def)

lemma fl_minus: "fl (- x) = - fl x"
  by (simp add: fl_def)

lemma fl_pos_fixed:
  assumes "x = of_int m * 2 powi ulp_exp x" shows "fl_pos x = x"
proof -
  have "x / 2 powi ulp_exp x = of_int m"
    using assms by (metis nonzero_mult_div_cancel_right order_less_irrefl powi_pos)
  then show ?thesis using assms by (simp add: fl_pos_def)
qed

lemma fl_pos_nonneg: "0 < x \<Longrightarrow> 0 \<le> fl_pos x"
  using rne_mono [of 0 "x / 2 powi ulp_exp x"] rne_of_int [of 0]
  by (simp add: fl_pos_def)

text \<open>
  A power of two between the exponents of two arguments separates their roundings; within one
  binade rounding is that of the integers.
\<close>

lemma powi_shift: "(2::rat) powi a = 2 powi (a - e) * 2 powi e"
  by (simp flip: power_int_add)

lemma powi_nonneg_of_int: "0 \<le> k \<Longrightarrow> (2::rat) powi k = of_int (2 ^ nat k)"
  by (simp add: power_int_def)

lemma fl_pos_le_powi:
  assumes "0 < x" "x \<le> 2 powi k" "ulp_exp x \<le> k"
  shows "fl_pos x \<le> 2 powi k"
proof -
  let ?e = "ulp_exp x"
  have k: "(2::rat) powi k = of_int (2 ^ nat (k - ?e)) * 2 powi ?e"
    using powi_shift [of k ?e] powi_nonneg_of_int [of "k - ?e"] assms(3) by simp
  have "x / 2 powi ?e \<le> of_int (2 ^ nat (k - ?e))"
    using assms(2) unfolding k by (simp add: pos_divide_le_eq)
  then have "rne (x / 2 powi ?e) \<le> 2 ^ nat (k - ?e)"
    using rne_mono rne_of_int by (metis of_int_power of_int_numeral)
  then have "(of_int (rne (x / 2 powi ?e)) :: rat) \<le> of_int (2 ^ nat (k - ?e))"
    by (simp only: of_int_le_iff)
  then show ?thesis unfolding fl_pos_def k by (simp add: mult_right_mono)
qed

lemma fl_pos_ge_powi:
  assumes "0 < x" "2 powi k \<le> x" "ulp_exp x \<le> k"
  shows "2 powi k \<le> fl_pos x"
proof -
  let ?e = "ulp_exp x"
  have k: "(2::rat) powi k = of_int (2 ^ nat (k - ?e)) * 2 powi ?e"
    using powi_shift [of k ?e] powi_nonneg_of_int [of "k - ?e"] assms(3) by simp
  have "of_int (2 ^ nat (k - ?e)) \<le> x / 2 powi ?e"
    using assms(2) unfolding k by (simp add: pos_le_divide_eq)
  then have "2 ^ nat (k - ?e) \<le> rne (x / 2 powi ?e)"
    using rne_mono rne_of_int by (metis of_int_power of_int_numeral)
  then have "(of_int (2 ^ nat (k - ?e)) :: rat) \<le> of_int (rne (x / 2 powi ?e))"
    by (simp only: of_int_le_iff)
  then show ?thesis unfolding fl_pos_def k by (simp add: mult_right_mono)
qed

lemma fl_pos_mono:
  assumes "0 < x" "x \<le> y" shows "fl_pos x \<le> fl_pos y"
proof (cases "ulp_exp x = ulp_exp y")
  case True
  have "x / 2 powi ulp_exp y \<le> y / 2 powi ulp_exp y"
    using assms(2) by (simp add: divide_right_mono)
  then show ?thesis
    unfolding fl_pos_def True using rne_mono by (simp add: mult_right_mono)
next
  case False
  have le: "flog2 x \<le> flog2 y" using flog2_mono assms by simp
  with False have y: "ulp_exp x < ulp_exp y" "ulp_exp y = flog2 y - 52"
    by (auto simp: ulp_exp_def)
  let ?k = "flog2 y"
  have "flog2 x < ?k" using y le by (auto simp: ulp_exp_def)
  then have "(2::rat) powi (flog2 x + 1) \<le> 2 powi ?k" by (intro powi_le) simp
  then have "x \<le> 2 powi ?k" using flog2_bounds [OF assms(1)] by linarith
  then have "fl_pos x \<le> 2 powi ?k" using fl_pos_le_powi assms(1) y by simp
  moreover have "2 powi ?k \<le> fl_pos y"
    using fl_pos_ge_powi [of y ?k] flog2_bounds [of y] assms y by simp
  ultimately show ?thesis by linarith
qed

lemma fl_nonneg: "0 \<le> x \<Longrightarrow> 0 \<le> fl x"
  by (cases "x = 0") (auto simp: fl_def fl_pos_nonneg)

lemma fl_nonpos: "x \<le> 0 \<Longrightarrow> fl x \<le> 0"
  using fl_nonneg [of "- x"] by (simp add: fl_minus)

lemma fl_mono: assumes "x \<le> y" shows "fl x \<le> fl y"
proof -
  consider "x \<le> 0" "0 \<le> y" | "0 < x" | "y < 0" by linarith
  then show ?thesis
  proof cases
    case 1
    then show ?thesis using fl_nonpos [of x] fl_nonneg [of y] by linarith
  next
    case 2
    with assms show ?thesis using fl_pos_mono [of x y] by (simp add: fl_def)
  next
    case 3
    with assms show ?thesis using fl_pos_mono [of "- y" "- x"] by (simp add: fl_def)
  qed
qed

lemma powi_53: "(2::rat) powi 53 = 9007199254740992"
  by (simp add: power_int_def)

lemma fl_pos_of_int:
  assumes "0 < n" "n \<le> 2 ^ 53" shows "fl_pos (of_int n) = of_int n"
proof -
  let ?x = "of_int n :: rat"
  have x: "0 < ?x" using assms by simp
  have b: "2 powi flog2 ?x \<le> ?x" using flog2_bounds [OF x] by simp
  have "(2::rat) powi flog2 ?x \<le> 2 powi 53"
    using b assms(2) of_int_le_iff [of n "2 ^ 53", where 'a = rat] by (simp add: powi_53)
  then have le53: "flog2 ?x \<le> 53"
    using powi_less_imp [of 53 "flog2 ?x"] power_int_strict_increasing [of 53 "flog2 ?x" "2::rat"]
    by fastforce
  show ?thesis
  proof (cases "flog2 ?x = 53")
    case True
    then have "(2::rat) powi 53 \<le> ?x" using b by simp
    then have "of_int (2 ^ 53) \<le> ?x" by (simp add: power_int_def)
    then have n: "n = 2 ^ 53" using assms by (simp only: of_int_le_iff)
    have "?x = of_int (2 ^ 52) * 2 powi ulp_exp ?x"
      unfolding ulp_exp_def True using n by simp
    then show ?thesis by (rule fl_pos_fixed)
  next
    case False
    with le53 have e: "ulp_exp ?x \<le> 0" by (simp add: ulp_exp_def)
    have "(1::rat) = of_int (2 ^ nat (- ulp_exp ?x)) * 2 powi ulp_exp ?x"
      using powi_shift [of 0 "ulp_exp ?x"] powi_nonneg_of_int [of "- ulp_exp ?x"] e by simp
    then have "?x = of_int (n * 2 ^ nat (- ulp_exp ?x)) * 2 powi ulp_exp ?x"
      by (metis mult.assoc mult.right_neutral of_int_mult)
    then show ?thesis by (rule fl_pos_fixed)
  qed
qed

lemma fl_of_int: "\<bar>n\<bar> \<le> 2 ^ 53 \<Longrightarrow> fl (of_int n) = of_int n"
  using fl_pos_of_int [of n] fl_pos_of_int [of "- n"] by (auto simp: fl_def)

section \<open>The laws of rounding, as an interface\<close>

locale rounding =
  fixes rnd :: "rat \<Rightarrow> rat"
  assumes rnd_mono: "x \<le> y \<Longrightarrow> rnd x \<le> rnd y"
    and rnd_of_int: "\<bar>n\<bar> \<le> 2 ^ 53 \<Longrightarrow> rnd (of_int n) = of_int n"
begin

lemma nonneg: "0 \<le> x \<Longrightarrow> 0 \<le> rnd x"
  using rnd_mono [of 0 x] rnd_of_int [of 0] by simp

lemma le_int: "x \<le> of_int n \<Longrightarrow> \<bar>n\<bar> \<le> 2 ^ 53 \<Longrightarrow> rnd x \<le> of_int n"
  using rnd_mono [of x "of_int n"] rnd_of_int [of n] by simp

lemma ge_int: "of_int n \<le> x \<Longrightarrow> \<bar>n\<bar> \<le> 2 ^ 53 \<Longrightarrow> of_int n \<le> rnd x"
  using rnd_mono [of "of_int n" x] rnd_of_int [of n] by simp

lemma between_floor_ceiling:
  assumes "\<bar>x\<bar> \<le> 2 ^ 53"
  shows "of_int \<lfloor>x\<rfloor> \<le> rnd x \<and> rnd x \<le> of_int \<lceil>x\<rceil>"
proof -
  have "x \<le> of_int (2 ^ 53)" "of_int (- (2 ^ 53)) \<le> x"
    using assms by simp_all
  then have c: "\<lceil>x\<rceil> \<le> 2 ^ 53" "- (2 ^ 53) \<le> \<lfloor>x\<rfloor>"
    by (simp_all only: ceiling_le_iff le_floor_iff)
  moreover have "\<lfloor>x\<rfloor> \<le> \<lceil>x\<rceil>" "\<lceil>x\<rceil> \<le> \<lfloor>x\<rfloor> + 1" by linarith+
  ultimately have b: "\<bar>\<lfloor>x\<rfloor>\<bar> \<le> 2 ^ 53" "\<bar>\<lceil>x\<rceil>\<bar> \<le> 2 ^ 53" by linarith+
  show ?thesis using ge_int [of "\<lfloor>x\<rfloor>" x] le_int [of x "\<lceil>x\<rceil>"] b by simp
qed

end

interpretation dbl: rounding fl
  by unfold_locales (simp_all add: fl_mono fl_of_int)

section \<open>Arithmetic and Math.round\<close>

definition js_mul :: "rat \<Rightarrow> rat \<Rightarrow> rat" where "js_mul a b = fl (a * b)"
definition js_div :: "rat \<Rightarrow> rat \<Rightarrow> rat" where "js_div a b = fl (a / b)"
definition js_add :: "rat \<Rightarrow> rat \<Rightarrow> rat" where "js_add a b = fl (a + b)"
definition js_sub :: "rat \<Rightarrow> rat \<Rightarrow> rat" where "js_sub a b = fl (a - b)"

text \<open>Evaluating a rounding: the binade of the value, then its nearest multiple of the unit.\<close>

lemma flog2_eq:
  assumes "2 powi k \<le> x" "x < 2 powi (k + 1)"
  shows "flog2 x = k"
proof -
  have "0 < x" using assms(1) powi_pos [of k] by linarith
  from flog2_bounds [OF this] show ?thesis
    using assms powi_less_imp [of k "flog2 x + 1"] powi_less_imp [of "flog2 x" "k + 1"] by linarith
qed

lemma fl_eval:
  assumes "2 powi k \<le> x" "x < 2 powi (k + 1)" "- 1022 \<le> k" "rne (x / 2 powi (k - 52)) = m"
  shows "fl x = of_int m * 2 powi (k - 52)"
proof -
  have "0 < x" using assms(1) powi_pos [of k] by linarith
  moreover have "ulp_exp x = k - 52" using flog2_eq [OF assms(1,2)] assms(3) by (simp add: ulp_exp_def)
  ultimately show ?thesis using assms(4) by (simp add: fl_def fl_pos_def)
qed

lemma rne_eq: "\<lfloor>x\<rfloor> = f \<Longrightarrow> x - of_int f < 1 / 2 \<Longrightarrow> rne x = f"
  "\<lfloor>x\<rfloor> = f \<Longrightarrow> 1 / 2 < x - of_int f \<Longrightarrow> rne x = f + 1"
  by (simp_all add: rne_def)

text \<open>\<open>Math.round\<close>: the nearest integer, ties towards plus infinity.\<close>

definition js_round :: "rat \<Rightarrow> int" where
  "js_round x = \<lfloor>x + 1 / 2\<rfloor>"

lemma js_round_of_int [simp]: "js_round (of_int n) = n"
  by (simp add: js_round_def floor_eq_iff)

lemma js_round_mono: "x \<le> y \<Longrightarrow> js_round x \<le> js_round y"
  by (simp add: js_round_def floor_mono)

lemma js_round_le_int: "x \<le> of_int n \<Longrightarrow> js_round x \<le> n"
  using js_round_mono [of x "of_int n"] by simp

lemma js_round_ge_int: "of_int n \<le> x \<Longrightarrow> n \<le> js_round x"
  using js_round_mono [of "of_int n" x] by simp

lemma js_round_nonneg: "0 \<le> x \<Longrightarrow> 0 \<le> js_round x"
  using js_round_ge_int [of 0 x] by simp

lemma js_mul_nonneg: "0 \<le> a \<Longrightarrow> 0 \<le> b \<Longrightarrow> 0 \<le> js_mul a b"
  by (simp add: js_mul_def dbl.nonneg)

lemma js_div_nonneg: "0 \<le> a \<Longrightarrow> 0 \<le> b \<Longrightarrow> 0 \<le> js_div a b"
  by (simp add: js_div_def dbl.nonneg)

lemma js_mul_mono: "a \<le> a' \<Longrightarrow> 0 \<le> c \<Longrightarrow> js_mul a c \<le> js_mul a' c"
  by (simp add: js_mul_def fl_mono mult_right_mono)

lemma js_div_mono: "a \<le> a' \<Longrightarrow> 0 \<le> c \<Longrightarrow> js_div a c \<le> js_div a' c"
  by (simp add: js_div_def fl_mono divide_right_mono)

lemma js_mul_of_int:
  "\<bar>a * b\<bar> \<le> 2 ^ 53 \<Longrightarrow> js_mul (of_int a) (of_int b) = of_int (a * b)"
  using fl_of_int [of "a * b"] by (simp add: js_mul_def)

lemma js_div_self_of_int:
  "\<bar>a\<bar> \<le> 2 ^ 53 \<Longrightarrow> b \<noteq> 0 \<Longrightarrow> js_div (of_int (a * b)) (of_int b) = of_int a"
  using fl_of_int [of a] by (simp add: js_div_def)

section \<open>Rounding errors\<close>

lemma rne_error: "\<bar>of_int (rne x) - x\<bar> \<le> 1 / 2"
proof -
  have "of_int \<lfloor>x\<rfloor> \<le> x" "x < of_int \<lfloor>x\<rfloor> + 1" by linarith+
  then show ?thesis unfolding rne_def Let_def by (simp add: abs_le_iff)
qed

lemma fl_error:
  assumes "2 powi (- 1022) \<le> x"
  shows "x * (1 - 1 / 2 ^ 53) \<le> fl x" "fl x \<le> x * (1 + 1 / 2 ^ 53)"
proof -
  have pos: "0 < x" using assms powi_pos [of "- 1022"] by linarith
  have lb: "2 powi flog2 x \<le> x" and ub: "x < 2 powi (flog2 x + 1)" using flog2_bounds [OF pos] by auto
  have "(2::rat) powi (- 1022) < 2 powi (flog2 x + 1)" using assms ub by linarith
  then have "- 1022 \<le> flog2 x" using powi_less_imp by fastforce
  then have e: "ulp_exp x = flog2 x - 52" by (simp add: ulp_exp_def)
  let ?u = "(2::rat) powi ulp_exp x"
  have u: "?u = 2 powi flog2 x / 2 ^ 52" unfolding e by (simp add: power_int_diff powi_of_nat [of 52, simplified])
  have "fl x - x = (of_int (rne (x / ?u)) - x / ?u) * ?u"
    using pos powi_pos [of "ulp_exp x"] by (simp add: fl_def fl_pos_def left_diff_distrib)
  then have "\<bar>fl x - x\<bar> \<le> 1 / 2 * ?u"
    using mult_right_mono [OF rne_error [of "x / ?u"], of ?u] powi_pos [of "ulp_exp x"] by (simp add: abs_mult)
  also have "\<dots> \<le> x / 2 ^ 53" using lb by (simp add: u field_simps)
  finally have "\<bar>fl x - x\<bar> \<le> x / 2 ^ 53" .
  then have "\<bar>fl x - x\<bar> \<le> x * (1 / 2 ^ 53)" by (simp only: times_divide_eq_right mult_1_right)
  moreover have "\<bar>y - x\<bar> \<le> x * c \<Longrightarrow> x * (1 - c) \<le> y \<and> y \<le> x * (1 + c)" for y c :: rat
    by (simp add: right_diff_distrib distrib_left abs_le_iff)
  ultimately show "x * (1 - 1 / 2 ^ 53) \<le> fl x" "fl x \<le> x * (1 + 1 / 2 ^ 53)" by blast+
qed

lemma small_powi: "(2::rat) powi (- 1022) \<le> 1 / 2000"
proof -
  have "(2::rat) powi (- 1022) \<le> 2 powi (- 11)" by (rule powi_le) simp
  also have "\<dots> = 1 / 2 ^ 11" by (simp add: power_int_minus powi_of_nat [of 11, simplified] inverse_eq_divide)
  also have "\<dots> \<le> (1 :: rat) / 2000" by simp
  finally show ?thesis .
qed

lemma round_product_exact:
  assumes "s * p * q = of_int K" "1 / 1000 \<le> s" "1 \<le> p" "1 \<le> q" "K \<le> 2 ^ 40"
  shows "js_round (js_mul (js_mul (fl s) p) q) = K"
proof -
  define lo hi d :: rat where "lo = 1 - 1 / 2 ^ 53" and "hi = 1 + 1 / 2 ^ 53" and "d = 4 / 2 ^ 53"
  have lo: "0 < lo" "1 / 2 \<le> lo * lo" "1 - d \<le> lo ^ 3" and hi: "0 < hi" "hi ^ 3 \<le> 1 + d"
    unfolding lo_def hi_def d_def by (simp_all add: power3_eq_cube)
  have step: "L * lo \<le> fl x \<and> fl x \<le> H * hi" if "L \<le> x" "x \<le> H" "1 / 2000 \<le> L" for L H x
  proof -
    have "2 powi (- 1022) \<le> x" using small_powi that(1,3) by linarith
    note fe = fl_error [OF this, folded lo_def hi_def]
    have "L * lo \<le> x * lo" "x * hi \<le> H * hi" using that lo(1) hi(1) by (auto intro!: mult_right_mono)
    then show ?thesis using fe by linarith
  qed
  have s: "0 < s" "0 < p" "0 < q" using assms(2,3,4) by linarith+
  have sp: "1 / 1000 \<le> s * p" using mult_mono [OF assms(2,3)] s by simp
  have spq: "1 / 1000 \<le> s * p * q" using mult_mono [OF sp assms(4)] s by simp
  have lo1: "1 / 2 \<le> lo" "lo \<le> 1" unfolding lo_def by simp_all
  have half: "1 / 2000 \<le> y * l" if "1 / 1000 \<le> y" "1 / 2 \<le> l" for y l :: rat
    using mult_mono [OF that] that(1) by simp
  have a: "s * lo \<le> fl s" "fl s \<le> s * hi" using step [of s s s] assms(2) by auto
  have "s * lo * p \<le> fl s * p" "fl s * p \<le> s * hi * p" using a s by (auto intro!: mult_right_mono)
  moreover have "1 / 2000 \<le> s * lo * p" using half [OF sp lo1(1)] by (simp only: mult_ac)
  ultimately have b: "s * lo * p * lo \<le> js_mul (fl s) p" "js_mul (fl s) p \<le> s * hi * p * hi"
    unfolding js_mul_def using step by blast+
  have "s * lo * p * lo * q \<le> js_mul (fl s) p * q" "js_mul (fl s) p * q \<le> s * hi * p * hi * q"
    using b s by (auto intro!: mult_right_mono)
  moreover have "1 / 2000 \<le> s * lo * p * lo * q" using half [OF spq lo(2)] by (simp only: mult_ac)
  ultimately have c: "s * lo * p * lo * q * lo \<le> js_mul (js_mul (fl s) p) q"
      "js_mul (js_mul (fl s) p) q \<le> s * hi * p * hi * q * hi"
    unfolding js_mul_def [of "js_mul (fl s) p"] using step by blast+
  have eq: "s * lo * p * lo * q * lo = of_int K * lo ^ 3" "s * hi * p * hi * q * hi = of_int K * hi ^ 3"
    unfolding assms(1) [symmetric] by (simp_all only: power3_eq_cube mult_ac)
  have K: "0 < (of_int K :: rat)" unfolding assms(1) [symmetric] using s by simp
  have ends: "of_int K * (1 - d) \<le> of_int K * lo ^ 3" "of_int K * hi ^ 3 \<le> of_int K * (1 + d)"
    using K lo(3) hi(2) by (auto intro!: mult_left_mono)
  have "(of_int K :: rat) \<le> of_int (2 ^ 40)" using assms(5) by (rule of_int_le_iff [THEN iffD2])
  then have "(of_int K :: rat) * d \<le> of_int (2 ^ 40) * d" by (rule mult_right_mono) (simp add: d_def)
  moreover have "of_int (2 ^ 40) * d < 1 / 2" by (simp add: d_def)
  ultimately have small: "(of_int K :: rat) * d < 1 / 2" by linarith
  have near: "k * (1 - e) \<le> y \<Longrightarrow> y \<le> k * (1 + e) \<Longrightarrow> k * e < 1 / 2 \<Longrightarrow> k - 1 / 2 < y \<and> y < k + 1 / 2" for k e y :: rat
    by (simp add: right_diff_distrib distrib_left)
  have "of_int K - 1 / 2 < js_mul (js_mul (fl s) p) q \<and> js_mul (js_mul (fl s) p) q < of_int K + 1 / 2"
    by (rule near [OF order_trans [OF ends(1) c(1) [unfolded eq(1)]] order_trans [OF c(2) [unfolded eq(2)] ends(2)] small])
  then show ?thesis unfolding js_round_def by (intro floor_unique) linarith+
qed

end
