(* ===== verification/JS_Date.thy ===== *)
theory JS_Date
  imports Prelude
begin

text \<open>
  The \<open>Date\<close> arithmetic the program uses, after the ECMAScript specification (Time Values and
  Time Range): \<open>Date.UTC\<close> with its normalisation of months and days, and the UTC getters.
  Months count from 0, as in JavaScript.  The two round trips (fields of a constructed date,
  and the date constructed from the fields of an instant) carry every calendar argument of the
  other theories.
\<close>

definition msPerDay :: int where "msPerDay = 86400000"

definition leap :: "int \<Rightarrow> bool" where
  "leap y \<longleftrightarrow> 4 dvd y \<and> (\<not> 100 dvd y \<or> 400 dvd y)"

definition leap_day :: "int \<Rightarrow> int" where
  "leap_day y = (if leap y then 1 else 0)"

definition day_from_year :: "int \<Rightarrow> int" where
  "day_from_year y =
     365 * (y - 1970) + (y - 1969) div 4 - (y - 1901) div 100 + (y - 1601) div 400"

text \<open>Days of the year before month \<open>m\<close>; \<open>l\<close> is 1 in a leap year.\<close>

definition month_start :: "int \<Rightarrow> int \<Rightarrow> int" where
  "month_start l m =
     (if m \<le> 0 then 0 else if m = 1 then 31 else if m = 2 then 59 + l else if m = 3 then 90 + l
      else if m = 4 then 120 + l else if m = 5 then 151 + l else if m = 6 then 181 + l
      else if m = 7 then 212 + l else if m = 8 then 243 + l else if m = 9 then 273 + l
      else if m = 10 then 304 + l else if m = 11 then 334 + l else 365 + l)"

definition month_of_yday :: "int \<Rightarrow> int \<Rightarrow> int" where
  "month_of_yday l d =
     (if d < 31 then 0 else if d < 59 + l then 1 else if d < 90 + l then 2
      else if d < 120 + l then 3 else if d < 151 + l then 4 else if d < 181 + l then 5
      else if d < 212 + l then 6 else if d < 243 + l then 7 else if d < 273 + l then 8
      else if d < 304 + l then 9 else if d < 334 + l then 10 else 11)"

definition days_in_month :: "int \<Rightarrow> int \<Rightarrow> int" where
  "days_in_month y m = month_start (leap_day y) (m + 1) - month_start (leap_day y) m"

text \<open>MakeDay: the day number of a year, a month of any size and a day of any size.\<close>

definition make_day :: "int \<Rightarrow> int \<Rightarrow> int \<Rightarrow> int" where
  "make_day y m d =
     (let ym = y + m div 12; mn = m mod 12
      in day_from_year ym + month_start (leap_day ym) mn + (d - 1))"

text \<open>\<open>Date.UTC\<close>: the years 0 to 99 mean 1900 to 1999.\<close>

definition date_UTC :: "int \<Rightarrow> int \<Rightarrow> int \<Rightarrow> int \<Rightarrow> int \<Rightarrow> int \<Rightarrow> int \<Rightarrow> instant" where
  "date_UTC y m d h mi s ms =
     make_day (if 0 \<le> y \<and> y \<le> 99 then 1900 + y else y) m d * msPerDay
       + (h * 3600000 + mi * 60000 + s * 1000 + ms)"

definition year_of_day :: "int \<Rightarrow> int" where
  "year_of_day n =
     (let y = 1970 + (400 * n) div 146097
      in if n < day_from_year y then y - 1
         else if day_from_year (y + 1) \<le> n then y + 1 else y)"

definition getDay :: "instant \<Rightarrow> int" where "getDay t = t div msPerDay"
definition getTimeOfDay :: "instant \<Rightarrow> int" where "getTimeOfDay t = t mod msPerDay"

definition getUTCFullYear :: "instant \<Rightarrow> int" where
  "getUTCFullYear t = year_of_day (getDay t)"

definition yday :: "instant \<Rightarrow> int" where
  "yday t = getDay t - day_from_year (getUTCFullYear t)"

definition getUTCMonth :: "instant \<Rightarrow> int" where
  "getUTCMonth t = month_of_yday (leap_day (getUTCFullYear t)) (yday t)"

definition getUTCDate :: "instant \<Rightarrow> int" where
  "getUTCDate t = yday t - month_start (leap_day (getUTCFullYear t)) (getUTCMonth t) + 1"

definition getUTCHours :: "instant \<Rightarrow> int" where "getUTCHours t = getTimeOfDay t div 3600000"
definition getUTCMinutes :: "instant \<Rightarrow> int" where "getUTCMinutes t = getTimeOfDay t div 60000 mod 60"
definition getUTCSeconds :: "instant \<Rightarrow> int" where "getUTCSeconds t = getTimeOfDay t div 1000 mod 60"
definition getUTCMilliseconds :: "instant \<Rightarrow> int" where "getUTCMilliseconds t = getTimeOfDay t mod 1000"

text \<open>Day of the week, 0 is Sunday (1 January 1970 was a Thursday).\<close>

definition getUTCDay :: "instant \<Rightarrow> int" where "getUTCDay t = (getDay t + 4) mod 7"

section \<open>Years\<close>

lemma div_step: 
  fixes a k :: int assumes "0 < k" shows "(a + 1) div k - a div k = (if k dvd a + 1 then 1 else 0)"
proof (cases "k dvd a + 1")
  case True
  then obtain c where c: "a + 1 = k * c" by (rule dvdE)
  have "a div k = c - 1"
    by (rule int_div_pos_eq [where r = "k - 1"]) (use c assms in \<open>simp_all add: algebra_simps\<close>)
  then show ?thesis using True c assms by simp
next
  case False
  have eq: "a + 1 = k * (a div k) + (a mod k + 1)" by simp
  have "a mod k + 1 \<noteq> k"
  proof
    assume "a mod k + 1 = k"
    then have "a + 1 = k * (a div k + 1)" using eq by (simp add: algebra_simps)
    then show False using False by (metis dvd_triv_left)
  qed
  then have "a mod k + 1 < k" using pos_mod_bound [OF assms, of a] by linarith
  then have "(a + 1) div k = a div k"
    using pos_mod_sign [OF assms, of a] by (intro int_div_pos_eq [OF eq]) simp_all
  then show ?thesis using False by simp
qed
lemma dvd_off: "(k::int) dvd c \<Longrightarrow> k dvd (y - c) \<longleftrightarrow> k dvd y"
  using dvd_diff_left_iff by blast
lemma leap_sum:
  "(c \<Longrightarrow> b) \<Longrightarrow> (b \<Longrightarrow> a) \<Longrightarrow>
     (if a then 1 else 0) - (if b then 1 else 0) + (if c then 1 else 0)
       = (if a \<and> (\<not> b \<or> c) then 1 else (0::int))"
  by (cases a; cases b; cases c) simp_all

lemma day_from_year_Suc: "day_from_year (y + 1) = day_from_year y + 365 + leap_day y"
proof -
  have 4: "(y - 1968) div 4 = (y - 1969) div 4 + (if 4 dvd y then 1 else 0)"
    using div_step [of 4 "y - 1969"] dvd_off [of 4 1968 y] by simp
  have 100: "(y - 1900) div 100 = (y - 1901) div 100 + (if 100 dvd y then 1 else 0)"
    using div_step [of 100 "y - 1901"] dvd_off [of 100 1900 y] by simp
  have 400: "(y - 1600) div 400 = (y - 1601) div 400 + (if 400 dvd y then 1 else 0)"
    using div_step [of 400 "y - 1601"] dvd_off [of 400 1600 y] by simp
  have dv: "400 dvd y \<Longrightarrow> 100 dvd y" "100 dvd y \<Longrightarrow> 4 dvd y" 
    by (rule dvd_trans [of _ 400 y], simp_all) (rule dvd_trans [of _ 100 y], simp_all)
  have "day_from_year (y + 1)
      = 365 * (y - 1970) + 365 + (y - 1968) div 4 - (y - 1900) div 100 + (y - 1600) div 400"
    by (simp add: day_from_year_def)
  then have "day_from_year (y + 1) = day_from_year y + 365 + (if 4 dvd y then 1 else 0)
      - (if 100 dvd y then 1 else 0) + (if 400 dvd y then 1 else 0)"
    unfolding 4 100 400 day_from_year_def by linarith
  moreover have "(if 4 dvd y then 1 else 0) - (if 100 dvd y then 1 else 0) + (if 400 dvd y then 1 else 0)
      = leap_day y"
    unfolding leap_day_def leap_def by (rule leap_sum) (fact dv)+
  ultimately show ?thesis by linarith
qed

lemma div_bounds: "0 < k \<Longrightarrow> k * (a div k) \<le> a \<and> a < k * (a div k) + k" for a k :: int
  using pos_mod_sign [of k a] pos_mod_bound [of k a] mult_div_mod_eq [of k a] by linarith

lemma day_from_year_bounds:
  "146097 * (y - 1970) - 800 \<le> 400 * day_from_year y
   \<and> 400 * day_from_year y \<le> 146097 * (y - 1970) + 800"
proof -
  define a b c where "a = (y - 1969) div 4" and "b = (y - 1901) div 100" and "c = (y - 1601) div 400"
  have "4 * a \<le> y - 1969" "y - 1969 < 4 * a + 4" "100 * b \<le> y - 1901" "y - 1901 < 100 * b + 100"
    "400 * c \<le> y - 1601" "y - 1601 < 400 * c + 400"
    using div_bounds [of 4 "y - 1969"] div_bounds [of 100 "y - 1901"] div_bounds [of 400 "y - 1601"]
    unfolding a_def b_def c_def by simp_all
  then show ?thesis unfolding day_from_year_def a_def [symmetric] b_def [symmetric] c_def [symmetric]
    by (simp add: algebra_simps)
qed
lemma year_of_day_bounds: "day_from_year (year_of_day n) \<le> n \<and> n < day_from_year (year_of_day n + 1)"
proof -
  define y where "y = 1970 + (400 * n) div 146097"
  have e: "146097 * (y - 1970) \<le> 400 * n" "400 * n < 146097 * (y - 1970) + 146097"
    using div_bounds [of 146097 "400 * n"] unfolding y_def by simp_all
  have "day_from_year (y - 1) \<le> n" "n < day_from_year (y + 2)"
    using e day_from_year_bounds [of "y - 1"] day_from_year_bounds [of "y + 2"]
    by (simp_all add: algebra_simps)
  then show ?thesis 
    unfolding year_of_day_def Let_def y_def [symmetric]
    by (cases "n < day_from_year y"; cases "day_from_year (y + 1) \<le> n") (simp_all add: add.commute)
qed
lemma day_from_year_mono: "x \<le> y \<Longrightarrow> day_from_year x \<le> day_from_year y"
proof (induction "nat (y - x)" arbitrary: y)
  case 0 then show ?case by simp
next
  case (Suc n)
  then have "day_from_year x \<le> day_from_year (y - 1)" by (intro Suc.hyps) auto
  then show ?case using day_from_year_Suc [of "y - 1"] by (simp add: leap_day_def split: if_splits)
qed
lemma year_of_day_eq:
  assumes "day_from_year y \<le> n" "n < day_from_year (y + 1)" shows "year_of_day n = y"
proof (rule ccontr)
  assume "year_of_day n \<noteq> y"
  then consider "year_of_day n + 1 \<le> y" | "y + 1 \<le> year_of_day n" by linarith
  then show False
    using year_of_day_bounds [of n] day_from_year_mono [of "year_of_day n + 1" y]
      day_from_year_mono [of "y + 1" "year_of_day n"] assms by cases linarith+
qed


section \<open>Months\<close>

lemma leap_day_cases: "leap_day y = 0 \<or> leap_day y = 1"
  by (simp add: leap_day_def)

lemma month_of_yday_range: "0 \<le> month_of_yday l d \<and> month_of_yday l d \<le> 11"
  by (simp add: month_of_yday_def)

lemma month_of_yday_bounds:
  assumes "l = 0 \<or> l = 1" "0 \<le> d" "d < 365 + l"
  shows "month_start l (month_of_yday l d) \<le> d \<and> d < month_start l (month_of_yday l d + 1)"
  using assms unfolding month_of_yday_def month_start_def by auto

lemma month_cases:
  assumes "0 \<le> m" "m \<le> (11::int)"
  shows "m = 0 \<or> m = 1 \<or> m = 2 \<or> m = 3 \<or> m = 4 \<or> m = 5 \<or> m = 6 \<or> m = 7 \<or> m = 8 \<or> m = 9 \<or> m = 10 \<or> m = 11"
  using assms by arith

lemma month_of_yday_eq:
  assumes "l = 0 \<or> l = 1" "0 \<le> m" "m \<le> 11" "month_start l m \<le> d" "d < month_start l (m + 1)"
  shows "month_of_yday l d = m"
  using month_cases [OF assms(2,3)] assms(1,4,5)
  by (elim disjE) (simp_all add: month_of_yday_def month_start_def)

lemma month_start_bounds:
  assumes "l = 0 \<or> l = 1" "0 \<le> m" "m \<le> 11"
  shows "0 \<le> month_start l m \<and> month_start l (m + 1) \<le> 365 + l \<and> 28 \<le> month_start l (m + 1) - month_start l m"
  using month_cases [OF assms(2,3)] assms(1) by (elim disjE) (simp_all add: month_start_def)

lemma days_in_month_bounds:
  assumes "0 \<le> m" "m \<le> 11"
  shows "28 \<le> days_in_month y m \<and> days_in_month y m \<le> 31"
  using month_cases [OF assms] leap_day_cases [of y]
  by (elim disjE) (simp_all add: days_in_month_def month_start_def)

section \<open>Round trips\<close>

lemma getTimeOfDay_bounds: "0 \<le> getTimeOfDay t \<and> getTimeOfDay t < 86400000"
  by (simp add: getTimeOfDay_def msPerDay_def)

lemma yday_bounds: "0 \<le> yday t \<and> yday t < 365 + leap_day (getUTCFullYear t)"
  using year_of_day_bounds [of "getDay t"] day_from_year_Suc [of "getUTCFullYear t"]
  by (simp add: yday_def getUTCFullYear_def)

lemma getUTCMonth_bounds: "0 \<le> getUTCMonth t \<and> getUTCMonth t \<le> 11"
  using month_of_yday_range by (simp add: getUTCMonth_def)

lemma getUTCDate_bounds:
  "1 \<le> getUTCDate t \<and> getUTCDate t \<le> days_in_month (getUTCFullYear t) (getUTCMonth t)"
  using month_of_yday_bounds [OF leap_day_cases, of "yday t" "getUTCFullYear t"] yday_bounds [of t]
  by (simp add: getUTCDate_def getUTCMonth_def days_in_month_def)

lemma getDay_make_day: "make_day (getUTCFullYear t) (getUTCMonth t) (getUTCDate t) = getDay t"
  using getUTCMonth_bounds [of t]
  by (simp add: make_day_def getUTCDate_def yday_def div_pos_pos_trivial mod_pos_pos_trivial Let_def)

lemma tod_fields:
  "getUTCHours t * 3600000 + getUTCMinutes t * 60000 + getUTCSeconds t * 1000 + getUTCMilliseconds t
     = getTimeOfDay t"
proof -
  define u where "u = getTimeOfDay t"
  have h: "u div 3600000 = u div 60000 div 60" and m: "u div 60000 = u div 1000 div 60"
    by (simp_all add: zdiv_zmult2_eq [symmetric])
  have "u div 60000 = u div 60000 div 60 * 60 + u div 60000 mod 60"
    "u div 1000 = u div 1000 div 60 * 60 + u div 1000 mod 60" "u = u div 1000 * 1000 + u mod 1000"
    by simp_all
  then show ?thesis
    unfolding getUTCHours_def getUTCMinutes_def getUTCSeconds_def getUTCMilliseconds_def u_def [symmetric] h
    using m by linarith
qed

lemma day_split: "getDay t * msPerDay + getTimeOfDay t = t"
  by (simp add: getDay_def getTimeOfDay_def)

theorem date_UTC_of_fields:
  assumes "100 \<le> getUTCFullYear t"
  shows "date_UTC (getUTCFullYear t) (getUTCMonth t) (getUTCDate t)
           (getUTCHours t) (getUTCMinutes t) (getUTCSeconds t) (getUTCMilliseconds t) = t"
  using assms by (simp add: date_UTC_def getDay_make_day tod_fields day_split)

lemma getDay_plus: "0 \<le> u \<Longrightarrow> u < 86400000 \<Longrightarrow> getDay (n * msPerDay + u) = n"
  by (simp add: getDay_def msPerDay_def)

lemma getTimeOfDay_plus: "0 \<le> u \<Longrightarrow> u < 86400000 \<Longrightarrow> getTimeOfDay (n * msPerDay + u) = u"
  by (simp add: getTimeOfDay_def msPerDay_def)

text \<open>The fields of day number \<open>make_day y m d\<close>, for a month in range and a day of that month.\<close>

lemma make_day_fields:
  assumes m: "0 \<le> m" "m \<le> 11" and d: "1 \<le> d" "d \<le> days_in_month y m"
    and t: "getDay t = make_day y m d"
  shows "getUTCFullYear t = y \<and> getUTCMonth t = m \<and> getUTCDate t = d"
proof -
  let ?l = "leap_day y"
  have day: "getDay t = day_from_year y + month_start ?l m + (d - 1)"
    using m t by (simp add: make_day_def div_pos_pos_trivial mod_pos_pos_trivial Let_def)
  have b: "0 \<le> month_start ?l m" "month_start ?l (m + 1) \<le> 365 + ?l"
    using month_start_bounds [OF leap_day_cases m, of y] by simp_all
  have y: "getUTCFullYear t = y"
    unfolding getUTCFullYear_def day
    using b d day_from_year_Suc [of y] by (intro year_of_day_eq) (simp_all add: days_in_month_def)
  then have yd: "yday t = month_start ?l m + (d - 1)" by (simp add: yday_def day)
  have "getUTCMonth t = m"
    unfolding getUTCMonth_def y yd using m d
    by (intro month_of_yday_eq [OF leap_day_cases]) (simp_all add: days_in_month_def)
  with y yd show ?thesis by (simp add: getUTCDate_def)
qed

lemma getDay_date_UTC:
  assumes "100 \<le> y" "0 \<le> h * 3600000 + mi * 60000 + s * 1000 + ms"
    "h * 3600000 + mi * 60000 + s * 1000 + ms < 86400000"
  shows "getDay (date_UTC y m d h mi s ms) = make_day y m d
    \<and> getTimeOfDay (date_UTC y m d h mi s ms) = h * 3600000 + mi * 60000 + s * 1000 + ms"
  using assms getDay_plus [OF assms(2,3)] getTimeOfDay_plus [OF assms(2,3)] by (simp add: date_UTC_def)

lemma make_day_norm: "make_day y m d = make_day (y + m div 12) (m mod 12) d"
  by (simp add: make_day_def Let_def)

lemma make_day_shift: "make_day y m d = make_day y m 1 + (d - 1)"
  by (simp add: make_day_def Let_def)

text \<open>The first of the next month is the day after the last of this one.\<close>

lemma make_day_next_month:
  assumes "0 \<le> m" "m \<le> 11"
  shows "make_day y (m + 1) 1 = make_day y m 1 + days_in_month y m"
proof (cases "m = 11")
  case True
  then show ?thesis
    using day_from_year_Suc [of y] by (simp add: make_day_def days_in_month_def month_start_def)
next
  case False
  with assms show ?thesis
    by (simp add: make_day_def days_in_month_def div_pos_pos_trivial mod_pos_pos_trivial Let_def)
qed

lemma getUTCFullYear_epoch: "0 \<le> t \<Longrightarrow> 1970 \<le> getUTCFullYear t"
proof (rule ccontr)
  assume t: "0 \<le> t" "\<not> 1970 \<le> getUTCFullYear t"
  have "getDay t < day_from_year (getUTCFullYear t + 1)"
    using year_of_day_bounds [of "getDay t"] by (simp add: getUTCFullYear_def)
  also have "\<dots> \<le> day_from_year 1970" using t(2) by (intro day_from_year_mono) simp
  also have "\<dots> = 0" by (simp add: day_from_year_def)
  finally show False using t(1) by (simp add: getDay_def msPerDay_def div_neg_pos_less0 pos_imp_zdiv_neg_iff)
qed

end
