(* ===== verification/JS_String.thy ===== *)
theory JS_String
  imports Prelude
begin

text \<open>
  The string operations of the source, on ASCII text (\<open>string\<close> is a list of characters):
  \<open>split\<close>, \<open>join\<close>, \<open>trim\<close>, \<open>startsWith\<close>, \<open>endsWith\<close>, \<open>str_includes\<close>, \<open>indexOf\<close>, \<open>slice\<close>,
  \<open>padStart\<close>, \<open>toLowerCase\<close>, \<open>toUpperCase\<close>, and decimal printing and reading of integers.
\<close>

section \<open>Characters\<close>

text \<open>White space of \<open>trim\<close> and \<open>\s\<close>: tab to carriage return, space, no-break space.\<close>

definition is_space :: "char \<Rightarrow> bool" where
  "is_space c \<longleftrightarrow> (let n = of_char c :: nat in (9 \<le> n \<and> n \<le> 13) \<or> n = 32 \<or> n = 160)"

definition is_digit :: "char \<Rightarrow> bool" where
  "is_digit c \<longleftrightarrow> (let n = of_char c :: nat in 48 \<le> n \<and> n \<le> 57)"

definition is_upper :: "char \<Rightarrow> bool" where
  "is_upper c \<longleftrightarrow> (let n = of_char c :: nat in 65 \<le> n \<and> n \<le> 90)"

definition is_lower :: "char \<Rightarrow> bool" where
  "is_lower c \<longleftrightarrow> (let n = of_char c :: nat in 97 \<le> n \<and> n \<le> 122)"

definition is_alpha :: "char \<Rightarrow> bool" where
  "is_alpha c \<longleftrightarrow> is_upper c \<or> is_lower c"

definition is_hex :: "char \<Rightarrow> bool" where
  "is_hex c \<longleftrightarrow> is_digit c \<or> (let n = of_char c :: nat in (97 \<le> n \<and> n \<le> 102) \<or> (65 \<le> n \<and> n \<le> 70))"

text \<open>\<open>\w\<close> of a regular expression.\<close>

definition is_word :: "char \<Rightarrow> bool" where
  "is_word c \<longleftrightarrow> is_alpha c \<or> is_digit c \<or> c = CHR ''_''"

text \<open>
  Case conversion of Latin 1.  The three letters whose upper case is not one Latin 1 character (sharp s,
  micro sign, y with diaeresis) are left as they are by \<open>upper_char\<close>.
\<close>

definition lower_char :: "char \<Rightarrow> char" where
  "lower_char c =
     (let n = of_char c :: nat
      in if is_upper c \<or> 192 \<le> n \<and> n \<le> 222 \<and> n \<noteq> 215 then char_of (n + 32) else c)"

definition upper_char :: "char \<Rightarrow> char" where
  "upper_char c =
     (let n = of_char c :: nat
      in if is_lower c \<or> 224 \<le> n \<and> n \<le> 254 \<and> n \<noteq> 247 then char_of (n - 32) else c)"

definition toLowerCase :: "string \<Rightarrow> string" where "toLowerCase = map lower_char"
definition toUpperCase :: "string \<Rightarrow> string" where "toUpperCase = map upper_char"

lemma lower_char_idem [simp]: "lower_char (lower_char c) = lower_char c"
  by (auto simp: lower_char_def is_upper_def Let_def)

lemma toLowerCase_idem [simp]: "toLowerCase (toLowerCase s) = toLowerCase s"
  by (simp add: toLowerCase_def comp_def)

lemma length_toLowerCase [simp]: "length (toLowerCase s) = length s"
  by (simp add: toLowerCase_def)

section \<open>Searching and cutting\<close>

definition startsWith :: "string \<Rightarrow> string \<Rightarrow> bool" where
  "startsWith s p \<longleftrightarrow> take (length p) s = p"

definition endsWith :: "string \<Rightarrow> string \<Rightarrow> bool" where
  "endsWith s p \<longleftrightarrow> length p \<le> length s \<and> drop (length s - length p) s = p"

fun indexOf :: "string \<Rightarrow> string \<Rightarrow> nat option" where
  "indexOf [] p = (if p = [] then Some 0 else None)"
| "indexOf (c # s) p = (if startsWith (c # s) p then Some 0 else map_option Suc (indexOf s p))"

definition str_includes :: "string \<Rightarrow> string \<Rightarrow> bool" where
  "str_includes s p \<longleftrightarrow> indexOf s p \<noteq> None"

definition slice :: "string \<Rightarrow> nat \<Rightarrow> nat \<Rightarrow> string" where
  "slice s a b = take (b - a) (drop a s)"

lemma startsWith_append [simp]: "startsWith (p @ s) p"
  by (simp add: startsWith_def)

lemma startsWith_iff: "startsWith s p \<longleftrightarrow> (\<exists>r. s = p @ r)"
  by (metis append_eq_conv_conj append_take_drop_id startsWith_def)

lemma endsWith_iff: "endsWith s p \<longleftrightarrow> (\<exists>r. s = r @ p)"
proof
  assume "endsWith s p"
  then show "\<exists>r. s = r @ p" by (metis append_take_drop_id endsWith_def)
next
  assume "\<exists>r. s = r @ p"
  then show "endsWith s p" by (auto simp: endsWith_def)
qed

lemma indexOf_Some:
  "indexOf s p = Some i \<Longrightarrow> i \<le> length s \<and> startsWith (drop i s) p"
  by (induction s arbitrary: i) (auto simp: startsWith_def split: if_splits)

lemma indexOf_None: "indexOf s p = None \<Longrightarrow> \<not> startsWith (drop i s) p"
proof (induction s arbitrary: i)
  case Nil
  then show ?case by (simp add: startsWith_def split: if_splits)
next
  case (Cons c s)
  then show ?case by (cases i) (auto split: if_splits)
qed

lemma str_includes_iff: "str_includes s p \<longleftrightarrow> (\<exists>a b. s = a @ p @ b)"
proof
  assume "str_includes s p"
  then obtain i where "indexOf s p = Some i" by (auto simp: str_includes_def)
  then have "startsWith (drop i s) p" by (simp add: indexOf_Some)
  then obtain r where "drop i s = p @ r" by (auto simp: startsWith_iff)
  then show "\<exists>a b. s = a @ p @ b" by (metis append_take_drop_id)
next
  assume "\<exists>a b. s = a @ p @ b"
  then obtain a b where s: "s = a @ p @ b" by blast
  then have "startsWith (drop (length a) s) p" by simp
  then show "str_includes s p" using indexOf_None str_includes_def by blast
qed

fun trimStart :: "string \<Rightarrow> string" where
  "trimStart [] = []"
| "trimStart (c # s) = (if is_space c then trimStart s else c # s)"

definition trim :: "string \<Rightarrow> string" where
  "trim s = rev (trimStart (rev (trimStart s)))"

lemma length_trimStart: "length (trimStart s) \<le> length s"
  by (induction s) auto

lemma trimStart_id: "s = [] \<or> \<not> is_space (hd s) \<Longrightarrow> trimStart s = s"
  by (cases s) auto

lemma trim_id: "s = [] \<or> \<not> is_space (hd s) \<and> \<not> is_space (last s) \<Longrightarrow> trim s = s"
  by (auto simp: trim_def trimStart_id hd_rev)

section \<open>Splitting and joining\<close>

text \<open>\<open>split (/\s+/)\<close> of a trimmed text.\<close>

function split_spaces :: "string \<Rightarrow> string list" where
  "split_spaces s =
     (let w = takeWhile (\<lambda>c. \<not> is_space c) s; r = dropWhile (\<lambda>c. \<not> is_space c) s
      in if r = [] then [w] else w # split_spaces (dropWhile is_space r))"
  by pat_completeness auto
termination
proof (relation "measure length")
  fix s :: string and w r
  assume w: "w = takeWhile (\<lambda>c. \<not> is_space c) s" and r: "r = dropWhile (\<lambda>c. \<not> is_space c) s" and "r \<noteq> []"
  then have "is_space (hd r)" using hd_dropWhile [of "\<lambda>c. \<not> is_space c" s] by simp
  then have "length (dropWhile is_space r) < length r"
    using \<open>r \<noteq> []\<close> length_dropWhile_le [of is_space "tl r"] by (cases r) auto
  also have "length r \<le> length s" using r length_dropWhile_le by simp
  finally show "(dropWhile is_space r, s) \<in> measure length" by simp
qed simp

declare split_spaces.simps [simp del]

fun split_on :: "char \<Rightarrow> string \<Rightarrow> string list" where
  "split_on c [] = [[]]"
| "split_on c (x # xs) =
     (if x = c then [] # split_on c xs
      else case split_on c xs of [] \<Rightarrow> [[x]] | w # ws \<Rightarrow> (x # w) # ws)"

fun join :: "string \<Rightarrow> string list \<Rightarrow> string" where
  "join sep [] = []"
| "join sep [w] = w"
| "join sep (w # v # ws) = w @ sep @ join sep (v # ws)"

lemma split_on_ne [simp]: "split_on c s \<noteq> []"
  by (cases s) (auto split: list.splits)

lemma split_on_none: "c \<notin> set s \<Longrightarrow> split_on c s = [s]"
  by (induction s) auto

lemma split_on_append:
  "c \<notin> set w \<Longrightarrow> split_on c (w @ c # s) = w # split_on c s"
  by (induction w) auto

lemma split_on_join:
  "ws \<noteq> [] \<Longrightarrow> \<forall>w\<in>set ws. c \<notin> set w \<Longrightarrow> split_on c (join [c] ws) = ws"
proof (induction "[c]" ws rule: join.induct)
  case (3 w v ws)
  then have "split_on c (join [c] (v # ws)) = v # ws" by simp
  with 3 show ?case using split_on_append [of c w "join [c] (v # ws)"] by simp
qed (simp_all add: split_on_none)

lemma split_on_parts: "\<forall>w\<in>set (split_on c s). c \<notin> set w"
  by (induction s) (auto split: list.splits)

lemma join_split_on: "join [c] (split_on c s) = s"
proof (induction s)
  case (Cons x s)
  then show ?case
    by (cases "split_on c s" rule: list.exhaust; cases "tl (split_on c s)" rule: list.exhaust) auto
qed simp

section \<open>Decimal numbers\<close>

definition digit_char :: "nat \<Rightarrow> char" where "digit_char d = char_of (48 + d)"
definition char_digit :: "char \<Rightarrow> nat" where "char_digit c = of_char c - 48"

fun show_nat :: "nat \<Rightarrow> string" where
  "show_nat n = (if n < 10 then [digit_char n] else show_nat (n div 10) @ [digit_char (n mod 10)])"

declare show_nat.simps [simp del]

definition parse_nat :: "string \<Rightarrow> nat" where
  "parse_nat s = foldl (\<lambda>n c. 10 * n + char_digit c) 0 s"

definition padStart :: "nat \<Rightarrow> char \<Rightarrow> string \<Rightarrow> string" where
  "padStart n c s = replicate (n - length s) c @ s"

lemma char_digit_digit_char [simp]: "d < 10 \<Longrightarrow> char_digit (digit_char d) = d"
  by (simp add: char_digit_def digit_char_def)

lemma is_digit_digit_char [simp]: "d < 10 \<Longrightarrow> is_digit (digit_char d)"
  by (simp add: is_digit_def digit_char_def)

lemma parse_nat_snoc: "parse_nat (s @ [c]) = 10 * parse_nat s + char_digit c"
  by (simp add: parse_nat_def)

lemma parse_show_nat [simp]: "parse_nat (show_nat n) = n"
proof (induction n rule: show_nat.induct)
  case (1 n)
  show ?case
  proof (cases "n < 10")
    case True
    then show ?thesis by (simp add: show_nat.simps [of n] parse_nat_def)
  next
    case False
    with 1 show ?thesis by (simp add: show_nat.simps [of n] parse_nat_snoc)
  qed
qed

lemma show_nat_digits: "\<forall>c\<in>set (show_nat n). is_digit c"
proof (induction n rule: show_nat.induct)
  case (1 n)
  then show ?case by (cases "n < 10") (auto simp: show_nat.simps [of n])
qed

lemma show_nat_ne [simp]: "show_nat n \<noteq> []"
  by (subst show_nat.simps) simp

lemma show_nat_inj: "show_nat m = show_nat n \<longleftrightarrow> m = n"
  by (metis parse_show_nat)

lemma parse_nat_zeros: "parse_nat (replicate k CHR ''0'' @ s) = parse_nat s"
  by (induction k) (simp_all add: parse_nat_def char_digit_def)

lemma parse_padStart_zero [simp]: "parse_nat (padStart n CHR ''0'' s) = parse_nat s"
  by (simp add: padStart_def parse_nat_zeros)

lemma length_padStart: "length (padStart n c s) = max n (length s)"
  by (simp add: padStart_def)

end
