(* ===== verification/Pricing.thy ===== *)
theory Pricing
  imports JS_Number JS_Date JS_String
begin

text \<open>
  \<open>billing/pricing.ts\<close>: the pure rating math, and \<open>billing/fx.service.ts\<close>: exchange rates with
  a one minute cache.  Money is in minor units (halalas, cents), an \<open>int\<close>; the intermediate
  values of the rating formulas are doubles (\<open>rat\<close> with \<open>fl\<close>).
\<close>

datatype currency = USD | SAR

definition BOOK_CURRENCY :: currency where "BOOK_CURRENCY = SAR"

section \<open>Rating one hour\<close>

record rate_input =
  ri_minutes :: int
  ri_monthlyMinor :: int
  ri_hoursPerMonth :: rat
  ri_chargedThisMonthMinor :: int

text \<open>
  A division by \<open>hoursPerMonth = 0\<close> is \<open>Infinity\<close> in JavaScript, so the minimum at the end is the
  remaining cap.
\<close>

definition rateHour :: "rate_input \<Rightarrow> int" where
  "rateHour i =
     (if ri_minutes i \<le> 0 \<or> ri_monthlyMinor i \<le> 0 then 0
      else
        let remainingCap = max 0 (ri_monthlyMinor i - ri_chargedThisMonthMinor i)
        in if ri_hoursPerMonth i = 0 then remainingCap
           else
             let hourly = js_div (of_int (ri_monthlyMinor i)) (ri_hoursPerMonth i);
                 raw = js_round (js_div (js_mul hourly (of_int (min (ri_minutes i) 60))) 60)
             in min raw remainingCap)"

definition displayPrice :: "int \<Rightarrow> rat \<Rightarrow> int \<times> int" where
  "displayPrice monthlyMinor hoursPerMonth =
     (monthlyMinor, js_round (js_div (of_int monthlyMinor) hoursPerMonth))"

text \<open>The literal \<open>0.15\<close> is the double nearest to it.\<close>

definition VAT_RATE :: rat where "VAT_RATE = fl (15 / 100)"

definition taxRateFor :: "currency \<Rightarrow> string \<Rightarrow> rat" where
  "taxRateFor currency country = (if currency = SAR \<or> country = ''SA'' then VAT_RATE else 0)"

definition startOfHour :: "instant \<Rightarrow> instant" where
  "startOfHour d = d div 3600000 * 3600000"

definition startOfMonth :: "instant \<Rightarrow> instant" where
  "startOfMonth d = date_UTC (getUTCFullYear d) (getUTCMonth d) 1 0 0 0 0"

definition invoiceNumber :: "nat \<Rightarrow> nat \<Rightarrow> string" where
  "invoiceNumber year seq = ''PRGD-'' @ show_nat year @ ''-'' @ padStart 6 CHR ''0'' (show_nat seq)"

definition creditNoteNumber :: "nat \<Rightarrow> nat \<Rightarrow> string" where
  "creditNoteNumber year seq = ''CN-'' @ show_nat year @ ''-'' @ padStart 6 CHR ''0'' (show_nat seq)"

section \<open>Exchange rates\<close>

record fx_row =
  fx_quote :: currency
  fx_rate :: rat
  fx_at :: instant

record fx_state =
  fx_cache :: "(rat \<times> instant) option"
  fx_rows :: "fx_row list"
  fx_fallback :: rat

text \<open>The newest row at or before \<open>at\<close> (\<open>orderBy at desc\<close>, first).\<close>

definition fx_latest :: "currency \<Rightarrow> instant \<Rightarrow> fx_row list \<Rightarrow> fx_row option" where
  "fx_latest quote tm rows =
     (case sort_key (\<lambda>r. - fx_at r) (filter (\<lambda>r. fx_quote r = quote \<and> fx_at r \<le> tm) rows) of
        [] \<Rightarrow> None | r # _ \<Rightarrow> Some r)"

definition rate :: "currency \<Rightarrow> instant \<Rightarrow> instant \<Rightarrow> fx_state \<Rightarrow> rat \<times> fx_state" where
  "rate quote tm now st =
     (if quote = USD then (1, st)
      else
        let isNow = now - tm < 60000
        in case (if isNow then fx_cache st else None) of
             Some (r, t) \<Rightarrow>
               if now - t < 60000 then (r, st)
               else (let r' = (case fx_latest quote tm (fx_rows st) of
                                 Some x \<Rightarrow> fl (fx_rate x) | None \<Rightarrow> fx_fallback st)
                     in (r', st\<lparr>fx_cache := Some (r', now)\<rparr>))
           | None \<Rightarrow>
               (let r' = (case fx_latest quote tm (fx_rows st) of
                            Some x \<Rightarrow> fl (fx_rate x) | None \<Rightarrow> fx_fallback st)
                in (r', if isNow then st\<lparr>fx_cache := Some (r', now)\<rparr> else st)))"

definition bookRate :: "currency \<Rightarrow> instant \<Rightarrow> instant \<Rightarrow> fx_state \<Rightarrow> rat \<times> fx_state" where
  "bookRate currency tm now st =
     (if currency = BOOK_CURRENCY then (1, st)
      else let (usdToSar, st') = rate SAR tm now st
           in (if BOOK_CURRENCY = SAR then js_div 1 usdToSar else usdToSar, st'))"

definition convert :: "int \<Rightarrow> currency \<Rightarrow> instant \<Rightarrow> instant \<Rightarrow> fx_state \<Rightarrow> int \<times> fx_state" where
  "convert bookMinor currency tm now st =
     (if currency = BOOK_CURRENCY then (bookMinor, st)
      else let (r, st') = bookRate currency tm now st
           in (js_round (js_mul (of_int bookMinor) r), st'))"

text \<open>\<open>set\<close> of the service: a new row, and the cache is dropped.\<close>

definition setRate :: "currency \<Rightarrow> rat \<Rightarrow> instant \<Rightarrow> fx_state \<Rightarrow> fx_state" where
  "setRate quote r now st =
     st\<lparr>fx_rows := fx_rows st @ [\<lparr>fx_quote = quote, fx_rate = r, fx_at = now\<rparr>], fx_cache := None\<rparr>"

text \<open>
  \<open>refresh\<close>: \<open>resp\<close> is the \<open>rates.SAR\<close> number of the provider's answer, or \<open>None\<close> when the
  request failed or has no finite number there.  The rate is written only when it moved by more
  than 0.05 percent.
\<close>

definition refresh :: "rat option \<Rightarrow> instant \<Rightarrow> fx_state \<Rightarrow> rat option \<times> fx_state" where
  "refresh resp now st =
     (case resp of
        None \<Rightarrow> (None, st)
      | Some r \<Rightarrow>
          if r \<le> 0 then (None, st)
          else let (current, st') = rate SAR now now st
               in if fl (5 / 10000) < js_div (abs (js_sub r current)) current
                  then (Some r, setRate SAR r now st') else (Some r, st'))"

section \<open>Rating never exceeds the monthly price\<close>

lemma rateHour_nonneg: "0 \<le> ri_hoursPerMonth i \<Longrightarrow> 0 \<le> rateHour i"
  by (auto simp: rateHour_def Let_def intro!: js_round_nonneg js_div_nonneg js_mul_nonneg)

lemma rateHour_le_cap: "rateHour i \<le> max 0 (ri_monthlyMinor i - ri_chargedThisMonthMinor i)"
  by (auto simp: rateHour_def Let_def)

text \<open>
  Rating the hours of a month one after the other: each hour is rated against what was charged
  so far in the month.  \<open>hours\<close> lists the minutes and the monthly price in force for each hour.
\<close>

fun rate_month :: "rat \<Rightarrow> int \<Rightarrow> (int \<times> int) list \<Rightarrow> int" where
  "rate_month hpm charged [] = charged"
| "rate_month hpm charged ((minutes, monthly) # hours) =
     rate_month hpm
       (charged + rateHour \<lparr>ri_minutes = minutes, ri_monthlyMinor = monthly,
                            ri_hoursPerMonth = hpm, ri_chargedThisMonthMinor = charged\<rparr>) hours"

lemma rate_month_le:
  assumes "\<forall>(m, p)\<in>set hours. p \<le> cap" "charged \<le> cap"
  shows "rate_month hpm charged hours \<le> cap"
  using assms
proof (induction hpm charged hours rule: rate_month.induct)
  case (2 hpm charged minutes monthly hours)
  let ?i = "\<lparr>ri_minutes = minutes, ri_monthlyMinor = monthly, ri_hoursPerMonth = hpm,
             ri_chargedThisMonthMinor = charged\<rparr>"
  have "charged + rateHour ?i \<le> cap"
    using rateHour_le_cap [of ?i] "2.prems" by (auto simp: max_def split: if_splits)
  with 2 show ?case by simp
qed simp

lemma rate_month_mono:
  assumes "0 \<le> hpm" shows "charged \<le> rate_month hpm charged hours"
proof (induction hours arbitrary: charged)
  case (Cons h hours)
  obtain m p where h: "h = (m, p)" by (cases h)
  have "charged \<le> charged + rateHour \<lparr>ri_minutes = m, ri_monthlyMinor = p, ri_hoursPerMonth = hpm,
          ri_chargedThisMonthMinor = charged\<rparr>"
    using assms by (simp add: rateHour_nonneg)
  also have "\<dots> \<le> rate_month hpm charged (h # hours)" using Cons by (simp add: h)
  finally show ?case .
qed simp

section \<open>Tax\<close>

lemma VAT_RATE_eq: "VAT_RATE = 5404319552844595 / 36028797018963968"
proof -
  have "fl (15 / 100) = of_int 5404319552844595 * 2 powi (- 3 - 52)"
  proof (rule fl_eval)
    show "rne (15 / 100 / 2 powi (- 3 - 52)) = 5404319552844595"
      by (rule rne_eq(1)) (simp_all add: power_int_def power_divide floor_eq_iff)
  qed (simp_all add: power_int_def power_divide)
  then show ?thesis by (simp add: VAT_RATE_def power_int_def power_divide)
qed

lemma VAT_RATE_bounds: "0 \<le> VAT_RATE \<and> VAT_RATE \<le> 1"
  using dbl.nonneg [of "15 / 100"] dbl.le_int [of "15 / 100" 1] by (simp add: VAT_RATE_def)

lemma taxRateFor_bounds: "0 \<le> taxRateFor c k \<and> taxRateFor c k \<le> 1"
  using VAT_RATE_bounds by (simp add: taxRateFor_def)

lemma tax_nonneg: "0 \<le> r \<Longrightarrow> 0 \<le> s \<Longrightarrow> 0 \<le> js_round (js_mul (of_int s) r)"
  by (intro js_round_nonneg js_mul_nonneg) simp_all

lemma tax_bounds:
  assumes "0 \<le> r" "r \<le> 1" "0 \<le> s" "s \<le> 2 ^ 53"
  shows "0 \<le> js_round (js_mul (of_int s) r) \<and> js_round (js_mul (of_int s) r) \<le> s"
proof
  show "0 \<le> js_round (js_mul (of_int s) r)"
    using assms by (intro js_round_nonneg js_mul_nonneg) simp_all
  have "(of_int s :: rat) * r \<le> of_int s" using assms by (simp add: mult_left_le)
  then have "js_mul (of_int s) r \<le> of_int s"
    unfolding js_mul_def using assms by (intro dbl.le_int) simp_all
  then show "js_round (js_mul (of_int s) r) \<le> s" by (rule js_round_le_int)
qed

section \<open>Document numbers\<close>

lemma dash_not_digit: "CHR ''-'' \<notin> set (show_nat n)"
  using show_nat_digits [of n] by (auto simp: is_digit_def)

lemma number_inj:
  assumes "show_nat y @ ''-'' @ padStart 6 CHR ''0'' (show_nat s)
         = show_nat y' @ ''-'' @ padStart 6 CHR ''0'' (show_nat s')"
  shows "y = y' \<and> s = s'"
proof -
  have e: "show_nat y @ CHR ''-'' # padStart 6 CHR ''0'' (show_nat s)
         = show_nat y' @ CHR ''-'' # padStart 6 CHR ''0'' (show_nat s')"
    using assms by simp
  have d: "CHR ''-'' \<notin> set (padStart 6 CHR ''0'' (show_nat n))" for n
    using dash_not_digit [of n] by (auto simp: padStart_def)
  have "split_on CHR ''-'' (show_nat y @ CHR ''-'' # padStart 6 CHR ''0'' (show_nat s))
      = [show_nat y, padStart 6 CHR ''0'' (show_nat s)]" for y s
    using dash_not_digit [of y] d [of s] by (simp add: split_on_append split_on_none)
  then have "show_nat y = show_nat y'" "padStart 6 CHR ''0'' (show_nat s) = padStart 6 CHR ''0'' (show_nat s')"
    using e by (metis list.inject)+
  then show ?thesis by (metis parse_padStart_zero parse_show_nat)
qed

lemma invoiceNumber_inj: "invoiceNumber y s = invoiceNumber y' s' \<longleftrightarrow> y = y' \<and> s = s'"
proof
  assume "invoiceNumber y s = invoiceNumber y' s'"
  then show "y = y' \<and> s = s'"
    unfolding invoiceNumber_def by (intro number_inj) (simp only: same_append_eq)
qed simp

lemma creditNoteNumber_inj: "creditNoteNumber y s = creditNoteNumber y' s' \<longleftrightarrow> y = y' \<and> s = s'"
proof
  assume "creditNoteNumber y s = creditNoteNumber y' s'"
  then show "y = y' \<and> s = s'"
    unfolding creditNoteNumber_def by (intro number_inj) (simp only: same_append_eq)
qed simp

section \<open>Months\<close>

lemma startOfMonth_le: assumes "0 \<le> t" shows "startOfMonth t \<le> t"
proof -
  have y: "100 \<le> getUTCFullYear t" using getUTCFullYear_epoch [OF assms] by simp
  have "make_day (getUTCFullYear t) (getUTCMonth t) 1 \<le> getDay t"
    using getDay_make_day [of t] make_day_shift [of _ _ "getUTCDate t"] getUTCDate_bounds [of t] by simp
  then have "make_day (getUTCFullYear t) (getUTCMonth t) 1 * msPerDay \<le> getDay t * msPerDay"
    by (simp add: msPerDay_def)
  with y show ?thesis
    using day_split [of t] getTimeOfDay_bounds [of t] by (simp add: startOfMonth_def date_UTC_def)
qed

lemma startOfMonth_fields:
  assumes "0 \<le> t"
  shows "getUTCFullYear (startOfMonth t) = getUTCFullYear t \<and> getUTCMonth (startOfMonth t) = getUTCMonth t
     \<and> getUTCDate (startOfMonth t) = 1 \<and> getTimeOfDay (startOfMonth t) = 0"
proof -
  have y: "100 \<le> getUTCFullYear t" using getUTCFullYear_epoch [OF assms] by simp
  have d: "getDay (startOfMonth t) = make_day (getUTCFullYear t) (getUTCMonth t) 1"
    "getTimeOfDay (startOfMonth t) = 0"
    unfolding startOfMonth_def using y getDay_date_UTC [of "getUTCFullYear t" 0 0 0 0] by simp_all
  have "1 \<le> days_in_month (getUTCFullYear t) (getUTCMonth t)"
    using getUTCDate_bounds [of t] by simp
  then show ?thesis
    using d make_day_fields [of "getUTCMonth t" 1 "getUTCFullYear t" "startOfMonth t"] getUTCMonth_bounds [of t]
    by simp
qed

end
