(* ===== verification/Renewal.thy ===== *)
theory Renewal
  imports Pricing
begin

text \<open>
  Contract terms, \<open>managed/contracts/renewal.ts\<close>: calendar month arithmetic in UTC, the next term
  end after an automatic renewal, and the decision of the daily renewal job.
\<close>

definition RENEWAL_NOTICE_DAYS :: int where "RENEWAL_NOTICE_DAYS = 30"

definition addMonthsUtc :: "instant \<Rightarrow> int \<Rightarrow> instant" where
  "addMonthsUtc d months =
     (let y = getUTCFullYear d;
          m = getUTCMonth d + months;
          lastDay = getUTCDate (date_UTC y (m + 1) 0 0 0 0 0)
      in date_UTC y m (min (getUTCDate d) lastDay)
           (getUTCHours d) (getUTCMinutes d) (getUTCSeconds d) (getUTCMilliseconds d))"

text \<open>The loop of \<open>nextTermEnd\<close>; None would mean that it does not end.\<close>

partial_function (option) next_term_loop :: "instant \<Rightarrow> int \<Rightarrow> instant \<Rightarrow> int \<Rightarrow> instant \<Rightarrow> instant option" where
  "next_term_loop termEndsAt months now k next =
     (if next \<le> now
      then next_term_loop termEndsAt months now (k + 1) (addMonthsUtc termEndsAt (months * (k + 1)))
      else Some next)"

declare next_term_loop.simps [code]

definition nextTermEnd :: "instant \<Rightarrow> int \<Rightarrow> instant \<Rightarrow> instant option" where
  "nextTermEnd termEndsAt termMonths now =
     (let months = max 1 termMonths
      in next_term_loop termEndsAt months now 1 (addMonthsUtc termEndsAt months))"

definition endOfCurrentMonth :: "instant \<Rightarrow> instant" where
  "endOfCurrentMonth now = startOfMonth (date_UTC (getUTCFullYear now) (getUTCMonth now + 1) 1 0 0 0 0)"

datatype contract_status = CDraft | COnboarding | CActive | CSuspended | CCancelled

record term_state =
  ts_status :: contract_status
  ts_autoRenew :: bool
  ts_termMonths :: int
  ts_termEndsAt :: "instant option"
  ts_cancelAt :: "instant option"
  ts_renewalNoticeAt :: "instant option"

datatype cancel_why = Scheduled | NotRenewed
datatype term_decision = DNone | DRenew instant | DCancel instant cancel_why | DNotice

definition term_tail :: "term_state \<Rightarrow> instant \<Rightarrow> term_decision option" where
  "term_tail c now =
     (case (ts_cancelAt c, ts_termEndsAt c) of
        (None, Some e) \<Rightarrow>
          if e \<le> now then
            (if ts_autoRenew c then map_option DRenew (nextTermEnd e (ts_termMonths c) now) else Some DNone)
          else if ts_renewalNoticeAt c = None \<and> e - now \<le> RENEWAL_NOTICE_DAYS * msPerDay then Some DNotice
          else Some DNone
      | _ \<Rightarrow> Some DNone)"

definition termDecision :: "term_state \<Rightarrow> instant \<Rightarrow> term_decision option" where
  "termDecision c now =
     (if ts_status c \<noteq> CActive \<and> ts_status c \<noteq> CSuspended then Some DNone
      else
        let termEnd = (if \<not> ts_autoRenew c then ts_termEndsAt c else None)
        in case (ts_cancelAt c, termEnd) of
             (Some k, None) \<Rightarrow> if k \<le> now then Some (DCancel k Scheduled) else term_tail c now
           | (Some k, Some e) \<Rightarrow>
               if k \<le> e then (if k \<le> now then Some (DCancel k Scheduled) else term_tail c now)
               else if e \<le> now then Some (DCancel e NotRenewed) else term_tail c now
           | (None, Some e) \<Rightarrow> if e \<le> now then Some (DCancel e NotRenewed) else term_tail c now
           | (None, None) \<Rightarrow> term_tail c now)"

section \<open>Adding months\<close>

definition month_len :: "instant \<Rightarrow> int \<Rightarrow> int" where
  "month_len d k = (let m = getUTCMonth d + k in days_in_month (getUTCFullYear d + m div 12) (m mod 12))"

lemma mod12: "0 \<le> (m::int) mod 12 \<and> m mod 12 \<le> 11"
  using pos_mod_bound [of 12 m] by simp

lemma month_len_pos: "28 \<le> days_in_month y (m mod 12) \<and> days_in_month y (m mod 12) \<le> 31"
  using days_in_month_bounds mod12 [of m] by simp

lemma div12_Suc: "(m + 1) div 12 = m div 12 + (m mod 12 + 1) div 12" for m :: int
proof -
  have "m + 1 = m mod 12 + 1 + m div 12 * 12" using div_mult_mod_eq [of m 12] by linarith
  then have "(m + 1) div 12 = (m mod 12 + 1 + m div 12 * 12) div 12" by simp
  also have "\<dots> = m div 12 + (m mod 12 + 1) div 12" by (rule div_mult_self1) simp
  finally show ?thesis .
qed

lemma mod12_Suc: "(m + 1) mod 12 = (m mod 12 + 1) mod 12" for m :: int
  by (simp add: mod_add_left_eq)

lemma make_day_month_end:
  "make_day y (m + 1) 1 = make_day y m 1 + days_in_month (y + m div 12) (m mod 12)"
proof -
  have "make_day y (m + 1) 1 = make_day (y + m div 12) (m mod 12 + 1) 1"
    unfolding make_day_def div12_Suc [of m] mod12_Suc [of m] by (simp only: Let_def add.assoc)
  also have "\<dots> = make_day (y + m div 12) (m mod 12) 1 + days_in_month (y + m div 12) (m mod 12)"
    using mod12 by (intro make_day_next_month) auto
  finally show ?thesis by (simp add: make_day_norm [of y m])
qed

lemma lastDay_eq:
  assumes "100 \<le> y"
  shows "getUTCDate (date_UTC y (m + 1) 0 0 0 0 0) = days_in_month (y + m div 12) (m mod 12)"
proof -
  let ?n = "days_in_month (y + m div 12) (m mod 12)"
  have n: "1 \<le> ?n" using month_len_pos [of "y + m div 12" m] by linarith
  have "make_day y (m + 1) 0 = make_day y (m + 1) 1 - 1" using make_day_shift [of y "m + 1" 0] by simp
  also have "\<dots> = make_day y m 1 + (?n - 1)" by (simp add: make_day_month_end)
  also have "\<dots> = make_day (y + m div 12) (m mod 12) ?n"
    using make_day_shift [of "y + m div 12" "m mod 12" ?n] by (simp add: make_day_norm [of y m])
  finally have day: "getDay (date_UTC y (m + 1) 0 0 0 0 0) = make_day (y + m div 12) (m mod 12) ?n"
    using assms by (simp add: getDay_date_UTC)
  have "getUTCDate (date_UTC y (m + 1) 0 0 0 0 0) = ?n"
    using make_day_fields [of "m mod 12" ?n "y + m div 12"] day mod12 [of m] n by auto
  then show ?thesis .
qed

lemma addMonths_day:
  assumes "0 \<le> d"
  shows "getDay (addMonthsUtc d k) = make_day (getUTCFullYear d) (getUTCMonth d + k) (min (getUTCDate d) (month_len d k))"
    and "getTimeOfDay (addMonthsUtc d k) = getTimeOfDay d"
proof -
  have y: "100 \<le> getUTCFullYear d" using getUTCFullYear_epoch [OF assms] by simp
  have tod: "0 \<le> getUTCHours d * 3600000 + getUTCMinutes d * 60000 + getUTCSeconds d * 1000 + getUTCMilliseconds d"
    "getUTCHours d * 3600000 + getUTCMinutes d * 60000 + getUTCSeconds d * 1000 + getUTCMilliseconds d < 86400000"
    using tod_fields [of d] getTimeOfDay_bounds [of d] by simp_all
  show "getDay (addMonthsUtc d k) = make_day (getUTCFullYear d) (getUTCMonth d + k) (min (getUTCDate d) (month_len d k))"
    "getTimeOfDay (addMonthsUtc d k) = getTimeOfDay d"
    using y tod tod_fields [of d]
    by (simp_all add: addMonthsUtc_def Let_def lastDay_eq getDay_date_UTC month_len_def)
qed

text \<open>The clamp: the day of the month stays, unless the target month is shorter.\<close>

lemma addMonths_fields:
  assumes "0 \<le> d"
  shows "getUTCFullYear (addMonthsUtc d k) = getUTCFullYear d + (getUTCMonth d + k) div 12"
    and "getUTCMonth (addMonthsUtc d k) = (getUTCMonth d + k) mod 12"
    and "getUTCDate (addMonthsUtc d k) = min (getUTCDate d) (month_len d k)"
proof -
  let ?m = "getUTCMonth d + k"
  have len: "28 \<le> month_len d k" using month_len_pos by (simp add: month_len_def Let_def)
  have "getDay (addMonthsUtc d k) = make_day (getUTCFullYear d + ?m div 12) (?m mod 12) (min (getUTCDate d) (month_len d k))"
    using addMonths_day(1) [OF assms] make_day_norm by simp
  moreover have "1 \<le> min (getUTCDate d) (month_len d k)" using getUTCDate_bounds [of d] len by simp
  moreover have "min (getUTCDate d) (month_len d k) \<le> days_in_month (getUTCFullYear d + ?m div 12) (?m mod 12)"
    by (simp add: month_len_def Let_def)
  ultimately have "getUTCFullYear (addMonthsUtc d k) = getUTCFullYear d + ?m div 12
      \<and> getUTCMonth (addMonthsUtc d k) = ?m mod 12 \<and> getUTCDate (addMonthsUtc d k) = min (getUTCDate d) (month_len d k)"
    using mod12 [of ?m] by (intro make_day_fields) simp_all
  then show "getUTCFullYear (addMonthsUtc d k) = getUTCFullYear d + ?m div 12"
    "getUTCMonth (addMonthsUtc d k) = ?m mod 12"
    "getUTCDate (addMonthsUtc d k) = min (getUTCDate d) (month_len d k)" by simp_all
qed

lemma make_day_later: "0 \<le> k \<Longrightarrow> make_day y m 1 + 28 * k \<le> make_day y (m + k) 1"
proof (induction k rule: int_ge_induct)
  case (step i)
  have "make_day y (m + (i + 1)) 1 = make_day y (m + i) 1 + days_in_month (y + (m + i) div 12) ((m + i) mod 12)"
    using make_day_month_end [of y "m + i"] by (simp add: add.assoc)
  with step month_len_pos [of "y + (m + i) div 12" "m + i"] show ?case by simp
qed simp

lemma addMonths_between:
  assumes "0 \<le> d"
  shows "make_day (getUTCFullYear d) (getUTCMonth d + k) 1 \<le> getDay (addMonthsUtc d k)"
    and "getDay (addMonthsUtc d k) < make_day (getUTCFullYear d) (getUTCMonth d + k + 1) 1"
proof -
  let ?y = "getUTCFullYear d" and ?m = "getUTCMonth d + k" and ?x = "min (getUTCDate d) (month_len d k)"
  have len: "28 \<le> month_len d k" using month_len_pos by (simp add: month_len_def Let_def)
  have day: "getDay (addMonthsUtc d k) = make_day ?y ?m 1 + (?x - 1)"
    using addMonths_day(1) [OF assms, of k] make_day_shift [of ?y ?m ?x] by linarith
  have "make_day ?y (?m + 1) 1 = make_day ?y ?m 1 + month_len d k"
    by (simp add: make_day_month_end month_len_def Let_def)
  moreover have "1 \<le> ?x" "?x \<le> month_len d k" using len getUTCDate_bounds [of d] by simp_all
  ultimately show "make_day ?y ?m 1 \<le> getDay (addMonthsUtc d k)" "getDay (addMonthsUtc d k) < make_day ?y (?m + 1) 1"
    using day by linarith+
qed

lemma getDay_less: "getDay s < getDay t \<Longrightarrow> s < t"
  unfolding getDay_def by (rule ccontr) (auto simp: not_less msPerDay_def dest: zdiv_mono1 [of t s 86400000])

lemma addMonths_strict:
  assumes "0 \<le> d" "j < k"
  shows "addMonthsUtc d j < addMonthsUtc d k"
proof (rule getDay_less)
  let ?y = "getUTCFullYear d" and ?m = "getUTCMonth d"
  have "getDay (addMonthsUtc d j) < make_day ?y (?m + j + 1) 1" by (rule addMonths_between [OF assms(1)])
  also have "\<dots> \<le> make_day ?y (?m + k) 1" using make_day_later [of "k - j - 1" ?y "?m + j + 1"] assms(2) by simp
  also have "\<dots> \<le> getDay (addMonthsUtc d k)" by (rule addMonths_between [OF assms(1)])
  finally show "getDay (addMonthsUtc d j) < getDay (addMonthsUtc d k)" .
qed

section \<open>The renewal loop ends\<close>

lemma addMonths_exceeds:
  assumes "0 \<le> d" "0 \<le> k" "now < k"
  shows "now < addMonthsUtc d k"
proof -
  have "now < addMonthsUtc d 0 + k"
  proof -
    have "0 \<le> addMonthsUtc d 0"
    proof -
      have "make_day (getUTCFullYear d) (getUTCMonth d) (getUTCDate d) = getDay d" by (rule getDay_make_day)
      moreover have "month_len d 0 = days_in_month (getUTCFullYear d) (getUTCMonth d)"
        using getUTCMonth_bounds [of d] by (simp add: month_len_def div_pos_pos_trivial mod_pos_pos_trivial)
      ultimately have "getDay (addMonthsUtc d 0) = getDay d"
        using addMonths_day(1) [OF assms(1), of 0] getUTCDate_bounds [of d] by simp
      then have "addMonthsUtc d 0 = d"
        using addMonths_day(2) [OF assms(1), of 0] day_split [of d] day_split [of "addMonthsUtc d 0"] by simp
      then show ?thesis using assms(1) by simp
    qed
    then show ?thesis using assms by simp
  qed
  also have "addMonthsUtc d 0 + k \<le> addMonthsUtc d k"
    using assms(2)
  proof (induction k rule: int_ge_induct)
    case (step i)
    then show ?case using addMonths_strict [OF assms(1), of i "i + 1"] by simp
  qed simp
  finally show ?thesis .
qed

lemma next_term_loop_returns:
  assumes "0 \<le> d" "1 \<le> months" "1 \<le> k" "now \<le> k + int fuel"
  shows "\<exists>n\<ge>k. next_term_loop d months now k (addMonthsUtc d (months * k)) = Some (addMonthsUtc d (months * n))
      \<and> now < addMonthsUtc d (months * n) \<and> (\<forall>j. k \<le> j \<and> j < n \<longrightarrow> addMonthsUtc d (months * j) \<le> now)"
  using assms(3,4)
proof (induction fuel arbitrary: k)
  case 0
  show ?case
  proof (cases "now < addMonthsUtc d (months * k)")
    case True
    then show ?thesis by (intro exI [of _ k]) (subst next_term_loop.simps, simp)
  next
    case False
    have "k + 1 \<le> months * (k + 1)" using assms(2) 0(1) by (simp add: mult_le_cancel_right1)
    then have "0 \<le> months * (k + 1)" "now < months * (k + 1)" using 0 by linarith+
    then have "now < addMonthsUtc d (months * (k + 1))" by (rule addMonths_exceeds [OF assms(1)])
    then show ?thesis using False
      by (intro exI [of _ "k + 1"])
        (subst next_term_loop.simps, subst next_term_loop.simps, auto simp: not_less dest: zless_imp_add1_zle)
  qed
next
  case (Suc fuel)
  show ?case
  proof (cases "now < addMonthsUtc d (months * k)")
    case True
    then show ?thesis by (intro exI [of _ k]) (subst next_term_loop.simps, simp)
  next
    case False
    have "1 \<le> k + 1" "now \<le> k + 1 + int fuel" using Suc.prems by simp_all
    from Suc.IH [OF this] obtain n where n: "k + 1 \<le> n"
      "next_term_loop d months now (k + 1) (addMonthsUtc d (months * (k + 1))) = Some (addMonthsUtc d (months * n))"
      "now < addMonthsUtc d (months * n)" "\<forall>j. k + 1 \<le> j \<and> j < n \<longrightarrow> addMonthsUtc d (months * j) \<le> now" by blast
    have "addMonthsUtc d (months * j) \<le> now" if "k \<le> j" "j < n" for j
      using that False n(4) by (cases "j = k") (simp_all add: not_less)
    then show ?thesis using False n
      by (intro exI [of _ n]) (subst next_term_loop.simps, simp add: not_less)
  qed
qed

lemma nextTermEnd_returns:
  assumes "0 \<le> termEndsAt"
  shows "\<exists>n\<ge>1. nextTermEnd termEndsAt termMonths now = Some (addMonthsUtc termEndsAt (max 1 termMonths * n))
      \<and> now < addMonthsUtc termEndsAt (max 1 termMonths * n)
      \<and> (\<forall>j. 1 \<le> j \<and> j < n \<longrightarrow> addMonthsUtc termEndsAt (max 1 termMonths * j) \<le> now)"
  using next_term_loop_returns [OF assms, of "max 1 termMonths" 1 now "nat (max 0 now)"]
  by (simp add: nextTermEnd_def Let_def)

lemma termDecision_returns:
  assumes "\<And>e. ts_termEndsAt c = Some e \<Longrightarrow> 0 \<le> e"
  shows "\<exists>r. termDecision c now = Some r"
proof -
  have "\<exists>r. term_tail c now = Some r"
  proof (cases "ts_cancelAt c = None \<and> ts_termEndsAt c \<noteq> None")
    case True
    then obtain e where e: "ts_termEndsAt c = Some e" by blast
    then obtain n where "nextTermEnd e (ts_termMonths c) now = Some n"
      using nextTermEnd_returns [OF assms [OF e], of "ts_termMonths c" now] by blast
    with True e show ?thesis by (simp add: term_tail_def)
  qed (auto simp: term_tail_def split: option.splits)
  then show ?thesis by (auto simp: termDecision_def Let_def split: option.splits)
qed

end
