(* ===== verification/Sla.thy ===== *)
theory Sla
  imports Pricing
begin

text \<open>
  SLA due times, \<open>managed/sla/sla-calculator.ts\<close>: minutes counted around the clock or only inside
  the working windows of the contract's calendar.  The time zone database is outside the program:
  \<open>tz\<close> gives the offset of the zone at an instant, in minutes.  Target minutes are integers; the
  fractional warning points of \<open>fractionPoint\<close> are not modelled.
\<close>

datatype coverage = BusinessHours | TwentyFourSeven
datatype calendar_country = CalSA | CalTR

record calendar_rules =
  cal_timeZone :: string
  cal_workdays :: "int list"
  cal_startHour :: int
  cal_endHour :: int

definition CALENDARS :: "calendar_country \<Rightarrow> calendar_rules" where
  "CALENDARS c = (case c of
     CalSA \<Rightarrow> \<lparr>cal_timeZone = ''Asia/Riyadh'', cal_workdays = [0, 1, 2, 3, 4], cal_startHour = 9, cal_endHour = 17\<rparr>
   | CalTR \<Rightarrow> \<lparr>cal_timeZone = ''Europe/Istanbul'', cal_workdays = [1, 2, 3, 4, 5], cal_startHour = 9, cal_endHour = 17\<rparr>)"

record sla_calendar =
  sla_coverage :: coverage
  sla_country :: calendar_country
  sla_holidays :: "string list"

definition MINUTE :: int where "MINUTE = 60000"

record local_parts =
  lp_year :: int
  lp_month :: int
  lp_day :: int
  lp_hour :: int
  lp_minute :: int
  lp_second :: int

definition localParts :: "(instant \<Rightarrow> int) \<Rightarrow> instant \<Rightarrow> local_parts" where
  "localParts tz t =
     (let l = t + tz t * MINUTE
      in \<lparr>lp_year = getUTCFullYear l, lp_month = getUTCMonth l + 1, lp_day = getUTCDate l,
          lp_hour = getUTCHours l, lp_minute = getUTCMinutes l, lp_second = getUTCSeconds l\<rparr>)"

definition offsetMinutes :: "(instant \<Rightarrow> int) \<Rightarrow> instant \<Rightarrow> int" where
  "offsetMinutes tz t =
     (let p = localParts tz t;
          asUtc = date_UTC (lp_year p) (lp_month p - 1) (lp_day p) (lp_hour p) (lp_minute p) (lp_second p) 0
      in js_round (js_div (of_int (asUtc - t div 1000 * 1000)) (of_int MINUTE)))"

definition zonedTime :: "(instant \<Rightarrow> int) \<Rightarrow> int \<Rightarrow> int \<Rightarrow> int \<Rightarrow> int \<Rightarrow> int \<Rightarrow> instant" where
  "zonedTime tz y mo d h mi =
     (let guess = date_UTC y (mo - 1) d h mi 0 0;
          first = guess - offsetMinutes tz guess * MINUTE
      in guess - offsetMinutes tz first * MINUTE)"

definition dateKey :: "local_parts \<Rightarrow> string" where
  "dateKey p = show_nat (nat (lp_year p)) @ ''-'' @ padStart 2 CHR ''0'' (show_nat (nat (lp_month p)))
     @ ''-'' @ padStart 2 CHR ''0'' (show_nat (nat (lp_day p)))"

definition localDateKey :: "(instant \<Rightarrow> int) \<Rightarrow> instant \<Rightarrow> string" where
  "localDateKey tz t = dateKey (localParts tz t)"

definition dayInfo ::
  "(instant \<Rightarrow> int) \<Rightarrow> calendar_rules \<Rightarrow> string list \<Rightarrow> instant \<Rightarrow> (instant \<times> instant) option \<times> instant" where
  "dayInfo tz rules holidays t =
     (let p = localParts tz t;
          midnight = date_UTC (lp_year p) (lp_month p - 1) (lp_day p) 0 0 0 0;
          weekday = getUTCDay midnight;
          next = midnight + 86400000;
          nextDay = zonedTime tz (getUTCFullYear next) (getUTCMonth next + 1) (getUTCDate next) 0 0
      in if weekday \<notin> set (cal_workdays rules) \<or> dateKey p \<in> set holidays then (None, nextDay)
         else (Some (zonedTime tz (lp_year p) (lp_month p) (lp_day p) (cal_startHour rules) 0,
                     zonedTime tz (lp_year p) (lp_month p) (lp_day p) (cal_endHour rules) 0), nextDay))"

definition MAX_DAYS :: nat where "MAX_DAYS = 3 * 366"

text \<open>The loops, over the days that \<open>day\<close> describes; the first argument counts the days left.\<close>

fun add_loop :: "(instant \<Rightarrow> (instant \<times> instant) option \<times> instant) \<Rightarrow> nat \<Rightarrow> instant \<Rightarrow> int \<Rightarrow> instant result" where
  "add_loop day 0 cursor remaining = Inl (JsError ''SLA calendar has no working time in the next three years'')"
| "add_loop day (Suc n) cursor remaining =
     (case day cursor of
        (None, nextDay) \<Rightarrow> add_loop day n nextDay remaining
      | (Some (ws, we), nextDay) \<Rightarrow>
          let cur = (if cursor < ws then ws else cursor)
          in if cur < we then
               let available = we - cur
               in if remaining \<le> available then Inr (cur + remaining)
                  else add_loop day n nextDay (remaining - available)
             else add_loop day n nextDay remaining)"

definition addSlaMinutes :: "(instant \<Rightarrow> int) \<Rightarrow> instant \<Rightarrow> int \<Rightarrow> sla_calendar \<Rightarrow> instant result" where
  "addSlaMinutes tz start minutes cal =
     (if minutes \<le> 0 then Inr start
      else if sla_coverage cal = TwentyFourSeven then Inr (start + minutes * MINUTE)
      else add_loop (dayInfo tz (CALENDARS (sla_country cal)) (sla_holidays cal)) MAX_DAYS start (minutes * MINUTE))"

fun between_loop :: "(instant \<Rightarrow> (instant \<times> instant) option \<times> instant) \<Rightarrow> nat \<Rightarrow> instant \<Rightarrow> instant \<Rightarrow> int \<Rightarrow> int" where
  "between_loop day 0 cursor till tot = tot"
| "between_loop day (Suc n) cursor till tot =
     (if cursor < till then
        (case day cursor of
           (None, nextDay) \<Rightarrow> between_loop day n nextDay till tot
         | (Some (ws, we), nextDay) \<Rightarrow>
             let s = max cursor ws; e = min till we
             in between_loop day n nextDay till (if s < e then tot + (e - s) else tot))
      else tot)"

definition slaMinutesBetween :: "(instant \<Rightarrow> int) \<Rightarrow> instant \<Rightarrow> instant \<Rightarrow> sla_calendar \<Rightarrow> rat" where
  "slaMinutesBetween tz from till cal =
     (if till \<le> from then 0
      else if sla_coverage cal = TwentyFourSeven then js_div (of_int (till - from)) (of_int MINUTE)
      else js_div (of_int (between_loop (dayInfo tz (CALENDARS (sla_country cal)) (sla_holidays cal)) MAX_DAYS from till 0))
             (of_int MINUTE))"

datatype priority = P1 | P2 | P3 | P4

definition dueDates ::
  "(instant \<Rightarrow> int) \<Rightarrow> instant \<Rightarrow> priority \<Rightarrow> (priority \<Rightarrow> int) \<Rightarrow> (priority \<Rightarrow> int) \<Rightarrow> sla_calendar
     \<Rightarrow> (instant \<times> instant) result" where
  "dueDates tz openedAt prio response resolve cal =
     (case addSlaMinutes tz openedAt (response prio) cal of
        Inl e \<Rightarrow> Inl e
      | Inr a \<Rightarrow> (case addSlaMinutes tz openedAt (resolve prio) cal of Inl e \<Rightarrow> Inl e | Inr b \<Rightarrow> Inr (a, b)))"

section \<open>Working days\<close>

text \<open>
  What the loops rely on: the next day starts later, and a working window is a real interval that
  ends before the next day starts.
\<close>

locale day_calendar =
  fixes day :: "instant \<Rightarrow> (instant \<times> instant) option \<times> instant"
  assumes next_later: "0 \<le> t \<Longrightarrow> t < snd (day t)"
    and window: "0 \<le> t \<Longrightarrow> fst (day t) = Some (ws, we) \<Longrightarrow> ws < we \<and> we \<le> snd (day t)"
begin

lemma between_past: "till \<le> cursor \<Longrightarrow> between_loop day n cursor till tot = tot"
  by (cases n) simp_all

lemma add_loop_after:
  assumes "add_loop day n cursor remaining = Inr t" "0 \<le> cursor" "0 < remaining"
  shows "cursor < t"
  using assms
proof (induction n arbitrary: cursor remaining)
  case (Suc n)
  obtain w nd where d: "day cursor = (w, nd)" by force
  have nd: "cursor < nd" "0 \<le> nd" using next_later [OF Suc.prems(2)] d Suc.prems(2) by simp_all
  show ?case
  proof (cases w)
    case None
    then show ?thesis using Suc.IH [of nd remaining] Suc.prems d nd by simp
  next
    case (Some p)
    obtain ws we where p: "p = (ws, we)" by force
    have go: "cursor < t" if "add_loop day n nd r = Inr t" "0 < r" for r
      using Suc.IH [OF that(1) nd(2) that(2)] nd by simp
    show ?thesis
      using Suc.prems d Some p go by (auto simp: Let_def split: if_splits)
  qed
qed simp

text \<open>Counting the minutes up to the due time gives back the minutes asked for.\<close>

lemma between_add:
  assumes "add_loop day n cursor remaining = Inr t" "0 \<le> cursor" "0 < remaining"
  shows "between_loop day n cursor t tot = tot + remaining"
  using assms
proof (induction n arbitrary: cursor remaining tot)
  case (Suc n)
  obtain w nd where d: "day cursor = (w, nd)" by force
  have nd: "cursor < nd" "0 \<le> nd" using next_later [OF Suc.prems(2)] d Suc.prems(2) by simp_all
  have after: "cursor < t" by (rule add_loop_after [OF Suc.prems])
  show ?case
  proof (cases w)
    case None
    then show ?thesis using Suc.IH [of nd remaining] Suc.prems d nd after by simp
  next
    case (Some p)
    obtain ws we where p: "p = (ws, we)" by force
    have w: "ws < we" "we \<le> nd" using window [OF Suc.prems(2), of ws we] d Some p by simp_all
    let ?cur = "max cursor ws"
    have cur: "(if cursor < ws then ws else cursor) = ?cur" by simp
    show ?thesis
    proof (cases "?cur < we \<and> remaining \<le> we - ?cur")
      case True
      then have t: "t = ?cur + remaining" using Suc.prems(1) d Some p cur by (simp add: Let_def)
      then have "min t we = t" "?cur < t" "t \<le> nd" using True w Suc.prems(3) by simp_all
      moreover have "cursor < we" "ws < we" "ws < t" using True t Suc.prems(3) by linarith+
      ultimately show ?thesis using d Some p after t between_past by (simp add: Let_def)
    next
      case False
      let ?a = "if ?cur < we then we - ?cur else 0"
      have run: "add_loop day n nd (remaining - ?a) = Inr t"
        using Suc.prems(1) d Some p cur False by (auto simp: Let_def split: if_splits)
      have r: "0 < remaining - ?a" using False Suc.prems(3) by auto
      have "nd < t" by (rule add_loop_after [OF run nd(2) r])
      then have "min t we = we" "ws < t" using w by simp_all
      then show ?thesis
        using Suc.IH [OF run nd(2) r, of "tot + ?a"] d Some p after w by (cases "cursor < we") (simp_all add: Let_def)
    qed
  qed
qed simp

end

section \<open>The two calendars\<close>

text \<open>
  Riyadh and Istanbul are three hours ahead of UTC the whole year, which is the offset the
  comments of the source name.
\<close>

definition fixed_tz :: "int \<Rightarrow> instant \<Rightarrow> int" where "fixed_tz c t = c"

abbreviation plus3 :: "instant \<Rightarrow> int" where "plus3 \<equiv> fixed_tz 180"

lemma fields_of_day:
  assumes "100 \<le> getUTCFullYear l"
  shows "date_UTC (getUTCFullYear l) (getUTCMonth l) (getUTCDate l) h mi s ms
     = getDay l * msPerDay + (h * 3600000 + mi * 60000 + s * 1000 + ms)"
  using assms by (simp add: date_UTC_def getDay_make_day)

lemma year_shift: "- c \<le> t \<Longrightarrow> 100 \<le> getUTCFullYear (t + c)"
  using getUTCFullYear_epoch [of "t + c"] by simp

lemma sec_split: "getDay l * msPerDay + (getUTCHours l * 3600000 + getUTCMinutes l * 60000 + getUTCSeconds l * 1000)
    = l div 1000 * 1000"
proof -
  have "l = getDay l * msPerDay + (getUTCHours l * 3600000 + getUTCMinutes l * 60000 + getUTCSeconds l * 1000 + getUTCMilliseconds l)"
    using day_split [of l] tod_fields [of l] by simp
  moreover have "getUTCMilliseconds l = l mod 1000"
    by (simp add: getUTCMilliseconds_def getTimeOfDay_def msPerDay_def mod_mod_cancel)
  ultimately show ?thesis using div_mult_mod_eq [of l 1000] by linarith
qed

lemma offset_fixed:
  assumes "- (c * 60000) \<le> t" "\<bar>c\<bar> \<le> 2 ^ 53"
  shows "offsetMinutes (fixed_tz c) t = c"
proof -
  let ?l = "t + c * 60000"
  have "date_UTC (getUTCFullYear ?l) (getUTCMonth ?l) (getUTCDate ?l) (getUTCHours ?l) (getUTCMinutes ?l) (getUTCSeconds ?l) 0
      = ?l div 1000 * 1000"
    using fields_of_day [OF year_shift [OF assms(1)]] sec_split [of ?l] by simp
  also have "\<dots> - t div 1000 * 1000 = c * 60000"
  proof -
    have "?l div 1000 = t div 1000 + c * 60" using div_mult_self1 [of 1000 t "c * 60"] by simp
    then show ?thesis by simp
  qed
  finally show ?thesis
    using js_div_self_of_int [OF assms(2), of 60000] js_round_of_int [of c]
    by (simp add: offsetMinutes_def localParts_def Let_def fixed_tz_def MINUTE_def del: of_int_diff of_int_mult)
qed

lemma zonedTime_fixed:
  assumes "100 \<le> getUTCFullYear l" "0 \<le> getDay l" "0 \<le> h" "0 \<le> mi" and c: "0 \<le> c" "c \<le> 2 ^ 53"
  shows "zonedTime (fixed_tz c) (getUTCFullYear l) (getUTCMonth l + 1) (getUTCDate l) h mi
     = getDay l * msPerDay + h * 3600000 + mi * 60000 - c * 60000"
proof -
  let ?g = "getDay l * msPerDay + (h * 3600000 + mi * 60000)"
  have g: "date_UTC (getUTCFullYear l) (getUTCMonth l) (getUTCDate l) h mi 0 0 = ?g"
    using fields_of_day [OF assms(1)] by simp
  have "0 \<le> ?g" using assms by (simp add: msPerDay_def)
  then show ?thesis using c by (simp add: zonedTime_def g Let_def offset_fixed MINUTE_def)
qed

lemma dayInfo_fixed:
  assumes "0 \<le> t" "0 \<le> cal_startHour r" "0 \<le> cal_endHour r" and c: "0 \<le> c" "c \<le> 2 ^ 53"
  defines "D \<equiv> getDay (t + c * 60000)"
  shows "snd (dayInfo (fixed_tz c) r hol t) = (D + 1) * msPerDay - c * 60000"
    and "fst (dayInfo (fixed_tz c) r hol t) =
      (if (D + 4) mod 7 \<notin> set (cal_workdays r) \<or> localDateKey (fixed_tz c) t \<in> set hol then None
       else Some (D * msPerDay + cal_startHour r * 3600000 - c * 60000, D * msPerDay + cal_endHour r * 3600000 - c * 60000))"
proof -
  let ?l = "t + c * 60000"
  have y: "100 \<le> getUTCFullYear ?l" using assms(1) c by (intro year_shift) simp
  have D: "0 \<le> D" using assms(1) c by (simp add: D_def getDay_def msPerDay_def pos_imp_zdiv_nonneg_iff)
  have mid: "date_UTC (getUTCFullYear ?l) (getUTCMonth ?l) (getUTCDate ?l) 0 0 0 0 = D * msPerDay"
    using fields_of_day [OF y] by (simp add: D_def)
  have wd: "getUTCDay (D * msPerDay) = (D + 4) mod 7" by (simp add: getUTCDay_def getDay_def msPerDay_def)
  let ?n = "D * msPerDay + 86400000"
  have n: "getDay ?n = D + 1" using getDay_plus [of 0 "D + 1"] by (simp add: msPerDay_def algebra_simps)
  have "0 \<le> ?n" using D by (simp add: msPerDay_def)
  then have yn: "100 \<le> getUTCFullYear ?n" using getUTCFullYear_epoch [of ?n] by simp
  have nd: "zonedTime (fixed_tz c) (getUTCFullYear ?n) (getUTCMonth ?n + 1) (getUTCDate ?n) 0 0 = (D + 1) * msPerDay - c * 60000"
    using zonedTime_fixed [OF yn, of 0 0 c] n D c by simp
  have win: "zonedTime (fixed_tz c) (getUTCFullYear ?l) (getUTCMonth ?l + 1) (getUTCDate ?l) h 0 = D * msPerDay + h * 3600000 - c * 60000"
    if "0 \<le> h" for h
    using zonedTime_fixed [OF y _ that, of 0 c] D c by (simp add: D_def)
  show "snd (dayInfo (fixed_tz c) r hol t) = (D + 1) * msPerDay - c * 60000"
    using nd by (simp add: dayInfo_def localParts_def fixed_tz_def [of c t] MINUTE_def mid Let_def)
  show "fst (dayInfo (fixed_tz c) r hol t) =
      (if (D + 4) mod 7 \<notin> set (cal_workdays r) \<or> localDateKey (fixed_tz c) t \<in> set hol then None
       else Some (D * msPerDay + cal_startHour r * 3600000 - c * 60000, D * msPerDay + cal_endHour r * 3600000 - c * 60000))"
    using win [OF assms(2)] win [OF assms(3)]
    by (simp add: dayInfo_def localDateKey_def localParts_def fixed_tz_def [of c t] MINUTE_def mid wd Let_def)
qed

lemma CALENDARS_hours [simp]: "cal_startHour (CALENDARS c) = 9" "cal_endHour (CALENDARS c) = 17"
  by (cases c; simp add: CALENDARS_def)+

interpretation work: day_calendar "dayInfo plus3 (CALENDARS country) holidays" for country holidays
proof
  fix t :: instant assume t: "0 \<le> t"
  let ?D = "getDay (t + 10800000)"
  have "t + 10800000 < (?D + 1) * msPerDay"
    using day_split [of "t + 10800000"] getTimeOfDay_bounds [of "t + 10800000"] by (simp add: msPerDay_def algebra_simps)
  then show "t < snd (dayInfo plus3 (CALENDARS country) holidays t)"
    using t by (simp add: dayInfo_fixed)
  fix ws we assume "fst (dayInfo plus3 (CALENDARS country) holidays t) = Some (ws, we)"
  then show "ws < we \<and> we \<le> snd (dayInfo plus3 (CALENDARS country) holidays t)"
    using t by (auto simp: dayInfo_fixed msPerDay_def split: if_splits)
qed

lemma sla_round_trip:
  assumes "0 \<le> start" "0 < minutes" "minutes \<le> 2 ^ 53" "addSlaMinutes plus3 start minutes cal = Inr due"
  shows "slaMinutesBetween plus3 start due cal = of_int minutes"
proof (cases "sla_coverage cal")
  case TwentyFourSeven
  then show ?thesis
    using assms js_div_self_of_int [of minutes 60000]
    by (auto simp: addSlaMinutes_def slaMinutesBetween_def MINUTE_def)
next
  case BusinessHours
  let ?day = "dayInfo plus3 (CALENDARS (sla_country cal)) (sla_holidays cal)"
  have run: "add_loop ?day MAX_DAYS start (minutes * MINUTE) = Inr due"
    using assms BusinessHours by (simp add: addSlaMinutes_def)
  have pos: "0 < minutes * MINUTE" using assms by (simp add: MINUTE_def)
  have "start < due" by (rule work.add_loop_after [OF run assms(1) pos])
  moreover have "between_loop ?day MAX_DAYS start due 0 = minutes * MINUTE"
    using work.between_add [OF run assms(1) pos, of 0] by simp
  ultimately show ?thesis
    using BusinessHours assms(2,3) js_div_self_of_int [of minutes MINUTE]
    by (simp add: slaMinutesBetween_def MINUTE_def)
qed

end
