(* ===== verification/Billing_Data.thy ===== *)
theory Billing_Data
  imports Pricing
begin

text \<open>
  The billing tables of \<open>prisma/schema.prisma\<close> as the billing services read and write them, and
  the store that holds them.  Each row is a record with the columns the services use; a table is
  a list of rows in insertion order.  Rows are created with identifiers the database generates
  (\<open>cuid\<close>); the operations take them as arguments.  \<open>st_events\<close> is the event log
  (\<open>EventsService.emit\<close>): event name, team and resource.
\<close>

datatype invoice_status = InvDraft | InvOpen | InvPaid | InvVoid | InvUncollectible | InvCredited
datatype payment_status = PayPending | PaySucceeded | PayFailed | PayRefunded
datatype provider = Moyasar | BankTransfer | Manual | Fake
datatype credit_kind = Promo | Prepaid | Refund | Goodwill
datatype account_status = AccActive | AccPendingVerification | AccSuspended | AccClosed

record invoice =
  inv_id :: id
  inv_teamId :: id
  inv_number :: string
  inv_currency :: currency
  inv_periodStart :: instant
  inv_periodEnd :: instant
  inv_subtotalMinor :: int
  inv_taxMinor :: int
  inv_creditMinor :: int
  inv_totalMinor :: int
  inv_creditedMinor :: int
  inv_status :: invoice_status
  inv_eInvoiceType :: "string option"
  inv_dueAt :: "instant option"
  inv_paidAt :: "instant option"
  inv_voidedAt :: "instant option"
  inv_reminderStage :: int
  inv_lastReminderAt :: "instant option"

record payment =
  pay_id :: id
  pay_teamId :: id
  pay_invoiceId :: "id option"
  pay_provider :: provider
  pay_providerRef :: "string option"
  pay_currency :: currency
  pay_amountMinor :: int
  pay_status :: payment_status
  pay_failureReason :: "string option"
  pay_refundedMinor :: int
  pay_refundRef :: "string option"
  pay_refundedAt :: "instant option"
  pay_redirectUrl :: "string option"
  pay_paidAt :: "instant option"
  pay_createdAt :: instant

record credit =
  cr_id :: id
  cr_teamId :: id
  cr_kind :: credit_kind
  cr_currency :: currency
  cr_amountMinor :: int
  cr_remainingMinor :: int
  cr_expiresAt :: "instant option"
  cr_createdAt :: instant

record credit_note =
  cn_id :: id
  cn_number :: string
  cn_teamId :: id
  cn_invoiceId :: id
  cn_currency :: currency
  cn_amountMinor :: int
  cn_appliedToDueMinor :: int
  cn_creditId :: "id option"
  cn_createdBy :: id

datatype resource_type = RServer | RSnapshot | RPublicIp | RBandwidth | RVolume | RLoadBalancer
  | RObjectStorage | RDatabase | RApp | RBackup | RManagedServer | RSupport | RKubernetes | RAppInstance
  | RManagedPlan | RManagedOverage | RConnectExecution | RConnectAiInput | RConnectAiOutput
  | RConnectAiCacheRead | RConnectToolCall | RConnectAiCacheWrite | RConnectAiCacheWrite1h

record usage_record =
  ur_id :: id
  ur_projectId :: id
  ur_resourceType :: resource_type
  ur_resourceId :: id
  ur_hourStart :: instant
  ur_quantity :: rat
  ur_unit :: string
  ur_priceId :: "id option"
  ur_amountMinor :: int
  ur_currency :: currency
  ur_invoiceId :: "id option"

record team =
  tm_id :: id
  tm_currency :: currency
  tm_country :: string
  tm_status :: account_status
  tm_suspensionReason :: "string option"
  tm_suspendedAt :: "instant option"
  tm_closedAt :: "instant option"
  tm_kycLevel :: int
  tm_riskScore :: int
  tm_supportPlan :: string
  tm_projects :: "id list"

record work_log =
  wl_id :: id
  wl_contractId :: id
  wl_billedPeriod :: "instant option"
  wl_billedInvoiceId :: "id option"

datatype server_status = SvNew | SvProvisioning | SvActive | SvOff | SvRebooting | SvResizing
  | SvRebuilding | SvDeleting | SvDeleted | SvFailed | SvSuspended

record server =
  sv_id :: id
  sv_teamId :: id
  sv_status :: server_status
  sv_deletedAt :: "instant option"
  sv_suspendedPoweredOff :: bool

datatype power_op = OpStart | OpStop

record server_action =
  ac_serverId :: id
  ac_type :: power_op
  ac_ok :: bool

record abuse_flag =
  ab_teamId :: id
  ab_kind :: string
  ab_score :: int
  ab_resolvedAt :: "instant option"

record member =
  mb_teamId :: id
  mb_role :: string
  mb_emailVerified :: bool

record store =
  st_invoices :: "invoice list"
  st_payments :: "payment list"
  st_credits :: "credit list"
  st_creditNotes :: "credit_note list"
  st_usage :: "usage_record list"
  st_teams :: "team list"
  st_workLogs :: "work_log list"
  st_servers :: "server list"
  st_actions :: "server_action list"
  st_abuseFlags :: "abuse_flag list"
  st_members :: "member list"
  st_invoiceSeq :: nat
  st_creditNoteSeq :: nat
  st_events :: "(string \<times> id \<times> id) list"

definition emit :: "string \<Rightarrow> id \<Rightarrow> id \<Rightarrow> store \<Rightarrow> store" where
  "emit name teamId resource st = st\<lparr>st_events := st_events st @ [(name, teamId, resource)]\<rparr>"

text \<open>Prisma \<open>update\<close> on one row by its primary key.\<close>

definition update_invoice :: "id \<Rightarrow> (invoice \<Rightarrow> invoice) \<Rightarrow> store \<Rightarrow> store" where
  "update_invoice i f st = st\<lparr>st_invoices := update_where (\<lambda>r. inv_id r = i) f (st_invoices st)\<rparr>"

definition update_payment :: "id \<Rightarrow> (payment \<Rightarrow> payment) \<Rightarrow> store \<Rightarrow> store" where
  "update_payment i f st = st\<lparr>st_payments := update_where (\<lambda>r. pay_id r = i) f (st_payments st)\<rparr>"

definition update_team :: "id \<Rightarrow> (team \<Rightarrow> team) \<Rightarrow> store \<Rightarrow> store" where
  "update_team i f st = st\<lparr>st_teams := update_where (\<lambda>r. tm_id r = i) f (st_teams st)\<rparr>"

definition update_server :: "id \<Rightarrow> (server \<Rightarrow> server) \<Rightarrow> store \<Rightarrow> store" where
  "update_server i f st = st\<lparr>st_servers := update_where (\<lambda>r. sv_id r = i) f (st_servers st)\<rparr>"

definition add_credit :: "credit \<Rightarrow> store \<Rightarrow> store" where
  "add_credit c st = st\<lparr>st_credits := st_credits st @ [c]\<rparr>"

lemmas store_ops = emit_def update_invoice_def update_payment_def update_team_def update_server_def add_credit_def

lemma store_ops_frame [simp]:
  "st_credits (emit n t r st) = st_credits st"
  "st_invoices (emit n t r st) = st_invoices st"
  "st_payments (emit n t r st) = st_payments st"
  "st_creditNotes (emit n t r st) = st_creditNotes st"
  "st_usage (emit n t r st) = st_usage st"
  "st_teams (emit n t r st) = st_teams st"
  "st_credits (update_invoice i f st) = st_credits st"
  "st_payments (update_invoice i f st) = st_payments st"
  "st_creditNotes (update_invoice i f st) = st_creditNotes st"
  "st_usage (update_invoice i f st) = st_usage st"
  "st_teams (update_invoice i f st) = st_teams st"
  "st_credits (update_payment i g st) = st_credits st"
  "st_invoices (update_payment i g st) = st_invoices st"
  "st_creditNotes (update_payment i g st) = st_creditNotes st"
  "st_usage (update_payment i g st) = st_usage st"
  "st_teams (update_payment i g st) = st_teams st"
  "st_credits (update_team i h st) = st_credits st"
  "st_invoices (update_team i h st) = st_invoices st"
  "st_payments (update_team i h st) = st_payments st"
  "st_creditNotes (update_team i h st) = st_creditNotes st"
  "st_usage (update_team i h st) = st_usage st"
  "st_servers (emit n t r st) = st_servers st"
  "st_servers (update_invoice i f st) = st_servers st"
  "st_servers (update_payment i g st) = st_servers st"
  "st_servers (update_team i h st) = st_servers st"
  "st_servers (add_credit c st) = st_servers st"
  "st_credits (update_server i k st) = st_credits st"
  "st_invoices (update_server i k st) = st_invoices st"
  "st_payments (update_server i k st) = st_payments st"
  "st_creditNotes (update_server i k st) = st_creditNotes st"
  "st_usage (update_server i k st) = st_usage st"
  "st_teams (update_server i k st) = st_teams st"
  "st_invoices (add_credit c st) = st_invoices st"
  "st_payments (add_credit c st) = st_payments st"
  "st_creditNotes (add_credit c st) = st_creditNotes st"
  "st_usage (add_credit c st) = st_usage st"
  "st_teams (add_credit c st) = st_teams st"
  by (simp_all add: store_ops)

lemma store_ops_effect [simp]:
  "st_invoices (update_invoice i f st) = update_where (\<lambda>r. inv_id r = i) f (st_invoices st)"
  "st_payments (update_payment i g st) = update_where (\<lambda>r. pay_id r = i) g (st_payments st)"
  "st_teams (update_team i h st) = update_where (\<lambda>r. tm_id r = i) h (st_teams st)"
  "st_servers (update_server i k st) = update_where (\<lambda>r. sv_id r = i) k (st_servers st)"
  "st_credits (add_credit c st) = st_credits st @ [c]"
  "st_events (emit n t r st) = st_events st @ [(n, t, r)]"
  by (simp_all add: store_ops)

section \<open>Draining balances\<close>

text \<open>
  Both \<open>consumeCredits\<close> (\<open>invoices.service.ts\<close>) and \<open>takeBackPrepaid\<close>
  (\<open>billing-admin.service.ts\<close>) walk a sorted list of credits and take the rest of the amount from
  each until nothing is left, with the guarded decrement
  \<open>updateMany where id = c.id and remainingMinor >= use\<close>, which must touch exactly one row.
  \<open>drain\<close> is that loop: \<open>order\<close> is the list read at the start, \<open>rows\<close> the table as the
  transaction writes it.
\<close>

fun drain :: "credit list \<Rightarrow> int \<Rightarrow> credit list \<Rightarrow> (int \<times> credit list) result" where
  "drain [] left rows = Inr (left, rows)"
| "drain (c # cs) left rows =
     (if left \<le> 0 then Inr (left, rows)
      else
        let use = min (cr_remainingMinor c) left;
            hit = (\<lambda>r. cr_id r = cr_id c \<and> use \<le> cr_remainingMinor r)
        in if count_where hit rows \<noteq> 1 then Inl (JsError ''credit changed'')
           else drain cs (left - use)
                  (update_where hit (\<lambda>r. r\<lparr>cr_remainingMinor := cr_remainingMinor r - use\<rparr>) rows))"

end
