(* ===== verification/Actor.thy ===== *)
theory Actor
  imports JS_String
begin

text \<open>
  Who makes a request, \<open>common/auth/actor.ts\<close>: team roles and the scopes they imply, staff roles
  and the back office scopes they imply.
\<close>

datatype team_role = Owner | Admin | Member | Billing | Readonly

record actor =
  a_userId :: id
  a_teamId :: id
  a_role :: team_role
  a_projectId :: "id option"
  a_scopes :: "string set"
  a_tokenId :: "id option"
  a_sessionId :: "id option"
  a_isAgent :: bool
  a_requireApprovalFor :: "string set"
  a_suspended :: bool
  a_ops :: bool

definition ALL_SCOPES :: "string list" where
  "ALL_SCOPES =
    [''servers:read'', ''servers:write'', ''servers:delete'',
     ''images:read'', ''snapshots:read'', ''snapshots:write'', ''volumes:read'', ''volumes:write'',
     ''dns:read'', ''dns:write'', ''storage:read'', ''storage:write'', ''databases:read'',
     ''databases:write'', ''kubernetes:read'', ''kubernetes:write'',
     ''network:read'', ''network:write'',
     ''apps:read'', ''apps:write'',
     ''billing:read'', ''billing:write'',
     ''support:read'', ''support:write'',
     ''managed:read'', ''managed:write'',
     ''connect:read'', ''connect:write'',
     ''iam:read'', ''iam:write'',
     ''admin'']"

fun scopesForRole :: "team_role \<Rightarrow> string set" where
  "scopesForRole Owner = set (filter (\<lambda>s. s \<noteq> ''admin'') ALL_SCOPES)"
| "scopesForRole Admin = set (filter (\<lambda>s. s \<noteq> ''admin'') ALL_SCOPES)"
| "scopesForRole Member =
     set (filter (\<lambda>s. \<not> startsWith s ''billing'' \<and> \<not> startsWith s ''iam'' \<and> s \<noteq> ''admin''
                      \<and> s \<noteq> ''connect:write'') ALL_SCOPES)"
| "scopesForRole Billing = {''billing:read'', ''billing:write'', ''servers:read'', ''iam:read''}"
| "scopesForRole Readonly = set (filter (\<lambda>s. endsWith s '':read'') ALL_SCOPES)"

definition STAFF_ROLES :: "string list" where
  "STAFF_ROLES = [''support'', ''finance'', ''ops'', ''engineer'', ''support_lead'']"

definition staffScopes :: "bool \<Rightarrow> string list \<Rightarrow> string list" where
  "staffScopes isStaff staffRoles =
     (if \<not> isStaff then []
      else let roles = filter (\<lambda>r. r \<in> set STAFF_ROLES) staffRoles
           in if roles \<noteq> [] then map (\<lambda>r. ''admin:'' @ r) roles else [''admin''])"

definition hasStaffScope :: "string set \<Rightarrow> bool" where
  "hasStaffScope scopes \<longleftrightarrow> (\<exists>s\<in>scopes. s = ''admin'' \<or> startsWith s ''admin:'')"

definition hasStaffArea :: "string set \<Rightarrow> string list \<Rightarrow> bool" where
  "hasStaffArea scopes areas \<longleftrightarrow> ''admin'' \<in> scopes \<or> (\<exists>a\<in>set areas. (''admin:'' @ a) \<in> scopes)"

section \<open>No role implies a staff scope\<close>

lemma endsWith_admin: "\<not> endsWith ''admin'' '':read''"
  by code_simp

lemma billing_scopes:
  "list_all (\<lambda>s. s \<in> set ALL_SCOPES \<and> s \<noteq> ''admin'')
     [''billing:read'', ''billing:write'', ''servers:read'', ''iam:read'']"
  by code_simp

lemma scopesForRole_subset: "scopesForRole r \<subseteq> set ALL_SCOPES - {''admin''}"
proof (cases r)
  case Readonly
  then show ?thesis using endsWith_admin by auto
next
  case Billing
  then show ?thesis using billing_scopes by simp
qed auto

lemma ALL_SCOPES_areas: "list_all (\<lambda>s. \<not> startsWith s ''admin:'') ALL_SCOPES"
  by code_simp

lemma ALL_SCOPES_no_area: "s \<in> set ALL_SCOPES \<Longrightarrow> \<not> startsWith s ''admin:''"
  using ALL_SCOPES_areas by (simp add: list_all_iff)

lemma scopesForRole_not_staff: "\<not> hasStaffScope (scopesForRole r)"
  using scopesForRole_subset [of r] ALL_SCOPES_no_area by (auto simp: hasStaffScope_def)

lemma staffScopes_none: "\<not> isStaff \<Longrightarrow> staffScopes isStaff roles = []"
  by (simp add: staffScopes_def)

end
