(* ===== verification/Contracts.thy ===== *)
theory Contracts
  imports Renewal Sla Billing_Data Actor
begin

text \<open>
  Managed cloud contracts: \<open>managed/contracts/contracts.service.ts\<close> (the lifecycle, renewals and
  the daily jobs), \<open>contract-terms.service.ts\<close> (what a contract costs), \<open>access.service.ts\<close> (what is
  stopped when a contract ends), \<open>onboarding/onboarding.service.ts\<close> (the checklist that activates a
  contract) and \<open>responsibility/responsibility.service.ts\<close> (the responsibility matrix).

  The tables are the record \<open>desk\<close>.  A contract row carries the plan row it refers to, the type
  \<open>ContractWithPlan\<close> of the source.  An operation reads the clock once (\<open>now\<close>); new row ids are
  arguments.  Mails are the team and the kind of the mail; their text, the handover document and
  the presented response are not modelled.  \<open>workflows.signal\<close> belongs to Temporal: where its
  answer matters it is an argument.
\<close>

section \<open>Rows\<close>

record managed_plan =
  mpl_id :: id
  mpl_code :: string
  mpl_priceMinor :: "int option"
  mpl_currency :: currency
  mpl_maxAssets :: "int option"
  mpl_coverage :: coverage
  mpl_includedEngineerMinutes :: int
  mpl_hourlyRateMinor :: int
  mpl_active :: bool

record contract =
  mct_id :: id
  mct_teamId :: id
  mct_plan :: managed_plan
  mct_status :: contract_status
  mct_calendar :: calendar_country
  mct_currency :: currency
  mct_priceOverrideMinor :: "int option"
  mct_includedMinutesOverride :: "int option"
  mct_maxAssetsOverride :: "int option"
  mct_liabilityCapMinor :: "int option"
  mct_signedByName :: "string option"
  mct_signedAt :: "instant option"
  mct_signedById :: "id option"
  mct_onCallOverride :: bool
  mct_termMonths :: int
  mct_termEndsAt :: "instant option"
  mct_renewedAt :: "instant option"
  mct_autoRenew :: bool
  mct_cancelAt :: "instant option"
  mct_renewalNoticeAt :: "instant option"
  mct_requestedById :: "id option"
  mct_notes :: "string option"
  mct_onboardingStartedAt :: "instant option"
  mct_activatedAt :: "instant option"
  mct_suspendedAt :: "instant option"
  mct_suspensions :: "(instant \<times> instant) list"
  mct_cancelledAt :: "instant option"
  mct_cancelReason :: "string option"
  mct_accessPolicy :: string
  mct_createdAt :: instant

record onboarding_item =
  obi_contractId :: id
  obi_key :: string
  obi_title :: string
  obi_sortOrder :: int
  obi_done :: bool
  obi_doneById :: "id option"
  obi_doneAt :: "instant option"
  obi_note :: "string option"

datatype responsibility_owner = OwnProgrid | OwnCustomer | OwnShared

record responsibility =
  rsp_id :: id
  rsp_contractId :: id
  rsp_area :: string
  rsp_owner :: responsibility_owner
  rsp_notes :: "string option"
  rsp_sortOrder :: int

record contract_asset =
  mas_id :: id
  mas_contractId :: id
  mas_monitoringEnabled :: bool
  mas_heartbeatTokenHash :: "string option"
  mas_removedAt :: "instant option"

record maintenance_task =
  mtk_id :: id
  mtk_contractId :: id
  mtk_enabled :: bool
  mtk_nextRunAt :: "instant option"

datatype alert_status = AlFiring | AlAcknowledged | AlResolved

record managed_alert =
  mal_id :: id
  mal_contractId :: id
  mal_status :: alert_status
  mal_resolvedAt :: "instant option"
  mal_endsAt :: "instant option"
  mal_openKey :: "string option"

record duty_shift =
  ocs_userId :: id
  ocs_startsAt :: instant
  ocs_endsAt :: instant

text \<open>A row of the audit log, as \<open>events.emit\<close> writes it.\<close>

record audit_row =
  aud_action :: string
  aud_contractId :: id
  aud_teamId :: id
  aud_userId :: "id option"
  aud_at :: instant

record desk =
  dk_contracts :: "contract list"
  dk_plans :: "managed_plan list"
  dk_teams :: "team list"
  dk_items :: "onboarding_item list"
  dk_matrix :: "responsibility list"
  dk_assets :: "contract_asset list"
  dk_tasks :: "maintenance_task list"
  dk_alerts :: "managed_alert list"
  dk_shifts :: "duty_shift list"
  dk_audit :: "audit_row list"
  dk_mails :: "(id \<times> string) list"
  dk_fx :: fx_state

section \<open>Shared steps\<close>

text \<open>Platform actors act as \<open>system\<close>, which is no user row.\<close>

definition record_event :: "string \<Rightarrow> id \<Rightarrow> id \<Rightarrow> actor option \<Rightarrow> instant \<Rightarrow> desk \<Rightarrow> desk" where
  "record_event name i teamId who now db =
     db\<lparr>dk_audit := dk_audit db @
        [\<lparr>aud_action = name, aud_contractId = i, aud_teamId = teamId,
          aud_userId = (case who of None \<Rightarrow> None | Some a \<Rightarrow> if a_userId a = ''system'' then None else Some (a_userId a)),
          aud_at = now\<rparr>]\<rparr>"

definition mail_team :: "id \<Rightarrow> string \<Rightarrow> desk \<Rightarrow> desk" where
  "mail_team teamId kind db = db\<lparr>dk_mails := dk_mails db @ [(teamId, kind)]\<rparr>"

text \<open>\<open>update\<close> by primary key, and \<open>updateMany\<close> with whether it touched exactly one row.\<close>

definition update_contract :: "id \<Rightarrow> (contract \<Rightarrow> contract) \<Rightarrow> desk \<Rightarrow> desk" where
  "update_contract i f db = db\<lparr>dk_contracts := update_where (\<lambda>r. mct_id r = i) f (dk_contracts db)\<rparr>"

definition move_contract :: "(contract \<Rightarrow> bool) \<Rightarrow> (contract \<Rightarrow> contract) \<Rightarrow> desk \<Rightarrow> bool \<times> desk" where
  "move_contract p f db =
     (count_where p (dk_contracts db) = 1, db\<lparr>dk_contracts := update_where p f (dk_contracts db)\<rparr>)"

definition assertOwner :: "actor \<Rightarrow> unit result" where
  "assertOwner a = (if a_role a \<noteq> Owner then Inl forbidden else Inr ())"

definition load_contract :: "id \<Rightarrow> desk \<Rightarrow> contract result" where
  "load_contract i db = (case find_by mct_id i (dk_contracts db) of None \<Rightarrow> Inl notFound | Some c \<Rightarrow> Inr c)"

definition owned_contract :: "actor \<Rightarrow> id \<Rightarrow> desk \<Rightarrow> contract result" where
  "owned_contract a i db =
     (case List.find (\<lambda>c. mct_id c = i \<and> mct_teamId c = a_teamId a) (dk_contracts db) of
        None \<Rightarrow> Inl notFound | Some c \<Rightarrow> Inr c)"

text \<open>The owner's contract, for the operations an owner calls.\<close>

definition own_contract :: "actor \<Rightarrow> id \<Rightarrow> desk \<Rightarrow> contract result" where
  "own_contract a i db = and_then (assertOwner a) (\<lambda>_. owned_contract a i db)"

text \<open>A column with an instant at or before \<open>now\<close>, and one after it; null is neither.\<close>

definition by_now :: "instant \<Rightarrow> instant option \<Rightarrow> bool" where
  "by_now now x \<longleftrightarrow> (case x of None \<Rightarrow> False | Some t \<Rightarrow> t \<le> now)"

text \<open>\<open>setUTCMonth\<close>: the day is kept and runs over into the next month when it does not exist.\<close>

definition setUTCMonth :: "instant \<Rightarrow> int \<Rightarrow> instant" where
  "setUTCMonth d m = make_day (getUTCFullYear d) m (getUTCDate d) * msPerDay + getTimeOfDay d"

section \<open>What a contract costs\<close>

record contract_terms =
  trm_currency :: currency
  trm_monthlyFeeMinor :: "int option"
  trm_hourlyRateMinor :: int
  trm_includedEngineerMinutes :: int
  trm_maxAssets :: "int option"
  trm_coverage :: coverage

definition convert_minor :: "int \<Rightarrow> currency \<Rightarrow> currency \<Rightarrow> instant \<Rightarrow> instant \<Rightarrow> fx_state \<Rightarrow> int \<times> fx_state" where
  "convert_minor amount src dst tm now fx =
     (if src = dst then (amount, fx)
      else
        let (inBook, fx1) = (if src = BOOK_CURRENCY then (of_int amount, fx)
                             else let (r, f) = bookRate src tm now fx in (js_div (of_int amount) r, f))
        in if dst = BOOK_CURRENCY then (js_round inBook, fx1)
           else let (r, fx2) = bookRate dst tm now fx1 in (js_round (js_mul inBook r), fx2))"

definition terms_of :: "contract \<Rightarrow> instant \<Rightarrow> instant \<Rightarrow> fx_state \<Rightarrow> contract_terms \<times> fx_state" where
  "terms_of c tm now fx =
     (let p = mct_plan c;
          (fee, fx1) = (case mct_priceOverrideMinor c of
             Some x \<Rightarrow> (Some x, fx)
           | None \<Rightarrow> (case mpl_priceMinor p of
                None \<Rightarrow> (None, fx)
              | Some x \<Rightarrow> let (y, f) = convert_minor x (mpl_currency p) (mct_currency c) tm now fx in (Some y, f)));
          (hourly, fx2) = convert_minor (mpl_hourlyRateMinor p) (mpl_currency p) (mct_currency c) tm now fx1
      in (\<lparr>trm_currency = mct_currency c, trm_monthlyFeeMinor = fee, trm_hourlyRateMinor = hourly,
           trm_includedEngineerMinutes =
             (case mct_includedMinutesOverride c of None \<Rightarrow> mpl_includedEngineerMinutes p | Some x \<Rightarrow> x),
           trm_maxAssets = (case mct_maxAssetsOverride c of None \<Rightarrow> mpl_maxAssets p | Some x \<Rightarrow> Some x),
           trm_coverage = mpl_coverage p\<rparr>, fx2))"

section \<open>The responsibility matrix\<close>

definition DEFAULT_RESPONSIBILITIES :: "(string \<times> responsibility_owner \<times> string option) list" where
  "DEFAULT_RESPONSIBILITIES =
    [(''Data center, hardware and hypervisor'', OwnProgrid, Some ''Platform servers only. For external servers the hosting provider is responsible.''),
     (''Operating system patching'', OwnProgrid, Some ''Monthly patch window plus urgent security fixes.''),
     (''Monitoring and alerting'', OwnProgrid, None),
     (''Incident response'', OwnProgrid, Some ''Within the plan response targets.''),
     (''Backups and restore tests'', OwnProgrid, Some ''The customer decides what data must be kept and for how long.''),
     (''Security hardening and firewall rules'', OwnShared, Some ''Progrid hardens the operating system; the customer approves exposed ports.''),
     (''Capacity planning'', OwnShared, Some ''Progrid recommends in the monthly report; the customer approves spend.''),
     (''Application code, releases and deployments'', OwnCustomer, None),
     (''Application configuration and data'', OwnCustomer, None),
     (''Application user accounts and credentials'', OwnCustomer, None),
     (''Third party licenses'', OwnCustomer, None),
     (''External cloud accounts and their bills'', OwnCustomer, None),
     (''Compliance evidence (PDPL, NCA ECC)'', OwnShared, None)]"

text \<open>\<open>createMany\<close> with \<open>skipDuplicates\<close>: a row whose unique key is taken is left out.\<close>

definition add_new :: "('r \<Rightarrow> 'k) \<Rightarrow> 'r \<Rightarrow> 'r list \<Rightarrow> 'r list" where
  "add_new k new rows = (if k new \<in> k ` set rows then rows else rows @ [new])"

definition createMany_skip :: "('r \<Rightarrow> 'k) \<Rightarrow> 'r list \<Rightarrow> 'r list \<Rightarrow> 'r list" where
  "createMany_skip k news rows = fold (add_new k) news rows"

definition default_matrix :: "(nat \<Rightarrow> id) \<Rightarrow> id \<Rightarrow> responsibility list" where
  "default_matrix newId i =
     map (\<lambda>(n, area, own, notes). \<lparr>rsp_id = newId n, rsp_contractId = i, rsp_area = area, rsp_owner = own,
                                    rsp_notes = notes, rsp_sortOrder = int n\<rparr>)
       (List.enumerate 0 DEFAULT_RESPONSIBILITIES)"

definition rsp_key :: "responsibility \<Rightarrow> id \<times> string" where
  "rsp_key r = (rsp_contractId r, rsp_area r)"

definition ensureDefaults :: "(nat \<Rightarrow> id) \<Rightarrow> id \<Rightarrow> desk \<Rightarrow> desk" where
  "ensureDefaults newId i db = db\<lparr>dk_matrix := createMany_skip rsp_key (default_matrix newId i) (dk_matrix db)\<rparr>"

text \<open>\<open>_max\<close> of the sort order, 0 when there is no row.\<close>

definition max_order :: "('r \<Rightarrow> int) \<Rightarrow> 'r list \<Rightarrow> int" where
  "max_order f rows = (case map f rows of [] \<Rightarrow> 0 | x # xs \<Rightarrow> fold max xs x)"

definition createResponsibility ::
  "instant \<Rightarrow> actor \<Rightarrow> id \<Rightarrow> id \<Rightarrow> string \<Rightarrow> responsibility_owner \<Rightarrow> string option \<Rightarrow> int option \<Rightarrow> desk \<Rightarrow> responsibility result \<times> desk" where
  "createResponsibility now who newId i area own notes order db =
     (case load_contract i db of
        Inl e \<Rightarrow> (Inl e, db)
      | Inr c \<Rightarrow>
          let nxt = max_order rsp_sortOrder (filter (\<lambda>r. rsp_contractId r = i) (dk_matrix db)) + 1;
              r = \<lparr>rsp_id = newId, rsp_contractId = i, rsp_area = trim area, rsp_owner = own, rsp_notes = notes,
                   rsp_sortOrder = (case order of None \<Rightarrow> nxt | Some x \<Rightarrow> x)\<rparr>
          in if rsp_key r \<in> rsp_key ` set (dk_matrix db) then (Inl (conflict ''already_exists''), db)
             else (Inr r, record_event ''managed.responsibility_changed'' i (mct_teamId c) (Some who) now
                            (db\<lparr>dk_matrix := dk_matrix db @ [r]\<rparr>)))"

record responsibility_patch =
  rpp_area :: "string option"
  rpp_owner :: "responsibility_owner option"
  rpp_notes :: "string option"
  rpp_sortOrder :: "int option"

definition patch_responsibility :: "responsibility_patch \<Rightarrow> responsibility \<Rightarrow> responsibility" where
  "patch_responsibility p r =
     r\<lparr>rsp_area := (case rpp_area p of None \<Rightarrow> rsp_area r | Some a \<Rightarrow> trim a),
       rsp_owner := (case rpp_owner p of None \<Rightarrow> rsp_owner r | Some x \<Rightarrow> x),
       rsp_notes := (case rpp_notes p of None \<Rightarrow> rsp_notes r | Some x \<Rightarrow> Some x),
       rsp_sortOrder := (case rpp_sortOrder p of None \<Rightarrow> rsp_sortOrder r | Some x \<Rightarrow> x)\<rparr>"

text \<open>The unique index on contract and area refuses a rename onto another row.\<close>

definition updateResponsibility ::
  "instant \<Rightarrow> actor \<Rightarrow> id \<Rightarrow> id \<Rightarrow> responsibility_patch \<Rightarrow> desk \<Rightarrow> responsibility result \<times> desk" where
  "updateResponsibility now who i rid p db =
     (case load_contract i db of
        Inl e \<Rightarrow> (Inl e, db)
      | Inr c \<Rightarrow>
          (case List.find (\<lambda>r. rsp_id r = rid \<and> rsp_contractId r = i) (dk_matrix db) of
             None \<Rightarrow> (Inl notFound, db)
           | Some r \<Rightarrow>
               let r' = patch_responsibility p r
               in if list_ex (\<lambda>x. rsp_id x \<noteq> rid \<and> rsp_key x = rsp_key r') (dk_matrix db) then (Inl (JsError ''P2002''), db)
                  else (Inr r', record_event ''managed.responsibility_changed'' i (mct_teamId c) (Some who) now
                          (db\<lparr>dk_matrix := update_where (\<lambda>x. rsp_id x = rid) (patch_responsibility p) (dk_matrix db)\<rparr>))))"

definition removeResponsibility :: "instant \<Rightarrow> actor \<Rightarrow> id \<Rightarrow> id \<Rightarrow> desk \<Rightarrow> unit result \<times> desk" where
  "removeResponsibility now who i rid db =
     (case load_contract i db of
        Inl e \<Rightarrow> (Inl e, db)
      | Inr c \<Rightarrow>
          (case List.find (\<lambda>r. rsp_id r = rid \<and> rsp_contractId r = i) (dk_matrix db) of
             None \<Rightarrow> (Inl notFound, db)
           | Some r \<Rightarrow> (Inr (), record_event ''managed.responsibility_changed'' i (mct_teamId c) (Some who) now
                          (db\<lparr>dk_matrix := filter (\<lambda>x. rsp_id x \<noteq> rid) (dk_matrix db)\<rparr>))))"

section \<open>Onboarding\<close>

definition DEFAULT_ONBOARDING :: "(string \<times> string) list" where
  "DEFAULT_ONBOARDING =
    [(''monitoring'', ''Monitoring agent installed or platform monitoring on for every asset''),
     (''backups'', ''Backups configured and a restore tested''),
     (''access'', ''Access granted through the management network''),
     (''documentation'', ''Documentation and runbook written''),
     (''responsibility_matrix'', ''Responsibility matrix agreed with the customer'')]"

definition default_items :: "id \<Rightarrow> onboarding_item list" where
  "default_items i =
     map (\<lambda>(n, key, title). \<lparr>obi_contractId = i, obi_key = key, obi_title = title, obi_sortOrder = int n,
                              obi_done = False, obi_doneById = None, obi_doneAt = None, obi_note = None\<rparr>)
       (List.enumerate 0 DEFAULT_ONBOARDING)"

definition obi_id :: "onboarding_item \<Rightarrow> id \<times> string" where
  "obi_id x = (obi_contractId x, obi_key x)"

definition ensureChecklist :: "id \<Rightarrow> desk \<Rightarrow> desk" where
  "ensureChecklist i db = db\<lparr>dk_items := createMany_skip obi_id (default_items i) (dk_items db)\<rparr>"

definition items_of :: "id \<Rightarrow> desk \<Rightarrow> onboarding_item list" where
  "items_of i db = filter (\<lambda>x. obi_contractId x = i) (dk_items db)"

definition addItem :: "instant \<Rightarrow> actor \<Rightarrow> id \<Rightarrow> string \<Rightarrow> string \<Rightarrow> desk \<Rightarrow> onboarding_item result \<times> desk" where
  "addItem now who i key title db =
     (case load_contract i db of
        Inl e \<Rightarrow> (Inl e, db)
      | Inr c \<Rightarrow>
          if mct_status c \<noteq> COnboarding \<and> mct_status c \<noteq> CDraft then (Inl invalidState, db)
          else
            let x = \<lparr>obi_contractId = i, obi_key = key, obi_title = title,
                     obi_sortOrder = max_order obi_sortOrder (items_of i db) + 1,
                     obi_done = False, obi_doneById = None, obi_doneAt = None, obi_note = None\<rparr>
            in if (i, key) \<in> obi_id ` set (dk_items db) then (Inl (conflict ''already_exists''), db)
               else (Inr x, record_event ''managed.onboarding_item_added'' i (mct_teamId c) (Some who) now
                              (db\<lparr>dk_items := dk_items db @ [x]\<rparr>)))"

datatype activation = ActActive | ActWaiting | ActStopped

definition activateIfComplete :: "instant \<Rightarrow> id \<Rightarrow> desk \<Rightarrow> activation \<times> desk" where
  "activateIfComplete now i db =
     (case find_by mct_id i (dk_contracts db) of
        None \<Rightarrow> (ActStopped, db)
      | Some c \<Rightarrow>
          if mct_status c = CActive then (ActActive, db)
          else if mct_status c \<noteq> COnboarding then (ActStopped, db)
          else if items_of i db = [] \<or> list_ex (\<lambda>x. \<not> obi_done x) (items_of i db) then (ActWaiting, db)
          else
            let termEndsAt = setUTCMonth now (getUTCMonth now + mct_termMonths c);
                (moved, db1) = move_contract (\<lambda>r. mct_id r = i \<and> mct_status r = COnboarding)
                  (\<lambda>r. r\<lparr>mct_status := CActive, mct_activatedAt := Some now, mct_termEndsAt := Some termEndsAt\<rparr>) db
            in (ActActive,
                if moved
                then mail_team (mct_teamId c) ''active''
                       (record_event ''managed.contract_activated'' i (mct_teamId c) None now db1)
                else db1))"

text \<open>\<open>signalled\<close> is what \<open>workflows.signal\<close> answered: with false the check runs inline.\<close>

definition setItem ::
  "bool \<Rightarrow> instant \<Rightarrow> actor \<Rightarrow> id \<Rightarrow> string \<Rightarrow> bool \<Rightarrow> string option \<Rightarrow> desk \<Rightarrow> unit result \<times> desk" where
  "setItem signalled now who i key isDone comment db =
     (case load_contract i db of
        Inl e \<Rightarrow> (Inl e, db)
      | Inr c \<Rightarrow>
          if mct_status c \<noteq> COnboarding then (Inl invalidState, db)
          else if (i, key) \<notin> obi_id ` set (dk_items db) then (Inl notFound, db)
          else
            let db1 = db\<lparr>dk_items := update_where (\<lambda>x. obi_id x = (i, key))
                        (\<lambda>x. x\<lparr>obi_done := isDone, obi_doneById := (if isDone then Some (a_userId who) else None),
                               obi_doneAt := (if isDone then Some now else None),
                               obi_note := (case comment of None \<Rightarrow> obi_note x | Some t \<Rightarrow> Some t)\<rparr>) (dk_items db)\<rparr>;
                db2 = record_event (if isDone then ''managed.onboarding_item_done'' else ''managed.onboarding_item_reopened'')
                        i (mct_teamId c) (Some who) now db1
            in (Inr (), if signalled then db2 else snd (activateIfComplete now i db2)))"

section \<open>Drafts\<close>

record contract_extra =
  cxt_priceOverrideMinor :: "int option"
  cxt_includedMinutesOverride :: "int option"
  cxt_maxAssetsOverride :: "int option"
  cxt_termMonths :: "int option"

definition no_extra :: contract_extra where
  "no_extra = \<lparr>cxt_priceOverrideMinor = None, cxt_includedMinutesOverride = None,
               cxt_maxAssetsOverride = None, cxt_termMonths = None\<rparr>"

text \<open>The ids of the new rows and the default access policy of the settings come with the call.\<close>

record draft_env =
  dre_newId :: id
  dre_matrixId :: "nat \<Rightarrow> id"
  dre_accessPolicy :: string

definition draft_row ::
  "draft_env \<Rightarrow> instant \<Rightarrow> actor \<Rightarrow> team \<Rightarrow> managed_plan \<Rightarrow> calendar_country option \<Rightarrow> string option \<Rightarrow> contract_extra \<Rightarrow> contract" where
  "draft_row env now who tm p cal notes ext =
     \<lparr>mct_id = dre_newId env, mct_teamId = tm_id tm, mct_plan = p, mct_status = CDraft,
      mct_calendar = (case cal of Some x \<Rightarrow> x | None \<Rightarrow> if tm_country tm = ''TR'' then CalTR else CalSA),
      mct_currency = tm_currency tm, mct_priceOverrideMinor = cxt_priceOverrideMinor ext,
      mct_includedMinutesOverride = cxt_includedMinutesOverride ext, mct_maxAssetsOverride = cxt_maxAssetsOverride ext,
      mct_liabilityCapMinor = None, mct_signedByName = None, mct_signedAt = None, mct_signedById = None,
      mct_onCallOverride = False, mct_termMonths = (case cxt_termMonths ext of None \<Rightarrow> 12 | Some n \<Rightarrow> n),
      mct_termEndsAt = None, mct_renewedAt = None, mct_autoRenew = True, mct_cancelAt = None,
      mct_renewalNoticeAt = None, mct_requestedById = Some (a_userId who), mct_notes = notes,
      mct_onboardingStartedAt = None, mct_activatedAt = None, mct_suspendedAt = None, mct_suspensions = [],
      mct_cancelledAt = None, mct_cancelReason = None, mct_accessPolicy = dre_accessPolicy env, mct_createdAt = now\<rparr>"

definition createDraft ::
  "draft_env \<Rightarrow> instant \<Rightarrow> actor \<Rightarrow> id \<Rightarrow> string \<Rightarrow> calendar_country option \<Rightarrow> string option \<Rightarrow> contract_extra \<Rightarrow> desk
     \<Rightarrow> contract result \<times> desk" where
  "createDraft env now who teamId code cal notes ext db =
     (case List.find (\<lambda>p. mpl_code p = toUpperCase code \<and> mpl_active p) (dk_plans db) of
        None \<Rightarrow> (Inl invalid, db)
      | Some p \<Rightarrow>
          (case find_by tm_id teamId (dk_teams db) of
             None \<Rightarrow> (Inl (JsError ''NotFoundError''), db)
           | Some tm \<Rightarrow>
               let c = draft_row env now who tm p cal notes ext
               in if mct_id c \<in> mct_id ` set (dk_contracts db) then (Inl (JsError ''P2002''), db)
                  else (Inr c, record_event ''managed.contract_requested'' (mct_id c) teamId (Some who) now
                          (ensureDefaults (dre_matrixId env) (mct_id c) (db\<lparr>dk_contracts := dk_contracts db @ [c]\<rparr>)))))"

definition request_contract ::
  "draft_env \<Rightarrow> instant \<Rightarrow> actor \<Rightarrow> string \<Rightarrow> string option \<Rightarrow> desk \<Rightarrow> contract result \<times> desk" where
  "request_contract env now who code notes db =
     (if assertOwner who \<noteq> Inr () then (Inl forbidden, db)
      else if list_ex (\<lambda>c. mct_teamId c = a_teamId who \<and> mct_status c = CDraft) (dk_contracts db)
      then (Inl (conflict ''request_pending''), db)
      else (case createDraft env now who (a_teamId who) code (Some CalSA) notes no_extra db of
              (Inl e, db1) \<Rightarrow> (Inl e, db1)
            | (Inr c, db1) \<Rightarrow> (Inr c, mail_team [] ''managed cloud request'' db1)))"

definition createForTeam ::
  "draft_env \<Rightarrow> instant \<Rightarrow> actor \<Rightarrow> id \<Rightarrow> string \<Rightarrow> calendar_country option \<Rightarrow> string option \<Rightarrow> contract_extra \<Rightarrow> desk
     \<Rightarrow> contract result \<times> desk" where
  "createForTeam env now who teamId code cal notes ext db =
     (if find_by tm_id teamId (dk_teams db) = None then (Inl notFound, db)
      else createDraft env now who teamId code cal notes ext db)"

section \<open>The lifecycle\<close>

definition onCallPeople :: "instant \<Rightarrow> int \<Rightarrow> desk \<Rightarrow> nat" where
  "onCallPeople now days db =
     length (remdups (map ocs_userId
       (filter (\<lambda>s. ocs_startsAt s < now + days * msPerDay \<and> now < ocs_endsAt s) (dk_shifts db))))"

record activate_dto =
  acd_liabilityCapMinor :: int
  acd_signedByName :: string
  acd_signedAt :: "instant option"
  acd_overrideOnCallRule :: bool

text \<open>The people on call, counted for a 24/7 plan only.\<close>

definition on_call_count :: "instant \<Rightarrow> contract \<Rightarrow> desk \<Rightarrow> nat option" where
  "on_call_count now c db = (if mpl_coverage (mct_plan c) = TwentyFourSeven then Some (onCallPeople now 14 db) else None)"

definition understaffed :: "nat option \<Rightarrow> bool" where
  "understaffed people \<longleftrightarrow> (case people of None \<Rightarrow> False | Some n \<Rightarrow> n < 2)"

definition sign_contract :: "instant \<Rightarrow> actor \<Rightarrow> activate_dto \<Rightarrow> bool \<Rightarrow> contract \<Rightarrow> contract" where
  "sign_contract now who dto overridden r =
     r\<lparr>mct_status := COnboarding, mct_liabilityCapMinor := Some (acd_liabilityCapMinor dto),
       mct_signedByName := Some (trim (acd_signedByName dto)),
       mct_signedAt := Some (case acd_signedAt dto of None \<Rightarrow> now | Some t \<Rightarrow> t),
       mct_signedById := Some (a_userId who), mct_onboardingStartedAt := Some now, mct_onCallOverride := overridden\<rparr>"

definition activate_contract ::
  "(nat \<Rightarrow> id) \<Rightarrow> instant \<Rightarrow> actor \<Rightarrow> id \<Rightarrow> activate_dto \<Rightarrow> desk \<Rightarrow> contract result \<times> desk" where
  "activate_contract newId now who i dto db =
     (case load_contract i db of
        Inl e \<Rightarrow> (Inl e, db)
      | Inr c \<Rightarrow>
          if mct_status c \<noteq> CDraft then (Inl invalidState, db)
          else
            let (t, fx) = terms_of c now now (dk_fx db);
                db1 = db\<lparr>dk_fx := fx\<rparr>;
                people = on_call_count now c db;
                overridden = (acd_overrideOnCallRule dto \<and> understaffed people)
            in if trm_monthlyFeeMinor t = None then (Inl invalid, db1)
               else if understaffed people \<and> \<not> acd_overrideOnCallRule dto then (Inl (ApiError 409 ''on_call_rule''), db1)
               else
                 let (moved, db2) = move_contract (\<lambda>r. mct_id r = i \<and> mct_status r = CDraft) (sign_contract now who dto overridden) db1
                 in if \<not> moved then (Inl invalidState, db2)
                    else
                      let db3 = ensureDefaults newId i (ensureChecklist i db2);
                          db4 = record_event ''managed.contract_onboarding'' i (mct_teamId c) (Some who) now db3;
                          db5 = (if overridden
                                 then record_event ''managed.on_call_rule_overridden'' i (mct_teamId c) (Some who) now db4
                                 else db4);
                          db6 = mail_team (mct_teamId c) ''onboarding'' db5
                      in (load_contract i db6, db6))"

text \<open>\<open>suspend\<close> and \<open>resume\<close> read the row and write it by id; the write does not test the status.\<close>

definition suspend_write :: "instant \<Rightarrow> actor option \<Rightarrow> contract \<Rightarrow> desk \<Rightarrow> desk" where
  "suspend_write now who c db =
     mail_team (mct_teamId c) ''suspended''
       (record_event ''managed.contract_suspended'' (mct_id c) (mct_teamId c) who now
         (update_contract (mct_id c) (\<lambda>r. r\<lparr>mct_status := CSuspended, mct_suspendedAt := Some now\<rparr>) db))"

definition suspend_contract :: "instant \<Rightarrow> actor option \<Rightarrow> id \<Rightarrow> desk \<Rightarrow> contract result \<times> desk" where
  "suspend_contract now who i db =
     (case load_contract i db of
        Inl e \<Rightarrow> (Inl e, db)
      | Inr c \<Rightarrow>
          if mct_status c \<noteq> CActive \<and> mct_status c \<noteq> COnboarding then (Inl invalidState, db)
          else let db1 = suspend_write now who c db in (load_contract i db1, db1))"

definition resumed_status :: "contract \<Rightarrow> contract_status" where
  "resumed_status c = (if mct_activatedAt c \<noteq> None then CActive else COnboarding)"

definition resume_write :: "instant \<Rightarrow> actor option \<Rightarrow> contract \<Rightarrow> desk \<Rightarrow> desk" where
  "resume_write now who c db =
     (let suspensions = mct_suspensions c @ [(case mct_suspendedAt c of None \<Rightarrow> now | Some s \<Rightarrow> s, now)]
      in record_event ''managed.contract_resumed'' (mct_id c) (mct_teamId c) who now
           (update_contract (mct_id c)
             (\<lambda>r. r\<lparr>mct_status := resumed_status c, mct_suspendedAt := None, mct_suspensions := suspensions\<rparr>) db))"

definition resume_contract :: "instant \<Rightarrow> actor option \<Rightarrow> id \<Rightarrow> desk \<Rightarrow> contract result \<times> desk" where
  "resume_contract now who i db =
     (case load_contract i db of
        Inl e \<Rightarrow> (Inl e, db)
      | Inr c \<Rightarrow>
          if mct_status c \<noteq> CSuspended then (Inl invalidState, db)
          else let db1 = resume_write now who c db in (load_contract i db1, db1))"

section \<open>The end of a contract\<close>

definition revoke_access :: "instant \<Rightarrow> id \<Rightarrow> id \<Rightarrow> desk \<Rightarrow> desk" where
  "revoke_access now i teamId db =
     record_event ''managed.access_revoked'' i teamId None now
       (db\<lparr>dk_tasks := update_where (\<lambda>t. mtk_contractId t = i) (\<lambda>t. t\<lparr>mtk_enabled := False, mtk_nextRunAt := None\<rparr>) (dk_tasks db),
           dk_assets := update_where (\<lambda>a. mas_contractId a = i)
             (\<lambda>a. a\<lparr>mas_monitoringEnabled := False, mas_heartbeatTokenHash := None\<rparr>) (dk_assets db),
           dk_alerts := update_where (\<lambda>a. mal_contractId a = i \<and> mal_status a \<noteq> AlResolved)
             (\<lambda>a. a\<lparr>mal_status := AlResolved, mal_resolvedAt := Some now, mal_endsAt := Some now, mal_openKey := None\<rparr>) (dk_alerts db)\<rparr>)"

definition endContract :: "instant \<Rightarrow> actor option \<Rightarrow> contract \<Rightarrow> instant \<Rightarrow> string option \<Rightarrow> desk \<Rightarrow> bool \<times> desk" where
  "endContract now who c tm reason db =
     (let (moved, db1) = move_contract (\<lambda>r. mct_id r = mct_id c \<and> mct_status r \<noteq> CCancelled)
            (\<lambda>r. r\<lparr>mct_status := CCancelled, mct_cancelledAt := Some tm, mct_cancelReason := reason\<rparr>) db
      in if \<not> moved then (False, db1)
         else (True,
           mail_team (mct_teamId c) ''handover''
             (record_event ''managed.contract_cancelled'' (mct_id c) (mct_teamId c) who now
               (revoke_access now (mct_id c) (mct_teamId c) db1))))"

definition cancel_contract :: "instant \<Rightarrow> actor \<Rightarrow> id \<Rightarrow> string option \<Rightarrow> desk \<Rightarrow> contract result \<times> desk" where
  "cancel_contract now who i reason db =
     (case load_contract i db of
        Inl e \<Rightarrow> (Inl e, db)
      | Inr c \<Rightarrow>
          if mct_status c = CCancelled then (Inl invalidState, db)
          else let (ended, db1) = endContract now (Some who) c now reason db
               in if ended then (load_contract i db1, db1) else (Inl invalidState, db1))"

definition NOT_RENEWED_REASON :: string where "NOT_RENEWED_REASON = ''Not renewed''"
definition CUSTOMER_CANCEL_REASON :: string where "CUSTOMER_CANCEL_REASON = ''Cancelled by the customer''"

definition cancel_reason :: "string option \<Rightarrow> string" where
  "cancel_reason reason =
     (case reason of None \<Rightarrow> CUSTOMER_CANCEL_REASON | Some t \<Rightarrow> if trim t = [] then CUSTOMER_CANCEL_REASON else trim t)"

definition cancelForTeam :: "instant \<Rightarrow> actor \<Rightarrow> id \<Rightarrow> string option \<Rightarrow> desk \<Rightarrow> contract result \<times> desk" where
  "cancelForTeam now who i reason db =
     (case own_contract who i db of
        Inl e \<Rightarrow> (Inl e, db)
      | Inr c \<Rightarrow>
          if mct_status c = CCancelled then (Inl invalidState, db)
          else if mct_status c = CDraft \<or> mct_status c = COnboarding
          then (let db1 = snd (endContract now (Some who) c now (Some (cancel_reason reason)) db) in (load_contract i db1, db1))
          else if mct_cancelAt c \<noteq> None then (Inr c, db)
          else
            let (moved, db1) = move_contract
                  (\<lambda>r. mct_id r = i \<and> mct_status r \<in> {CActive, CSuspended} \<and> mct_cancelAt r = None)
                  (\<lambda>r. r\<lparr>mct_cancelAt := Some (endOfCurrentMonth now), mct_cancelReason := Some (cancel_reason reason)\<rparr>) db;
                db2 = (if moved
                       then mail_team (mct_teamId c) ''cancel scheduled''
                              (record_event ''managed.contract_cancel_scheduled'' i (mct_teamId c) (Some who) now db1)
                       else db1)
            in (load_contract i db2, db2))"

definition undoCancelForTeam :: "instant \<Rightarrow> actor \<Rightarrow> id \<Rightarrow> desk \<Rightarrow> contract result \<times> desk" where
  "undoCancelForTeam now who i db =
     (case own_contract who i db of
        Inl e \<Rightarrow> (Inl e, db)
      | Inr c \<Rightarrow>
          if mct_status c = CCancelled \<or> mct_cancelAt c = None then (Inl invalidState, db)
          else
            let (moved, db1) = move_contract
                  (\<lambda>r. mct_id r = i \<and> mct_status r \<in> {CActive, CSuspended} \<and> mct_cancelAt r \<noteq> None \<and> \<not> by_now now (mct_cancelAt r))
                  (\<lambda>r. r\<lparr>mct_cancelAt := None, mct_cancelReason := None\<rparr>) db
            in if \<not> moved then (Inl invalidState, db1)
               else let db2 = record_event ''managed.contract_cancel_undone'' i (mct_teamId c) (Some who) now db1
                    in (load_contract i db2, db2))"

definition setAutoRenew :: "instant \<Rightarrow> actor \<Rightarrow> id \<Rightarrow> bool \<Rightarrow> desk \<Rightarrow> contract result \<times> desk" where
  "setAutoRenew now who i auto db =
     (case own_contract who i db of
        Inl e \<Rightarrow> (Inl e, db)
      | Inr c \<Rightarrow>
          if mct_status c = CCancelled then (Inl invalidState, db)
          else
            let db1 = (if mct_autoRenew c = auto then db
                       else record_event (if auto then ''managed.contract_auto_renew_on'' else ''managed.contract_auto_renew_off'')
                              i (mct_teamId c) (Some who) now (update_contract i (\<lambda>r. r\<lparr>mct_autoRenew := auto\<rparr>) db))
            in (load_contract i db1, db1))"

text \<open>\<open>None\<close> is a field the request leaves out; the overrides may be set to null.\<close>

record contract_patch =
  cpt_calendar :: "calendar_country option"
  cpt_notes :: "string option"
  cpt_priceOverrideMinor :: "int option option"
  cpt_includedMinutesOverride :: "int option option"
  cpt_maxAssetsOverride :: "int option option"
  cpt_liabilityCapMinor :: "int option"
  cpt_termMonths :: "int option"
  cpt_autoRenew :: "bool option"

definition patch_contract :: "contract_patch \<Rightarrow> contract \<Rightarrow> contract" where
  "patch_contract p r =
     r\<lparr>mct_calendar := (case cpt_calendar p of None \<Rightarrow> mct_calendar r | Some x \<Rightarrow> x),
       mct_notes := (case cpt_notes p of None \<Rightarrow> mct_notes r | Some x \<Rightarrow> Some x),
       mct_priceOverrideMinor := (case cpt_priceOverrideMinor p of None \<Rightarrow> mct_priceOverrideMinor r | Some x \<Rightarrow> x),
       mct_includedMinutesOverride := (case cpt_includedMinutesOverride p of None \<Rightarrow> mct_includedMinutesOverride r | Some x \<Rightarrow> x),
       mct_maxAssetsOverride := (case cpt_maxAssetsOverride p of None \<Rightarrow> mct_maxAssetsOverride r | Some x \<Rightarrow> x),
       mct_liabilityCapMinor := (case cpt_liabilityCapMinor p of None \<Rightarrow> mct_liabilityCapMinor r | Some x \<Rightarrow> Some x),
       mct_termMonths := (case cpt_termMonths p of None \<Rightarrow> mct_termMonths r | Some x \<Rightarrow> x),
       mct_autoRenew := (case cpt_autoRenew p of None \<Rightarrow> mct_autoRenew r | Some x \<Rightarrow> x)\<rparr>"

definition edit_contract :: "instant \<Rightarrow> actor \<Rightarrow> id \<Rightarrow> contract_patch \<Rightarrow> desk \<Rightarrow> contract result \<times> desk" where
  "edit_contract now who i p db =
     (case load_contract i db of
        Inl e \<Rightarrow> (Inl e, db)
      | Inr c \<Rightarrow>
          if mct_status c = CCancelled then (Inl invalidState, db)
          else let db1 = record_event ''managed.contract_updated'' i (mct_teamId c) (Some who) now
                           (update_contract i (patch_contract p) db)
               in (load_contract i db1, db1))"

section \<open>Renewals\<close>

definition extendTerm :: "instant \<Rightarrow> actor option \<Rightarrow> contract \<Rightarrow> instant \<Rightarrow> int \<Rightarrow> desk \<Rightarrow> bool \<times> desk" where
  "extendTerm now who c termEndsAt termMonths db =
     (let (moved, db1) = move_contract
            (\<lambda>r. mct_id r = mct_id c \<and> mct_status r \<in> {CActive, CSuspended} \<and> mct_termEndsAt r = mct_termEndsAt c)
            (\<lambda>r. r\<lparr>mct_termEndsAt := Some termEndsAt, mct_renewedAt := Some now, mct_termMonths := termMonths,
                   mct_renewalNoticeAt := None\<rparr>) db
      in if \<not> moved then (False, db1)
         else (True, record_event ''managed.contract_renewed'' (mct_id c) (mct_teamId c) who now db1))"

definition renew_contract :: "instant \<Rightarrow> actor \<Rightarrow> id \<Rightarrow> int option \<Rightarrow> desk \<Rightarrow> contract result \<times> desk" where
  "renew_contract now who i termMonths db =
     (case load_contract i db of
        Inl e \<Rightarrow> (Inl e, db)
      | Inr c \<Rightarrow>
          if mct_status c \<noteq> CActive \<and> mct_status c \<noteq> CSuspended then (Inl invalidState, db)
          else
            let months = (case termMonths of None \<Rightarrow> mct_termMonths c | Some n \<Rightarrow> n);
                since = (case mct_termEndsAt c of None \<Rightarrow> now | Some e \<Rightarrow> if now < e then e else now);
                (extended, db1) = extendTerm now (Some who) c (setUTCMonth since (getUTCMonth since + months)) months db
            in if extended then (load_contract i db1, db1) else (Inl invalidState, db1))"

definition sendRenewalNotice :: "instant \<Rightarrow> contract \<Rightarrow> desk \<Rightarrow> bool \<times> desk" where
  "sendRenewalNotice now c db =
     (let (marked, db1) = move_contract
            (\<lambda>r. mct_id r = mct_id c \<and> mct_renewalNoticeAt r = None \<and> mct_termEndsAt r = mct_termEndsAt c)
            (\<lambda>r. r\<lparr>mct_renewalNoticeAt := Some now\<rparr>) db
      in if \<not> marked \<or> mct_termEndsAt c = None then (False, db1)
         else let (_, fx) = terms_of c now now (dk_fx db1)
              in (True, record_event ''managed.contract_renewal_notice'' (mct_id c) (mct_teamId c) None now
                          (mail_team (mct_teamId c) (if mct_autoRenew c then ''renews'' else ''ends'') (db1\<lparr>dk_fx := fx\<rparr>))))"

definition term_of :: "contract \<Rightarrow> term_state" where
  "term_of c = \<lparr>ts_status = mct_status c, ts_autoRenew = mct_autoRenew c, ts_termMonths = mct_termMonths c,
                ts_termEndsAt = mct_termEndsAt c, ts_cancelAt = mct_cancelAt c, ts_renewalNoticeAt = mct_renewalNoticeAt c\<rparr>"

definition renewal_due :: "instant \<Rightarrow> contract \<Rightarrow> bool" where
  "renewal_due now c \<longleftrightarrow>
     mct_status c \<in> {CActive, CSuspended} \<and>
     (by_now (now + 31 * msPerDay) (mct_termEndsAt c) \<or> by_now now (mct_cancelAt c))"

text \<open>One contract of the daily job; \<open>None\<close> would mean that the term computation does not end.\<close>

definition decide_contract :: "instant \<Rightarrow> contract \<Rightarrow> term_decision \<Rightarrow> desk \<Rightarrow> bool \<times> desk" where
  "decide_contract now c d db =
     (case d of
        DNone \<Rightarrow> (False, db)
      | DRenew e \<Rightarrow> extendTerm now None c e (mct_termMonths c) db
      | DCancel k why \<Rightarrow>
          endContract now None c k
            (if why = NotRenewed then Some NOT_RENEWED_REASON
             else Some (case mct_cancelReason c of None \<Rightarrow> CUSTOMER_CANCEL_REASON | Some t \<Rightarrow> t)) db
      | DNotice \<Rightarrow> sendRenewalNotice now c db)"

record renewal_counts =
  rnc_renewed :: nat
  rnc_cancelled :: nat
  rnc_notices :: nat

definition count_decision :: "term_decision \<Rightarrow> renewal_counts \<Rightarrow> renewal_counts" where
  "count_decision d out =
     (case d of
        DNone \<Rightarrow> out
      | DRenew _ \<Rightarrow> out\<lparr>rnc_renewed := Suc (rnc_renewed out)\<rparr>
      | DCancel _ _ \<Rightarrow> out\<lparr>rnc_cancelled := Suc (rnc_cancelled out)\<rparr>
      | DNotice \<Rightarrow> out\<lparr>rnc_notices := Suc (rnc_notices out)\<rparr>)"

fun renew_all :: "instant \<Rightarrow> contract list \<Rightarrow> renewal_counts \<Rightarrow> desk \<Rightarrow> (renewal_counts \<times> desk) option" where
  "renew_all now [] out db = Some (out, db)"
| "renew_all now (c # cs) out db =
     (case termDecision (term_of c) now of
        None \<Rightarrow> None
      | Some d \<Rightarrow>
          let (ok, db1) = decide_contract now c d db
          in renew_all now cs (if ok then count_decision d out else out) db1)"

definition runRenewals :: "instant \<Rightarrow> desk \<Rightarrow> (renewal_counts \<times> desk) option" where
  "runRenewals now db =
     renew_all now (filter (renewal_due now) (dk_contracts db)) \<lparr>rnc_renewed = 0, rnc_cancelled = 0, rnc_notices = 0\<rparr> db"

section \<open>Following the team account\<close>

definition team_has :: "account_status \<Rightarrow> desk \<Rightarrow> contract \<Rightarrow> bool" where
  "team_has s db c \<longleftrightarrow> list_ex (\<lambda>t. tm_id t = mct_teamId c \<and> tm_status t = s) (dk_teams db)"

text \<open>The newest suspension of a contract in the audit log; the log is in the order of writing.\<close>

definition last_suspension :: "id \<Rightarrow> desk \<Rightarrow> audit_row option" where
  "last_suspension i db =
     List.find (\<lambda>a. aud_contractId a = i \<and> aud_action a = ''managed.contract_suspended'') (rev (dk_audit db))"

definition job_suspended :: "id \<Rightarrow> desk \<Rightarrow> bool" where
  "job_suspended i db \<longleftrightarrow> (case last_suspension i db of None \<Rightarrow> False | Some a \<Rightarrow> aud_userId a = None)"

definition syncWithTeamStatus :: "instant \<Rightarrow> desk \<Rightarrow> desk" where
  "syncWithTeamStatus now db =
     (let toSuspend = filter (\<lambda>c. mct_status c \<in> {CActive, COnboarding} \<and> team_has AccSuspended db c) (dk_contracts db);
          db1 = fold (\<lambda>c d. snd (suspend_contract now None (mct_id c) d)) toSuspend db;
          toResume = filter (\<lambda>c. mct_status c = CSuspended \<and> team_has AccActive db1 c) (dk_contracts db1)
      in fold (\<lambda>c d. if job_suspended (mct_id c) d then snd (resume_contract now None (mct_id c) d) else d) toResume db1)"

section \<open>Operations as one step function\<close>

text \<open>
  Every operation that changes the desk.  \<open>OTeamStatus\<close> is a change of a team account, which other
  services make; \<open>OWorkflow\<close> is the onboarding workflow waking up.
\<close>

datatype desk_op =
    ORequest draft_env actor string "string option"
  | OCreate draft_env actor id string "calendar_country option" "string option" contract_extra
  | OSetAutoRenew actor id bool
  | OCancelForTeam actor id "string option"
  | OUndoCancel actor id
  | OEdit actor id contract_patch
  | OActivate "nat \<Rightarrow> id" actor id activate_dto
  | OSuspend "actor option" id
  | OResume "actor option" id
  | OCancel actor id "string option"
  | ORenew actor id "int option"
  | ORenewals
  | OSync
  | OAddItem actor id string string
  | OSetItem bool actor id string bool "string option"
  | OWorkflow id
  | OAddArea actor id id string responsibility_owner "string option" "int option"
  | OEditArea actor id id responsibility_patch
  | ORemoveArea actor id id
  | OTeamStatus id account_status

fun desk_step :: "instant \<Rightarrow> desk_op \<Rightarrow> desk \<Rightarrow> desk" where
  "desk_step now (ORequest env who code notes) db = snd (request_contract env now who code notes db)"
| "desk_step now (OCreate env who teamId code cal notes ext) db = snd (createForTeam env now who teamId code cal notes ext db)"
| "desk_step now (OSetAutoRenew who i auto) db = snd (setAutoRenew now who i auto db)"
| "desk_step now (OCancelForTeam who i reason) db = snd (cancelForTeam now who i reason db)"
| "desk_step now (OUndoCancel who i) db = snd (undoCancelForTeam now who i db)"
| "desk_step now (OEdit who i p) db = snd (edit_contract now who i p db)"
| "desk_step now (OActivate newId who i dto) db = snd (activate_contract newId now who i dto db)"
| "desk_step now (OSuspend who i) db = snd (suspend_contract now who i db)"
| "desk_step now (OResume who i) db = snd (resume_contract now who i db)"
| "desk_step now (OCancel who i reason) db = snd (cancel_contract now who i reason db)"
| "desk_step now (ORenew who i months) db = snd (renew_contract now who i months db)"
| "desk_step now ORenewals db = (case runRenewals now db of None \<Rightarrow> db | Some (_, db') \<Rightarrow> db')"
| "desk_step now OSync db = syncWithTeamStatus now db"
| "desk_step now (OAddItem who i key title) db = snd (addItem now who i key title db)"
| "desk_step now (OSetItem signalled who i key isDone comment) db = snd (setItem signalled now who i key isDone comment db)"
| "desk_step now (OWorkflow i) db = snd (activateIfComplete now i db)"
| "desk_step now (OAddArea who newId i area own notes order) db = snd (createResponsibility now who newId i area own notes order db)"
| "desk_step now (OEditArea who i rid p) db = snd (updateResponsibility now who i rid p db)"
| "desk_step now (ORemoveArea who i rid) db = snd (removeResponsibility now who i rid db)"
| "desk_step now (OTeamStatus teamId s) db =
     db\<lparr>dk_teams := update_where (\<lambda>t. tm_id t = teamId) (\<lambda>t. t\<lparr>tm_status := s\<rparr>) (dk_teams db)\<rparr>"

end
