(* ===== verification/Contract_Life.thy ===== *)
theory Contract_Life
  imports Contracts
begin

text \<open>
  What the contract service of the theory \<open>Contracts\<close> guarantees: it follows the lifecycle the source
  documents (a refinement of a machine without tables), so the row of a contract tells at which
  instants it was active; no contract is activated before its checklist is complete; the daily job
  leaves nothing overdue; a contract that ended has its access revoked.
\<close>

section \<open>The lifecycle as a specification\<close>

text \<open>
  What the comment of the service promises of one contract, without tables: the five states and
  the times at which they change.  \<open>None\<close> is a contract that does not exist yet.
\<close>

record life =
  lf_status :: contract_status
  lf_activatedAt :: "instant option"
  lf_suspendedAt :: "instant option"
  lf_suspensions :: "(instant \<times> instant) list"
  lf_cancelledAt :: "instant option"

definition new_life :: life where
  "new_life = \<lparr>lf_status = CDraft, lf_activatedAt = None, lf_suspendedAt = None, lf_suspensions = [], lf_cancelledAt = None\<rparr>"

inductive lstep :: "instant \<Rightarrow> life option \<Rightarrow> life option \<Rightarrow> bool" for now where
  requested: "lstep now None (Some new_life)"
| signed: "lf_status l = CDraft \<Longrightarrow> lstep now (Some l) (Some (l\<lparr>lf_status := COnboarding\<rparr>))"
| activated: "lf_status l = COnboarding \<Longrightarrow>
    lstep now (Some l) (Some (l\<lparr>lf_status := CActive, lf_activatedAt := Some now\<rparr>))"
| suspended: "lf_status l \<in> {CActive, COnboarding} \<Longrightarrow>
    lstep now (Some l) (Some (l\<lparr>lf_status := CSuspended, lf_suspendedAt := Some now\<rparr>))"
| resumed: "lf_status l = CSuspended \<Longrightarrow>
    lstep now (Some l) (Some (l\<lparr>lf_status := (if lf_activatedAt l \<noteq> None then CActive else COnboarding), lf_suspendedAt := None,
      lf_suspensions := lf_suspensions l @ [(case lf_suspendedAt l of None \<Rightarrow> now | Some s \<Rightarrow> s, now)]\<rparr>))"
| cancelled: "lf_status l \<noteq> CCancelled \<Longrightarrow> k \<le> now \<Longrightarrow>
    lstep now (Some l) (Some (l\<lparr>lf_status := CCancelled, lf_cancelledAt := Some k\<rparr>))"

inductive_cases lstepE: "lstep now v v'"

abbreviation lsteps :: "instant \<Rightarrow> life option \<Rightarrow> life option \<Rightarrow> bool" where
  "lsteps now \<equiv> (lstep now)\<^sup>*\<^sup>*"

text \<open>The instants for which the fee of a contract is due, read from the row alone.\<close>

definition fee_due :: "life \<Rightarrow> instant \<Rightarrow> bool" where
  "fee_due l t \<longleftrightarrow>
     by_now t (lf_activatedAt l) \<and> \<not> by_now t (lf_cancelledAt l) \<and> \<not> by_now t (lf_suspendedAt l)
     \<and> (\<forall>(f, u)\<in>set (lf_suspensions l). \<not> (f \<le> t \<and> t < u))"

definition life_ok :: "instant \<Rightarrow> life \<Rightarrow> bool" where
  "life_ok now l \<longleftrightarrow>
     (\<forall>(f, u)\<in>set (lf_suspensions l). f \<le> u \<and> u \<le> now)
     \<and> (case lf_status l of
          CDraft \<Rightarrow> lf_activatedAt l = None \<and> lf_suspendedAt l = None \<and> lf_cancelledAt l = None
        | COnboarding \<Rightarrow> lf_activatedAt l = None \<and> lf_suspendedAt l = None \<and> lf_cancelledAt l = None
        | CActive \<Rightarrow> by_now now (lf_activatedAt l) \<and> lf_suspendedAt l = None \<and> lf_cancelledAt l = None
        | CSuspended \<Rightarrow> by_now now (lf_suspendedAt l) \<and> lf_cancelledAt l = None \<and> (lf_activatedAt l = None \<or> by_now now (lf_activatedAt l))
        | CCancelled \<Rightarrow> by_now now (lf_cancelledAt l))"

lemma by_now_simps [simp]: "\<not> by_now t None" "by_now t (Some s) \<longleftrightarrow> s \<le> t"
  by (simp_all add: by_now_def)

lemma by_now_mono: "by_now s x \<Longrightarrow> s \<le> t \<Longrightarrow> by_now t x"
  by (cases x) auto

lemma life_ok_later: "life_ok m l \<Longrightarrow> m \<le> n \<Longrightarrow> life_ok n l"
  by (auto simp: life_ok_def split: contract_status.splits dest: by_now_mono [of m _ n])

lemma life_ok_step: "lstep now v v' \<Longrightarrow> pred_option (life_ok now) v \<Longrightarrow> pred_option (life_ok now) v'"
  by (induction rule: lstep.induct) (auto simp: life_ok_def new_life_def split: contract_status.splits option.splits if_splits)

lemma life_ok_steps: "lsteps now v v' \<Longrightarrow> pred_option (life_ok now) v \<Longrightarrow> pred_option (life_ok now) v'"
  by (induction rule: rtranclp_induct) (auto dest: life_ok_step)

text \<open>From the last change on, the fee is due exactly while the contract is active.\<close>

lemma fee_due_later: "life_ok n l \<Longrightarrow> n \<le> t \<Longrightarrow> fee_due l t \<longleftrightarrow> lf_status l = CActive"
  by (cases "lf_status l") (fastforce simp: life_ok_def fee_due_def dest: by_now_mono)+

definition owed :: "life option \<Rightarrow> instant \<Rightarrow> bool" where
  "owed v t \<longleftrightarrow> (case v of None \<Rightarrow> False | Some l \<Rightarrow> fee_due l t)"

definition ended_by :: "instant \<Rightarrow> life option \<Rightarrow> bool" where
  "ended_by t v \<longleftrightarrow> (case v of None \<Rightarrow> False | Some l \<Rightarrow> by_now t (lf_cancelledAt l))"

text \<open>A step changes nothing of the past, except that a contract can end at an earlier instant.\<close>

lemma owed_step:
  assumes "lstep now v v'" "pred_option (life_ok now) v" "t < now"
  shows "owed v' t \<longleftrightarrow> owed v t \<and> \<not> ended_by t v'" and "ended_by t v \<Longrightarrow> ended_by t v'"
  using assms
  by (induction rule: lstep.induct)
    (auto simp: owed_def ended_by_def fee_due_def life_ok_def new_life_def split: contract_status.splits option.splits if_splits)

lemma owed_steps:
  assumes "lsteps now v v'" "pred_option (life_ok now) v" "t < now"
  shows "(owed v' t \<longleftrightarrow> owed v t \<and> \<not> ended_by t v') \<and> (ended_by t v \<longrightarrow> ended_by t v')"
  using assms(1)
proof (induction rule: rtranclp_induct)
  case base
  show ?case by (cases v) (auto simp: owed_def ended_by_def fee_due_def)
next
  case (step y z)
  have "pred_option (life_ok now) y" using step.hyps(1) assms(2) by (rule life_ok_steps)
  from owed_step [OF step.hyps(2) this assms(3)] step.IH show ?case by blast
qed

section \<open>A service that follows the lifecycle\<close>

text \<open>
  \<open>view\<close> is one contract of a state; every operation moves it by steps of the specification.  The
  past of the contract can then be read from its row.
\<close>

locale lifecycle =
  fixes step :: "instant \<Rightarrow> 'op \<Rightarrow> 's \<Rightarrow> 's" and view :: "'s \<Rightarrow> life option"
  assumes follows: "lsteps now (view s) (view (step now oper s))"
begin

lemma view_ok:
  assumes "view s0 = None" "sorted (map fst tr)" "\<forall>x\<in>set tr. fst x \<le> n"
  shows "pred_option (life_ok n) (view (fold (\<lambda>(m, oper). step m oper) tr s0))"
  using assms(2,3)
proof (induction tr arbitrary: n rule: rev_induct)
  case (snoc x tr)
  obtain m oper where x: "x = (m, oper)" by (cases x)
  let ?s = "fold (\<lambda>(m, oper). step m oper) tr s0"
  have "pred_option (life_ok m) (view ?s)" using snoc.IH [of m] snoc.prems x by (auto simp: sorted_append)
  from life_ok_steps [OF follows this, of oper] have "pred_option (life_ok m) (view (step m oper ?s))" .
  moreover have "m \<le> n" using snoc.prems(2) x by simp
  ultimately show ?case using x by (auto intro: life_ok_later elim!: option.pred_mono_strong)
qed (simp add: assms(1))

text \<open>The state at time \<open>t\<close> of a run with the operations \<open>tr\<close>, each with its time.\<close>

definition state_at :: "(instant \<times> 'op) list \<Rightarrow> 's \<Rightarrow> instant \<Rightarrow> 's" where
  "state_at tr s0 t = fold (\<lambda>(m, oper). step m oper) (takeWhile (\<lambda>(m, _). m \<le> t) tr) s0"

lemma owed_iff_active:
  assumes "view s0 = None" "sorted (map fst tr)"
  shows "owed (view (fold (\<lambda>(m, oper). step m oper) tr s0)) t \<longleftrightarrow>
    map_option lf_status (view (state_at tr s0 t)) = Some CActive
    \<and> \<not> ended_by t (view (fold (\<lambda>(m, oper). step m oper) tr s0))"
  using assms(2)
proof (induction tr rule: rev_induct)
  case Nil
  then show ?case by (simp add: owed_def state_at_def assms(1))
next
  case (snoc x tr)
  obtain m oper where x: "x = (m, oper)" by (cases x)
  let ?s = "fold (\<lambda>(m, oper). step m oper) tr s0"
  have srt: "sorted (map fst tr)" and le: "\<forall>x\<in>set tr. fst x \<le> m" using snoc.prems x by (auto simp: sorted_append)
  have ok: "pred_option (life_ok m) (view ?s)" by (rule view_ok [OF assms(1) srt le])
  have ok': "pred_option (life_ok m) (view (step m oper ?s))" by (rule life_ok_steps [OF follows ok])
  show ?case
  proof (cases "t < m")
    case True
    have "takeWhile (\<lambda>(m, _). m \<le> t) (tr @ [x]) = takeWhile (\<lambda>(m, _). m \<le> t) tr"
      using True x by (induction tr) auto
    then have st: "state_at (tr @ [x]) s0 t = state_at tr s0 t" by (simp only: state_at_def)
    show ?thesis using owed_steps [OF follows ok True, of oper] snoc.IH [OF srt] x st by auto
  next
    case False
    have "takeWhile (\<lambda>(m, _). m \<le> t) (tr @ [x]) = tr @ [x]"
      using False x le by (subst takeWhile_eq_all_conv) auto
    then have st: "state_at (tr @ [x]) s0 t = step m oper ?s" using x by (simp add: state_at_def)
    show ?thesis
    proof (cases "view (step m oper ?s)")
      case None
      then show ?thesis using st x by (simp add: owed_def)
    next
      case (Some l)
      then have "life_ok m l" using ok' by simp
      from fee_due_later [OF this, of t] have due: "fee_due l t \<longleftrightarrow> lf_status l = CActive" using False by linarith
      moreover have "fee_due l t \<Longrightarrow> \<not> by_now t (lf_cancelledAt l)" by (simp add: fee_due_def)
      ultimately show ?thesis using Some st x by (auto simp: owed_def ended_by_def)
    qed
  qed
qed

end

section \<open>The service follows it\<close>

definition life_of :: "contract \<Rightarrow> life" where
  "life_of c = \<lparr>lf_status = mct_status c, lf_activatedAt = mct_activatedAt c, lf_suspendedAt = mct_suspendedAt c,
                lf_suspensions = mct_suspensions c, lf_cancelledAt = mct_cancelledAt c\<rparr>"

definition contract_view :: "id \<Rightarrow> desk \<Rightarrow> life option" where
  "contract_view i db = map_option life_of (find_by mct_id i (dk_contracts db))"

definition conforms :: "instant \<Rightarrow> desk \<Rightarrow> desk \<Rightarrow> bool" where
  "conforms now db db' \<longleftrightarrow> (\<forall>i. lsteps now (contract_view i db) (contract_view i db'))"

lemma conforms_refl [simp]: "conforms now db db"
  by (simp add: conforms_def)

lemma conforms_trans [trans]: "conforms now a b \<Longrightarrow> conforms now b c \<Longrightarrow> conforms now a c"
  unfolding conforms_def by (meson rtranclp_trans)

lemma conforms_same: "dk_contracts db' = dk_contracts db \<Longrightarrow> conforms now db db'"
  by (simp add: conforms_def contract_view_def)

lemma conforms_cong:
  "dk_contracts a = dk_contracts a' \<Longrightarrow> dk_contracts b = dk_contracts b' \<Longrightarrow> conforms now a b = conforms now a' b'"
  by (simp add: conforms_def contract_view_def)

lemma desk_frames [simp]:
  "dk_contracts (record_event n i t w now db) = dk_contracts db"
  "dk_contracts (mail_team t k db) = dk_contracts db"
  "dk_contracts (ensureDefaults f i db) = dk_contracts db"
  "dk_contracts (ensureChecklist i db) = dk_contracts db"
  "dk_contracts (revoke_access now i t db) = dk_contracts db"
  by (simp_all add: record_event_def mail_team_def ensureDefaults_def ensureChecklist_def revoke_access_def)

lemma load_contract_Inr: "load_contract i db = Inr c \<longleftrightarrow> find_by mct_id i (dk_contracts db) = Some c"
  by (simp add: load_contract_def split: option.splits)

lemma conforms_rows:
  assumes "\<And>r. p r \<Longrightarrow> mct_id (f r) = mct_id r" "\<And>r. p r \<Longrightarrow> lsteps now (Some (life_of r)) (Some (life_of (f r)))"
    and "dk_contracts db' = update_where p f (dk_contracts db)"
  shows "conforms now db db'"
  unfolding conforms_def
proof
  fix i
  show "lsteps now (contract_view i db) (contract_view i db')"
    using assms(2) by (cases "find_by mct_id i (dk_contracts db)")
      (simp_all add: contract_view_def assms(1,3) find_by_update_where)
qed

lemma conforms_move:
  assumes "move_contract p f db = (moved, db')"
    and "\<And>r. p r \<Longrightarrow> mct_id (f r) = mct_id r" "\<And>r. p r \<Longrightarrow> lsteps now (Some (life_of r)) (Some (life_of (f r)))"
  shows "conforms now db db'"
  using assms by (intro conforms_rows [of p f]) (auto simp: move_contract_def)

text \<open>An update by id, of a row that was just read.\<close>

lemma conforms_update:
  assumes "find_by mct_id i (dk_contracts db) = Some c" "\<And>r. mct_id (f r) = mct_id r"
    "lsteps now (Some (life_of c)) (Some (life_of (f c)))" "dk_contracts db' = dk_contracts (update_contract i f db)"
  shows "conforms now db db'"
  unfolding conforms_def
proof
  fix j
  show "lsteps now (contract_view j db) (contract_view j db')"
  proof (cases "find_by mct_id j (dk_contracts db)")
    case None
    then show ?thesis using assms(2,4) by (simp add: contract_view_def update_contract_def find_by_update_where)
  next
    case (Some r)
    moreover have "mct_id r = j" using find_by_Some [OF Some] by simp
    moreover have "r = c" if "i = j" using that Some assms(1) by simp
    ultimately show ?thesis using assms(2,3,4)
      by (cases "i = j") (simp_all add: contract_view_def update_contract_def find_by_update_where)
  qed
qed

lemma conforms_append:
  assumes "life_of c = new_life" "mct_id c \<notin> mct_id ` set (dk_contracts db)" "dk_contracts db' = dk_contracts db @ [c]"
  shows "conforms now db db'"
  unfolding conforms_def
proof
  fix i
  have app: "find_by mct_id i (xs @ [c]) = (case find_by mct_id i xs of None \<Rightarrow> if mct_id c = i then Some c else None | Some r \<Rightarrow> Some r)" for xs
    by (induction xs) auto
  show "lsteps now (contract_view i db) (contract_view i db')"
    using assms(1,3) by (auto simp: contract_view_def app split: option.splits intro!: r_into_rtranclp lstep.requested)
qed

text \<open>Changes that are no step of the lifecycle.\<close>

lemma life_same: "life_of r = life_of s \<Longrightarrow> lsteps now (Some (life_of r)) (Some (life_of s))"
  by simp

lemma life_signed: "mct_status r = CDraft \<Longrightarrow> lsteps now (Some (life_of r)) (Some (life_of (sign_contract m who dto b r)))"
  using lstep.signed [of "life_of r" now] by (intro r_into_rtranclp) (simp add: life_of_def sign_contract_def)

lemma life_activated:
  "mct_status r = COnboarding \<Longrightarrow>
     lsteps now (Some (life_of r)) (Some (life_of (r\<lparr>mct_status := CActive, mct_activatedAt := Some now, mct_termEndsAt := e\<rparr>)))"
  using lstep.activated [of "life_of r" now] by (intro r_into_rtranclp) (simp add: life_of_def)

lemma life_suspended:
  "mct_status r \<in> {CActive, COnboarding} \<Longrightarrow>
     lsteps now (Some (life_of r)) (Some (life_of (r\<lparr>mct_status := CSuspended, mct_suspendedAt := Some now\<rparr>)))"
  using lstep.suspended [of "life_of r" now] by (intro r_into_rtranclp) (simp add: life_of_def)

lemma life_resumed:
  "mct_status r = CSuspended \<Longrightarrow>
     lsteps now (Some (life_of r)) (Some (life_of (r\<lparr>mct_status := resumed_status r, mct_suspendedAt := None,
       mct_suspensions := mct_suspensions r @ [(case mct_suspendedAt r of None \<Rightarrow> now | Some s \<Rightarrow> s, now)]\<rparr>)))"
  using lstep.resumed [of "life_of r" now] by (intro r_into_rtranclp) (simp add: life_of_def resumed_status_def)

lemma life_cancelled:
  "mct_status r \<noteq> CCancelled \<Longrightarrow> k \<le> now \<Longrightarrow>
     lsteps now (Some (life_of r)) (Some (life_of (r\<lparr>mct_status := CCancelled, mct_cancelledAt := Some k, mct_cancelReason := why\<rparr>)))"
  using lstep.cancelled [of "life_of r" k now] by (intro r_into_rtranclp) (simp add: life_of_def)

lemma own_contract_Inr:
  "own_contract who i db = Inr c \<Longrightarrow> c \<in> set (dk_contracts db) \<and> mct_id c = i \<and> mct_teamId c = a_teamId who \<and> a_role who = Owner"
  by (auto simp: own_contract_def and_then_Inr assertOwner_def owned_contract_def find_Some_iff split: option.splits if_splits)

lemma conforms_after: "conforms now db db1 \<Longrightarrow> dk_contracts db2 = dk_contracts db1 \<Longrightarrow> conforms now db db2"
  using conforms_same conforms_trans by blast

lemmas op_splits = sum.splits option.splits prod.splits if_splits

lemma createDraft_conforms: "conforms now db (snd (createDraft env now who teamId code cal notes ext db))"
  by (auto simp: createDraft_def Let_def split: option.splits
      intro!: conforms_append [where c = "draft_row env now who _ _ cal notes ext"])
    (simp_all add: life_of_def draft_row_def new_life_def)

lemma request_contract_conforms: "conforms now db (snd (request_contract env now who code notes db))"
  using createDraft_conforms [of now db env who "a_teamId who" code "Some CalSA" "notes" no_extra]
  by (auto simp: request_contract_def split: prod.splits sum.splits elim: conforms_after)

lemma createForTeam_conforms: "conforms now db (snd (createForTeam env now who teamId code cal notes ext db))"
  by (simp add: createForTeam_def createDraft_conforms)

lemma activateIfComplete_conforms: "conforms now db (snd (activateIfComplete now i db))"
  by (auto simp: activateIfComplete_def Let_def split: option.splits prod.splits
      intro!: life_activated elim!: conforms_move [THEN conforms_after])

lemma setItem_conforms: "conforms now db (snd (setItem signalled now who i key isDone comment db))"
proof -
  have "conforms now a (snd (activateIfComplete now i b))" if "dk_contracts b = dk_contracts a" for a b
    using conforms_trans [OF conforms_same [OF that] activateIfComplete_conforms] .
  then show ?thesis by (auto simp: setItem_def Let_def split: sum.splits intro: conforms_same)
qed

lemma addItem_conforms: "conforms now db (snd (addItem now who i key title db))"
  by (auto simp: addItem_def Let_def split: sum.splits intro: conforms_same)

lemma matrix_conforms:
  "conforms now db (snd (createResponsibility now who newId i area own notes order db))"
  "conforms now db (snd (updateResponsibility now who i rid p db))"
  "conforms now db (snd (removeResponsibility now who i rid db))"
  by (auto simp: createResponsibility_def updateResponsibility_def removeResponsibility_def Let_def
      split: sum.splits option.splits intro: conforms_same)

lemma activate_contract_conforms: "conforms now db (snd (activate_contract newId now who i dto db))"
proof -
  have mv: "conforms now db db2"
    if "move_contract (\<lambda>r. mct_id r = i \<and> mct_status r = CDraft) (sign_contract now who dto b) (db\<lparr>dk_fx := fx\<rparr>) = (moved, db2)"
    for db2 moved b fx
    by (rule conforms_trans [OF conforms_same conforms_move [OF that]])
      (auto intro: life_signed, simp add: sign_contract_def)
  show ?thesis
    by (auto simp: activate_contract_def Let_def split: sum.splits prod.splits intro: conforms_same mv [THEN conforms_after])
qed

lemma suspend_conforms: "conforms now db (snd (suspend_contract now who i db))"
  by (auto simp: suspend_contract_def suspend_write_def load_contract_Inr Let_def split: sum.splits dest: find_by_Some
      intro!: conforms_update [where f = "\<lambda>r. r\<lparr>mct_status := CSuspended, mct_suspendedAt := Some now\<rparr>"] life_suspended)

lemma resume_conforms: "conforms now db (snd (resume_contract now who i db))"
proof (cases "load_contract i db")
  case (Inr c)
  then have c: "find_by mct_id i (dk_contracts db) = Some c" by (simp add: load_contract_Inr)
  show ?thesis
  proof (cases "mct_status c = CSuspended")
    case True
    show ?thesis using Inr True find_by_Some [OF c] life_resumed [OF True, of now]
      by (auto simp: resume_contract_def resume_write_def Let_def intro!: conforms_update [OF c, where f = "\<lambda>r. r\<lparr>mct_status := resumed_status c, mct_suspendedAt := None, mct_suspensions := mct_suspensions c @ [(case mct_suspendedAt c of None \<Rightarrow> now | Some s \<Rightarrow> s, now)]\<rparr>"])
  qed (simp add: resume_contract_def Inr)
qed (simp add: resume_contract_def)

lemma endContract_conforms: "k \<le> now \<Longrightarrow> conforms now db (snd (endContract now who c k reason db))"
  by (auto simp: endContract_def Let_def split: prod.splits intro!: life_cancelled elim!: conforms_move [THEN conforms_after])

lemma extendTerm_conforms: "conforms now db (snd (extendTerm now who c e m db))"
  by (auto simp: extendTerm_def Let_def life_of_def split: prod.splits elim!: conforms_move [THEN conforms_after])

lemma sendRenewalNotice_conforms: "conforms now db (snd (sendRenewalNotice now c db))"
  by (auto simp: sendRenewalNotice_def Let_def life_of_def split: prod.splits elim!: conforms_move [THEN conforms_after])

lemma snd_of: "f x = (a, b) \<Longrightarrow> b = snd (f x)"
  by simp

lemma cancel_contract_conforms: "conforms now db (snd (cancel_contract now who i reason db))"
  using endContract_conforms [of now now db "Some who" _ reason]
  by (auto simp: cancel_contract_def Let_def split: sum.splits prod.splits) (metis snd_conv)+

lemma cancelForTeam_conforms: "conforms now db (snd (cancelForTeam now who i reason db))"
  using endContract_conforms [of now now db "Some who" _ "Some (cancel_reason reason)"]
  by (auto simp: cancelForTeam_def Let_def life_of_def split: sum.splits prod.splits elim!: conforms_move [THEN conforms_after])

lemma undoCancel_conforms: "conforms now db (snd (undoCancelForTeam now who i db))"
  by (auto simp: undoCancelForTeam_def Let_def life_of_def split: sum.splits prod.splits elim!: conforms_move [THEN conforms_after])

lemma conforms_edit:
  assumes "\<And>r. mct_id (f r) = mct_id r" "\<And>r. life_of (f r) = life_of r"
  shows "conforms now db (update_contract i f db)"
  using assms by (intro conforms_rows [of "\<lambda>r. mct_id r = i" f]) (simp_all add: update_contract_def)

lemma setAutoRenew_conforms: "conforms now db (snd (setAutoRenew now who i auto db))"
proof -
  have "conforms now db (update_contract i (\<lambda>r. r\<lparr>mct_autoRenew := auto\<rparr>) db)" by (intro conforms_edit) (simp_all add: life_of_def)
  then show ?thesis by (auto simp: setAutoRenew_def Let_def split: sum.splits elim!: conforms_after)
qed

lemma edit_contract_conforms: "conforms now db (snd (edit_contract now who i p db))"
proof -
  have "conforms now db (update_contract i (patch_contract p) db)" by (intro conforms_edit) (simp_all add: life_of_def patch_contract_def)
  then show ?thesis by (auto simp: edit_contract_def Let_def split: sum.splits elim!: conforms_after)
qed

lemma renew_contract_conforms: "conforms now db (snd (renew_contract now who i months db))"
proof (cases "load_contract i db")
  case (Inr c)
  have "conforms now db d" if "extendTerm now (Some who) c e m db = (b, d)" for e m b d
    using extendTerm_conforms [of now db "Some who" c e m] that by simp
  then show ?thesis using Inr by (auto simp: renew_contract_def Let_def split: prod.splits)
qed (simp add: renew_contract_def)

text \<open>The daily job ends a contract at an instant that has passed.\<close>

lemma termDecision_past: "termDecision c now = Some (DCancel k why) \<Longrightarrow> k \<le> now"
  by (auto simp: termDecision_def term_tail_def Let_def split: option.splits if_splits)

lemma decide_conforms:
  assumes "termDecision (term_of c) now = Some d"
  shows "conforms now db (snd (decide_contract now c d db))"
  using termDecision_past assms
  by (cases d) (auto simp: decide_contract_def extendTerm_conforms sendRenewalNotice_conforms intro!: endContract_conforms)

lemma renew_all_conforms: "renew_all now cs out db = Some (out', db') \<Longrightarrow> conforms now db db'"
proof (induction cs arbitrary: out db)
  case (Cons c cs)
  then obtain d where d: "termDecision (term_of c) now = Some d" by (auto split: option.splits)
  then obtain out1 where "renew_all now cs out1 (snd (decide_contract now c d db)) = Some (out', db')"
    using Cons.prems by (auto simp: Let_def split: prod.splits)
  then show ?case using Cons.IH decide_conforms [OF d, of db] conforms_trans by blast
qed simp

lemma fold_conforms: "(\<And>c d. conforms now d (f c d)) \<Longrightarrow> conforms now db (fold f cs db)"
  by (induction cs arbitrary: db) (simp, metis conforms_trans fold_simps(2))

lemma sync_conforms: "conforms now db (syncWithTeamStatus now db)"
  unfolding syncWithTeamStatus_def Let_def
  by (rule conforms_trans; rule fold_conforms) (simp_all add: suspend_conforms resume_conforms)

lemma desk_step_conforms: "conforms now db (desk_step now oper db)"
  by (cases oper)
    (simp_all add: request_contract_conforms createForTeam_conforms setAutoRenew_conforms edit_contract_conforms
      cancelForTeam_conforms undoCancel_conforms activate_contract_conforms suspend_conforms resume_conforms
      cancel_contract_conforms renew_contract_conforms sync_conforms addItem_conforms setItem_conforms
      activateIfComplete_conforms matrix_conforms conforms_same runRenewals_def renew_all_conforms split: option.splits prod.splits)

interpretation desk: lifecycle desk_step "contract_view i" for i
  using desk_step_conforms by unfold_locales (simp add: conforms_def)

text \<open>A sequence of operations, each with its time, and the desk as it was at an instant.\<close>

definition desk_run :: "(instant \<times> desk_op) list \<Rightarrow> desk \<Rightarrow> desk" where
  "desk_run tr db = fold (\<lambda>(now, oper). desk_step now oper) tr db"

definition desk_at :: "(instant \<times> desk_op) list \<Rightarrow> desk \<Rightarrow> instant \<Rightarrow> desk" where
  "desk_at tr db t = desk_run (takeWhile (\<lambda>(now, _). now \<le> t) tr) db"

definition contract_status_of :: "id \<Rightarrow> desk \<Rightarrow> contract_status option" where
  "contract_status_of i db = map_option mct_status (find_by mct_id i (dk_contracts db))"

lemma status_view: "map_option lf_status (contract_view i db) = contract_status_of i db"
  by (simp add: contract_view_def contract_status_of_def life_of_def option.map_comp comp_def)

lemma row_tells_history:
  assumes "dk_contracts db = []" "sorted (map fst tr)" "find_by mct_id i (dk_contracts (desk_run tr db)) = Some c"
  shows "fee_due (life_of c) t \<longleftrightarrow>
    contract_status_of i (desk_at tr db t) = Some CActive \<and> \<not> by_now t (mct_cancelledAt c)"
proof -
  have "contract_view i db = None" by (simp add: contract_view_def assms(1))
  from desk.owed_iff_active [OF this assms(2), of t] assms(3) show ?thesis
    unfolding desk.state_at_def status_view desk_run_def [symmetric] desk_at_def [symmetric]
    by (simp add: contract_view_def owed_def ended_by_def life_of_def)
qed

section \<open>No fee before the checklist is complete\<close>

definition checklist_complete :: "id \<Rightarrow> desk \<Rightarrow> bool" where
  "checklist_complete i db \<longleftrightarrow> items_of i db \<noteq> [] \<and> list_all obi_done (items_of i db)"

text \<open>
  Ids are unique, a contract is activated only after it was signed, and the checklist of an
  activated contract is complete.
\<close>

definition desk_ok :: "desk \<Rightarrow> bool" where
  "desk_ok db \<longleftrightarrow> uniq mct_id (dk_contracts db) \<and>
     (\<forall>c\<in>set (dk_contracts db). mct_activatedAt c \<noteq> None \<longrightarrow>
        mct_status c \<notin> {CDraft, COnboarding} \<and> checklist_complete (mct_id c) db)"

lemma desk_ok_row:
  "desk_ok db \<Longrightarrow> find_by mct_id i (dk_contracts db) = Some c \<Longrightarrow> c' \<in> set (dk_contracts db) \<Longrightarrow> mct_id c' = i \<Longrightarrow> c' = c"
  by (metis desk_ok_def find_by_uniq option.inject)

lemma complete_cong: "dk_items db = dk_items db' \<Longrightarrow> checklist_complete i db = checklist_complete i db'"
  by (simp add: checklist_complete_def items_of_def)

lemma desk_frames_items [simp]:
  "dk_items (record_event n i t w now db) = dk_items db"
  "dk_items (mail_team t k db) = dk_items db"
  "dk_items (ensureDefaults f i db) = dk_items db"
  "dk_items (revoke_access now i t db) = dk_items db"
  by (simp_all add: record_event_def mail_team_def ensureDefaults_def revoke_access_def)

lemma desk_ok_same: "desk_ok db \<Longrightarrow> dk_contracts db' = dk_contracts db \<Longrightarrow> dk_items db' = dk_items db \<Longrightarrow> desk_ok db'"
  by (auto simp: desk_ok_def cong: complete_cong)

text \<open>Rows may change in every way but these three: the id, the activation, a signed contract unsigned.\<close>

lemma desk_ok_rows:
  assumes "desk_ok db" "dk_contracts db' = update_where p f (dk_contracts db)" "dk_items db' = dk_items db"
    "\<And>r. p r \<Longrightarrow> mct_id (f r) = mct_id r" "\<And>r. p r \<Longrightarrow> mct_activatedAt (f r) = mct_activatedAt r"
    "\<And>r. p r \<Longrightarrow> mct_activatedAt r \<noteq> None \<Longrightarrow> mct_status r \<notin> {CDraft, COnboarding} \<Longrightarrow> mct_status (f r) \<notin> {CDraft, COnboarding}"
  shows "desk_ok db'"
proof -
  have "uniq mct_id (dk_contracts db')" using assms by (simp add: desk_ok_def uniq_update_where)
  moreover have "\<forall>c\<in>set (dk_contracts db'). mct_activatedAt c \<noteq> None \<longrightarrow>
      mct_status c \<notin> {CDraft, COnboarding} \<and> checklist_complete (mct_id c) db'"
    unfolding assms(2) ball_update_where using assms(1,4-6) complete_cong [OF assms(3)] by (auto simp: desk_ok_def)
  ultimately show ?thesis by (simp add: desk_ok_def)
qed

lemma desk_ok_move:
  assumes "move_contract p f db = (moved, db')" "desk_ok db"
    "\<And>r. p r \<Longrightarrow> mct_id (f r) = mct_id r" "\<And>r. p r \<Longrightarrow> mct_activatedAt (f r) = mct_activatedAt r"
    "\<And>r. p r \<Longrightarrow> mct_activatedAt r \<noteq> None \<Longrightarrow> mct_status r \<notin> {CDraft, COnboarding} \<Longrightarrow> mct_status (f r) \<notin> {CDraft, COnboarding}"
  shows "desk_ok db'"
  using assms(1) by (intro desk_ok_rows [OF assms(2) _ _ assms(3-5)]) (auto simp: move_contract_def)

lemma desk_ok_cong:
  assumes "dk_contracts db' = dk_contracts db" "dk_items db' = dk_items db"
  shows "desk_ok db' = desk_ok db"
  using assms desk_ok_same [of db db'] desk_ok_same [of db' db] by auto

lemma desk_ok_frames [simp]:
  "desk_ok (record_event n i t w now db) = desk_ok db"
  "desk_ok (mail_team t k db) = desk_ok db"
  "desk_ok (ensureDefaults f i db) = desk_ok db"
  "desk_ok (revoke_access now i t db) = desk_ok db"
  "desk_ok (db\<lparr>dk_fx := fx\<rparr>) = desk_ok db"
  "desk_ok (db\<lparr>dk_matrix := rs\<rparr>) = desk_ok db"
  "desk_ok (db\<lparr>dk_teams := ts\<rparr>) = desk_ok db"
  by (rule desk_ok_cong; simp)+

lemma desk_ok_update:
  assumes "desk_ok db" "find_by mct_id i (dk_contracts db) = Some c" "\<And>r. mct_id (f r) = mct_id r"
    "mct_activatedAt (f c) = mct_activatedAt c" "mct_activatedAt c \<noteq> None \<Longrightarrow> mct_status (f c) \<notin> {CDraft, COnboarding}"
  shows "desk_ok (update_contract i f db)"
proof -
  have "mct_activatedAt (f r) = mct_activatedAt r" "mct_activatedAt r \<noteq> None \<Longrightarrow> mct_status (f r) \<notin> {CDraft, COnboarding}"
    if "r \<in> set (dk_contracts db)" "mct_id r = i" for r
    using desk_ok_row [OF assms(1,2) that] assms(4,5) by auto
  then have "desk_ok (db\<lparr>dk_contracts := update_where (\<lambda>r. mct_id r = i \<and> r \<in> set (dk_contracts db)) f (dk_contracts db)\<rparr>)"
    using assms(3) by (intro desk_ok_rows [OF assms(1), where f = f and p = "\<lambda>r. mct_id r = i \<and> r \<in> set (dk_contracts db)"]) auto
  moreover have "update_where (\<lambda>r. mct_id r = i \<and> r \<in> set (dk_contracts db)) f (dk_contracts db) = update_where (\<lambda>r. mct_id r = i) f (dk_contracts db)"
    by (simp add: update_where_def)
  ultimately show ?thesis by (simp add: update_contract_def)
qed

text \<open>The checklist of a contract that is not activated yet may change.\<close>

lemma desk_ok_items:
  assumes "desk_ok db" "find_by mct_id i (dk_contracts db) = Some c" "mct_status c \<in> {CDraft, COnboarding}"
    "dk_contracts db' = dk_contracts db" "\<And>j. j \<noteq> i \<Longrightarrow> items_of j db' = items_of j db"
  shows "desk_ok db'"
proof -
  have "mct_id c' \<noteq> i" if "c' \<in> set (dk_contracts db)" "mct_activatedAt c' \<noteq> None" for c'
    using that assms(1,3) desk_ok_row [OF assms(1,2)] by (auto simp: desk_ok_def)
  then show ?thesis using assms(1,4,5) by (auto simp: desk_ok_def checklist_complete_def)
qed

lemma draft_row_new [simp]: "mct_activatedAt (draft_row env now who tm p cal notes ext) = None"
  by (simp add: draft_row_def)

lemma createDraft_ok: "desk_ok db \<Longrightarrow> desk_ok (snd (createDraft env now who teamId code cal notes ext db))"
proof -
  assume ok: "desk_ok db"
  have "desk_ok (db\<lparr>dk_contracts := dk_contracts db @ [c]\<rparr>)"
    if "mct_activatedAt c = None" "mct_id c \<notin> mct_id ` set (dk_contracts db)" for c
    using ok that by (auto simp: desk_ok_def uniq_def checklist_complete_def items_of_def)
  then show ?thesis using ok by (auto simp: createDraft_def Let_def split: option.splits)
qed

lemma request_contract_ok: "desk_ok db \<Longrightarrow> desk_ok (snd (request_contract env now who code notes db))"
  using createDraft_ok [of db env now who "a_teamId who" code "Some CalSA" "notes" no_extra]
  by (auto simp: request_contract_def split: prod.splits sum.splits)

lemma createForTeam_ok: "desk_ok db \<Longrightarrow> desk_ok (snd (createForTeam env now who teamId code cal notes ext db))"
  by (simp add: createForTeam_def createDraft_ok)

lemma activateIfComplete_ok:
  assumes ok: "desk_ok db"
  shows "desk_ok (snd (activateIfComplete now i db))"
proof -
  have fin: "desk_ok (db\<lparr>dk_contracts := update_where (\<lambda>r. mct_id r = i \<and> mct_status r = COnboarding)
      (\<lambda>r. r\<lparr>mct_status := CActive, mct_activatedAt := Some now, mct_termEndsAt := e\<rparr>) (dk_contracts db)\<rparr>)"
    if "checklist_complete i db" for e
    using ok that complete_cong by (auto simp: desk_ok_def uniq_update_where ball_update_where checklist_complete_def items_of_def)
  have "checklist_complete i db" if "\<not> (items_of i db = [] \<or> list_ex (\<lambda>x. \<not> obi_done x) (items_of i db))"
    using that by (auto simp: checklist_complete_def list_ex_iff list_all_iff)
  then show ?thesis using ok fin by (auto simp: activateIfComplete_def move_contract_def Let_def split: option.splits)
qed

lemma items_of_update: "items_of j (db\<lparr>dk_items := update_where (\<lambda>x. obi_id x = (i, key)) f (dk_items db)\<rparr>) = items_of j db"
  if "j \<noteq> i" "\<And>x. obi_contractId (f x) = obi_contractId x" for f
proof -
  have "filter (\<lambda>x. obi_contractId x = j) (update_where (\<lambda>x. obi_id x = (i, key)) f xs) = filter (\<lambda>x. obi_contractId x = j) xs" for xs
    using that by (induction xs) (auto simp: obi_id_def)
  then show ?thesis by (simp add: items_of_def)
qed

lemma setItem_ok:
  assumes "desk_ok db"
  shows "desk_ok (snd (setItem signalled now who i key isDone comment db))"
proof (cases "load_contract i db")
  case (Inr c)
  then have c: "find_by mct_id i (dk_contracts db) = Some c" by (simp add: load_contract_Inr)
  have "desk_ok (db\<lparr>dk_items := update_where (\<lambda>x. obi_id x = (i, key)) f (dk_items db)\<rparr>)"
    if "mct_status c = COnboarding" "\<And>x. obi_contractId (f x) = obi_contractId x" for f
    using that by (intro desk_ok_items [OF assms c]) (simp_all add: items_of_update)
  then show ?thesis using assms Inr by (auto simp: setItem_def Let_def intro!: activateIfComplete_ok)
qed (use assms in \<open>simp add: setItem_def\<close>)

lemma addItem_ok:
  assumes "desk_ok db"
  shows "desk_ok (snd (addItem now who i key title db))"
proof (cases "load_contract i db")
  case (Inr c)
  then have c: "find_by mct_id i (dk_contracts db) = Some c" by (simp add: load_contract_Inr)
  have "desk_ok (db\<lparr>dk_items := dk_items db @ [x]\<rparr>)" if "mct_status c \<in> {CDraft, COnboarding}" "obi_contractId x = i" for x
    using that by (intro desk_ok_items [OF assms c]) (simp_all add: items_of_def)
  then show ?thesis using assms Inr by (auto simp: addItem_def Let_def)
qed (use assms in \<open>simp add: addItem_def\<close>)

lemma createMany_other: "\<forall>x\<in>set xs. \<not> q x \<Longrightarrow> filter q (createMany_skip k xs rows) = filter q rows"
  unfolding createMany_skip_def by (induction xs arbitrary: rows) (auto simp: add_new_def)

lemma default_items_contract: "\<forall>x\<in>set (default_items i). obi_contractId x = i"
  by (auto simp: default_items_def)

lemma ensureChecklist_ok:
  assumes "desk_ok db" "find_by mct_id i (dk_contracts db) = Some c" "mct_status c \<in> {CDraft, COnboarding}"
  shows "desk_ok (ensureChecklist i db)"
proof (rule desk_ok_items [OF assms])
  show "items_of j (ensureChecklist i db) = items_of j db" if "j \<noteq> i" for j
    using that default_items_contract [of i] by (auto simp: items_of_def ensureChecklist_def intro!: createMany_other)
qed simp

lemma activate_contract_ok:
  assumes ok: "desk_ok db"
  shows "desk_ok (snd (activate_contract newId now who i dto db))"
proof (cases "load_contract i db")
  case (Inr c)
  then have c: "find_by mct_id i (dk_contracts db) = Some c" by (simp add: load_contract_Inr)
  have mv: "desk_ok db2 \<and> desk_ok (ensureChecklist i db2)"
    if "move_contract (\<lambda>r. mct_id r = i \<and> mct_status r = CDraft) (sign_contract now who dto b) (db\<lparr>dk_fx := fx\<rparr>) = (moved, db2)"
      "mct_status c = CDraft" for db2 moved b fx
  proof -
    have d: "desk_ok db2"
      by (rule desk_ok_move [OF that(1)]) (use ok in \<open>auto simp: sign_contract_def\<close>)
    have "find_by mct_id i (dk_contracts db2) = Some (sign_contract now who dto b c)"
      using that c find_by_Some [OF c] by (auto simp: move_contract_def find_by_update_where sign_contract_def)
    from ensureChecklist_ok [OF d this] d show ?thesis by (simp add: sign_contract_def)
  qed
  show ?thesis using ok Inr mv by (auto simp: activate_contract_def Let_def split: prod.splits)
qed (use ok in \<open>simp add: activate_contract_def\<close>)

lemma suspend_write_ok:
  assumes "desk_ok db" "find_by mct_id (mct_id c) (dk_contracts db) = Some c'"
  shows "desk_ok (suspend_write now who c db)"
  using desk_ok_update [OF assms, of "\<lambda>r. r\<lparr>mct_status := CSuspended, mct_suspendedAt := Some now\<rparr>"]
  by (simp add: suspend_write_def)

lemma suspend_ok: "desk_ok db \<Longrightarrow> desk_ok (snd (suspend_contract now who i db))"
  by (auto simp: suspend_contract_def load_contract_Inr Let_def split: sum.splits dest: find_by_Some intro!: suspend_write_ok)

lemma resume_ok:
  assumes "desk_ok db"
  shows "desk_ok (snd (resume_contract now who i db))"
proof (cases "load_contract i db")
  case (Inr c)
  then have c: "find_by mct_id i (dk_contracts db) = Some c" "mct_id c = i"
    using find_by_Some by (fastforce simp: load_contract_Inr)+
  have "desk_ok (resume_write now who c db)"
    using desk_ok_update [OF assms c(1), of "\<lambda>r. r\<lparr>mct_status := resumed_status c, mct_suspendedAt := None, mct_suspensions := x\<rparr>" for x] c(2)
    by (auto simp: resume_write_def resumed_status_def Let_def)
  then show ?thesis using Inr assms by (auto simp: resume_contract_def Let_def)
qed (simp add: resume_contract_def assms)

lemma endContract_ok: "desk_ok db \<Longrightarrow> desk_ok (snd (endContract now who c k reason db))"
  by (auto simp: endContract_def Let_def split: prod.splits elim!: desk_ok_move)

lemma extendTerm_ok: "desk_ok db \<Longrightarrow> desk_ok (snd (extendTerm now who c e m db))"
  by (auto simp: extendTerm_def Let_def split: prod.splits elim!: desk_ok_move)

lemma sendRenewalNotice_ok: "desk_ok db \<Longrightarrow> desk_ok (snd (sendRenewalNotice now c db))"
  by (auto simp: sendRenewalNotice_def Let_def split: prod.splits elim!: desk_ok_move)

lemma cancel_contract_ok: "desk_ok db \<Longrightarrow> desk_ok (snd (cancel_contract now who i reason db))"
  using endContract_ok [of db now "Some who" _ now reason]
  by (auto simp: cancel_contract_def Let_def split: sum.splits prod.splits) (metis snd_conv)+

lemma cancelForTeam_ok: "desk_ok db \<Longrightarrow> desk_ok (snd (cancelForTeam now who i reason db))"
  using endContract_ok [of db now "Some who" _ now "Some (cancel_reason reason)"]
  by (auto simp: cancelForTeam_def Let_def split: sum.splits prod.splits elim!: desk_ok_move)

lemma undoCancel_ok: "desk_ok db \<Longrightarrow> desk_ok (snd (undoCancelForTeam now who i db))"
  by (auto simp: undoCancelForTeam_def Let_def split: sum.splits prod.splits elim!: desk_ok_move)

lemma desk_ok_edit:
  assumes "desk_ok db" "\<And>r. mct_id (f r) = mct_id r" "\<And>r. mct_activatedAt (f r) = mct_activatedAt r" "\<And>r. mct_status (f r) = mct_status r"
  shows "desk_ok (update_contract i f db)"
  by (rule desk_ok_rows [OF assms(1), of _ "\<lambda>r. mct_id r = i" f]) (simp_all add: update_contract_def assms(2-4))

lemma setAutoRenew_ok: "desk_ok db \<Longrightarrow> desk_ok (snd (setAutoRenew now who i auto db))"
  by (auto simp: setAutoRenew_def Let_def split: sum.splits intro!: desk_ok_edit)

lemma edit_contract_ok: "desk_ok db \<Longrightarrow> desk_ok (snd (edit_contract now who i p db))"
  by (auto simp: edit_contract_def Let_def patch_contract_def split: sum.splits intro!: desk_ok_edit)

lemma renew_contract_ok: "desk_ok db \<Longrightarrow> desk_ok (snd (renew_contract now who i months db))"
proof (cases "load_contract i db")
  case (Inr c)
  assume "desk_ok db"
  then have "desk_ok d" if "extendTerm now (Some who) c e m db = (b, d)" for e m b d
    using extendTerm_ok [of db now "Some who" c e m] that by simp
  then show ?thesis using Inr \<open>desk_ok db\<close> by (auto simp: renew_contract_def Let_def split: prod.splits)
qed (simp add: renew_contract_def)

lemma decide_ok: "desk_ok db \<Longrightarrow> desk_ok (snd (decide_contract now c d db))"
  by (cases d) (simp_all add: decide_contract_def extendTerm_ok sendRenewalNotice_ok endContract_ok)

lemma renew_all_ok: "renew_all now cs out db = Some (out', db') \<Longrightarrow> desk_ok db \<Longrightarrow> desk_ok db'"
proof (induction cs arbitrary: out db)
  case (Cons c cs)
  then obtain d where d: "termDecision (term_of c) now = Some d" by (auto split: option.splits)
  then obtain out1 where "renew_all now cs out1 (snd (decide_contract now c d db)) = Some (out', db')"
    using Cons.prems by (auto simp: Let_def split: prod.splits)
  then show ?case using Cons.IH Cons.prems(2) decide_ok by blast
qed simp

lemma fold_ok: "(\<And>c d. desk_ok d \<Longrightarrow> desk_ok (f c d)) \<Longrightarrow> desk_ok db \<Longrightarrow> desk_ok (fold f cs db)"
  by (induction cs arbitrary: db) simp_all

lemma sync_ok: "desk_ok db \<Longrightarrow> desk_ok (syncWithTeamStatus now db)"
  unfolding syncWithTeamStatus_def Let_def by (intro fold_ok) (simp_all add: suspend_ok resume_ok)

lemma matrix_ok:
  assumes "desk_ok db"
  shows "desk_ok (snd (createResponsibility now who newId i area own notes order db))"
    "desk_ok (snd (updateResponsibility now who i rid p db))" "desk_ok (snd (removeResponsibility now who i rid db))"
  using assms by (auto simp: createResponsibility_def updateResponsibility_def removeResponsibility_def Let_def
      split: sum.splits option.splits)

interpretation desk_inv: guarded_system desk_ok "\<lambda>(now, oper). desk_step now oper"
proof unfold_locales
  show "desk_ok ((case x of (now, oper) \<Rightarrow> desk_step now oper) db)" if "desk_ok db" for db x
  proof (cases x)
    case (Pair now oper)
    show ?thesis using that unfolding Pair
      by (cases oper)
        (auto simp: request_contract_ok createForTeam_ok setAutoRenew_ok edit_contract_ok cancelForTeam_ok undoCancel_ok activate_contract_ok
          suspend_ok resume_ok cancel_contract_ok renew_contract_ok sync_ok addItem_ok setItem_ok activateIfComplete_ok
          matrix_ok runRenewals_def dest: renew_all_ok split: option.splits)
  qed
qed

lemma desk_run_ok: "desk_ok db \<Longrightarrow> desk_ok (desk_run tr db)"
  unfolding desk_run_def by (rule desk_inv.run_inv)

section \<open>The daily renewal job\<close>

text \<open>What the job does to a row it decided on.\<close>

definition renewal_outcome :: "instant \<Rightarrow> contract \<Rightarrow> contract" where
  "renewal_outcome now c =
     (case termDecision (term_of c) now of
        Some (DRenew e) \<Rightarrow> c\<lparr>mct_termEndsAt := Some e, mct_renewedAt := Some now, mct_renewalNoticeAt := None\<rparr>
      | Some (DCancel k why) \<Rightarrow> c\<lparr>mct_status := CCancelled, mct_cancelledAt := Some k,
          mct_cancelReason := (if why = NotRenewed then Some NOT_RENEWED_REASON
             else Some (case mct_cancelReason c of None \<Rightarrow> CUSTOMER_CANCEL_REASON | Some t \<Rightarrow> t))\<rparr>
      | Some DNotice \<Rightarrow> c\<lparr>mct_renewalNoticeAt := Some now\<rparr>
      | _ \<Rightarrow> c)"

text \<open>A contract that should have ended, or whose term should have been renewed.\<close>

definition overdue :: "instant \<Rightarrow> contract \<Rightarrow> bool" where
  "overdue now c \<longleftrightarrow> mct_status c \<in> {CActive, CSuspended} \<and>
     (by_now now (mct_cancelAt c) \<or> by_now now (mct_termEndsAt c) \<and> (mct_cancelAt c = None \<or> \<not> mct_autoRenew c))"

lemma outcome_id [simp]: "mct_id (renewal_outcome now c) = mct_id c"
  by (simp add: renewal_outcome_def split: option.splits term_decision.splits)

lemma update_one_row:
  assumes "uniq k rows" "c \<in> set rows" "p c" "\<And>r. p r \<Longrightarrow> k r = k c"
  shows "update_where p f rows = map (\<lambda>r. if r = c then f c else r) rows" "count_where p rows = 1"
proof -
  have iff: "p r \<longleftrightarrow> r = c" if "r \<in> set rows" for r
    using uniq_inj [OF assms(1) that assms(2)] assms(3) assms(4) [of r] by blast
  then show "update_where p f rows = map (\<lambda>r. if r = c then f c else r) rows" by (auto simp: update_where_def)
  have "distinct rows" using assms(1) by (simp add: uniq_def distinct_map)
  have "filter p rows = filter (\<lambda>r. r = c) rows" using iff by (intro filter_cong) simp_all
  also have "\<dots> = [c]" using \<open>distinct rows\<close> assms(2) by (induction rows) (auto simp: filter_empty_conv)
  finally show "count_where p rows = 1" by (simp add: count_where_def)
qed

lemma termDecision_cases:
  assumes "termDecision (term_of c) now = Some d" "d \<noteq> DNone"
  shows "mct_status c \<in> {CActive, CSuspended}" "d = DNotice \<Longrightarrow> mct_renewalNoticeAt c = None \<and> mct_termEndsAt c \<noteq> None"
    "mct_status c \<noteq> CCancelled"
  using assms by (auto simp: termDecision_def term_tail_def term_of_def Let_def split: option.splits if_splits)

lemma decide_rows:
  assumes "uniq mct_id (dk_contracts db)" "c \<in> set (dk_contracts db)" "termDecision (term_of c) now = Some d"
  shows "dk_contracts (snd (decide_contract now c d db)) = map (\<lambda>r. if r = c then renewal_outcome now c else r) (dk_contracts db)"
proof (cases d)
  case DNone
  then show ?thesis using assms(3) by (simp add: decide_contract_def renewal_outcome_def map_idI)
next
  case (DRenew e)
  then have "mct_status c \<in> {CActive, CSuspended}" using termDecision_cases(1) [OF assms(3)] by simp
  then show ?thesis using DRenew assms(3)
      update_one_row [OF assms(1,2), of "\<lambda>r. mct_id r = mct_id c \<and> mct_status r \<in> {CActive, CSuspended} \<and> mct_termEndsAt r = mct_termEndsAt c"]
    by (simp add: decide_contract_def extendTerm_def move_contract_def renewal_outcome_def)
next
  case (DCancel k why)
  then have "mct_status c \<noteq> CCancelled" using termDecision_cases(3) [OF assms(3)] by simp
  then show ?thesis using DCancel assms(3)
      update_one_row [OF assms(1,2), of "\<lambda>r. mct_id r = mct_id c \<and> mct_status r \<noteq> CCancelled"]
    by (simp add: decide_contract_def endContract_def move_contract_def renewal_outcome_def)
next
  case DNotice
  then have "mct_renewalNoticeAt c = None" "mct_termEndsAt c \<noteq> None" using termDecision_cases(2) [OF assms(3)] by simp_all
  then show ?thesis using DNotice assms(3)
      update_one_row [OF assms(1,2), of "\<lambda>r. mct_id r = mct_id c \<and> mct_renewalNoticeAt r = None \<and> mct_termEndsAt r = mct_termEndsAt c"]
    by (simp add: decide_contract_def sendRenewalNotice_def move_contract_def renewal_outcome_def split: prod.splits)
qed

lemma renew_all_rows:
  assumes "uniq mct_id (dk_contracts db)" "set cs \<subseteq> set (dk_contracts db)" "distinct cs"
    "\<forall>c\<in>set cs. termDecision (term_of c) now \<noteq> None"
  shows "\<exists>out' db'. renew_all now cs out db = Some (out', db') \<and>
    dk_contracts db' = fold (\<lambda>c. map (\<lambda>r. if r = c then renewal_outcome now c else r)) cs (dk_contracts db)"
  using assms
proof (induction cs arbitrary: out db)
  case (Cons c cs)
  then obtain d where d: "termDecision (term_of c) now = Some d" by auto
  define db1 where "db1 = snd (decide_contract now c d db)"
  have rows: "dk_contracts db1 = map (\<lambda>r. if r = c then renewal_outcome now c else r) (dk_contracts db)"
    unfolding db1_def using Cons.prems(1,2) d by (intro decide_rows) auto
  have "map mct_id (dk_contracts db1) = map mct_id (dk_contracts db)" by (simp add: rows)
  then have u: "uniq mct_id (dk_contracts db1)" using Cons.prems(1) by (simp only: uniq_def)
  have sub: "set cs \<subseteq> set (dk_contracts db1)" using Cons.prems(2,3) by (auto simp: rows)
  from Cons.IH [OF u sub] Cons.prems(3,4) obtain out' db' where
    "renew_all now cs (if fst (decide_contract now c d db) then count_decision d out else out) db1 = Some (out', db')"
    "dk_contracts db' = fold (\<lambda>c. map (\<lambda>r. if r = c then renewal_outcome now c else r)) cs (dk_contracts db1)"
    by fastforce
  then show ?case using d rows by (auto simp: db1_def Let_def split: prod.splits)
qed simp

lemma runRenewals_rows:
  assumes "uniq mct_id (dk_contracts db)" "\<forall>c\<in>set (dk_contracts db). \<forall>e. mct_termEndsAt c = Some e \<longrightarrow> 0 \<le> e"
  shows "\<exists>out db'. runRenewals now db = Some (out, db') \<and>
    dk_contracts db' = map (\<lambda>c. if renewal_due now c then renewal_outcome now c else c) (dk_contracts db)"
proof -
  let ?cs = "filter (renewal_due now) (dk_contracts db)"
  have "distinct ?cs" using assms(1) by (simp add: uniq_def distinct_map)
  moreover have "\<forall>c\<in>set ?cs. termDecision (term_of c) now \<noteq> None"
    using assms(2) termDecision_returns [of "term_of c" now for c] by (auto simp: term_of_def) 
  ultimately obtain out db' where "runRenewals now db = Some (out, db')"
    "dk_contracts db' = fold (\<lambda>c. map (\<lambda>r. if r = c then renewal_outcome now c else r)) ?cs (dk_contracts db)"
    unfolding runRenewals_def using renew_all_rows [OF assms(1), of ?cs now] by fastforce
  moreover have "fold (\<lambda>c. map (\<lambda>r. if r = c then renewal_outcome now c else r)) ?cs (dk_contracts db)
      = map (\<lambda>r. if r \<in> set ?cs then renewal_outcome now r else r) (dk_contracts db)"
    using \<open>distinct ?cs\<close> by (intro fold_row_updates [where k = mct_id]) (simp_all add: assms(1))
  ultimately show ?thesis by (auto cong: map_cong)
qed

lemma outcome_not_overdue:
  assumes "\<forall>e. mct_termEndsAt c = Some e \<longrightarrow> 0 \<le> e"
  shows "\<not> overdue now (renewal_outcome now c)"
proof -
  obtain d where d: "termDecision (term_of c) now = Some d"
    using termDecision_returns [of "term_of c" now] assms by (auto simp: term_of_def)
  have later: "now < n" if "nextTermEnd e m now = Some n" "mct_termEndsAt c = Some e" for e m n
    using nextTermEnd_returns [of e m now] that assms by auto
  show ?thesis
    using d later
    by (auto simp: renewal_outcome_def overdue_def termDecision_def term_tail_def term_of_def Let_def not_le
        split: option.splits if_splits term_decision.splits)
qed

text \<open>Only a contract that is overdue ends; a renewed one keeps its status.\<close>

lemma outcome_status: "\<not> overdue now c \<Longrightarrow> mct_status (renewal_outcome now c) = mct_status c"
  by (auto simp: renewal_outcome_def overdue_def termDecision_def term_tail_def term_of_def Let_def
      split: option.splits if_splits term_decision.splits)

lemma overdue_is_due: "overdue now c \<Longrightarrow> renewal_due now c"
  by (auto simp: overdue_def renewal_due_def msPerDay_def elim: by_now_mono)

section \<open>Following the team account\<close>

lemma suspend_rows:
  assumes "uniq mct_id (dk_contracts db)" "c \<in> set (dk_contracts db)" "mct_status c \<in> {CActive, COnboarding}"
  shows "dk_contracts (snd (suspend_contract now who (mct_id c) db)) =
    map (\<lambda>r. if r = c then c\<lparr>mct_status := CSuspended, mct_suspendedAt := Some now\<rparr> else r) (dk_contracts db)"
  using assms update_one_row(1) [OF assms(1,2), of "\<lambda>r. mct_id r = mct_id c" "\<lambda>r. r\<lparr>mct_status := CSuspended, mct_suspendedAt := Some now\<rparr>"]
  by (auto simp: suspend_contract_def load_contract_def find_by_uniq suspend_write_def update_contract_def Let_def)

lemma fold_suspend_rows:
  assumes "uniq mct_id (dk_contracts db)" "set cs \<subseteq> set (dk_contracts db)" "distinct cs" "\<forall>c\<in>set cs. mct_status c \<in> {CActive, COnboarding}"
  shows "dk_contracts (fold (\<lambda>c d. snd (suspend_contract now None (mct_id c) d)) cs db) =
    fold (\<lambda>c. map (\<lambda>r. if r = c then c\<lparr>mct_status := CSuspended, mct_suspendedAt := Some now\<rparr> else r)) cs (dk_contracts db)"
  using assms
proof (induction cs arbitrary: db)
  case (Cons c cs)
  let ?d = "snd (suspend_contract now None (mct_id c) db)"
  have rows: "dk_contracts ?d = map (\<lambda>r. if r = c then c\<lparr>mct_status := CSuspended, mct_suspendedAt := Some now\<rparr> else r) (dk_contracts db)"
    using Cons.prems by (intro suspend_rows) auto
  have "map mct_id (dk_contracts ?d) = map mct_id (dk_contracts db)" by (simp add: rows)
  then have "uniq mct_id (dk_contracts ?d)" using Cons.prems(1) by (simp only: uniq_def)
  moreover have "set cs \<subseteq> set (dk_contracts ?d)" using Cons.prems(2,3) by (auto simp: rows)
  ultimately show ?case using Cons.IH [of ?d] Cons.prems(3,4) rows by simp
qed simp

lemma resume_rows:
  "\<exists>f. dk_contracts (snd (resume_contract now who i db)) = update_where (\<lambda>r. mct_id r = i) f (dk_contracts db)
     \<and> (\<forall>r. mct_id (f r) = mct_id r \<and> mct_teamId (f r) = mct_teamId r)"
proof (cases "load_contract i db")
  case (Inr c)
  then have "mct_id c = i" using find_by_Some by (fastforce simp: load_contract_Inr)
  show ?thesis
  proof (cases "mct_status c = CSuspended")
    case True
    then show ?thesis using Inr \<open>mct_id c = i\<close>
      by (intro exI [of _ "\<lambda>r. r\<lparr>mct_status := resumed_status c, mct_suspendedAt := None,
        mct_suspensions := mct_suspensions c @ [(case mct_suspendedAt c of None \<Rightarrow> now | Some s \<Rightarrow> s, now)]\<rparr>"])
        (simp add: resume_contract_def resume_write_def update_contract_def Let_def)
  next
    case False
    then show ?thesis using Inr by (intro exI [of _ "\<lambda>r. r"]) (simp add: resume_contract_def update_where_def)
  qed
next
  case (Inl e)
  then show ?thesis by (intro exI [of _ "\<lambda>r. r"]) (simp add: resume_contract_def update_where_def)
qed

lemma fold_resume_stopped:
  assumes "\<forall>r\<in>set (dk_contracts d). mct_teamId r \<in> T \<longrightarrow> mct_status r \<notin> {CActive, COnboarding} \<and> mct_id r \<notin> mct_id ` set cs"
  shows "\<forall>r\<in>set (dk_contracts (fold (\<lambda>c d. if job_suspended (mct_id c) d then snd (resume_contract now None (mct_id c) d) else d) cs d)).
    mct_teamId r \<in> T \<longrightarrow> mct_status r \<notin> {CActive, COnboarding}"
  using assms
proof (induction cs arbitrary: d)
  case (Cons c cs)
  let ?d = "if job_suspended (mct_id c) d then snd (resume_contract now None (mct_id c) d) else d"
  have "\<forall>r\<in>set (dk_contracts ?d). mct_teamId r \<in> T \<longrightarrow> mct_status r \<notin> {CActive, COnboarding} \<and> mct_id r \<notin> mct_id ` set cs"
  proof (cases "job_suspended (mct_id c) d")
    case True
    obtain f where f: "dk_contracts (snd (resume_contract now None (mct_id c) d)) = update_where (\<lambda>r. mct_id r = mct_id c) f (dk_contracts d)"
      "\<And>r. mct_id (f r) = mct_id r" "\<And>r. mct_teamId (f r) = mct_teamId r" using resume_rows [of now None "mct_id c" d] by blast
    show ?thesis using True Cons.prems by (simp add: f(1) ball_update_where f(2,3)) blast
  qed (use Cons.prems in simp)
  from Cons.IH [OF this] show ?case by simp
qed simp

lemma suspend_teams [simp]: "dk_teams (snd (suspend_contract now who i db)) = dk_teams db"
  by (simp add: suspend_contract_def suspend_write_def update_contract_def record_event_def mail_team_def Let_def split: sum.splits)

lemma fold_suspend_teams [simp]: "dk_teams (fold (\<lambda>c d. snd (suspend_contract now None (mct_id c) d)) cs db) = dk_teams db"
  by (induction cs arbitrary: db) simp_all

definition suspended_teams :: "desk \<Rightarrow> id set" where
  "suspended_teams db = {tm_id t | t. t \<in> set (dk_teams db) \<and> tm_status t = AccSuspended}"

lemma team_has_suspended: "team_has AccSuspended db c \<longleftrightarrow> mct_teamId c \<in> suspended_teams db"
  by (force simp: team_has_def suspended_teams_def list_ex_iff)

lemma team_has_one:
  "uniq tm_id (dk_teams db) \<Longrightarrow> team_has AccActive db c \<Longrightarrow> mct_teamId c \<notin> suspended_teams db"
  by (auto simp: team_has_def suspended_teams_def list_ex_iff dest: uniq_inj)

lemma sync_stops_suspended:
  assumes ids: "uniq mct_id (dk_contracts db)" and teams: "uniq tm_id (dk_teams db)"
    and c: "c \<in> set (dk_contracts (syncWithTeamStatus now db))" "mct_teamId c \<in> suspended_teams db"
  shows "mct_status c \<notin> {CActive, COnboarding}"
proof -
  define cs where "cs = filter (\<lambda>c. mct_status c \<in> {CActive, COnboarding} \<and> team_has AccSuspended db c) (dk_contracts db)"
  define db1 where "db1 = fold (\<lambda>c d. snd (suspend_contract now None (mct_id c) d)) cs db"
  let ?f = "\<lambda>c. c\<lparr>mct_status := CSuspended, mct_suspendedAt := Some now\<rparr>"
  have cs: "set cs \<subseteq> set (dk_contracts db)" "distinct cs" "\<forall>c\<in>set cs. mct_status c \<in> {CActive, COnboarding}"
    using ids by (auto simp: cs_def uniq_def distinct_map)
  have "dk_contracts db1 = map (\<lambda>r. if r \<in> set cs then ?f r else r) (dk_contracts db)"
    unfolding db1_def fold_suspend_rows [OF ids cs]
    by (rule fold_row_updates [where k = mct_id]) (simp_all add: ids cs)
  then have rows: "r' \<in> set (dk_contracts db1) \<longleftrightarrow> (\<exists>r\<in>set (dk_contracts db). r' = (if r \<in> set cs then ?f r else r))" for r' by auto
  have u1: "uniq mct_id (dk_contracts db1)"
    using \<open>dk_contracts db1 = _\<close> ids by (simp add: uniq_def comp_def if_distrib cong: if_cong)
  have same: "dk_teams db1 = dk_teams db" by (simp add: db1_def)
  define rs where "rs = filter (\<lambda>c. mct_status c = CSuspended \<and> team_has AccActive db1 c) (dk_contracts db1)"
  have "mct_status r \<notin> {CActive, COnboarding} \<and> mct_id r \<notin> mct_id ` set rs"
    if r: "r \<in> set (dk_contracts db1)" "mct_teamId r \<in> suspended_teams db" for r
  proof
    from r(1) rows obtain x where x: "x \<in> set (dk_contracts db)" "r = (if x \<in> set cs then ?f x else x)" by blast
    show "mct_status r \<notin> {CActive, COnboarding}"
    proof (cases "x \<in> set cs")
      case False
      then show ?thesis using x r(2) by (auto simp: cs_def team_has_suspended)
    qed (simp add: x(2))
    have "mct_teamId x \<notin> suspended_teams db" if "x \<in> set rs" for x
      using that team_has_one [of db1 x] teams same by (auto simp: rs_def suspended_teams_def)
    then show "mct_id r \<notin> mct_id ` set rs" using r uniq_inj [OF u1] by (fastforce simp: rs_def)
  qed
  then have "\<forall>r\<in>set (dk_contracts db1). mct_teamId r \<in> suspended_teams db \<longrightarrow> mct_status r \<notin> {CActive, COnboarding} \<and> mct_id r \<notin> mct_id ` set rs" by blast
  moreover have "syncWithTeamStatus now db =
      fold (\<lambda>c d. if job_suspended (mct_id c) d then snd (resume_contract now None (mct_id c) d) else d) rs db1"
    unfolding syncWithTeamStatus_def Let_def rs_def db1_def cs_def ..
  ultimately show ?thesis using fold_resume_stopped [of db1 "suspended_teams db" rs now] c by simp
qed

text \<open>What staff suspended stays suspended.\<close>

lemma other_contract:
  assumes "j \<noteq> i"
  shows "find_by mct_id i (dk_contracts (snd (suspend_contract now who j db))) = find_by mct_id i (dk_contracts db)"
    "last_suspension i (snd (suspend_contract now who j db)) = last_suspension i db"
    "find_by mct_id i (dk_contracts (snd (resume_contract now who j db))) = find_by mct_id i (dk_contracts db)"
    "last_suspension i (snd (resume_contract now who j db)) = last_suspension i db"
proof -
  have upd: "find_by mct_id i (update_where (\<lambda>r. mct_id r = k) f rows) = find_by mct_id i rows"
    if "k \<noteq> i" "\<And>r. mct_id (f r) = mct_id r" for k f rows
    using that by (induction rows) auto
  have "mct_id c = j" if "load_contract j db = Inr c" for c using that find_by_Some by (fastforce simp: load_contract_Inr)
  then show "find_by mct_id i (dk_contracts (snd (suspend_contract now who j db))) = find_by mct_id i (dk_contracts db)"
    "last_suspension i (snd (suspend_contract now who j db)) = last_suspension i db"
    "find_by mct_id i (dk_contracts (snd (resume_contract now who j db))) = find_by mct_id i (dk_contracts db)"
    "last_suspension i (snd (resume_contract now who j db)) = last_suspension i db"
    using assms
    by (auto simp: suspend_contract_def resume_contract_def suspend_write_def resume_write_def update_contract_def upd Let_def
        last_suspension_def record_event_def mail_team_def split: sum.splits)
qed

lemma sync_keeps_staff_suspension:
  assumes ids: "uniq mct_id (dk_contracts db)" and c: "find_by mct_id i (dk_contracts db) = Some c" "mct_status c = CSuspended"
    and staff: "\<not> job_suspended i db"
  shows "find_by mct_id i (dk_contracts (syncWithTeamStatus now db)) = Some c"
proof -
  have one: "find_by mct_id i (dk_contracts (fold (\<lambda>c d. snd (suspend_contract now None (mct_id c) d)) cs d)) = find_by mct_id i (dk_contracts d)
      \<and> last_suspension i (fold (\<lambda>c d. snd (suspend_contract now None (mct_id c) d)) cs d) = last_suspension i d"
    if "\<forall>x\<in>set cs. mct_id x \<noteq> i" for cs d
    using that by (induction cs arbitrary: d) (simp_all add: other_contract)
  have two: "find_by mct_id i (dk_contracts (fold (\<lambda>c d. if job_suspended (mct_id c) d then snd (resume_contract now None (mct_id c) d) else d) cs d))
      = find_by mct_id i (dk_contracts d)" if "\<not> job_suspended i d" for cs d
    using that
  proof (induction cs arbitrary: d)
    case (Cons x cs)
    have "find_by mct_id i (dk_contracts e) = find_by mct_id i (dk_contracts d) \<and> \<not> job_suspended i e"
      if "e = (if job_suspended (mct_id x) d then snd (resume_contract now None (mct_id x) d) else d)" for e
      using that Cons.prems other_contract [of "mct_id x" i] by (cases "mct_id x = i") (auto simp: job_suspended_def)
    then show ?case using Cons.IH by simp
  qed simp
  have "\<forall>x\<in>set (filter (\<lambda>c. mct_status c \<in> {CActive, COnboarding} \<and> team_has AccSuspended db c) (dk_contracts db)). mct_id x \<noteq> i"
    using c find_by_Some [OF c(1)] uniq_inj [OF ids] by fastforce
  note first = one [OF this, of db]
  have "\<not> job_suspended i (fold (\<lambda>c d. snd (suspend_contract now None (mct_id c) d))
      (filter (\<lambda>c. mct_status c \<in> {CActive, COnboarding} \<and> team_has AccSuspended db c) (dk_contracts db)) db)"
    using first staff unfolding job_suspended_def by simp
  from two [OF this] first c(1) show ?thesis unfolding syncWithTeamStatus_def Let_def by simp
qed

section \<open>The end of a contract\<close>

definition access_revoked :: "id \<Rightarrow> desk \<Rightarrow> bool" where
  "access_revoked i db \<longleftrightarrow>
     list_all (\<lambda>t. mtk_contractId t = i \<longrightarrow> \<not> mtk_enabled t \<and> mtk_nextRunAt t = None) (dk_tasks db)
     \<and> list_all (\<lambda>a. mas_contractId a = i \<longrightarrow> \<not> mas_monitoringEnabled a \<and> mas_heartbeatTokenHash a = None) (dk_assets db)
     \<and> list_all (\<lambda>a. mal_contractId a = i \<longrightarrow> mal_status a = AlResolved) (dk_alerts db)"

lemma access_revoked_frames [simp]:
  "access_revoked i (record_event n j t w now db) = access_revoked i db"
  "access_revoked i (mail_team t k db) = access_revoked i db"
  "access_revoked i (update_contract j f db) = access_revoked i db"
  "access_revoked i (db\<lparr>dk_contracts := cs\<rparr>) = access_revoked i db"
  by (simp_all add: access_revoked_def record_event_def mail_team_def update_contract_def)

lemma revoke_access_revokes: "access_revoked i (revoke_access now i t db)"
  by (auto simp: revoke_access_def access_revoked_def record_event_def list_all_iff ball_update_where)

lemma endContract_revokes: "endContract now who c k reason db = (True, db') \<Longrightarrow> access_revoked (mct_id c) db'"
  by (auto simp: endContract_def Let_def revoke_access_revokes split: prod.splits if_splits)

lemma cancel_contract_ends:
  assumes "uniq mct_id (dk_contracts db)" "find_by mct_id i (dk_contracts db) = Some c" "mct_status c \<noteq> CCancelled"
  shows "\<exists>db'. cancel_contract now who i reason db
      = (Inr (c\<lparr>mct_status := CCancelled, mct_cancelledAt := Some now, mct_cancelReason := reason\<rparr>), db')
    \<and> access_revoked i db' \<and> dk_contracts db' = map (\<lambda>r. if r = c then c\<lparr>mct_status := CCancelled, mct_cancelledAt := Some now, mct_cancelReason := reason\<rparr> else r) (dk_contracts db)"
proof -
  let ?c = "c\<lparr>mct_status := CCancelled, mct_cancelledAt := Some now, mct_cancelReason := reason\<rparr>"
  have c: "c \<in> set (dk_contracts db)" "mct_id c = i" using find_by_Some [OF assms(2)] by simp_all
  note one = update_one_row(1) [OF assms(1) c(1), of "\<lambda>r. mct_id r = mct_id c \<and> mct_status r \<noteq> CCancelled"
      "\<lambda>r. r\<lparr>mct_status := CCancelled, mct_cancelledAt := Some now, mct_cancelReason := reason\<rparr>"]
    update_one_row(2) [OF assms(1) c(1), of "\<lambda>r. mct_id r = mct_id c \<and> mct_status r \<noteq> CCancelled"]
  have rows: "update_where (\<lambda>r. mct_id r = mct_id c \<and> mct_status r \<noteq> CCancelled)
      (\<lambda>r. r\<lparr>mct_status := CCancelled, mct_cancelledAt := Some now, mct_cancelReason := reason\<rparr>) (dk_contracts db)
      = map (\<lambda>r. if r = c then ?c else r) (dk_contracts db)"
    and cnt: "count_where (\<lambda>r. mct_id r = mct_id c \<and> mct_status r \<noteq> CCancelled) (dk_contracts db) = 1"
    using one assms(3) by simp_all
  have "find_by mct_id i (map (\<lambda>r. if r = c then ?c else r) (dk_contracts db)) = Some ?c"
    using find_by_update_where [of "\<lambda>r. mct_id r = mct_id c \<and> mct_status r \<noteq> CCancelled" mct_id
        "\<lambda>r. r\<lparr>mct_status := CCancelled, mct_cancelledAt := Some now, mct_cancelReason := reason\<rparr>" i "dk_contracts db"] rows assms(2,3) c(2) by simp
  then show ?thesis using assms(2,3) c(2) rows cnt
    by (simp add: cancel_contract_def load_contract_def endContract_def move_contract_def Let_def revoke_access_revokes)
qed

text \<open>
  A suspension that read the contract before it was cancelled and writes after it: the write by id
  does not test the status.
\<close>

lemma stale_suspension_revives:
  fixes now later later' :: instant and who :: actor and who' :: "actor option" and reason :: "string option"
  assumes "uniq mct_id (dk_contracts db)" "find_by mct_id i (dk_contracts db) = Some c" "mct_status c = CActive" "mct_activatedAt c \<noteq> None"
  defines "db1 \<equiv> snd (cancel_contract now who i reason db)"
  defines "db2 \<equiv> suspend_write later None c db1"
  shows "contract_status_of i db1 = Some CCancelled" "access_revoked i db1"
    "contract_status_of i db2 = Some CSuspended"
    "contract_status_of i (snd (resume_contract later' who' i db2)) = Some CActive"
    "access_revoked i (snd (resume_contract later' who' i db2))"
proof -
  let ?c = "c\<lparr>mct_status := CCancelled, mct_cancelledAt := Some now, mct_cancelReason := reason\<rparr>"
  have id: "mct_id c = i" using find_by_Some [OF assms(2)] by simp
  from cancel_contract_ends [OF assms(1,2), of now who reason] assms(3) obtain db' where
    "cancel_contract now who i reason db = (Inr ?c, db')" "access_revoked i db'" by fastforce
  moreover have "load_contract i db' = Inr ?c" if "cancel_contract now who i reason db = (Inr ?c, db')"
    using that assms(2,3) by (auto simp: cancel_contract_def Let_def split: sum.splits prod.splits if_splits)
  ultimately have 1: "find_by mct_id i (dk_contracts db1) = Some ?c" "access_revoked i db1"
    by (simp_all add: db1_def load_contract_Inr)
  then show "contract_status_of i db1 = Some CCancelled" "access_revoked i db1" by (simp_all add: contract_status_of_def)
  let ?s = "?c\<lparr>mct_status := CSuspended, mct_suspendedAt := Some later\<rparr>"
  have 2: "find_by mct_id i (dk_contracts db2) = Some ?s" "access_revoked i db2"
    using 1 id by (simp_all add: db2_def suspend_write_def update_contract_def find_by_update_where)
  then show "contract_status_of i db2 = Some CSuspended" by (simp add: contract_status_of_def)
  show "contract_status_of i (snd (resume_contract later' who' i db2)) = Some CActive"
    "access_revoked i (snd (resume_contract later' who' i db2))"
    using 2 id assms(4)
    by (simp_all add: resume_contract_def load_contract_def resume_write_def update_contract_def find_by_update_where
        contract_status_of_def resumed_status_def Let_def)
qed

section \<open>Cancellations that are never carried out\<close>

text \<open>
  A contract that is suspended before it was activated can be given a cancellation date, and comes
  back to onboarding with it: the daily job leaves it alone and the owner cannot withdraw it.
\<close>

lemma onboarding_cancellation_ignored:
  assumes "find_by mct_id i (dk_contracts db) = Some c" "mct_status c = COnboarding"
  shows "\<not> renewal_due now c" "termDecision (term_of c) now = Some DNone"
    "uniq mct_id (dk_contracts db) \<Longrightarrow> fst (undoCancelForTeam now who i db) \<noteq> Inr c'"
proof -
  show "\<not> renewal_due now c" "termDecision (term_of c) now = Some DNone"
    using assms(2) by (simp_all add: renewal_due_def termDecision_def term_of_def)
  assume u: "uniq mct_id (dk_contracts db)"
  have none: "count_where (\<lambda>r. mct_id r = i \<and> mct_status r \<in> {CActive, CSuspended} \<and> mct_cancelAt r \<noteq> None \<and> \<not> by_now now (mct_cancelAt r)) (dk_contracts db) = 0"
    using uniq_inj [OF u] assms find_by_Some [OF assms(1)] by (force simp: count_where_0_iff)
  show "fst (undoCancelForTeam now who i db) \<noteq> Inr c'"
    unfolding undoCancelForTeam_def move_contract_def none by (simp split: sum.splits)
qed

section \<open>Signing\<close>

lemma activation_rule:
  assumes "activate_contract newId now who i dto db = (Inr c', db')"
  shows "\<exists>c. find_by mct_id i (dk_contracts db) = Some c \<and> mct_status c = CDraft
    \<and> (mct_priceOverrideMinor c \<noteq> None \<or> mpl_priceMinor (mct_plan c) \<noteq> None)
    \<and> (mpl_coverage (mct_plan c) = TwentyFourSeven \<longrightarrow> 2 \<le> onCallPeople now 14 db \<or> mct_onCallOverride c')
    \<and> mct_status c' = COnboarding \<and> mct_signedById c' = Some (a_userId who)"
proof (cases "load_contract i db")
  case (Inr c)
  then have c: "find_by mct_id i (dk_contracts db) = Some c" "mct_id c = i"
    using find_by_Some by (fastforce simp: load_contract_Inr)+
  obtain t fx where t: "terms_of c now now (dk_fx db) = (t, fx)" by fastforce
  have d: "mct_status c = CDraft" using assms Inr by (auto simp: activate_contract_def split: if_splits)
  have fee: "trm_monthlyFeeMinor t \<noteq> None \<Longrightarrow> mct_priceOverrideMinor c \<noteq> None \<or> mpl_priceMinor (mct_plan c) \<noteq> None"
    using t by (auto simp: terms_of_def Let_def split: option.splits prod.splits)
  have "trm_monthlyFeeMinor t \<noteq> None" and ovr: "\<not> (understaffed (on_call_count now c db) \<and> \<not> acd_overrideOnCallRule dto)"
    using assms Inr d t by (auto simp: activate_contract_def Let_def split: if_splits prod.splits)
  moreover have "c' = sign_contract now who dto (acd_overrideOnCallRule dto \<and> understaffed (on_call_count now c db)) c"
    using assms Inr d t c calculation
    by (auto simp: activate_contract_def Let_def move_contract_def load_contract_def find_by_update_where sign_contract_def split: if_splits)
  ultimately show ?thesis using c d fee
    by (auto simp: sign_contract_def understaffed_def on_call_count_def split: if_splits)
qed (use assms in \<open>simp add: activate_contract_def\<close>)

end
