(* ===== verification/Timers.thy ===== *)
theory Timers
  imports JS_Number JS_String
begin

text \<open>
  Work timers of engineers (\<^verbatim>\<open>src/apps/api/src/modules/ops/timers/timers.service.ts\<close>): start, stop,
  activity, the idle prompt and the idle stop, and the minutes of terminal sessions in a window.

  An operation that reads a row and writes later takes what it read as the argument \<open>seen\<close>, so
  that other operations may come between.  The partial unique index on running timers (migration
  \<^verbatim>\<open>20260929101000_ops_timers\<close>) makes \<open>start\<close> fail; the transaction of \<open>stop\<close> claims the row.
\<close>

section \<open>State\<close>

record work_timer =
  wt_id :: id
  wt_userId :: id
  wt_engineerId :: "id option"
  wt_contractId :: id
  wt_ticketId :: "id option"
  wt_maintenanceRunId :: "id option"
  wt_note :: "string option"
  wt_startedAt :: instant
  wt_lastActivityAt :: instant
  wt_promptedAt :: "instant option"
  wt_stoppedAt :: "instant option"
  wt_stopReason :: "string option"
  wt_workLogId :: "id option"

record timer_log =
  tl_id :: id
  tl_contractId :: id
  tl_ticketId :: "id option"
  tl_maintenanceRunId :: "id option"
  tl_userId :: id
  tl_engineerId :: "id option"
  tl_minutes :: int
  tl_billable :: bool
  tl_note :: "string option"
  tl_startedAt :: instant
  tl_endedAt :: instant
  tl_sessionMinutes :: int
  tl_flagged :: bool

record terminal_session =
  ts_userId :: id
  ts_startedAt :: "instant option"
  ts_endedAt :: "instant option"

datatype ticket_status = TkOpen | TkAnswered | TkClosed | TkResolvedPendingPm

record timer_refs =
  tr_tickets :: "(id \<times> ticket_status \<times> id option) list"
  tr_runs :: "(id \<times> id) list"

record timers_state =
  tms_timers :: "work_timer list"
  tms_logs :: "timer_log list"

record start_dto =
  sd_ticketId :: "string option"
  sd_maintenanceRunId :: "string option"
  sd_note :: "string option"

section \<open>Minutes\<close>

text \<open>Whole minutes between two instants, at least one.\<close>
definition billedMinutes :: "instant \<Rightarrow> instant \<Rightarrow> int" where
  "billedMinutes from to = max 1 \<lceil>js_div (of_int (to - from)) 60000\<rceil>"

definition in_window :: "id \<Rightarrow> instant \<Rightarrow> instant \<Rightarrow> terminal_session \<Rightarrow> bool" where
  "in_window userId from to s \<longleftrightarrow>
     ts_userId s = userId \<and> (case ts_startedAt s of None \<Rightarrow> False | Some b \<Rightarrow> b < to)
     \<and> (case ts_endedAt s of None \<Rightarrow> True | Some e \<Rightarrow> from < e)"

definition clipped_span :: "instant \<Rightarrow> instant \<Rightarrow> instant \<Rightarrow> terminal_session \<Rightarrow> instant \<times> instant" where
  "clipped_span now from to s =
     (max (the (ts_startedAt s)) from, min (case ts_endedAt s of None \<Rightarrow> now | Some e \<Rightarrow> e) to)"

definition session_spans :: "instant \<Rightarrow> id \<Rightarrow> instant \<Rightarrow> instant \<Rightarrow> terminal_session list \<Rightarrow> (instant \<times> instant) list" where
  "session_spans now userId from to rows =
     sort_key fst (filter (\<lambda>(a, b). a < b) (map (clipped_span now from to) (filter (in_window userId from to) rows)))"

text \<open>The sweep: the cursor starts below every span.\<close>
fun sweep :: "(instant \<times> instant) list \<Rightarrow> instant option \<Rightarrow> int" where
  "sweep [] cursor = 0"
| "sweep ((a, b) # spans) cursor =
     (let from = (case cursor of None \<Rightarrow> a | Some c \<Rightarrow> max a c);
          next_cursor = (case cursor of None \<Rightarrow> b | Some c \<Rightarrow> max c b)
      in (if from < b then b - from else 0) + sweep spans (Some next_cursor))"

definition sessionMinutes :: "instant \<Rightarrow> id \<Rightarrow> instant \<Rightarrow> instant \<Rightarrow> terminal_session list \<Rightarrow> int" where
  "sessionMinutes now userId from to rows =
     js_round (js_div (of_int (sweep (session_spans now userId from to rows) None)) 60000)"

section \<open>Operations\<close>

definition running :: "work_timer \<Rightarrow> bool" where "running t \<longleftrightarrow> wt_stoppedAt t = None"

definition current :: "id \<Rightarrow> work_timer list \<Rightarrow> work_timer option" where
  "current userId timers = List.find (\<lambda>t. wt_userId t = userId \<and> running t) timers"

definition truthy_text :: "string option \<Rightarrow> bool" where
  "truthy_text s \<longleftrightarrow> (case s of None \<Rightarrow> False | Some x \<Rightarrow> x \<noteq> [])"

definition timer_running :: error where "timer_running = conflict ''timer_running''"

definition not_found_js :: error where "not_found_js = JsError ''NotFoundError''"

text \<open>The contract the timer counts for; the column of a ticket may be empty.\<close>
definition timer_contract :: "timer_refs \<Rightarrow> start_dto \<Rightarrow> id option result" where
  "timer_contract refs dto =
     (if truthy_text (sd_ticketId dto) = truthy_text (sd_maintenanceRunId dto) then Inl invalid
      else if truthy_text (sd_ticketId dto) then
        (case map_of (tr_tickets refs) (the (sd_ticketId dto)) of
           None \<Rightarrow> Inl not_found_js
         | Some (status, contract) \<Rightarrow> if status \<in> {TkClosed, TkResolvedPendingPm} then Inl invalidState else Inr contract)
      else (case map_of (tr_runs refs) (the (sd_maintenanceRunId dto)) of
              None \<Rightarrow> Inl not_found_js
            | Some contract \<Rightarrow> Inr (Some contract)))"

definition new_timer :: "id \<Rightarrow> id option \<Rightarrow> id \<Rightarrow> start_dto \<Rightarrow> id \<Rightarrow> instant \<Rightarrow> work_timer" where
  "new_timer userId engineerId contract dto newId now =
     \<lparr> wt_id = newId, wt_userId = userId, wt_engineerId = engineerId, wt_contractId = contract,
       wt_ticketId = sd_ticketId dto, wt_maintenanceRunId = sd_maintenanceRunId dto, wt_note = sd_note dto,
       wt_startedAt = now, wt_lastActivityAt = now, wt_promptedAt = None, wt_stoppedAt = None,
       wt_stopReason = None, wt_workLogId = None \<rparr>"

text \<open>
  Inserting fails on the unique index, and on the columns that refer to other tables when they are
  empty; every failure is reported as a running timer.
\<close>
definition start_timer ::
  "timer_refs \<Rightarrow> id \<Rightarrow> id option \<Rightarrow> start_dto \<Rightarrow> id \<Rightarrow> instant \<Rightarrow> work_timer list \<Rightarrow> timers_state \<Rightarrow> work_timer result \<times> timers_state" where
  "start_timer refs userId engineerId dto newId now seen st =
     (case timer_contract refs dto of
        Inl e \<Rightarrow> (Inl e, st)
      | Inr contract \<Rightarrow>
          if current userId seen \<noteq> None then (Inl timer_running, st)
          else if current userId (tms_timers st) \<noteq> None \<or> contract = None
                  \<or> sd_ticketId dto = Some [] \<or> sd_maintenanceRunId dto = Some [] then (Inl timer_running, st)
          else (let t = new_timer userId engineerId (the contract) dto newId now
                in (Inr t, st\<lparr> tms_timers := tms_timers st @ [t] \<rparr>)))"

datatype stop_reason = Manual | Idle | Offboarded

definition reason_text :: "stop_reason \<Rightarrow> string" where
  "reason_text r = (case r of Manual \<Rightarrow> ''manual'' | Idle \<Rightarrow> ''idle'' | Offboarded \<Rightarrow> ''offboarded'')"

definition stop_end :: "stop_reason \<Rightarrow> work_timer \<Rightarrow> instant \<Rightarrow> instant" where
  "stop_end reason t now =
     (if reason = Idle then max (wt_lastActivityAt t) (wt_startedAt t + 60000) else now)"

definition timer_log_of ::
  "work_timer \<Rightarrow> string option \<Rightarrow> bool option \<Rightarrow> stop_reason \<Rightarrow> terminal_session list \<Rightarrow> id \<Rightarrow> instant \<Rightarrow> timer_log" where
  "timer_log_of t n billable reason sessions logId now =
     (let e = stop_end reason t now in
      \<lparr> tl_id = logId, tl_contractId = wt_contractId t, tl_ticketId = wt_ticketId t,
        tl_maintenanceRunId = wt_maintenanceRunId t, tl_userId = wt_userId t, tl_engineerId = wt_engineerId t,
        tl_minutes = billedMinutes (wt_startedAt t) e, tl_billable = (case billable of None \<Rightarrow> True | Some b \<Rightarrow> b),
        tl_note = (case n of None \<Rightarrow> wt_note t | Some x \<Rightarrow> Some x), tl_startedAt = wt_startedAt t, tl_endedAt = e,
        tl_sessionMinutes = sessionMinutes now (wt_userId t) (wt_startedAt t) e sessions, tl_flagged = (reason = Idle) \<rparr>)"

definition claimable :: "id \<Rightarrow> work_timer \<Rightarrow> bool" where
  "claimable i t \<longleftrightarrow> wt_id t = i \<and> running t"

definition stop_timer ::
  "id \<Rightarrow> string option \<Rightarrow> bool option \<Rightarrow> stop_reason \<Rightarrow> terminal_session list \<Rightarrow> id \<Rightarrow> instant
     \<Rightarrow> work_timer list \<Rightarrow> timers_state \<Rightarrow> timer_log result \<times> timers_state" where
  "stop_timer userId n billable reason sessions logId now seen st =
     (case current userId seen of
        None \<Rightarrow> (Inl invalidState, st)
      | Some t \<Rightarrow>
          if count_where (claimable (wt_id t)) (tms_timers st) = 0 then (Inl invalidState, st)
          else (let log = timer_log_of t n billable reason sessions logId now
                in (Inr log,
                    st\<lparr> tms_timers :=
                          update_where (claimable (wt_id t))
                            (\<lambda>r. r\<lparr> wt_stoppedAt := Some now, wt_stopReason := Some (reason_text reason), wt_workLogId := Some logId \<rparr>)
                            (tms_timers st),
                        tms_logs := tms_logs st @ [log] \<rparr>)))"

definition activity :: "id \<Rightarrow> instant \<Rightarrow> timers_state \<Rightarrow> timers_state" where
  "activity userId now st =
     st\<lparr> tms_timers := update_where (\<lambda>t. wt_userId t = userId \<and> running t)
           (\<lambda>t. t\<lparr> wt_lastActivityAt := now, wt_promptedAt := None \<rparr>) (tms_timers st) \<rparr>"

datatype idle_plan = PlanStopped | PlanRunning bool instant instant

definition idlePlan :: "int \<Rightarrow> int \<Rightarrow> id \<Rightarrow> timers_state \<Rightarrow> idle_plan" where
  "idlePlan promptSeconds stopSeconds timerId st =
     (case find_by wt_id timerId (tms_timers st) of
        None \<Rightarrow> PlanStopped
      | Some t \<Rightarrow>
          if \<not> running t then PlanStopped
          else PlanRunning (wt_promptedAt t \<noteq> None) (wt_lastActivityAt t + promptSeconds * 1000)
                 (wt_lastActivityAt t + stopSeconds * 1000))"

datatype idle_answer = Prompted | StillActive | AlreadyStopped

text \<open>\<open>mailed\<close> says whether the notification went out; a failed page is only logged.\<close>
definition idlePrompt :: "bool \<Rightarrow> int \<Rightarrow> int \<Rightarrow> id \<Rightarrow> instant \<Rightarrow> timers_state \<Rightarrow> idle_answer result \<times> timers_state" where
  "idlePrompt mailed promptSeconds stopSeconds timerId now st =
     (case idlePlan promptSeconds stopSeconds timerId st of
        PlanStopped \<Rightarrow> (Inr AlreadyStopped, st)
      | PlanRunning _ promptAt _ \<Rightarrow>
          if now < promptAt then (Inr StillActive, st)
          else (if mailed then Inr Prompted else Inl (JsError ''mail''),
                st\<lparr> tms_timers := update_where (\<lambda>t. wt_id t = timerId) (\<lambda>t. t\<lparr> wt_promptedAt := Some now \<rparr>) (tms_timers st) \<rparr>))"

definition idleStop ::
  "int \<Rightarrow> int \<Rightarrow> id \<Rightarrow> terminal_session list \<Rightarrow> id \<Rightarrow> instant \<Rightarrow> timers_state \<Rightarrow> idle_answer \<times> timers_state" where
  "idleStop promptSeconds stopSeconds timerId sessions logId now st =
     (case idlePlan promptSeconds stopSeconds timerId st of
        PlanStopped \<Rightarrow> (AlreadyStopped, st)
      | PlanRunning _ _ stopAt \<Rightarrow>
          if now < stopAt then (StillActive, st)
          else (AlreadyStopped,
                (case find_by wt_id timerId (tms_timers st) of
                   None \<Rightarrow> st
                 | Some t \<Rightarrow> snd (stop_timer (wt_userId t) None None Idle sessions logId now (tms_timers st) st))))"

section \<open>Overlapping sessions are counted once\<close>

text \<open>The milliseconds some span covers, from the cursor on.\<close>
definition covered :: "(instant \<times> instant) list \<Rightarrow> int set" where
  "covered spans = (\<Union>(a, b)\<in>set spans. {a..<b})"

lemma covered_simps [simp]: "covered [] = {}" "covered ((a, b) # spans) = {a..<b} \<union> covered spans"
  by (simp_all add: covered_def)

lemma finite_covered [simp]: "finite (covered spans)"
  by (auto simp: covered_def)

lemma sweep_from:
  assumes "sorted (map fst spans)"
  shows "sweep spans (Some c) = int (card (covered spans \<inter> {c..}))"
  using assms
proof (induction spans arbitrary: c)
  case (Cons x spans)
  obtain a b where x: "x = (a, b)" by (cases x)
  have later: "\<forall>y\<in>covered spans. a \<le> y"
  proof
    fix y assume "y \<in> covered spans"
    then obtain p where p: "p \<in> set spans" "fst p \<le> y" by (auto simp: covered_def)
    then show "a \<le> y" using Cons.prems x by (auto simp: image_iff)
  qed
  have ih: "sweep spans (Some (max c b)) = int (card (covered spans \<inter> {max c b..}))"
    using Cons by simp
  have split: "covered (x # spans) \<inter> {c..} = {max a c..<b} \<union> (covered spans \<inter> {max c b..})"
    using later x by (auto simp: max_def)
  have "card (covered (x # spans) \<inter> {c..}) = card {max a c..<b} + card (covered spans \<inter> {max c b..})"
    unfolding split by (rule card_Un_disjoint) auto
  then show ?case using ih x by (auto simp: Let_def max_def)
qed simp

lemma sweep_covered:
  assumes "sorted (map fst spans)" "\<forall>(a, b)\<in>set spans. a < b"
  shows "sweep spans None = int (card (covered spans))"
proof (cases spans)
  case (Cons x rest)
  obtain a b where x: "x = (a, b)" by (cases x)
  have "\<forall>y\<in>covered spans. a \<le> y"
  proof
    fix y assume "y \<in> covered spans"
    then obtain p where "p \<in> set spans" "fst p \<le> y" by (auto simp: covered_def)
    then show "a \<le> y" using assms(1) x Cons by (auto simp: image_iff)
  qed
  then have "covered spans \<inter> {a..} = covered spans" by auto
  moreover have "sweep spans None = sweep spans (Some a)" using assms(2) x Cons by (simp add: Let_def max_def)
  ultimately show ?thesis using sweep_from [OF assms(1), of a] by simp
qed simp

text \<open>The instants of the window at which a terminal session of the engineer was open.\<close>
definition session_time :: "instant \<Rightarrow> id \<Rightarrow> instant \<Rightarrow> instant \<Rightarrow> terminal_session list \<Rightarrow> int set" where
  "session_time now userId from to rows =
     {x. from \<le> x \<and> x < to \<and> (\<exists>s\<in>set rows. ts_userId s = userId
          \<and> (\<exists>b. ts_startedAt s = Some b \<and> b \<le> x) \<and> x < (case ts_endedAt s of None \<Rightarrow> now | Some e \<Rightarrow> e))}"

lemma covered_session_spans: "covered (session_spans now userId from to rows) = session_time now userId from to rows"
  (is "?l = ?r")
proof
  show "?l \<subseteq> ?r"
    by (auto simp: covered_def session_spans_def session_time_def in_window_def clipped_span_def split: option.splits)
  show "?r \<subseteq> ?l"
  proof
    fix x assume "x \<in> ?r"
    then obtain s b where s: "s \<in> set rows" "ts_userId s = userId" "ts_startedAt s = Some b" "b \<le> x"
        "x < (case ts_endedAt s of None \<Rightarrow> now | Some e \<Rightarrow> e)" and x: "from \<le> x" "x < to"
      by (auto simp: session_time_def)
    have "in_window userId from to s" using s x by (auto simp: in_window_def split: option.splits)
    moreover have "fst (clipped_span now from to s) \<le> x" "x < snd (clipped_span now from to s)"
      using s x by (auto simp: clipped_span_def)
    ultimately show "x \<in> ?l" using s(1)
      by (force simp: covered_def session_spans_def intro!: bexI [of _ "clipped_span now from to s"])
  qed
qed

theorem sweep_session_spans:
  "sweep (session_spans now userId from to rows) None = int (card (session_time now userId from to rows))"
proof -
  have "sorted (map fst (session_spans now userId from to rows))" by (simp add: session_spans_def)
  moreover have "\<forall>(a, b)\<in>set (session_spans now userId from to rows). a < b" by (auto simp: session_spans_def)
  ultimately show ?thesis by (simp add: sweep_covered covered_session_spans)
qed

lemma session_time_card: "int (card (session_time now userId from to rows)) \<le> max 0 (to - from)"
proof -
  have "session_time now userId from to rows \<subseteq> {from..<to}" by (auto simp: session_time_def)
  then have "card (session_time now userId from to rows) \<le> card {from..<to}" by (intro card_mono) simp_all
  then show ?thesis by simp
qed

text \<open>Session minutes never exceed the minutes billed for the window.\<close>
theorem sessionMinutes_le_billed:
  assumes "from \<le> to"
  shows "0 \<le> sessionMinutes now userId from to rows" "sessionMinutes now userId from to rows \<le> billedMinutes from to"
proof -
  let ?n = "int (card (session_time now userId from to rows))"
  have "sessionMinutes now userId from to rows = js_round (js_div (of_int ?n) 60000)"
    by (simp only: sessionMinutes_def sweep_session_spans)
  moreover have "0 \<le> js_div (of_int ?n) 60000" by (rule js_div_nonneg) simp_all
  moreover have "js_div (of_int ?n) 60000 \<le> js_div (of_int (to - from)) 60000"
  proof (rule js_div_mono)
    have "?n \<le> to - from" using session_time_card [of now userId "from" to rows] assms by simp
    then show "(of_int ?n :: rat) \<le> of_int (to - from)" by (rule of_int_le_iff [THEN iffD2])
  qed simp
  moreover have "js_round x \<le> \<lceil>x\<rceil>" for x :: rat unfolding js_round_def by linarith
  ultimately show "0 \<le> sessionMinutes now userId from to rows" "sessionMinutes now userId from to rows \<le> billedMinutes from to"
    unfolding billedMinutes_def by (auto intro: js_round_nonneg order_trans [OF _ ceiling_mono] simp: le_max_iff_disj)
qed

theorem billedMinutes_bounds:
  assumes "from < to" "to - from \<le> 2 ^ 53"
  shows "1 \<le> billedMinutes from to" "(billedMinutes from to - 1) * 60000 < to - from" "(to - from) div 60000 \<le> billedMinutes from to"
proof -
  let ?q = "of_int (to - from) / 60000 :: rat"
  have q: "0 < ?q" "?q \<le> of_int (to - from)" using assms(1) by (simp_all add: field_simps)
  moreover have "(of_int (to - from) :: rat) \<le> of_int (2 ^ 53)" using assms(2) by (rule of_int_le_iff [THEN iffD2])
  ultimately have "\<bar>?q\<bar> \<le> 2 ^ 53" by simp
  note fc = dbl.between_floor_ceiling [OF this]
  then have up: "\<lceil>js_div (of_int (to - from)) 60000\<rceil> \<le> \<lceil>?q\<rceil>" by (simp add: js_div_def ceiling_le_iff)
  have low: "\<lfloor>?q\<rfloor> \<le> \<lceil>js_div (of_int (to - from)) 60000\<rceil>" using fc by (simp add: js_div_def le_ceiling_iff)
  show "1 \<le> billedMinutes from to" by (simp add: billedMinutes_def)
  have "of_int (\<lceil>?q\<rceil> - 1) < ?q" by linarith
  then have "of_int ((\<lceil>?q\<rceil> - 1) * 60000) < (of_int (to - from) :: rat)" by (simp add: field_simps)
  then have c: "(\<lceil>?q\<rceil> - 1) * 60000 < to - from" by (simp only: of_int_less_iff)
  have "1 \<le> \<lceil>?q\<rceil>" using q(1) by linarith
  then have "billedMinutes from to \<le> \<lceil>?q\<rceil>" using up by (simp add: billedMinutes_def)
  then have "(billedMinutes from to - 1) * 60000 \<le> (\<lceil>?q\<rceil> - 1) * 60000" by (intro mult_right_mono) simp_all
  then show "(billedMinutes from to - 1) * 60000 < to - from" using c by (rule le_less_trans)
  have "\<lfloor>?q\<rfloor> = (to - from) div 60000" using floor_divide_of_int_eq [where ?'a = rat, of "to - from" 60000] by simp
  then show "(to - from) div 60000 \<le> billedMinutes from to" using low by (simp add: billedMinutes_def)
qed

section \<open>One running timer per engineer, one work log per stopped timer\<close>

definition one_running :: "work_timer list \<Rightarrow> bool" where
  "one_running ts \<longleftrightarrow> (\<forall>t\<in>set ts. \<forall>u\<in>set ts. running t \<and> running u \<and> wt_userId t = wt_userId u \<longrightarrow> t = u)"

definition timers_ok :: "timers_state \<Rightarrow> bool" where
  "timers_ok st \<longleftrightarrow>
     uniq wt_id (tms_timers st)
     \<and> one_running (tms_timers st)
     \<and> (\<forall>t\<in>set (tms_timers st). running t \<longleftrightarrow> wt_workLogId t = None)
     \<and> int (length (tms_logs st)) = sum_by (\<lambda>t. if running t then 0 else 1) (tms_timers st)"

text \<open>Changing columns of running timers other than those the invariant mentions.\<close>
definition touches_activity :: "(work_timer \<Rightarrow> work_timer) \<Rightarrow> bool" where
  "touches_activity f \<longleftrightarrow>
     (\<forall>t. wt_id (f t) = wt_id t \<and> wt_userId (f t) = wt_userId t \<and> running (f t) = running t \<and> wt_workLogId (f t) = wt_workLogId t)"

lemma sum_by_update_same: "(\<And>r. p r \<Longrightarrow> g (f r) = g r) \<Longrightarrow> sum_by g (update_where p f rows) = sum_by g rows"
  by (simp add: sum_by_def map_update_where)

lemma one_running_update:
  assumes "one_running ts" "\<And>t. p t \<Longrightarrow> running (f t) \<Longrightarrow> running t \<and> wt_userId (f t) = wt_userId t"
  shows "one_running (update_where p f ts)"
  unfolding one_running_def
proof (intro ballI impI)
  fix t u assume t: "t \<in> set (update_where p f ts)" and u: "u \<in> set (update_where p f ts)"
    and run: "running t \<and> running u \<and> wt_userId t = wt_userId u"
  obtain s where s: "s \<in> set ts" "t = (if p s then f s else s)" using t by (auto simp: in_update_where)
  obtain v where v: "v \<in> set ts" "u = (if p v then f v else v)" using u by (auto simp: in_update_where)
  have "running s" "wt_userId s = wt_userId t" using assms(2) [of s] s(2) run by (auto split: if_splits)
  moreover have "running v" "wt_userId v = wt_userId u" using assms(2) [of v] v(2) run by (auto split: if_splits)
  ultimately have "s = v" using assms(1) s(1) v(1) run unfolding one_running_def by metis
  then show "t = u" using s(2) v(2) by simp
qed

lemma timers_ok_touch:
  assumes "timers_ok st" "touches_activity f"
  shows "timers_ok (st\<lparr> tms_timers := update_where p f (tms_timers st) \<rparr>)"
proof -
  have f: "wt_id (f t) = wt_id t" "wt_userId (f t) = wt_userId t" "running (f t) = running t" "wt_workLogId (f t) = wt_workLogId t" for t
    using assms(2) by (simp_all add: touches_activity_def)
  have "uniq wt_id (update_where p f (tms_timers st))" using assms(1) by (simp add: uniq_update_where f timers_ok_def)
  moreover have "sum_by (\<lambda>t. if running t then 0 else 1 :: int) (update_where p f (tms_timers st))
      = sum_by (\<lambda>t. if running t then 0 else 1) (tms_timers st)" by (rule sum_by_update_same) (simp add: f)
  moreover have "one_running (update_where p f (tms_timers st))"
    by (rule one_running_update) (use assms(1) f in \<open>auto simp: timers_ok_def\<close>)
  ultimately show ?thesis using assms(1) unfolding timers_ok_def by (simp add: ball_update_where f)
qed

lemma current_None: "current u ts = None \<longleftrightarrow> (\<forall>t\<in>set ts. \<not> (wt_userId t = u \<and> running t))"
  by (auto simp: current_def find_None_iff)

lemma start_timer_ok:
  assumes "timers_ok st" "newId \<notin> wt_id ` set (tms_timers st)"
  shows "timers_ok (snd (start_timer refs u e dto newId now seen st))"
proof (cases "\<exists>t. fst (start_timer refs u e dto newId now seen st) = Inr t")
  case True
  then have "current u (tms_timers st) = None"
    and new: "\<exists>c. snd (start_timer refs u e dto newId now seen st) = st\<lparr> tms_timers := tms_timers st @ [new_timer u e c dto newId now] \<rparr>"
    unfolding start_timer_def Let_def by (auto split: sum.splits if_splits)
  then obtain c where c: "snd (start_timer refs u e dto newId now seen st) = st\<lparr> tms_timers := tms_timers st @ [new_timer u e c dto newId now] \<rparr>" by blast
  have "one_running (tms_timers st @ [new_timer u e c dto newId now])"
    using assms(1) \<open>current u (tms_timers st) = None\<close> unfolding timers_ok_def one_running_def current_None
    by (auto simp: new_timer_def)
  then show ?thesis using assms unfolding timers_ok_def c
    by (auto simp: uniq_def new_timer_def running_def)
next
  case False
  then have "snd (start_timer refs u e dto newId now seen st) = st"
    unfolding start_timer_def Let_def by (auto split: sum.splits if_splits)
  then show ?thesis using assms(1) by simp
qed

lemma stop_timer_ok:
  assumes ok: "timers_ok st"
  shows "timers_ok (snd (stop_timer u n b reason sessions logId now seen st))"
proof (cases "current u seen")
  case None
  then show ?thesis using ok by (simp add: stop_timer_def)
next
  case (Some t)
  show ?thesis
  proof (cases "count_where (claimable (wt_id t)) (tms_timers st) = 0")
    case True
    then show ?thesis using ok Some by (simp add: stop_timer_def)
  next
    case False
    then obtain r where r: "r \<in> set (tms_timers st)" "wt_id r = wt_id t" "running r"
      unfolding count_where_0_iff by (auto simp: claimable_def)
    let ?f = "\<lambda>r. r\<lparr> wt_stoppedAt := Some now, wt_stopReason := Some (reason_text reason), wt_workLogId := Some logId \<rparr>"
    have uniq: "uniq wt_id (tms_timers st)" using ok by (simp add: timers_ok_def)
    have same: "update_where (claimable (wt_id t)) ?f (tms_timers st) = update_where (\<lambda>s. wt_id s = wt_id r) ?f (tms_timers st)"
      unfolding update_where_def using r uniq by (auto simp: claimable_def dest: uniq_inj)
    have st': "snd (stop_timer u n b reason sessions logId now seen st)
       = st\<lparr> tms_timers := update_where (\<lambda>s. wt_id s = wt_id r) ?f (tms_timers st),
             tms_logs := tms_logs st @ [timer_log_of t n b reason sessions logId now] \<rparr>"
      using Some False by (simp add: stop_timer_def Let_def same)
    have "sum_by (\<lambda>t. if running t then 0 else 1 :: int) (update_where (\<lambda>s. wt_id s = wt_id r) ?f (tms_timers st))
       = sum_by (\<lambda>t. if running t then 0 else 1) (tms_timers st) + 1"
      using sum_by_update_row [OF uniq r(1), of "\<lambda>t. if running t then 0 else 1 :: int" ?f] r(3) by (simp add: running_def)
    moreover have "one_running (update_where (\<lambda>s. wt_id s = wt_id r) ?f (tms_timers st))"
      by (rule one_running_update) (use ok in \<open>auto simp: timers_ok_def running_def\<close>)
    ultimately show ?thesis using ok unfolding st' timers_ok_def
      by (simp add: uniq_update_where ball_update_where) (simp add: running_def)
  qed
qed

datatype timer_op = Start timer_refs id "id option" start_dto id instant "work_timer list"
  | Stop id "string option" "bool option" stop_reason "terminal_session list" id instant "work_timer list"
  | Active id instant | Prompt bool int int id instant | IdleStop int int id "terminal_session list" id instant

fun timer_step :: "timer_op \<Rightarrow> timers_state \<Rightarrow> timers_state" where
  "timer_step (Start refs u e dto newId now seen) st =
     (if newId \<in> wt_id ` set (tms_timers st) then st else snd (start_timer refs u e dto newId now seen st))"
| "timer_step (Stop u n b reason sessions logId now seen) st = snd (stop_timer u n b reason sessions logId now seen st)"
| "timer_step (Active u now) st = activity u now st"
| "timer_step (Prompt mailed p s i now) st = snd (idlePrompt mailed p s i now st)"
| "timer_step (IdleStop p s i sessions logId now) st = snd (idleStop p s i sessions logId now st)"

lemma timer_step_ok:
  assumes "timers_ok st"
  shows "timers_ok (timer_step op st)"
proof (cases op)
  case (Prompt mailed p s i now)
  have "timers_ok (st\<lparr> tms_timers := update_where (\<lambda>t. wt_id t = i) (\<lambda>t. t\<lparr> wt_promptedAt := Some now \<rparr>) (tms_timers st) \<rparr>)"
    by (rule timers_ok_touch [OF assms]) (simp add: touches_activity_def running_def)
  then show ?thesis using Prompt assms by (simp add: idlePrompt_def split: idle_plan.split)
next
  case (Active u now)
  then show ?thesis
    by (simp add: activity_def) (rule timers_ok_touch [OF assms], simp add: touches_activity_def running_def)
qed (use assms in \<open>simp_all add: start_timer_ok stop_timer_ok idleStop_def split: idle_plan.split option.split\<close>)

interpretation clock: guarded_system timers_ok timer_step
  by unfold_locales (rule timer_step_ok)

end
