(* ===== verification/Managed_Billing.thy ===== *)
theory Managed_Billing
  imports Contract_Life Timers
begin

text \<open>
  Monthly billing of managed contracts, \<open>managed/billing-hooks/managed-billing.service.ts\<close>: the plan
  fee, prorated by the time a contract was active, and the engineer minutes beyond the included
  ones, written as usage records that the invoice run bills.  The ids of new rows and the clock are
  arguments; a month is the half open interval of its first instant and the first of the next one.
\<close>

section \<open>Proration\<close>

definition span_end :: "instant \<Rightarrow> instant option \<Rightarrow> instant" where
  "span_end pe e = (case e of None \<Rightarrow> pe | Some t \<Rightarrow> t)"

text \<open>The suspensions clipped to the active interval, in the order of their start.\<close>

definition suspension_cuts :: "instant \<Rightarrow> instant \<times> instant \<Rightarrow> (instant \<times> instant option) list \<Rightarrow> (instant \<times> instant) list" where
  "suspension_cuts pe base suspensions =
     sort_key fst (filter (\<lambda>(a, b). a < b)
       (map (\<lambda>(a, e). (max (fst base) a, min (snd base) (span_end pe e))) suspensions))"

fun cut_loop :: "(instant \<times> instant) list \<Rightarrow> instant \<Rightarrow> int \<Rightarrow> int" where
  "cut_loop [] cursor billed = billed"
| "cut_loop ((a, b) # cuts) cursor billed =
     (let since = max a cursor
      in if since < b then cut_loop cuts b (billed - (b - since)) else cut_loop cuts cursor billed)"

definition billableFraction ::
  "instant \<Rightarrow> instant \<Rightarrow> instant \<Rightarrow> instant option \<Rightarrow> (instant \<times> instant option) list \<Rightarrow> rat" where
  "billableFraction ps pe active_from active_to suspensions =
     (let a = max ps active_from; b = min pe (span_end pe active_to)
      in if a < b
         then js_div (of_int (max 0 (cut_loop (suspension_cuts pe (a, b) suspensions) a (b - a)))) (of_int (pe - ps))
         else 0)"

section \<open>Accrual\<close>

datatype worklog_status = WlDraft | WlSubmitted | WlApproved | WlRejected | WlPaid

record managed_log =
  mwl_id :: id
  mwl_contractId :: id
  mwl_minutes :: int
  mwl_billable :: bool
  mwl_status :: worklog_status
  mwl_workedAt :: instant
  mwl_billedPeriod :: "instant option"
  mwl_billedInvoiceId :: "id option"

definition COUNTED_WORKLOG :: "worklog_status list" where
  "COUNTED_WORKLOG = [WlApproved, WlPaid]"

record project_row =
  prj_id :: id
  prj_teamId :: id
  prj_createdAt :: instant

record billing_desk =
  bil_projects :: "project_row list"
  bil_usage :: "usage_record list"
  bil_logs :: "managed_log list"
  bil_fx :: fx_state

text \<open>The team's oldest project.\<close>

definition oldest_project :: "id \<Rightarrow> billing_desk \<Rightarrow> project_row option" where
  "oldest_project teamId db =
     (case sort_key prj_createdAt (filter (\<lambda>p. prj_teamId p = teamId) (bil_projects db)) of [] \<Rightarrow> None | p # _ \<Rightarrow> Some p)"

type_synonym month_line = "resource_type \<times> id \<times> instant"

definition line_key :: "usage_record \<Rightarrow> month_line" where
  "line_key u = (ur_resourceType u, ur_resourceId u, ur_hourStart u)"

text \<open>One line of the month: removed when nothing is due, else created or overwritten.\<close>

definition put_line ::
  "id \<Rightarrow> id \<Rightarrow> currency \<Rightarrow> month_line \<Rightarrow> int \<Rightarrow> rat \<Rightarrow> string \<Rightarrow> usage_record list \<Rightarrow> usage_record list" where
  "put_line newId projectId cur k amount quantity unit rows =
     (if amount \<le> 0 then filter (\<lambda>u. \<not> (line_key u = k \<and> ur_invoiceId u = None)) rows
      else upsert line_key k
        \<lparr>ur_id = newId, ur_projectId = projectId, ur_resourceType = fst k, ur_resourceId = fst (snd k), ur_hourStart = snd (snd k),
         ur_quantity = quantity, ur_unit = unit, ur_priceId = None, ur_amountMinor = amount, ur_currency = cur, ur_invoiceId = None\<rparr>
        (\<lambda>u. u\<lparr>ur_quantity := quantity, ur_amountMinor := amount, ur_currency := cur, ur_projectId := projectId\<rparr>) rows)"

definition counted_log :: "id \<Rightarrow> instant \<Rightarrow> instant \<Rightarrow> managed_log \<Rightarrow> bool" where
  "counted_log i ps pe w \<longleftrightarrow>
     mwl_contractId w = i \<and> mwl_billable w \<and> mwl_status w \<in> set COUNTED_WORKLOG \<and> mwl_billedInvoiceId w = None
     \<and> mwl_workedAt w < pe \<and> (mwl_billedPeriod w = None \<or> mwl_billedPeriod w = Some ps)"

definition contract_suspensions :: "contract \<Rightarrow> (instant \<times> instant option) list" where
  "contract_suspensions c =
     map (\<lambda>(a, b). (a, Some b)) (mct_suspensions c) @ (case mct_suspendedAt c of None \<Rightarrow> [] | Some s \<Rightarrow> [(s, None)])"

text \<open>The rows \<open>accrue\<close> selects have an activation; \<open>new Date(null)\<close> would be the epoch.\<close>

definition contract_fraction :: "contract \<Rightarrow> instant \<Rightarrow> instant \<Rightarrow> rat" where
  "contract_fraction c ps pe =
     billableFraction ps pe (case mct_activatedAt c of None \<Rightarrow> 0 | Some t \<Rightarrow> t) (mct_cancelledAt c) (contract_suspensions c)"

record accrual =
  acr_planMinor :: int
  acr_overageMinor :: int
  acr_overageMinutes :: int
  acr_fraction :: rat

text \<open>
  What a month costs: the fee times the fraction, and the overage at the hourly rate, both in the
  currency of the team.
\<close>

definition accrual_of :: "instant \<Rightarrow> currency \<Rightarrow> contract \<Rightarrow> instant \<Rightarrow> instant \<Rightarrow> managed_log list \<Rightarrow> fx_state \<Rightarrow> accrual \<times> fx_state" where
  "accrual_of now cur c ps pe logs fx =
     (let (t, fx1) = terms_of c pe now fx;
          fraction = contract_fraction c ps pe;
          (planMinor, fx2) = (case trm_monthlyFeeMinor t of
             None \<Rightarrow> (0, fx1)
           | Some fee \<Rightarrow> if fee = 0 then (0, fx1)
                          else convert_minor (js_round (js_mul (of_int fee) fraction)) (mct_currency c) cur pe now fx1);
          minutes = sum_by mwl_minutes logs;
          overageMinutes = max 0 (minutes - trm_includedEngineerMinutes t);
          (overageMinor, fx3) =
             convert_minor (js_round (js_mul (js_div (of_int overageMinutes) 60) (of_int (trm_hourlyRateMinor t))))
               (mct_currency c) cur pe now fx2
      in (\<lparr>acr_planMinor = planMinor, acr_overageMinor = overageMinor, acr_overageMinutes = overageMinutes,
           acr_fraction = fraction\<rparr>, fx3))"

text \<open>\<open>None\<close> is the answer \<open>skipped\<close>.\<close>

definition accrueContract ::
  "id \<times> id \<Rightarrow> instant \<Rightarrow> currency \<Rightarrow> contract \<Rightarrow> instant \<Rightarrow> instant \<Rightarrow> billing_desk \<Rightarrow> accrual option \<times> billing_desk" where
  "accrueContract newIds now cur c ps pe db =
     (case oldest_project (mct_teamId c) db of
        None \<Rightarrow> (None, db)
      | Some project \<Rightarrow>
          if list_ex (\<lambda>u. line_key u \<in> {(RManagedPlan, mct_id c, ps), (RManagedOverage, mct_id c, ps)} \<and> ur_invoiceId u \<noteq> None) (bil_usage db)
          then (None, db)
          else
            let logs = filter (counted_log (mct_id c) ps pe) (bil_logs db);
                (a, fx) = accrual_of now cur c ps pe logs (bil_fx db);
                usage1 = put_line (fst newIds) (prj_id project) cur (RManagedPlan, mct_id c, ps) (acr_planMinor a)
                           (js_div (of_int (js_round (js_mul (acr_fraction a) 10000))) 10000) ''month'' (bil_usage db);
                usage2 = put_line (snd newIds) (prj_id project) cur (RManagedOverage, mct_id c, ps) (acr_overageMinor a)
                           (js_div (of_int (js_round (js_mul (js_div (of_int (acr_overageMinutes a)) 60) 100))) 100) ''hour'' usage1
            in (Some a,
                db\<lparr>bil_usage := usage2, bil_fx := fx,
                   bil_logs := update_where (\<lambda>w. mwl_id w \<in> mwl_id ` set logs) (\<lambda>w. w\<lparr>mwl_billedPeriod := Some ps\<rparr>) (bil_logs db)\<rparr>))"

definition accruable :: "instant \<Rightarrow> instant \<Rightarrow> contract \<Rightarrow> bool" where
  "accruable ps pe c \<longleftrightarrow>
     (case mct_activatedAt c of None \<Rightarrow> False | Some t \<Rightarrow> t < pe)
     \<and> (case mct_cancelledAt c of None \<Rightarrow> True | Some t \<Rightarrow> ps < t)"

text \<open>The month before \<open>now\<close>, for every contract with time in it; each contract comes with its team's currency.\<close>

definition accrue ::
  "(id \<Rightarrow> id \<times> id) \<Rightarrow> instant \<Rightarrow> instant \<Rightarrow> instant \<Rightarrow> (contract \<times> currency) list \<Rightarrow> billing_desk \<Rightarrow> billing_desk" where
  "accrue newIds now ps pe contracts db =
     fold (\<lambda>(c, cur) d. snd (accrueContract (newIds (mct_id c)) now cur c ps pe d))
       (filter (\<lambda>(c, _). accruable ps pe c) contracts) db"

definition accruePreviousMonth ::
  "(id \<Rightarrow> id \<times> id) \<Rightarrow> instant \<Rightarrow> (contract \<times> currency) list \<Rightarrow> billing_desk \<Rightarrow> billing_desk" where
  "accruePreviousMonth newIds now contracts db =
     (let pe = startOfMonth now; ps = startOfMonth (pe - 1) in accrue newIds now ps pe contracts db)"

section \<open>The fraction counts the instants that are due\<close>

lemma cut_loop_sweep:
  assumes "\<forall>(a, b)\<in>set cuts. a < b"
  shows "cut_loop cuts cursor billed = billed - sweep cuts (Some cursor)"
  using assms
proof (induction cuts arbitrary: cursor billed)
  case (Cons x cuts)
  obtain a b where x: "x = (a, b)" by (cases x)
  then have "a < b" using Cons.prems by simp
  have ih: "cut_loop cuts cur bl = bl - sweep cuts (Some cur)" for cur bl using Cons by simp
  show ?case
  proof (cases "max a cursor < b")
    case True
    then have "max cursor b = b" by simp
    then show ?thesis using True x ih by (simp add: Let_def)
  next
    case False
    then have "max cursor b = cursor" using \<open>a < b\<close> by simp
    then show ?thesis using False \<open>a < b\<close> x ih by (simp add: Let_def)
  qed
qed simp

definition in_suspension :: "instant \<Rightarrow> instant \<times> instant option \<Rightarrow> bool" where
  "in_suspension t s \<longleftrightarrow> fst s \<le> t \<and> (case snd s of None \<Rightarrow> True | Some e \<Rightarrow> t < e)"

lemma covered_cuts:
  assumes "b \<le> pe"
  shows "covered (suspension_cuts pe (a, b) suspensions) = {t. a \<le> t \<and> t < b \<and> (\<exists>s\<in>set suspensions. in_suspension t s)}"
proof (rule set_eqI)
  fix t
  have "t \<in> covered (suspension_cuts pe (a, b) suspensions) \<longleftrightarrow>
      (\<exists>s\<in>set suspensions. max a (fst s) \<le> t \<and> t < min b (span_end pe (snd s)))"
    by (force simp: covered_def suspension_cuts_def)
  also have "\<dots> \<longleftrightarrow> (\<exists>s\<in>set suspensions. a \<le> t \<and> t < b \<and> in_suspension t s)"
    using assms by (intro bex_cong refl) (auto simp: in_suspension_def span_end_def split: option.splits)
  finally show "t \<in> covered (suspension_cuts pe (a, b) suspensions) \<longleftrightarrow>
      t \<in> {t. a \<le> t \<and> t < b \<and> (\<exists>s\<in>set suspensions. in_suspension t s)}" by simp
qed

definition billable_instants ::
  "instant \<Rightarrow> instant \<Rightarrow> instant \<Rightarrow> instant option \<Rightarrow> (instant \<times> instant option) list \<Rightarrow> instant set" where
  "billable_instants ps pe active_from active_to suspensions =
     {t. ps \<le> t \<and> t < pe \<and> active_from \<le> t \<and> \<not> by_now t active_to \<and> \<not> (\<exists>s\<in>set suspensions. in_suspension t s)}"

lemma billableFraction_counts:
  "billableFraction ps pe active_from active_to suspensions =
     js_div (of_int (int (card (billable_instants ps pe active_from active_to suspensions)))) (of_int (pe - ps))"
proof -
  define a b where "a = max ps active_from" and "b = min pe (span_end pe active_to)"
  let ?cut = "{t. a \<le> t \<and> t < b \<and> (\<exists>s\<in>set suspensions. in_suspension t s)}"
  let ?bill = "billable_instants ps pe active_from active_to suspensions"
  have bill: "?bill = {a..<b} - ?cut"
    by (auto simp: billable_instants_def a_def b_def span_end_def split: option.splits)
  show ?thesis
  proof (cases "a < b")
    case True
    have pos: "\<forall>(x, y)\<in>set (suspension_cuts pe (a, b) suspensions). x < y" by (auto simp: suspension_cuts_def)
    have srt: "sorted (map fst (suspension_cuts pe (a, b) suspensions))" by (simp add: suspension_cuts_def)
    have "b \<le> pe" by (simp add: b_def)
    have cov: "covered (suspension_cuts pe (a, b) suspensions) \<inter> {a..} = ?cut" unfolding covered_cuts [OF \<open>b \<le> pe\<close>] by auto
    have fin: "finite ?cut" by (rule finite_subset [of _ "{a..<b}"]) auto
    have sub: "?cut \<subseteq> {a..<b}" by auto
    have "card ?bill = card {a..<b} - card ?cut" unfolding bill using fin sub by (rule card_Diff_subset)
    moreover have "card ?cut \<le> card {a..<b}" using sub by (rule card_mono [OF finite_atLeastLessThan_int])
    ultimately have card: "int (card ?bill) = (b - a) - int (card ?cut)" using True by (simp add: of_nat_diff)
    have "cut_loop (suspension_cuts pe (a, b) suspensions) a (b - a) = int (card ?bill)"
      unfolding cut_loop_sweep [OF pos] sweep_from [OF srt] cov card ..
    then show ?thesis using True by (simp add: billableFraction_def Let_def a_def [symmetric] b_def [symmetric])
  next
    case False
    then have "?bill = {}" using bill by simp
    then show ?thesis using False by (simp add: billableFraction_def Let_def a_def [symmetric] b_def [symmetric] js_div_def)
  qed
qed

lemma contract_fraction_due:
  assumes "mct_activatedAt c \<noteq> None"
  shows "contract_fraction c ps pe =
    js_div (of_int (int (card {t. ps \<le> t \<and> t < pe \<and> fee_due (life_of c) t}))) (of_int (pe - ps))"
proof -
  obtain t0 where t0: "mct_activatedAt c = Some t0" using assms by blast
  have susp: "(\<exists>s\<in>set (contract_suspensions c). in_suspension t s) \<longleftrightarrow>
      (\<exists>(f, u)\<in>set (mct_suspensions c). f \<le> t \<and> t < u) \<or> by_now t (mct_suspendedAt c)" for t
  proof -
    have "(\<exists>s\<in>set (map (\<lambda>(a, b). (a, Some b)) xs). in_suspension t s) \<longleftrightarrow> (\<exists>(f, u)\<in>set xs. f \<le> t \<and> t < u)" for xs
      by (induction xs) (auto simp: in_suspension_def)
    then show ?thesis
      by (cases "mct_suspendedAt c") (auto simp: contract_suspensions_def bex_Un in_suspension_def simp del: set_map)
  qed
  have "billable_instants ps pe t0 (mct_cancelledAt c) (contract_suspensions c) = {t. ps \<le> t \<and> t < pe \<and> fee_due (life_of c) t}"
    unfolding billable_instants_def susp by (auto simp: fee_due_def life_of_def t0)
  then show ?thesis by (simp add: contract_fraction_def billableFraction_counts t0)
qed

lemma no_fee_unless_accruable: "ps < pe \<Longrightarrow> \<not> accruable ps pe c \<Longrightarrow> ps \<le> t \<Longrightarrow> t < pe \<Longrightarrow> \<not> fee_due (life_of c) t"
  by (auto simp: accruable_def fee_due_def life_of_def split: option.splits)

section \<open>The fee never exceeds a month\<close>

lemma contract_fraction_bounds:
  assumes "ps < pe"
  shows "0 \<le> contract_fraction c ps pe" "contract_fraction c ps pe \<le> 1"
proof -
  let ?B = "billable_instants ps pe (case mct_activatedAt c of None \<Rightarrow> 0 | Some t \<Rightarrow> t) (mct_cancelledAt c) (contract_suspensions c)"
  have eq: "contract_fraction c ps pe = js_div (of_int (int (card ?B))) (of_int (pe - ps))"
    by (simp only: contract_fraction_def billableFraction_counts)
  show "0 \<le> contract_fraction c ps pe" unfolding eq by (rule js_div_nonneg) (use assms in simp_all)
  have "?B \<subseteq> {ps..<pe}" by (auto simp: billable_instants_def)
  then have "card ?B \<le> card {ps..<pe}" by (intro card_mono) simp_all
  then have "int (card ?B) \<le> pe - ps" using assms by simp
  then have "(of_int (int (card ?B)) :: rat) \<le> of_int (pe - ps)" by (rule of_int_le_iff [THEN iffD2])
  then have "(of_int (int (card ?B)) :: rat) / of_int (pe - ps) \<le> 1" using assms by (simp add: divide_le_eq_1)
  then show "contract_fraction c ps pe \<le> 1" unfolding eq js_div_def using dbl.le_int [of _ 1] by simp
qed

section \<open>Accruing a month again\<close>

lemma put_line_key:
  assumes "u \<in> set (put_line newId projectId cur k amount quantity unit rows)"
  shows "u \<in> set rows \<or> line_key u = k"
  using assms by (cases k) (auto simp: put_line_def upsert_def in_update_where line_key_def split: if_splits)

text \<open>Nothing is left to write for a line: the rows of its key are as the line says.\<close>

definition line_settled :: "id \<Rightarrow> currency \<Rightarrow> month_line \<Rightarrow> int \<Rightarrow> rat \<Rightarrow> usage_record list \<Rightarrow> bool" where
  "line_settled projectId cur k amount quantity rows \<longleftrightarrow>
     (if amount \<le> 0 then \<forall>u\<in>set rows. line_key u \<noteq> k
      else k \<in> line_key ` set rows \<and>
        (\<forall>u\<in>set rows. line_key u = k \<longrightarrow> ur_quantity u = quantity \<and> ur_amountMinor u = amount \<and> ur_currency u = cur \<and> ur_projectId u = projectId))"

lemma line_settled_put: "line_settled projectId cur k amount quantity rows \<Longrightarrow> put_line newId projectId cur k amount quantity unit rows = rows"
  by (auto simp: line_settled_def put_line_def upsert_def update_where_def filter_id_conv intro!: map_idI split: if_splits)

lemma put_line_settles:
  assumes "\<forall>u\<in>set rows. line_key u = k \<longrightarrow> ur_invoiceId u = None"
  shows "line_settled projectId cur k amount quantity (put_line newId projectId cur k amount quantity unit rows)"
proof (cases "amount \<le> 0")
  case True
  then show ?thesis using assms by (auto simp: line_settled_def put_line_def)
next
  case False
  show ?thesis
  proof (cases "k \<in> line_key ` set rows")
    case True
    let ?f = "\<lambda>u. u\<lparr>ur_quantity := quantity, ur_amountMinor := amount, ur_currency := cur, ur_projectId := projectId\<rparr>"
    have "put_line newId projectId cur k amount quantity unit rows = update_where (\<lambda>r. line_key r = k) ?f rows"
      using True False by (simp add: put_line_def upsert_def)
    moreover have "line_key ` set (update_where (\<lambda>r. line_key r = k) ?f rows) = line_key ` set rows"
      by (rule keys_update_where) (simp add: line_key_def)
    ultimately show ?thesis using True False by (auto simp: line_settled_def ball_update_where)
  next
    case fresh: False
    then show ?thesis using False by (cases k) (auto simp: line_settled_def put_line_def upsert_def line_key_def)
  qed
qed

lemma line_settled_other:
  assumes "k \<noteq> k'" "line_settled projectId cur k amount quantity rows"
  shows "line_settled projectId cur k amount quantity (put_line newId p' cur' k' a' q' unit rows)"
proof -
  have same: "u \<in> set (put_line newId p' cur' k' a' q' unit rows) \<longleftrightarrow> u \<in> set rows" if "line_key u = k" for u
    using that assms(1) by (cases k') (auto simp: put_line_def upsert_def in_update_where line_key_def)
  then show ?thesis using assms(2) by (fastforce simp: line_settled_def)
qed

text \<open>A rate that is more than a minute old comes from the table: the clock and the cache play no part.\<close>

lemma rate_settled:
  assumes "60000 \<le> now - tm"
  shows "rate q tm now fx = (fst (rate q tm (tm + 60000) fx), fx)"
  using assms by (simp add: rate_def Let_def)

lemma managed_rate_settled:
  assumes "60000 \<le> now - tm"
  shows "bookRate cur tm now fx = (fst (bookRate cur tm (tm + 60000) fx), fx)"
  using rate_settled [OF assms, of SAR fx] rate_settled [of "tm + 60000" tm SAR fx]
  by (auto simp: bookRate_def split: prod.splits)

lemma convert_settled:
  assumes "60000 \<le> now - tm"
  shows "convert_minor x src dst tm now fx = (fst (convert_minor x src dst tm (tm + 60000) fx), fx)"
  using managed_rate_settled [OF assms, of src fx] managed_rate_settled [of "tm + 60000" tm src fx]
    managed_rate_settled [OF assms, of dst fx] managed_rate_settled [of "tm + 60000" tm dst fx]
  by (auto simp: convert_minor_def Let_def split: prod.splits)

lemma convert_fixed: "\<exists>g. \<forall>now x src dst. 60000 \<le> now - tm \<longrightarrow> convert_minor x src dst tm now fx = (g x src dst, fx)"
  by (intro exI [of _ "\<lambda>x src dst. fst (convert_minor x src dst tm (tm + 60000) fx)"] allI impI) (rule convert_settled)

lemma terms_fixed: "\<exists>t. \<forall>now. 60000 \<le> now - tm \<longrightarrow> terms_of c tm now fx = (t, fx)"
proof -
  obtain g where "\<forall>now x src dst. 60000 \<le> now - tm \<longrightarrow> convert_minor x src dst tm now fx = (g x src dst, fx)"
    using convert_fixed by blast
  then show ?thesis
    by (cases "mct_priceOverrideMinor c"; cases "mpl_priceMinor (mct_plan c)") (auto simp: terms_of_def Let_def)
qed

lemma accrual_fixed: "\<exists>a. \<forall>now. 60000 \<le> now - pe \<longrightarrow> accrual_of now cur c ps pe logs fx = (a, fx)"
proof -
  obtain g where g: "\<forall>now x src dst. 60000 \<le> now - pe \<longrightarrow> convert_minor x src dst pe now fx = (g x src dst, fx)"
    using convert_fixed by blast
  obtain t where "\<forall>now. 60000 \<le> now - pe \<longrightarrow> terms_of c pe now fx = (t, fx)" using terms_fixed by blast
  with g show ?thesis by (cases "trm_monthlyFeeMinor t") (auto simp: accrual_of_def Let_def)
qed

lemma accrual_minutes: "sum_by mwl_minutes logs = sum_by mwl_minutes logs' \<Longrightarrow> accrual_of now cur c ps pe logs fx = accrual_of now cur c ps pe logs' fx"
  by (simp add: accrual_of_def)

lemma put_line_uninvoiced:
  "\<forall>u\<in>set rows. line_key u \<in> K \<longrightarrow> ur_invoiceId u = None \<Longrightarrow>
     \<forall>u\<in>set (put_line newId p cur k amount quantity unit rows). line_key u \<in> K \<longrightarrow> ur_invoiceId u = None"
  by (auto simp: put_line_def upsert_def in_update_where line_key_def split: if_splits)

lemma filter_update_where: "(\<And>w. P w \<Longrightarrow> P (f w)) \<Longrightarrow> filter P (update_where P f xs) = map f (filter P xs)"
  by (induction xs) auto

text \<open>The update by the ids that were read touches the rows that were read.\<close>

lemma update_read_rows:
  assumes "uniq k rows"
  shows "update_where (\<lambda>w. k w \<in> k ` set (filter P rows)) f rows = update_where P f rows"
proof -
  have "k w \<in> k ` set (filter P rows) \<longleftrightarrow> P w" if "w \<in> set rows" for w
    using that uniq_inj [OF assms that] by auto
  then show ?thesis by (simp add: update_where_def)
qed

definition stamp :: "instant \<Rightarrow> managed_log \<Rightarrow> managed_log" where
  "stamp ps w = w\<lparr>mwl_billedPeriod := Some ps\<rparr>"

lemma counted_stamp: "counted_log i ps pe w \<Longrightarrow> counted_log i ps pe (stamp ps w)"
  by (simp add: counted_log_def stamp_def)

lemma accrued_logs:
  assumes "accrueContract newIds now cur c ps pe db = (Some a, db')" "uniq mwl_id (bil_logs db)"
  shows "bil_logs db' = update_where (counted_log (mct_id c) ps pe) (stamp ps) (bil_logs db)"
  using assms(1) update_read_rows [OF assms(2), of "counted_log (mct_id c) ps pe" "stamp ps"]
  by (auto simp: accrueContract_def Let_def stamp_def [abs_def] split: option.splits if_splits prod.splits)

lemma stamped_not_counted: "ps \<noteq> ps' \<Longrightarrow> \<not> counted_log i ps' pe' (stamp ps w)"
  by (simp add: counted_log_def stamp_def)

theorem accrue_again:
  assumes "accrueContract newIds now cur c ps pe db = (r, db1)" "60000 \<le> now - pe" "60000 \<le> now' - pe" "uniq mwl_id (bil_logs db)"
  shows "accrueContract newIds' now' cur c ps pe db1 = (r, db1)"
proof (cases r)
  case None
  then show ?thesis using assms(1) by (auto simp: accrueContract_def Let_def split: option.splits if_splits prod.splits)
next
  case (Some a)
  let ?K = "{(RManagedPlan, mct_id c, ps), (RManagedOverage, mct_id c, ps)}"
  let ?P = "counted_log (mct_id c) ps pe"
  obtain p where p: "oldest_project (mct_teamId c) db = Some p" and
    free: "\<forall>u\<in>set (bil_usage db). line_key u \<in> ?K \<longrightarrow> ur_invoiceId u = None"
    using assms(1) Some by (auto simp: accrueContract_def list_ex_iff split: option.splits if_splits)
  define q1 q2 where "q1 = js_div (of_int (js_round (js_mul (acr_fraction a) 10000))) 10000"
    and "q2 = js_div (of_int (js_round (js_mul (js_div (of_int (acr_overageMinutes a)) 60) 100))) 100"
  define u1 where "u1 = put_line (fst newIds) (prj_id p) cur (RManagedPlan, mct_id c, ps) (acr_planMinor a) q1 ''month'' (bil_usage db)"
  define u2 where "u2 = put_line (snd newIds) (prj_id p) cur (RManagedOverage, mct_id c, ps) (acr_overageMinor a) q2 ''hour'' u1"
  have acc: "accrual_of now cur c ps pe (filter ?P (bil_logs db)) (bil_fx db) = (a, bil_fx db)"
    and db1: "bil_usage db1 = u2" "bil_fx db1 = bil_fx db" "bil_projects db1 = bil_projects db"
    using assms(1,2) Some p accrual_fixed [of pe cur c ps "filter ?P (bil_logs db)" "bil_fx db"]
    by (auto simp: accrueContract_def Let_def u1_def u2_def q1_def q2_def split: if_splits prod.splits)
  have logs1: "bil_logs db1 = update_where ?P (stamp ps) (bil_logs db)"
    using accrued_logs assms(1,4) Some by blast
  have read: "filter ?P (bil_logs db1) = map (stamp ps) (filter ?P (bil_logs db))"
    unfolding logs1 by (rule filter_update_where) (rule counted_stamp)
  have "sum_by mwl_minutes (map (stamp ps) xs) = sum_by mwl_minutes xs" for xs
    by (induction xs) (simp_all add: stamp_def)
  then have acc': "accrual_of now' cur c ps pe (filter ?P (bil_logs db1)) (bil_fx db1) = (a, bil_fx db1)"
    using acc accrual_fixed [of pe cur c ps "filter ?P (bil_logs db)" "bil_fx db"] assms(2,3) accrual_minutes
    unfolding read db1 by metis
  have free1: "\<forall>u\<in>set u1. line_key u \<in> ?K \<longrightarrow> ur_invoiceId u = None" unfolding u1_def using free by (rule put_line_uninvoiced)
  then have free2: "\<forall>u\<in>set u2. line_key u \<in> ?K \<longrightarrow> ur_invoiceId u = None" unfolding u2_def by (rule put_line_uninvoiced)
  have "line_settled (prj_id p) cur (RManagedPlan, mct_id c, ps) (acr_planMinor a) q1 u1"
    unfolding u1_def using free by (intro put_line_settles) blast
  then have s1: "line_settled (prj_id p) cur (RManagedPlan, mct_id c, ps) (acr_planMinor a) q1 u2"
    unfolding u2_def by (intro line_settled_other) simp_all
  have s2: "line_settled (prj_id p) cur (RManagedOverage, mct_id c, ps) (acr_overageMinor a) q2 u2"
    unfolding u2_def using free1 by (intro put_line_settles) blast
  have uq: "uniq mwl_id (bil_logs db1)" unfolding logs1 using assms(4) by (simp add: uniq_update_where stamp_def)
  have "update_where ?P (stamp ps) (bil_logs db1) = bil_logs db1"
    unfolding logs1 by (simp add: update_where_def comp_def stamp_def)
  then have lg: "update_where (\<lambda>w. mwl_id w \<in> mwl_id ` set (filter ?P (bil_logs db1))) (\<lambda>w. w\<lparr>mwl_billedPeriod := Some ps\<rparr>) (bil_logs db1) = bil_logs db1"
    using update_read_rows [OF uq, of ?P "stamp ps"] by (simp add: stamp_def [abs_def])
  have p': "oldest_project (mct_teamId c) db1 = Some p" using p db1(3) by (simp add: oldest_project_def)
  have nf: "\<not> list_ex (\<lambda>u. line_key u \<in> ?K \<and> ur_invoiceId u \<noteq> None) (bil_usage db1)" using free2 db1(1) by (auto simp: list_ex_iff)
  show ?thesis
    unfolding accrueContract_def p' option.case if_not_P [OF nf] Let_def acc' split_conv lg q1_def [symmetric] q2_def [symmetric]
    unfolding db1(1) using line_settled_put [OF s1] line_settled_put [OF s2] Some db1(1) by simp
qed

end
