(* ===== verification/Metering.thy ===== *)
theory Metering
  imports Billing_Data
begin

text \<open>
  Usage events, \<open>billing/metering.service.ts\<close>: ingestion of agent reports and the fallback meter
  that writes one event per minute for everything that exists.  The table has a unique index on
  resource type, resource and minute; \<open>createMany\<close> with \<open>skipDuplicates\<close> drops a row whose key is
  taken, by an older row or by an earlier row of the same call.
\<close>

record usage_event =
  ue_at :: instant
  ue_resourceType :: resource_type
  ue_resourceId :: id
  ue_projectId :: id
  ue_hostId :: "id option"
  ue_quantity :: rat
  ue_unit :: string

definition event_key :: "usage_event \<Rightarrow> resource_type \<times> id \<times> instant" where
  "event_key e = (ue_resourceType e, ue_resourceId e, ue_at e)"

fun createMany :: "usage_event list \<Rightarrow> usage_event list \<Rightarrow> nat \<times> usage_event list" where
  "createMany [] rows = (0, rows)"
| "createMany (e # es) rows =
     (if event_key e \<in> event_key ` set rows then createMany es rows
      else let (n, rows') = createMany es (rows @ [e]) in (Suc n, rows'))"

definition minuteAligned :: "instant \<Rightarrow> instant" where
  "minuteAligned d = d div 60000 * 60000"

text \<open>An agent report: the event and the \<open>meta.cumulative\<close> flag of old agents.\<close>

definition ingest :: "(usage_event \<times> bool) list \<Rightarrow> usage_event list \<Rightarrow> usage_event list" where
  "ingest events rows =
     (let kept = filter (\<lambda>(e, cumulative). \<not> (ue_resourceType e = RBandwidth \<and> cumulative)) events
      in if kept = [] then rows
         else snd (createMany (map (\<lambda>(e, _). e\<lparr>ue_at := minuteAligned (ue_at e)\<rparr>) kept) rows))"

section \<open>The fallback meter\<close>

record m_server =
  ms_id :: id
  ms_projectId :: id
  ms_hostId :: "id option"
  ms_status :: server_status
  ms_metered :: bool
  ms_managedBy :: "string option"
  ms_tags :: "string list"
  ms_backupsEnabled :: bool
  ms_managed :: bool

record m_ip =
  mi_id :: id
  mi_projectId :: "id option"
  mi_status :: string
  mi_heldByProduct :: bool
  mi_server :: "string option option"

record m_sized =
  mz_id :: id
  mz_projectId :: id
  mz_status :: string
  mz_kind :: string
  mz_metered :: bool
  mz_amount :: int

text \<open>Platform apps stay in the table after they are deleted.\<close>

record m_app = m_sized +
  ma_deletedAt :: "instant option"

record m_team =
  mt_id :: id
  mt_plan :: string
  mt_status :: account_status
  mt_projects :: "id list"

record meter_tables =
  mt_servers :: "m_server list"
  mt_ips :: "m_ip list"
  mt_snapshots :: "m_sized list"
  mt_volumes :: "m_sized list"
  mt_lbs :: "m_sized list"
  mt_buckets :: "m_sized list"
  mt_dbs :: "m_sized list"
  mt_apps :: "m_app list"
  mt_haClusters :: "m_sized list"
  mt_teams :: "m_team list"

definition metered_server :: "m_server \<Rightarrow> bool" where
  "metered_server s \<longleftrightarrow>
     ms_status s \<in> {SvActive, SvOff, SvRebooting, SvResizing, SvRebuilding, SvSuspended} \<and> ms_metered s
     \<and> (case ms_managedBy s of
          None \<Rightarrow> True
        | Some m \<Rightarrow> startsWith m ''k8s:'' \<and> ''worker'' \<in> set (ms_tags s))"

text \<open>
  \<open>mi_server\<close> is the owner tag of the server the address is on: \<open>None\<close> when it is on no server,
  \<open>Some None\<close> on a customer's server, \<open>Some (Some m)\<close> on a server managed by a product.
\<close>

definition metered_ip :: "m_ip \<Rightarrow> bool" where
  "metered_ip p \<longleftrightarrow>
     mi_status p \<in> {''assigned'', ''reserved''} \<and> mi_projectId p \<noteq> None \<and> \<not> mi_heldByProduct p
     \<and> (mi_server p = None \<or> mi_server p = Some None)"

definition sized_in :: "string list \<Rightarrow> 'a m_sized_scheme \<Rightarrow> bool" where
  "sized_in statuses z \<longleftrightarrow> mz_status z \<in> set statuses \<and> mz_metered z"

definition event :: "instant \<Rightarrow> resource_type \<Rightarrow> id \<Rightarrow> id \<Rightarrow> id option \<Rightarrow> rat \<Rightarrow> string \<Rightarrow> usage_event" where
  "event tm typ res proj host q un =
     \<lparr>ue_at = tm, ue_resourceType = typ, ue_resourceId = res, ue_projectId = proj, ue_hostId = host,
      ue_quantity = q, ue_unit = un\<rparr>"

definition fallback_data :: "instant \<Rightarrow> meter_tables \<Rightarrow> usage_event list" where
  "fallback_data tm t =
     (let servers = filter metered_server (mt_servers t);
          per_server = (\<lambda>typ s. event tm typ (ms_id s) (ms_projectId s) (ms_hostId s) 1 ''minute'');
          sized = (\<lambda>typ un z. event tm typ (mz_id z) (mz_projectId z) None (of_int (mz_amount z)) un)
      in map (per_server RServer) servers
         @ map (per_server RBackup) (filter (\<lambda>s. ms_backupsEnabled s \<and> \<not> ms_managed s) servers)
         @ map (\<lambda>z. event tm RAppInstance (mz_id z) (mz_projectId z) None (of_int (mz_amount z)) ''instance_minute'')
             (filter (\<lambda>z. sized_in [''live''] z \<and> ma_deletedAt z = None) (mt_apps t))
         @ map (\<lambda>z. event tm RKubernetes (mz_id z) (mz_projectId z) None 1 ''minute'')
             (filter (sized_in [''active'', ''updating'']) (mt_haClusters t))
         @ map (\<lambda>g. event tm RSupport (mt_id g) (hd (mt_projects g)) None 1 ''minute'')
             (filter (\<lambda>g. mt_plan g \<noteq> ''free'' \<and> mt_status g \<noteq> AccSuspended \<and> mt_projects g \<noteq> []) (mt_teams t))
         @ map (per_server RManagedServer) (filter ms_managed servers)
         @ map (\<lambda>p. event tm RPublicIp (mi_id p) (the (mi_projectId p)) None 1 ''minute'')
             (filter metered_ip (mt_ips t))
         @ map (sized RSnapshot ''gb_minute'')
             (filter (\<lambda>z. mz_status z = ''available'' \<and> mz_kind z = ''manual'') (mt_snapshots t))
         @ map (sized RVolume ''gb_minute'')
             (filter (sized_in [''available'', ''attaching'', ''attached'', ''detaching'', ''resizing'']) (mt_volumes t))
         @ map (\<lambda>z. event tm RObjectStorage (mz_id z) (mz_projectId z) None
                      (js_div (fl (of_int (mz_amount z))) 1000000000) ''gb_minute'')
             (filter (\<lambda>z. mz_status z = ''active'' \<and> mz_metered z \<and> 0 < mz_amount z) (mt_buckets t))
         @ map (sized RDatabase ''node_minute'') (filter (sized_in [''active'', ''updating'']) (mt_dbs t))
         @ map (sized RLoadBalancer ''node_minute'') (filter (sized_in [''active'', ''updating'']) (mt_lbs t)))"

definition tickFallback :: "instant \<Rightarrow> meter_tables \<Rightarrow> usage_event list \<Rightarrow> nat \<times> usage_event list" where
  "tickFallback now t rows =
     (let data = fallback_data (minuteAligned now) t
      in if data = [] then (0, rows) else createMany data rows)"

section \<open>The unique index\<close>

lemma createMany_uniq: "uniq event_key rows \<Longrightarrow> uniq event_key (snd (createMany es rows))"
proof (induction es arbitrary: rows)
  case (Cons e es)
  show ?case
  proof (cases "event_key e \<in> event_key ` set rows")
    case False
    then have "uniq event_key (rows @ [e])" using Cons.prems by (simp add: uniq_def)
    then show ?thesis using Cons.IH [of "rows @ [e]"] False by (simp add: split_beta Let_def)
  qed (use Cons in simp)
qed simp

lemma createMany_keys:
  "event_key ` set (snd (createMany es rows)) = event_key ` set rows \<union> event_key ` set es"
proof (induction es arbitrary: rows)
  case (Cons e es)
  then show ?case by (cases "event_key e \<in> event_key ` set rows") (auto simp: split_beta Let_def)
qed simp

lemma createMany_sub: "set rows \<subseteq> set (snd (createMany es rows))"
proof (induction es arbitrary: rows)
  case (Cons e es)
  from Cons.IH [of "rows @ [e]"] Cons.IH [of rows] show ?case by (auto simp: split_beta Let_def)
qed simp

lemma createMany_again:
  "event_key ` set es \<subseteq> event_key ` set rows \<Longrightarrow> createMany es rows = (0, rows)"
  by (induction es) auto

lemma createMany_aligned:
  assumes "\<forall>e\<in>set rows. 60000 dvd ue_at e" "\<forall>e\<in>set es. 60000 dvd ue_at e"
  shows "\<forall>e\<in>set (snd (createMany es rows)). 60000 dvd ue_at e"
  using assms
proof (induction es arbitrary: rows)
  case (Cons e es)
  then have "\<forall>x\<in>set (rows @ [e]). 60000 dvd ue_at x" "\<forall>x\<in>set es. 60000 dvd ue_at x" by simp_all
  from Cons.IH [OF this] Cons.IH [OF Cons.prems(1) this(2)] show ?case by (simp add: split_beta Let_def)
qed simp

lemma minuteAligned_dvd [simp]: "60000 dvd minuteAligned d"
  by (simp add: minuteAligned_def)

lemma fallback_at: "e \<in> set (fallback_data tm t) \<Longrightarrow> ue_at e = tm"
  by (auto simp: fallback_data_def event_def Let_def)

lemma fallback_server:
  "s \<in> set (mt_servers t) \<Longrightarrow> metered_server s \<Longrightarrow> (RServer, ms_id s, tm) \<in> event_key ` set (fallback_data tm t)"
  by (force simp: fallback_data_def event_def event_key_def Let_def)

section \<open>The event table\<close>

text \<open>One event per resource and minute, and every event on a minute boundary.\<close>

definition events_ok :: "usage_event list \<Rightarrow> bool" where
  "events_ok rows \<longleftrightarrow> uniq event_key rows \<and> (\<forall>e\<in>set rows. 60000 dvd ue_at e)"

datatype meter_op = Ingest "(usage_event \<times> bool) list" | Tick instant meter_tables

fun meter_step :: "meter_op \<Rightarrow> usage_event list \<Rightarrow> usage_event list" where
  "meter_step (Ingest events) rows = ingest events rows"
| "meter_step (Tick now t) rows = snd (tickFallback now t rows)"

lemma tickFallback_createMany: "tickFallback now t rows = createMany (fallback_data (minuteAligned now) t) rows"
  by (simp add: tickFallback_def Let_def)

interpretation meter: guarded_system events_ok meter_step
proof
  fix rows op assume ok: "events_ok rows"
  show "events_ok (meter_step op rows)"
  proof (cases op)
    case (Ingest events)
    define es where "es = map (\<lambda>(e, _). e\<lparr>ue_at := minuteAligned (ue_at e)\<rparr>)
        (filter (\<lambda>(e, cumulative). \<not> (ue_resourceType e = RBandwidth \<and> cumulative)) events)"
    have "\<forall>e\<in>set es. 60000 dvd ue_at e" unfolding es_def by auto
    then have "events_ok (snd (createMany es rows))"
      using ok createMany_aligned [of rows es] by (simp add: events_ok_def createMany_uniq)
    with ok Ingest show ?thesis by (simp add: ingest_def Let_def es_def)
  next
    case (Tick now t)
    have "\<forall>e\<in>set (fallback_data (minuteAligned now) t). 60000 dvd ue_at e" by (simp add: fallback_at)
    with ok Tick createMany_aligned [of rows] show ?thesis
      by (simp add: events_ok_def tickFallback_createMany createMany_uniq)
  qed
qed

text \<open>So no hour can be billed for more than sixty minutes of one resource.\<close>

lemma minutes_in_hour:
  assumes "events_ok rows"
  shows "count_where (\<lambda>e. ue_resourceType e = typ \<and> ue_resourceId e = res
            \<and> h \<le> ue_at e \<and> ue_at e < h + 3600000) rows \<le> 60"
proof -
  define sel where "sel = filter (\<lambda>e. ue_resourceType e = typ \<and> ue_resourceId e = res
            \<and> h \<le> ue_at e \<and> ue_at e < h + 3600000) rows"
  have uq: "uniq event_key rows" and al: "\<forall>e\<in>set rows. 60000 dvd ue_at e"
    using assms by (simp_all add: events_ok_def)
  have "inj_on (\<lambda>e. ue_at e div 60000) (set sel)"
  proof (rule inj_onI)
    fix x y assume xy: "x \<in> set sel" "y \<in> set sel" "ue_at x div 60000 = ue_at y div 60000"
    moreover have "60000 dvd ue_at x" "60000 dvd ue_at y" using xy al by (auto simp: sel_def)
    ultimately have "ue_at x = ue_at y" by (metis dvd_div_mult_self)
    with xy show "x = y" by (intro uniq_inj [OF uq]) (auto simp: sel_def event_key_def)
  qed
  moreover have "distinct sel" using uq by (auto simp: sel_def uniq_def distinct_map)
  ultimately have d: "distinct (map (\<lambda>e. ue_at e div 60000) sel)" by (simp add: distinct_map)
  have "(\<lambda>e. ue_at e div 60000) ` set sel \<subseteq> {(h + 59999) div 60000 ..< (h + 59999) div 60000 + 60}"
  proof
    fix k assume "k \<in> (\<lambda>e. ue_at e div 60000) ` set sel"
    then obtain e where e: "e \<in> set sel" "k = ue_at e div 60000" by auto
    then obtain c where "ue_at e = 60000 * c" using al by (auto simp: sel_def)
    with e show "k \<in> {(h + 59999) div 60000 ..< (h + 59999) div 60000 + 60}" by (auto simp: sel_def)
  qed
  then have "card (set (map (\<lambda>e. ue_at e div 60000) sel)) \<le> card {(h + 59999) div 60000 ..< (h + 59999) div 60000 + 60}"
    by (intro card_mono) auto
  then have "length sel \<le> 60" using distinct_card [OF d] by simp
  then show ?thesis by (simp add: count_where_def sel_def)
qed

end
