(* ===== verification/Rating.thy ===== *)
theory Rating
  imports Metering
begin

text \<open>
  Hourly rating, \<open>billing/rating.service.ts\<close>: events of an hour, grouped per resource, become one
  usage record per resource and hour.  The lookups by primary key (server size, cluster size, app
  size, support plan, project currency) are the functions of \<open>rating_env\<close>.  Sums of the float
  column \<open>quantity\<close> are added one row after the other, and \<open>groupBy\<close> lists the groups in the
  order of their first event; PostgreSQL leaves both orders open.
\<close>

record price =
  pr_id :: id
  pr_resourceType :: resource_type
  pr_sku :: string
  pr_currency :: currency
  pr_monthlyMinor :: int
  pr_unit :: string
  pr_validFrom :: instant
  pr_validTo :: "instant option"

record rating_env =
  re_prices :: "price list"
  re_serverSize :: "id \<Rightarrow> string option"
  re_transferTb :: "id \<Rightarrow> int option"
  re_dbSize :: "id \<Rightarrow> string option"
  re_appSize :: "id \<Rightarrow> string option"
  re_supportPlan :: "id \<Rightarrow> string option"
  re_currency :: "id \<Rightarrow> currency option"
  re_hoursPerMonth :: rat

definition float_sum :: "rat list \<Rightarrow> rat" where
  "float_sum xs = foldl js_add 0 xs"

section \<open>Prices\<close>

definition priceFor :: "rating_env \<Rightarrow> resource_type \<Rightarrow> string \<Rightarrow> instant \<Rightarrow> price option" where
  "priceFor env typ sku hourEnd =
     (case sort_key (\<lambda>p. - pr_validFrom p)
             (filter (\<lambda>p. pr_resourceType p = typ \<and> pr_sku p = sku \<and> pr_currency p = BOOK_CURRENCY
                          \<and> pr_validFrom p < hourEnd
                          \<and> (case pr_validTo p of None \<Rightarrow> True | Some t \<Rightarrow> hourEnd \<le> t)) (re_prices env)) of
        [] \<Rightarrow> None | p # _ \<Rightarrow> Some p)"

fun skuFor :: "rating_env \<Rightarrow> resource_type \<Rightarrow> id \<Rightarrow> string option" where
  "skuFor env RServer r = re_serverSize env r"
| "skuFor env RPublicIp r = Some ''public_ip''"
| "skuFor env RSnapshot r = Some ''snapshot_gb''"
| "skuFor env RVolume r = Some ''volume_gb''"
| "skuFor env RLoadBalancer r = Some ''lb_node''"
| "skuFor env RObjectStorage r = Some ''storage_gb''"
| "skuFor env RDatabase r = map_option (\<lambda>s. ''db-'' @ s) (re_dbSize env r)"
| "skuFor env RBandwidth r = Some ''bandwidth_gb''"
| "skuFor env RBackup r = Some ''backups_pct''"
| "skuFor env RManagedServer r = map_option (\<lambda>s. ''managed-'' @ s) (re_serverSize env r)"
| "skuFor env RKubernetes r = Some ''k8s-ha''"
| "skuFor env RAppInstance r = re_appSize env r"
| "skuFor env RSupport r =
     (case re_supportPlan env r of
        None \<Rightarrow> None | Some p \<Rightarrow> if p = ''free'' then None else Some (''support-'' @ p))"
| "skuFor env _ r = None"

definition planPriceFor :: "rating_env \<Rightarrow> id \<Rightarrow> instant \<Rightarrow> int" where
  "planPriceFor env serverId hourEnd =
     (case re_serverSize env serverId of
        None \<Rightarrow> 0
      | Some s \<Rightarrow> (case priceFor env RServer s hourEnd of None \<Rightarrow> 0 | Some p \<Rightarrow> pr_monthlyMinor p))"

section \<open>Transfer\<close>

definition earlier_this_month :: "resource_type \<Rightarrow> id \<Rightarrow> instant \<Rightarrow> usage_record list \<Rightarrow> usage_record list" where
  "earlier_this_month typ res hourStart rows =
     filter (\<lambda>u. ur_resourceType u = typ \<and> ur_resourceId u = res
                 \<and> startOfMonth hourStart \<le> ur_hourStart u \<and> ur_hourStart u < hourStart) rows"

definition overage_cost :: "rat \<Rightarrow> rat \<Rightarrow> rat \<Rightarrow> int" where
  "overage_cost includedBytes perGbMinor used =
     js_round (js_mul (js_div (max 0 (js_sub used includedBytes)) 1000000000) perGbMinor)"

definition rateBandwidth :: "rating_env \<Rightarrow> id \<Rightarrow> instant \<Rightarrow> rat \<Rightarrow> rat \<Rightarrow> usage_record list \<Rightarrow> int" where
  "rateBandwidth env serverId hourStart bytes perGbMinor rows =
     (let tb = (case re_transferTb env serverId of None \<Rightarrow> 0 | Some t \<Rightarrow> t);
          includedBytes = js_mul (of_int tb) 1000000000000;
          prior = float_sum (map ur_quantity (earlier_this_month RBandwidth serverId hourStart rows))
      in overage_cost includedBytes perGbMinor (js_add prior bytes)
         - overage_cost includedBytes perGbMinor prior)"

section \<open>The roll up\<close>

type_synonym group_key = "id \<times> resource_type \<times> id \<times> string"

definition group_of :: "usage_event \<Rightarrow> group_key" where
  "group_of e = (ue_projectId e, ue_resourceType e, ue_resourceId e, ue_unit e)"

record usage_group =
  g_projectId :: id
  g_resourceType :: resource_type
  g_resourceId :: id
  g_unit :: string
  g_quantity :: rat
  g_count :: nat

definition group_events :: "usage_event list \<Rightarrow> usage_group list" where
  "group_events es =
     map (\<lambda>k. let members = filter (\<lambda>e. group_of e = k) es
              in \<lparr>g_projectId = fst k, g_resourceType = fst (snd k), g_resourceId = fst (snd (snd k)),
                  g_unit = snd (snd (snd k)), g_quantity = float_sum (map ue_quantity members),
                  g_count = length members\<rparr>)
       (rev (remdups (rev (map group_of es))))"

definition groups_of_hour :: "instant \<Rightarrow> usage_event list \<Rightarrow> usage_group list" where
  "groups_of_hour hourStart es =
     group_events (filter (\<lambda>e. hourStart \<le> ue_at e \<and> ue_at e < hourStart + 3600000) es)"

definition group_price :: "rating_env \<Rightarrow> usage_group \<Rightarrow> instant \<Rightarrow> price option" where
  "group_price env g hourEnd =
     (case skuFor env (g_resourceType g) (g_resourceId g) of
        None \<Rightarrow> None
      | Some sku \<Rightarrow> if sku = [] then None else priceFor env (g_resourceType g) sku hourEnd)"

text \<open>The amount of one group, given the exchange rate of the hour.\<close>

definition group_amount ::
  "rating_env \<Rightarrow> instant \<Rightarrow> rat \<Rightarrow> usage_group \<Rightarrow> usage_record list \<Rightarrow> int" where
  "group_amount env hourStart fx g rows =
     (let hourEnd = hourStart + 3600000;
          price = group_price env g hourEnd;
          minutes = int (g_count g)
      in if g_resourceType g = RBandwidth then
           (case price of
              None \<Rightarrow> 0
            | Some p \<Rightarrow> rateBandwidth env (g_resourceId g) hourStart (g_quantity g)
                          (js_mul (of_int (pr_monthlyMinor p)) fx) rows)
         else
           let monthlyMinor =
                 (case price of
                    None \<Rightarrow> 0
                  | Some p \<Rightarrow>
                      if pr_unit p = ''percent'' then
                        js_round (js_div (js_mul (js_mul (of_int (planPriceFor env (g_resourceId g) hourEnd)) fx)
                                                 (of_int (pr_monthlyMinor p))) 100)
                      else
                        js_round (js_mul
                          (if g_unit g \<in> {''gb_minute'', ''node_minute'', ''instance_minute''}
                           then js_mul (of_int (pr_monthlyMinor p)) (js_div (g_quantity g) (of_int (max minutes 1)))
                           else of_int (pr_monthlyMinor p)) fx));
               charged = sum_by ur_amountMinor (earlier_this_month (g_resourceType g) (g_resourceId g) hourStart rows)
           in rateHour \<lparr>ri_minutes = minutes, ri_monthlyMinor = monthlyMinor,
                        ri_hoursPerMonth = re_hoursPerMonth env, ri_chargedThisMonthMinor = charged\<rparr>)"

definition record_key :: "usage_record \<Rightarrow> resource_type \<times> id \<times> instant" where
  "record_key u = (ur_resourceType u, ur_resourceId u, ur_hourStart u)"

definition rated :: "rat \<Rightarrow> id option \<Rightarrow> int \<Rightarrow> usage_record \<Rightarrow> usage_record" where
  "rated quantity priceId amount u = u\<lparr>ur_quantity := quantity, ur_priceId := priceId, ur_amountMinor := amount\<rparr>"

definition rate_group ::
  "rating_env \<Rightarrow> (group_key \<Rightarrow> id) \<Rightarrow> instant \<Rightarrow> instant \<Rightarrow> usage_group
     \<Rightarrow> fx_state \<times> usage_record list \<Rightarrow> fx_state \<times> usage_record list" where
  "rate_group env gen hourStart now g s =
     (let currency = (case re_currency env (g_projectId g) of None \<Rightarrow> USD | Some c \<Rightarrow> c);
          hourEnd = hourStart + 3600000;
          price = group_price env g hourEnd;
          (fx, fxs) = bookRate currency hourEnd now (fst s);
          amount = group_amount env hourStart fx g (snd s);
          new = \<lparr>ur_id = gen (g_projectId g, g_resourceType g, g_resourceId g, g_unit g),
                 ur_projectId = g_projectId g, ur_resourceType = g_resourceType g,
                 ur_resourceId = g_resourceId g, ur_hourStart = hourStart, ur_quantity = g_quantity g,
                 ur_unit = g_unit g, ur_priceId = map_option pr_id price, ur_amountMinor = amount,
                 ur_currency = currency, ur_invoiceId = None\<rparr>
      in (fxs, upsert record_key (g_resourceType g, g_resourceId g, hourStart) new
                 (rated (g_quantity g) (map_option pr_id price) amount) (snd s)))"

definition rollupHour ::
  "rating_env \<Rightarrow> (group_key \<Rightarrow> id) \<Rightarrow> instant \<Rightarrow> instant \<Rightarrow> usage_event list
     \<Rightarrow> fx_state \<times> usage_record list \<Rightarrow> nat \<times> fx_state \<times> usage_record list" where
  "rollupHour env gen hourStart now es s =
     (let groups = groups_of_hour hourStart es
      in if groups = [] then (0, s) else (length groups, fold (rate_group env gen hourStart now) groups s))"

definition rollupPreviousHour ::
  "rating_env \<Rightarrow> (group_key \<Rightarrow> id) \<Rightarrow> instant \<Rightarrow> usage_event list
     \<Rightarrow> fx_state \<times> usage_record list \<Rightarrow> nat \<times> fx_state \<times> usage_record list" where
  "rollupPreviousHour env gen now es s = rollupHour env gen (startOfHour now - 3600000) now es s"

section \<open>Rating an hour again writes the same rows\<close>

text \<open>A rate more than a minute in the past does not go through the cache.\<close>

definition past_rate :: "currency \<Rightarrow> instant \<Rightarrow> fx_state \<Rightarrow> rat" where
  "past_rate c tm fxs = fst (bookRate c tm (tm + 60000) fxs)"

lemma bookRate_past: "60000 \<le> now - tm \<Longrightarrow> bookRate c tm now fxs = (past_rate c tm fxs, fxs)"
  by (simp add: past_rate_def bookRate_def rate_def Let_def)

lemma group_amount_cong:
  assumes "filter (\<lambda>u. ur_hourStart u < h) rows = filter (\<lambda>u. ur_hourStart u < h) rows'"
  shows "group_amount env h fx g rows = group_amount env h fx g rows'"
proof -
  have split: "earlier_this_month rt res h xs = filter (\<lambda>u. ur_resourceType u = rt \<and> ur_resourceId u = res
      \<and> startOfMonth h \<le> ur_hourStart u) (filter (\<lambda>u. ur_hourStart u < h) xs)" for rt res xs
    by (auto simp: earlier_this_month_def intro: filter_cong)
  show ?thesis unfolding group_amount_def rateBandwidth_def split assms by (rule refl)
qed

definition new_record :: "rating_env \<Rightarrow> (group_key \<Rightarrow> id) \<Rightarrow> instant \<Rightarrow> int \<Rightarrow> usage_group \<Rightarrow> usage_record" where
  "new_record env gen h amount g =
     \<lparr>ur_id = gen (g_projectId g, g_resourceType g, g_resourceId g, g_unit g),
      ur_projectId = g_projectId g, ur_resourceType = g_resourceType g, ur_resourceId = g_resourceId g,
      ur_hourStart = h, ur_quantity = g_quantity g, ur_unit = g_unit g,
      ur_priceId = map_option pr_id (group_price env g (h + 3600000)), ur_amountMinor = amount,
      ur_currency = (case re_currency env (g_projectId g) of None \<Rightarrow> USD | Some c \<Rightarrow> c), ur_invoiceId = None\<rparr>"

definition past_amount :: "rating_env \<Rightarrow> instant \<Rightarrow> fx_state \<Rightarrow> usage_record list \<Rightarrow> usage_group \<Rightarrow> int" where
  "past_amount env h fxs rows g =
     group_amount env h (past_rate (case re_currency env (g_projectId g) of None \<Rightarrow> USD | Some c \<Rightarrow> c) (h + 3600000) fxs) g rows"

definition put_group ::
  "rating_env \<Rightarrow> (group_key \<Rightarrow> id) \<Rightarrow> instant \<Rightarrow> (usage_group \<Rightarrow> int) \<Rightarrow> usage_group \<Rightarrow> usage_record list \<Rightarrow> usage_record list" where
  "put_group env gen h amount g =
     upsert record_key (g_resourceType g, g_resourceId g, h) (new_record env gen h (amount g) g)
       (rated (g_quantity g) (map_option pr_id (group_price env g (h + 3600000))) (amount g))"

lemma rate_group_past:
  assumes "60000 \<le> now - (h + 3600000)"
  shows "rate_group env gen h now g (fxs, rows) = (fxs, put_group env gen h (past_amount env h fxs rows) g rows)"
  using assms
  by (simp add: rate_group_def bookRate_past Let_def put_group_def past_amount_def new_record_def)

lemma put_group_earlier:
  "filter (\<lambda>u. ur_hourStart u < h) (put_group env gen h a g rows) = filter (\<lambda>u. ur_hourStart u < h) rows"
proof -
  have "filter (\<lambda>u. ur_hourStart u < h) (update_where (\<lambda>r. record_key r = (t, i, h)) (rated q p n) rows)
      = filter (\<lambda>u. ur_hourStart u < h) rows" for t i q p n
    by (induction rows) (auto simp: record_key_def rated_def)
  then show ?thesis by (simp add: put_group_def upsert_def new_record_def)
qed

lemma fold_rate_group:
  assumes "60000 \<le> now - (h + 3600000)"
  shows "filter (\<lambda>u. ur_hourStart u < h) rows = filter (\<lambda>u. ur_hourStart u < h) base
    \<Longrightarrow> fold (rate_group env gen h now) gs (fxs, rows)
          = (fxs, fold (put_group env gen h (past_amount env h fxs base)) gs rows)"
proof (induction gs arbitrary: rows)
  case (Cons g gs)
  have "past_amount env h fxs rows g = past_amount env h fxs base g"
    unfolding past_amount_def by (rule group_amount_cong [OF Cons.prems])
  then have "put_group env gen h (past_amount env h fxs rows) g rows = put_group env gen h (past_amount env h fxs base) g rows"
    by (simp add: put_group_def)
  then show ?case
    using Cons.IH [of "put_group env gen h (past_amount env h fxs base) g rows"] Cons.prems assms
    by (simp add: rate_group_past put_group_earlier)
qed simp

lemma fold_put_group_earlier:
  "filter (\<lambda>u. ur_hourStart u < h) (fold (put_group env gen h a) gs rows) = filter (\<lambda>u. ur_hourStart u < h) rows"
  by (induction gs arbitrary: rows) (simp_all add: put_group_earlier)

lemma put_group_twice:
  "fold (put_group env gen h a) gs (fold (put_group env gen h a) gs rows) = fold (put_group env gen h a) gs rows"
  unfolding put_group_def [abs_def]
  by (rule upsert_pass_idem) (simp_all add: record_key_def rated_def new_record_def)

lemma rollupHour_again:
  assumes "60000 \<le> now - (h + 3600000)" "60000 \<le> now' - (h + 3600000)"
  shows "rollupHour env gen h now' es (snd (rollupHour env gen h now es s)) = rollupHour env gen h now es s"
proof -
  obtain fxs rows where s: "s = (fxs, rows)" by force
  let ?gs = "groups_of_hour h es"
  let ?put = "fold (put_group env gen h (past_amount env h fxs rows)) ?gs"
  have 1: "fold (rate_group env gen h now) ?gs (fxs, rows) = (fxs, ?put rows)"
    by (rule fold_rate_group [OF assms(1)]) simp
  have 2: "fold (rate_group env gen h now') ?gs (fxs, ?put rows) = (fxs, ?put (?put rows))"
    by (rule fold_rate_group [OF assms(2)]) (rule fold_put_group_earlier)
  show ?thesis by (simp add: rollupHour_def Let_def s 1 2 put_group_twice)
qed

section \<open>Transfer overage\<close>

lemma overage_cost_mono:
  assumes "0 \<le> perGb" "a \<le> b"
  shows "overage_cost inc perGb a \<le> overage_cost inc perGb b"
proof -
  have "js_sub a inc \<le> js_sub b inc" using assms by (simp add: js_sub_def fl_mono)
  then have "max 0 (js_sub a inc) / 1000000000 \<le> max 0 (js_sub b inc) / 1000000000"
    by (intro divide_right_mono) auto
  then show ?thesis
    unfolding overage_cost_def js_div_def using assms by (intro js_round_mono js_mul_mono fl_mono)
qed

lemma overage_cost_nonneg: "0 \<le> perGb \<Longrightarrow> 0 \<le> overage_cost inc perGb x"
  unfolding overage_cost_def by (intro js_round_nonneg js_mul_nonneg js_div_nonneg) simp_all

text \<open>
  The hours of a month rated in order, each rated row joining the rows the next hour reads:
  what is billed is the overage of the whole month, however it is spread over the hours.
\<close>

definition bandwidth_row :: "id \<Rightarrow> instant \<Rightarrow> rat \<Rightarrow> int \<Rightarrow> usage_record" where
  "bandwidth_row srv h bytes amount =
     \<lparr>ur_id = srv, ur_projectId = [], ur_resourceType = RBandwidth, ur_resourceId = srv, ur_hourStart = h,
      ur_quantity = bytes, ur_unit = ''byte'', ur_priceId = None, ur_amountMinor = amount,
      ur_currency = BOOK_CURRENCY, ur_invoiceId = None\<rparr>"

fun bandwidth_hours :: "rating_env \<Rightarrow> id \<Rightarrow> rat \<Rightarrow> (instant \<times> rat) list \<Rightarrow> usage_record list \<Rightarrow> int" where
  "bandwidth_hours env srv perGb [] rows = 0"
| "bandwidth_hours env srv perGb ((h, bytes) # hs) rows =
     (let amount = rateBandwidth env srv h bytes perGb rows
      in amount + bandwidth_hours env srv perGb hs (rows @ [bandwidth_row srv h bytes amount]))"

definition included_bytes :: "rating_env \<Rightarrow> id \<Rightarrow> rat" where
  "included_bytes env srv = js_mul (of_int (case re_transferTb env srv of None \<Rightarrow> 0 | Some t \<Rightarrow> t)) 1000000000000"

definition prior_bytes :: "id \<Rightarrow> instant \<Rightarrow> usage_record list \<Rightarrow> rat" where
  "prior_bytes srv h rows = float_sum (map ur_quantity (earlier_this_month RBandwidth srv h rows))"

lemma rateBandwidth_eq:
  "rateBandwidth env srv h b p rows =
     overage_cost (included_bytes env srv) p (js_add (prior_bytes srv h rows) b)
     - overage_cost (included_bytes env srv) p (prior_bytes srv h rows)"
  by (simp add: rateBandwidth_def Let_def included_bytes_def prior_bytes_def)

lemma prior_bytes_next:
  assumes "\<forall>u\<in>set rows. ur_hourStart u < h" "h < h'" "startOfMonth h' = startOfMonth h" "startOfMonth h \<le> h"
  shows "prior_bytes srv h' (rows @ [bandwidth_row srv h b a]) = js_add (prior_bytes srv h rows) b"
proof -
  have "earlier_this_month RBandwidth srv h' rows = earlier_this_month RBandwidth srv h rows"
    unfolding earlier_this_month_def using assms by (intro filter_cong) auto
  then show ?thesis
    using assms by (simp add: prior_bytes_def float_sum_def earlier_this_month_def bandwidth_row_def)
qed

lemma bandwidth_hours_total:
  assumes "sorted_wrt (<) (h # map fst hs)" "\<forall>k\<in>set (map fst hs). startOfMonth k = startOfMonth h" "0 \<le> h"
    and "\<forall>u\<in>set rows. ur_hourStart u < h"
  shows "bandwidth_hours env srv perGb ((h, b) # hs) rows =
     overage_cost (included_bytes env srv) perGb (foldl js_add (prior_bytes srv h rows) (b # map snd hs))
     - overage_cost (included_bytes env srv) perGb (prior_bytes srv h rows)"
  using assms
proof (induction hs arbitrary: h b rows)
  case Nil
  then show ?case by (simp add: rateBandwidth_eq)
next
  case (Cons k hs)
  obtain h' b' where k: "k = (h', b')" by force
  define amount where "amount = rateBandwidth env srv h b perGb rows"
  let ?rows = "rows @ [bandwidth_row srv h b amount]"
  have row: "ur_hourStart (bandwidth_row srv h b amount) = h" by (simp add: bandwidth_row_def)
  have prior: "prior_bytes srv h' ?rows = js_add (prior_bytes srv h rows) b"
    using Cons.prems k startOfMonth_le [of h] by (intro prior_bytes_next) auto
  have "bandwidth_hours env srv perGb ((h', b') # hs) ?rows =
      overage_cost (included_bytes env srv) perGb (foldl js_add (prior_bytes srv h rows) (b # map snd (k # hs)))
      - overage_cost (included_bytes env srv) perGb (js_add (prior_bytes srv h rows) b)"
    using Cons.prems k by (subst Cons.IH) (auto simp: row prior)
  moreover have "bandwidth_hours env srv perGb ((h, b) # k # hs) rows
      = amount + bandwidth_hours env srv perGb ((h', b') # hs) ?rows"
    by (simp add: k amount_def Let_def)
  moreover have "amount = overage_cost (included_bytes env srv) perGb (js_add (prior_bytes srv h rows) b)
      - overage_cost (included_bytes env srv) perGb (prior_bytes srv h rows)"
    by (simp add: amount_def rateBandwidth_eq)
  ultimately show ?case by linarith
qed

end
