(* ===== verification/Connect_Usage.thy ===== *)
theory Connect_Usage
  imports Rating
begin

text \<open>
  Prices and metering of the agent product (\<^verbatim>\<open>src/apps/api/src/modules/connect/pricing.ts\<close>,
  \<^verbatim>\<open>models/catalog.ts\<close> and \<^verbatim>\<open>usage.service.ts\<close>): stock keeping units per model and token kind, the
  price of some usage, the launch price list, the model tokens are billed as, and the hourly
  metering pass that writes usage records.

  Token counts are integers, prices whole minor units; the arithmetic of the source is double
  precision and written with the operations of \<open>JS_Number\<close>.
\<close>

section \<open>Catalog\<close>

record model_price =
  mp_input :: rat
  mp_output :: rat
  mp_cacheRead :: rat
  mp_cacheWrite :: rat

record priced_model =
  pm_id :: string
  pm_price :: model_price

definition usd :: "rat \<Rightarrow> rat \<Rightarrow> rat \<Rightarrow> rat \<Rightarrow> model_price" where
  "usd i out r w = \<lparr> mp_input = fl i, mp_output = fl out, mp_cacheRead = fl r, mp_cacheWrite = fl w \<rparr>"

text \<open>The ids and list prices of the models agents may select.\<close>
definition MODELS :: "priced_model list" where
  "MODELS =
    [\<lparr> pm_id = ''claude-opus-5-5'', pm_price = usd 4 20 (2 / 10) 5 \<rparr>,
     \<lparr> pm_id = ''claude-sonnet-5-5'', pm_price = usd 2 10 (2 / 10) (25 / 10) \<rparr>,
     \<lparr> pm_id = ''claude-haiku-4-5'', pm_price = usd 1 5 (1 / 10) (125 / 100) \<rparr>]"

definition BILLING_ONLY_MODELS :: "priced_model list" where
  "BILLING_ONLY_MODELS =
    [\<lparr> pm_id = ''claude-opus-5'', pm_price = usd 5 25 (5 / 10) (625 / 100) \<rparr>,
     \<lparr> pm_id = ''claude-opus-4-8'', pm_price = usd 5 25 (5 / 10) (625 / 100) \<rparr>]"

definition PRICED_MODELS :: "priced_model list" where "PRICED_MODELS = MODELS @ BILLING_ONLY_MODELS"

definition findModel :: "string \<Rightarrow> priced_model option" where "findModel i = find_by pm_id i MODELS"

definition isKnownModel :: "string \<Rightarrow> bool" where "isKnownModel i \<longleftrightarrow> findModel i \<noteq> None"

definition dated_id :: "string \<Rightarrow> priced_model \<Rightarrow> bool" where
  "dated_id i m \<longleftrightarrow>
     startsWith i (pm_id m @ ''-'')
     \<and> (let d = drop (length (pm_id m) + 1) i in length d = 8 \<and> list_all is_digit d)"

definition pricedModel :: "string option \<Rightarrow> priced_model option" where
  "pricedModel modelId =
     (case modelId of
        None \<Rightarrow> None
      | Some [] \<Rightarrow> None
      | Some i \<Rightarrow>
          (case find_by pm_id i PRICED_MODELS of
             Some m \<Rightarrow> Some m
           | None \<Rightarrow> List.find (dated_id i) PRICED_MODELS))"

definition billingModel :: "string option \<Rightarrow> string \<Rightarrow> string" where
  "billingModel servedBy requested = (case pricedModel servedBy of None \<Rightarrow> requested | Some m \<Rightarrow> pm_id m)"

record token_usage =
  tu_input :: int
  tu_output :: int
  tu_cacheRead :: int
  tu_cacheWrite :: int
  tu_cacheWrite1h :: "int option"

definition providerCostMicroUsd :: "string option \<Rightarrow> token_usage \<Rightarrow> int" where
  "providerCostMicroUsd modelId u =
     (case pricedModel modelId of
        None \<Rightarrow> 0
      | Some m \<Rightarrow>
          (let p = pm_price m;
               write1h = min (case tu_cacheWrite1h u of None \<Rightarrow> 0 | Some w \<Rightarrow> w) (tu_cacheWrite u)
           in js_round
                (js_add (js_add (js_add (js_add
                   (js_mul (of_int (tu_input u)) (mp_input p))
                   (js_mul (of_int (tu_output u)) (mp_output p)))
                   (js_mul (of_int (tu_cacheRead u)) (mp_cacheRead p)))
                   (js_mul (of_int (tu_cacheWrite u - write1h)) (mp_cacheWrite p)))
                   (js_mul (js_mul (of_int write1h) 2) (mp_input p)))))"

section \<open>Stock keeping units\<close>

datatype token_kind = TkInput | TkOutput | TkCacheRead | TkCacheWrite | TkCacheWrite1h

definition TOKEN_KINDS :: "token_kind list" where
  "TOKEN_KINDS = [TkInput, TkOutput, TkCacheRead, TkCacheWrite, TkCacheWrite1h]"

type_synonym model_tokens = "token_kind \<Rightarrow> int"
type_synonym tokens_by_model = "(string \<times> model_tokens) list"

record connect_usage =
  cu_executions :: int
  cu_toolCalls :: int
  cu_models :: tokens_by_model

record flat_sku =
  fk_sku :: string
  fk_resourceType :: resource_type
  fk_per :: int
  fk_unit :: string

record token_sku =
  tk_kind :: token_kind
  tk_base :: string
  tk_resourceType :: resource_type

definition FLAT_SKUS :: "flat_sku list" where
  "FLAT_SKUS =
    [\<lparr> fk_sku = ''connect-executions'', fk_resourceType = RConnectExecution, fk_per = 1000, fk_unit = ''execution'' \<rparr>,
     \<lparr> fk_sku = ''connect-tool-calls'', fk_resourceType = RConnectToolCall, fk_per = 1000, fk_unit = ''call'' \<rparr>]"

definition TOKEN_SKUS :: "token_sku list" where
  "TOKEN_SKUS =
    [\<lparr> tk_kind = TkInput, tk_base = ''connect-ai-input-tokens'', tk_resourceType = RConnectAiInput \<rparr>,
     \<lparr> tk_kind = TkOutput, tk_base = ''connect-ai-output-tokens'', tk_resourceType = RConnectAiOutput \<rparr>,
     \<lparr> tk_kind = TkCacheRead, tk_base = ''connect-ai-cache-read-tokens'', tk_resourceType = RConnectAiCacheRead \<rparr>,
     \<lparr> tk_kind = TkCacheWrite, tk_base = ''connect-ai-cache-write-tokens'', tk_resourceType = RConnectAiCacheWrite \<rparr>,
     \<lparr> tk_kind = TkCacheWrite1h, tk_base = ''connect-ai-cache-write-1h-tokens'', tk_resourceType = RConnectAiCacheWrite1h \<rparr>]"

definition TOKENS_PER_PRICE :: int where "TOKENS_PER_PRICE = 10000000"
definition TOKEN_PRICE_UNIT :: string where "TOKEN_PRICE_UNIT = ''per_10m''"
definition CONNECT_SKU_PREFIX :: string where "CONNECT_SKU_PREFIX = ''connect-''"

definition tokenSku :: "string \<Rightarrow> string \<Rightarrow> string" where "tokenSku base model = base @ '':'' @ model"
definition tokenResourceId :: "string \<Rightarrow> string \<Rightarrow> string" where "tokenResourceId agentId model = agentId @ '':'' @ model"

definition parseTokenResourceId :: "string \<Rightarrow> string \<times> string option" where
  "parseTokenResourceId r =
     (case indexOf r '':'' of None \<Rightarrow> (r, None) | Some i \<Rightarrow> (take i r, Some (drop (i + 1) r)))"

definition emptyTokens :: model_tokens where "emptyTokens = (\<lambda>_. 0)"

fun addTokens :: "tokens_by_model \<Rightarrow> string \<Rightarrow> model_tokens \<Rightarrow> tokens_by_model" where
  "addTokens [] model extra = [(model, \<lambda>k. emptyTokens k + extra k)]"
| "addTokens ((m, t) # r) model extra =
     (if m = model then (m, \<lambda>k. t k + extra k) # r else (m, t) # addTokens r model extra)"

section \<open>Prices\<close>

record usage_line =
  ul_sku :: string
  ul_resourceType :: resource_type
  ul_per :: int
  ul_quantity :: int
  ul_unit :: string
  ul_model :: "string option"

definition flat_quantity :: "connect_usage \<Rightarrow> string \<Rightarrow> int" where
  "flat_quantity u sku = (if sku = ''connect-executions'' then cu_executions u else cu_toolCalls u)"

definition flat_line :: "connect_usage \<Rightarrow> flat_sku \<Rightarrow> usage_line" where
  "flat_line u s =
     \<lparr> ul_sku = fk_sku s, ul_resourceType = fk_resourceType s, ul_per = fk_per s,
       ul_quantity = flat_quantity u (fk_sku s), ul_unit = fk_unit s, ul_model = None \<rparr>"

definition token_line :: "string \<Rightarrow> model_tokens \<Rightarrow> token_sku \<Rightarrow> usage_line" where
  "token_line model t s =
     \<lparr> ul_sku = tokenSku (tk_base s) model, ul_resourceType = tk_resourceType s, ul_per = TOKENS_PER_PRICE,
       ul_quantity = t (tk_kind s), ul_unit = ''token'', ul_model = Some model \<rparr>"

definition usageLines :: "connect_usage \<Rightarrow> usage_line list" where
  "usageLines u =
     map (flat_line u) (filter (\<lambda>s. 0 < flat_quantity u (fk_sku s)) FLAT_SKUS)
     @ concat (map (\<lambda>(model, t). map (token_line model t) (filter (\<lambda>s. 0 < t (tk_kind s)) TOKEN_SKUS)) (cu_models u))"

definition linePrice :: "usage_line \<Rightarrow> (string \<Rightarrow> int option) \<Rightarrow> rat" where
  "linePrice l prices =
     js_div (js_mul (of_int (ul_quantity l)) (case prices (ul_sku l) of None \<Rightarrow> 0 | Some p \<Rightarrow> of_int p)) (of_int (ul_per l))"

definition priceUsage :: "connect_usage \<Rightarrow> (string \<Rightarrow> int option) \<Rightarrow> rat" where
  "priceUsage u prices = foldl (\<lambda>total l. js_add total (linePrice l prices)) 0 (usageLines u)"

definition perMillion :: "rat \<Rightarrow> rat" where "perMillion storedPer10M = js_div storedPer10M 10"

section \<open>The launch price list\<close>

definition LAUNCH_EXECUTION_SAR :: rat where "LAUNCH_EXECUTION_SAR = fl (4 / 100)"
definition LAUNCH_TOOL_CALL_SAR :: rat where "LAUNCH_TOOL_CALL_SAR = fl (2 / 100)"

definition sar_tokens :: "rat \<Rightarrow> rat \<Rightarrow> rat \<Rightarrow> rat \<Rightarrow> rat \<Rightarrow> token_kind \<Rightarrow> rat" where
  "sar_tokens i out r w w1 k =
     fl (case k of TkInput \<Rightarrow> i | TkOutput \<Rightarrow> out | TkCacheRead \<Rightarrow> r | TkCacheWrite \<Rightarrow> w | TkCacheWrite1h \<Rightarrow> w1)"

definition LAUNCH_TOKEN_SAR_PER_M :: "(string \<times> (token_kind \<Rightarrow> rat)) list" where
  "LAUNCH_TOKEN_SAR_PER_M =
    [(''claude-opus-5-5'', sar_tokens 18 90 (9 / 10) (225 / 10) 36),
     (''claude-sonnet-5-5'', sar_tokens 9 45 (9 / 10) (1125 / 100) 18),
     (''claude-haiku-4-5'', sar_tokens (45 / 10) (225 / 10) (45 / 100) (5625 / 1000) 9),
     (''claude-opus-5'', sar_tokens (225 / 10) (1125 / 10) (225 / 100) (28125 / 1000) 45),
     (''claude-opus-4-8'', sar_tokens (225 / 10) (1125 / 10) (225 / 100) (28125 / 1000) 45)]"

record launch_price =
  lp_sku :: string
  lp_resourceType :: resource_type
  lp_unit :: string
  lp_monthlyMinor :: int

definition halalas :: "rat \<Rightarrow> int" where "halalas sar = js_round (js_mul sar 100)"

definition launch_token_row :: "string \<Rightarrow> (token_kind \<Rightarrow> rat) \<Rightarrow> token_sku \<Rightarrow> launch_price" where
  "launch_token_row model p s =
     \<lparr> lp_sku = tokenSku (tk_base s) model, lp_resourceType = tk_resourceType s, lp_unit = TOKEN_PRICE_UNIT,
       lp_monthlyMinor = halalas (js_mul (p (tk_kind s)) 10) \<rparr>"

definition launchPrices :: "launch_price list" where
  "launchPrices =
     [\<lparr> lp_sku = ''connect-executions'', lp_resourceType = RConnectExecution, lp_unit = ''per_1k'',
        lp_monthlyMinor = halalas (js_mul LAUNCH_EXECUTION_SAR 1000) \<rparr>,
      \<lparr> lp_sku = ''connect-tool-calls'', lp_resourceType = RConnectToolCall, lp_unit = ''per_1k'',
        lp_monthlyMinor = halalas (js_mul LAUNCH_TOOL_CALL_SAR 1000) \<rparr>]
     @ concat (map (\<lambda>m. case map_of LAUNCH_TOKEN_SAR_PER_M (pm_id m) of
                          None \<Rightarrow> []
                        | Some p \<Rightarrow> map (launch_token_row (pm_id m) p) TOKEN_SKUS) PRICED_MODELS)"

section \<open>The price book\<close>

type_synonym price_book = "string \<Rightarrow> (id \<times> int) option"

record usage_cache =
  uc_at :: instant
  uc_prices :: price_book

definition valid_prices :: "instant \<Rightarrow> price list \<Rightarrow> price list" where
  "valid_prices when rows =
     sort_key (\<lambda>p. - pr_validFrom p)
       (filter (\<lambda>p. startsWith (pr_sku p) CONNECT_SKU_PREFIX \<and> pr_currency p = BOOK_CURRENCY \<and> pr_validFrom p \<le> when
                    \<and> (case pr_validTo p of None \<Rightarrow> True | Some t \<Rightarrow> when < t)) rows)"

definition book_of :: "price list \<Rightarrow> price_book" where
  "book_of rows sku = map_option (\<lambda>p. (pr_id p, pr_monthlyMinor p)) (find_by pr_sku sku rows)"

definition prices :: "instant option \<Rightarrow> instant \<Rightarrow> price list \<Rightarrow> usage_cache option \<Rightarrow> price_book \<times> usage_cache option" where
  "prices tm now rows cache =
     (case (tm, cache) of
        (None, Some c) \<Rightarrow>
          if now - uc_at c < 60000 then (uc_prices c, cache)
          else (let b = book_of (valid_prices now rows) in (b, Some \<lparr> uc_at = now, uc_prices = b \<rparr>))
      | (None, None) \<Rightarrow> (let b = book_of (valid_prices now rows) in (b, Some \<lparr> uc_at = now, uc_prices = b \<rparr>))
      | (Some t, _) \<Rightarrow> (book_of (valid_prices t rows), cache))"

definition amounts :: "price_book \<Rightarrow> string \<Rightarrow> int option" where
  "amounts b sku = map_option snd (b sku)"

definition estimate ::
  "connect_usage \<Rightarrow> currency \<Rightarrow> instant \<Rightarrow> price list \<Rightarrow> usage_cache option \<Rightarrow> fx_state \<Rightarrow> int \<times> usage_cache option \<times> fx_state" where
  "estimate u currency now rows cache fx =
     (let (b, cache') = prices None now rows cache;
          book = priceUsage u (amounts b)
      in if book = 0 then (0, cache', fx)
         else let (r, fx') = bookRate currency now now fx in (js_round (js_mul book r), cache', fx'))"

section \<open>Metering an hour\<close>

record connect_run =
  cr_projectId :: id
  cr_agentId :: id
  cr_finishedAt :: "instant option"
  cr_toolCalls :: int
  cr_modelUsage :: tokens_by_model

definition runs_in :: "instant \<Rightarrow> connect_run list \<Rightarrow> connect_run list" where
  "runs_in hourStart runs =
     filter (\<lambda>r. case cr_finishedAt r of None \<Rightarrow> False | Some f \<Rightarrow> hourStart \<le> f \<and> f < hourStart + 3600000) runs"

text \<open>The tokens of an agent per model, over the runs of the hour.\<close>
definition tokens_of_agent :: "id \<Rightarrow> connect_run list \<Rightarrow> tokens_by_model" where
  "tokens_of_agent agentId runs =
     fold (\<lambda>(m, t) acc. addTokens acc m t) (concat (map cr_modelUsage (filter (\<lambda>r. cr_agentId r = agentId) runs))) []"

definition group_keys :: "connect_run list \<Rightarrow> (id \<times> id) list" where
  "group_keys runs = remdups (map (\<lambda>r. (cr_projectId r, cr_agentId r)) runs)"

definition group_usage :: "connect_run list \<Rightarrow> id \<times> id \<Rightarrow> connect_usage" where
  "group_usage runs g =
     (let mine = filter (\<lambda>r. (cr_projectId r, cr_agentId r) = g) runs
      in \<lparr> cu_executions = int (length mine), cu_toolCalls = sum_by cr_toolCalls mine,
           cu_models = tokens_of_agent (snd g) runs \<rparr>)"

type_synonym usage_key = "resource_type \<times> id \<times> instant"

definition ur_key :: "usage_record \<Rightarrow> usage_key" where
  "ur_key r = (ur_resourceType r, ur_resourceId r, ur_hourStart r)"

text \<open>One line of a group, with all that is written for it.\<close>
record metered_line =
  ml_projectId :: id
  ml_resourceType :: resource_type
  ml_resourceId :: id
  ml_hourStart :: instant
  ml_quantity :: int
  ml_unit :: string
  ml_priceId :: "id option"
  ml_amountMinor :: int
  ml_currency :: currency

definition metered :: "price_book \<Rightarrow> rat \<Rightarrow> currency \<Rightarrow> instant \<Rightarrow> id \<times> id \<Rightarrow> usage_line \<Rightarrow> metered_line" where
  "metered b r currency hourStart g l =
     \<lparr> ml_projectId = fst g, ml_resourceType = ul_resourceType l,
       ml_resourceId = (case ul_model l of None \<Rightarrow> snd g | Some [] \<Rightarrow> snd g | Some m \<Rightarrow> tokenResourceId (snd g) m),
       ml_hourStart = hourStart, ml_quantity = ul_quantity l, ml_unit = ul_unit l,
       ml_priceId = map_option fst (b (ul_sku l)),
       ml_amountMinor = (case b (ul_sku l) of None \<Rightarrow> 0 | Some _ \<Rightarrow> js_round (js_mul (linePrice l (amounts b)) r)),
       ml_currency = currency \<rparr>"

definition ml_key :: "metered_line \<Rightarrow> usage_key" where
  "ml_key m = (ml_resourceType m, ml_resourceId m, ml_hourStart m)"

definition new_usage :: "(usage_key \<Rightarrow> id) \<Rightarrow> metered_line \<Rightarrow> usage_record" where
  "new_usage newId m =
     \<lparr> ur_id = newId (ml_key m), ur_projectId = ml_projectId m, ur_resourceType = ml_resourceType m,
       ur_resourceId = ml_resourceId m, ur_hourStart = ml_hourStart m, ur_quantity = of_int (ml_quantity m),
       ur_unit = ml_unit m, ur_priceId = ml_priceId m, ur_amountMinor = ml_amountMinor m,
       ur_currency = ml_currency m, ur_invoiceId = None \<rparr>"

definition rewrite_usage :: "metered_line \<Rightarrow> usage_record \<Rightarrow> usage_record" where
  "rewrite_usage m r = r\<lparr> ur_quantity := of_int (ml_quantity m), ur_priceId := ml_priceId m, ur_amountMinor := ml_amountMinor m \<rparr>"

definition write_line :: "(usage_key \<Rightarrow> id) \<Rightarrow> metered_line \<Rightarrow> usage_record list \<Rightarrow> usage_record list" where
  "write_line newId m rows =
     (case find_by ur_key (ml_key m) rows of
        Some r \<Rightarrow>
          if ur_invoiceId r \<noteq> None then rows
          else upsert ur_key (ml_key m) (new_usage newId m) (rewrite_usage m) rows
      | None \<Rightarrow> upsert ur_key (ml_key m) (new_usage newId m) (rewrite_usage m) rows)"

fun meter_groups ::
  "price_book \<Rightarrow> (id \<Rightarrow> currency option) \<Rightarrow> instant \<Rightarrow> instant \<Rightarrow> connect_run list \<Rightarrow> (id \<times> id) list \<Rightarrow> fx_state
     \<Rightarrow> metered_line list \<times> fx_state" where
  "meter_groups b currencyOf hourStart now runs [] fx = ([], fx)"
| "meter_groups b currencyOf hourStart now runs (g # gs) fx =
     (case currencyOf (fst g) of
        None \<Rightarrow> meter_groups b currencyOf hourStart now runs gs fx
      | Some c \<Rightarrow>
          (let (r, fx1) = bookRate c (hourStart + 3600000) now fx;
               (ls, fx2) = meter_groups b currencyOf hourStart now runs gs fx1
           in (map (metered b r c hourStart g) (usageLines (group_usage runs g)) @ ls, fx2)))"

definition meterHour ::
  "(usage_key \<Rightarrow> id) \<Rightarrow> (id \<Rightarrow> currency option) \<Rightarrow> price list \<Rightarrow> instant \<Rightarrow> instant \<Rightarrow> connect_run list
     \<Rightarrow> usage_record list \<times> fx_state \<Rightarrow> usage_record list \<times> fx_state" where
  "meterHour newId currencyOf priceRows hourStart now runs st =
     (let rs = runs_in hourStart runs;
          b = fst (prices (Some (hourStart + 3600000)) now priceRows None);
          (ls, fx') = meter_groups b currencyOf hourStart now rs (group_keys rs) (snd st)
      in (fold (write_line newId) ls (fst st), fx'))"

definition meterPreviousHour ::
  "(usage_key \<Rightarrow> id) \<Rightarrow> (id \<Rightarrow> currency option) \<Rightarrow> price list \<Rightarrow> instant \<Rightarrow> connect_run list
     \<Rightarrow> usage_record list \<times> fx_state \<Rightarrow> usage_record list \<times> fx_state" where
  "meterPreviousHour newId currencyOf priceRows now runs st =
     meterHour newId currencyOf priceRows (startOfHour now - 3600000) now runs st"

section \<open>Metering again changes nothing\<close>

text \<open>With unique keys, a line that leaves invoiced rows alone is an upsert that does so.\<close>
definition rewrite_open :: "metered_line \<Rightarrow> usage_record \<Rightarrow> usage_record" where
  "rewrite_open m r = (if ur_invoiceId r \<noteq> None then r else rewrite_usage m r)"

lemma key_rewrite [simp]: "ur_key (rewrite_usage m r) = ur_key r" "ur_key (rewrite_open m r) = ur_key r" "ur_key (new_usage n m) = ml_key m"
  by (simp_all add: ur_key_def rewrite_usage_def rewrite_open_def new_usage_def ml_key_def)

lemma write_line_upsert:
  assumes "uniq ur_key rows"
  shows "write_line newId m rows = upsert ur_key (ml_key m) (new_usage newId m) (rewrite_open m) rows"
proof (cases "find_by ur_key (ml_key m) rows")
  case None
  then have "ml_key m \<notin> ur_key ` set rows" by (simp add: find_by_None)
  then show ?thesis using None by (simp add: write_line_def upsert_def)
next
  case (Some r)
  then have r: "r \<in> set rows" "ur_key r = ml_key m" using find_by_Some [OF Some] by auto
  then have only: "s = r" if "s \<in> set rows" "ur_key s = ml_key m" for s
    using uniq_inj [OF assms that(1)] that(2) by simp
  have eq: "rewrite_open m s = (if ur_invoiceId r \<noteq> None then s else rewrite_usage m s)"
    if "s \<in> set rows" "ur_key s = ml_key m" for s
    using only [OF that] by (simp add: rewrite_open_def)
  have "update_where (\<lambda>s. ur_key s = ml_key m) (rewrite_open m) rows
     = (if ur_invoiceId r \<noteq> None then rows else update_where (\<lambda>s. ur_key s = ml_key m) (rewrite_usage m) rows)"
    unfolding update_where_def using eq by (auto intro!: map_idI)
  moreover have "ml_key m \<in> ur_key ` set rows" using r by force
  ultimately show ?thesis using Some by (simp add: write_line_def upsert_def)
qed

lemma uniq_upsert: "uniq k rows \<Longrightarrow> k new = x \<Longrightarrow> (\<And>r. k (f r) = k r) \<Longrightarrow> uniq k (upsert k x new f rows)"
  by (auto simp: upsert_def uniq_update_where) (auto simp: uniq_def)

lemma write_line_uniq: "uniq ur_key rows \<Longrightarrow> uniq ur_key (write_line newId m rows)"
  unfolding write_line_upsert by (rule uniq_upsert) simp_all

lemma fold_write_line_uniq: "uniq ur_key rows \<Longrightarrow> uniq ur_key (fold (write_line newId) ls rows)"
  by (induction ls arbitrary: rows) (simp_all add: write_line_uniq)

lemma fold_write_line:
  "uniq ur_key rows \<Longrightarrow>
     fold (write_line newId) ls rows = fold (\<lambda>m. upsert ur_key (ml_key m) (new_usage newId m) (rewrite_open m)) ls rows"
proof (induction ls arbitrary: rows)
  case (Cons m ls)
  show ?case using Cons.IH [OF write_line_uniq [OF Cons.prems, of newId m]]
    by (simp only: fold_Cons comp_apply write_line_upsert [OF Cons.prems])
qed simp

lemma write_lines_again:
  assumes "uniq ur_key rows"
  shows "fold (write_line newId) ls (fold (write_line newId) ls rows) = fold (write_line newId) ls rows"
proof -
  let ?pass = "fold (\<lambda>m. upsert ur_key (ml_key m) (new_usage newId m) (rewrite_open m)) ls"
  have "?pass (?pass rows) = ?pass rows"
    by (rule upsert_pass_idem) (auto simp: rewrite_open_def rewrite_usage_def new_usage_def ur_key_def ml_key_def)
  then show ?thesis
    using fold_write_line [OF fold_write_line_uniq [OF assms], of newId ls newId ls] fold_write_line [OF assms, of newId ls] by simp
qed

lemma write_lines_keep_invoiced:
  assumes "uniq ur_key rows" "r \<in> set rows" "ur_invoiceId r \<noteq> None"
  shows "r \<in> set (fold (write_line newId) ls rows)"
  using assms(1,2)
proof (induction ls arbitrary: rows)
  case (Cons m ls)
  have "r \<in> set (upsert ur_key (ml_key m) (new_usage newId m) (rewrite_open m) rows)"
    using Cons.prems assms(3) by (auto simp: upsert_def in_update_where rewrite_open_def)
  then have "r \<in> set (write_line newId m rows)" by (simp only: write_line_upsert [OF Cons.prems(1)])
  then show ?case using Cons.IH [OF write_line_uniq [OF Cons.prems(1), of newId m]] by simp
qed simp

text \<open>A rate at an instant more than a minute ago is read from the table and not from the cache.\<close>
lemma bookRate_settled:
  assumes "60000 \<le> now - tm"
  shows "snd (bookRate c tm now fx) = fx" "60000 \<le> now' - tm \<Longrightarrow> bookRate c tm now' fx = bookRate c tm now fx"
  using assms by (simp_all add: bookRate_past)

lemma meter_groups_past:
  assumes "60000 \<le> now - (hourStart + 3600000)"
  shows "snd (meter_groups b cur hourStart now rs gs fx) = fx"
    and "60000 \<le> now' - (hourStart + 3600000) \<Longrightarrow> meter_groups b cur hourStart now' rs gs fx = meter_groups b cur hourStart now rs gs fx"
proof -
  have st: "snd (bookRate c (hourStart + 3600000) now fx) = fx" for c by (rule bookRate_settled(1) [OF assms])
  have "snd (meter_groups b cur hourStart now rs gs fx) = fx \<and>
    (60000 \<le> now' - (hourStart + 3600000) \<longrightarrow> meter_groups b cur hourStart now' rs gs fx = meter_groups b cur hourStart now rs gs fx)"
  proof (induction gs)
    case (Cons g gs)
    show ?case
    proof (cases "cur (fst g)")
      case (Some c)
      obtain r where r: "bookRate c (hourStart + 3600000) now fx = (r, fx)" using st [of c] by (metis prod.collapse)
      then have "60000 \<le> now' - (hourStart + 3600000) \<Longrightarrow> bookRate c (hourStart + 3600000) now' fx = (r, fx)"
        using bookRate_settled(2) [OF assms] by simp
      then show ?thesis using Cons Some r by (auto simp: Let_def split: prod.split)
    qed (use Cons in simp)
  qed simp
  then show "snd (meter_groups b cur hourStart now rs gs fx) = fx"
    "60000 \<le> now' - (hourStart + 3600000) \<Longrightarrow> meter_groups b cur hourStart now' rs gs fx = meter_groups b cur hourStart now rs gs fx"
    by blast+
qed

theorem meterHour_again:
  assumes "60000 \<le> now - (hourStart + 3600000)" "now \<le> now'" "uniq ur_key rows"
  shows "meterHour newId cur pr hourStart now' runs (meterHour newId cur pr hourStart now runs (rows, fx))
    = meterHour newId cur pr hourStart now runs (rows, fx)"
proof -
  let ?rs = "runs_in hourStart runs" and ?b = "fst (prices (Some (hourStart + 3600000)) now pr None)"
  have b: "fst (prices (Some (hourStart + 3600000)) now' pr None) = ?b" by (simp add: prices_def)
  obtain ls where ls: "meter_groups ?b cur hourStart now ?rs (group_keys ?rs) fx = (ls, fx)"
    using meter_groups_past(1) [OF assms(1)] by (metis prod.collapse)
  have "60000 \<le> now' - (hourStart + 3600000)" using assms(1,2) by simp
  then have ls': "meter_groups ?b cur hourStart now' ?rs (group_keys ?rs) fx = (ls, fx)"
    using meter_groups_past(2) [OF assms(1)] ls by simp
  show ?thesis by (simp add: meterHour_def Let_def b ls ls' write_lines_again [OF assms(3)])
qed

theorem meterHour_keeps_invoiced:
  assumes "uniq ur_key rows" "r \<in> set rows" "ur_invoiceId r \<noteq> None"
  shows "r \<in> set (fst (meterHour newId cur pr hourStart now runs (rows, fx)))"
  by (simp add: meterHour_def Let_def write_lines_keep_invoiced [OF assms] split: prod.split)

section \<open>Keys of the records\<close>

lemma indexOf_first: "c \<notin> set a \<Longrightarrow> indexOf (a @ c # b) [c] = Some (length a)"
  by (induction a) (auto simp: startsWith_def)

theorem token_resource_round_trip:
  "CHR '':'' \<notin> set agentId \<Longrightarrow> parseTokenResourceId (tokenResourceId agentId model) = (agentId, Some model)"
  using indexOf_first [of "CHR '':''" agentId model] by (simp add: parseTokenResourceId_def tokenResourceId_def)

theorem billingModel_priced:
  assumes "isKnownModel requested"
  shows "billingModel servedBy requested \<in> pm_id ` set PRICED_MODELS"
proof (cases "pricedModel servedBy")
  case None
  then show ?thesis using assms
    by (auto simp: billingModel_def isKnownModel_def findModel_def PRICED_MODELS_def find_by_None)
next
  case (Some m)
  then have "m \<in> set PRICED_MODELS"
    by (auto simp: pricedModel_def dest: find_by_Some split: option.splits list.splits) (auto simp: find_Some_iff)
  then show ?thesis using Some by (simp add: billingModel_def)
qed

section \<open>The launch prices are whole\<close>

lemma halalas_exact:
  assumes "s * p * 100 = of_int K" "1 / 1000 \<le> s" "1 \<le> p" "K \<le> 2 ^ 40"
  shows "halalas (js_mul (fl s) p) = K"
  unfolding halalas_def using assms by (intro round_product_exact) simp_all

lemma launch_halalas:
  "halalas (js_mul (fl (1 / 25)) 1000) = 4000" "halalas (js_mul (fl (1 / 50)) 1000) = 2000"
  "halalas (js_mul (fl 18) 10) = 18000" "halalas (js_mul (fl 90) 10) = 90000" "halalas (js_mul (fl (9 / 10)) 10) = 900"
  "halalas (js_mul (fl (45 / 2)) 10) = 22500" "halalas (js_mul (fl 36) 10) = 36000" "halalas (js_mul (fl 9) 10) = 9000"
  "halalas (js_mul (fl 45) 10) = 45000" "halalas (js_mul (fl (45 / 4)) 10) = 11250" "halalas (js_mul (fl (9 / 2)) 10) = 4500"
  "halalas (js_mul (fl (9 / 20)) 10) = 450" "halalas (js_mul (fl (45 / 8)) 10) = 5625" "halalas (js_mul (fl (225 / 2)) 10) = 112500"
  "halalas (js_mul (fl (9 / 4)) 10) = 2250" "halalas (js_mul (fl (225 / 8)) 10) = 28125"
  by (rule halalas_exact; simp)+

theorem launch_prices_whole:
  "map lp_monthlyMinor launchPrices =
     [4000, 2000,
      18000, 90000, 900, 22500, 36000,
      9000, 45000, 900, 11250, 18000,
      4500, 22500, 450, 5625, 9000,
      22500, 112500, 2250, 28125, 45000,
      22500, 112500, 2250, 28125, 45000]"
  by (simp add: launchPrices_def PRICED_MODELS_def MODELS_def BILLING_ONLY_MODELS_def LAUNCH_TOKEN_SAR_PER_M_def
      TOKEN_SKUS_def launch_token_row_def sar_tokens_def LAUNCH_EXECUTION_SAR_def LAUNCH_TOOL_CALL_SAR_def launch_halalas)

end
