(* ===== verification/Json.thy ===== *)
theory Json
  imports JS_Number JS_String
begin

text \<open>
  JSON values as JavaScript holds them: \<open>undefined\<close>, the infinities a numeric literal can overflow
  to, and objects as lists of own properties in enumeration order.  \<open>Number.prototype.toString\<close>
  prints the shortest decimal of a double; it is the parameter \<open>numStr\<close> of the serialisers.
\<close>

datatype json = JUndef | JNull | JBool bool | JNum rat | JInf bool | JStr string
  | JArr "json list" | JObj "(string \<times> json) list"

definition isObj :: "json \<Rightarrow> bool" where
  "isObj v \<longleftrightarrow> (case v of JObj _ \<Rightarrow> True | _ \<Rightarrow> False)"

text \<open>Reading a property that may be missing.\<close>

definition get_prop :: "string \<Rightarrow> (string \<times> json) list \<Rightarrow> json" where
  "get_prop k fields = (case map_of fields k of None \<Rightarrow> JUndef | Some v \<Rightarrow> v)"

section \<open>JSON.stringify\<close>

definition hex_digit :: "nat \<Rightarrow> char" where
  "hex_digit n = (if n < 10 then char_of (48 + n) else char_of (87 + n))"

definition quote_char :: "char \<Rightarrow> string" where
  "quote_char c =
     (let n = of_char c :: nat; bs = CHR 0x5C in
      if n = 34 then [bs, CHR 0x22]
      else if n = 92 then [bs, bs]
      else if n = 8 then [bs, CHR ''b'']
      else if n = 12 then [bs, CHR ''f'']
      else if n = 10 then [bs, CHR ''n'']
      else if n = 13 then [bs, CHR ''r'']
      else if n = 9 then [bs, CHR ''t'']
      else if n < 32 then [bs, CHR ''u'', CHR ''0'', CHR ''0'', hex_digit (n div 16), hex_digit (n mod 16)]
      else [c])"

definition quote :: "string \<Rightarrow> string" where
  "quote s = [CHR 0x22] @ concat (map quote_char s) @ [CHR 0x22]"

fun json_str :: "(rat \<Rightarrow> string) \<Rightarrow> json \<Rightarrow> string"
and json_items :: "(rat \<Rightarrow> string) \<Rightarrow> json list \<Rightarrow> string list"
and json_fields :: "(rat \<Rightarrow> string) \<Rightarrow> (string \<times> json) list \<Rightarrow> string list" where
  "json_str numStr JUndef = ''null''"
| "json_str numStr JNull = ''null''"
| "json_str numStr (JBool b) = (if b then ''true'' else ''false'')"
| "json_str numStr (JNum q) = numStr q"
| "json_str numStr (JInf neg) = ''null''"
| "json_str numStr (JStr s) = quote s"
| "json_str numStr (JArr vs) = ''['' @ join '','' (json_items numStr vs) @ '']''"
| "json_str numStr (JObj fs) = ''{'' @ join '','' (json_fields numStr fs) @ ''}''"
| "json_items numStr [] = []"
| "json_items numStr (v # vs) = json_str numStr v # json_items numStr vs"
| "json_fields numStr [] = []"
| "json_fields numStr ((k, v) # fs) =
     (if v = JUndef then json_fields numStr fs
      else (quote k @ '':'' @ json_str numStr v) # json_fields numStr fs)"

text \<open>\<open>String (v)\<close> of a JSON value.\<close>
fun js_String :: "(rat \<Rightarrow> string) \<Rightarrow> json \<Rightarrow> string"
and js_String_item :: "(rat \<Rightarrow> string) \<Rightarrow> json \<Rightarrow> string" where
  "js_String numStr JUndef = ''undefined''"
| "js_String numStr JNull = ''null''"
| "js_String numStr (JBool b) = (if b then ''true'' else ''false'')"
| "js_String numStr (JNum q) = numStr q"
| "js_String numStr (JInf neg) = (if neg then ''-Infinity'' else ''Infinity'')"
| "js_String numStr (JStr s) = s"
| "js_String numStr (JArr vs) = join '','' (map (js_String_item numStr) vs)"
| "js_String numStr (JObj fs) = ''[object Object]''"
| "js_String_item numStr v = (if v = JUndef \<or> v = JNull then [] else js_String numStr v)"

section \<open>Numbers in text\<close>

text \<open>
  \<open>Number(s)\<close> of a string, after the ECMAScript grammar; None stands for \<open>NaN\<close> and the infinities.
\<close>

definition hex_value :: "char \<Rightarrow> nat" where
  "hex_value c = (if is_digit c then char_digit c else of_char (lower_char c) - 87)"

definition radix_value :: "nat \<Rightarrow> string \<Rightarrow> rat option" where
  "radix_value b s =
     (if s \<noteq> [] \<and> (\<forall>c\<in>set s. is_hex c \<and> hex_value c < b)
      then Some (fl (of_nat (foldl (\<lambda>n c. b * n + hex_value c) 0 s))) else None)"

definition exponent_part :: "rat \<Rightarrow> string \<Rightarrow> rat option" where
  "exponent_part mant s =
     (let (neg, ds) = (case s of [] \<Rightarrow> (False, []) | c # r \<Rightarrow>
                         if c = CHR ''-'' then (True, r) else if c = CHR ''+'' then (False, r) else (False, s))
      in if ds = [] \<or> \<not> list_all is_digit ds then None
         else Some (if neg then mant / 10 ^ parse_nat ds else mant * 10 ^ parse_nat ds))"

definition unsigned_decimal :: "string \<Rightarrow> rat option" where
  "unsigned_decimal s =
     (let ip = takeWhile is_digit s;
          r1 = dropWhile is_digit s;
          dot = (r1 \<noteq> [] \<and> hd r1 = CHR ''.'');
          fp = (if dot then takeWhile is_digit (tl r1) else []);
          r2 = (if dot then dropWhile is_digit (tl r1) else r1);
          mant = of_nat (parse_nat ip) + of_nat (parse_nat fp) / 10 ^ length fp
      in if ip = [] \<and> fp = [] then None
         else case r2 of
                [] \<Rightarrow> Some mant
              | c # r \<Rightarrow> if c = CHR ''e'' \<or> c = CHR ''E'' then exponent_part mant r else None)"

definition js_Number :: "string \<Rightarrow> rat option" where
  "js_Number str =
     (let s = trim str;
          dec = (\<lambda>t. case unsigned_decimal t of None \<Rightarrow> None
                   | Some x \<Rightarrow> if 2 ^ 1024 \<le> fl x then None else Some (fl x))
      in if s = [] then Some 0
         else if startsWith (toLowerCase s) ''0x'' then radix_value 16 (drop 2 s)
         else if startsWith (toLowerCase s) ''0o'' then radix_value 8 (drop 2 s)
         else if startsWith (toLowerCase s) ''0b'' then radix_value 2 (drop 2 s)
         else if hd s = CHR ''-'' then map_option uminus (dec (tl s))
         else if hd s = CHR ''+'' then dec (tl s)
         else dec s)"

section \<open>Decimal texts\<close>

lemma digit_facts:
  assumes "is_digit c"
  shows "lower_char c = c" "\<not> is_space c" "c \<noteq> CHR ''-''" "c \<noteq> CHR ''+''" "c \<notin> {CHR ''x'', CHR ''o'', CHR ''b''}"
  using assms by (auto simp: is_digit_def lower_char_def is_upper_def is_space_def Let_def)

lemma unsigned_decimal_digits:
  assumes "list_all is_digit s" "s \<noteq> []"
  shows "unsigned_decimal s = Some (of_nat (parse_nat s))"
proof -
  have tw: "takeWhile is_digit s = s" and dw: "dropWhile is_digit s = []"
    using assms(1) by (simp_all add: takeWhile_eq_all_conv list_all_iff)
  show ?thesis using assms(2) unfolding unsigned_decimal_def Let_def tw dw by (simp add: parse_nat_def)
qed

lemma digits_not_radix:
  assumes "list_all is_digit s"
  shows "\<not> startsWith s ''0x''" "\<not> startsWith s ''0o''" "\<not> startsWith s ''0b''"
proof -
  have "CHR ''x'' \<notin> set s" "CHR ''o'' \<notin> set s" "CHR ''b'' \<notin> set s"
    using assms digit_facts(5) by (auto simp: list_all_iff)
  then show "\<not> startsWith s ''0x''" "\<not> startsWith s ''0o''" "\<not> startsWith s ''0b''"
    by (auto simp: startsWith_iff)
qed

lemma js_Number_digits:
  assumes "list_all is_digit s" "s \<noteq> []" "parse_nat s \<le> 2 ^ 53"
  shows "js_Number s = Some (of_nat (parse_nat s))"
proof -
  have d: "is_digit c" if "c \<in> set s" for c using assms(1) that by (simp add: list_all_iff)
  have "toLowerCase s = s" using d digit_facts(1) by (simp add: toLowerCase_def map_idI)
  moreover have "trim s = s" using d assms(2) digit_facts(2) by (intro trim_id) simp
  moreover have "hd s \<noteq> CHR ''-''" "hd s \<noteq> CHR ''+''" using d assms(2) digit_facts(3,4) by (metis list.set_sel(1))+
  moreover have fl: "fl (of_nat (parse_nat s)) = of_nat (parse_nat s)"
    using fl_of_int [of "int (parse_nat s)"] assms(3) by (simp add: of_nat_le_iff flip: of_nat_power)
  moreover have "\<not> (2::rat) ^ 1024 \<le> of_nat (parse_nat s)"
  proof -
    have "parse_nat s < 2 ^ 1024" using assms(3) by (rule le_less_trans) simp
    then have "(of_nat (parse_nat s) :: rat) < of_nat (2 ^ 1024)" by (simp only: of_nat_less_iff)
    then show ?thesis by simp
  qed
  ultimately show ?thesis
    using assms(2) digits_not_radix [OF assms(1)] unsigned_decimal_digits [OF assms(1,2)]
    by (simp add: js_Number_def Let_def)
qed

lemma js_Number_show_nat: "n \<le> 2 ^ 53 \<Longrightarrow> js_Number (show_nat n) = Some (of_nat n)"
  using js_Number_digits [of "show_nat n"] show_nat_digits [of n] by (simp add: list_all_iff)

end
