(* ===== verification/Agent_Loop.thy ===== *)
theory Agent_Loop
  imports Connect_Usage Json "HOL-Library.AList"
begin

text \<open>
  The loop that talks to the model on behalf of an agent
  (\<^verbatim>\<open>src/apps/api/src/modules/connect/runtime/agent-loop.ts\<close>) and the readers of message content
  it uses (\<^verbatim>\<open>src/apps/api/src/modules/connect/models/provider.ts\<close>).

  What the loop is given - the checks before a model call, the model, the record of its answer,
  the execution of a turn's tool calls - is the record \<open>loop_deps\<close> over a world \<open>'w\<close> that every
  call may change; a call that throws gives an exception of type \<open>'e\<close>.  \<open>turn\<close> is one iteration
  of the \<open>for (;;)\<close>, \<open>agent_loop\<close> the loop, whose value is None when it never ends, and
  \<open>runAgentLoop\<close> the whole function with the resumption of a paused turn.

  \<open>conversation_ok\<close> is what a provider requires of the messages it is sent: the calls of every
  assistant message are answered, each once and in their order, by the user message that follows.
  The locale \<open>loop_host\<close> states what the loop needs of its caller to keep that, and to end.
\<close>

section \<open>Blocks and messages\<close>

type_synonym block = "(string \<times> json) list"

datatype chat_role = RUser | RAssistant

record chat_message =
  cm_role :: chat_role
  cm_content :: "block list"

record tool_use =
  use_id :: string
  use_name :: string
  use_input :: json

definition has_type :: "string \<Rightarrow> block \<Rightarrow> bool" where
  "has_type t b \<longleftrightarrow> get_prop ''type'' b = JStr t"

definition block_text :: "block \<Rightarrow> string option" where
  "block_text b = (case get_prop ''text'' b of JStr s \<Rightarrow> Some s | _ \<Rightarrow> None)"

definition textOf :: "block list \<Rightarrow> string" where
  "textOf content = concat (List.map_filter (\<lambda>b. if has_type ''text'' b then block_text b else None) content)"

definition tool_use_of :: "(rat \<Rightarrow> string) \<Rightarrow> block \<Rightarrow> tool_use" where
  "tool_use_of numStr b =
     \<lparr>use_id = js_String numStr (get_prop ''id'' b), use_name = js_String numStr (get_prop ''name'' b),
      use_input = get_prop ''input'' b\<rparr>"

definition toolUsesOf :: "(rat \<Rightarrow> string) \<Rightarrow> block list \<Rightarrow> tool_use list" where
  "toolUsesOf numStr content = map (tool_use_of numStr) (filter (has_type ''tool_use'') content)"

definition last_index :: "('a \<Rightarrow> bool) \<Rightarrow> 'a list \<Rightarrow> nat option" where
  "last_index p xs =
     (let found = filter (\<lambda>i. p (xs ! i)) [0..<length xs] in if found = [] then None else Some (last found))"

definition echoable :: "block list \<Rightarrow> block list" where
  "echoable content =
     (case last_index (has_type ''fallback'') content of
        None \<Rightarrow> content
      | Some i \<Rightarrow> filter (has_type ''text'') (take i content) @ drop (Suc i) content)"

section \<open>The state of the loop\<close>

datatype tool_outcome = Outcome string bool | NeedsApproval string string

record pending_call =
  pc_toolUseId :: string
  pc_name :: string
  pc_input :: json
  pc_approvalId :: string
  pc_result :: "(string \<times> bool) option"

record loop_state =
  ls_messages :: "chat_message list"
  ls_results :: "block list option"
  ls_pending :: "pending_call list option"
  ls_order :: "string list option"
  ls_pauses :: "nat option"

datatype loop_result =
    LDone string json loop_state
  | LWaiting loop_state "string list"
  | LFailed string string json "string option" loop_state

definition MAX_PAUSES :: nat where "MAX_PAUSES = 5"

definition initialState :: "string \<Rightarrow> loop_state" where
  "initialState prompt =
     \<lparr>ls_messages = [\<lparr>cm_role = RUser, cm_content = [[(''type'', JStr ''text''), (''text'', JStr prompt)]]\<rparr>],
      ls_results = None, ls_pending = None, ls_order = None, ls_pauses = None\<rparr>"

definition resultBlock :: "string \<Rightarrow> string \<times> bool \<Rightarrow> block" where
  "resultBlock i r =
     [(''type'', JStr ''tool_result''), (''tool_use_id'', JStr i), (''content'', JStr (fst r))]
     @ (if snd r then [(''is_error'', JBool True)] else [])"

record model_response =
  mr_content :: "block list"
  mr_stopReason :: string
  mr_stopDetails :: json
  mr_usage :: token_usage
  mr_attempts :: "(string \<times> token_usage) list option"
  mr_servedBy :: string
  mr_fallbacks :: "json list"

text \<open>
  The dependencies of the loop.  \<open>ld_executeTools\<close> is \<open>Promise.all\<close> over the calls of a turn: the
  settled calls in the order of the calls, an \<open>Inl\<close> for one that threw with its message.
  \<open>ld_parseJson\<close>, \<open>ld_schemaErrors\<close> and \<open>ld_numStr\<close> are \<open>JSON.parse\<close>, the schema validator and
  \<open>Number.prototype.toString\<close>.
\<close>

record ('w, 'e) loop_deps =
  ld_beforeModelCall :: "'w \<Rightarrow> 'e option \<times> 'w"
  ld_complete :: "chat_message list \<Rightarrow> 'w \<Rightarrow> ('e + model_response) \<times> 'w"
  ld_onModelResponse :: "model_response \<Rightarrow> 'w \<Rightarrow> 'e option \<times> 'w"
  ld_executeTools :: "tool_use list \<Rightarrow> 'w \<Rightarrow> (string + tool_outcome) list \<times> 'w"
  ld_outputSchema :: "json option"
  ld_numStr :: "rat \<Rightarrow> string"
  ld_parseJson :: "string \<Rightarrow> json option"
  ld_schemaErrors :: "json \<Rightarrow> json \<Rightarrow> string option"

section \<open>Resuming a paused turn\<close>

definition undecided :: "pending_call list \<Rightarrow> pending_call list" where
  "undecided ps = filter (\<lambda>p. pc_result p = None) ps"

definition pending_list :: "loop_state \<Rightarrow> pending_call list" where
  "pending_list st = (case ls_pending st of None \<Rightarrow> [] | Some ps \<Rightarrow> ps)"

definition results_list :: "loop_state \<Rightarrow> block list" where
  "results_list st = (case ls_results st of None \<Rightarrow> [] | Some bs \<Rightarrow> bs)"

definition decided_result :: "pending_call \<Rightarrow> string \<times> bool" where
  "decided_result p = (case pc_result p of None \<Rightarrow> ([], False) | Some r \<Rightarrow> r)"

definition blocks_by_id :: "(rat \<Rightarrow> string) \<Rightarrow> loop_state \<Rightarrow> (string \<times> block) list" where
  "blocks_by_id ns st =
     fold (\<lambda>p. AList.update (pc_toolUseId p) (resultBlock (pc_toolUseId p) (decided_result p))) (pending_list st)
       (fold (\<lambda>b. AList.update (js_String ns (get_prop ''tool_use_id'' b)) b) (results_list st) [])"

definition ordered_results :: "(rat \<Rightarrow> string) \<Rightarrow> loop_state \<Rightarrow> block list" where
  "ordered_results ns st =
     (let byId = blocks_by_id ns st;
          ids = (case ls_order st of None \<Rightarrow> map fst byId | Some o' \<Rightarrow> o')
      in List.map_filter (map_of byId) ids)"

text \<open>The prologue: \<open>Inl\<close> the approvals still missing, \<open>Inr\<close> the state the loop starts from.\<close>

definition resume_turn :: "(rat \<Rightarrow> string) \<Rightarrow> loop_state \<Rightarrow> string list + loop_state" where
  "resume_turn ns st =
     (if pending_list st = [] then Inr st
      else if undecided (pending_list st) \<noteq> [] then Inl (map pc_approvalId (undecided (pending_list st)))
      else Inr (st\<lparr>ls_messages := ls_messages st @ [\<lparr>cm_role = RUser, cm_content = ordered_results ns st\<rparr>],
                   ls_pending := None, ls_results := None, ls_order := None\<rparr>))"

section \<open>One iteration\<close>

datatype 'e turn_end = Thrown 'e | Returned loop_result | Again loop_state

definition say :: "chat_role \<Rightarrow> block list \<Rightarrow> loop_state \<Rightarrow> loop_state" where
  "say r content st = st\<lparr>ls_messages := ls_messages st @ [\<lparr>cm_role = r, cm_content = content\<rparr>]\<rparr>"

definition settled_call :: "string + tool_outcome \<Rightarrow> tool_outcome" where
  "settled_call s = (case s of Inl msg \<Rightarrow> Outcome (''Tool failed: '' @ msg) True | Inr o' \<Rightarrow> o')"

definition result_of_call :: "tool_use \<times> tool_outcome \<Rightarrow> block option" where
  "result_of_call uo = (case snd uo of Outcome c e \<Rightarrow> Some (resultBlock (use_id (fst uo)) (c, e)) | NeedsApproval _ _ \<Rightarrow> None)"

definition pending_of_call :: "tool_use \<times> tool_outcome \<Rightarrow> pending_call option" where
  "pending_of_call uo =
     (case snd uo of
        Outcome _ _ \<Rightarrow> None
      | NeedsApproval a _ \<Rightarrow> Some \<lparr>pc_toolUseId = use_id (fst uo), pc_name = use_name (fst uo),
                                  pc_input = use_input (fst uo), pc_approvalId = a, pc_result = None\<rparr>)"

definition tool_turn :: "('w, 'e) loop_deps \<Rightarrow> tool_use list \<Rightarrow> loop_state \<Rightarrow> 'w \<Rightarrow> 'e turn_end \<times> 'w" where
  "tool_turn d uses st w =
     (let (calls, w') = ld_executeTools d uses w;
          pairs = zip uses (map settled_call calls);
          results = List.map_filter result_of_call pairs;
          pending = List.map_filter pending_of_call pairs
      in if pending \<noteq> []
         then (Returned (LWaiting (st\<lparr>ls_results := Some results, ls_pending := Some pending,
                                      ls_order := Some (map use_id uses)\<rparr>) (map pc_approvalId pending)), w')
         else (Again (say RUser results st), w'))"

definition final_answer :: "('w, 'e) loop_deps \<Rightarrow> block list \<Rightarrow> loop_state \<Rightarrow> loop_result" where
  "final_answer d content st =
     (let txt = textOf content
      in case ld_outputSchema d of
           None \<Rightarrow> LDone txt JUndef st
         | Some schema \<Rightarrow>
             (case ld_parseJson d txt of
                None \<Rightarrow> LFailed ''invalid_output'' ''The model answer is not valid JSON for the output schema.'' JUndef (Some txt) st
              | Some v \<Rightarrow>
                  (case ld_schemaErrors d schema v of
                     Some problems \<Rightarrow> LFailed ''invalid_output''
                       (''The model answer does not match the output schema: '' @ problems) JUndef (Some txt) st
                   | None \<Rightarrow> LDone txt v st)))"

definition after_response :: "('w, 'e) loop_deps \<Rightarrow> model_response \<Rightarrow> loop_state \<Rightarrow> 'w \<Rightarrow> 'e turn_end \<times> 'w" where
  "after_response d res st w =
     (let content = echoable (mr_content res); stop = mr_stopReason res; uses = toolUsesOf (ld_numStr d) content;
          st1 = say RAssistant content st
      in if stop = ''refusal'' then
           (Returned (LFailed ''model_refused'' ''The model declined this request.''
              (if mr_stopDetails res = JUndef then JNull else mr_stopDetails res) None st), w)
         else if stop = ''max_tokens'' then
           (Returned (LFailed ''max_tokens''
              ''The model reached its output limit before finishing. Shorten the task or raise the limits.''
              JUndef (Some (textOf content)) st), w)
         else if stop = ''model_context_window_exceeded'' then
           (Returned (LFailed ''context_window_exceeded''
              ''The conversation no longer fits the model context window.'' JUndef None st), w)
         else if stop = ''pause_turn'' then
           (let pauses = (case ls_pauses st1 of None \<Rightarrow> 0 | Some n \<Rightarrow> n) + 1;
                st2 = st1\<lparr>ls_pauses := Some pauses\<rparr>
            in if MAX_PAUSES < pauses
               then (Returned (LFailed ''too_many_pauses'' ''The model paused too many times.'' JUndef None st2), w)
               else (Again st2, w))
         else if stop = ''tool_use'' \<and> uses \<noteq> [] then tool_turn d uses st1 w
         else (Returned (final_answer d content st1), w))"

definition turn :: "('w, 'e) loop_deps \<Rightarrow> loop_state \<Rightarrow> 'w \<Rightarrow> 'e turn_end \<times> 'w" where
  "turn d st w =
     (case ld_beforeModelCall d w of
        (Some e, w1) \<Rightarrow> (Thrown e, w1)
      | (None, w1) \<Rightarrow>
          (case ld_complete d (ls_messages st) w1 of
             (Inl e, w2) \<Rightarrow> (Thrown e, w2)
           | (Inr res, w2) \<Rightarrow>
               (case ld_onModelResponse d res w2 of
                  (Some e, w3) \<Rightarrow> (Thrown e, w3)
                | (None, w3) \<Rightarrow> after_response d res st w3)))"

section \<open>The loop\<close>

partial_function (option) agent_loop ::
  "('w, 'e) loop_deps \<Rightarrow> loop_state \<Rightarrow> 'w \<Rightarrow> (('e + loop_result) \<times> 'w) option" where
  "agent_loop d st w =
     (case turn d st w of
        (Thrown e, w') \<Rightarrow> Some (Inl e, w')
      | (Returned r, w') \<Rightarrow> Some (Inr r, w')
      | (Again st', w') \<Rightarrow> agent_loop d st' w')"

declare agent_loop.simps [code]

definition runAgentLoop :: "('w, 'e) loop_deps \<Rightarrow> loop_state \<Rightarrow> 'w \<Rightarrow> (('e + loop_result) \<times> 'w) option" where
  "runAgentLoop d start w =
     (case resume_turn (ld_numStr d) start of
        Inl approvals \<Rightarrow> Some (Inr (LWaiting start approvals), w)
      | Inr st \<Rightarrow> agent_loop d st w)"

text \<open>The conversations the model is asked to continue, in a run that may or may not end.\<close>

inductive asked :: "('w, 'e) loop_deps \<Rightarrow> loop_state \<Rightarrow> 'w \<Rightarrow> chat_message list \<Rightarrow> bool" for d where
  asked_now: "ld_beforeModelCall d w = (None, w1) \<Longrightarrow> asked d st w (ls_messages st)"
| asked_later: "turn d st w = (Again st', w') \<Longrightarrow> asked d st' w' ms \<Longrightarrow> asked d st w ms"

section \<open>Conversations a provider accepts\<close>

definition answer_id :: "(rat \<Rightarrow> string) \<Rightarrow> block \<Rightarrow> string" where
  "answer_id ns b = js_String ns (get_prop ''tool_use_id'' b)"

definition uses_in :: "(rat \<Rightarrow> string) \<Rightarrow> chat_message \<Rightarrow> tool_use list" where
  "uses_in ns m = toolUsesOf ns (cm_content m)"

definition answers :: "(rat \<Rightarrow> string) \<Rightarrow> chat_message \<Rightarrow> chat_message \<Rightarrow> bool" where
  "answers ns m m' \<longleftrightarrow>
     (if cm_role m = RAssistant \<and> uses_in ns m \<noteq> []
      then cm_role m' = RUser \<and> map (answer_id ns) (cm_content m') = map use_id (uses_in ns m)
      else cm_role m' = RAssistant)"

definition chat_opened :: "(rat \<Rightarrow> string) \<Rightarrow> chat_message list \<Rightarrow> bool" where
  "chat_opened ns ms \<longleftrightarrow> ms \<noteq> [] \<and> cm_role (hd ms) = RUser \<and> successively (answers ns) ms"

definition unanswered :: "(rat \<Rightarrow> string) \<Rightarrow> chat_message \<Rightarrow> bool" where
  "unanswered ns m \<longleftrightarrow> cm_role m = RAssistant \<and> uses_in ns m \<noteq> []"

definition conversation_ok :: "(rat \<Rightarrow> string) \<Rightarrow> chat_message list \<Rightarrow> bool" where
  "conversation_ok ns ms \<longleftrightarrow> chat_opened ns ms \<and> \<not> unanswered ns (last ms)"

text \<open>A state the loop can be started from, and the one it leaves behind when it waits for people.\<close>

definition resumable :: "(rat \<Rightarrow> string) \<Rightarrow> loop_state \<Rightarrow> bool" where
  "resumable ns st \<longleftrightarrow>
     (if pending_list st = [] then conversation_ok ns (ls_messages st)
      else chat_opened ns (ls_messages st) \<and> unanswered ns (last (ls_messages st))
           \<and> ls_order st = Some (map use_id (uses_in ns (last (ls_messages st))))
           \<and> use_id ` set (uses_in ns (last (ls_messages st)))
               \<subseteq> answer_id ns ` set (results_list st) \<union> pc_toolUseId ` set (pending_list st))"

lemma answer_id_resultBlock [simp]: "answer_id ns (resultBlock i r) = i"
  by (simp add: answer_id_def resultBlock_def get_prop_def)

lemma initial_resumable: "resumable ns (initialState prompt)"
  by (simp add: resumable_def initialState_def pending_list_def conversation_ok_def chat_opened_def unanswered_def)

lemma chat_opened_snoc:
  "chat_opened ns ms \<Longrightarrow> chat_opened ns (ms @ [m]) \<longleftrightarrow> answers ns (last ms) m"
  by (auto simp: chat_opened_def successively_append_iff)

lemma chat_opened_assistant:
  assumes "conversation_ok ns ms"
  shows "chat_opened ns (ms @ [\<lparr>cm_role = RAssistant, cm_content = c\<rparr>])"
  using assms by (simp add: conversation_ok_def chat_opened_snoc answers_def unanswered_def)

lemma answered_ok:
  assumes "chat_opened ns ms" "unanswered ns (last ms)" "map (answer_id ns) bs = map use_id (uses_in ns (last ms))"
  shows "conversation_ok ns (ms @ [\<lparr>cm_role = RUser, cm_content = bs\<rparr>])"
  using assms by (simp add: conversation_ok_def chat_opened_snoc answers_def unanswered_def)

subsection \<open>The results of a paused turn\<close>

lemma map_of_fold_update:
  "map_of (fold (\<lambda>x. AList.update (f x) (g x)) xs al) = fold (\<lambda>x m. m(f x \<mapsto> g x)) xs (map_of al)"
  by (induction xs arbitrary: al) (simp_all add: update_conv')

lemma fold_upd_dom: "dom (fold (\<lambda>x m. m(f x \<mapsto> g x)) xs m0) = dom m0 \<union> f ` set xs"
  by (induction xs arbitrary: m0) auto

lemma fold_upd_entry:
  assumes "\<And>k v. m0 k = Some v \<Longrightarrow> h v = k" "\<And>x. x \<in> set xs \<Longrightarrow> h (g x) = f x"
  shows "fold (\<lambda>x m. m(f x \<mapsto> g x)) xs m0 k = Some v \<Longrightarrow> h v = k"
  using assms by (induction xs arbitrary: m0) (auto split: if_splits, fastforce+)

lemma map_filter_keys:
  assumes "\<And>k v. m k = Some v \<Longrightarrow> h v = k" "set ks \<subseteq> dom m"
  shows "map h (List.map_filter m ks) = ks"
  using assms(2) by (induction ks) (auto simp: List.map_filter_simps dest: assms(1))

lemma blocks_entry: "map_of (blocks_by_id ns st) k = Some b \<Longrightarrow> answer_id ns b = k"
  unfolding blocks_by_id_def map_of_fold_update
  by (erule fold_upd_entry [rotated 2])
     (auto simp: answer_id_def [symmetric] elim!: fold_upd_entry [rotated 2])

lemma blocks_dom:
  "dom (map_of (blocks_by_id ns st)) = answer_id ns ` set (results_list st) \<union> pc_toolUseId ` set (pending_list st)"
  by (simp add: blocks_by_id_def map_of_fold_update fold_upd_dom answer_id_def)

lemma ordered_results_ids:
  assumes "ls_order st = Some ids"
    "set ids \<subseteq> answer_id ns ` set (results_list st) \<union> pc_toolUseId ` set (pending_list st)"
  shows "map (answer_id ns) (ordered_results ns st) = ids"
  using assms map_filter_keys [of "map_of (blocks_by_id ns st)" "answer_id ns" ids] blocks_entry
  by (auto simp: ordered_results_def blocks_dom)

lemma resume_turn_ok:
  assumes "resumable ns st" "resume_turn ns st = Inr st'"
  shows "conversation_ok ns (ls_messages st')" "pending_list st' = []"
proof -
  show "conversation_ok ns (ls_messages st')"
  proof (cases "pending_list st = []")
    case True
    with assms show ?thesis by (simp add: resumable_def resume_turn_def)
  next
    case False
    define ids where "ids = map use_id (uses_in ns (last (ls_messages st)))"
    have "map (answer_id ns) (ordered_results ns st) = ids"
      using assms(1) False by (intro ordered_results_ids) (simp_all add: resumable_def ids_def)
    with assms False show ?thesis
      by (auto simp: resumable_def resume_turn_def ids_def split: if_splits intro!: answered_ok)
  qed
  show "pending_list st' = []"
    using assms(2) by (auto simp: resume_turn_def pending_list_def split: if_splits)
qed

subsection \<open>The results of a turn\<close>

lemma turn_results:
  assumes "length uses = length outs" "List.map_filter pending_of_call (zip uses outs) = []"
  shows "map (answer_id ns) (List.map_filter result_of_call (zip uses outs)) = map use_id uses"
  using assms
  by (induction uses outs rule: list_induct2)
     (auto simp: List.map_filter_simps pending_of_call_def result_of_call_def split: tool_outcome.splits)

lemma turn_covers:
  assumes "length uses = length outs"
  shows "use_id ` set uses \<subseteq> answer_id ns ` set (List.map_filter result_of_call (zip uses outs))
           \<union> pc_toolUseId ` set (List.map_filter pending_of_call (zip uses outs))"
  using assms
  by (induction uses outs rule: list_induct2)
     (auto simp: List.map_filter_simps pending_of_call_def result_of_call_def split: tool_outcome.splits)

section \<open>What the loop needs of its caller\<close>

text \<open>
  A turn the model pauses has no call for the caller to answer (the tools of a paused turn run on
  the provider's side).
\<close>

definition bare_pauses :: "('w, 'e) loop_deps \<Rightarrow> bool" where
  "bare_pauses d \<longleftrightarrow>
     (\<forall>ms w res w'. ld_complete d ms w = (Inr res, w') \<longrightarrow> mr_stopReason res = ''pause_turn''
        \<longrightarrow> toolUsesOf (ld_numStr d) (echoable (mr_content res)) = [])"

text \<open>
  \<open>remaining\<close> is a budget of model calls: the check before a call passes only while some of it is
  left, recording an answer uses some of it up, and nothing gives any back.  Every call of a turn
  settles, so its outcomes are as many as the calls.
\<close>

locale loop_host =
  fixes d :: "('w, 'e) loop_deps"
    and remaining :: "'w \<Rightarrow> nat"
  assumes one_each: "length (fst (ld_executeTools d uses w)) = length uses"
    and before_needs: "ld_beforeModelCall d w = (None, w') \<Longrightarrow> 0 < remaining w' \<and> remaining w' \<le> remaining w"
    and complete_keeps: "remaining (snd (ld_complete d ms w)) \<le> remaining w"
    and record_spends: "ld_onModelResponse d res w = (None, w') \<Longrightarrow> remaining w' \<le> remaining w - 1"
    and execute_keeps: "remaining (snd (ld_executeTools d uses w)) \<le> remaining w"
begin

lemma after_response_keeps:
  "after_response d res st w = (t, w') \<Longrightarrow> remaining w' \<le> remaining w"
  using execute_keeps
  by (auto simp: after_response_def tool_turn_def Let_def split: if_splits prod.splits) (metis snd_conv)+

lemma turn_spends:
  assumes "turn d st w = (Again st', w')"
  shows "remaining w' < remaining w"
proof -
  obtain w1 res w2 w3 where b: "ld_beforeModelCall d w = (None, w1)"
    and c: "ld_complete d (ls_messages st) w1 = (Inr res, w2)"
    and r: "ld_onModelResponse d res w2 = (None, w3)"
    and a: "after_response d res st w3 = (Again st', w')"
    using assms by (auto simp: turn_def split: prod.splits option.splits sum.splits)
  have "remaining w2 \<le> remaining w1" using complete_keeps [of "ls_messages st" w1] c by simp
  with before_needs [OF b] record_spends [OF r] after_response_keeps [OF a] show ?thesis by linarith
qed

lemma loop_returns: "\<exists>r. agent_loop d st w = Some r"
proof (induction "remaining w" arbitrary: st w rule: less_induct)
  case less
  show ?case
    by (subst agent_loop.simps)
       (auto split: prod.splits turn_end.splits dest!: turn_spends simp: less [simplified])
qed

lemma returns: "\<exists>r. runAgentLoop d st w = Some r"
  using loop_returns by (simp add: runAgentLoop_def split: sum.splits)

lemma tool_turn_ok:
  assumes "chat_opened (ld_numStr d) (ls_messages st)" "unanswered (ld_numStr d) (last (ls_messages st))"
    "uses = uses_in (ld_numStr d) (last (ls_messages st))" "pending_list st = []"
  shows "tool_turn d uses st w = (Again st', w') \<Longrightarrow>
           conversation_ok (ld_numStr d) (ls_messages st') \<and> pending_list st' = []"
    and "tool_turn d uses st w = (Returned (LWaiting st' as), w') \<Longrightarrow>
           resumable (ld_numStr d) st' \<and> as = map pc_approvalId (undecided (pending_list st'))"
proof -
  obtain calls w2 where e: "ld_executeTools d uses w = (calls, w2)" by fastforce
  then have len: "length uses = length (map settled_call calls)"
    using one_each [of uses w] by simp
  show "conversation_ok (ld_numStr d) (ls_messages st') \<and> pending_list st' = []"
    if "tool_turn d uses st w = (Again st', w')"
    using that e turn_results [OF len] assms
    by (auto simp: tool_turn_def say_def pending_list_def Let_def split: if_splits intro!: answered_ok)
  have und: "undecided (List.map_filter pending_of_call ps) = List.map_filter pending_of_call ps" for ps
    by (induction ps) (auto simp: undecided_def List.map_filter_simps pending_of_call_def split: tool_outcome.splits option.splits)
  show "resumable (ld_numStr d) st' \<and> as = map pc_approvalId (undecided (pending_list st'))"
    if "tool_turn d uses st w = (Returned (LWaiting st' as), w')"
    using that e turn_covers [OF len, of "ld_numStr d"] assms und
    by (simp add: tool_turn_def resumable_def pending_list_def results_list_def Let_def split: if_splits)
       (elim conjE, hypsubst, simp)
qed

lemma after_response_ok:
  assumes "conversation_ok (ld_numStr d) (ls_messages st)" "pending_list st = []"
    "mr_stopReason res = ''pause_turn'' \<Longrightarrow> toolUsesOf (ld_numStr d) (echoable (mr_content res)) = []"
  shows "after_response d res st w = (Again st', w') \<Longrightarrow>
           conversation_ok (ld_numStr d) (ls_messages st') \<and> pending_list st' = []"
    and "after_response d res st w = (Returned (LWaiting st' as), w') \<Longrightarrow>
           resumable (ld_numStr d) st' \<and> as = map pc_approvalId (undecided (pending_list st'))"
proof -
  define content where "content = echoable (mr_content res)"
  define st1 where "st1 = say RAssistant content st"
  have op: "chat_opened (ld_numStr d) (ls_messages st1)" and pend: "pending_list st1 = []"
    using chat_opened_assistant [OF assms(1), of content] assms(2) by (simp_all add: st1_def say_def pending_list_def)
  have last: "last (ls_messages st1) = \<lparr>cm_role = RAssistant, cm_content = content\<rparr>"
    by (simp add: st1_def say_def)
  have paused: "conversation_ok (ld_numStr d) (ls_messages st1)" if "mr_stopReason res = ''pause_turn''"
    using op last assms(3) [OF that] by (simp add: conversation_ok_def unanswered_def uses_in_def content_def)
  have called: "unanswered (ld_numStr d) (last (ls_messages st1))" if "toolUsesOf (ld_numStr d) content \<noteq> []"
    using that last by (simp add: unanswered_def uses_in_def)
  have uses: "toolUsesOf (ld_numStr d) content = uses_in (ld_numStr d) (last (ls_messages st1))"
    using last by (simp add: uses_in_def)
  note defs = after_response_def Let_def content_def [symmetric] st1_def [symmetric]
  show "conversation_ok (ld_numStr d) (ls_messages st') \<and> pending_list st' = []"
    if "after_response d res st w = (Again st', w')"
    using that paused pend tool_turn_ok(1) [OF op called uses pend]
    by (auto simp: defs pending_list_def split: if_splits)
  show "resumable (ld_numStr d) st' \<and> as = map pc_approvalId (undecided (pending_list st'))"
    if "after_response d res st w = (Returned (LWaiting st' as), w')"
    using that tool_turn_ok(2) [OF op called uses pend]
    by (auto simp: defs final_answer_def split: if_splits option.splits)
qed

lemma turn_ok:
  assumes "bare_pauses d" "conversation_ok (ld_numStr d) (ls_messages st)" "pending_list st = []"
  shows "turn d st w = (Again st', w') \<Longrightarrow>
           conversation_ok (ld_numStr d) (ls_messages st') \<and> pending_list st' = []"
    and "turn d st w = (Returned (LWaiting st' as), w') \<Longrightarrow>
           resumable (ld_numStr d) st' \<and> as = map pc_approvalId (undecided (pending_list st'))"
  using after_response_ok [OF assms(2,3)] assms(1)
  by (fastforce simp: turn_def bare_pauses_def split: prod.splits option.splits sum.splits)+

lemma asked_loop:
  assumes "asked d st w ms" "bare_pauses d" "conversation_ok (ld_numStr d) (ls_messages st)" "pending_list st = []"
  shows "conversation_ok (ld_numStr d) ms"
  using assms(1,3,4) by induction (auto dest: turn_ok(1) [OF assms(2)])

lemma waiting_loop:
  assumes "bare_pauses d"
  shows "conversation_ok (ld_numStr d) (ls_messages st) \<Longrightarrow> pending_list st = [] \<Longrightarrow>
    agent_loop d st w = Some (Inr (LWaiting st' as), w') \<Longrightarrow>
    resumable (ld_numStr d) st' \<and> as = map pc_approvalId (undecided (pending_list st'))"
proof (induction "remaining w" arbitrary: st w rule: less_induct)
  case less
  show ?case
  proof (cases "fst (turn d st w)")
    case (Again s)
    then obtain v where t: "turn d st w = (Again s, v)" by (metis prod.collapse)
    moreover have "agent_loop d s v = Some (Inr (LWaiting st' as), w')"
      using less.prems(3) t by (subst (asm) agent_loop.simps) simp
    ultimately show ?thesis
      using less.hyps [OF turn_spends [OF t]] turn_ok(1) [OF assms less.prems(1,2) t] by blast
  next
    case (Thrown e)
    then have "agent_loop d st w = Some (Inl e, snd (turn d st w))"
      by (subst agent_loop.simps) (simp add: prod.case_eq_if)
    with less.prems(3) show ?thesis by simp
  next
    case (Returned r)
    then have t: "turn d st w = (Returned r, snd (turn d st w))" by (metis prod.collapse)
    then have "agent_loop d st w = Some (Inr r, snd (turn d st w))"
      by (subst agent_loop.simps) (metis (no_types, lifting) prod.case turn_end.simps(11))
    with less.prems(3) t have "turn d st w = (Returned (LWaiting st' as), w')" by simp
    then show ?thesis by (rule turn_ok(2) [OF assms less.prems(1,2)])
  qed
qed

text \<open>From a saved state, through every later turn and every state it waits in.\<close>

lemma asked_ok:
  assumes "bare_pauses d" "resumable (ld_numStr d) start" "resume_turn (ld_numStr d) start = Inr st" "asked d st w ms"
  shows "conversation_ok (ld_numStr d) ms"
  using asked_loop [OF assms(4,1) resume_turn_ok [OF assms(2,3)]] .

lemma waiting_ok:
  assumes "bare_pauses d" "resumable (ld_numStr d) start"
    "runAgentLoop d start w = Some (Inr (LWaiting st' as), w')"
  shows "resumable (ld_numStr d) st' \<and> as = map pc_approvalId (undecided (pending_list st'))"
proof (cases "resume_turn (ld_numStr d) start")
  case (Inl ids)
  with assms show ?thesis by (auto simp: runAgentLoop_def resume_turn_def split: if_splits)
next
  case (Inr st)
  with assms(3) show ?thesis
    by (intro waiting_loop [OF assms(1) resume_turn_ok [OF assms(2) Inr]]) (simp add: runAgentLoop_def)
qed

text \<open>
  A relation that every operation the loop calls keeps, for the tool calls the model may make (\<open>P\<close>),
  relates the world before the loop to the one after it.
\<close>

lemma after_response_relation:
  assumes refl: "\<And>w. R w w"
    and exec: "\<And>uses w. P uses \<Longrightarrow> R w (snd (ld_executeTools d uses w))"
    and "P (toolUsesOf (ld_numStr d) (echoable (mr_content res)))" "after_response d res st w = (t, w')"
  shows "R w w'"
  using assms(3,4) refl exec [OF assms(3), of w]
  by (auto simp: after_response_def tool_turn_def Let_def split: if_splits prod.splits)

lemma turn_relation:
  assumes refl: "\<And>w. R w w" and trans: "\<And>u v w. R u v \<Longrightarrow> R v w \<Longrightarrow> R u w"
    and before: "\<And>w. R w (snd (ld_beforeModelCall d w))"
    and comp: "\<And>ms w. R w (snd (ld_complete d ms w))"
    and uses: "\<And>ms w res w'. ld_complete d ms w = (Inr res, w') \<Longrightarrow> P (toolUsesOf (ld_numStr d) (echoable (mr_content res)))"
    and rec: "\<And>res w. R w (snd (ld_onModelResponse d res w))"
    and exec: "\<And>uses w. P uses \<Longrightarrow> R w (snd (ld_executeTools d uses w))"
  shows "R w (snd (turn d st w))"
proof -
  obtain e w1 where b: "ld_beforeModelCall d w = (e, w1)" by fastforce
  obtain x w2 where c: "ld_complete d (ls_messages st) w1 = (x, w2)" by fastforce
  have w1: "R w w1" and w2: "R w w2" using before [of w] comp [of w1 "ls_messages st"] b c trans by auto
  show ?thesis
  proof (cases e)
    case None
    show ?thesis
    proof (cases x)
      case (Inr res)
      obtain f w3 where r: "ld_onModelResponse d res w2 = (f, w3)" by fastforce
      then have w3: "R w w3" using rec [of w2 res] trans [OF w2] by simp
      obtain t w4 where a: "after_response d res st w3 = (t, w4)" by fastforce
      have "R w3 w4" using after_response_relation [where R = R and P = P, OF refl exec uses a] c Inr by blast
      then show ?thesis using None Inr b c r a w3 trans [OF w3] by (auto simp: turn_def split: option.split)
    qed (use None b c w2 in \<open>simp add: turn_def\<close>)
  qed (use b w1 in \<open>simp add: turn_def\<close>)
qed

lemma loop_turns:
  assumes refl: "\<And>w. R w w" and trans: "\<And>u v w. R u v \<Longrightarrow> R v w \<Longrightarrow> R u w"
    and turns: "\<And>st w. R w (snd (turn d st w))"
  shows "runAgentLoop d st w = Some (r, w') \<Longrightarrow> R w w'"
proof -
  have "agent_loop d st w = Some (r, w') \<Longrightarrow> R w w'" for st w
  proof (induction "remaining w" arbitrary: st w rule: less_induct)
    case less
    obtain t v where t: "turn d st w = (t, v)" by fastforce
    have v: "R w v" using turns [of w st] t by simp
    show ?case
    proof (cases t)
      case (Again s)
      moreover have "agent_loop d s v = Some (r, w')"
        using less.prems t Again by (subst (asm) agent_loop.simps) simp
      ultimately show ?thesis using less.hyps [of v s] turn_spends t v trans by blast
    qed (use less.prems t v in \<open>subst (asm) agent_loop.simps, simp\<close>)+
  qed
  then show "R w w'" if "runAgentLoop d st w = Some (r, w')"
    using that refl by (auto simp: runAgentLoop_def split: sum.splits)
qed

end

end
