(* ===== verification/Redact.thy ===== *)
theory Redact
  imports Json
begin

text \<open>
  Removal of secrets from what leaves a tool, and the size caps of stored payloads
  (\<^verbatim>\<open>src/apps/api/src/modules/connect/runtime/redact.ts\<close>).  Characters are code points below
  256; the encodings the redactor adds are those of the UTF-8 bytes of the text.
\<close>

section \<open>Encodings\<close>

definition utf8_char :: "char \<Rightarrow> nat list" where
  "utf8_char c = (let n = of_char c :: nat in if n < 128 then [n] else [192 + n div 64, 128 + n mod 64])"

definition utf8 :: "string \<Rightarrow> nat list" where "utf8 s = concat (map utf8_char s)"

definition base64_digit :: "nat \<Rightarrow> char" where
  "base64_digit n =
     (if n < 26 then char_of (65 + n) else if n < 52 then char_of (71 + n) else if n < 62 then char_of (n - 4)
      else if n = 62 then CHR ''+'' else CHR ''/'')"

fun base64 :: "nat list \<Rightarrow> string" where
  "base64 [] = []"
| "base64 [a] = [base64_digit (a div 4), base64_digit (a mod 4 * 16), CHR ''='', CHR ''='']"
| "base64 [a, b] = [base64_digit (a div 4), base64_digit (a mod 4 * 16 + b div 16), base64_digit (b mod 16 * 4), CHR ''='']"
| "base64 (a # b # c # r) =
     [base64_digit (a div 4), base64_digit (a mod 4 * 16 + b div 16), base64_digit (b mod 16 * 4 + c div 64), base64_digit (c mod 64)]
     @ base64 r"

definition uri_unreserved :: "char \<Rightarrow> bool" where
  "uri_unreserved c \<longleftrightarrow> is_alpha c \<or> is_digit c \<or> c \<in> set ''-_.!~*()'' \<or> c = CHR 0x27"

definition percent :: "nat \<Rightarrow> string" where
  "percent n = [CHR ''%'', upper_char (hex_digit (n div 16)), upper_char (hex_digit (n mod 16))]"

definition encodeURIComponent :: "string \<Rightarrow> string" where
  "encodeURIComponent s = concat (map (\<lambda>c. if uri_unreserved c then [c] else concat (map percent (utf8_char c))) s)"

section \<open>The redactor\<close>

definition REDACTED :: string where "REDACTED = ''[REDACTED]''"

definition push_new :: "string \<Rightarrow> string list \<Rightarrow> string list" where
  "push_new v vs = (if v \<in> set vs then vs else vs @ [v])"

definition add_secret :: "string option \<Rightarrow> string list \<Rightarrow> string list" where
  "add_secret secret vs =
     (case secret of
        None \<Rightarrow> vs
      | Some s \<Rightarrow>
          if length s < 4 then vs
          else (let vs1 = push_new (base64 (utf8 s)) (push_new s vs); enc = encodeURIComponent s
                in if enc \<noteq> s then push_new enc vs1 else vs1))"

text \<open>The known values, longest first.\<close>
definition add :: "string option list \<Rightarrow> string list \<Rightarrow> string list" where
  "add secrets vs = sort_key (\<lambda>v. - int (length v)) (fold add_secret secrets vs)"

text \<open>\<open>split\<close> by a separator that is not empty; an empty separator never occurs.\<close>
function split_str :: "string \<Rightarrow> string \<Rightarrow> string list" where
  "split_str v [] = [[]]"
| "split_str v (c # s) =
     (if v \<noteq> [] \<and> startsWith (c # s) v then [] # split_str v (drop (length v) (c # s))
      else case split_str v s of [] \<Rightarrow> [[c]] | w # ws \<Rightarrow> (c # w) # ws)"
  by pat_completeness auto
termination by (relation "measure (\<lambda>(v, s). length s)") (auto simp: length_greater_0_conv [symmetric] simp del: length_greater_0_conv)

definition replace_value :: "string \<Rightarrow> string \<Rightarrow> string" where
  "replace_value v out = (if str_includes out v then join REDACTED (split_str v out) else out)"

definition redact_text :: "string list \<Rightarrow> string \<Rightarrow> string" where
  "redact_text vs s = fold replace_value vs s"

fun redact_value :: "string list \<Rightarrow> json \<Rightarrow> nat \<Rightarrow> json"
and redact_items :: "string list \<Rightarrow> json list \<Rightarrow> nat \<Rightarrow> json list"
and redact_fields :: "string list \<Rightarrow> (string \<times> json) list \<Rightarrow> nat \<Rightarrow> (string \<times> json) list" where
  "redact_value vs v depth =
     (if vs = [] \<or> depth > 40 then v
      else case v of
             JStr s \<Rightarrow> JStr (redact_text vs s)
           | JArr xs \<Rightarrow> JArr (redact_items vs xs (depth + 1))
           | JObj fs \<Rightarrow> JObj (redact_fields vs fs (depth + 1))
           | _ \<Rightarrow> v)"
| "redact_items vs [] depth = []"
| "redact_items vs (x # xs) depth = redact_value vs x depth # redact_items vs xs depth"
| "redact_fields vs [] depth = []"
| "redact_fields vs ((k, x) # fs) depth = (k, redact_value vs x depth) # redact_fields vs fs depth"

declare redact_value.simps [simp del]

section \<open>Caps\<close>

definition STEP_FIELD_CAP :: nat where "STEP_FIELD_CAP = 64 * 1024"

text \<open>Serialisation of a JSON value does not fail; \<open>JSON.stringify (undefined)\<close> is handled by the first test.\<close>
definition capPayload :: "(rat \<Rightarrow> string) \<Rightarrow> json \<Rightarrow> nat \<Rightarrow> json" where
  "capPayload numStr v cap =
     (if v = JUndef then JNull
      else let s = json_str numStr v in
           if length s \<le> cap then v
           else JObj [(''truncated'', JBool True), (''originalBytes'', JNum (of_nat (length (utf8 s)))),
                      (''preview'', JStr (take (cap - 200) s))])"

definition clip :: "string \<Rightarrow> nat \<Rightarrow> string" where
  "clip s mx =
     (if length s \<le> mx then s
      else take mx s @ [CHR 0x0A] @ ''[truncated: '' @ show_nat (length s - mx) @ '' more characters]'')"

section \<open>No known value survives\<close>

text \<open>The values the theorem covers: not empty, no brackets, and not a part of the marker's word.\<close>
definition plain_value :: "string \<Rightarrow> bool" where
  "plain_value v \<longleftrightarrow> v \<noteq> [] \<and> CHR ''['' \<notin> set v \<and> CHR '']'' \<notin> set v \<and> \<not> str_includes ''REDACTED'' v"

lemma split_str_ne [simp]: "split_str v s \<noteq> []"
  by (induction v s rule: split_str.induct) (auto split: list.splits)

lemma str_includes_mono: "str_includes w v \<Longrightarrow> str_includes (a @ w @ b) v"
  unfolding str_includes_iff by (metis append.assoc)

lemma str_includes_Cons: "str_includes (c # s) v \<longleftrightarrow> startsWith (c # s) v \<or> str_includes s v"
  unfolding str_includes_iff startsWith_iff
  by (auto simp: Cons_eq_append_conv)

lemma join_Cons: "ws \<noteq> [] \<Longrightarrow> join sep (w # ws) = w @ sep @ join sep ws"
  by (cases ws) simp_all

lemma part_of_join: "w \<in> set ws \<Longrightarrow> \<exists>a b. join sep ws = a @ w @ b"
proof (induction ws)
  case (Cons u us)
  show ?case
  proof (cases "w = u")
    case True
    then show ?thesis by (cases us) (auto intro: exI [of _ "[]"])
  next
    case False
    then obtain a b where "join sep us = a @ w @ b" using Cons by auto
    then have "join sep (u # us) = (u @ sep @ a) @ w @ b" using False Cons.prems by (subst join_Cons) auto
    then show ?thesis by blast
  qed
qed simp

lemma join_split_str: "join v (split_str v s) = s"
proof (induction v s rule: split_str.induct)
  case (2 v c s)
  show ?case
  proof (cases "v \<noteq> [] \<and> startsWith (c # s) v")
    case True
    then have "v @ drop (length v) (c # s) = c # s" unfolding startsWith_def by (metis append_take_drop_id)
    then show ?thesis using 2(1) [OF True] True by (simp add: join_Cons)
  next
    case False
    obtain u us where u: "split_str v s = u # us" by (cases "split_str v s") auto
    then show ?thesis using 2(2) [OF False] False by (cases us) auto
  qed
qed simp

lemma startsWith_first:
  assumes "split_str v s = u # us" "startsWith (c # u) v"
  shows "startsWith (c # s) v"
proof -
  obtain b where "s = u @ b" using join_split_str [of v s] assms(1) by (cases us) auto
  moreover obtain r where "c # u = v @ r" using assms(2) by (auto simp: startsWith_iff)
  ultimately have "c # s = v @ (r @ b)" by simp
  then show ?thesis unfolding startsWith_iff by blast
qed

lemma split_str_clean:
  assumes "w \<in> set (split_str v s)" "v \<noteq> []"
  shows "\<not> str_includes w v"
  using assms
proof (induction v s arbitrary: w rule: split_str.induct)
  case (1 v)
  then show ?case by (simp add: str_includes_iff)
next
  case (2 v c s)
  show ?case
  proof (cases "startsWith (c # s) v")
    case True
    then have "w = [] \<or> w \<in> set (split_str v (drop (length v) (c # s)))" using 2(3,4) by auto
    then show ?thesis using 2(1) True 2(4) by (auto simp: str_includes_iff)
  next
    case False
    obtain u us where u: "split_str v s = u # us" by (cases "split_str v s") auto
    then have "w = c # u \<or> w \<in> set us" using 2(3) False by auto
    moreover have "\<not> str_includes (c # u) v"
      using 2(2) [of u] False 2(4) u startsWith_first [OF u] by (auto simp: str_includes_Cons)
    ultimately show ?thesis using 2(2) [of w] False 2(4) u by auto
  qed
qed

lemma startsWith_before:
  assumes "startsWith (x @ c # y) w" "c \<notin> set w"
  shows "startsWith x w"
proof -
  have w: "w = take (length w) (x @ c # y)" using assms(1) by (simp add: startsWith_def)
  have "length w \<le> length x"
  proof (rule ccontr)
    assume "\<not> length w \<le> length x"
    then obtain k where "length w - length x = Suc k" using Suc_diff_le by (metis Suc_diff_Suc not_le)
    then have "c \<in> set (take (length w) (x @ c # y))" by (simp add: take_Cons)
    then show False using assms(2) by (simp only: w [symmetric])
  qed
  then show ?thesis using w by (simp add: startsWith_def)
qed

lemma includes_around:
  "str_includes (x @ c # y) w \<Longrightarrow> c \<notin> set w \<Longrightarrow> w \<noteq> [] \<Longrightarrow> str_includes x w \<or> str_includes y w"
proof (induction x)
  case Nil
  then show ?case using startsWith_before [of "[]" c y w] by (auto simp: str_includes_Cons startsWith_def)
next
  case (Cons d x)
  then show ?case using startsWith_before [of "d # x" c y w] by (auto simp: str_includes_Cons)
qed

lemma includes_marked:
  assumes "plain_value w" "str_includes (u @ REDACTED @ r) w"
  shows "str_includes u w \<or> str_includes r w"
proof -
  have w: "w \<noteq> []" "CHR ''['' \<notin> set w" "CHR '']'' \<notin> set w" "\<not> str_includes ''REDACTED'' w"
    using assms(1) by (auto simp: plain_value_def)
  have "str_includes (u @ CHR ''['' # ''REDACTED'' @ CHR '']'' # r) w" using assms(2) by (simp add: REDACTED_def)
  from includes_around [OF this w(2,1)] show ?thesis using includes_around [OF _ w(3,1)] w(4) by blast
qed

lemma includes_join_marked:
  assumes "plain_value w" "str_includes (join REDACTED ws) w"
  shows "\<exists>u\<in>set ws. str_includes u w"
  using assms(2)
proof (induction ws)
  case Nil
  then show ?case using assms(1) by (simp add: str_includes_def plain_value_def)
next
  case (Cons u us)
  then show ?case using includes_marked [OF assms(1), of u "join REDACTED us"]
    by (cases "us = []") (auto simp: join_Cons)
qed

lemma replace_value_removes: "plain_value v \<Longrightarrow> \<not> str_includes (replace_value v out) v"
  using includes_join_marked [of v "split_str v out"] split_str_clean [of _ v out]
  by (auto simp: replace_value_def plain_value_def)

lemma replace_value_keeps_away:
  assumes "plain_value w" "\<not> str_includes out w"
  shows "\<not> str_includes (replace_value v out) w"
proof
  assume "str_includes (replace_value v out) w"
  then obtain u where u: "u \<in> set (split_str v out)" "str_includes u w"
    using assms includes_join_marked [OF assms(1)] by (auto simp: replace_value_def split: if_splits)
  obtain a b where "out = a @ u @ b" using part_of_join [OF u(1), of v] by (auto simp: join_split_str)
  then show False using assms(2) str_includes_mono [OF u(2)] by simp
qed

lemma redact_text_keeps_away:
  "plain_value w \<Longrightarrow> \<not> str_includes out w \<Longrightarrow> \<not> str_includes (redact_text vs out) w"
  unfolding redact_text_def
  by (induction vs arbitrary: out) (simp_all add: replace_value_keeps_away)

theorem redact_text_removes:
  assumes "v \<in> set vs" "plain_value v"
  shows "\<not> str_includes (redact_text vs s) v"
  using assms(1)
proof (induction vs arbitrary: s)
  case (Cons u us)
  have step: "redact_text (u # us) s = redact_text us (replace_value u s)" for s by (simp add: redact_text_def)
  show ?case
  proof (cases "v = u")
    case True
    then show ?thesis unfolding step
      using redact_text_keeps_away [OF assms(2) replace_value_removes [OF assms(2)]] by simp
  next
    case False
    then show ?thesis using Cons unfolding step by auto
  qed
qed simp

text \<open>The texts of a JSON value nested at most \<open>n\<close> levels deep; the names of fields are not among them.\<close>
fun texts_within :: "nat \<Rightarrow> json \<Rightarrow> string set" where
  "texts_within 0 v = {}"
| "texts_within (Suc n) v =
     (case v of
        JStr s \<Rightarrow> {s}
      | JArr vs \<Rightarrow> \<Union> (texts_within n ` set vs)
      | JObj fs \<Rightarrow> \<Union> (texts_within n ` snd ` set fs)
      | _ \<Rightarrow> {})"

lemma redact_items_map: "redact_items vs xs d = map (\<lambda>x. redact_value vs x d) xs"
  by (induction xs) simp_all

lemma redact_fields_map: "redact_fields vs fs d = map (\<lambda>(k, x). (k, redact_value vs x d)) fs"
  by (induction fs) auto

theorem redact_value_removes:
  assumes "v \<in> set vs" "plain_value v" "n + d \<le> 41" "s \<in> texts_within n (redact_value vs x d)"
  shows "\<not> str_includes s v"
  using assms(3,4)
proof (induction n arbitrary: x d)
  case (Suc n)
  have go: "vs \<noteq> []" "\<not> 40 < d" using assms(1) Suc.prems(1) by auto
  have d: "n + (d + 1) \<le> 41" using Suc.prems(1) by simp
  have val: "redact_value vs x d =
      (case x of JStr s \<Rightarrow> JStr (redact_text vs s) | JArr xs \<Rightarrow> JArr (map (\<lambda>y. redact_value vs y (d + 1)) xs)
       | JObj fs \<Rightarrow> JObj (map (\<lambda>(k, y). (k, redact_value vs y (d + 1))) fs) | _ \<Rightarrow> x)"
    using go by (subst redact_value.simps) (simp add: redact_items_map redact_fields_map split: json.split)
  have "\<not> str_includes s v" if "s \<in> texts_within n (redact_value vs y (Suc d))" for y
    using Suc.IH [OF d] that by simp
  then show ?case
    using Suc.prems(2) redact_text_removes [OF assms(1,2)] unfolding val
    by (cases x) auto
qed simp

lemma add_secret_known: "4 \<le> length s \<Longrightarrow> s \<in> set (add_secret (Some s) vs)"
  by (simp add: add_secret_def push_new_def Let_def)

lemma add_secret_keeps: "set vs \<subseteq> set (add_secret x vs)"
  by (auto simp: add_secret_def push_new_def Let_def split: option.split)

lemma add_keeps: "set vs \<subseteq> set (add xs vs)"
proof -
  have "set vs \<subseteq> set (fold add_secret xs vs)"
    by (induction xs arbitrary: vs) (use add_secret_keeps in fastforce)+
  then show ?thesis by (simp add: add_def)
qed

lemma add_known: "Some s \<in> set secrets \<Longrightarrow> 4 \<le> length s \<Longrightarrow> s \<in> set (add secrets vs)"
proof -
  have keep: "set ws \<subseteq> set (fold add_secret xs ws)" for xs ws
    using add_keeps [of ws xs] by (simp add: add_def)
  assume s: "Some s \<in> set secrets" "4 \<le> length s"
  then have "s \<in> set (fold add_secret secrets vs)"
  proof (induction secrets arbitrary: vs)
    case (Cons x xs)
    then show ?case using keep [of "add_secret (Some s) vs" xs] add_secret_known [OF s(2), of vs] by auto
  qed simp
  then show ?thesis by (simp add: add_def)
qed

lemma clip_length: "length s \<le> mx \<Longrightarrow> clip s mx = s" "take mx (clip s mx) = take mx s"
  by (simp_all add: clip_def)

end
