(* ===== verification/Template.thy ===== *)
theory Template
  imports Json
begin

text \<open>
  Template references, \<open>connect/runtime/template.ts\<close>.  Regular expressions are written out as the
  scanners they are.  Array indices in a path are natural numbers below \<open>2 ^ 53\<close>.
\<close>

record template_ctx =
  tc_trigger :: json
  tc_input :: json
  tc_steps :: json
  tc_vars :: "(string \<times> string) list"
  tc_secrets :: "(string \<times> string) list"

datatype render_mode = PromptMode | ToolMode

definition FORBIDDEN :: "string list" where
  "FORBIDDEN = [''__proto__'', ''prototype'', ''constructor'']"

definition SECRET_PLACEHOLDER :: "string \<Rightarrow> string" where
  "SECRET_PLACEHOLDER key = ''[secret '' @ key @ '']''"

section \<open>Paths\<close>

datatype segment = Key string | Idx nat

definition ident_start :: "char \<Rightarrow> bool" where
  "ident_start c \<longleftrightarrow> is_alpha c \<or> c = CHR ''_'' \<or> c = CHR ''$''"

definition ident_char :: "char \<Rightarrow> bool" where
  "ident_char c \<longleftrightarrow> is_word c \<or> c = CHR ''$'' \<or> c = CHR ''-''"

text \<open>One match of the sticky expression: what it matched, and the rest of the text.\<close>

datatype path_piece = MIdent string | MIndex nat | MQuoted string | MDot | MSpace

definition bracket_match :: "string \<Rightarrow> (path_piece \<times> string) option" where
  "bracket_match s =
     (let ds = takeWhile is_digit s; r = dropWhile is_digit s
      in if ds \<noteq> [] \<and> r \<noteq> [] \<and> hd r = CHR '']'' then Some (MIndex (parse_nat ds), tl r)
         else if s \<noteq> [] \<and> hd s = CHR 0x22 then
           (let q = takeWhile (\<lambda>c. c \<noteq> CHR 0x22 \<and> c \<noteq> CHR '']'') (tl s);
                r2 = dropWhile (\<lambda>c. c \<noteq> CHR 0x22 \<and> c \<noteq> CHR '']'') (tl s)
            in if startsWith r2 [CHR 0x22, CHR '']''] then Some (MQuoted q, drop 2 r2) else None)
         else None)"

definition path_match :: "string \<Rightarrow> (path_piece \<times> string) option" where
  "path_match s =
     (case s of
        [] \<Rightarrow> None
      | c # r \<Rightarrow>
          if ident_start c then Some (MIdent (c # takeWhile ident_char r), dropWhile ident_char r)
          else if c = CHR ''['' then bracket_match r
          else if c = CHR ''.'' then Some (MDot, r)
          else if is_space c then Some (MSpace, dropWhile is_space r)
          else None)"

lemma length_dropWhile: "length (dropWhile P s) \<le> length s"
  by (induction s) auto

lemma path_match_shorter: "path_match s = Some (m, r) \<Longrightarrow> length r < length s"
proof (cases s)
  case (Cons c s')
  assume "path_match s = Some (m, r)"
  then show ?thesis
    using Cons length_dropWhile [of ident_char s'] length_dropWhile [of is_space s']
      length_dropWhile [of is_digit s'] length_dropWhile [of "\<lambda>c. c \<noteq> CHR 0x22 \<and> c \<noteq> CHR '']''" "tl s'"]
    by (auto simp: path_match_def bracket_match_def Let_def split: if_splits)
qed (simp add: path_match_def)

function parse_path_loop :: "string \<Rightarrow> segment list \<Rightarrow> bool \<Rightarrow> segment list option" where
  "parse_path_loop s out expectSegment =
     (if s = [] then (if out \<noteq> [] \<and> \<not> expectSegment then Some out else None)
      else case path_match s of
        None \<Rightarrow> None
      | Some (MIdent k, r) \<Rightarrow> if \<not> expectSegment then None else parse_path_loop r (out @ [Key k]) False
      | Some (MIndex n, r) \<Rightarrow> parse_path_loop r (out @ [Idx n]) False
      | Some (MQuoted k, r) \<Rightarrow> parse_path_loop r (out @ [Key k]) False
      | Some (MDot, r) \<Rightarrow> if expectSegment then None else parse_path_loop r out True
      | Some (MSpace, r) \<Rightarrow> None)"
  by pat_completeness auto
termination by (relation "measure (\<lambda>(s, _). length s)") (auto dest: path_match_shorter)

declare parse_path_loop.simps [simp del]

definition parsePath :: "string \<Rightarrow> segment list option" where
  "parsePath path = parse_path_loop path [] True"

section \<open>Resolving\<close>

text \<open>\<open>hasOwnProperty\<close> and the read, for objects and arrays.\<close>

definition own_prop :: "json \<Rightarrow> segment \<Rightarrow> json option" where
  "own_prop v p =
     (case (v, p) of
        (JArr vs, Idx n) \<Rightarrow> if n < length vs then Some (vs ! n) else None
      | (JArr vs, Key k) \<Rightarrow>
          if k = ''length'' then Some (JNum (of_nat (length vs)))
          else if k \<noteq> [] \<and> list_all is_digit k \<and> show_nat (parse_nat k) = k \<and> parse_nat k < length vs
          then Some (vs ! parse_nat k) else None
      | (JObj fs, Idx n) \<Rightarrow> map_of fs (show_nat n)
      | (JObj fs, Key k) \<Rightarrow> map_of fs k
      | _ \<Rightarrow> None)"

fun walk :: "json \<Rightarrow> segment list \<Rightarrow> json" where
  "walk cur [] = cur"
| "walk cur (p # ps) =
     (if cur = JNull \<or> cur = JUndef then JUndef
      else if (case p of Key k \<Rightarrow> k \<in> set FORBIDDEN | Idx _ \<Rightarrow> False) then JUndef
      else case own_prop cur p of None \<Rightarrow> JUndef | Some v \<Rightarrow> walk v ps)"

definition var_value :: "template_ctx \<Rightarrow> render_mode \<Rightarrow> string \<Rightarrow> json" where
  "var_value ctx mode key =
     (case map_of (tc_vars ctx) key of
        Some v \<Rightarrow> JStr v
      | None \<Rightarrow>
          (case map_of (tc_secrets ctx) key of
             Some v \<Rightarrow> JStr (if mode = ToolMode then v else SECRET_PLACEHOLDER key)
           | None \<Rightarrow> JUndef))"

definition resolvePath :: "template_ctx \<Rightarrow> string \<Rightarrow> render_mode \<Rightarrow> json" where
  "resolvePath ctx path mode =
     (case parsePath (trim path) of
        None \<Rightarrow> JUndef
      | Some [] \<Rightarrow> JUndef
      | Some (base # rest) \<Rightarrow>
          if base = Key ''vars'' then
            (case rest of
               [Key key] \<Rightarrow> var_value ctx mode key
             | _ \<Rightarrow> JUndef)
          else if base = Key ''trigger'' then walk (tc_trigger ctx) rest
          else if base = Key ''steps'' then walk (tc_steps ctx) rest
          else if base = Key ''input'' then walk (tc_input ctx) rest
          else JUndef)"

section \<open>Rendering\<close>

definition stringify :: "(rat \<Rightarrow> string) \<Rightarrow> json \<Rightarrow> string" where
  "stringify numStr v =
     (case v of
        JUndef \<Rightarrow> [] | JNull \<Rightarrow> [] | JStr s \<Rightarrow> s
      | JNum q \<Rightarrow> numStr q
      | JInf neg \<Rightarrow> if neg then ''-Infinity'' else ''Infinity''
      | JBool b \<Rightarrow> if b then ''true'' else ''false''
      | _ \<Rightarrow> json_str numStr v)"

text \<open>
  A reference at the start of the text: two braces, at least one character that is no brace, two
  braces; the group is the content without the white space around it.
\<close>

definition not_brace :: "char \<Rightarrow> bool" where
  "not_brace c \<longleftrightarrow> c \<noteq> CHR ''{'' \<and> c \<noteq> CHR ''}''"

definition match_ref :: "string \<Rightarrow> (string \<times> string) option" where
  "match_ref s =
     (if \<not> startsWith s ''{{'' then None
      else let body = drop 2 s; content = takeWhile not_brace body; r = dropWhile not_brace body
           in if content \<noteq> [] \<and> startsWith r ''}}'' then Some (trim content, drop 2 r) else None)"

lemma match_ref_shorter: "match_ref s = Some (p, r) \<Longrightarrow> length r < length s"
  using length_dropWhile [of not_brace "drop 2 s"]
  by (cases s) (auto simp: match_ref_def Let_def split: if_splits)

function replace_refs :: "(string \<Rightarrow> string) \<Rightarrow> string \<Rightarrow> string" where
  "replace_refs f s =
     (case s of [] \<Rightarrow> []
      | c # cs \<Rightarrow> (case match_ref s of Some (p, r) \<Rightarrow> f p @ replace_refs f r | None \<Rightarrow> c # replace_refs f cs))"
  by pat_completeness auto
termination
  by (relation "measure (\<lambda>(f, s). length s)") (auto dest: match_ref_shorter)

declare replace_refs.simps [simp del]

definition renderString :: "(rat \<Rightarrow> string) \<Rightarrow> string \<Rightarrow> template_ctx \<Rightarrow> render_mode \<Rightarrow> json" where
  "renderString numStr tpl ctx mode =
     (case match_ref tpl of
        Some (p, []) \<Rightarrow> resolvePath ctx p mode
      | _ \<Rightarrow> JStr (replace_refs (\<lambda>p. stringify numStr (resolvePath ctx p mode)) tpl))"

definition MAX_TEMPLATE_DEPTH :: nat where "MAX_TEMPLATE_DEPTH = 32"

fun render :: "(rat \<Rightarrow> string) \<Rightarrow> json \<Rightarrow> template_ctx \<Rightarrow> render_mode \<Rightarrow> nat \<Rightarrow> json result"
and render_items :: "(rat \<Rightarrow> string) \<Rightarrow> json list \<Rightarrow> template_ctx \<Rightarrow> render_mode \<Rightarrow> nat \<Rightarrow> json list result"
and render_fields ::
  "(rat \<Rightarrow> string) \<Rightarrow> (string \<times> json) list \<Rightarrow> template_ctx \<Rightarrow> render_mode \<Rightarrow> nat \<Rightarrow> (string \<times> json) list result" where
  "render numStr v ctx mode depth =
     (if MAX_TEMPLATE_DEPTH < depth then Inl (JsError ''template is nested too deeply'')
      else case v of
        JStr s \<Rightarrow> Inr (renderString numStr s ctx mode)
      | JArr vs \<Rightarrow> (case render_items numStr vs ctx mode (Suc depth) of Inl e \<Rightarrow> Inl e | Inr rs \<Rightarrow> Inr (JArr rs))
      | JObj fs \<Rightarrow> (case render_fields numStr fs ctx mode (Suc depth) of Inl e \<Rightarrow> Inl e | Inr rs \<Rightarrow> Inr (JObj rs))
      | _ \<Rightarrow> Inr v)"
| "render_items numStr [] ctx mode depth = Inr []"
| "render_items numStr (v # vs) ctx mode depth =
     (case render numStr v ctx mode depth of
        Inl e \<Rightarrow> Inl e
      | Inr r \<Rightarrow> (case render_items numStr vs ctx mode depth of Inl e \<Rightarrow> Inl e | Inr rs \<Rightarrow> Inr (r # rs)))"
| "render_fields numStr [] ctx mode depth = Inr []"
| "render_fields numStr ((k, v) # fs) ctx mode depth =
     (if k \<in> set FORBIDDEN then render_fields numStr fs ctx mode depth
      else case render numStr v ctx mode depth of
        Inl e \<Rightarrow> Inl e
      | Inr r \<Rightarrow> (case render_fields numStr fs ctx mode depth of Inl e \<Rightarrow> Inl e | Inr rs \<Rightarrow> Inr ((k, r) # rs)))"

declare render.simps [simp del]

definition renderText :: "(rat \<Rightarrow> string) \<Rightarrow> string \<Rightarrow> template_ctx \<Rightarrow> render_mode \<Rightarrow> string" where
  "renderText numStr tpl ctx mode = stringify numStr (renderString numStr tpl ctx mode)"

function text_refs :: "string \<Rightarrow> string list" where
  "text_refs s =
     (case s of [] \<Rightarrow> []
      | c # cs \<Rightarrow> (case match_ref s of Some (p, r) \<Rightarrow> p # text_refs r | None \<Rightarrow> text_refs cs))"
  by pat_completeness auto
termination
  by (relation "measure length") (auto dest: match_ref_shorter)

declare text_refs.simps [simp del]

fun references :: "json \<Rightarrow> string list"
and references_list :: "json list \<Rightarrow> string list"
and references_fields :: "(string \<times> json) list \<Rightarrow> string list" where
  "references (JStr s) = text_refs s"
| "references (JArr vs) = references_list vs"
| "references (JObj fs) = references_fields fs"
| "references _ = []"
| "references_list [] = []"
| "references_list (v # vs) = references v @ references_list vs"
| "references_fields [] = []"
| "references_fields ((k, v) # fs) = references v @ references_fields fs"

section \<open>A secret never reaches the model\<close>

text \<open>Two contexts that differ at most in the values of the secret variables.\<close>

definition same_public :: "template_ctx \<Rightarrow> template_ctx \<Rightarrow> bool" where
  "same_public c c' \<longleftrightarrow>
     tc_trigger c = tc_trigger c' \<and> tc_input c = tc_input c' \<and> tc_steps c = tc_steps c'
     \<and> tc_vars c = tc_vars c' \<and> map fst (tc_secrets c) = map fst (tc_secrets c')"

lemma map_of_same_keys:
  "map fst xs = map fst ys \<Longrightarrow> (map_of xs k = None) = (map_of ys k = None)"
  by (metis list.set_map map_of_eq_None_iff)

lemma var_value_prompt:
  assumes "same_public c c'"
  shows "var_value c PromptMode k = var_value c' PromptMode k"
  using assms map_of_same_keys [of "tc_secrets c" "tc_secrets c'" k]
  by (auto simp: var_value_def same_public_def split: option.splits)

lemma resolvePath_prompt:
  assumes "same_public c c'"
  shows "resolvePath c p PromptMode = resolvePath c' p PromptMode"
proof -
  have same: "tc_trigger c = tc_trigger c'" "tc_input c = tc_input c'" "tc_steps c = tc_steps c'"
    using assms by (simp_all add: same_public_def)
  show ?thesis unfolding resolvePath_def var_value_prompt [OF assms] same by (rule refl)
qed

lemma renderString_prompt:
  assumes "same_public c c'"
  shows "renderString n s c PromptMode = renderString n s c' PromptMode"
  unfolding renderString_def resolvePath_prompt [OF assms] by (rule refl)

lemma render_prompt_mode:
  "mode = PromptMode \<Longrightarrow> same_public c c' \<Longrightarrow> render n v c mode d = render n v c' mode d"
  "mode = PromptMode \<Longrightarrow> same_public c c' \<Longrightarrow> render_items n vs c mode d = render_items n vs c' mode d"
  "mode = PromptMode \<Longrightarrow> same_public c c' \<Longrightarrow> render_fields n fs c mode d = render_fields n fs c' mode d"
proof (induction n v c mode d and n vs c mode d and n fs c mode d rule: render_render_items_render_fields.induct)
  case (1 n v c mode d)
  then show ?case
    by (cases v) (simp_all add: render.simps [of n] renderString_prompt)
qed (auto split: sum.splits)

lemma render_prompt:
  "same_public c c' \<Longrightarrow> render n v c PromptMode d = render n v c' PromptMode d"
  by (rule render_prompt_mode) simp_all

lemma renderText_prompt: "same_public c c' \<Longrightarrow> renderText n s c PromptMode = renderText n s c' PromptMode"
  by (simp add: renderText_def renderString_prompt)

section \<open>Paths never reach the prototype chain\<close>

lemma walk_forbidden:
  assumes "k \<in> set FORBIDDEN" "Key k \<in> set ps"
  shows "walk v ps = JUndef"
  using assms(2)
proof (induction ps arbitrary: v)
  case (Cons p ps)
  show ?case
  proof (cases "p = Key k")
    case True
    then show ?thesis using assms(1) by simp
  next
    case False
    then have "Key k \<in> set ps" using Cons.prems by simp
    then show ?thesis using Cons.IH by (simp split: option.splits)
  qed
qed simp

end
