(* ===== verification/Expression.thy ===== *)
theory Expression
  imports Template
begin

text \<open>
  Workflow conditions, \<open>connect/runtime/expression.ts\<close>: tokenizer, recursive descent parser with a
  depth limit, and evaluator.  Every raised \<open>ExpressionError\<close> is an \<open>Inl\<close>.  The token list that is
  left stands for \<open>pos\<close>.
\<close>

datatype tok = TNum json | TStr string | TKw json | TRef string | TOp string | TLp | TRp

datatype cond = Lit json | Ref string | Not cond | And cond cond | Or cond cond | Cmp string cond cond

definition MAX_LENGTH :: nat where "MAX_LENGTH = 2000"
definition MAX_DEPTH :: nat where "MAX_DEPTH = 40"

definition OPS :: "string list" where
  "OPS = [''==='', ''!=='', ''=='', ''!='', ''>='', ''<='', ''&&'', ''||'', ''>'', ''<'', ''!'']"

definition CMP_OPS :: "string list" where
  "CMP_OPS = [''=='', ''!='', ''==='', ''!=='', ''>'', ''>='', ''<'', ''<='', ''contains'']"

definition expr_error :: "string \<Rightarrow> 'a result" where "expr_error msg = Inl (JsError msg)"

section \<open>Tokenizer\<close>

text \<open>The body of a string literal up to the closing quote: its value and the rest.\<close>

fun string_body :: "char \<Rightarrow> string \<Rightarrow> (string \<times> string) option" where
  "string_body q [] = None"
| "string_body q [c] = (if c = q then Some ([], []) else None)"
| "string_body q (c # d # s) =
     (if c = q then Some ([], d # s)
      else if c = CHR 0x5C then map_option (\<lambda>(v, r). (d # v, r)) (string_body q s)
      else map_option (\<lambda>(v, r). (c # v, r)) (string_body q (d # s)))"

text \<open>The longest prefix that is a number literal.\<close>

definition mantissa :: "string \<Rightarrow> string" where
  "mantissa s =
     (let ip = takeWhile is_digit s;
          r = dropWhile is_digit s;
          fd = (if r \<noteq> [] \<and> hd r = CHR ''.'' then takeWhile is_digit (tl r) else [])
      in if fd \<noteq> [] then ip @ ''.'' @ fd else ip)"

definition exponent :: "string \<Rightarrow> string" where
  "exponent s =
     (if s \<noteq> [] \<and> (hd s = CHR ''e'' \<or> hd s = CHR ''E'') then
        (let esign = (if tl s \<noteq> [] \<and> (hd (tl s) = CHR ''+'' \<or> hd (tl s) = CHR ''-'') then [hd (tl s)] else []);
             ed = takeWhile is_digit (drop (Suc (length esign)) s)
         in if ed \<noteq> [] then [hd s] @ esign @ ed else [])
      else [])"

definition number_prefix :: "string \<Rightarrow> (string \<times> string) option" where
  "number_prefix s =
     (let sign = (if s \<noteq> [] \<and> hd s = CHR ''-'' then ''-'' else []);
          s1 = drop (length sign) s;
          m = mantissa s1;
          lit = sign @ m @ exponent (drop (length m) s1)
      in if m = [] then None else Some (lit, drop (length lit) s))"

definition number_value :: "string \<Rightarrow> json" where
  "number_value s =
     (case js_Number s of Some q \<Rightarrow> JNum q | None \<Rightarrow> JInf (s \<noteq> [] \<and> hd s = CHR ''-''))"

definition word_start :: "char \<Rightarrow> bool" where
  "word_start c \<longleftrightarrow> is_alpha c \<or> c = CHR ''_'' \<or> c = CHR ''$''"

definition word_char :: "char \<Rightarrow> bool" where
  "word_char c \<longleftrightarrow> is_word c \<or> c = CHR ''$'' \<or> c = CHR ''.'' \<or> c = CHR ''-'' \<or> c = CHR ''['' \<or> c = CHR '']''"

definition word_tok :: "string \<Rightarrow> tok" where
  "word_tok w =
     (if w = ''true'' then TKw (JBool True) else if w = ''false'' then TKw (JBool False)
      else if w = ''null'' then TKw JNull
      else if w = ''and'' then TOp ''&&'' else if w = ''or'' then TOp ''||''
      else if w = ''not'' then TOp ''!'' else if w = ''contains'' then TOp ''contains''
      else TRef w)"

definition sign_allowed :: "tok option \<Rightarrow> bool" where
  "sign_allowed prev \<longleftrightarrow> (case prev of None \<Rightarrow> True | Some (TOp _) \<Rightarrow> True | Some TLp \<Rightarrow> True | _ \<Rightarrow> False)"

text \<open>The token at the head of a text that does not start with white space, and the rest.\<close>

definition next_tok :: "tok option \<Rightarrow> string \<Rightarrow> (tok \<times> string) result" where
  "next_tok prev s =
     (let c = hd s in
      if startsWith s ''{{'' then
        (case indexOf (drop 2 s) ''}}'' of
           None \<Rightarrow> expr_error ''unclosed {{''
         | Some k \<Rightarrow> Inr (TRef (trim (take k (drop 2 s))), drop (k + 4) s))
      else if c = CHR ''('' then Inr (TLp, tl s)
      else if c = CHR '')'' then Inr (TRp, tl s)
      else if c = CHR 0x22 \<or> c = CHR 0x27 then
        (case string_body c (tl s) of
           None \<Rightarrow> expr_error ''unclosed string''
         | Some (v, r) \<Rightarrow> Inr (TStr v, r))
      else case (if c \<noteq> CHR ''-'' \<or> sign_allowed prev then number_prefix s else None) of
        Some (n, r) \<Rightarrow> Inr (TNum (number_value n), r)
      | None \<Rightarrow>
          (case List.find (\<lambda>p. startsWith s p) OPS of
             Some p \<Rightarrow> Inr (TOp p, drop (length p) s)
           | None \<Rightarrow>
               if word_start c
               then Inr (word_tok (c # takeWhile word_char (tl s)), dropWhile word_char (tl s))
               else expr_error ''unexpected character''))"

lemma string_body_shorter: "string_body q s = Some (v, r) \<Longrightarrow> length r < length s"
proof (induction q s arbitrary: v r rule: string_body.induct)
  case (3 q c d s)
  then show ?case by (fastforce split: if_splits)
qed (auto split: if_splits)

lemma number_prefix_shorter: "number_prefix s = Some (n, r) \<Longrightarrow> length r < length s"
proof (cases s)
  case Nil
  then show "number_prefix s = Some (n, r) \<Longrightarrow> length r < length s"
    by (simp add: number_prefix_def mantissa_def)
qed (auto simp: number_prefix_def Let_def split: if_splits)

lemma OPS_ne: "p \<in> set OPS \<Longrightarrow> p \<noteq> []"
  by (auto simp: OPS_def)

lemma next_tok_shorter:
  assumes "s \<noteq> []" "next_tok prev s = Inr (t, r)"
  shows "length r < length s"
proof -
  have ops: "length (drop (length p) s) < length s" if "List.find (startsWith s) OPS = Some p" for p
    using that OPS_ne [of p] assms(1) by (auto simp: find_Some_iff)
  have "length (dropWhile word_char (tl s)) < length s"
    using length_dropWhile [of word_char "tl s"] assms(1) by (cases s) auto
  with assms ops show ?thesis
    by (auto simp: next_tok_def Let_def expr_error_def split: if_splits option.splits
        dest!: string_body_shorter number_prefix_shorter)
qed

function tok_loop :: "string \<Rightarrow> tok list \<Rightarrow> tok list result" where
  "tok_loop s out =
     (if s = [] then Inr out
      else if is_space (hd s) then tok_loop (tl s) out
      else case next_tok (if out = [] then None else Some (last out)) s of
        Inl e \<Rightarrow> Inl e
      | Inr (t, r) \<Rightarrow> tok_loop r (out @ [t]))"
  by pat_completeness auto
termination by (relation "measure (\<lambda>(s, _). length s)") (auto dest: next_tok_shorter)

declare tok_loop.simps [simp del]

definition tokenize :: "string \<Rightarrow> tok list result" where
  "tokenize src =
     (if MAX_LENGTH < length src then expr_error ''expression is too long'' else tok_loop src [])"

section \<open>Parser\<close>

text \<open>
  The mutually recursive functions of \<open>parse\<close>; the two loops of \<open>expr\<close> and \<open>and\<close> are functions of
  their own.  Each recursive call after a sub parse is guarded by the fact that the sub parse
  consumed a token, which is what makes the recursion well founded; \<open>parse_consumes\<close> below shows
  that the guard always holds.
\<close>

definition stuck :: "'a result" where "stuck = Inl (JsError ''internal: no progress'')"

function (sequential) expr :: "nat \<Rightarrow> tok list \<Rightarrow> (cond \<times> tok list) result"
and or_loop :: "nat \<Rightarrow> cond \<Rightarrow> tok list \<Rightarrow> (cond \<times> tok list) result"
and andE :: "nat \<Rightarrow> tok list \<Rightarrow> (cond \<times> tok list) result"
and and_loop :: "nat \<Rightarrow> cond \<Rightarrow> tok list \<Rightarrow> (cond \<times> tok list) result"
and unary :: "nat \<Rightarrow> tok list \<Rightarrow> (cond \<times> tok list) result"
and compare :: "nat \<Rightarrow> tok list \<Rightarrow> (cond \<times> tok list) result"
and primary :: "nat \<Rightarrow> tok list \<Rightarrow> (cond \<times> tok list) result" where
  "expr d ts =
     (if MAX_DEPTH < d then expr_error ''expression is nested too deeply''
      else case andE (d + 1) ts of
        Inl e \<Rightarrow> Inl e
      | Inr (l, ts') \<Rightarrow> if length ts' < length ts then or_loop d l ts' else stuck)"
| "or_loop d l ts =
     (if ts \<noteq> [] \<and> hd ts = TOp ''||'' then
        (case andE (d + 1) (tl ts) of
           Inl e \<Rightarrow> Inl e
         | Inr (r, ts') \<Rightarrow> if length ts' < length ts then or_loop d (Or l r) ts' else stuck)
      else Inr (l, ts))"
| "andE d ts =
     (case unary (d + 1) ts of
        Inl e \<Rightarrow> Inl e
      | Inr (l, ts') \<Rightarrow> if length ts' < length ts then and_loop d l ts' else stuck)"
| "and_loop d l ts =
     (if ts \<noteq> [] \<and> hd ts = TOp ''&&'' then
        (case unary (d + 1) (tl ts) of
           Inl e \<Rightarrow> Inl e
         | Inr (r, ts') \<Rightarrow> if length ts' < length ts then and_loop d (And l r) ts' else stuck)
      else Inr (l, ts))"
| "unary d ts =
     (if MAX_DEPTH < d then expr_error ''expression is nested too deeply''
      else if ts \<noteq> [] \<and> hd ts = TOp ''!'' then
        (case unary (d + 1) (tl ts) of Inl e \<Rightarrow> Inl e | Inr (e, ts') \<Rightarrow> Inr (Not e, ts'))
      else compare (d + 1) ts)"
| "compare d ts =
     (case primary (d + 1) ts of
        Inl e \<Rightarrow> Inl e
      | Inr (l, []) \<Rightarrow> Inr (l, [])
      | Inr (l, t # ts') \<Rightarrow>
          (case t of
             TOp p \<Rightarrow>
               if p \<in> set CMP_OPS then
                 if length ts' < length ts then
                   (case primary (d + 1) ts' of Inl e \<Rightarrow> Inl e | Inr (r, ts'') \<Rightarrow> Inr (Cmp p l r, ts''))
                 else stuck
               else Inr (l, t # ts')
           | _ \<Rightarrow> Inr (l, t # ts')))"
| "primary d [] = expr_error ''unexpected end of expression''"
| "primary d (TNum v # ts) = Inr (Lit v, ts)"
| "primary d (TStr v # ts) = Inr (Lit (JStr v), ts)"
| "primary d (TKw v # ts) = Inr (Lit v, ts)"
| "primary d (TRef p # ts) = Inr (Ref p, ts)"
| "primary d (TLp # ts) =
     (case expr (d + 1) ts of
        Inl e \<Rightarrow> Inl e
      | Inr (e, TRp # ts') \<Rightarrow> Inr (e, ts')
      | Inr (e, _) \<Rightarrow> expr_error ''missing )'')"
| "primary d (_ # ts) = expr_error ''unexpected token''"
  by pat_completeness auto
termination
  by (relation "measure (\<lambda>x. case x of
        Inl (Inl (d, ts)) \<Rightarrow> 6 * length ts + 5
      | Inl (Inr (Inl (d, l, ts))) \<Rightarrow> 6 * length ts + 0
      | Inl (Inr (Inr (d, ts))) \<Rightarrow> 6 * length ts + 4
      | Inr (Inl (Inl (d, l, ts))) \<Rightarrow> 6 * length ts + 0
      | Inr (Inl (Inr (d, ts))) \<Rightarrow> 6 * length ts + 3
      | Inr (Inr (Inl (d, ts))) \<Rightarrow> 6 * length ts + 2
      | Inr (Inr (Inr (d, ts))) \<Rightarrow> 6 * length ts + 1)")
    (auto simp: neq_Nil_conv)

declare expr.simps [simp del] or_loop.simps [simp del] andE.simps [simp del] and_loop.simps [simp del]
  unary.simps [simp del] compare.simps [simp del]

definition parse_toks :: "tok list \<Rightarrow> cond result" where
  "parse_toks ts =
     (case expr 0 ts of
        Inl e \<Rightarrow> Inl e
      | Inr (tree, []) \<Rightarrow> Inr tree
      | Inr (tree, _) \<Rightarrow> expr_error ''unexpected input after the expression'')"

definition parse :: "string \<Rightarrow> cond result" where
  "parse src = (case tokenize src of Inl e \<Rightarrow> Inl e | Inr ts \<Rightarrow> parse_toks ts)"

section \<open>Evaluator\<close>

definition asNumber :: "json \<Rightarrow> rat option" where
  "asNumber v =
     (case v of
        JNum q \<Rightarrow> Some q
      | JStr s \<Rightarrow> if trim s = [] then None else js_Number s
      | _ \<Rightarrow> None)"

definition truthy :: "json \<Rightarrow> bool" where
  "truthy v =
     (case v of
        JArr vs \<Rightarrow> vs \<noteq> [] | JObj fs \<Rightarrow> fs \<noteq> [] | JStr s \<Rightarrow> s \<noteq> [] | JNum q \<Rightarrow> q \<noteq> 0
      | JInf _ \<Rightarrow> True | JBool b \<Rightarrow> b | JNull \<Rightarrow> False | JUndef \<Rightarrow> False)"

definition is_number :: "json \<Rightarrow> bool" where
  "is_number v \<longleftrightarrow> (case v of JNum _ \<Rightarrow> True | JInf _ \<Rightarrow> True | _ \<Rightarrow> False)"

definition is_object :: "json \<Rightarrow> bool" where
  "is_object v \<longleftrightarrow> (case v of JArr _ \<Rightarrow> True | JObj _ \<Rightarrow> True | JNull \<Rightarrow> True | _ \<Rightarrow> False)"

definition equal_values :: "(rat \<Rightarrow> string) \<Rightarrow> json \<Rightarrow> json \<Rightarrow> bool" where
  "equal_values numStr a b \<longleftrightarrow>
     (if a = b then True
      else if a = JUndef \<or> a = JNull then b = JUndef \<or> b = JNull
      else case (asNumber a, asNumber b) of
        (Some na, Some nb) \<Rightarrow>
          if is_number a \<or> is_number b then na = nb
          else is_object a \<and> is_object b \<and> json_str numStr a = json_str numStr b
      | _ \<Rightarrow> is_object a \<and> is_object b \<and> json_str numStr a = json_str numStr b)"

fun str_less :: "string \<Rightarrow> string \<Rightarrow> bool" where
  "str_less _ [] = False"
| "str_less [] (_ # _) = True"
| "str_less (a # s) (b # t) =
     (if a = b then str_less s t else (of_char a :: nat) < of_char b)"

definition order_op :: "string \<Rightarrow> bool \<Rightarrow> bool \<Rightarrow> bool" where
  "order_op p lt eq =
     (if p = ''>'' then \<not> lt \<and> \<not> eq else if p = ''>='' then \<not> lt
      else if p = ''<'' then lt else if p = ''<='' then lt \<or> eq else False)"

definition compareValues :: "(rat \<Rightarrow> string) \<Rightarrow> string \<Rightarrow> json \<Rightarrow> json \<Rightarrow> bool" where
  "compareValues numStr p a b =
     (if p = ''=='' \<or> p = ''==='' then equal_values numStr a b
      else if p = ''!='' \<or> p = ''!=='' then \<not> equal_values numStr a b
      else if p = ''contains'' then
        (case a of
           JStr s \<Rightarrow>
             (case b of
                JStr t \<Rightarrow> str_includes (toLowerCase s) (toLowerCase t)
              | JNum q \<Rightarrow> str_includes (toLowerCase s) (toLowerCase (stringify numStr b))
              | JInf n \<Rightarrow> str_includes (toLowerCase s) (toLowerCase (stringify numStr b))
              | _ \<Rightarrow> False)
         | JArr vs \<Rightarrow> (\<exists>x\<in>set vs. equal_values numStr x b)
         | _ \<Rightarrow> False)
      else case (asNumber a, asNumber b) of
        (Some na, Some nb) \<Rightarrow> order_op p (na < nb) (na = nb)
      | _ \<Rightarrow> (case (a, b) of
               (JStr s, JStr t) \<Rightarrow> order_op p (str_less s t) (s = t)
             | _ \<Rightarrow> False))"

fun evalNode :: "(rat \<Rightarrow> string) \<Rightarrow> cond \<Rightarrow> template_ctx \<Rightarrow> json" where
  "evalNode numStr (Lit v) ctx = v"
| "evalNode numStr (Ref p) ctx = resolvePath ctx p PromptMode"
| "evalNode numStr (Not e) ctx = JBool (\<not> truthy (evalNode numStr e ctx))"
| "evalNode numStr (And l r) ctx = JBool (truthy (evalNode numStr l ctx) \<and> truthy (evalNode numStr r ctx))"
| "evalNode numStr (Or l r) ctx = JBool (truthy (evalNode numStr l ctx) \<or> truthy (evalNode numStr r ctx))"
| "evalNode numStr (Cmp p l r) ctx = JBool (compareValues numStr p (evalNode numStr l ctx) (evalNode numStr r ctx))"

definition evaluate :: "(rat \<Rightarrow> string) \<Rightarrow> string \<Rightarrow> template_ctx \<Rightarrow> bool result" where
  "evaluate numStr src ctx =
     (case parse src of Inl e \<Rightarrow> Inl e | Inr t \<Rightarrow> Inr (truthy (evalNode numStr t ctx)))"

definition checkSyntax :: "string \<Rightarrow> error option" where
  "checkSyntax src = (case parse src of Inl e \<Rightarrow> Some e | Inr _ \<Rightarrow> None)"

lemma evalNode_prompt: "same_public c c' \<Longrightarrow> evalNode n t c = evalNode n t c'"
  by (induction t) (simp_all add: resolvePath_prompt)

lemma evaluate_prompt: "same_public c c' \<Longrightarrow> evaluate n src c = evaluate n src c'"
  by (simp add: evaluate_def evalNode_prompt split: sum.splits)

lemma evaluate_ok_iff: "is_ok (evaluate n src ctx) \<longleftrightarrow> checkSyntax src = None"
  by (simp add: evaluate_def checkSyntax_def split: sum.splits)

section \<open>Every sub parse consumes input\<close>

lemma expr_Inr:
  assumes "expr d ts = Inr (e, r)"
  obtains l ts' where "\<not> MAX_DEPTH < d" "andE (d + 1) ts = Inr (l, ts')" "length ts' < length ts" "or_loop d l ts' = Inr (e, r)"
  using assms by (auto simp: expr.simps [of d ts] expr_error_def stuck_def split: if_splits sum.splits)

lemma or_loop_Inr:
  assumes "or_loop d l ts = Inr (e, r)"
  obtains "e = l" "r = ts"
  | r' ts' where "ts \<noteq> []" "hd ts = TOp ''||''" "andE (d + 1) (tl ts) = Inr (r', ts')" "length ts' < length ts"
      "or_loop d (Or l r') ts' = Inr (e, r)"
  using assms by (auto simp: or_loop.simps [of d l ts] stuck_def split: if_splits sum.splits)

lemma andE_Inr:
  assumes "andE d ts = Inr (e, r)"
  obtains l ts' where "unary (d + 1) ts = Inr (l, ts')" "length ts' < length ts" "and_loop d l ts' = Inr (e, r)"
  using assms by (auto simp: andE.simps [of d ts] stuck_def split: if_splits sum.splits)

lemma and_loop_Inr:
  assumes "and_loop d l ts = Inr (e, r)"
  obtains "e = l" "r = ts"
  | r' ts' where "ts \<noteq> []" "hd ts = TOp ''&&''" "unary (d + 1) (tl ts) = Inr (r', ts')" "length ts' < length ts"
      "and_loop d (And l r') ts' = Inr (e, r)"
  using assms by (auto simp: and_loop.simps [of d l ts] stuck_def split: if_splits sum.splits)

lemma unary_Inr:
  assumes "unary d ts = Inr (e, r)"
  obtains e' where "\<not> MAX_DEPTH < d" "ts \<noteq> []" "hd ts = TOp ''!''" "unary (d + 1) (tl ts) = Inr (e', r)"
  | "\<not> MAX_DEPTH < d" "\<not> (ts \<noteq> [] \<and> hd ts = TOp ''!'')" "compare (d + 1) ts = Inr (e, r)"
  using assms by (auto simp: unary.simps [of d ts] expr_error_def split: if_splits sum.splits)

lemma compare_Inr:
  assumes "compare d ts = Inr (e, r)"
  obtains "primary (d + 1) ts = Inr (e, r)"
  | l p ts' r' where "primary (d + 1) ts = Inr (l, TOp p # ts')" "p \<in> set CMP_OPS" "length ts' < length ts"
      "primary (d + 1) ts' = Inr (r', r)"
  using assms by (auto simp: compare.simps [of d ts] stuck_def split: if_splits sum.splits list.splits tok.splits)

lemma primary_Lp_Inr:
  assumes "primary d (TLp # ts) = Inr (e, r)"
  obtains "expr (d + 1) ts = Inr (e, TRp # r)"
  using assms by (auto simp: expr_error_def split: sum.splits list.splits tok.splits)

lemma parse_consumes:
  "expr d ts = Inr (e, r) \<Longrightarrow> length r < length ts"
  "or_loop d l ts = Inr (e, r) \<Longrightarrow> length r \<le> length ts"
  "andE d ts = Inr (e, r) \<Longrightarrow> length r < length ts"
  "and_loop d l ts = Inr (e, r) \<Longrightarrow> length r \<le> length ts"
  "unary d ts = Inr (e, r) \<Longrightarrow> length r < length ts"
  "compare d ts = Inr (e, r) \<Longrightarrow> length r < length ts"
  "primary d ts = Inr (e, r) \<Longrightarrow> length r < length ts"
proof (induction d ts and d l ts and d ts and d l ts and d ts and d ts and d ts arbitrary: e r and e r and e r and e r and e r and e r and e r
    rule: expr_or_loop_andE_and_loop_unary_compare_primary.induct)
  case (1 d ts)
  from 1(3) show ?case by (rule expr_Inr) (use 1(2) in force)
next
  case (2 d l ts)
  from 2(3) show ?case by (rule or_loop_Inr) (simp, use 2(2) in force)
next
  case (3 d ts)
  from 3(3) show ?case by (rule andE_Inr) (use 3(2) in force)
next
  case (4 d l ts)
  from 4(3) show ?case by (rule and_loop_Inr) (simp, use 4(2) in force)
next
  case (5 d ts)
  from 5(3) show ?case
  proof (rule unary_Inr)
    fix e' assume "\<not> MAX_DEPTH < d" "ts \<noteq> []" "hd ts = TOp ''!''" "unary (d + 1) (tl ts) = Inr (e', r)"
    then have "length r < length (tl ts)" using 5(1) by blast
    then show ?thesis by simp
  qed (use 5(2) in blast)
next
  case (6 d ts)
  from 6(3) show ?case
  proof (rule compare_Inr)
    fix l p ts' r' assume *: "primary (d + 1) ts = Inr (l, TOp p # ts')" "p \<in> set CMP_OPS" "length ts' < length ts"
      "primary (d + 1) ts' = Inr (r', r)"
    have "length r < length ts'" by (rule 6(2) [OF *(1) _ _ _ *(2,3,4)]) simp_all
    with *(3) show ?thesis by simp
  qed (use 6(1) in blast)
next
  case (12 d ts)
  from 12(2) show ?case by (rule primary_Lp_Inr) (use 12(1) in force)
qed (simp_all add: expr_error_def)

section \<open>The grammar of conditions\<close>

text \<open>
  The grammar at the top of \<open>expression.ts\<close>, one relation per nonterminal, independent of the parser:
  \<open>is_or k ts e\<close> says that the tokens \<open>ts\<close> derive from \<open>or\<close> with the tree \<open>e\<close> and at most \<open>k\<close> levels of
  nesting.  \<open>||\<close> and \<open>&&\<close> are lists that group to the left, \<open>&&\<close> binds tighter than \<open>||\<close>, \<open>!\<close> stands
  before an operand, and a comparison has exactly two primaries.  A \<open>!\<close> costs one level and a pair of parentheses
  five, the functions of the parser that a nested expression passes through.
\<close>

inductive is_or :: "nat \<Rightarrow> tok list \<Rightarrow> cond \<Rightarrow> bool"
  and is_and :: "nat \<Rightarrow> tok list \<Rightarrow> cond \<Rightarrow> bool"
  and is_unary :: "nat \<Rightarrow> tok list \<Rightarrow> cond \<Rightarrow> bool"
  and is_compare :: "nat \<Rightarrow> tok list \<Rightarrow> cond \<Rightarrow> bool"
  and is_primary :: "nat \<Rightarrow> tok list \<Rightarrow> cond \<Rightarrow> bool" where
  or_one: "is_and k ts e \<Longrightarrow> is_or k ts e"
| or_more: "is_or k ts l \<Longrightarrow> is_and k us r \<Longrightarrow> is_or k (ts @ TOp ''||'' # us) (Or l r)"
| and_one: "is_unary k ts e \<Longrightarrow> is_and k ts e"
| and_more: "is_and k ts l \<Longrightarrow> is_unary k us r \<Longrightarrow> is_and k (ts @ TOp ''&&'' # us) (And l r)"
| negation: "is_unary k ts e \<Longrightarrow> is_unary (Suc k) (TOp ''!'' # ts) (Not e)"
| no_negation: "is_compare k ts e \<Longrightarrow> is_unary k ts e"
| one_primary: "is_primary k ts e \<Longrightarrow> is_compare k ts e"
| comparison: "is_primary k ts l \<Longrightarrow> p \<in> set CMP_OPS \<Longrightarrow> is_primary k us r \<Longrightarrow> is_compare k (ts @ TOp p # us) (Cmp p l r)"
| number: "is_primary k [TNum v] (Lit v)"
| text_literal: "is_primary k [TStr v] (Lit (JStr v))"
| word_literal: "is_primary k [TKw v] (Lit v)"
| reference: "is_primary k [TRef p] (Ref p)"
| parenthesised: "is_or k ts e \<Longrightarrow> is_primary (k + 5) (TLp # ts @ [TRp]) e"

lemmas grammar = or_one or_more and_one and_more negation no_negation one_primary comparison number text_literal
  word_literal reference parenthesised

text \<open>What the loops have read so far is a derivation already.\<close>

lemma parse_sound:
  "expr d ts = Inr (e, r) \<Longrightarrow> d + 2 \<le> MAX_DEPTH \<and> (\<exists>us. ts = us @ r \<and> is_or (MAX_DEPTH - 2 - d) us e)"
  "or_loop d l ts = Inr (e, r) \<Longrightarrow> is_or (MAX_DEPTH - 2 - d) vs l \<Longrightarrow> \<exists>us. ts = us @ r \<and> is_or (MAX_DEPTH - 2 - d) (vs @ us) e"
  "andE d ts = Inr (e, r) \<Longrightarrow> d + 1 \<le> MAX_DEPTH \<and> (\<exists>us. ts = us @ r \<and> is_and (MAX_DEPTH - 1 - d) us e)"
  "and_loop d l ts = Inr (e, r) \<Longrightarrow> is_and (MAX_DEPTH - 1 - d) vs l \<Longrightarrow> \<exists>us. ts = us @ r \<and> is_and (MAX_DEPTH - 1 - d) (vs @ us) e"
  "unary d ts = Inr (e, r) \<Longrightarrow> d \<le> MAX_DEPTH \<and> (\<exists>us. ts = us @ r \<and> is_unary (MAX_DEPTH - d) us e)"
  "compare d ts = Inr (e, r) \<Longrightarrow> \<exists>us. ts = us @ r \<and> is_compare (MAX_DEPTH + 1 - d) us e"
  "primary d ts = Inr (e, r) \<Longrightarrow> \<exists>us. ts = us @ r \<and> is_primary (MAX_DEPTH + 2 - d) us e"
proof (induction d ts and d l ts and d ts and d l ts and d ts and d ts and d ts
    arbitrary: e r and e r vs and e r and e r vs and e r and e r and e r
    rule: expr_or_loop_andE_and_loop_unary_compare_primary.induct)
  case (1 d ts)
  from 1(3) show ?case
  proof (rule expr_Inr)
    fix l ts' assume *: "\<not> MAX_DEPTH < d" "andE (d + 1) ts = Inr (l, ts')" "length ts' < length ts" "or_loop d l ts' = Inr (e, r)"
    obtain us where us: "d + 2 \<le> MAX_DEPTH" "ts = us @ ts'" "is_and (MAX_DEPTH - 2 - d) us l"
      using 1(1) [OF *(1,2)] by auto
    then obtain ws where "ts' = ws @ r" "is_or (MAX_DEPTH - 2 - d) (us @ ws) e"
      using 1(2) [OF *(1,2) refl *(3,4)] or_one by blast
    with us show ?thesis by auto
  qed
next
  case (2 d l ts)
  from 2(3) show ?case
  proof (rule or_loop_Inr)
    fix r' ts' assume *: "ts \<noteq> []" "hd ts = TOp ''||''" "andE (d + 1) (tl ts) = Inr (r', ts')" "length ts' < length ts"
      "or_loop d (Or l r') ts' = Inr (e, r)"
    have c: "ts \<noteq> [] \<and> hd ts = TOp ''||''" using * by simp
    obtain us where us: "tl ts = us @ ts'" "is_and (MAX_DEPTH - 2 - d) us r'"
      using 2(1) [OF c *(3)] by auto
    obtain ws where "ts' = ws @ r" "is_or (MAX_DEPTH - 2 - d) ((vs @ TOp ''||'' # us) @ ws) e"
      using 2(2) [OF c *(3) refl *(4,5) or_more [OF 2(4) us(2)]] by blast
    moreover have "ts = TOp ''||'' # us @ ts'" using us(1) * by (cases ts) auto
    ultimately show ?thesis by auto
  qed (use 2(4) in auto)
next
  case (3 d ts)
  from 3(3) show ?case
  proof (rule andE_Inr)
    fix l ts' assume *: "unary (d + 1) ts = Inr (l, ts')" "length ts' < length ts" "and_loop d l ts' = Inr (e, r)"
    obtain us where us: "d + 1 \<le> MAX_DEPTH" "ts = us @ ts'" "is_unary (MAX_DEPTH - 1 - d) us l"
      using 3(1) [OF *(1)] by auto
    then obtain ws where "ts' = ws @ r" "is_and (MAX_DEPTH - 1 - d) (us @ ws) e"
      using 3(2) [OF *(1) refl *(2,3)] and_one by blast
    with us show ?thesis by auto
  qed
next
  case (4 d l ts)
  from 4(3) show ?case
  proof (rule and_loop_Inr)
    fix r' ts' assume *: "ts \<noteq> []" "hd ts = TOp ''&&''" "unary (d + 1) (tl ts) = Inr (r', ts')" "length ts' < length ts"
      "and_loop d (And l r') ts' = Inr (e, r)"
    have c: "ts \<noteq> [] \<and> hd ts = TOp ''&&''" using * by simp
    obtain us where us: "tl ts = us @ ts'" "is_unary (MAX_DEPTH - 1 - d) us r'"
      using 4(1) [OF c *(3)] by auto
    obtain ws where "ts' = ws @ r" "is_and (MAX_DEPTH - 1 - d) ((vs @ TOp ''&&'' # us) @ ws) e"
      using 4(2) [OF c *(3) refl *(4,5) and_more [OF 4(4) us(2)]] by blast
    moreover have "ts = TOp ''&&'' # us @ ts'" using us(1) * by (cases ts) auto
    ultimately show ?thesis by auto
  qed (use 4(4) in auto)
next
  case (5 d ts)
  show ?case
  proof (cases "ts \<noteq> [] \<and> hd ts = TOp ''!''")
    case True
    then obtain e' where e': "\<not> MAX_DEPTH < d" "unary (d + 1) (tl ts) = Inr (e', r)" "e = Not e'"
      using 5(3) by (auto simp: unary.simps [of d ts] expr_error_def split: if_splits sum.splits)
    obtain us where us: "d + 1 \<le> MAX_DEPTH" "tl ts = us @ r" "is_unary (MAX_DEPTH - (d + 1)) us e'"
      using 5(1) [OF e'(1) True e'(2)] by auto
    have "is_unary (Suc (MAX_DEPTH - (d + 1))) (TOp ''!'' # us) e" unfolding e'(3) by (rule negation [OF us(3)])
    moreover have "Suc (MAX_DEPTH - (d + 1)) = MAX_DEPTH - d" using us(1) by simp
    moreover have "ts = TOp ''!'' # us @ r" using us(2) True by (cases ts) auto
    ultimately show ?thesis using us(1) by auto
  next
    case False
    then have *: "\<not> MAX_DEPTH < d" "compare (d + 1) ts = Inr (e, r)"
      using 5(3) by (auto simp: unary.simps [of d ts] expr_error_def split: if_splits)
    show ?thesis using 5(2) [OF *(1) False *(2)] *(1) no_negation by (auto simp: Suc_diff_le)
  qed
next
  case (6 d ts)
  obtain l q where pr: "primary (d + 1) ts = Inr (l, q)" using 6(3) by (auto simp: compare.simps [of d ts] split: sum.splits)
  obtain us where us: "ts = us @ q" "is_primary (MAX_DEPTH + 1 - d) us l"
    using 6(1) [OF pr] by auto
  show ?case
  proof (cases "\<exists>p ts'. q = TOp p # ts' \<and> p \<in> set CMP_OPS")
    case True
    then obtain p ts' where q: "q = TOp p # ts'" "p \<in> set CMP_OPS" by blast
    then obtain r' where r': "length ts' < length ts" "primary (d + 1) ts' = Inr (r', r)" "e = Cmp p l r'"
      using 6(3) pr by (auto simp: compare.simps [of d ts] stuck_def split: sum.splits if_splits)
    obtain ws where "ts' = ws @ r" "is_primary (MAX_DEPTH + 1 - d) ws r'"
      using 6(2) [OF pr refl q(1) refl q(2) r'(1,2)] by auto
    then show ?thesis using comparison [OF us(2) q(2)] us(1) q(1) r'(3) by auto
  next
    case False
    then have "e = l \<and> r = q"
      using 6(3) pr by (auto simp: compare.simps [of d ts] split: list.splits tok.splits)
    then show ?thesis using us one_primary by auto
  qed
next
  case (12 d ts)
  from 12(2) show ?case
  proof (rule primary_Lp_Inr)
    assume e: "expr (d + 1) ts = Inr (e, TRp # r)"
    obtain us where us: "d + 3 \<le> MAX_DEPTH" "ts = us @ TRp # r" "is_or (MAX_DEPTH - 2 - (d + 1)) us e"
      using 12(1) [OF e] by auto
    have "is_primary (MAX_DEPTH - 2 - (d + 1) + 5) (TLp # us @ [TRp]) e" by (rule parenthesised [OF us(3)])
    moreover have "MAX_DEPTH - 2 - (d + 1) + 5 = MAX_DEPTH + 2 - d" using us(1) by simp
    ultimately show ?thesis using us(2) by auto
  qed
qed (auto simp: expr_error_def intro: grammar)

section \<open>The parser accepts exactly the grammar\<close>

lemma compare_step:
  assumes "primary (Suc d) ts = Inr (l, rest)" "\<And>p ts. rest = TOp p # ts \<Longrightarrow> p \<notin> set CMP_OPS"
  shows "compare d ts = Inr (l, rest)"
  using assms by (simp add: compare.simps [of d ts] split: list.splits tok.splits)

lemma compare_step_op:
  assumes "primary (Suc d) ts = Inr (l, TOp p # ts')" "p \<in> set CMP_OPS" "primary (Suc d) ts' = Inr (r, rest)"
  shows "compare d ts = Inr (Cmp p l r, rest)"
  using assms parse_consumes(7) [OF assms(1)] by (simp add: compare.simps [of d ts])

lemma unary_step:
  assumes "compare (Suc d) ts = Inr x" "d \<le> MAX_DEPTH" "hd ts \<noteq> TOp ''!''"
  shows "unary d ts = Inr x"
  using assms by (simp add: unary.simps [of d ts])

lemma unary_not:
  assumes "unary (Suc d) ts = Inr (e, rest)" "d \<le> MAX_DEPTH"
  shows "unary d (TOp ''!'' # ts) = Inr (Not e, rest)"
  using assms by (simp add: unary.simps [of d "TOp ''!'' # ts"])

lemma andE_step:
  assumes "unary (Suc d) ts = Inr (l, ts')" "and_loop d l ts' = Inr x"
  shows "andE d ts = Inr x"
  using assms parse_consumes(5) [OF assms(1)] by (simp add: andE.simps [of d ts])

lemma and_loop_step:
  assumes "unary (Suc d) ts = Inr (r, ts')" "and_loop d (And l r) ts' = Inr x"
  shows "and_loop d l (TOp ''&&'' # ts) = Inr x"
  using assms parse_consumes(5) [OF assms(1)] by (simp add: and_loop.simps [of d l "TOp ''&&'' # ts"])

lemma or_loop_step:
  assumes "andE (Suc d) ts = Inr (r, ts')" "or_loop d (Or l r) ts' = Inr x"
  shows "or_loop d l (TOp ''||'' # ts) = Inr x"
  using assms parse_consumes(3) [OF assms(1)] by (simp add: or_loop.simps [of d l "TOp ''||'' # ts"])

lemma expr_step:
  assumes "andE (Suc d) ts = Inr (l, ts')" "or_loop d l ts' = Inr x" "d \<le> MAX_DEPTH"
  shows "expr d ts = Inr x"
  using assms parse_consumes(3) [OF assms(1)] by (simp add: expr.simps [of d ts])

lemma loop_done:
  "ts = [] \<or> hd ts \<noteq> TOp ''&&'' \<Longrightarrow> and_loop d l ts = Inr (l, ts)"
  "ts = [] \<or> hd ts \<noteq> TOp ''||'' \<Longrightarrow> or_loop d l ts = Inr (l, ts)"
  by (auto simp: or_loop.simps [of d l ts] and_loop.simps [of d l ts])

lemma logic_not_cmp: "''&&'' \<notin> set CMP_OPS" "''||'' \<notin> set CMP_OPS"
  by (simp_all add: CMP_OPS_def)

text \<open>What may follow an operand without being taken for a comparison, and a list of operands without extending it.\<close>

definition no_op :: "string set \<Rightarrow> tok list \<Rightarrow> bool" where
  "no_op ps rest \<longleftrightarrow> (\<forall>p ts. rest = TOp p # ts \<longrightarrow> p \<notin> ps)"

abbreviation no_cmp :: "tok list \<Rightarrow> bool" where "no_cmp \<equiv> no_op (set CMP_OPS)"
abbreviation no_and :: "tok list \<Rightarrow> bool" where "no_and \<equiv> no_op (insert ''&&'' (set CMP_OPS))"

lemma no_op_simps [simp]:
  "no_op ps []" "no_op ps (TRp # ts)" "no_op ps (TOp p # ts) \<longleftrightarrow> p \<notin> ps"
  by (simp_all add: no_op_def)

lemma no_andD: "no_and rest \<Longrightarrow> no_cmp rest" "no_and rest \<Longrightarrow> rest = [] \<or> hd rest \<noteq> TOp ''&&''"
  by (auto simp: no_op_def neq_Nil_conv)

lemma primary_head: "is_primary k ts e \<Longrightarrow> ts \<noteq> [] \<and> hd ts \<noteq> TOp p"
  by (erule is_primary.cases) simp_all

lemma compare_head: "is_compare k ts e \<Longrightarrow> ts \<noteq> [] \<and> hd ts \<noteq> TOp p"
  by (erule is_compare.cases) (auto dest: primary_head)

lemma parse_complete:
  "is_or k ts e \<Longrightarrow> d + 2 + k \<le> MAX_DEPTH \<Longrightarrow> no_and rest \<Longrightarrow> or_loop d e rest = Inr x \<Longrightarrow> expr d (ts @ rest) = Inr x"
  "is_and k ts e \<Longrightarrow> d + 1 + k \<le> MAX_DEPTH \<Longrightarrow> no_cmp rest \<Longrightarrow> and_loop d e rest = Inr x \<Longrightarrow> andE d (ts @ rest) = Inr x"
  "is_unary k ts e \<Longrightarrow> d + k \<le> MAX_DEPTH \<Longrightarrow> no_cmp rest \<Longrightarrow> unary d (ts @ rest) = Inr (e, rest)"
  "is_compare k ts e \<Longrightarrow> d + k \<le> MAX_DEPTH + 1 \<Longrightarrow> no_cmp rest \<Longrightarrow> compare d (ts @ rest) = Inr (e, rest)"
  "is_primary k ts e \<Longrightarrow> d + k \<le> MAX_DEPTH + 2 \<Longrightarrow> primary d (ts @ rest) = Inr (e, rest)"
proof (induction arbitrary: d rest x and d rest x and d rest and d rest and d rest
    rule: is_or_is_and_is_unary_is_compare_is_primary.inducts)
  case (or_one k ts e)
  have "andE (Suc d) (ts @ rest) = Inr (e, rest)"
    using or_one.prems no_andD [of rest] by (intro or_one.IH) (simp_all add: loop_done)
  then show ?case by (rule expr_step) (use or_one.prems in simp_all)
next
  case (or_more k ts l us r)
  have "andE (Suc d) (us @ rest) = Inr (r, rest)"
    using or_more.prems no_andD [of rest] by (intro or_more.IH(2)) (simp_all add: loop_done)
  then have "or_loop d l (TOp ''||'' # us @ rest) = Inr x" by (rule or_loop_step) (rule or_more.prems)
  then have "expr d (ts @ TOp ''||'' # us @ rest) = Inr x"
    using or_more.prems by (intro or_more.IH(1)) (simp_all add: logic_not_cmp)
  then show ?case by simp
next
  case (and_one k ts e)
  have "unary (Suc d) (ts @ rest) = Inr (e, rest)" using and_one.prems by (intro and_one.IH) simp_all
  then show ?case by (rule andE_step) (rule and_one.prems)
next
  case (and_more k ts l us r)
  have "unary (Suc d) (us @ rest) = Inr (r, rest)" using and_more.prems by (intro and_more.IH(2)) simp_all
  then have "and_loop d l (TOp ''&&'' # us @ rest) = Inr x" by (rule and_loop_step) (rule and_more.prems)
  then have "andE d (ts @ TOp ''&&'' # us @ rest) = Inr x"
    using and_more.prems by (intro and_more.IH(1)) (simp_all add: logic_not_cmp)
  then show ?case by simp
next
  case (negation k ts e)
  have "unary (Suc d) (ts @ rest) = Inr (e, rest)" using negation.prems by (intro negation.IH) simp_all
  then show ?case using negation.prems by (simp add: unary_not)
next
  case (no_negation k ts e)
  have "compare (Suc d) (ts @ rest) = Inr (e, rest)" using no_negation.prems by (intro no_negation.IH) simp_all
  then show ?case using no_negation.prems compare_head [OF no_negation.hyps] by (intro unary_step) simp_all
next
  case (one_primary k ts e)
  have "primary (Suc d) (ts @ rest) = Inr (e, rest)" using one_primary.prems by (intro one_primary.IH) simp_all
  then show ?case by (rule compare_step) (use one_primary.prems in \<open>auto simp: no_op_def\<close>)
next
  case (comparison k ts l p us r)
  have "primary (Suc d) (us @ rest) = Inr (r, rest)" using comparison.prems by (intro comparison.IH(2)) simp_all
  moreover have "primary (Suc d) (ts @ TOp p # us @ rest) = Inr (l, TOp p # us @ rest)"
    using comparison.prems by (intro comparison.IH(1)) simp_all
  ultimately have "compare d (ts @ TOp p # us @ rest) = Inr (Cmp p l r, rest)"
    using comparison.hyps by (intro compare_step_op)
  then show ?case by simp
next
  case (parenthesised k ts e)
  have "expr (Suc d) (ts @ TRp # rest) = Inr (e, TRp # rest)"
    using parenthesised.prems by (intro parenthesised.IH) (simp_all add: loop_done)
  then show ?case by simp
qed simp_all

text \<open>
  The parser accepts a condition exactly when the grammar derives it within the depth limit, and its tree is the one
  of the derivation, so the grammar has one tree at most.
\<close>

lemma parse_toks_iff: "parse_toks ts = Inr e \<longleftrightarrow> is_or (MAX_DEPTH - 2) ts e"
proof
  assume "parse_toks ts = Inr e"
  then have "expr 0 ts = Inr (e, [])" by (auto simp: parse_toks_def expr_error_def split: sum.splits list.splits)
  then show "is_or (MAX_DEPTH - 2) ts e" using parse_sound(1) [of 0 ts e "[]"] by simp
next
  assume "is_or (MAX_DEPTH - 2) ts e"
  from parse_complete(1) [OF this, of 0 "[]"] have "expr 0 ts = Inr (e, [])" by (simp add: loop_done MAX_DEPTH_def)
  then show "parse_toks ts = Inr e" by (simp add: parse_toks_def)
qed

lemma parse_iff: "parse src = Inr e \<longleftrightarrow> (\<exists>ts. tokenize src = Inr ts \<and> is_or (MAX_DEPTH - 2) ts e)"
  by (auto simp: parse_def parse_toks_iff split: sum.splits)

lemma grammar_one_tree: "is_or (MAX_DEPTH - 2) ts e \<Longrightarrow> is_or (MAX_DEPTH - 2) ts e' \<Longrightarrow> e = e'"
  by (simp flip: parse_toks_iff)

end
