(* ===== verification/Flow_Graph.thy ===== *)
theory Flow_Graph
  imports Expression
begin

text \<open>
  Workflow graphs of the agent builder (\<^verbatim>\<open>src/apps/api/src/modules/connect/runtime/graph.ts\<close>):
  the data check of every node type, the validator every saved or generated graph passes, the
  topological order (Kahn's algorithm) and reachability from the trigger.

  The issue texts of the source are the constructors of \<open>graph_issue\<close> and \<open>data_issue\<close>.  A
  property read of a missing node throws in JavaScript; the validator therefore returns a result.
\<close>

section \<open>Data\<close>

record graph_node =
  gn_id :: string
  gn_type :: string
  gn_position :: "json \<times> json"
  gn_data :: "(string \<times> json) list"

record graph_edge =
  ge_id :: string
  ge_source :: string
  ge_target :: string
  ge_sourceHandle :: "string option"
  ge_label :: "string option"

record graph =
  g_nodes :: "graph_node list"
  g_edges :: "graph_edge list"

datatype data_issue = BadTriggerSource | BadCron | PromptRequired | ToolIdsNotList | UnknownTool string | BadOutputSchema
  | ToolIdRequired | BadInput | ExpressionRequired | ExpressionError error | BadKind | BadConfig | TemplateRequired
  | OneChar char

datatype graph_issue = GraphNotObject | NodesNotList | EdgesNotList | TooManyNodes | TooManyEdges
  | NodeNotObject nat | BadNodeId nat | DuplicateNode nat string | UnknownType nat | BadData nat | DataIssue nat string data_issue
  | EdgeNotObject nat | DuplicateEdge nat string | UnknownSource nat | UnknownTarget nat | SelfEdge nat
  | TriggerCount nat | NoTrigger | IntoTrigger string | OutOfEnd string | NoHandle string | HasCycle | Unreachable string

definition TRIGGER_SOURCES :: "string list" where "TRIGGER_SOURCES = [''api'', ''webhook'', ''schedule'', ''manual'']"
definition ACTION_KINDS :: "string list" where "ACTION_KINDS = [''send_email'', ''notify'', ''http_request'', ''progrid'']"
definition MAX_NODES :: nat where "MAX_NODES = 100"
definition MAX_EDGES :: nat where "MAX_EDGES = 300"

definition node_id_ok :: "string \<Rightarrow> bool" where
  "node_id_ok s \<longleftrightarrow>
     (case s of
        [] \<Rightarrow> False
      | c # r \<Rightarrow> is_alpha c \<and> length r \<le> 63 \<and> list_all (\<lambda>x. is_word x \<or> x = CHR ''-'') r)"

section \<open>Schedules\<close>

text \<open>The optional digits that follow a mark: nothing, or the digits and the rest.\<close>
definition marked_digits :: "char \<Rightarrow> string \<Rightarrow> string option \<times> string" where
  "marked_digits c s =
     (if s \<noteq> [] \<and> hd s = c \<and> takeWhile is_digit (tl s) \<noteq> []
      then (Some (takeWhile is_digit (tl s)), dropWhile is_digit (tl s)) else (None, s))"

text \<open>Groups 2, 4 and 6 of the item pattern.\<close>
definition cron_item :: "string \<Rightarrow> (string option \<times> string option \<times> string option) option" where
  "cron_item s =
     (if s = [] then None
      else if hd s = CHR ''*'' then
        (let (step, r) = marked_digits (CHR ''/'') (tl s) in if r = [] then Some (None, None, step) else None)
      else
        (let a = takeWhile is_digit s;
             (b, r1) = marked_digits (CHR ''-'') (dropWhile is_digit s);
             (step, r2) = marked_digits (CHR ''/'') r1
         in if a \<noteq> [] \<and> r2 = [] then Some (Some a, b, step) else None))"

definition number_within :: "rat \<Rightarrow> rat option \<Rightarrow> string option \<Rightarrow> bool" where
  "number_within lo hi s =
     (case s of None \<Rightarrow> True
      | Some d \<Rightarrow> (case js_Number d of None \<Rightarrow> False
                 | Some n \<Rightarrow> lo \<le> n \<and> (case hi of None \<Rightarrow> True | Some h \<Rightarrow> n \<le> h) \<and> of_int \<lfloor>n\<rfloor> = n))"

definition cron_field_ok :: "rat \<times> rat \<Rightarrow> string \<Rightarrow> bool" where
  "cron_field_ok lh p \<longleftrightarrow>
     list_all (\<lambda>item. case cron_item item of
                 None \<Rightarrow> False
               | Some (a, b, step) \<Rightarrow>
                   number_within (fst lh) (Some (snd lh)) a \<and> number_within (fst lh) (Some (snd lh)) b
                   \<and> number_within 1 None step)
       (split_on (CHR '','') p)"

definition CRON_RANGES :: "(rat \<times> rat) list" where
  "CRON_RANGES = [(0, 59), (0, 23), (1, 31), (1, 12), (0, 7)]"

definition isCron :: "string \<Rightarrow> bool" where
  "isCron text \<longleftrightarrow>
     (let parts = split_spaces (trim text)
      in length parts = 5 \<and> list_all (\<lambda>(lh, p). cron_field_ok lh p) (zip CRON_RANGES parts))"

section \<open>Node data\<close>

definition is_text :: "json \<Rightarrow> bool" where
  "is_text v \<longleftrightarrow> (case v of JStr _ \<Rightarrow> True | _ \<Rightarrow> False)"

definition text_of :: "json \<Rightarrow> string" where
  "text_of v = (case v of JStr s \<Rightarrow> s | _ \<Rightarrow> [])"

definition trigger_check :: "(string \<times> json) list \<Rightarrow> data_issue list" where
  "trigger_check d =
     (let v = get_prop ''source'' d;
          source = (if v = JUndef \<or> v = JNull then JStr ''api'' else v)
      in (if source \<in> JStr ` set TRIGGER_SOURCES then [] else [BadTriggerSource])
         @ (if source = JStr ''schedule'' \<and> \<not> (is_text (get_prop ''cron'' d) \<and> isCron (text_of (get_prop ''cron'' d)))
            then [BadCron] else []))"

definition tool_ids_check :: "string list option \<Rightarrow> json \<Rightarrow> data_issue list" where
  "tool_ids_check toolIds v =
     (case v of
        JUndef \<Rightarrow> []
      | JArr ts \<Rightarrow>
          if list_all is_text ts then
            (case toolIds of
               None \<Rightarrow> []
             | Some known \<Rightarrow> map UnknownTool (filter (\<lambda>t. t \<notin> set known) (map text_of ts)))
          else [ToolIdsNotList]
      | _ \<Rightarrow> [ToolIdsNotList])"

definition agent_check :: "string list option \<Rightarrow> (string \<times> json) list \<Rightarrow> data_issue list" where
  "agent_check toolIds d =
     (if trim (text_of (get_prop ''prompt'' d)) = [] then [PromptRequired] else [])
     @ tool_ids_check toolIds (get_prop ''toolIds'' d)
     @ (let v = get_prop ''outputSchema'' d
        in if v \<noteq> JUndef \<and> v \<noteq> JNull \<and> \<not> isObj v then [BadOutputSchema] else [])"

definition tool_check :: "string list option \<Rightarrow> (string \<times> json) list \<Rightarrow> data_issue list" where
  "tool_check toolIds d =
     (let t = text_of (get_prop ''toolId'' d) in
      if t = [] then [ToolIdRequired]
      else case toolIds of None \<Rightarrow> [] | Some known \<Rightarrow> if t \<in> set known then [] else [UnknownTool t])
     @ (let v = get_prop ''input'' d in if v \<noteq> JUndef \<and> \<not> isObj v \<and> \<not> is_text v then [BadInput] else [])"

definition condition_check :: "(string \<times> json) list \<Rightarrow> data_issue list" where
  "condition_check d =
     (let e = text_of (get_prop ''expression'' d) in
      if trim e = [] then [ExpressionRequired]
      else case checkSyntax e of None \<Rightarrow> [] | Some err \<Rightarrow> [ExpressionError err])"

definition action_check :: "(string \<times> json) list \<Rightarrow> data_issue list" where
  "action_check d =
     (if get_prop ''kind'' d \<in> JStr ` set ACTION_KINDS then [] else [BadKind])
     @ (let v = get_prop ''config'' d in if v \<noteq> JUndef \<and> \<not> isObj v then [BadConfig] else [])"

definition transform_check :: "(string \<times> json) list \<Rightarrow> data_issue list" where
  "transform_check d = (if get_prop ''template'' d = JUndef then [TemplateRequired] else [])"

definition NODE_TYPES :: "(string \<times> (string list option \<Rightarrow> (string \<times> json) list \<Rightarrow> data_issue list)) list" where
  "NODE_TYPES =
    [(''trigger'', \<lambda>_. trigger_check), (''agent'', agent_check), (''tool'', tool_check), (''condition'', \<lambda>_. condition_check),
     (''action'', \<lambda>_. action_check), (''transform'', \<lambda>_. transform_check), (''end'', \<lambda>_ _. [])]"

text \<open>
  The \<open>in\<close> operator also finds the members every object inherits.  Called as a data check,
  \<open>toString\<close> and \<open>toLocaleString\<close> return a text, which the loop visits character by character;
  the others return something that is not iterable, or are not callable, and the loop throws.
\<close>
definition INHERITED :: "string list" where
  "INHERITED =
    [''constructor'', ''__defineGetter__'', ''__defineSetter__'', ''hasOwnProperty'', ''__lookupGetter__'', ''__lookupSetter__'',
     ''isPrototypeOf'', ''propertyIsEnumerable'', ''toString'', ''valueOf'', ''__proto__'', ''toLocaleString'']"

definition type_error :: error where "type_error = JsError ''TypeError''"

definition known_type :: "string \<Rightarrow> bool" where
  "known_type ty \<longleftrightarrow> ty \<in> fst ` set NODE_TYPES \<or> ty \<in> set INHERITED"

definition data_check :: "string \<Rightarrow> string list option \<Rightarrow> (string \<times> json) list \<Rightarrow> data_issue list result" where
  "data_check ty toolIds d =
     (case map_of NODE_TYPES ty of
        Some f \<Rightarrow> Inr (f toolIds d)
      | None \<Rightarrow> if ty \<in> {''toString'', ''toLocaleString''} then Inr (map OneChar ''[object Object]'') else Inl type_error)"

section \<open>Topological order\<close>

text \<open>The inner loop: every edge that leaves the node lowers its target; a target that reaches 0 is queued.\<close>
fun relax :: "graph_edge list \<Rightarrow> (string \<Rightarrow> int) \<Rightarrow> (string \<Rightarrow> int) \<times> string list" where
  "relax [] indeg = (indeg, [])"
| "relax (e # es) indeg =
     (let d = indeg (ge_target e) - 1;
          (indeg', q) = relax es (indeg(ge_target e := d))
      in (indeg', if d = 0 then ge_target e # q else q))"

definition targets_into :: "string \<Rightarrow> graph_edge list \<Rightarrow> nat" where
  "targets_into n es = length (filter (\<lambda>e. ge_target e = n) es)"

lemma targets_into_simps [simp]:
  "targets_into n [] = 0"
  "targets_into n (e # es) = (if ge_target e = n then Suc (targets_into n es) else targets_into n es)"
  by (simp_all add: targets_into_def)

lemma relax_Cons:
  "fst (relax (e # es) indeg) = fst (relax es (indeg(ge_target e := indeg (ge_target e) - 1)))"
  "snd (relax (e # es) indeg) =
     (let q = snd (relax es (indeg(ge_target e := indeg (ge_target e) - 1)))
      in if indeg (ge_target e) = 1 then ge_target e # q else q)"
  by (simp_all add: Let_def split: prod.split)

declare relax.simps(2) [simp del]

lemma relax_indeg: "fst (relax es indeg) n = indeg n - int (targets_into n es)"
  by (induction es arbitrary: indeg) (simp_all add: relax_Cons)

lemma relax_queued:
  "n \<in> set (snd (relax es indeg)) \<longleftrightarrow> 1 \<le> indeg n \<and> indeg n \<le> int (targets_into n es)"
proof (induction es arbitrary: indeg)
  case (Cons e es)
  show ?case
    by (cases "ge_target e = n"; cases "indeg (ge_target e) = 1") (simp_all add: relax_Cons Let_def Cons, linarith)
qed simp

lemma relax_distinct: "distinct (snd (relax es indeg))"
  by (induction es arbitrary: indeg) (simp_all add: relax_Cons Let_def relax_queued)

lemma targets_into_pos: "0 < targets_into n es \<Longrightarrow> n \<in> ge_target ` set es"
  by (induction es) (auto split: if_splits)

lemma relax_card:
  assumes "set fs \<subseteq> set es"
  shows "card {t \<in> ge_target ` set es. 0 < fst (relax fs indeg) t} + length (snd (relax fs indeg))
     \<le> card {t \<in> ge_target ` set es. 0 < indeg t}"
proof -
  let ?T = "ge_target ` set es"
  let ?A = "{t \<in> ?T. 0 < indeg t - int (targets_into t fs)}"
    and ?B = "{t. 1 \<le> indeg t \<and> indeg t \<le> int (targets_into t fs)}"
  have B: "set (snd (relax fs indeg)) = ?B" by (simp add: set_eq_iff relax_queued)
  have "t \<in> ge_target ` set fs" if "1 \<le> indeg t" "indeg t \<le> int (targets_into t fs)" for t
    using that by (intro targets_into_pos) linarith
  then have "?B \<subseteq> {t \<in> ?T. 0 < indeg t}" using assms by (simp add: subset_iff) blast
  moreover have "?A \<subseteq> {t \<in> ?T. 0 < indeg t}" by (rule Collect_mono) simp
  ultimately have sub: "?A \<union> ?B \<subseteq> {t \<in> ?T. 0 < indeg t}" by (rule Un_least [rotated])
  have fin: "finite {t \<in> ?T. 0 < indeg t}" by simp
  then have "finite (?A \<union> ?B)" using sub by (rule finite_subset [rotated])
  then have "finite ?A" "finite ?B" by simp_all
  moreover have "?A \<inter> ?B = {}" by (rule disjoint_iff [THEN iffD2]) simp
  ultimately have "card ?A + card ?B = card (?A \<union> ?B)" by (simp add: card_Un_disjoint)
  also have "\<dots> \<le> card {t \<in> ?T. 0 < indeg t}" by (rule card_mono [OF fin sub])
  finally have "card ?A + card ?B \<le> card {t \<in> ?T. 0 < indeg t}" .
  moreover have "length (snd (relax fs indeg)) = card ?B"
    using distinct_card [OF relax_distinct [of fs indeg]] unfolding B by (rule sym)
  ultimately show ?thesis by (simp only: relax_indeg)
qed

text \<open>The outer loop over the queue.\<close>
function kahn :: "graph_edge list \<Rightarrow> (string \<Rightarrow> int) \<Rightarrow> string list \<Rightarrow> string list \<Rightarrow> string list" where
  "kahn es indeg [] out = out"
| "kahn es indeg (n # queue) out =
     (let (indeg', q) = relax (filter (\<lambda>e. ge_source e = n) es) indeg
      in kahn es indeg' (queue @ q) (out @ [n]))"
  by pat_completeness auto
termination
proof (relation "measure (\<lambda>(es, indeg, queue, out). card {t \<in> ge_target ` set es. 0 < indeg t} + length queue)")
  fix es :: "graph_edge list" and indeg n queue and out :: "string list" and x indeg' q
  assume x: "x = relax (filter (\<lambda>e. ge_source e = n) es) indeg" and "(indeg', q) = x"
  then have "fst (relax (filter (\<lambda>e. ge_source e = n) es) indeg) = indeg'"
      "snd (relax (filter (\<lambda>e. ge_source e = n) es) indeg) = q" by (metis fst_conv, metis snd_conv)
  then have "card {t \<in> ge_target ` set es. 0 < indeg' t} + length q \<le> card {t \<in> ge_target ` set es. 0 < indeg t}"
    using relax_card [OF filter_is_subset, of es "\<lambda>e. ge_source e = n" indeg] by simp
  then show "((es, indeg', queue @ q, out @ [n]), es, indeg, n # queue, out)
      \<in> measure (\<lambda>(es, indeg, queue, out). card {t \<in> ge_target ` set es. 0 < indeg t} + length queue)"
    by simp
qed simp

definition topoOrder :: "graph \<Rightarrow> string list option" where
  "topoOrder g =
     (let indeg = (\<lambda>n. int (targets_into n (g_edges g)));
          out = kahn (g_edges g) indeg (map gn_id (filter (\<lambda>n. indeg (gn_id n) = 0) (g_nodes g))) []
      in if length out = length (g_nodes g) then Some out else None)"

section \<open>Reachability\<close>

text \<open>The inner loop: targets not seen yet are marked and pushed.  The head of the list is the top of the stack.\<close>
fun expand :: "string \<Rightarrow> graph_edge list \<Rightarrow> string list \<Rightarrow> string list \<Rightarrow> string list \<times> string list" where
  "expand n [] seen stack = (seen, stack)"
| "expand n (e # es) seen stack =
     (if ge_source e = n \<and> ge_target e \<notin> set seen
      then expand n es (seen @ [ge_target e]) (ge_target e # stack) else expand n es seen stack)"

lemma expand_spec:
  "\<exists>new. expand n es seen stack = (seen @ new, rev new @ stack)
      \<and> set new = ge_target ` {e \<in> set es. ge_source e = n} - set seen \<and> distinct new"
proof (induction es arbitrary: seen stack)
  case (Cons e es)
  show ?case
  proof (cases "ge_source e = n \<and> ge_target e \<notin> set seen")
    case True
    obtain new where "expand n es (seen @ [ge_target e]) (ge_target e # stack) = (seen @ [ge_target e] @ new, rev new @ ge_target e # stack)"
      "set new = ge_target ` {e \<in> set es. ge_source e = n} - set (seen @ [ge_target e])" "distinct new"
      using Cons [of "seen @ [ge_target e]" "ge_target e # stack"] by auto
    then show ?thesis using True by (intro exI [of _ "ge_target e # new"]) auto
  next
    case False
    then show ?thesis using Cons [of seen stack] by auto
  qed
qed simp

function explore :: "graph_edge list \<Rightarrow> string list \<Rightarrow> string list \<Rightarrow> string list" where
  "explore es seen [] = seen"
| "explore es seen (n # stack) = (let (seen', stack') = expand n es seen stack in explore es seen' stack')"
  by pat_completeness auto
termination
proof (relation "measure (\<lambda>(es, seen, stack). card (ge_target ` set es - set seen) + length stack)")
  fix es :: "graph_edge list" and seen n stack x seen' stack'
  assume x: "x = expand n es seen stack" and "(seen', stack') = x"
  obtain new where new: "expand n es seen stack = (seen @ new, rev new @ stack)"
      "set new = ge_target ` {e \<in> set es. ge_source e = n} - set seen" "distinct new"
    using expand_spec by blast
  have "card (ge_target ` set es - set (seen @ new)) + card (set new) = card (ge_target ` set es - set seen)"
    using new(2) by (subst card_Un_disjoint [symmetric]) (auto intro!: arg_cong [of _ _ card])
  then show "((es, seen', stack'), es, seen, n # stack)
      \<in> measure (\<lambda>(es, seen, stack). card (ge_target ` set es - set seen) + length stack)"
    using new x \<open>(seen', stack') = x\<close> distinct_card [OF new(3)] by simp
qed simp

definition reachable :: "graph \<Rightarrow> string \<Rightarrow> string list" where
  "reachable g from = explore (g_edges g) [from] [from]"

section \<open>The validator\<close>

definition is_num :: "json \<Rightarrow> bool" where
  "is_num v \<longleftrightarrow> (case v of JNum _ \<Rightarrow> True | JInf _ \<Rightarrow> True | _ \<Rightarrow> False)"

definition prop_of :: "string \<Rightarrow> json \<Rightarrow> json" where
  "prop_of k v = (case v of JObj fs \<Rightarrow> get_prop k fs | _ \<Rightarrow> JUndef)"

definition node_position :: "nat \<Rightarrow> json \<Rightarrow> json \<times> json" where
  "node_position i v =
     (let x = prop_of ''x'' v; y = prop_of ''y'' v
      in if is_num x \<and> is_num y then (x, y) else (JNum 0, JNum (of_nat (i * 120))))"

text \<open>One node: the issues, the id it takes, and the cleaned node if the checks got that far.\<close>
definition read_node ::
  "string list option \<Rightarrow> nat \<Rightarrow> json \<Rightarrow> string list \<Rightarrow> (graph_issue list \<times> string list \<times> graph_node list) result" where
  "read_node toolIds i raw ids =
     (case raw of
        JObj fs \<Rightarrow>
          (case get_prop ''id'' fs of
             JStr nid \<Rightarrow>
               if \<not> node_id_ok nid then Inr ([BadNodeId i], [], [])
               else if nid \<in> set ids then Inr ([DuplicateNode i nid], [], [])
               else (case get_prop ''type'' fs of
                       JStr ty \<Rightarrow>
                         if \<not> known_type ty then Inr ([UnknownType i], [nid], [])
                         else (case (if get_prop ''data'' fs = JUndef then JObj [] else get_prop ''data'' fs) of
                                 JObj d \<Rightarrow>
                                   (case data_check ty toolIds d of
                                      Inl e \<Rightarrow> Inl e
                                    | Inr ms \<Rightarrow>
                                        Inr (map (DataIssue i nid) ms, [nid],
                                             [\<lparr> gn_id = nid, gn_type = ty,
                                                gn_position = node_position i (get_prop ''position'' fs), gn_data = d \<rparr>]))
                               | _ \<Rightarrow> Inr ([BadData i], [nid], []))
                     | _ \<Rightarrow> Inr ([UnknownType i], [nid], []))
           | _ \<Rightarrow> Inr ([BadNodeId i], [], []))
      | _ \<Rightarrow> Inr ([NodeNotObject i], [], []))"

fun read_nodes ::
  "string list option \<Rightarrow> nat \<Rightarrow> json list \<Rightarrow> string list \<Rightarrow> (graph_issue list \<times> string list \<times> graph_node list) result" where
  "read_nodes toolIds i [] ids = Inr ([], ids, [])"
| "read_nodes toolIds i (raw # rs) ids =
     (case read_node toolIds i raw ids of
        Inl e \<Rightarrow> Inl e
      | Inr (is, new, ns) \<Rightarrow>
          (case read_nodes toolIds (i + 1) rs (ids @ new) of
             Inl e \<Rightarrow> Inl e
           | Inr (is', ids', ns') \<Rightarrow> Inr (is @ is', ids', ns @ ns')))"

definition edge_id :: "nat \<Rightarrow> json \<Rightarrow> string" where
  "edge_id i v = (if text_of v \<noteq> [] then text_of v else ''e'' @ show_nat i)"

definition opt_text :: "json \<Rightarrow> string option" where
  "opt_text v = (case v of JStr s \<Rightarrow> Some s | _ \<Rightarrow> None)"

definition read_edge :: "nat \<Rightarrow> json \<Rightarrow> string list \<Rightarrow> string list \<Rightarrow> graph_issue list \<times> string list \<times> graph_edge list" where
  "read_edge i raw ids edgeIds =
     (case raw of
        JObj fs \<Rightarrow>
          (let eid = edge_id i (get_prop ''id'' fs) in
           if eid \<in> set edgeIds then ([DuplicateEdge i eid], [], [])
           else case opt_text (get_prop ''source'' fs) of
                  None \<Rightarrow> ([UnknownSource i], [eid], [])
                | Some s \<Rightarrow>
                    if s \<notin> set ids then ([UnknownSource i], [eid], [])
                    else (case opt_text (get_prop ''target'' fs) of
                            None \<Rightarrow> ([UnknownTarget i], [eid], [])
                          | Some t \<Rightarrow>
                              if t \<notin> set ids then ([UnknownTarget i], [eid], [])
                              else if s = t then ([SelfEdge i], [eid], [])
                              else ([], [eid], [\<lparr> ge_id = eid, ge_source = s, ge_target = t,
                                                 ge_sourceHandle = opt_text (get_prop ''sourceHandle'' fs),
                                                 ge_label = opt_text (get_prop ''label'' fs) \<rparr>])))
      | _ \<Rightarrow> ([EdgeNotObject i], [], []))"

fun read_edges :: "nat \<Rightarrow> json list \<Rightarrow> string list \<Rightarrow> string list \<Rightarrow> graph_issue list \<times> graph_edge list" where
  "read_edges i [] ids edgeIds = ([], [])"
| "read_edges i (raw # rs) ids edgeIds =
     (let (is, new, es) = read_edge i raw ids edgeIds;
          (is', es') = read_edges (i + 1) rs ids (edgeIds @ new)
      in (is @ is', es @ es'))"

definition edge_rules :: "graph_node \<Rightarrow> graph_node \<Rightarrow> graph_edge \<Rightarrow> graph_issue list" where
  "edge_rules src tgt e =
     (if gn_type tgt = ''trigger'' then [IntoTrigger (ge_id e)] else [])
     @ (if gn_type src = ''end'' then [OutOfEnd (ge_id e)] else [])
     @ (if gn_type src = ''condition'' \<and> ge_sourceHandle e \<noteq> Some ''true'' \<and> ge_sourceHandle e \<noteq> Some ''false''
        then [NoHandle (ge_id e)] else [])"

text \<open>An edge may name an id whose node was rejected: the lookup is then undefined and its type cannot be read.\<close>
fun check_edges :: "graph_node list \<Rightarrow> graph_edge list \<Rightarrow> graph_issue list result" where
  "check_edges nodes [] = Inr []"
| "check_edges nodes (e # es) =
     (case (find_by gn_id (ge_source e) nodes, find_by gn_id (ge_target e) nodes) of
        (Some src, Some tgt) \<Rightarrow>
          (case check_edges nodes es of Inl err \<Rightarrow> Inl err | Inr is \<Rightarrow> Inr (edge_rules src tgt e @ is))
      | _ \<Rightarrow> Inl type_error)"

definition triggers_of :: "graph \<Rightarrow> graph_node list" where
  "triggers_of g = filter (\<lambda>n. gn_type n = ''trigger'') (g_nodes g)"

definition trigger_issues :: "graph \<Rightarrow> graph_issue list" where
  "trigger_issues g =
     (if g_nodes g = [] then [NoTrigger]
      else if length (triggers_of g) \<noteq> 1 then [TriggerCount (length (triggers_of g))] else [])"

definition order_issues :: "graph \<Rightarrow> graph_issue list" where
  "order_issues g =
     (case topoOrder g of
        None \<Rightarrow> [HasCycle]
      | Some _ \<Rightarrow>
          (case triggers_of g of
             [tr] \<Rightarrow> (let reach = reachable g (gn_id tr)
                      in map (Unreachable \<circ> gn_id) (filter (\<lambda>n. gn_id n \<notin> set reach) (g_nodes g)))
           | _ \<Rightarrow> []))"

definition validate_lists :: "json list \<Rightarrow> json list \<Rightarrow> string list option \<Rightarrow> (graph \<times> graph_issue list) result" where
  "validate_lists nodes edges toolIds =
     (case read_nodes toolIds 0 nodes [] of
        Inl err \<Rightarrow> Inl err
      | Inr (nis, ids, ns) \<Rightarrow>
          (let (eis, es) = read_edges 0 edges ids [];
               g = \<lparr> g_nodes = ns, g_edges = es \<rparr>
           in case check_edges ns es of
                Inl err \<Rightarrow> Inl err
              | Inr ris \<Rightarrow>
                  Inr (g, (if MAX_NODES < length nodes then [TooManyNodes] else [])
                          @ (if MAX_EDGES < length edges then [TooManyEdges] else [])
                          @ nis @ eis @ trigger_issues g @ ris @ order_issues g)))"

definition validateGraph :: "json \<Rightarrow> string list option \<Rightarrow> (graph \<times> graph_issue list) result" where
  "validateGraph v toolIds =
     (case v of
        JObj fs \<Rightarrow>
          (case (get_prop ''nodes'' fs, get_prop ''edges'' fs) of
             (JArr nodes, JArr edges) \<Rightarrow> validate_lists nodes edges toolIds
           | (JArr nodes, JUndef) \<Rightarrow> validate_lists nodes [] toolIds
           | (JArr _, _) \<Rightarrow> Inr (\<lparr> g_nodes = [], g_edges = [] \<rparr>, [EdgesNotList])
           | (_, e) \<Rightarrow> Inr (\<lparr> g_nodes = [], g_edges = [] \<rparr>,
                           NodesNotList # (case e of JArr _ \<Rightarrow> [] | JUndef \<Rightarrow> [] | _ \<Rightarrow> [EdgesNotList])))
      | _ \<Rightarrow> Inr (\<lparr> g_nodes = [], g_edges = [] \<rparr>, [GraphNotObject]))"

definition implicitGraph :: graph where
  "implicitGraph =
     \<lparr> g_nodes =
        [\<lparr> gn_id = ''trigger'', gn_type = ''trigger'', gn_position = (JNum 0, JNum 0), gn_data = [(''source'', JStr ''api'')] \<rparr>,
         \<lparr> gn_id = ''agent'', gn_type = ''agent'', gn_position = (JNum 0, JNum 120), gn_data = [(''prompt'', JStr ''{{trigger.prompt}}'')] \<rparr>,
         \<lparr> gn_id = ''end'', gn_type = ''end'', gn_position = (JNum 0, JNum 240), gn_data = [(''output'', JStr ''{{steps.agent.output}}'')] \<rparr>],
       g_edges =
        [\<lparr> ge_id = ''e1'', ge_source = ''trigger'', ge_target = ''agent'', ge_sourceHandle = None, ge_label = None \<rparr>,
         \<lparr> ge_id = ''e2'', ge_source = ''agent'', ge_target = ''end'', ge_sourceHandle = None, ge_label = None \<rparr>] \<rparr>"

section \<open>Correctness of the topological order\<close>

definition graph_wf :: "graph \<Rightarrow> bool" where
  "graph_wf g \<longleftrightarrow> uniq gn_id (g_nodes g)
     \<and> (\<forall>e\<in>set (g_edges g). ge_source e \<in> gn_id ` set (g_nodes g) \<and> ge_target e \<in> gn_id ` set (g_nodes g))"

definition edge_rel :: "graph_edge list \<Rightarrow> (string \<times> string) set" where
  "edge_rel es = (\<lambda>e. (ge_source e, ge_target e)) ` set es"

definition kahn_inv :: "graph_edge list \<Rightarrow> string set \<Rightarrow> (string \<Rightarrow> int) \<Rightarrow> string list \<Rightarrow> string list \<Rightarrow> bool" where
  "kahn_inv es ids indeg queue out \<longleftrightarrow>
     distinct (out @ queue)
     \<and> (\<forall>n. indeg n = int (targets_into n (filter (\<lambda>e. ge_source e \<notin> set out) es)))
     \<and> (\<forall>n. n \<in> set (out @ queue) \<longleftrightarrow> n \<in> ids \<and> indeg n = 0)
     \<and> (\<forall>pre n post. out = pre @ n # post \<longrightarrow> (\<forall>e\<in>set es. ge_target e = n \<longrightarrow> ge_source e \<in> set pre))"

lemma targets_into_0: "targets_into n es = 0 \<longleftrightarrow> n \<notin> ge_target ` set es"
  by (auto simp: targets_into_def filter_empty_conv)

lemma targets_into_split:
  assumes "n \<notin> set out"
  shows "targets_into t (filter (\<lambda>e. ge_source e \<notin> set out) es)
     = targets_into t (filter (\<lambda>e. ge_source e \<notin> set (out @ [n])) es) + targets_into t (filter (\<lambda>e. ge_source e = n) es)"
  using assms by (induction es) auto

lemma kahn_step:
  assumes inv: "kahn_inv es ids indeg (n # queue) out"
    and ends: "ge_target ` set es \<subseteq> ids"
    and step: "relax (filter (\<lambda>e. ge_source e = n) es) indeg = (indeg', q)"
  shows "kahn_inv es ids indeg' (queue @ q) (out @ [n])"
proof -
  have dist: "distinct (out @ n # queue)"
    and deg: "\<And>m. indeg m = int (targets_into m (filter (\<lambda>e. ge_source e \<notin> set out) es))"
    and done0: "\<And>m. m \<in> set (out @ n # queue) \<longleftrightarrow> m \<in> ids \<and> indeg m = 0"
    and ord: "\<And>pre m post e. out = pre @ m # post \<Longrightarrow> e \<in> set es \<Longrightarrow> ge_target e = m \<Longrightarrow> ge_source e \<in> set pre"
    using inv unfolding kahn_inv_def by blast+
  let ?es = "filter (\<lambda>e. ge_source e = n) es" and ?rest = "filter (\<lambda>e. ge_source e \<notin> set (out @ [n])) es"
  have n: "n \<notin> set out" using dist by simp
  have deg': "indeg' m = int (targets_into m ?rest)" for m
    using relax_indeg [of ?es indeg m] targets_into_split [OF n, of m es] deg [of m] step by simp
  have sum: "indeg m = int (targets_into m ?rest) + int (targets_into m ?es)" for m
    using targets_into_split [OF n, of m es] deg [of m] by simp
  have q: "m \<in> set q \<longleftrightarrow> 0 < targets_into m ?es \<and> indeg' m = 0" for m
    using relax_queued [of m ?es indeg] step sum [of m] deg' [of m] by auto
  have qids: "m \<in> ids" if "0 < targets_into m ?es" for m
    using targets_into_pos [OF that] ends by auto
  have done1: "m \<in> set (out @ [n] @ queue @ q) \<longleftrightarrow> m \<in> ids \<and> indeg' m = 0" for m
    using done0 [of m] q [of m] qids [of m] sum [of m] deg' [of m] by auto
  have "m \<notin> set q" if "m \<in> set (out @ n # queue)" for m
    using that done0 [of m] q [of m] sum [of m] by auto
  then have "distinct ((out @ [n]) @ queue @ q)"
    using dist relax_distinct [of ?es indeg] step by auto
  moreover have "ge_source e \<in> set pre" if "out @ [n] = pre @ m # post" "e \<in> set es" "ge_target e = m" for pre m post e
  proof (cases post rule: rev_cases)
    case Nil
    then have "m = n" "pre = out" using that(1) by auto
    then have "targets_into (ge_target e) (filter (\<lambda>e. ge_source e \<notin> set out) es) = 0"
      using deg [of n] done0 [of n] that(3) by simp
    then show ?thesis using that(2) \<open>pre = out\<close> by (auto simp: targets_into_0)
  next
    case (snoc ys y)
    then show ?thesis using ord [of pre m ys e] that by simp
  qed
  ultimately show ?thesis unfolding kahn_inv_def using done1 deg' by simp
qed

lemma kahn_final:
  assumes "kahn_inv es ids indeg queue out" "ge_target ` set es \<subseteq> ids"
  shows "\<exists>indeg'. kahn_inv es ids indeg' [] (kahn es indeg queue out)"
  using assms
proof (induction es indeg queue out rule: kahn.induct)
  case (2 es indeg n queue out)
  obtain indeg' q where r: "relax (filter (\<lambda>e. ge_source e = n) es) indeg = (indeg', q)" by (cases "relax (filter (\<lambda>e. ge_source e = n) es) indeg")
  show ?case using 2(1) [OF r [symmetric] refl kahn_step [OF 2(2,3) r] 2(3)] r by simp
qed auto

definition precedes :: "string list \<Rightarrow> string \<Rightarrow> string \<Rightarrow> bool" where
  "precedes out a b \<longleftrightarrow> (\<exists>pre post. out = pre @ b # post \<and> a \<in> set pre)"

lemma kahn_start:
  assumes "graph_wf g"
  shows "kahn_inv (g_edges g) (gn_id ` set (g_nodes g)) (\<lambda>n. int (targets_into n (g_edges g)))
    (map gn_id (filter (\<lambda>n. int (targets_into (gn_id n) (g_edges g)) = 0) (g_nodes g))) []"
  using assms unfolding kahn_inv_def graph_wf_def uniq_def
  by (auto simp: distinct_map_filter)

lemma takeWhile_first: "x \<notin> set xs \<Longrightarrow> takeWhile (\<lambda>m. m \<noteq> x) (xs @ x # ys) = xs"
  by (induction xs) auto

lemma kahn_inv_out:
  assumes "kahn_inv es ids indeg [] out"
  shows "distinct out" "set out \<subseteq> ids"
    and "\<And>pre n post e. out = pre @ n # post \<Longrightarrow> e \<in> set es \<Longrightarrow> ge_target e = n \<Longrightarrow> ge_source e \<in> set pre"
    and "\<And>n. n \<in> ids - set out \<Longrightarrow> n \<in> ge_target ` {e \<in> set es. ge_source e \<notin> set out}"
proof -
  note inv = assms [unfolded kahn_inv_def append_Nil2]
  show "distinct out" using inv by (elim conjE)
  have set: "n \<in> set out \<longleftrightarrow> n \<in> ids \<and> indeg n = 0" for n using inv by blast
  then show "set out \<subseteq> ids" by blast
  show "ge_source e \<in> set pre" if "out = pre @ n # post" "e \<in> set es" "ge_target e = n" for pre n post e
    using inv that by blast
  have deg: "indeg n = int (targets_into n (filter (\<lambda>e. ge_source e \<notin> set out) es))" for n using inv by blast
  show "n \<in> ge_target ` {e \<in> set es. ge_source e \<notin> set out}" if "n \<in> ids - set out" for n
    using that set [of n] targets_into_0 [of n "filter (\<lambda>e. ge_source e \<notin> set out) es"] by (simp add: deg)
qed

lemma kahn_all_iff:
  assumes inv: "kahn_inv es ids indeg [] out" and "finite ids"
    and ends: "\<forall>e\<in>set es. ge_source e \<in> ids \<and> ge_target e \<in> ids"
  shows "set out = ids \<longleftrightarrow> acyclic (edge_rel es)"
proof
  assume all: "set out = ids"
  define pos where "pos n = length (takeWhile (\<lambda>m. m \<noteq> n) out)" for n
  have "(ge_source e, ge_target e) \<in> measure pos" if e: "e \<in> set es" for e
  proof -
    have "ge_target e \<in> set out" using all ends e by auto
    then obtain pre post where out: "out = pre @ ge_target e # post" "ge_target e \<notin> set pre"
      by (meson split_list_first)
    then have "ge_source e \<in> set pre" using kahn_inv_out(3) [OF inv _ e] by simp
    then obtain xs ys where pre: "pre = xs @ ge_source e # ys" "ge_source e \<notin> set xs" by (meson split_list_first)
    have "takeWhile (\<lambda>m. m \<noteq> ge_source e) out = xs" using out(1) pre by (simp add: takeWhile_first)
    moreover have "takeWhile (\<lambda>m. m \<noteq> ge_target e) out = pre" using out by (simp add: takeWhile_first)
    ultimately show ?thesis using pre(1) by (simp add: pos_def)
  qed
  then have "edge_rel es \<subseteq> measure pos" unfolding edge_rel_def by blast
  then show "acyclic (edge_rel es)" by (meson acyclic_subset wf_acyclic wf_measure)
next
  assume "acyclic (edge_rel es)"
  moreover have "finite (edge_rel es)" by (simp add: edge_rel_def)
  ultimately have wf: "wf (edge_rel es)" by (simp add: finite_acyclic_wf)
  show "set out = ids"
  proof (rule ccontr)
    assume "set out \<noteq> ids"
    then obtain x where "x \<in> ids - set out" using kahn_inv_out(2) [OF inv] by blast
    then obtain z where z: "z \<in> ids - set out" and least: "\<And>y. (y, z) \<in> edge_rel es \<Longrightarrow> y \<notin> ids - set out"
      using wfE_min [OF wf, of x "ids - set out"] by blast
    obtain e where "e \<in> set es" "ge_source e \<notin> set out" "ge_target e = z"
      using kahn_inv_out(4) [OF inv z] by blast
    then show False using least [of "ge_source e"] ends by (auto simp: edge_rel_def)
  qed
qed

definition kahn_run :: "graph \<Rightarrow> string list" where
  "kahn_run g = kahn (g_edges g) (\<lambda>n. int (targets_into n (g_edges g)))
     (map gn_id (filter (\<lambda>n. int (targets_into (gn_id n) (g_edges g)) = 0) (g_nodes g))) []"

lemma kahn_run_inv:
  assumes "graph_wf g"
  shows "\<exists>indeg. kahn_inv (g_edges g) (gn_id ` set (g_nodes g)) indeg [] (kahn_run g)"
proof -
  have "ge_target ` set (g_edges g) \<subseteq> gn_id ` set (g_nodes g)" using assms by (auto simp: graph_wf_def)
  then show ?thesis unfolding kahn_run_def by (rule kahn_final [OF kahn_start [OF assms]])
qed

lemma topoOrder_run:
  assumes "graph_wf g"
  shows "topoOrder g = (if set (kahn_run g) = gn_id ` set (g_nodes g) then Some (kahn_run g) else None)"
proof -
  obtain indeg where inv: "kahn_inv (g_edges g) (gn_id ` set (g_nodes g)) indeg [] (kahn_run g)"
    using kahn_run_inv [OF assms] by blast
  have c: "card (gn_id ` set (g_nodes g)) = length (g_nodes g)"
    using assms distinct_card [of "map gn_id (g_nodes g)"] by (simp add: graph_wf_def uniq_def)
  have "length (kahn_run g) = card (set (kahn_run g))" using kahn_inv_out(1) [OF inv] by (simp add: distinct_card)
  then have "length (kahn_run g) = length (g_nodes g) \<longleftrightarrow> set (kahn_run g) = gn_id ` set (g_nodes g)"
    using card_subset_eq [OF _ kahn_inv_out(2) [OF inv]] c by (metis finite_imageI finite_set)
  then show ?thesis by (simp only: topoOrder_def Let_def kahn_run_def [symmetric])
qed

theorem topoOrder_Some:
  assumes "graph_wf g" "topoOrder g = Some out"
  shows "distinct out" "set out = gn_id ` set (g_nodes g)"
    and "\<And>e. e \<in> set (g_edges g) \<Longrightarrow> precedes out (ge_source e) (ge_target e)"
proof -
  obtain indeg where inv: "kahn_inv (g_edges g) (gn_id ` set (g_nodes g)) indeg [] (kahn_run g)"
    using kahn_run_inv [OF assms(1)] by blast
  have out: "kahn_run g = out" "set out = gn_id ` set (g_nodes g)"
    using topoOrder_run [OF assms(1)] assms(2) by (auto split: if_splits)
  show "distinct out" using kahn_inv_out(1) [OF inv] out(1) by simp
  show "set out = gn_id ` set (g_nodes g)" by (rule out(2))
  fix e assume e: "e \<in> set (g_edges g)"
  then have "ge_target e \<in> set out" using assms(1) out(2) by (simp add: graph_wf_def)
  then obtain pre post where "out = pre @ ge_target e # post" by (meson split_list)
  then show "precedes out (ge_source e) (ge_target e)"
    using kahn_inv_out(3) [OF inv] e out(1) unfolding precedes_def by blast
qed

theorem topoOrder_None:
  assumes "graph_wf g"
  shows "topoOrder g = None \<longleftrightarrow> \<not> acyclic (edge_rel (g_edges g))"
proof -
  obtain indeg where inv: "kahn_inv (g_edges g) (gn_id ` set (g_nodes g)) indeg [] (kahn_run g)"
    using kahn_run_inv [OF assms] by blast
  have "\<forall>e\<in>set (g_edges g). ge_source e \<in> gn_id ` set (g_nodes g) \<and> ge_target e \<in> gn_id ` set (g_nodes g)"
    using assms by (simp add: graph_wf_def)
  from kahn_all_iff [OF inv finite_imageI [OF finite_set] this] show ?thesis
    unfolding topoOrder_run [OF assms] by simp
qed

section \<open>Correctness of reachability\<close>

lemma explore_closure:
  assumes "set stack \<subseteq> set seen" "s \<in> set seen" "set seen \<subseteq> (edge_rel es)\<^sup>* `` {s}"
    "\<And>x y. x \<in> set seen - set stack \<Longrightarrow> (x, y) \<in> edge_rel es \<Longrightarrow> y \<in> set seen"
  shows "set (explore es seen stack) = (edge_rel es)\<^sup>* `` {s}"
  using assms
proof (induction es seen stack rule: explore.induct)
  case (1 es seen)
  have "x \<in> set seen" if "(s, x) \<in> (edge_rel es)\<^sup>*" for x
    using that
  proof induction
    case base show ?case by (rule 1(2))
  next
    case (step y z) then show ?case using 1(4) [of y z] by simp
  qed
  then show ?case using 1(3) by auto
next
  case (2 es seen n stack)
  obtain new where new: "expand n es seen stack = (seen @ new, rev new @ stack)"
      "set new = ge_target ` {e \<in> set es. ge_source e = n} - set seen"
    using expand_spec by blast
  have succ: "(n, y) \<in> edge_rel es \<longleftrightarrow> y \<in> ge_target ` {e \<in> set es. ge_source e = n}" for y
    by (auto simp: edge_rel_def)
  have n: "(s, n) \<in> (edge_rel es)\<^sup>*" using 2(2,4) by auto
  have "set (explore es (seen @ new) (rev new @ stack)) = (edge_rel es)\<^sup>* `` {s}"
  proof (rule 2(1) [OF new(1) [symmetric] refl])
    show "set (rev new @ stack) \<subseteq> set (seen @ new)" using 2(2) by auto
    show "s \<in> set (seen @ new)" using 2(3) by simp
    show "set (seen @ new) \<subseteq> (edge_rel es)\<^sup>* `` {s}"
      using 2(4) n new(2) succ by (auto intro: rtrancl_into_rtrancl)
    show "y \<in> set (seen @ new)" if "x \<in> set (seen @ new) - set (rev new @ stack)" "(x, y) \<in> edge_rel es" for x y
    proof (cases "x = n")
      case True
      then show ?thesis using that(2) succ [of y] new(2) by auto
    next
      case False
      then show ?thesis using that 2(5) [of x y] by auto
    qed
  qed
  then show ?case by (simp add: new(1))
qed

theorem reachable_closure: "set (reachable g from) = (edge_rel (g_edges g))\<^sup>* `` {from}"
  unfolding reachable_def by (rule explore_closure) auto

section \<open>What a graph without issues satisfies\<close>

definition flow_ok :: "string list option \<Rightarrow> graph \<Rightarrow> bool" where
  "flow_ok toolIds g \<longleftrightarrow>
     graph_wf g \<and> acyclic (edge_rel (g_edges g))
     \<and> length (g_nodes g) \<le> MAX_NODES \<and> length (g_edges g) \<le> MAX_EDGES
     \<and> (\<forall>n\<in>set (g_nodes g). node_id_ok (gn_id n) \<and> data_check (gn_type n) toolIds (gn_data n) = Inr [])
     \<and> (\<exists>tr\<in>set (g_nodes g). triggers_of g = [tr]
          \<and> gn_id ` set (g_nodes g) \<subseteq> (edge_rel (g_edges g))\<^sup>* `` {gn_id tr})
     \<and> (\<forall>e\<in>set (g_edges g). \<forall>src\<in>set (g_nodes g). \<forall>tgt\<in>set (g_nodes g).
          ge_source e = gn_id src \<longrightarrow> ge_target e = gn_id tgt \<longrightarrow> edge_rules src tgt e = [])"

lemma read_node_clean:
  assumes "read_node toolIds i raw ids = Inr ([], new, ns)"
  shows "\<exists>n. ns = [n] \<and> new = [gn_id n] \<and> gn_id n \<notin> set ids \<and> node_id_ok (gn_id n)
    \<and> data_check (gn_type n) toolIds (gn_data n) = Inr []"
  using assms unfolding read_node_def
  by (auto split: json.splits if_splits sum.splits)

lemma read_nodes_clean:
  assumes "read_nodes toolIds i raws ids = Inr ([], ids', ns)" "distinct ids"
  shows "ids' = ids @ map gn_id ns" "distinct ids'" "length ns = length raws"
    "\<forall>n\<in>set ns. node_id_ok (gn_id n) \<and> data_check (gn_type n) toolIds (gn_data n) = Inr []"
proof -
  have "ids' = ids @ map gn_id ns \<and> distinct ids' \<and> length ns = length raws
    \<and> (\<forall>n\<in>set ns. node_id_ok (gn_id n) \<and> data_check (gn_type n) toolIds (gn_data n) = Inr [])"
    using assms
  proof (induction raws arbitrary: i ids ns)
    case (Cons raw raws)
    obtain new ns1 ns2 where r: "read_node toolIds i raw ids = Inr ([], new, ns1)"
      "read_nodes toolIds (i + 1) raws (ids @ new) = Inr ([], ids', ns2)" "ns = ns1 @ ns2"
      using Cons.prems(1) by (auto split: sum.splits prod.splits)
    obtain n where n: "ns1 = [n]" "new = [gn_id n]" "gn_id n \<notin> set ids" "node_id_ok (gn_id n)"
      "data_check (gn_type n) toolIds (gn_data n) = Inr []" using read_node_clean [OF r(1)] by blast
    show ?case using Cons.IH [OF r(2)] Cons.prems(2) n r(3) by (auto simp: disjoint_iff; blast)
  qed simp
  then show "ids' = ids @ map gn_id ns" "distinct ids'" "length ns = length raws"
    "\<forall>n\<in>set ns. node_id_ok (gn_id n) \<and> data_check (gn_type n) toolIds (gn_data n) = Inr []" by blast+
qed

lemma read_edge_ends:
  "e \<in> set (snd (snd (read_edge i raw ids used))) \<Longrightarrow> ge_source e \<in> set ids \<and> ge_target e \<in> set ids \<and> ge_source e \<noteq> ge_target e"
  "length (snd (snd (read_edge i raw ids used))) \<le> 1"
  unfolding read_edge_def Let_def by (auto split: json.splits if_splits option.splits)

lemma read_edges_ends:
  "(\<forall>e\<in>set (snd (read_edges i raws ids used)). ge_source e \<in> set ids \<and> ge_target e \<in> set ids \<and> ge_source e \<noteq> ge_target e)
   \<and> length (snd (read_edges i raws ids used)) \<le> length raws"
proof (induction raws arbitrary: i used)
  case (Cons raw raws)
  obtain i1 new es where r: "read_edge i raw ids used = (i1, new, es)" by (cases "read_edge i raw ids used") auto
  obtain i2 es' where r': "read_edges (i + 1) raws ids (used @ new) = (i2, es')" by (cases "read_edges (i + 1) raws ids (used @ new)")
  show ?case using Cons [of "i + 1" "used @ new"] read_edge_ends [where i = i and raw = raw and ids = ids and used = used] r r'
    by (auto simp: Let_def)
qed simp

lemma check_edges_clean:
  assumes "check_edges nodes es = Inr []" "uniq gn_id nodes"
    "e \<in> set es" "src \<in> set nodes" "tgt \<in> set nodes" "ge_source e = gn_id src" "ge_target e = gn_id tgt"
  shows "edge_rules src tgt e = []"
  using assms
proof (induction es)
  case (Cons x xs)
  have "find_by gn_id (gn_id src) nodes = Some src" "find_by gn_id (gn_id tgt) nodes = Some tgt"
    using Cons.prems by (auto intro: find_by_uniq)
  then show ?case using Cons by (auto split: option.splits sum.splits)
qed simp

lemma order_issues_clean:
  assumes "order_issues g = []" "trigger_issues g = []"
  shows "topoOrder g \<noteq> None"
    and "\<exists>tr\<in>set (g_nodes g). triggers_of g = [tr] \<and> gn_id ` set (g_nodes g) \<subseteq> set (reachable g (gn_id tr))"
proof -
  show "topoOrder g \<noteq> None" using assms(1) by (auto simp: order_issues_def split: option.splits)
  obtain tr where tr: "triggers_of g = [tr]"
    using assms(2) by (auto simp: trigger_issues_def length_Suc_conv split: if_splits)
  then have "tr \<in> set (g_nodes g)" unfolding triggers_of_def by (metis filter_is_subset list.set_intros(1) subsetD)
  moreover have "gn_id ` set (g_nodes g) \<subseteq> set (reachable g (gn_id tr))"
    using assms(1) tr \<open>topoOrder g \<noteq> None\<close> by (auto simp: order_issues_def Let_def filter_empty_conv)
  ultimately show "\<exists>tr\<in>set (g_nodes g). triggers_of g = [tr] \<and> gn_id ` set (g_nodes g) \<subseteq> set (reachable g (gn_id tr))"
    using tr by blast
qed

lemma validate_lists_clean:
  assumes "validate_lists nodes edges toolIds = Inr (g, [])"
  shows "flow_ok toolIds g"
proof -
  obtain ids ns eis es where rn: "read_nodes toolIds 0 nodes [] = Inr ([], ids, ns)" and re: "read_edges 0 edges ids [] = (eis, es)"
    and g: "g = \<lparr> g_nodes = ns, g_edges = es \<rparr>" and ce: "check_edges ns es = Inr []"
    and len: "\<not> MAX_NODES < length nodes" "\<not> MAX_EDGES < length edges"
    and iss: "trigger_issues g = []" "order_issues g = []"
    using assms unfolding validate_lists_def by (auto simp: Let_def split: sum.splits prod.splits if_splits)
  note nodes = read_nodes_clean [OF rn distinct.simps(1) [THEN iffD2, OF TrueI]]
  have ends: "\<forall>e\<in>set es. ge_source e \<in> gn_id ` set ns \<and> ge_target e \<in> gn_id ` set ns" and el: "length es \<le> length edges"
    using read_edges_ends [of 0 edges ids "[]"] re nodes(1) by auto
  have wf: "graph_wf g" using nodes(1,2) ends g by (simp add: graph_wf_def uniq_def)
  then have "acyclic (edge_rel (g_edges g))" using topoOrder_None [OF wf] order_issues_clean(1) [OF iss(2,1)] by simp
  moreover have "\<forall>e\<in>set (g_edges g). \<forall>src\<in>set (g_nodes g). \<forall>tgt\<in>set (g_nodes g).
      ge_source e = gn_id src \<longrightarrow> ge_target e = gn_id tgt \<longrightarrow> edge_rules src tgt e = []"
    using check_edges_clean [OF ce] wf g by (auto simp: graph_wf_def)
  ultimately show ?thesis
    using wf nodes(3,4) len el g order_issues_clean(2) [OF iss(2,1)]
    by (simp add: flow_ok_def reachable_closure)
qed

lemma validateGraph_clean: "validateGraph v toolIds = Inr (g, []) \<Longrightarrow> flow_ok toolIds g"
  unfolding validateGraph_def
  by (auto split: json.splits intro: validate_lists_clean)

text \<open>
  A node of an unknown type keeps its id, so an edge may name it; looking the node up then fails
  and the validator throws instead of reporting the issue.
\<close>
lemma validateGraph_throws:
  "validateGraph (JObj [(''nodes'', JArr [JObj [(''id'', JStr ''a''), (''type'', JStr ''trigger'')], JObj [(''id'', JStr ''b''), (''type'', JStr ''x'')]]),
                        (''edges'', JArr [JObj [(''source'', JStr ''a''), (''target'', JStr ''b'')]])]) None
   = Inl type_error"
  by code_simp

end
