(* ===== verification/Approvals.thy ===== *)
theory Approvals
  imports Actor Json
begin

text \<open>
  Human approval of what agent tokens ask for
  (\<^verbatim>\<open>src/apps/api/src/modules/approvals/approvals.service.ts\<close>): pending requests, decisions by
  team owners and administrators, expiry.

  The executors and the denial handlers other modules register are parameters, looked up by kind;
  the state records every call of an executor.  The database's comparison of JSON payloads is the
  parameter \<open>same_json\<close>.  Mails are recorded when they are handed to the mail service.
\<close>

section \<open>State\<close>

datatype approval_status = ApPending | ApApproved | ApDenied | ApExpired | ApFailed

text \<open>The reason column: the text of the person who denied, or the message of the error that failed the run.\<close>
datatype decision_reason = Said string | MessageOf error

record approval =
  ap_id :: id
  ap_teamId :: id
  ap_projectId :: id
  ap_tokenId :: "id option"
  ap_requestedById :: id
  ap_kind :: string
  ap_resourceType :: string
  ap_resourceId :: "id option"
  ap_resourceName :: "string option"
  ap_summary :: string
  ap_payload :: json
  ap_status :: approval_status
  ap_result :: "json option"
  ap_reason :: "decision_reason option"
  ap_decidedById :: "id option"
  ap_decidedAt :: "instant option"
  ap_expiresAt :: instant
  ap_createdAt :: instant

record approval_request =
  rq_kind :: string
  rq_resourceType :: string
  rq_resourceId :: "id option"
  rq_resourceName :: "string option"
  rq_summary :: string
  rq_payload :: json
  rq_projectId :: id

record team_contact =
  tm_teamId :: id
  tm_role :: team_role
  tm_email :: string

datatype approval_event = EvRequested id | EvDecided id string

record approvals_state =
  as_approvals :: "approval list"
  as_events :: "approval_event list"
  as_runs :: "(id \<times> actor) list"
  as_mails :: "(string \<times> id) list"

type_synonym executors = "string \<Rightarrow> (actor \<Rightarrow> approval \<Rightarrow> json result) option"

definition TTL_HOURS :: int where "TTL_HOURS = 24"

section \<open>Requests\<close>

definition notifyOwners :: "team_contact list \<Rightarrow> approval \<Rightarrow> approvals_state \<Rightarrow> approvals_state" where
  "notifyOwners contacts a st =
     st\<lparr> as_mails := as_mails st
           @ map (\<lambda>m. (tm_email m, ap_id a)) (filter (\<lambda>m. tm_teamId m = ap_teamId a \<and> tm_role m \<in> {Owner, Admin}) contacts) \<rparr>"

definition new_approval :: "actor \<Rightarrow> approval_request \<Rightarrow> id \<Rightarrow> instant \<Rightarrow> approval" where
  "new_approval actor req newId now =
     \<lparr> ap_id = newId, ap_teamId = a_teamId actor, ap_projectId = rq_projectId req, ap_tokenId = a_tokenId actor,
       ap_requestedById = a_userId actor, ap_kind = rq_kind req, ap_resourceType = rq_resourceType req,
       ap_resourceId = rq_resourceId req, ap_resourceName = rq_resourceName req, ap_summary = rq_summary req,
       ap_payload = rq_payload req, ap_status = ApPending, ap_result = None, ap_reason = None, ap_decidedById = None,
       ap_decidedAt = None, ap_expiresAt = now + TTL_HOURS * 3600000, ap_createdAt = now \<rparr>"

definition createPending ::
  "team_contact list \<Rightarrow> actor \<Rightarrow> approval_request \<Rightarrow> id \<Rightarrow> instant \<Rightarrow> approvals_state \<Rightarrow> approval \<times> approvals_state" where
  "createPending contacts actor req newId now st =
     (let a = new_approval actor req newId now
      in (a, notifyOwners contacts a
               (st\<lparr> as_approvals := as_approvals st @ [a], as_events := as_events st @ [EvRequested newId] \<rparr>)))"

definition needs :: "actor \<Rightarrow> string \<Rightarrow> bool" where
  "needs actor kind \<longleftrightarrow> a_isAgent actor \<and> kind \<in> a_requireApprovalFor actor"

text \<open>A filter on an undefined token id filters nothing.\<close>
definition same_token :: "actor \<Rightarrow> approval \<Rightarrow> bool" where
  "same_token actor a \<longleftrightarrow> (case a_tokenId actor of None \<Rightarrow> True | Some t \<Rightarrow> ap_tokenId a = Some t)"

definition identical_pending :: "(json \<Rightarrow> json \<Rightarrow> bool) \<Rightarrow> actor \<Rightarrow> approval_request \<Rightarrow> approval \<Rightarrow> bool" where
  "identical_pending same_json actor req a \<longleftrightarrow>
     same_token actor a \<and> ap_kind a = rq_kind req \<and> ap_resourceId a = rq_resourceId req \<and> ap_status a = ApPending
     \<and> same_json (ap_payload a) (rq_payload req)"

text \<open>The request never returns: the pair is the error thrown, the id it carries, and the state left behind.\<close>
definition request ::
  "(json \<Rightarrow> json \<Rightarrow> bool) \<Rightarrow> team_contact list \<Rightarrow> actor \<Rightarrow> approval_request \<Rightarrow> id \<Rightarrow> instant \<Rightarrow> approvals_state
     \<Rightarrow> (error \<times> id) \<times> approvals_state" where
  "request same_json contacts actor req newId now st =
     (let required = ApiError 403 ''approval_required'' in
      case List.find (identical_pending same_json actor req) (as_approvals st) of
        Some a \<Rightarrow> ((required, ap_id a), st)
      | None \<Rightarrow> ((required, newId), snd (createPending contacts actor req newId now st)))"

section \<open>Reading\<close>

definition visible :: "actor \<Rightarrow> approval \<Rightarrow> bool" where
  "visible actor a \<longleftrightarrow> ap_teamId a = a_teamId actor \<and> (a_isAgent actor \<longrightarrow> same_token actor a)"

definition list_approvals :: "actor \<Rightarrow> approval_status option \<Rightarrow> approvals_state \<Rightarrow> approval list" where
  "list_approvals actor status st =
     take 100 (sort_key (\<lambda>a. - ap_createdAt a)
       (filter (\<lambda>a. visible actor a \<and> (case status of None \<Rightarrow> True | Some s \<Rightarrow> ap_status a = s)) (as_approvals st)))"

definition get_approval :: "actor \<Rightarrow> id \<Rightarrow> approvals_state \<Rightarrow> approval result" where
  "get_approval actor i st =
     (case List.find (\<lambda>a. ap_id a = i \<and> visible actor a) (as_approvals st) of None \<Rightarrow> Inl notFound | Some a \<Rightarrow> Inr a)"

definition pendingCount :: "actor \<Rightarrow> approvals_state \<Rightarrow> nat" where
  "pendingCount actor st = count_where (\<lambda>a. ap_teamId a = a_teamId actor \<and> ap_status a = ApPending) (as_approvals st)"

section \<open>Decisions\<close>

definition update_approval :: "id \<Rightarrow> (approval \<Rightarrow> approval) \<Rightarrow> approvals_state \<Rightarrow> approvals_state" where
  "update_approval i f st = st\<lparr> as_approvals := update_where (\<lambda>a. ap_id a = i) f (as_approvals st) \<rparr>"

definition emit_decided :: "id \<Rightarrow> string \<Rightarrow> approvals_state \<Rightarrow> approvals_state" where
  "emit_decided i decision st = st\<lparr> as_events := as_events st @ [EvDecided i decision] \<rparr>"

definition takeDecision :: "actor \<Rightarrow> id \<Rightarrow> instant \<Rightarrow> approvals_state \<Rightarrow> approval result \<times> approvals_state" where
  "takeDecision actor i now st =
     (if a_isAgent actor then (Inl forbidden, st)
      else if a_role actor \<notin> {Owner, Admin} then (Inl forbidden, st)
      else case List.find (\<lambda>a. ap_id a = i \<and> ap_teamId a = a_teamId actor) (as_approvals st) of
             None \<Rightarrow> (Inl notFound, st)
           | Some a \<Rightarrow>
               if ap_status a \<noteq> ApPending then (Inl invalidState, st)
               else if ap_expiresAt a < now then
                 (Inl invalidState, update_approval i (\<lambda>b. b\<lparr> ap_status := ApExpired, ap_decidedAt := Some now \<rparr>) st)
               else (Inr a, st))"

text \<open>The approver, limited to the token's project and carrying the token's identity.\<close>
definition as_token :: "actor \<Rightarrow> approval \<Rightarrow> actor" where
  "as_token actor a =
     \<lparr> a_userId = a_userId actor, a_teamId = a_teamId actor, a_role = a_role actor, a_projectId = Some (ap_projectId a),
       a_scopes = scopesForRole (a_role actor), a_tokenId = ap_tokenId a, a_sessionId = None, a_isAgent = True,
       a_requireApprovalFor = {}, a_suspended = False, a_ops = False \<rparr>"

text \<open>What \<open>approve\<close> does once the decision was taken.\<close>
definition approve_taken ::
  "executors \<Rightarrow> actor \<Rightarrow> approval \<Rightarrow> instant \<Rightarrow> approvals_state \<Rightarrow> unit result \<times> approvals_state" where
  "approve_taken executors actor a now st =
     (case executors (ap_kind a) of
        None \<Rightarrow> (Inl invalidState, st)
      | Some run \<Rightarrow>
          (let who = as_token actor a; i = ap_id a; st1 = st\<lparr> as_runs := as_runs st @ [(i, who)] \<rparr> in
           case run who a of
             Inr r \<Rightarrow>
               (Inr (), emit_decided i ''approved''
                  (update_approval i (\<lambda>b. b\<lparr> ap_status := ApApproved, ap_decidedById := Some (a_userId actor),
                                            ap_decidedAt := Some now, ap_result := Some r \<rparr>) st1))
           | Inl e \<Rightarrow>
               (Inl e, emit_decided i ''failed''
                  (update_approval i (\<lambda>b. b\<lparr> ap_status := ApFailed, ap_decidedById := Some (a_userId actor),
                                            ap_decidedAt := Some now,
                                            ap_reason := Some (MessageOf e) \<rparr>) st1))))"

definition approve :: "executors \<Rightarrow> actor \<Rightarrow> id \<Rightarrow> instant \<Rightarrow> approvals_state \<Rightarrow> unit result \<times> approvals_state" where
  "approve executors actor i now st =
     (case takeDecision actor i now st of
        (Inl e, st1) \<Rightarrow> (Inl e, st1)
      | (Inr a, st1) \<Rightarrow> approve_taken executors actor a now st1)"

text \<open>The denial handlers change the state of other modules only; their failures are caught.\<close>
definition deny :: "actor \<Rightarrow> id \<Rightarrow> string option \<Rightarrow> instant \<Rightarrow> approvals_state \<Rightarrow> unit result \<times> approvals_state" where
  "deny actor i reason now st =
     (case takeDecision actor i now st of
        (Inl e, st1) \<Rightarrow> (Inl e, st1)
      | (Inr a, st1) \<Rightarrow>
          (Inr (), emit_decided i ''denied''
             (update_approval i (\<lambda>b. b\<lparr> ap_status := ApDenied, ap_decidedById := Some (a_userId actor),
                                       ap_decidedAt := Some now, ap_reason := map_option Said reason \<rparr>) st1)))"

definition expire :: "instant \<Rightarrow> approvals_state \<Rightarrow> nat \<times> approvals_state" where
  "expire now st =
     (let due = (\<lambda>a. ap_status a = ApPending \<and> ap_expiresAt a < now)
      in (count_where due (as_approvals st),
          st\<lparr> as_approvals := update_where due (\<lambda>b. b\<lparr> ap_status := ApExpired, ap_decidedAt := Some now \<rparr>) (as_approvals st) \<rparr>))"

section \<open>At most one execution when calls do not overlap\<close>

definition runs_of :: "id \<Rightarrow> approvals_state \<Rightarrow> nat" where
  "runs_of i st = count_where (\<lambda>r. fst r = i) (as_runs st)"

definition executed_once :: "approvals_state \<Rightarrow> bool" where
  "executed_once st \<longleftrightarrow>
     uniq ap_id (as_approvals st)
     \<and> (\<forall>r\<in>set (as_runs st). fst r \<in> ap_id ` set (as_approvals st))
     \<and> (\<forall>a\<in>set (as_approvals st). runs_of (ap_id a) st \<le> (if ap_status a \<in> {ApApproved, ApFailed} then 1 else 0))"

datatype approval_op = Ask actor approval_request id instant | Approve actor id instant
  | Deny actor id "string option" instant | Expire instant

text \<open>The id of a new row is fresh: the database generates it.\<close>
fun approval_step ::
  "(json \<Rightarrow> json \<Rightarrow> bool) \<Rightarrow> team_contact list \<Rightarrow> executors \<Rightarrow> approval_op \<Rightarrow> approvals_state \<Rightarrow> approvals_state" where
  "approval_step sj cs ex (Ask actor req newId now) st =
     (if newId \<in> ap_id ` set (as_approvals st) then st else snd (request sj cs actor req newId now st))"
| "approval_step sj cs ex (Approve actor i now) st = snd (approve ex actor i now st)"
| "approval_step sj cs ex (Deny actor i reason now) st = snd (deny actor i reason now st)"
| "approval_step sj cs ex (Expire now) st = snd (expire now st)"

lemma find_Some_in: "List.find P xs = Some x \<Longrightarrow> x \<in> set xs \<and> P x"
  by (auto simp: find_Some_iff)

lemma takeDecision_Inr:
  assumes "takeDecision actor i now st = (Inr a, st')"
  shows "st' = st" "a \<in> set (as_approvals st)" "ap_id a = i" "ap_teamId a = a_teamId actor" "ap_status a = ApPending"
    "now \<le> ap_expiresAt a" "\<not> a_isAgent actor" "a_role actor \<in> {Owner, Admin}"
  using assms unfolding takeDecision_def
  by (auto split: if_splits option.splits dest: find_Some_in)

lemma takeDecision_Inl:
  assumes "takeDecision actor i now st = (Inl e, st')"
  shows "st' = st \<or> (\<exists>a\<in>set (as_approvals st). ap_id a = i \<and> ap_status a = ApPending
     \<and> st' = update_approval i (\<lambda>b. b\<lparr> ap_status := ApExpired, ap_decidedAt := Some now \<rparr>) st)"
  using assms unfolding takeDecision_def
  by (auto split: if_splits option.splits dest: find_Some_in)

text \<open>Rewriting rows that are pending, without running anything, keeps the invariant.\<close>
lemma executed_once_update:
  assumes "executed_once st" "\<And>a. ap_id (f a) = ap_id a"
    and "\<And>a. a \<in> set (as_approvals st) \<Longrightarrow> p a \<Longrightarrow> ap_status a = ApPending"
  shows "executed_once (st\<lparr> as_approvals := update_where p f (as_approvals st) \<rparr>)"
proof -
  have ids: "ap_id ` set (update_where p f (as_approvals st)) = ap_id ` set (as_approvals st)"
    by (rule keys_update_where) (rule assms(2))
  show ?thesis
    using assms unfolding executed_once_def
    by (auto simp: ids uniq_update_where ball_update_where runs_of_def assms(2) split: if_splits)
qed

lemma executed_once_events [simp]:
  "executed_once (emit_decided i d st) \<longleftrightarrow> executed_once st"
  "executed_once (notifyOwners cs a st) \<longleftrightarrow> executed_once st"
  "executed_once (st\<lparr> as_events := es \<rparr>) \<longleftrightarrow> executed_once st"
  by (simp_all add: executed_once_def emit_decided_def notifyOwners_def runs_of_def)

lemma executed_once_create:
  assumes "executed_once st" "newId \<notin> ap_id ` set (as_approvals st)"
  shows "executed_once (snd (createPending cs actor req newId now st))"
proof -
  have "runs_of newId st = 0" using assms unfolding executed_once_def runs_of_def count_where_0_iff by auto
  then show ?thesis using assms
    by (auto simp: createPending_def Let_def executed_once_def new_approval_def runs_of_def uniq_def notifyOwners_def)
qed

lemma executed_once_run:
  assumes inv: "executed_once st" and a: "a \<in> set (as_approvals st)" "ap_status a = ApPending"
    and f: "\<And>b. ap_id (f b) = ap_id b" "\<And>b. ap_status (f b) \<in> {ApApproved, ApFailed}"
  shows "executed_once (update_approval (ap_id a) f (st\<lparr> as_runs := as_runs st @ [(ap_id a, who)] \<rparr>))"
proof -
  have ids: "ap_id ` set (update_where (\<lambda>b. ap_id b = ap_id a) f (as_approvals st)) = ap_id ` set (as_approvals st)"
    by (rule keys_update_where) (rule f(1))
  have none: "runs_of (ap_id a) st = 0" using inv a by (auto simp: executed_once_def)
  have count: "count_where p (xs @ [x]) = count_where p xs + (if p x then 1 else 0)" for p :: "id \<times> actor \<Rightarrow> bool" and xs x
    by (simp add: count_where_def)
  have eq: "b = a" if "b \<in> set (as_approvals st)" "ap_id b = ap_id a" for b
    using inv a(1) that by (auto simp: executed_once_def dest: uniq_inj)
  show ?thesis
    using inv a none f unfolding executed_once_def update_approval_def
    by (auto simp: ids uniq_update_where ball_update_where runs_of_def count f(1) dest: eq)
qed

lemma takeDecision_executed_once:
  assumes "executed_once st" "takeDecision actor i now st = (Inl e, st')"
  shows "executed_once st'"
  using takeDecision_Inl [OF assms(2)]
proof
  assume "\<exists>a\<in>set (as_approvals st). ap_id a = i \<and> ap_status a = ApPending
     \<and> st' = update_approval i (\<lambda>b. b\<lparr> ap_status := ApExpired, ap_decidedAt := Some now \<rparr>) st"
  then obtain a where a: "a \<in> set (as_approvals st)" "ap_id a = i" "ap_status a = ApPending"
    and st': "st' = update_approval i (\<lambda>b. b\<lparr> ap_status := ApExpired, ap_decidedAt := Some now \<rparr>) st" by blast
  have "ap_status b = ApPending" if "b \<in> set (as_approvals st)" "ap_id b = i" for b
    using uniq_inj [of ap_id "as_approvals st" b a] that a assms(1) by (simp add: executed_once_def)
  then show ?thesis unfolding st' update_approval_def by (intro executed_once_update [OF assms(1)]) simp_all
qed (use assms(1) in simp)

lemma approve_executed_once:
  assumes "executed_once st"
  shows "executed_once (snd (approve ex actor i now st))"
proof (cases "takeDecision actor i now st")
  case (Pair r st1)
  show ?thesis
  proof (cases r)
    case (Inl e)
    then show ?thesis using takeDecision_executed_once [OF assms, of actor i now e st1] Pair by (simp add: approve_def)
  next
    case (Inr a)
    note td = takeDecision_Inr [OF Pair [unfolded Inr]]
    show ?thesis using Pair Inr td(1) assms
      by (auto simp: approve_def approve_taken_def Let_def intro!: executed_once_run [OF assms td(2,5)] split: option.split sum.split)
  qed
qed

lemma deny_executed_once:
  assumes "executed_once st"
  shows "executed_once (snd (deny actor i reason now st))"
proof (cases "takeDecision actor i now st")
  case (Pair r st1)
  show ?thesis
  proof (cases r)
    case (Inl e)
    then show ?thesis using takeDecision_executed_once [OF assms, of actor i now e st1] Pair by (simp add: deny_def)
  next
    case (Inr a)
    note td = takeDecision_Inr [OF Pair [unfolded Inr]]
    have "ap_status b = ApPending" if "b \<in> set (as_approvals st)" "ap_id b = i" for b
      using that td(2,3,5) assms by (auto simp: executed_once_def dest: uniq_inj)
    then show ?thesis using Pair Inr td(1)
      by (auto simp: deny_def update_approval_def intro!: executed_once_update [OF assms])
  qed
qed

lemma approval_step_inv:
  assumes "executed_once st"
  shows "executed_once (approval_step sj cs ex op st)"
proof (cases op)
  case (Ask actor req newId now)
  then show ?thesis using assms executed_once_create [OF assms]
    by (auto simp: request_def Let_def split: option.split)
next
  case (Approve actor i now)
  then show ?thesis by (simp add: approve_executed_once [OF assms])
next
  case (Deny actor i reason now)
  then show ?thesis by (simp add: deny_executed_once [OF assms])
next
  case (Expire now)
  have "executed_once (st\<lparr> as_approvals := update_where (\<lambda>a. ap_status a = ApPending \<and> ap_expiresAt a < now)
      (\<lambda>b. b\<lparr> ap_status := ApExpired, ap_decidedAt := Some now \<rparr>) (as_approvals st) \<rparr>)"
    by (rule executed_once_update [OF assms]) simp_all
  then show ?thesis using Expire by (simp add: expire_def Let_def)
qed

interpretation desk: guarded_system executed_once "approval_step sj cs ex" for sj cs ex
  by unfold_locales (rule approval_step_inv)

section \<open>Overlapping calls\<close>

text \<open>
  Taking a decision reads the row and does not claim it: a second approval that reads the row
  before the first has finished is accepted too, and the executor runs again.
\<close>
lemma overlapping_approvals_run_twice:
  assumes "takeDecision x i now st = (Inr a, st)" "takeDecision y i now st = (Inr b, st)"
    and "ex (ap_kind a) = Some run" "uniq ap_id (as_approvals st)"
  shows "runs_of i (snd (approve_taken ex y b now (snd (approve_taken ex x a now st)))) = runs_of i st + 2"
proof -
  have "a = b" using takeDecision_Inr(2,3) [OF assms(1)] takeDecision_Inr(2,3) [OF assms(2)] assms(4)
    by (auto dest: uniq_inj)
  moreover have "runs_of i (snd (approve_taken ex z a now s)) = Suc (runs_of i s)" for z s
    using assms(3) takeDecision_Inr(3) [OF assms(1)]
    by (auto simp: approve_taken_def Let_def runs_of_def emit_decided_def update_approval_def count_where_def split: sum.split)
  ultimately show ?thesis by simp
qed

end
