(* ===== verification/Agent_Run.thy ===== *)
theory Agent_Run
  imports Agent_Loop Redact Flow_Graph Approvals
begin

text \<open>
  The execution of an agent run
  (\<^verbatim>\<open>src/apps/api/src/modules/connect/runtime/run.service.ts\<close>, \<^verbatim>\<open>spec.ts\<close>): the limits of a run,
  the guard before every step, the step log, the record of a model answer, tool calls from the
  model with their approvals, and the agent node, which runs the loop of \<open>Agent_Loop\<close>.

  \<open>run_ctx\<close> is the \<open>Ctx\<close> of the source with the rows of its step table and, in \<open>rc_env\<close>, the rest
  of the world.  \<open>run_services\<close> are the operations on that rest: the clock, the timer of the
  deadline, the run's row, the model provider, the tool executors, connections and approvals; each
  may change it in any way, which covers what other processes do meanwhile.

  The tool calls of one turn run concurrently.  A call is a \<open>call_phase\<close> that moves from one
  \<open>await\<close> to the next with \<open>call_step\<close>; \<open>run_calls\<close> starts them in order and then lets the
  scheduler \<open>srv_pick\<close> choose, so that a statement about every scheduler is about every
  interleaving.
\<close>

section \<open>Limits\<close>

record run_limits =
  maxSteps :: nat
  maxTokensPerRun :: nat
  timeoutSeconds :: nat

definition DEFAULT_LIMITS :: run_limits where
  "DEFAULT_LIMITS = \<lparr>maxSteps = 25, maxTokensPerRun = 200000, timeoutSeconds = 120\<rparr>"

text \<open>\<open>Number (v)\<close>; None for \<open>NaN\<close> and the infinities.\<close>

definition number_of :: "(rat \<Rightarrow> string) \<Rightarrow> json \<Rightarrow> rat option" where
  "number_of ns v =
     (case v of
        JUndef \<Rightarrow> None | JNull \<Rightarrow> Some 0 | JBool b \<Rightarrow> Some (if b then 1 else 0) | JNum q \<Rightarrow> Some q
      | JInf _ \<Rightarrow> None | JStr s \<Rightarrow> js_Number s | JArr vs \<Rightarrow> js_Number (js_String ns (JArr vs)) | JObj _ \<Rightarrow> None)"

definition limit_value :: "(rat \<Rightarrow> string) \<Rightarrow> (string \<times> json) list \<Rightarrow> string \<Rightarrow> rat \<times> rat \<Rightarrow> nat \<Rightarrow> nat" where
  "limit_value ns r k bounds dflt =
     (case number_of ns (get_prop k r) of
        None \<Rightarrow> dflt
      | Some v \<Rightarrow> nat (js_round (min (max v (fst bounds)) (snd bounds))))"

definition normalizeLimits :: "(rat \<Rightarrow> string) \<Rightarrow> json \<Rightarrow> run_limits" where
  "normalizeLimits ns raw =
     (let r = (case raw of JObj fs \<Rightarrow> fs | _ \<Rightarrow> [])
      in \<lparr>maxSteps = limit_value ns r ''maxSteps'' (1, 200) (maxSteps DEFAULT_LIMITS),
          maxTokensPerRun = limit_value ns r ''maxTokensPerRun'' (1000, 2000000) (maxTokensPerRun DEFAULT_LIMITS),
          timeoutSeconds = limit_value ns r ''timeoutSeconds'' (5, 900) (timeoutSeconds DEFAULT_LIMITS)\<rparr>)"

section \<open>What a run executes\<close>

record tool_spec =
  tls_id :: id
  tls_name :: string
  tls_kind :: string
  tls_connectionId :: "id option"
  tls_enabled :: bool
  tls_requiresApproval :: bool
  tls_config :: json
  tls_inputSchema :: json

record agent_spec =
  sp_agentId :: id
  sp_teamId :: id
  sp_projectId :: id
  sp_createdById :: id
  sp_name :: string
  sp_instructions :: string
  sp_model :: string
  sp_effort :: string
  sp_limits :: run_limits
  sp_tools :: "tool_spec list"
  sp_workflow :: "graph option"

record trigger_data =
  tr_source :: string
  tr_body :: json
  tr_message :: "string option"
  tr_headers :: json
  tr_prompt :: string

record pending_approval =
  pa_nodeId :: string
  pa_toolUseId :: "string option"
  pa_toolId :: id
  pa_toolName :: string
  pa_input :: json
  pa_summary :: string

record run_state =
  rs_trigger :: trigger_data
  rs_done :: "(string \<times> json \<times> bool option) list"
  rs_agent :: "(string \<times> loop_state) list"
  rs_approvals :: "(id \<times> pending_approval) list"
  rs_execMs :: int
  rs_segments :: nat

record run_usage =
  ru_inputTokens :: int
  ru_outputTokens :: int
  ru_cacheReadTokens :: int
  ru_cacheWriteTokens :: int
  ru_toolCalls :: nat
  ru_apiCalls :: nat
  ru_steps :: nat
  ru_providerCost :: int
  ru_models :: tokens_by_model

datatype step_type = StNode | StModel | StTool | StCondition | StApproval

record run_step =
  stp_index :: nat
  stp_type :: step_type
  stp_nodeId :: "string option"
  stp_name :: string
  stp_status :: string
  stp_input :: json
  stp_output :: json
  stp_error :: json
  stp_tokens :: json

record open_connection =
  oc_kind :: string
  oc_secrets :: "(string \<times> string) list"

datatype run_status = RsQueued | RsRunning | RsWaitingApproval | RsSucceeded | RsFailed | RsCancelled

datatype run_error = RunFailure string string json | RunCancelled | OtherError "string option" string

definition error_message :: "run_error \<Rightarrow> string" where
  "error_message e = (case e of RunFailure _ m _ \<Rightarrow> m | RunCancelled \<Rightarrow> [] | OtherError _ m \<Rightarrow> m)"

record 'p run_ctx =
  rc_runId :: id
  rc_spec :: agent_spec
  rc_state :: run_state
  rc_redactor :: "string list"
  rc_vars :: "(string \<times> string) list"
  rc_secrets :: "(string \<times> string) list"
  rc_connections :: "(id \<times> open_connection) list"
  rc_usage :: run_usage
  rc_deadline :: instant
  rc_timedOut :: bool
  rc_segmentStart :: instant
  rc_steps :: "run_step list"
  rc_env :: 'p

section \<open>The services of a run\<close>

record tool_executor =
  ex_connectionRequired :: bool
  ex_connectionKinds :: "string list"
  ex_needsApproval :: "json \<Rightarrow> json \<Rightarrow> bool"
  ex_summarize :: "json \<Rightarrow> json \<Rightarrow> string option"

record model_request =
  mq_model :: string
  mq_effort :: string
  mq_instructions :: string
  mq_tools :: "json list"
  mq_outputSchema :: "json option"

record 'p run_services =
  srv_now :: "'p \<Rightarrow> instant"
  srv_fired :: "'p \<Rightarrow> bool"
  srv_status :: "'p \<Rightarrow> run_status option \<times> 'p"
  srv_complete :: "model_request \<Rightarrow> chat_message list \<Rightarrow> 'p \<Rightarrow> (run_error + model_response) \<times> 'p"
  srv_executor :: "string \<Rightarrow> tool_executor option"
  srv_execute :: "tool_spec \<Rightarrow> json \<Rightarrow> open_connection option \<Rightarrow> bool \<Rightarrow> 'p \<Rightarrow> (string + json) \<times> nat \<times> 'p"
  srv_openConnection :: "id \<Rightarrow> id \<Rightarrow> 'p \<Rightarrow> open_connection option \<times> 'p"
  srv_createPending :: "approval_request \<Rightarrow> 'p \<Rightarrow> (string + id) \<times> 'p"
  srv_ownsConnection :: "id \<Rightarrow> id \<Rightarrow> 'p \<Rightarrow> bool \<times> 'p"
  srv_checkpoint :: "id \<Rightarrow> run_state \<Rightarrow> run_usage \<Rightarrow> 'p \<Rightarrow> 'p"
  srv_pick :: "'p \<Rightarrow> nat \<times> 'p"
  srv_modelTool :: "tool_spec \<Rightarrow> json"
  srv_inputSchemaOf :: "tool_spec \<Rightarrow> json"
  srv_schemaErrors :: "json \<Rightarrow> json \<Rightarrow> string option"
  srv_parseJson :: "string \<Rightarrow> json option"
  srv_numStr :: "rat \<Rightarrow> string"

definition CONNECT_APPROVAL_KIND :: string where "CONNECT_APPROVAL_KIND = ''connect:tool_call''"
definition MODEL_RESULT_CHARS :: nat where "MODEL_RESULT_CHARS = 20000"

section \<open>The guard and the step log\<close>

definition timeout_failure :: "agent_spec \<Rightarrow> run_error" where
  "timeout_failure spec =
     RunFailure ''timeout'' (''The run took longer than '' @ show_nat (timeoutSeconds (sp_limits spec)) @ '' seconds.'') JUndef"

definition tokens_used :: "run_usage \<Rightarrow> int" where
  "tokens_used u = ru_inputTokens u + ru_outputTokens u + ru_cacheWriteTokens u"

text \<open>The part of \<open>guard\<close> before its \<open>await\<close>, and the part after it.\<close>

definition guard_now :: "'p run_services \<Rightarrow> 'p run_ctx \<Rightarrow> run_error option \<times> 'p run_ctx" where
  "guard_now s c =
     (let lims = sp_limits (rc_spec c) in
      if rc_timedOut c \<or> srv_fired s (rc_env c) \<or> rc_deadline c < srv_now s (rc_env c)
      then (Some (timeout_failure (rc_spec c)), c\<lparr>rc_timedOut := True\<rparr>)
      else if maxSteps lims \<le> ru_steps (rc_usage c)
      then (Some (RunFailure ''step_limit'' (''The run reached its limit of '' @ show_nat (maxSteps lims) @ '' steps.'') JUndef), c)
      else if int (maxTokensPerRun lims) \<le> tokens_used (rc_usage c)
      then (Some (RunFailure ''token_limit'' (''The run used its limit of '' @ show_nat (maxTokensPerRun lims) @ '' tokens.'') JUndef), c)
      else (None, c))"

definition guard_status :: "'p run_services \<Rightarrow> 'p run_ctx \<Rightarrow> run_error option \<times> 'p run_ctx" where
  "guard_status s c =
     (let (st, p) = srv_status s (rc_env c)
      in (if st = Some RsCancelled then Some RunCancelled else None, c\<lparr>rc_env := p\<rparr>))"

definition guard :: "'p run_services \<Rightarrow> 'p run_ctx \<Rightarrow> run_error option \<times> 'p run_ctx" where
  "guard s c = (case guard_now s c of (Some e, c1) \<Rightarrow> (Some e, c1) | (None, c1) \<Rightarrow> guard_status s c1)"

definition step_payload :: "'p run_services \<Rightarrow> 'p run_ctx \<Rightarrow> json \<Rightarrow> json" where
  "step_payload s c v = capPayload (srv_numStr s) (redact_value (rc_redactor c) v 0) STEP_FIELD_CAP"

definition addStep ::
  "'p run_services \<Rightarrow> step_type \<Rightarrow> string option \<Rightarrow> string \<Rightarrow> string \<Rightarrow> json \<Rightarrow> json \<Rightarrow> json \<Rightarrow> json \<Rightarrow> 'p run_ctx \<Rightarrow> 'p run_ctx" where
  "addStep s ty node nm status inp out err toks c =
     (let index = ru_steps (rc_usage c)
      in c\<lparr>rc_usage := (rc_usage c)\<lparr>ru_steps := index + 1\<rparr>,
           rc_steps := rc_steps c @
             [\<lparr>stp_index = index, stp_type = ty, stp_nodeId = node, stp_name = take 200 nm, stp_status = status,
               stp_input = step_payload s c inp, stp_output = step_payload s c out,
               stp_error = (if err = JUndef then JNull else step_payload s c err),
               stp_tokens = (if toks = JUndef then JNull else toks)\<rparr>]\<rparr>)"

section \<open>Recording a model answer\<close>

definition write1h :: "token_usage \<Rightarrow> int" where
  "write1h u = min (case tu_cacheWrite1h u of None \<Rightarrow> 0 | Some n \<Rightarrow> n) (tu_cacheWrite u)"

definition billed_tokens :: "token_usage \<Rightarrow> model_tokens" where
  "billed_tokens u k =
     (case k of TkInput \<Rightarrow> tu_input u | TkOutput \<Rightarrow> tu_output u | TkCacheRead \<Rightarrow> tu_cacheRead u
      | TkCacheWrite \<Rightarrow> tu_cacheWrite u - write1h u | TkCacheWrite1h \<Rightarrow> write1h u)"

definition bill_attempt :: "string \<Rightarrow> string \<times> token_usage \<Rightarrow> run_usage \<Rightarrow> run_usage" where
  "bill_attempt requested a u =
     (let model = billingModel (Some (fst a)) requested
      in u\<lparr>ru_providerCost := ru_providerCost u + providerCostMicroUsd (Some model) (snd a),
           ru_models := addTokens (ru_models u) model (billed_tokens (snd a))\<rparr>)"

definition attempts_of :: "string \<Rightarrow> model_response \<Rightarrow> (string \<times> token_usage) list" where
  "attempts_of requested r =
     (case mr_attempts r of
        Some as \<Rightarrow> as
      | None \<Rightarrow> [(if mr_servedBy r = [] then requested else mr_servedBy r, mr_usage r)])"

definition add_usage :: "token_usage \<Rightarrow> run_usage \<Rightarrow> run_usage" where
  "add_usage t u =
     u\<lparr>ru_inputTokens := ru_inputTokens u + tu_input t, ru_outputTokens := ru_outputTokens u + tu_output t,
       ru_cacheReadTokens := ru_cacheReadTokens u + tu_cacheRead t,
       ru_cacheWriteTokens := ru_cacheWriteTokens u + tu_cacheWrite t\<rparr>"

definition js_int :: "int \<Rightarrow> json" where "js_int n = JNum (of_int n)"

definition js_truthy :: "json \<Rightarrow> bool" where
  "js_truthy v \<longleftrightarrow> v \<notin> {JUndef, JNull, JBool False, JNum 0, JStr []}"

definition model_output :: "(rat \<Rightarrow> string) \<Rightarrow> model_response \<Rightarrow> json" where
  "model_output ns r =
     (let texts = map (\<lambda>b. js_String ns (get_prop ''text'' b)) (filter (has_type ''text'') (mr_content r));
          calls = map (\<lambda>b. JStr (js_String ns (get_prop ''name'' b))) (filter (has_type ''tool_use'') (mr_content r))
      in JObj ([(''stopReason'', JStr (mr_stopReason r)), (''text'', JStr (clip (concat texts) 8000)),
                (''toolCalls'', JArr calls), (''servedBy'', JStr (mr_servedBy r))]
               @ (if mr_fallbacks r \<noteq> [] then [(''fallbacks'', JArr (mr_fallbacks r))] else [])
               @ (case mr_attempts r of
                    None \<Rightarrow> []
                  | Some as \<Rightarrow>
                      if length as > 1
                      then [(''attempts'', JArr (map (\<lambda>a. JObj [(''model'', JStr (fst a)),
                               (''input'', js_int (tu_input (snd a))), (''output'', js_int (tu_output (snd a)))]) as))]
                      else [])
               @ (if js_truthy (mr_stopDetails r) then [(''stopDetails'', mr_stopDetails r)] else [])))"

definition recordModel :: "'p run_services \<Rightarrow> string \<Rightarrow> model_response \<Rightarrow> 'p run_ctx \<Rightarrow> 'p run_ctx" where
  "recordModel s node r c =
     (let requested = sp_model (rc_spec c);
          u = fold (bill_attempt requested) (attempts_of requested r) (add_usage (mr_usage r) (rc_usage c));
          t = mr_usage r
      in addStep s StModel (Some node) (if mr_servedBy r = [] then requested else mr_servedBy r)
           (if mr_stopReason r = ''refusal'' \<or> mr_stopReason r = ''max_tokens'' then ''failed'' else ''succeeded'')
           JUndef (model_output (srv_numStr s) r) JUndef
           (JObj [(''input'', js_int (tu_input t)), (''output'', js_int (tu_output t)),
                  (''cacheRead'', js_int (tu_cacheRead t)), (''cacheWrite'', js_int (tu_cacheWrite t))])
           (c\<lparr>rc_usage := u\<rparr>))"

section \<open>Running a tool\<close>

definition connection :: "'p run_services \<Rightarrow> id \<Rightarrow> 'p run_ctx \<Rightarrow> open_connection option \<times> 'p run_ctx" where
  "connection s i c =
     (case map_of (rc_connections c) i of
        Some oc \<Rightarrow> (Some oc, c)
      | None \<Rightarrow>
          (case srv_openConnection s (sp_teamId (rc_spec c)) i (rc_env c) of
             (None, p) \<Rightarrow> (None, c\<lparr>rc_env := p\<rparr>)
           | (Some oc, p) \<Rightarrow>
               (Some oc, c\<lparr>rc_redactor := add (map (Some \<circ> snd) (oc_secrets oc)) (rc_redactor c),
                           rc_connections := AList.update i oc (rc_connections c), rc_env := p\<rparr>)))"

text \<open>The source tests the id for truth: an empty text is no connection.\<close>

definition connection_id :: "tool_spec \<Rightarrow> id option" where
  "connection_id tool = (case tls_connectionId tool of None \<Rightarrow> None | Some i \<Rightarrow> if i = [] then None else Some i)"

text \<open>The checks between opening the connection and calling the executor: the problem, if any.\<close>

definition connection_problem :: "tool_executor \<Rightarrow> tool_spec \<Rightarrow> open_connection option \<Rightarrow> string option" where
  "connection_problem ex tool conn =
     (case conn of
        None \<Rightarrow>
          if connection_id tool \<noteq> None then Some ''the connection of this tool no longer exists''
          else if ex_connectionRequired ex then Some (tls_kind tool @ '' tools need a connection'')
          else None
      | Some oc \<Rightarrow>
          if ex_connectionKinds ex \<noteq> [] \<and> oc_kind oc \<notin> set (ex_connectionKinds ex)
          then Some (tls_kind tool @ '' tools cannot use a '' @ oc_kind oc @ '' connection'')
          else None)"

definition redacted_error :: "string \<Rightarrow> 'p run_ctx \<Rightarrow> string" where
  "redacted_error msg c = redact_text (rc_redactor c) (if msg = [] then ''tool failed'' else msg)"

definition count_tool_call :: "'p run_ctx \<Rightarrow> 'p run_ctx" where
  "count_tool_call c = c\<lparr>rc_usage := (rc_usage c)\<lparr>ru_toolCalls := ru_toolCalls (rc_usage c) + 1\<rparr>\<rparr>"

text \<open>Up to the call of the executor: \<open>Inl\<close> the error caught, \<open>Inr\<close> the connection to use.\<close>

definition prepare_tool ::
  "'p run_services \<Rightarrow> tool_spec \<Rightarrow> 'p run_ctx \<Rightarrow> (string + open_connection option) \<times> 'p run_ctx" where
  "prepare_tool s tool c =
     (case srv_executor s (tls_kind tool) of
        None \<Rightarrow> (Inl (redacted_error (''unknown tool kind '' @ tls_kind tool) c), c)
      | Some ex \<Rightarrow>
          (let (conn, c1) = (case connection_id tool of None \<Rightarrow> (None, c) | Some i \<Rightarrow> connection s i c)
           in case connection_problem ex tool conn of
                Some msg \<Rightarrow> (Inl (redacted_error msg c1), c1)
              | None \<Rightarrow> (Inr conn, count_tool_call c1)))"

definition execute_tool ::
  "'p run_services \<Rightarrow> tool_spec \<Rightarrow> json \<Rightarrow> open_connection option \<Rightarrow> bool \<Rightarrow> 'p run_ctx \<Rightarrow> (string + json) \<times> 'p run_ctx" where
  "execute_tool s tool inp conn approved c =
     (let (r, api, p) = srv_execute s tool inp conn approved (rc_env c);
          c1 = c\<lparr>rc_env := p, rc_usage := (rc_usage c)\<lparr>ru_apiCalls := ru_apiCalls (rc_usage c) + api\<rparr>\<rparr>
      in case r of
           Inl msg \<Rightarrow> (Inl (redacted_error msg c1), c1)
         | Inr out \<Rightarrow> (Inr (redact_value (rc_redactor c1) (if out = JUndef then JNull else out) 0), c1))"

datatype tool_run = ToolOk json string | ToolFailed string string

definition close_tool ::
  "'p run_services \<Rightarrow> tool_spec \<Rightarrow> string \<Rightarrow> json \<Rightarrow> string + json \<Rightarrow> 'p run_ctx \<Rightarrow> tool_run \<times> 'p run_ctx" where
  "close_tool s tool node display r c =
     (case r of
        Inl err \<Rightarrow> (ToolFailed (''Tool '' @ tls_name tool @ '' failed: '' @ err) err,
                    addStep s StTool (Some node) (tls_name tool) ''failed'' display JUndef (JObj [(''message'', JStr err)]) JUndef c)
      | Inr out \<Rightarrow> (ToolOk out (clip (json_str (srv_numStr s) out) MODEL_RESULT_CHARS),
                    addStep s StTool (Some node) (tls_name tool) ''succeeded'' display out JUndef JUndef c))"

definition runTool ::
  "'p run_services \<Rightarrow> tool_spec \<Rightarrow> json \<Rightarrow> string \<Rightarrow> json \<Rightarrow> bool \<Rightarrow> 'p run_ctx \<Rightarrow> (run_error + tool_run) \<times> 'p run_ctx" where
  "runTool s tool inp node display approved c =
     (case guard s c of
        (Some e, c1) \<Rightarrow> (Inl e, c1)
      | (None, c1) \<Rightarrow>
          (case prepare_tool s tool c1 of
             (Inl err, c2) \<Rightarrow> (let (t, c3) = close_tool s tool node display (Inl err) c2 in (Inr t, c3))
           | (Inr conn, c2) \<Rightarrow>
               (let (r, c3) = execute_tool s tool inp conn approved c2;
                    (t, c4) = close_tool s tool node display r c3
                in (Inr t, c4))))"

section \<open>Asking for approval\<close>

definition needs_approval :: "'p run_services \<Rightarrow> tool_spec \<Rightarrow> json \<Rightarrow> bool" where
  "needs_approval s tool inp \<longleftrightarrow>
     tls_requiresApproval tool
     \<or> (case srv_executor s (tls_kind tool) of None \<Rightarrow> False | Some ex \<Rightarrow> ex_needsApproval ex (tls_config tool) inp)"

definition approval_summary :: "'p run_services \<Rightarrow> tool_spec \<Rightarrow> json \<Rightarrow> 'p run_ctx \<Rightarrow> string" where
  "approval_summary s tool inp c =
     (let what = (case (case srv_executor s (tls_kind tool) of None \<Rightarrow> None | Some ex \<Rightarrow> ex_summarize ex (tls_config tool) inp) of
                    None \<Rightarrow> ''run '' @ tls_name tool | Some w \<Rightarrow> w)
      in clip (''Agent '' @ [CHR 0x22] @ sp_name (rc_spec c) @ [CHR 0x22] @ '' wants to '' @ what) 300)"

definition opt_str :: "string option \<Rightarrow> json" where
  "opt_str x = (case x of None \<Rightarrow> JNull | Some t \<Rightarrow> JStr t)"

definition approval_request_of ::
  "string \<Rightarrow> string option \<Rightarrow> tool_spec \<Rightarrow> json \<Rightarrow> string \<Rightarrow> 'p run_ctx \<Rightarrow> approval_request" where
  "approval_request_of node useId tool inp summary c =
     \<lparr>rq_kind = CONNECT_APPROVAL_KIND, rq_resourceType = ''connect_run'', rq_resourceId = Some (rc_runId c),
      rq_resourceName = Some (sp_name (rc_spec c)), rq_summary = summary,
      rq_payload = JObj [(''runId'', JStr (rc_runId c)), (''agentId'', JStr (sp_agentId (rc_spec c))), (''nodeId'', JStr node),
        (''toolUseId'', opt_str useId), (''toolId'', JStr (tls_id tool)), (''toolName'', JStr (tls_name tool)),
        (''input'', redact_value (rc_redactor c) inp 0)],
      rq_projectId = sp_projectId (rc_spec c)\<rparr>"

text \<open>After \<open>createPending\<close>: the approval is noted in the state of the run and in the step log.\<close>

definition note_approval ::
  "'p run_services \<Rightarrow> string \<Rightarrow> string option \<Rightarrow> tool_spec \<Rightarrow> json \<Rightarrow> string \<Rightarrow> id \<Rightarrow> 'p run_ctx \<Rightarrow> 'p run_ctx" where
  "note_approval s node useId tool inp summary a c =
     addStep s StApproval (Some node) (''Approval: '' @ tls_name tool) ''waiting'' inp
       (JObj [(''approvalId'', JStr a), (''summary'', JStr summary)]) JUndef JUndef
       (c\<lparr>rc_state := (rc_state c)\<lparr>rs_approvals := AList.update a
           \<lparr>pa_nodeId = node, pa_toolUseId = useId, pa_toolId = tls_id tool, pa_toolName = tls_name tool, pa_input = inp, pa_summary = summary\<rparr>
           (rs_approvals (rc_state c))\<rparr>\<rparr>)"

definition create_approval ::
  "'p run_services \<Rightarrow> string \<Rightarrow> string option \<Rightarrow> tool_spec \<Rightarrow> json \<Rightarrow> string \<Rightarrow> 'p run_ctx \<Rightarrow> (string + id) \<times> 'p run_ctx" where
  "create_approval s node useId tool inp summary c =
     (case srv_createPending s (approval_request_of node useId tool inp summary c) (rc_env c) of
        (Inl m, p) \<Rightarrow> (Inl m, c\<lparr>rc_env := p\<rparr>)
      | (Inr a, p) \<Rightarrow> (Inr a, note_approval s node useId tool inp summary a (c\<lparr>rc_env := p\<rparr>)))"

definition requestApproval ::
  "'p run_services \<Rightarrow> string \<Rightarrow> string option \<Rightarrow> tool_spec \<Rightarrow> json \<Rightarrow> 'p run_ctx \<Rightarrow> (run_error + id) \<times> 'p run_ctx" where
  "requestApproval s node useId tool inp c =
     (case guard s c of
        (Some e, c1) \<Rightarrow> (Inl e, c1)
      | (None, c1) \<Rightarrow>
          (case create_approval s node useId tool inp (approval_summary s tool inp c1) c1 of
             (Inl m, c2) \<Rightarrow> (Inl (OtherError None m), c2)
           | (Inr a, c2) \<Rightarrow> (Inr a, c2)))"

section \<open>Tool calls of the model\<close>

datatype after_check = RefuseInput tool_spec json string | AskApproval tool_spec json | RunIt tool_spec json

datatype call_phase =
    CChecking after_check
  | CConnecting tool_spec json
  | CRequesting tool_spec json string
  | CExecuting tool_spec json "open_connection option"
  | CSettled "string + tool_outcome"

fun is_settled :: "call_phase \<Rightarrow> bool" where
  "is_settled (CSettled r) = True"
| "is_settled _ = False"

fun phase_rank :: "call_phase \<Rightarrow> nat" where
  "phase_rank (CChecking _) = 3"
| "phase_rank (CConnecting _ _) = 2"
| "phase_rank (CRequesting _ _ _) = 1"
| "phase_rank (CExecuting _ _ _) = 1"
| "phase_rank (CSettled _) = 0"

definition tool_outcome_of :: "tool_run \<Rightarrow> tool_outcome" where
  "tool_outcome_of t = (case t of ToolOk _ content \<Rightarrow> Outcome content False | ToolFailed content _ \<Rightarrow> Outcome content True)"

definition enter_guard :: "'p run_services \<Rightarrow> after_check \<Rightarrow> 'p run_ctx \<Rightarrow> call_phase \<times> 'p run_ctx" where
  "enter_guard s a c =
     (case guard_now s c of
        (Some e, c1) \<Rightarrow> (CSettled (Inl (error_message e)), c1)
      | (None, c1) \<Rightarrow> (CChecking a, c1))"

definition parsed_input :: "'p run_services \<Rightarrow> json \<Rightarrow> json option" where
  "parsed_input s inp = (case inp of JStr t \<Rightarrow> srv_parseJson s t | _ \<Rightarrow> Some inp)"

definition tool_names :: "tool_spec list \<Rightarrow> string" where
  "tool_names allowed = (let names = join '', '' (map tls_name allowed) in if names = [] then ''none'' else names)"

text \<open>\<open>callFromModel\<close> up to its first \<open>await\<close>, which is the one in \<open>guard\<close>.\<close>

definition call_start ::
  "'p run_services \<Rightarrow> tool_spec list \<Rightarrow> tool_use \<Rightarrow> 'p run_ctx \<Rightarrow> call_phase \<times> 'p run_ctx" where
  "call_start s allowed call c =
     (case find_by tls_name (use_name call) allowed of
        None \<Rightarrow> (CSettled (Inr (Outcome (''There is no tool named '' @ use_name call @ ''. Available: '' @ tool_names allowed @ ''.'') True)), c)
      | Some tool \<Rightarrow>
          (case parsed_input s (use_input call) of
             None \<Rightarrow> (CSettled (Inr (Outcome (json_str (srv_numStr s)
                        (JObj [(''INVALID_JSON'', JStr (take 2000 (text_of (use_input call))))])) True)), c)
           | Some inp \<Rightarrow>
               (case srv_schemaErrors s (srv_inputSchemaOf s tool) (if inp = JNull \<or> inp = JUndef then JObj [] else inp) of
                  Some problems \<Rightarrow> enter_guard s (RefuseInput tool inp problems) c
                | None \<Rightarrow> enter_guard s (if needs_approval s tool inp then AskApproval tool inp else RunIt tool inp) c)))"

definition call_prepared ::
  "'p run_services \<Rightarrow> string \<Rightarrow> tool_spec \<Rightarrow> json \<Rightarrow> 'p run_ctx \<Rightarrow> call_phase \<times> 'p run_ctx" where
  "call_prepared s node tool inp c =
     (case prepare_tool s tool c of
        (Inl err, c1) \<Rightarrow> (let (t, c2) = close_tool s tool node inp (Inl err) c1 in (CSettled (Inr (tool_outcome_of t)), c2))
      | (Inr conn, c1) \<Rightarrow> (CExecuting tool inp conn, c1))"

text \<open>From one \<open>await\<close> of a call to the next.\<close>

fun call_step ::
  "'p run_services \<Rightarrow> string \<Rightarrow> tool_use \<Rightarrow> call_phase \<Rightarrow> 'p run_ctx \<Rightarrow> call_phase \<times> 'p run_ctx" where
  "call_step s node call (CChecking a) c =
     (case guard_status s c of
        (Some e, c1) \<Rightarrow> (CSettled (Inl (error_message e)), c1)
      | (None, c1) \<Rightarrow>
          (case a of
             RefuseInput tool inp problems \<Rightarrow>
               (CSettled (Inr (Outcome (''Invalid input for '' @ tls_name tool @ '': '' @ problems) True)),
                addStep s StTool (Some node) (tls_name tool) ''failed'' inp JUndef
                  (JObj [(''code'', JStr ''invalid_input''), (''message'', JStr problems)]) JUndef c1)
           | AskApproval tool inp \<Rightarrow> (CRequesting tool inp (approval_summary s tool inp c1), c1)
           | RunIt tool inp \<Rightarrow>
               if connection_id tool = None then call_prepared s node tool inp c1 else (CConnecting tool inp, c1)))"
| "call_step s node call (CConnecting tool inp) c = call_prepared s node tool inp c"
| "call_step s node call (CRequesting tool inp summary) c =
     (case create_approval s node (Some (use_id call)) tool inp summary c of
        (Inl m, c1) \<Rightarrow> (CSettled (Inl m), c1)
      | (Inr a, c1) \<Rightarrow> (CSettled (Inr (NeedsApproval a (tls_name tool))), c1))"
| "call_step s node call (CExecuting tool inp conn) c =
     (let (r, c1) = execute_tool s tool inp conn False c;
          (t, c2) = close_tool s tool node inp r c1
      in (CSettled (Inr (tool_outcome_of t)), c2))"
| "call_step s node call (CSettled r) c = (CSettled r, c)"

fun start_calls ::
  "'p run_services \<Rightarrow> tool_spec list \<Rightarrow> tool_use list \<Rightarrow> 'p run_ctx \<Rightarrow> call_phase list \<times> 'p run_ctx" where
  "start_calls s allowed [] c = ([], c)"
| "start_calls s allowed (u # us) c =
     (let (ph, c1) = call_start s allowed u c; (phs, c2) = start_calls s allowed us c1 in (ph # phs, c2))"

definition live_calls :: "call_phase list \<Rightarrow> nat list" where
  "live_calls phs = filter (\<lambda>i. \<not> is_settled (phs ! i)) [0..<length phs]"

lemma live_pick:
  assumes "live_calls phs \<noteq> []"
  shows "live_calls phs ! (n mod length (live_calls phs)) < length phs"
    "\<not> is_settled (phs ! (live_calls phs ! (n mod length (live_calls phs))))"
proof -
  have "live_calls phs ! (n mod length (live_calls phs)) \<in> set (live_calls phs)"
    using assms by (intro nth_mem) simp
  then show "live_calls phs ! (n mod length (live_calls phs)) < length phs"
    "\<not> is_settled (phs ! (live_calls phs ! (n mod length (live_calls phs))))"
    by (auto simp: live_calls_def)
qed

lemma call_prepared_rank: "phase_rank (fst (call_prepared s node tool inp c)) \<le> 1"
  by (auto simp: call_prepared_def split: prod.splits sum.splits)

lemma call_step_rank:
  assumes "\<not> is_settled ph"
  shows "phase_rank (fst (call_step s node u ph c)) < phase_rank ph"
proof (cases ph)
  case (CChecking a)
  have le: "phase_rank (fst (call_prepared s node tool inp c')) < 3" for tool inp c'
    using call_prepared_rank [of s node tool inp c'] by simp
  show ?thesis
    by (cases "guard_status s c") (simp add: CChecking le split: option.split after_check.split)
next
  case (CConnecting tool inp)
  then show ?thesis using call_prepared_rank [of s node tool inp c] by simp
next
  case (CRequesting tool inp summary)
  then show ?thesis by (simp split: prod.split sum.split)
next
  case (CExecuting tool inp conn)
  then show ?thesis by (simp split: prod.split)
qed (use assms in simp)

lemma rank_update:
  assumes "i < length phs" "phase_rank ph < phase_rank (phs ! i)"
  shows "sum_list (map phase_rank (phs[i := ph])) < sum_list (map phase_rank phs)"
proof -
  have "phase_rank (phs ! i) \<le> sum_list (map phase_rank phs)"
    using assms(1) by (intro member_le_sum_list) auto
  then show ?thesis
    using assms by (simp add: map_update sum_list_update)
qed

function run_calls ::
  "'p run_services \<Rightarrow> string \<Rightarrow> tool_use list \<Rightarrow> call_phase list \<Rightarrow> 'p run_ctx \<Rightarrow> call_phase list \<times> 'p run_ctx" where
  "run_calls s node uses phs c =
     (if live_calls phs = [] then (phs, c)
      else let (n, p) = srv_pick s (rc_env c);
               i = live_calls phs ! (n mod length (live_calls phs));
               (ph, c1) = call_step s node (uses ! i) (phs ! i) (c\<lparr>rc_env := p\<rparr>)
           in run_calls s node uses (phs[i := ph]) c1)"
  by pat_completeness auto
termination
proof (relation "measure (\<lambda>(s, node, uses, phs, c). sum_list (map phase_rank phs))", simp, goal_cases)
  case (1 s node uses phs c x n p i y ph c1)
  then have "phase_rank ph < phase_rank (phs ! i)"
    using call_step_rank [OF live_pick(2)] by (metis fst_conv)
  with 1 live_pick(1) show ?case by (auto intro!: rank_update)
qed

declare run_calls.simps [simp del]

definition settled_of :: "call_phase \<Rightarrow> string + tool_outcome" where
  "settled_of ph = (case ph of CSettled r \<Rightarrow> r | _ \<Rightarrow> Inl [])"

definition callsFromModel ::
  "'p run_services \<Rightarrow> string \<Rightarrow> tool_spec list \<Rightarrow> tool_use list \<Rightarrow> 'p run_ctx \<Rightarrow> (string + tool_outcome) list \<times> 'p run_ctx" where
  "callsFromModel s node allowed uses c =
     (let (phs, c1) = start_calls s allowed uses c; (phs', c2) = run_calls s node uses phs c1
      in (map settled_of phs', c2))"

section \<open>The agent node\<close>

datatype node_result = NOut json "bool option" | NWaiting

definition allowed_tools :: "agent_spec \<Rightarrow> json \<Rightarrow> tool_spec list" where
  "allowed_tools spec toolIds =
     filter (\<lambda>x. tls_enabled x \<and> (case toolIds of JArr ids \<Rightarrow> JStr (tls_id x) \<in> set ids | _ \<Rightarrow> True)) (sp_tools spec)"

definition agent_request :: "'p run_services \<Rightarrow> graph_node \<Rightarrow> 'p run_ctx \<Rightarrow> model_request" where
  "agent_request s node c =
     \<lparr>mq_model = sp_model (rc_spec c), mq_effort = sp_effort (rc_spec c),
      mq_instructions = renderText (srv_numStr s) (sp_instructions (rc_spec c))
        \<lparr>tc_trigger = JUndef, tc_input = JUndef, tc_steps = JUndef, tc_vars = rc_vars c, tc_secrets = rc_secrets c\<rparr> PromptMode,
      mq_tools = map (srv_modelTool s) (allowed_tools (rc_spec c) (get_prop ''toolIds'' (gn_data node))),
      mq_outputSchema = (let o' = get_prop ''outputSchema'' (gn_data node) in if isObj o' then Some o' else None)\<rparr>"

definition agent_deps :: "'p run_services \<Rightarrow> string \<Rightarrow> tool_spec list \<Rightarrow> model_request \<Rightarrow> ('p run_ctx, run_error) loop_deps" where
  "agent_deps s node allowed req =
     \<lparr>ld_beforeModelCall = guard s,
      ld_complete = (\<lambda>ms c. let (r, p) = srv_complete s req ms (rc_env c) in (r, c\<lparr>rc_env := p\<rparr>)),
      ld_onModelResponse = (\<lambda>r c. (None, recordModel s node r c)),
      ld_executeTools = callsFromModel s node allowed,
      ld_outputSchema = mq_outputSchema req,
      ld_numStr = srv_numStr s,
      ld_parseJson = srv_parseJson s,
      ld_schemaErrors = srv_schemaErrors s\<rparr>"

definition agent_prompt :: "'p run_services \<Rightarrow> graph_node \<Rightarrow> template_ctx \<Rightarrow> 'p run_ctx \<Rightarrow> string" where
  "agent_prompt s node t c =
     (if sp_workflow (rc_spec c) = None then tr_prompt (rs_trigger (rc_state c))
      else let pr = get_prop ''prompt'' (gn_data node)
           in renderText (srv_numStr s) (if pr = JUndef \<or> pr = JNull then [] else js_String (srv_numStr s) pr) t PromptMode)"

definition keep_agent_state :: "string \<Rightarrow> loop_state \<Rightarrow> 'p run_ctx \<Rightarrow> 'p run_ctx" where
  "keep_agent_state i st c = c\<lparr>rc_state := (rc_state c)\<lparr>rs_agent := AList.update i st (rs_agent (rc_state c))\<rparr>\<rparr>"

definition failure_details :: "json \<Rightarrow> string option \<Rightarrow> json" where
  "failure_details d txt =
     (if d \<noteq> JUndef \<and> d \<noteq> JNull then d
      else case txt of None \<Rightarrow> JUndef | Some t \<Rightarrow> if t = [] then JUndef else JObj [(''partialText'', JStr (clip t 4000))])"

definition agent_result :: "string \<Rightarrow> loop_result \<Rightarrow> 'p run_ctx \<Rightarrow> (run_error + node_result) \<times> 'p run_ctx" where
  "agent_result i r c =
     (case r of
        LWaiting st _ \<Rightarrow> (Inr NWaiting, keep_agent_state i st c)
      | LFailed code msg d txt st \<Rightarrow> (Inl (RunFailure code msg (failure_details d txt)), keep_agent_state i st c)
      | LDone txt v st \<Rightarrow> (Inr (NOut (if v \<noteq> JUndef then v else JObj [(''text'', JStr txt)]) None), keep_agent_state i st c))"

definition agent_start :: "'p run_services \<Rightarrow> graph_node \<Rightarrow> template_ctx \<Rightarrow> 'p run_ctx \<Rightarrow> loop_state" where
  "agent_start s node t c =
     (case map_of (rs_agent (rc_state c)) (gn_id node) of
        Some st \<Rightarrow> st | None \<Rightarrow> initialState (agent_prompt s node t c))"

definition node_deps :: "'p run_services \<Rightarrow> graph_node \<Rightarrow> 'p run_ctx \<Rightarrow> ('p run_ctx, run_error) loop_deps" where
  "node_deps s node c =
     agent_deps s (gn_id node) (allowed_tools (rc_spec c) (get_prop ''toolIds'' (gn_data node))) (agent_request s node c)"

definition agentNode ::
  "'p run_services \<Rightarrow> graph_node \<Rightarrow> template_ctx \<Rightarrow> 'p run_ctx \<Rightarrow> ((run_error + node_result) \<times> 'p run_ctx) option" where
  "agentNode s node t c =
     map_option (\<lambda>(r, c'). case r of Inl e \<Rightarrow> (Inl e, c') | Inr lr \<Rightarrow> agent_result (gn_id node) lr c')
       (runAgentLoop (node_deps s node c) (agent_start s node t c) c)"

section \<open>How a run progresses\<close>

abbreviation steps_of :: "'p run_ctx \<Rightarrow> nat" where "steps_of c \<equiv> ru_steps (rc_usage c)"

text \<open>A payload that went through a redactor that knows at least the given values.\<close>

definition masked :: "string list \<Rightarrow> json \<Rightarrow> bool" where
  "masked vs p \<longleftrightarrow> p = JNull \<or> (\<exists>ns ws x. p = capPayload ns (redact_value ws x 0) STEP_FIELD_CAP \<and> set vs \<subseteq> set ws)"

definition masked_step :: "string list \<Rightarrow> run_step \<Rightarrow> bool" where
  "masked_step vs r \<longleftrightarrow> masked vs (stp_input r) \<and> masked vs (stp_output r) \<and> masked vs (stp_error r)"

text \<open>
  What everything a run does keeps: the spec and the run, the values the redactor knows, and a
  step log that only grows, by masked rows numbered without a gap.  The operations of one node
  also leave the finished nodes alone.
\<close>

definition logged :: "'p run_ctx \<Rightarrow> 'p run_ctx \<Rightarrow> bool" where
  "logged c c' \<longleftrightarrow>
     rc_spec c' = rc_spec c \<and> rc_runId c' = rc_runId c \<and> set (rc_redactor c) \<subseteq> set (rc_redactor c') \<and> steps_of c \<le> steps_of c'
     \<and> (\<exists>new. rc_steps c' = rc_steps c @ new \<and> map stp_index new = [steps_of c..<steps_of c']
              \<and> (\<forall>r\<in>set new. masked_step (rc_redactor c) r))"

definition progress :: "'p run_ctx \<Rightarrow> 'p run_ctx \<Rightarrow> bool" where
  "progress c c' \<longleftrightarrow> logged c c' \<and> rs_done (rc_state c') = rs_done (rc_state c)"

lemmas progress_defs = progress_def logged_def

lemma progress_refl [simp]: "progress c c"
  by (simp add: progress_defs)

lemma masked_mono: "masked ws p \<Longrightarrow> set vs \<subseteq> set ws \<Longrightarrow> masked vs p"
  unfolding masked_def by blast

lemma upt_join: "i \<le> j \<Longrightarrow> j \<le> k \<Longrightarrow> [i..<j] @ [j..<k] = [i..<k]"
  using upt_add_eq_append [of i j "k - j"] by simp

lemma logged_trans [trans]: "logged a b \<Longrightarrow> logged b c \<Longrightarrow> logged a c"
proof -
  assume ab: "logged a b" and bc: "logged b c"
  then obtain n1 n2 where n: "rc_steps b = rc_steps a @ n1" "map stp_index n1 = [steps_of a..<steps_of b]"
      "\<forall>r\<in>set n1. masked_step (rc_redactor a) r"
      "rc_steps c = rc_steps b @ n2" "map stp_index n2 = [steps_of b..<steps_of c]" "\<forall>r\<in>set n2. masked_step (rc_redactor b) r"
    and le: "steps_of a \<le> steps_of b" "steps_of b \<le> steps_of c" "set (rc_redactor a) \<subseteq> set (rc_redactor b)"
    unfolding logged_def by blast
  have "map stp_index (n1 @ n2) = [steps_of a..<steps_of c]"
    using n le by (simp add: upt_join)
  moreover have "\<forall>r\<in>set (n1 @ n2). masked_step (rc_redactor a) r"
    using n(3,6) le(3) masked_mono unfolding masked_step_def by auto
  ultimately show ?thesis
    using ab bc n(1,4) le unfolding logged_def
    by (intro conjI exI [where x = "n1 @ n2"]) auto
qed

lemma progress_trans [trans]: "progress a b \<Longrightarrow> progress b c \<Longrightarrow> progress a c"
  using logged_trans unfolding progress_def by metis

lemma progress_frame:
  "progress c (c\<lparr>rc_env := p\<rparr>)" "progress c (c\<lparr>rc_timedOut := b\<rparr>)"
  "rs_done st = rs_done (rc_state c) \<Longrightarrow> progress c (c\<lparr>rc_state := st\<rparr>)"
  "progress c (count_tool_call c)"
  by (simp_all add: progress_defs count_tool_call_def)

lemma progress_usage: "ru_steps u = steps_of c \<Longrightarrow> progress c (c\<lparr>rc_usage := u\<rparr>)"
  by (simp add: progress_defs)

lemma masked_payload: "masked (rc_redactor c) (step_payload s c v)"
  unfolding masked_def step_payload_def by blast

lemma addStep_steps [simp]: "steps_of (addStep s ty node nm status inp out err toks c) = Suc (steps_of c)"
  by (simp add: addStep_def Let_def)

lemma addStep_spec [simp]: "rc_spec (addStep s ty node nm status inp out err toks c) = rc_spec c"
  by (simp add: addStep_def Let_def)

lemma addStep_progress: "progress c (addStep s ty node nm status inp out err toks c)"
  using masked_payload [of c s] by (auto simp: progress_defs addStep_def Let_def masked_step_def masked_def)

lemma addStep_after: "progress c c1 \<Longrightarrow> progress c (addStep s ty node nm status inp out err toks c1)"
  using progress_trans addStep_progress by blast

subsection \<open>The guard\<close>

lemma guard_now_cases:
  assumes "guard_now s c = (e, c')"
  shows "progress c c'" "steps_of c' = steps_of c" "rc_spec c' = rc_spec c"
    "e = None \<Longrightarrow> c' = c \<and> steps_of c < maxSteps (sp_limits (rc_spec c))"
  using assms by (auto simp: guard_now_def Let_def progress_frame split: if_splits)

lemma guard_status_cases:
  assumes "guard_status s c = (e, c')"
  shows "progress c c'" "steps_of c' = steps_of c" "rc_spec c' = rc_spec c"
  using assms by (auto simp: guard_status_def Let_def progress_frame split: prod.splits)

lemma guard_cases:
  assumes "guard s c = (e, c')"
  shows "progress c c'" "steps_of c' = steps_of c" "rc_spec c' = rc_spec c"
    "e = None \<Longrightarrow> steps_of c < maxSteps (sp_limits (rc_spec c))"
  using assms guard_now_cases [of s c] guard_status_cases [of s] progress_trans
  by (auto simp: guard_def split: prod.splits option.splits)

subsection \<open>Tools and approvals\<close>

lemma connection_cases:
  assumes "connection s i c = (x, c')"
  shows "progress c c'" "steps_of c' = steps_of c" "rc_spec c' = rc_spec c"
proof -
  have "set (rc_redactor c) \<subseteq> set (rc_redactor c')"
    using assms add_keeps [THEN subsetD] by (auto simp: connection_def split: option.splits prod.splits)
  with assms show "progress c c'" "steps_of c' = steps_of c" "rc_spec c' = rc_spec c"
    by (auto simp: connection_def progress_defs split: option.splits prod.splits)
qed

lemma prepare_cases:
  assumes "prepare_tool s tool c = (x, c')"
  shows "progress c c'" "steps_of c' = steps_of c" "rc_spec c' = rc_spec c"
proof -
  have count: "progress c (count_tool_call c1)" "steps_of (count_tool_call c1) = steps_of c1" "rc_spec (count_tool_call c1) = rc_spec c1"
    if "progress c c1" for c1
    using progress_trans [OF that progress_frame(4)] by (simp_all add: count_tool_call_def)
  show "progress c c'" "steps_of c' = steps_of c" "rc_spec c' = rc_spec c"
    using assms connection_cases [of s _ c] count
    by (auto simp: prepare_tool_def Let_def split: option.splits prod.splits)
qed

lemma execute_cases:
  assumes "execute_tool s tool inp conn ap c = (x, c')"
  shows "progress c c'" "steps_of c' = steps_of c" "rc_spec c' = rc_spec c"
  using assms by (auto simp: execute_tool_def Let_def progress_defs split: prod.splits sum.splits)

lemma close_cases:
  assumes "close_tool s tool node display r c = (x, c')"
  shows "progress c c'" "steps_of c' = Suc (steps_of c)" "rc_spec c' = rc_spec c"
  using assms by (auto simp: close_tool_def addStep_progress split: sum.splits)

lemma create_approval_cases:
  assumes "create_approval s node u tool inp summary c = (x, c')"
  shows "progress c c'" "steps_of c' \<le> Suc (steps_of c)" "rc_spec c' = rc_spec c"
  using assms
  by (auto simp: create_approval_def note_approval_def progress_frame intro!: addStep_after
      intro: progress_trans [OF progress_frame(1) progress_frame(3)] split: prod.splits sum.splits)

text \<open>An operation that may write one step, after a guard that checked the limit.\<close>

definition guarded_step :: "'p run_ctx \<Rightarrow> 'p run_ctx \<Rightarrow> bool" where
  "guarded_step c c' \<longleftrightarrow>
     progress c c' \<and> steps_of c' \<le> Suc (steps_of c)
     \<and> (steps_of c < steps_of c' \<longrightarrow> steps_of c < maxSteps (sp_limits (rc_spec c)))"

lemma after_guard:
  assumes "guard s c = (None, c1)" "progress c1 c'" "steps_of c' \<le> Suc (steps_of c1)"
  shows "guarded_step c c'"
  using guard_cases [OF assms(1)] progress_trans assms unfolding guarded_step_def by auto

lemma guard_fails: "guard s c = (Some e, c') \<Longrightarrow> guarded_step c c'"
  using guard_cases [of s c] by (auto simp: guarded_step_def)

lemma close_after:
  assumes "progress c1 c2" "steps_of c2 = steps_of c1" "close_tool s tool node display r c2 = (t, c')"
  shows "progress c1 c'" "steps_of c' \<le> Suc (steps_of c1)"
  using progress_trans [OF assms(1) close_cases(1) [OF assms(3)]] close_cases(2) [OF assms(3)] assms(2) by simp_all

lemma runTool_guarded:
  assumes "runTool s tool inp node display ap c = (x, c')"
  shows "guarded_step c c'"
proof -
  obtain g c1 where g: "guard s c = (g, c1)" by fastforce
  obtain r c2 where p: "prepare_tool s tool c1 = (r, c2)" by fastforce
  note pc = prepare_cases [OF p]
  show ?thesis
  proof (cases g)
    case None
    have "progress c1 c' \<and> steps_of c' \<le> Suc (steps_of c1)"
    proof (cases r)
      case (Inl err)
      obtain t c3 where t: "close_tool s tool node display (Inl err) c2 = (t, c3)" by fastforce
      with assms g p None Inl have "c3 = c'" by (simp add: runTool_def)
      with close_after [OF pc(1,2) t] show ?thesis by simp
    next
      case (Inr conn)
      obtain r3 c3 where e: "execute_tool s tool inp conn ap c2 = (r3, c3)" by fastforce
      note ec = execute_cases [OF e]
      obtain t c4 where t: "close_tool s tool node display r3 c3 = (t, c4)" by fastforce
      with assms g p None Inr e have "c4 = c'" by (simp add: runTool_def)
      with close_after [OF progress_trans [OF pc(1) ec(1)] _ t] pc(2) ec(2) show ?thesis by simp
    qed
    with g None show ?thesis by (auto intro: after_guard)
  qed (use assms g in \<open>auto simp: runTool_def intro: guard_fails\<close>)
qed

lemma requestApproval_guarded:
  assumes "requestApproval s node u tool inp c = (x, c')"
  shows "guarded_step c c'"
proof -
  obtain g c1 where g: "guard s c = (g, c1)" by fastforce
  show ?thesis
  proof (cases g)
    case None
    have "\<exists>y. create_approval s node u tool inp (approval_summary s tool inp c1) c1 = (y, c')"
      using assms g None by (auto simp: requestApproval_def split: prod.splits sum.splits)
    with g None show ?thesis by (auto intro: after_guard dest: create_approval_cases)
  qed (use assms g in \<open>auto simp: requestApproval_def intro: guard_fails\<close>)
qed

subsection \<open>Concurrent calls\<close>

abbreviation live_count :: "call_phase list \<Rightarrow> nat" where
  "live_count phs \<equiv> count_where (\<lambda>ph. \<not> is_settled ph) phs"

lemma call_prepared_cases:
  assumes "call_prepared s node tool inp c = (ph, c')"
  shows "progress c c'" "steps_of c' = (if is_settled ph then Suc (steps_of c) else steps_of c)"
proof -
  obtain r c1 where p: "prepare_tool s tool c = (r, c1)" by fastforce
  note pc = prepare_cases [OF p]
  show "progress c c'"
    using assms p pc(1) close_cases(1) [of s tool node inp _ c1] progress_trans [OF pc(1)]
    by (auto simp: call_prepared_def split: sum.splits prod.splits)
  show "steps_of c' = (if is_settled ph then Suc (steps_of c) else steps_of c)"
    using assms p pc(2) close_cases(2) [of s tool node inp _ c1]
    by (auto simp: call_prepared_def split: sum.splits prod.splits)
qed

lemma call_step_cases:
  assumes "call_step s node u ph c = (ph', c')" "\<not> is_settled ph"
  shows "progress c c' \<and> steps_of c' + (if is_settled ph' then 0 else 1) \<le> Suc (steps_of c)"
proof (cases ph)
  case (CChecking a)
  obtain g c1 where g: "guard_status s c = (g, c1)" by fastforce
  note gs = guard_status_cases [OF g]
  have "progress c1 c' \<and> steps_of c' + (if is_settled ph' then 0 else 1) \<le> Suc (steps_of c1)"
    using assms(1) CChecking g call_prepared_cases [of s node _ _ c1 ph' c']
    by (cases g; cases a) (auto simp: addStep_progress split: if_splits)
  then show ?thesis using gs progress_trans by auto
next
  case (CConnecting tool inp)
  then show ?thesis using assms(1) call_prepared_cases [of s node tool inp c ph' c'] by auto
next
  case (CRequesting tool inp summary)
  then show ?thesis
    using assms(1) create_approval_cases [of s node "Some (use_id u)" tool inp summary c] by (auto split: prod.splits sum.splits)
next
  case (CExecuting tool inp conn)
  obtain r c1 where e: "execute_tool s tool inp conn False c = (r, c1)" by fastforce
  obtain t c2 where t: "close_tool s tool node inp r c1 = (t, c2)" by fastforce
  show ?thesis
    using assms(1) CExecuting e t execute_cases [OF e] close_cases [OF t] progress_trans by auto
qed (use assms in simp)

lemma call_start_cases:
  assumes "call_start s allowed u c = (ph, c')"
  shows "progress c c'" "steps_of c' = steps_of c" "rc_spec c' = rc_spec c"
    "\<not> is_settled ph \<Longrightarrow> steps_of c < maxSteps (sp_limits (rc_spec c))"
  using assms guard_now_cases [of s c]
  by (auto simp: call_start_def enter_guard_def split: option.splits prod.splits if_splits)

lemma start_calls_cases:
  "start_calls s allowed us c = (phs, c') \<Longrightarrow>
     progress c c' \<and> steps_of c' = steps_of c \<and> length phs = length us
     \<and> (0 < live_count phs \<longrightarrow> steps_of c < maxSteps (sp_limits (rc_spec c)))"
proof (induction us arbitrary: c phs c')
  case (Cons u us)
  obtain ph c1 where a: "call_start s allowed u c = (ph, c1)" by fastforce
  obtain qs c2 where b: "start_calls s allowed us c1 = (qs, c2)" by fastforce
  from Cons.prems a b have "phs = ph # qs" "c' = c2" by auto
  then show ?case
    using Cons.IH [OF b] call_start_cases [OF a] progress_trans [of c c1 c2] by auto
qed simp

lemma live_count_update:
  assumes "i < length phs" "\<not> is_settled (phs ! i)"
  shows "live_count (phs[i := ph]) + 1 = live_count phs + (if is_settled ph then 0 else 1)"
  using assms
proof (induction phs arbitrary: i)
  case (Cons p phs)
  then show ?case by (cases i) auto
qed simp

lemma run_calls_cases:
  "run_calls s node uses phs c = (phs', c') \<Longrightarrow>
     progress c c' \<and> steps_of c' \<le> steps_of c + live_count phs \<and> length phs' = length phs"
proof (induction s node uses phs c rule: run_calls.induct)
  case (1 s node uses phs c)
  show ?case
  proof (cases "live_calls phs = []")
    case True
    with "1.prems" show ?thesis by (subst (asm) run_calls.simps) simp
  next
    case False
    obtain n p where pick: "srv_pick s (rc_env c) = (n, p)" by fastforce
    define i where "i = live_calls phs ! (n mod length (live_calls phs))"
    obtain ph c1 where st: "call_step s node (uses ! i) (phs ! i) (c\<lparr>rc_env := p\<rparr>) = (ph, c1)" by fastforce
    have i: "i < length phs" "\<not> is_settled (phs ! i)" using live_pick [OF False] by (simp_all add: i_def)
    have rest: "run_calls s node uses (phs[i := ph]) c1 = (phs', c')"
      using "1.prems" False pick st by (subst (asm) run_calls.simps) (simp add: i_def)
    have ih: "progress c1 c' \<and> steps_of c' \<le> steps_of c1 + live_count (phs[i := ph]) \<and> length phs' = length phs"
      using "1.IH" [OF False refl pick [symmetric] i_def refl st [symmetric]] rest by simp
    have one: "progress (c\<lparr>rc_env := p\<rparr>) c1" "steps_of c1 + (if is_settled ph then 0 else 1) \<le> Suc (steps_of c)"
      using call_step_cases [OF st i(2)] by simp_all
    have "progress c c'"
      using progress_trans [OF progress_trans [OF progress_frame(1) one(1)]] ih by blast
    with one(2) ih live_count_update [OF i, of ph] show ?thesis by (auto split: if_splits)
  qed
qed

lemma live_count_le: "live_count phs \<le> length phs"
  by (simp add: count_where_def)

lemma callsFromModel_cases:
  assumes "callsFromModel s node allowed uses c = (outs, c')"
  shows "progress c c'" "length outs = length uses" "steps_of c' \<le> steps_of c + length uses"
    "steps_of c < steps_of c' \<Longrightarrow> steps_of c < maxSteps (sp_limits (rc_spec c))"
proof -
  obtain phs c1 where a: "start_calls s allowed uses c = (phs, c1)" by fastforce
  obtain phs' c2 where b: "run_calls s node uses phs c1 = (phs', c2)" by fastforce
  have outs: "outs = map settled_of phs'" "c' = c2" using assms a b by (auto simp: callsFromModel_def)
  note sc = start_calls_cases [OF a] and rc = run_calls_cases [OF b]
  show "progress c c'" using sc rc outs progress_trans by blast
  show "length outs = length uses" using sc rc outs by simp
  show "steps_of c' \<le> steps_of c + length uses" using sc rc outs live_count_le [of phs] by simp
  show "steps_of c < maxSteps (sp_limits (rc_spec c))" if "steps_of c < steps_of c'"
    using sc rc outs that by (cases "live_count phs") auto
qed

text \<open>Every call of a turn settles, with an outcome of its own.\<close>

lemma run_calls_settled: "run_calls s node uses phs c = (phs', c') \<Longrightarrow> ph \<in> set phs' \<Longrightarrow> is_settled ph"
proof (induction s node uses phs c rule: run_calls.induct)
  case (1 s node uses phs c)
  show ?case
  proof (cases "live_calls phs = []")
    case True
    with "1.prems" have "phs' = phs" by (subst (asm) run_calls.simps) simp
    with True "1.prems"(2) show ?thesis
      by (auto simp: live_calls_def in_set_conv_nth filter_empty_conv)
  next
    case False
    with "1.prems" show ?thesis
      by (subst (asm) run_calls.simps) (auto simp: Let_def split: prod.splits intro: "1.IH" [OF False])
  qed
qed

subsection \<open>The loop of the agent node\<close>

lemma bill_attempts_steps: "ru_steps (fold (bill_attempt m) as u) = ru_steps u"
  by (induction as arbitrary: u) (simp_all add: bill_attempt_def Let_def)

lemma recordModel_cases:
  "progress c (recordModel s node r c)" "steps_of (recordModel s node r c) = Suc (steps_of c)"
  by (auto simp: recordModel_def Let_def bill_attempts_steps add_usage_def intro!: addStep_after progress_usage)

definition steps_left :: "'p run_ctx \<Rightarrow> nat" where
  "steps_left c = maxSteps (sp_limits (rc_spec c)) - steps_of c"

lemma steps_left_mono: "progress c c' \<Longrightarrow> steps_left c' \<le> steps_left c"
  by (auto simp: steps_left_def progress_defs)

interpretation run: loop_host "agent_deps s node allowed req" steps_left
  for s :: "'p run_services" and node allowed req
proof
  show "length (fst (ld_executeTools (agent_deps s node allowed req) uses w)) = length uses" for uses and w :: "'p run_ctx"
    using callsFromModel_cases(2) [of s node allowed uses w] by (simp add: agent_deps_def) (metis prod.collapse)
  show "0 < steps_left w' \<and> steps_left w' \<le> steps_left w"
    if "ld_beforeModelCall (agent_deps s node allowed req) w = (None, w')" for w w' :: "'p run_ctx"
    using that guard_cases [of s w None w'] steps_left_mono by (auto simp: agent_deps_def steps_left_def)
  show "steps_left (snd (ld_complete (agent_deps s node allowed req) ms w)) \<le> steps_left w" for ms and w :: "'p run_ctx"
    by (simp add: agent_deps_def steps_left_def split: prod.split)
  show "steps_left w' \<le> steps_left w - 1"
    if "ld_onModelResponse (agent_deps s node allowed req) res w = (None, w')" for res and w w' :: "'p run_ctx"
    using that recordModel_cases [where s = s and node = node and r = res and c = w] by (auto simp: agent_deps_def steps_left_def progress_defs)
  show "steps_left (snd (ld_executeTools (agent_deps s node allowed req) uses w)) \<le> steps_left w" for uses and w :: "'p run_ctx"
    using steps_left_mono [OF callsFromModel_cases(1) [of s node allowed uses w, OF prod.collapse [symmetric]]]
    by (simp add: agent_deps_def)
qed

lemma agent_deps_simps [simp]:
  "ld_numStr (agent_deps s node allowed req) = srv_numStr s"
  "ld_executeTools (agent_deps s node allowed req) = callsFromModel s node allowed"
  "ld_beforeModelCall (agent_deps s node allowed req) = guard s"
  "ld_onModelResponse (agent_deps s node allowed req) r c = (None, recordModel s node r c)"
  by (simp_all add: agent_deps_def)

lemma agentNode_returns: "\<exists>r. agentNode s node t c = Some r"
  using run.returns [of s] by (fastforce simp: agentNode_def node_deps_def)

text \<open>At most \<open>n\<close> tool calls in one answer of the model.\<close>

definition calls_within :: "'p run_services \<Rightarrow> nat \<Rightarrow> bool" where
  "calls_within s n \<longleftrightarrow>
     (\<forall>req ms p res p'. srv_complete s req ms p = (Inr res, p')
        \<longrightarrow> length (toolUsesOf (srv_numStr s) (echoable (mr_content res))) \<le> n)"

lemma agent_complete:
  "ld_complete (agent_deps s node allowed req) ms c = (x, c') \<Longrightarrow> \<exists>p. c' = c\<lparr>rc_env := p\<rparr> \<and> srv_complete s req ms (rc_env c) = (x, p)"
  by (auto simp: agent_deps_def split: prod.splits)

lemma turn_progress: "progress c (snd (turn (agent_deps s node allowed req) st c))"
proof (rule run.turn_relation [where P = "\<lambda>_. True"])
  show "progress w (snd (ld_beforeModelCall (agent_deps s node allowed req) w))" for w
    using guard_cases(1) [of s w, OF prod.collapse [symmetric]] by simp
  show "progress w (snd (ld_complete (agent_deps s node allowed req) ms w))" for ms w
    using agent_complete [OF prod.collapse [symmetric], of s node allowed req ms w] progress_frame(1) by metis
  show "progress w (snd (ld_executeTools (agent_deps s node allowed req) uses w))" for uses w
    using callsFromModel_cases(1) [of s node allowed uses w, OF prod.collapse [symmetric]] by simp
qed (use progress_trans recordModel_cases(1) in auto)

definition step_bound :: "nat \<Rightarrow> 'p run_ctx \<Rightarrow> nat" where
  "step_bound n c = maxSteps (sp_limits (rc_spec c)) + (n - 1)"

lemma after_response_steps:
  assumes "after_response (agent_deps s node allowed req) res st c = (t, c')"
    "length (toolUsesOf (srv_numStr s) (echoable (mr_content res))) \<le> n" "steps_of c \<le> maxSteps (sp_limits (rc_spec c))"
  shows "steps_of c' \<le> step_bound n c"
proof -
  have "steps_of d' \<le> step_bound n c"
    if "callsFromModel s node allowed uses c = (outs, d')" "length uses \<le> n" for uses outs d'
    using callsFromModel_cases(3,4) [OF that(1)] that(2) assms(3)
    by (cases "steps_of c < steps_of d'") (auto simp: step_bound_def)
  then show ?thesis
    using assms by (auto simp: after_response_def tool_turn_def step_bound_def Let_def split: if_splits prod.splits)
qed

lemma turn_steps:
  assumes "calls_within s n" "turn (agent_deps s node allowed req) st c = (t, c')" "steps_of c \<le> step_bound n c"
  shows "steps_of c' \<le> step_bound n c"
proof -
  let ?d = "agent_deps s node allowed req"
  obtain e c1 where b: "guard s c = (e, c1)" by fastforce
  obtain x c2 where m: "ld_complete ?d (ls_messages st) c1 = (x, c2)" by fastforce
  obtain p where p: "c2 = c1\<lparr>rc_env := p\<rparr>" "srv_complete s req (ls_messages st) (rc_env c1) = (x, p)"
    using agent_complete [OF m] by blast
  note g = guard_cases [OF b]
  have few: "length (toolUsesOf (srv_numStr s) (echoable (mr_content res))) \<le> n" if "x = Inr res" for res
    using assms(1) p(2) that unfolding calls_within_def by blast
  show ?thesis
  proof (cases e)
    case None
    show ?thesis
    proof (cases x)
      case (Inr res)
      have sp: "rc_spec (recordModel s node res c2) = rc_spec c"
        using recordModel_cases(1) [where c = c2 and s = s and node = node and r = res] g(3) p by (simp add: progress_defs)
      have "after_response ?d res st (recordModel s node res c2) = (t, c')"
        using assms(2) b m None Inr by (simp add: turn_def)
      then have "steps_of c' \<le> step_bound n (recordModel s node res c2)"
        by (rule after_response_steps)
           (use few Inr g sp p None recordModel_cases(2) [of s node res c2] in auto)
      then show ?thesis using sp by (simp add: step_bound_def)
    qed (use None assms b m p g in \<open>auto simp: turn_def\<close>)
  qed (use b assms g in \<open>simp add: turn_def\<close>)
qed

lemma agentNode_loop:
  assumes "agentNode s node t c = Some (r, c')"
  obtains lr c1 where "runAgentLoop (node_deps s node c) (agent_start s node t c) c = Some (lr, c1)"
    "\<exists>rs. c' = c1\<lparr>rc_state := rs\<rparr> \<and> rs_done rs = rs_done (rc_state c1)"
proof -
  obtain lr c1 where l: "runAgentLoop (node_deps s node c) (agent_start s node t c) c = Some (lr, c1)"
    "(case lr of Inl e \<Rightarrow> (Inl e, c1) | Inr lr \<Rightarrow> agent_result (gn_id node) lr c1) = (r, c')"
    using assms by (auto simp: agentNode_def)
  have "\<exists>rs. c' = c1\<lparr>rc_state := rs\<rparr> \<and> rs_done rs = rs_done (rc_state c1)"
  proof (cases lr)
    case (Inl e)
    then have "c' = c1\<lparr>rc_state := rc_state c1\<rparr>" using l(2) by simp
    then show ?thesis by blast
  qed (use l(2) in \<open>auto simp: agent_result_def keep_agent_state_def split: loop_result.splits\<close>)
  with l(1) that show thesis by blast
qed

lemma agentNode_progress:
  assumes "agentNode s node t c = Some (r, c')"
  shows "progress c c'"
proof -
  obtain lr c1 where l: "runAgentLoop (node_deps s node c) (agent_start s node t c) c = Some (lr, c1)"
    "\<exists>rs. c' = c1\<lparr>rc_state := rs\<rparr> \<and> rs_done rs = rs_done (rc_state c1)" using agentNode_loop [OF assms] .
  have "progress c c1"
    using run.loop_turns [where R = progress, OF progress_refl progress_trans turn_progress l(1) [unfolded node_deps_def]] .
  with l(2) progress_trans progress_frame(3) show ?thesis by blast
qed

lemma agentNode_steps:
  assumes "calls_within s n" "agentNode s node t c = Some (r, c')" "steps_of c \<le> step_bound n c"
  shows "steps_of c' \<le> step_bound n c"
proof -
  obtain lr c1 where l: "runAgentLoop (node_deps s node c) (agent_start s node t c) c = Some (lr, c1)"
    "\<exists>rs. c' = c1\<lparr>rc_state := rs\<rparr> \<and> rs_done rs = rs_done (rc_state c1)" using agentNode_loop [OF assms(2)] .
  define R where "R = (\<lambda>(a :: 'a run_ctx) (b :: 'a run_ctx). rc_spec b = rc_spec a \<and> (steps_of a \<le> step_bound n a \<longrightarrow> steps_of b \<le> step_bound n a))"
  have bound: "step_bound n b = step_bound n a" if "rc_spec b = rc_spec a" for a b :: "'a run_ctx"
    using that by (simp add: step_bound_def)
  have "R c c1"
  proof (rule run.loop_turns [OF _ _ _ l(1) [unfolded node_deps_def]])
    show "R u w" if "R u v" "R v w" for u v w
      using that bound [of v u] by (auto simp: R_def)
    show "R w (snd (turn (agent_deps s nd al rq) st w))" for st w nd al rq
      using turn_steps [OF assms(1) prod.collapse [symmetric]] turn_progress [of w s nd al rq st]
      by (simp add: R_def progress_defs)
  qed (simp add: R_def)
  with assms(3) l(2) show ?thesis by (auto simp: R_def)
qed

section \<open>Limits, masks and bills\<close>

lemma limit_value_bounds:
  assumes "1 \<le> lo" "lo \<le> dflt" "dflt \<le> hi"
  shows "lo \<le> limit_value ns r k (of_nat lo, of_nat hi) dflt" "limit_value ns r k (of_nat lo, of_nat hi) dflt \<le> hi"
proof -
  have "int lo \<le> js_round (min (max v (of_nat lo)) (of_nat hi))" "js_round (min (max v (of_nat lo)) (of_nat hi)) \<le> int hi" for v :: rat
    using assms by (auto intro!: js_round_ge_int js_round_le_int)
  then show "lo \<le> limit_value ns r k (of_nat lo, of_nat hi) dflt" "limit_value ns r k (of_nat lo, of_nat hi) dflt \<le> hi"
    using assms by (auto simp: limit_value_def nat_le_iff split: option.splits) (metis nat_int nat_mono)
qed

lemma normalizeLimits_bounds:
  "maxSteps (normalizeLimits ns raw) \<in> {1..200}"
  "maxTokensPerRun (normalizeLimits ns raw) \<in> {1000..2000000}"
  "timeoutSeconds (normalizeLimits ns raw) \<in> {5..900}"
  using limit_value_bounds [of 1 25 200] limit_value_bounds [of 1000 200000 2000000] limit_value_bounds [of 5 120 900]
  by (simp_all add: normalizeLimits_def DEFAULT_LIMITS_def Let_def)

definition cut_short :: "json \<Rightarrow> bool" where
  "cut_short p \<longleftrightarrow> (\<exists>n pre. p = JObj [(''truncated'', JBool True), (''originalBytes'', n), (''preview'', JStr pre)])"

lemma masked_hides:
  assumes "masked vs p" "v \<in> set vs" "plain_value v" "w \<in> texts_within 41 p" "\<not> cut_short p"
  shows "\<not> str_includes w v"
proof (cases "p = JNull")
  case True
  then show ?thesis using assms(4) by (simp add: numeral_eq_Suc)
next
  case False
  then obtain ns ws x where p: "p = capPayload ns (redact_value ws x 0) STEP_FIELD_CAP" "set vs \<subseteq> set ws"
    using assms(1) unfolding masked_def by blast
  then have "p = redact_value ws x 0"
    using False assms(5) by (auto simp: capPayload_def cut_short_def Let_def split: if_splits)
  then show ?thesis
    using redact_value_removes [of v ws 41 0 w x] assms(2-4) p(2) by auto
qed

definition billed :: "token_kind \<Rightarrow> tokens_by_model \<Rightarrow> int" where
  "billed k ms = sum_by (\<lambda>m. snd m k) ms"

lemma billed_addTokens: "billed k (addTokens ms m x) = billed k ms + x k"
  by (induction ms m x rule: addTokens.induct) (simp_all add: billed_def emptyTokens_def)

text \<open>What is billed, over all models, is what the counters of the run say was used.\<close>

definition balanced :: "run_usage \<Rightarrow> bool" where
  "balanced u \<longleftrightarrow>
     billed TkInput (ru_models u) = ru_inputTokens u \<and> billed TkOutput (ru_models u) = ru_outputTokens u
     \<and> billed TkCacheRead (ru_models u) = ru_cacheReadTokens u
     \<and> billed TkCacheWrite (ru_models u) + billed TkCacheWrite1h (ru_models u) = ru_cacheWriteTokens u"

text \<open>The usage of a response is the sum of its attempts, where it lists them.\<close>

definition attempts_sum :: "model_response \<Rightarrow> bool" where
  "attempts_sum r \<longleftrightarrow>
     (case mr_attempts r of
        None \<Rightarrow> True
      | Some as \<Rightarrow> list_all (\<lambda>f. sum_by (\<lambda>a. f (snd a)) as = f (mr_usage r)) [tu_input, tu_output, tu_cacheRead, tu_cacheWrite])"

lemma bill_attempts:
  "billed k (ru_models (fold (bill_attempt m) as u)) = billed k (ru_models u) + sum_by (\<lambda>a. billed_tokens (snd a) k) as"
  by (induction as arbitrary: u) (simp_all add: bill_attempt_def Let_def billed_addTokens)

lemma bill_attempts_keep:
  "ru_inputTokens (fold (bill_attempt m) as u) = ru_inputTokens u"
  "ru_outputTokens (fold (bill_attempt m) as u) = ru_outputTokens u"
  "ru_cacheReadTokens (fold (bill_attempt m) as u) = ru_cacheReadTokens u"
  "ru_cacheWriteTokens (fold (bill_attempt m) as u) = ru_cacheWriteTokens u"
  by (induction as arbitrary: u) (simp_all add: bill_attempt_def Let_def)

lemma attempts_write: "sum_by (\<lambda>a. billed_tokens (snd a) TkCacheWrite) as + sum_by (\<lambda>a. billed_tokens (snd a) TkCacheWrite1h) as
    = sum_by (\<lambda>a. tu_cacheWrite (snd a)) as"
  by (induction as) (simp_all add: billed_tokens_def)

lemma attempts_sum_of:
  assumes "attempts_sum r" "f \<in> {tu_input, tu_output, tu_cacheRead, tu_cacheWrite}"
  shows "sum_by (\<lambda>a. f (snd a)) (attempts_of m r) = f (mr_usage r)"
  using assms by (auto simp: attempts_sum_def attempts_of_def split: option.splits)

lemma recordModel_balanced:
  assumes "attempts_sum r" "balanced (rc_usage c)"
  shows "balanced (rc_usage (recordModel s node r c))"
proof -
  let ?m = "sp_model (rc_spec c)" and ?as = "attempts_of (sp_model (rc_spec c)) r"
  have usage: "balanced (rc_usage (recordModel s node r c)) \<longleftrightarrow>
      balanced (fold (bill_attempt ?m) ?as (add_usage (mr_usage r) (rc_usage c)))"
    by (simp add: recordModel_def addStep_def Let_def balanced_def)
  have kinds: "billed_tokens u TkInput = tu_input u" "billed_tokens u TkOutput = tu_output u"
    "billed_tokens u TkCacheRead = tu_cacheRead u" for u
    by (simp_all add: billed_tokens_def)
  show ?thesis
    unfolding usage using assms(2) attempts_sum_of [OF assms(1), of _ ?m] attempts_write [of ?as]
    by (simp add: balanced_def bill_attempts bill_attempts_keep kinds add_usage_def)
qed

end
