(* ===== verification/Agent_Walk.thy ===== *)
theory Agent_Walk
  imports Agent_Run
begin

text \<open>
  The nodes of a workflow and the walk over them
  (\<^verbatim>\<open>src/apps/api/src/modules/connect/runtime/run.service.ts\<close>): trigger, condition, tool, action,
  transform and end nodes beside the agent node of \<open>Agent_Run\<close>, and the walk in topological order
  that activates the edges of a finished node and skips what a checkpoint already holds.

  A node executor returns an error that was thrown or a \<open>node_result\<close>; the agent node may not
  return, hence the option.  \<open>done_entry\<close> reads a property of a plain object, so it also finds what
  every object inherits.
\<close>

section \<open>The context of a run\<close>

text \<open>The variables of the agent, with their values opened: key, value, and whether it is a secret.\<close>

type_synonym opened_variable = "string \<times> string \<times> bool"

definition secret_values :: "opened_variable list \<Rightarrow> string list" where
  "secret_values vars = map (fst \<circ> snd) (filter (snd \<circ> snd) vars)"

definition run_context ::
  "'p run_services \<Rightarrow> id \<Rightarrow> agent_spec \<Rightarrow> run_state \<Rightarrow> run_usage \<Rightarrow> opened_variable list \<Rightarrow> 'p \<Rightarrow> 'p run_ctx" where
  "run_context s i spec st u vars p =
     \<lparr>rc_runId = i, rc_spec = spec, rc_state = st,
      rc_redactor = fold (\<lambda>v. add [Some v]) (secret_values vars) [],
      rc_vars = map (\<lambda>v. (fst v, fst (snd v))) (filter (\<lambda>v. \<not> snd (snd v)) vars),
      rc_secrets = map (\<lambda>v. (fst v, fst (snd v))) (filter (snd \<circ> snd) vars),
      rc_connections = [], rc_usage = u,
      rc_deadline = srv_now s p + int (timeoutSeconds (sp_limits spec)) * 1000,
      rc_timedOut = False, rc_segmentStart = srv_now s p, rc_steps = [], rc_env = p\<rparr>"

lemma redactor_keeps: "set ws \<subseteq> set (fold (\<lambda>v. add [Some v]) vs ws)"
proof (induction vs arbitrary: ws)
  case (Cons x vs)
  have "set ws \<subseteq> set (add [Some x] ws)" by (rule add_keeps)
  also have "\<dots> \<subseteq> set (fold (\<lambda>v. add [Some v]) vs (add [Some x] ws))" by (rule Cons.IH)
  finally show ?case by simp
qed simp

lemma redactor_knows: "v \<in> set vs \<Longrightarrow> 4 \<le> length v \<Longrightarrow> v \<in> set (fold (\<lambda>v. add [Some v]) vs ws)"
proof (induction vs arbitrary: ws)
  case (Cons x vs)
  show ?case
  proof (cases "v = x")
    case True
    then have "v \<in> set (add [Some x] ws)" using add_known [of v "[Some x]" ws] Cons.prems(2) by simp
    then show ?thesis using redactor_keeps [of "add [Some x] ws" vs] by auto
  next
    case False
    then have "v \<in> set vs" using Cons.prems(1) by simp
    from Cons.IH [OF this Cons.prems(2)] show ?thesis by simp
  qed
qed simp

section \<open>Templates over the run\<close>

definition trigger_json :: "trigger_data \<Rightarrow> json" where
  "trigger_json tr =
     JObj ([(''source'', JStr (tr_source tr)), (''body'', tr_body tr)]
           @ (case tr_message tr of None \<Rightarrow> [] | Some m \<Rightarrow> [(''message'', JStr m)])
           @ (if tr_headers tr = JUndef then [] else [(''headers'', tr_headers tr)]))"

definition templateCtx :: "'p run_ctx \<Rightarrow> template_ctx" where
  "templateCtx c =
     \<lparr>tc_trigger = trigger_json (rs_trigger (rc_state c)), tc_input = JUndef,
      tc_steps = JObj (map (\<lambda>(i, res). (i, JObj [(''output'', fst res)])) (rs_done (rc_state c))),
      tc_vars = rc_vars c, tc_secrets = rc_secrets c\<rparr>"

definition set_step :: "string \<Rightarrow> json \<Rightarrow> template_ctx \<Rightarrow> template_ctx" where
  "set_step i out t =
     (case tc_steps t of
        JObj fs \<Rightarrow> t\<lparr>tc_steps := JObj (AList.update i (JObj [(''output'', out)]) fs)\<rparr>
      | _ \<Rightarrow> t)"

definition thrown_message :: "error \<Rightarrow> string" where
  "thrown_message e = (case e of JsError m \<Rightarrow> m | ApiError _ code \<Rightarrow> code)"

definition of_error :: "error \<Rightarrow> run_error" where
  "of_error e = (case e of JsError m \<Rightarrow> OtherError None m | ApiError _ code \<Rightarrow> OtherError (Some code) code)"

section \<open>Nodes\<close>

text \<open>A node that passes the guard, writes its step and has its output.\<close>

definition plain_node ::
  "'p run_services \<Rightarrow> graph_node \<Rightarrow> string \<Rightarrow> json \<Rightarrow> 'p run_ctx \<Rightarrow> (run_error + node_result) \<times> 'p run_ctx" where
  "plain_node s node nm out c =
     (case guard s c of
        (Some e, c1) \<Rightarrow> (Inl e, c1)
      | (None, c1) \<Rightarrow> (Inr (NOut out None), addStep s StNode (Some (gn_id node)) nm ''succeeded'' JUndef out JUndef JUndef c1))"

definition triggerNode :: "'p run_services \<Rightarrow> graph_node \<Rightarrow> 'p run_ctx \<Rightarrow> (run_error + node_result) \<times> 'p run_ctx" where
  "triggerNode s node c =
     (let tr = rs_trigger (rc_state c)
      in plain_node s node (''Trigger ('' @ tr_source tr @ '')'') (trigger_json tr) c)"

definition simpleNode ::
  "'p run_services \<Rightarrow> graph_node \<Rightarrow> json result \<Rightarrow> 'p run_ctx \<Rightarrow> (run_error + node_result) \<times> 'p run_ctx" where
  "simpleNode s node out c =
     (case out of
        Inl e \<Rightarrow> (Inl (of_error e), c)
      | Inr v \<Rightarrow> plain_node s node (if gn_type node = ''end'' then ''End'' else ''Transform '' @ gn_id node) v c)"

definition condition_text :: "'p run_services \<Rightarrow> graph_node \<Rightarrow> string" where
  "condition_text s node =
     (let e = get_prop ''expression'' (gn_data node)
      in if e = JUndef \<or> e = JNull then [] else js_String (srv_numStr s) e)"

definition conditionNode ::
  "'p run_services \<Rightarrow> graph_node \<Rightarrow> template_ctx \<Rightarrow> 'p run_ctx \<Rightarrow> (run_error + node_result) \<times> 'p run_ctx" where
  "conditionNode s node t c =
     (case guard s c of
        (Some e, c1) \<Rightarrow> (Inl e, c1)
      | (None, c1) \<Rightarrow>
          (let expr = condition_text s node;
               step = (\<lambda>status out err. addStep s StCondition (Some (gn_id node)) (''Condition '' @ gn_id node) status
                         (JObj [(''expression'', JStr expr)]) out err JUndef c1)
           in case evaluate (srv_numStr s) expr t of
                Inl e \<Rightarrow> (Inl (RunFailure ''invalid_condition'' (''Condition '' @ gn_id node @ '': '' @ thrown_message e) JUndef),
                          step ''failed'' JUndef (JObj [(''message'', JStr (thrown_message e))]))
              | Inr b \<Rightarrow> (Inr (NOut (JObj [(''result'', JBool b)]) (Some b)),
                          step ''succeeded'' (JObj [(''result'', JBool b)]) JUndef)))"

text \<open>Asking or running, the common end of a tool node and an action node.\<close>

definition finish_call ::
  "'p run_services \<Rightarrow> string \<Rightarrow> string \<Rightarrow> string \<Rightarrow> tool_spec \<Rightarrow> json \<Rightarrow> json \<Rightarrow> 'p run_ctx \<Rightarrow> (run_error + node_result) \<times> 'p run_ctx" where
  "finish_call s code label node tool inp display c =
     (if needs_approval s tool inp then
        (case requestApproval s node None tool display c of
           (Inl e, c1) \<Rightarrow> (Inl e, c1)
         | (Inr _, c1) \<Rightarrow> (Inr NWaiting, c1))
      else
        (case runTool s tool inp node display False c of
           (Inl e, c1) \<Rightarrow> (Inl e, c1)
         | (Inr (ToolFailed _ err), c1) \<Rightarrow> (Inl (RunFailure code (label @ '': '' @ err) JUndef), c1)
         | (Inr (ToolOk out _), c1) \<Rightarrow> (Inr (NOut out None), c1)))"

definition tool_input :: "graph_node \<Rightarrow> json" where
  "tool_input node = (let i = get_prop ''input'' (gn_data node) in if i = JUndef \<or> i = JNull then JObj [] else i)"

definition refuse_tool_input ::
  "'p run_services \<Rightarrow> graph_node \<Rightarrow> tool_spec \<Rightarrow> json \<Rightarrow> string \<Rightarrow> 'p run_ctx \<Rightarrow> (run_error + node_result) \<times> 'p run_ctx" where
  "refuse_tool_input s node tool display problems c =
     (case guard s c of
        (Some e, c1) \<Rightarrow> (Inl e, c1)
      | (None, c1) \<Rightarrow>
          (Inl (RunFailure ''invalid_tool_input'' (''Node '' @ gn_id node @ '': '' @ problems) JUndef),
           addStep s StTool (Some (gn_id node)) (tls_name tool) ''failed'' display JUndef
             (JObj [(''code'', JStr ''invalid_input''), (''message'', JStr problems)]) JUndef c1))"

definition toolNode ::
  "'p run_services \<Rightarrow> graph_node \<Rightarrow> template_ctx \<Rightarrow> 'p run_ctx \<Rightarrow> (run_error + node_result) \<times> 'p run_ctx" where
  "toolNode s node t c =
     (case List.find (\<lambda>x. JStr (tls_id x) = get_prop ''toolId'' (gn_data node)) (sp_tools (rc_spec c)) of
        None \<Rightarrow> (Inl (RunFailure ''tool_missing'' (''Node '' @ gn_id node @ '' uses a tool that no longer exists'') JUndef), c)
      | Some tool \<Rightarrow>
          if \<not> tls_enabled tool
          then (Inl (RunFailure ''tool_disabled'' (''Node '' @ gn_id node @ '' uses the disabled tool '' @ tls_name tool) JUndef), c)
          else
            (case (render (srv_numStr s) (tool_input node) t ToolMode 0, render (srv_numStr s) (tool_input node) t PromptMode 0) of
               (Inl e, _) \<Rightarrow> (Inl (of_error e), c)
             | (Inr _, Inl e) \<Rightarrow> (Inl (of_error e), c)
             | (Inr inp, Inr display) \<Rightarrow>
                 (case srv_schemaErrors s (srv_inputSchemaOf s tool) inp of
                    Some problems \<Rightarrow> refuse_tool_input s node tool display problems c
                  | None \<Rightarrow> finish_call s ''tool_failed'' (tls_name tool) (gn_id node) tool inp display c)))"

definition actionTool ::
  "'p run_services \<Rightarrow> graph_node \<Rightarrow> template_ctx \<Rightarrow> render_mode \<Rightarrow> (tool_spec \<times> json) result" where
  "actionTool s node t mode =
     (let k = get_prop ''kind'' (gn_data node);
          kind = (if k = JUndef \<or> k = JNull then [] else js_String (srv_numStr s) k);
          raw = (let r = get_prop ''config'' (gn_data node) in if isObj r then r else JObj [])
      in and_then (render (srv_numStr s) raw t mode 0) (\<lambda>config.
           let conn = prop_of ''connectionId'' config; inp = prop_of ''input'' config
           in Inr (\<lparr>tls_id = ''action:'' @ gn_id node, tls_name = gn_id node, tls_kind = kind,
                    tls_connectionId = (if is_text conn then Some (text_of conn) else None), tls_enabled = True,
                    tls_requiresApproval = js_truthy (prop_of ''requiresApproval'' config), tls_config = config,
                    tls_inputSchema = JObj [(''type'', JStr ''object'')]\<rparr>,
                   if isObj inp then inp else config)))"

definition check_owned ::
  "'p run_services \<Rightarrow> graph_node \<Rightarrow> tool_spec \<Rightarrow> 'p run_ctx \<Rightarrow> run_error option \<times> 'p run_ctx" where
  "check_owned s node tool c =
     (case connection_id tool of
        None \<Rightarrow> (None, c)
      | Some i \<Rightarrow>
          let (owned, p) = srv_ownsConnection s (sp_teamId (rc_spec c)) i (rc_env c)
          in (if owned then None
              else Some (RunFailure ''connection_missing'' (''Action '' @ gn_id node @ '' uses a connection that does not exist'') JUndef),
              c\<lparr>rc_env := p\<rparr>))"

definition actionNode ::
  "'p run_services \<Rightarrow> graph_node \<Rightarrow> template_ctx \<Rightarrow> 'p run_ctx \<Rightarrow> (run_error + node_result) \<times> 'p run_ctx" where
  "actionNode s node t c =
     (case (actionTool s node t ToolMode, actionTool s node t PromptMode) of
        (Inl e, _) \<Rightarrow> (Inl (of_error e), c)
      | (Inr _, Inl e) \<Rightarrow> (Inl (of_error e), c)
      | (Inr (tool, inp), Inr (_, display)) \<Rightarrow>
          if srv_executor s (tls_kind tool) = None
          then (Inl (RunFailure ''invalid_workflow'' (''Action '' @ gn_id node @ '' has an unknown kind '' @ tls_kind tool) JUndef), c)
          else
            (case check_owned s node tool c of
               (Some e, c1) \<Rightarrow> (Inl e, c1)
             | (None, c1) \<Rightarrow> finish_call s ''action_failed'' (gn_id node) (gn_id node) tool inp display c1))"

definition exec_node ::
  "'p run_services \<Rightarrow> graph_node \<Rightarrow> template_ctx \<Rightarrow> json \<Rightarrow> 'p run_ctx \<Rightarrow> ((run_error + node_result) \<times> 'p run_ctx) option" where
  "exec_node s node t lst c =
     (let ty = gn_type node; ns = srv_numStr s; outp = get_prop ''output'' (gn_data node) in
      if ty = ''trigger'' then Some (triggerNode s node c)
      else if ty = ''agent'' then agentNode s node t c
      else if ty = ''tool'' then Some (toolNode s node t c)
      else if ty = ''condition'' then Some (conditionNode s node t c)
      else if ty = ''action'' then Some (actionNode s node t c)
      else if ty = ''transform'' then Some (simpleNode s node (render ns (get_prop ''template'' (gn_data node)) t PromptMode 0) c)
      else if ty = ''end'' then Some (simpleNode s node (if outp \<noteq> JUndef then render ns outp t PromptMode 0 else Inr lst) c)
      else Some (Inl (RunFailure ''invalid_workflow'' (''Unknown node type '' @ ty) JUndef), c))"

section \<open>The walk\<close>

datatype walk_result = WWaiting | WOut json

text \<open>
  \<open>ctx.state.done[id]\<close> on a plain object: an own property, or a member every object inherits, which
  has neither an output nor a branch.
\<close>

definition done_entry :: "string \<Rightarrow> run_state \<Rightarrow> (json \<times> bool option) option" where
  "done_entry i st =
     (case map_of (rs_done st) i of
        Some res \<Rightarrow> Some res
      | None \<Rightarrow> if i \<in> set INHERITED then Some (JUndef, None) else None)"

definition finish_node :: "'p run_services \<Rightarrow> string \<Rightarrow> json \<times> bool option \<Rightarrow> 'p run_ctx \<Rightarrow> 'p run_ctx" where
  "finish_node s i res c =
     (let st = (rc_state c)\<lparr>rs_done := AList.update i res (rs_done (rc_state c)),
                             rs_agent := AList.delete i (rs_agent (rc_state c))\<rparr>
      in c\<lparr>rc_state := st, rc_env := srv_checkpoint s (rc_runId c) st (rc_usage c) (rc_env c)\<rparr>)"

text \<open>One active node: \<open>Inr None\<close> when it waits, \<open>Inr (Some res)\<close> with its result.\<close>

definition visit ::
  "'p run_services \<Rightarrow> graph_node \<Rightarrow> template_ctx \<Rightarrow> json \<Rightarrow> 'p run_ctx
   \<Rightarrow> ((run_error + (json \<times> bool option) option) \<times> 'p run_ctx) option" where
  "visit s node t lst c =
     (case done_entry (gn_id node) (rc_state c) of
        Some res \<Rightarrow> Some (Inr (Some res), c)
      | None \<Rightarrow>
          map_option (\<lambda>(r, c1).
            case r of
              Inl e \<Rightarrow> (Inl e, c1)
            | Inr NWaiting \<Rightarrow> (Inr None, c1)
            | Inr (NOut out br) \<Rightarrow>
                (let res = (redact_value (rc_redactor c1) out 0, br)
                 in (Inr (Some res), finish_node s (gn_id node) res c1)))
            (exec_node s node t lst c))"

definition branch_text :: "bool option \<Rightarrow> string" where
  "branch_text br = (case br of None \<Rightarrow> ''undefined'' | Some True \<Rightarrow> ''true'' | Some False \<Rightarrow> ''false'')"

definition edge_taken :: "graph_node \<Rightarrow> bool option \<Rightarrow> graph_edge \<Rightarrow> bool" where
  "edge_taken node br e \<longleftrightarrow>
     ge_source e = gn_id node \<and> (gn_type node = ''condition'' \<longrightarrow> ge_sourceHandle e = Some (branch_text br))"

definition activate_edges :: "graph_edge list \<Rightarrow> graph_node \<Rightarrow> bool option \<Rightarrow> string list \<Rightarrow> string list" where
  "activate_edges es node br active = active @ map ge_target (filter (edge_taken node br) es)"

definition node_by_id :: "graph \<Rightarrow> string \<Rightarrow> graph_node option" where
  "node_by_id g i = map_of (rev (map (\<lambda>n. (gn_id n, n)) (g_nodes g))) i"

fun walk_nodes ::
  "'p run_services \<Rightarrow> graph \<Rightarrow> string list \<Rightarrow> string list \<Rightarrow> template_ctx \<Rightarrow> json \<Rightarrow> 'p run_ctx
   \<Rightarrow> ((run_error + walk_result) \<times> 'p run_ctx) option" where
  "walk_nodes s g [] active t lst c = Some (Inr (WOut lst), c)"
| "walk_nodes s g (i # rest) active t lst c =
     (if i \<notin> set active then walk_nodes s g rest active t lst c
      else case node_by_id g i of
        None \<Rightarrow> Some (Inl (OtherError None ''TypeError''), c)
      | Some node \<Rightarrow>
          (case visit s node t lst c of
             None \<Rightarrow> None
           | Some (Inl e, c1) \<Rightarrow> Some (Inl e, c1)
           | Some (Inr None, c1) \<Rightarrow> Some (Inr WWaiting, c1)
           | Some (Inr (Some (out, br)), c1) \<Rightarrow>
               if gn_type node = ''end'' then Some (Inr (WOut out), c1)
               else walk_nodes s g rest (activate_edges (g_edges g) node br active) (set_step i out t) out c1))"

definition graph_of :: "agent_spec \<Rightarrow> graph" where
  "graph_of spec = (case sp_workflow spec of None \<Rightarrow> implicitGraph | Some g \<Rightarrow> g)"

definition walk_run :: "'p run_services \<Rightarrow> 'p run_ctx \<Rightarrow> ((run_error + walk_result) \<times> 'p run_ctx) option" where
  "walk_run s c =
     (let g = graph_of (rc_spec c)
      in case topoOrder g of
           None \<Rightarrow> Some (Inl (RunFailure ''invalid_workflow'' ''The workflow has a cycle'' JUndef), c)
         | Some order \<Rightarrow>
             (case List.find (\<lambda>n. gn_type n = ''trigger'') (g_nodes g) of
                None \<Rightarrow> Some (Inl (RunFailure ''invalid_workflow'' ''The workflow has no trigger'' JUndef), c)
              | Some tr \<Rightarrow> walk_nodes s g order [gn_id tr] (templateCtx c) JNull c))"

section \<open>The walk ends\<close>

lemma exec_node_returns: "\<exists>r. exec_node s node t lst c = Some r"
  using agentNode_returns [of s node t c] by (simp add: exec_node_def Let_def)

lemma visit_returns: "\<exists>r. visit s node t lst c = Some r"
  using exec_node_returns [of s node t lst c] by (auto simp: visit_def split: option.split)

lemma walk_nodes_returns: "\<exists>r. walk_nodes s g order active t lst c = Some r"
proof (induction order arbitrary: active t lst c)
  case (Cons i rest)
  show ?case
  proof (cases "i \<in> set active")
    case True
    show ?thesis
    proof (cases "node_by_id g i")
      case (Some node)
      obtain x c1 where v: "visit s node t lst c = Some (x, c1)"
        using visit_returns [of s node t lst c] by auto
      show ?thesis using True Some v Cons.IH by (auto split: sum.split option.split)
    qed (use True in simp)
  qed (use Cons.IH in simp)
qed simp

lemma walk_run_returns: "\<exists>r. walk_run s c = Some r"
  using walk_nodes_returns by (auto simp: walk_run_def Let_def split: option.split)

section \<open>What the walk keeps\<close>

text \<open>A node either writes at most one step behind a guard, or is an agent node.\<close>

lemma plain_node_guarded: "guarded_step c (snd (plain_node s node nm out c))"
  using guard_fails after_guard addStep_progress
  by (fastforce simp: plain_node_def split: prod.split option.split)

lemma guarded_refl [simp]: "guarded_step c c"
  by (simp add: guarded_step_def)

lemma conditionNode_guarded: "guarded_step c (snd (conditionNode s node t c))"
proof -
  obtain g c1 where g: "guard s c = (g, c1)" by fastforce
  show ?thesis
  proof (cases g)
    case None
    show ?thesis
      by (rule after_guard [OF g [unfolded None]])
         (auto simp: conditionNode_def g None Let_def addStep_progress split: sum.split)
  qed (use g guard_fails in \<open>auto simp: conditionNode_def\<close>)
qed

lemma finish_call_guarded: "guarded_step c (snd (finish_call s code label node tool inp display c))"
  using requestApproval_guarded [of s node None tool display c] runTool_guarded [of s tool inp node display False c]
  by (auto simp: finish_call_def split: prod.split sum.split tool_run.split)

lemma refuse_guarded: "guarded_step c (snd (refuse_tool_input s node tool display problems c))"
  using guard_fails after_guard addStep_progress
  by (fastforce simp: refuse_tool_input_def split: prod.split option.split)

lemma toolNode_guarded: "guarded_step c (snd (toolNode s node t c))"
  using finish_call_guarded refuse_guarded by (auto simp: toolNode_def split: option.split sum.split)

lemma guarded_after:
  assumes "progress c c1" "steps_of c1 = steps_of c" "guarded_step c1 c'"
  shows "guarded_step c c'"
  using assms progress_trans [OF assms(1)] by (auto simp: guarded_step_def progress_def logged_def)

lemma check_owned_cases:
  assumes "check_owned s node tool c = (e, c1)"
  shows "progress c c1" "steps_of c1 = steps_of c"
  using assms by (auto simp: check_owned_def progress_frame split: option.splits prod.splits)

lemma actionNode_guarded: "guarded_step c (snd (actionNode s node t c))"
proof -
  have "guarded_step c c1" if "check_owned s node tool c = (Some e, c1)" for e tool c1
    using guarded_after [OF check_owned_cases [OF that] guarded_refl] .
  moreover have "guarded_step c (snd (finish_call s code label nd tool inp display c1))"
    if "check_owned s node tool c = (None, c1)" for code label nd tool inp display c1
    using guarded_after [OF check_owned_cases [OF that] finish_call_guarded] .
  ultimately show ?thesis
    by (auto simp: actionNode_def split: sum.split prod.split option.split)
qed

lemma simpleNode_guarded: "guarded_step c (snd (simpleNode s node out c))"
  using plain_node_guarded by (auto simp: simpleNode_def split: sum.split)

lemma exec_node_cases:
  assumes "exec_node s node t lst c = Some (r, c')"
  shows "agentNode s node t c = Some (r, c') \<or> guarded_step c c'"
proof -
  have other: "guarded_step c c'" if "Some x = Some (r, c')" "guarded_step c (snd x)" for x
    using that by simp
  have trig: "guarded_step c (snd (triggerNode s node c))"
    using plain_node_guarded by (simp add: triggerNode_def Let_def)
  show ?thesis
    using assms trig conditionNode_guarded [of c s node t] toolNode_guarded [of c s node t]
      actionNode_guarded [of c s node t] simpleNode_guarded [of c s node] other
    unfolding exec_node_def Let_def by (metis (no_types, lifting) guarded_refl snd_conv)
qed

lemma exec_node_progress: "exec_node s node t lst c = Some (r, c') \<Longrightarrow> progress c c'"
  using exec_node_cases agentNode_progress by (fastforce simp: guarded_step_def)

lemma exec_node_steps:
  assumes "calls_within s n" "exec_node s node t lst c = Some (r, c')" "steps_of c \<le> step_bound n c"
  shows "steps_of c' \<le> step_bound n c"
  using exec_node_cases [OF assms(2)]
proof
  assume "agentNode s node t c = Some (r, c')"
  then show ?thesis using agentNode_steps [OF assms(1)] assms(3) by blast
next
  assume "guarded_step c c'"
  then show ?thesis using assms(3) by (cases "steps_of c < steps_of c'") (auto simp: guarded_step_def step_bound_def)
qed

section \<open>Which nodes run\<close>

definition step_payloads :: "run_step \<Rightarrow> json list" where
  "step_payloads r = [stp_input r, stp_output r, stp_error r]"

definition extends :: "run_state \<Rightarrow> run_state \<Rightarrow> bool" where
  "extends st st' \<longleftrightarrow> (\<forall>i res. done_entry i st = Some res \<longrightarrow> done_entry i st' = Some res)"

text \<open>The trigger, or the target of an edge that a finished node took.\<close>

definition led_to :: "graph \<Rightarrow> string \<Rightarrow> run_state \<Rightarrow> string \<Rightarrow> bool" where
  "led_to g start st i \<longleftrightarrow>
     i = start \<or> (\<exists>e\<in>set (g_edges g). ge_target e = i \<and>
       (\<exists>node out br. node_by_id g (ge_source e) = Some node \<and> done_entry (ge_source e) st = Some (out, br)
          \<and> (gn_type node = ''condition'' \<longrightarrow>
               ge_sourceHandle e = Some (if br = Some True then ''true'' else if br = Some False then ''false'' else ''undefined''))))"

lemma extends_refl [simp]: "extends st st" by (simp add: extends_def)

lemma extends_trans: "extends a b \<Longrightarrow> extends b c \<Longrightarrow> extends a c"
  by (auto simp: extends_def)

lemma led_to_mono: "led_to g start st i \<Longrightarrow> extends st st' \<Longrightarrow> led_to g start st' i"
  unfolding led_to_def extends_def by blast

lemma done_entry_same: "rs_done st' = rs_done st \<Longrightarrow> done_entry i st' = done_entry i st"
  by (simp add: done_entry_def)

lemma finish_node_logged: "logged c (finish_node s i res c)"
  by (simp add: finish_node_def Let_def logged_def)

lemma finish_node_done:
  "done_entry j (rc_state (finish_node s i res c)) = (if j = i then Some res else done_entry j (rc_state c))"
  by (simp add: finish_node_def Let_def done_entry_def update_conv')

lemma node_by_id_id: "node_by_id g i = Some node \<Longrightarrow> gn_id node = i"
  unfolding node_by_id_def by (auto dest!: map_of_SomeD)

lemma visit_exec:
  assumes "visit s node t lst c = Some (x, c')" "done_entry (gn_id node) (rc_state c) = None"
  obtains r c1 where "exec_node s node t lst c = Some (r, c1)"
    "(\<forall>res. x \<noteq> Inr (Some res)) \<and> c' = c1 \<or> (\<exists>res. x = Inr (Some res) \<and> c' = finish_node s (gn_id node) res c1)"
proof -
  obtain r c1 where e: "exec_node s node t lst c = Some (r, c1)" using exec_node_returns [of s node t lst c] by auto
  have "(\<forall>res. x \<noteq> Inr (Some res)) \<and> c' = c1 \<or> (\<exists>res. x = Inr (Some res) \<and> c' = finish_node s (gn_id node) res c1)"
    using assms e by (auto simp: visit_def Let_def split: sum.splits node_result.splits)
  with e that show thesis by blast
qed

lemma visit_known: "done_entry (gn_id node) (rc_state c) = Some res \<Longrightarrow> visit s node t lst c = Some (Inr (Some res), c)"
  by (simp add: visit_def)

lemma visit_logged:
  assumes "visit s node t lst c = Some (x, c')"
  shows "logged c c'"
proof (cases "done_entry (gn_id node) (rc_state c)")
  case None
  obtain r c1 where e: "exec_node s node t lst c = Some (r, c1)"
    and c': "c' = c1 \<or> (\<exists>res. c' = finish_node s (gn_id node) res c1)"
    by (rule visit_exec [OF assms None]) blast
  have "logged c c1" using exec_node_progress [OF e] by (simp add: progress_def)
  with c' show ?thesis using logged_trans finish_node_logged by blast
next
  case (Some res)
  with assms have "c' = c" by (simp add: visit_known)
  then show ?thesis by (simp add: logged_def)
qed

lemma visit_entry:
  assumes "visit s node t lst c = Some (x, c')"
  shows "done_entry j (rc_state c') =
      (case x of Inr (Some res) \<Rightarrow> if j = gn_id node then Some res else done_entry j (rc_state c) | _ \<Rightarrow> done_entry j (rc_state c))"
proof (cases "done_entry (gn_id node) (rc_state c)")
  case None
  obtain r c1 where e: "exec_node s node t lst c = Some (r, c1)"
    and c': "(\<forall>res. x \<noteq> Inr (Some res)) \<and> c' = c1 \<or> (\<exists>res. x = Inr (Some res) \<and> c' = finish_node s (gn_id node) res c1)"
    using visit_exec [OF assms None] .
  have same: "done_entry i (rc_state c1) = done_entry i (rc_state c)" for i
    using exec_node_progress [OF e] by (intro done_entry_same) (simp add: progress_def)
  show ?thesis
  proof (cases "\<exists>res. x = Inr (Some res)")
    case True
    then show ?thesis using c' by (auto simp: finish_node_done same)
  next
    case False
    with c' have "c' = c1" by blast
    with False same show ?thesis by (cases x) (auto split: option.split)
  qed
next
  case (Some res)
  with assms have "x = Inr (Some res) \<and> c' = c" by (simp add: visit_known)
  with Some show ?thesis by simp
qed

lemma visit_extends:
  assumes "visit s node t lst c = Some (x, c')"
  shows "extends (rc_state c) (rc_state c')"
proof (cases "done_entry (gn_id node) (rc_state c)")
  case None
  then show ?thesis unfolding extends_def visit_entry [OF assms] by (simp split: sum.split option.split)
next
  case (Some res)
  with assms have "c' = c" by (simp add: visit_known)
  then show ?thesis by simp
qed

lemma visit_cases:
  assumes "visit s node t lst c = Some (x, c')"
  shows "logged c c'" "extends (rc_state c) (rc_state c')"
    "j \<noteq> gn_id node \<Longrightarrow> done_entry j (rc_state c') = done_entry j (rc_state c)"
    "x = Inr (Some res) \<Longrightarrow> done_entry (gn_id node) (rc_state c') = Some res"
  using visit_logged [OF assms] visit_extends [OF assms] visit_entry [OF assms]
  by (simp_all split: sum.split option.split)

lemma visit_steps:
  assumes "calls_within s n" "visit s node t lst c = Some (x, c')" "steps_of c \<le> step_bound n c"
  shows "steps_of c' \<le> step_bound n c"
proof (cases "done_entry (gn_id node) (rc_state c)")
  case None
  then obtain r c1 where e: "exec_node s node t lst c = Some (r, c1)"
    and c': "c' = c1 \<or> (\<exists>res. c' = finish_node s (gn_id node) res c1)"
    by (rule visit_exec [OF assms(2)]) blast
  have "steps_of c' = steps_of c1" using c' by (auto simp: finish_node_def Let_def)
  with exec_node_steps [OF assms(1) e assms(3)] show ?thesis by simp
qed (use assms in \<open>auto simp: visit_def\<close>)

lemma walk_nodes_step:
  assumes "walk_nodes s g (i # rest) active t lst c = Some (r, c')"
  obtains (skip) "walk_nodes s g rest active t lst c = Some (r, c')"
  | (stop) "c' = c"
  | (last) node x where "node_by_id g i = Some node" "i \<in> set active" "visit s node t lst c = Some (x, c')"
  | (more) node out br c1 where "node_by_id g i = Some node" "i \<in> set active" "visit s node t lst c = Some (Inr (Some (out, br)), c1)"
      "walk_nodes s g rest (activate_edges (g_edges g) node br active) (set_step i out t) out c1 = Some (r, c')"
  using assms by (auto split: if_splits option.splits sum.splits prod.splits)

text \<open>One induction for everything that is kept from node to node.\<close>

lemma walk_nodes_induct:
  assumes "walk_nodes s g order active t lst c = Some (r, c')" "P c active" "\<And>c active. P c active \<Longrightarrow> Q c"
    and "\<And>i node t lst c x c1 active. P c active \<Longrightarrow> i \<in> set active \<Longrightarrow> node_by_id g i = Some node
          \<Longrightarrow> visit s node t lst c = Some (x, c1) \<Longrightarrow> Q c1"
    and "\<And>i node t lst c out br c1 active. P c active \<Longrightarrow> i \<in> set active \<Longrightarrow> node_by_id g i = Some node
          \<Longrightarrow> visit s node t lst c = Some (Inr (Some (out, br)), c1) \<Longrightarrow> P c1 (activate_edges (g_edges g) node br active)"
  shows "Q c'"
  using assms(1,2)
proof (induction order arbitrary: active t lst c)
  case Nil
  then show ?case using assms(3) by auto
next
  case (Cons i rest)
  from Cons.prems(1) show ?case
  proof (cases rule: walk_nodes_step)
    case skip
    then show ?thesis using Cons by blast
  next
    case stop
    then show ?thesis using assms(3) Cons.prems(2) by blast
  next
    case (last node x)
    then show ?thesis using assms(4) Cons.prems(2) by blast
  next
    case (more node out br c1)
    then show ?thesis using Cons.IH assms(5) Cons.prems(2) by blast
  qed
qed

lemma walk_run_nodes:
  assumes "walk_run s c = Some (r, c')"
  obtains "c' = c" | order tr where "topoOrder (graph_of (rc_spec c)) = Some order"
    "tr \<in> set (g_nodes (graph_of (rc_spec c)))" "gn_type tr = ''trigger''"
    "walk_nodes s (graph_of (rc_spec c)) order [gn_id tr] (templateCtx c) JNull c = Some (r, c')"
  using assms by (auto simp: walk_run_def Let_def find_Some_iff in_set_conv_nth split: option.splits)

lemma walk_run_logged: "walk_run s c = Some (r, c') \<Longrightarrow> logged c c'"
proof (erule walk_run_nodes)
  fix order tr
  assume "walk_nodes s (graph_of (rc_spec c)) order [gn_id tr] (templateCtx c) JNull c = Some (r, c')"
  then show "logged c c'"
    by (rule walk_nodes_induct [where P = "\<lambda>d _. logged c d"])
       (auto simp: logged_def [of c c] dest: visit_cases(1) intro: logged_trans)
qed (simp add: logged_def)

lemma walk_run_steps:
  assumes "calls_within s n" "walk_run s c = Some (r, c')" "steps_of c \<le> step_bound n c"
  shows "steps_of c' \<le> step_bound n c"
  using assms(2)
proof (rule walk_run_nodes)
  fix order tr
  assume w: "walk_nodes s (graph_of (rc_spec c)) order [gn_id tr] (templateCtx c) JNull c = Some (r, c')"
  have keep: "rc_spec d' = rc_spec c \<and> steps_of d' \<le> step_bound n c"
    if "rc_spec d = rc_spec c \<and> steps_of d \<le> step_bound n c" "visit s node t lst d = Some (x, d')" for node t lst d x d'
    using visit_steps [OF assms(1) that(2)] visit_cases(1) [OF that(2)] that(1) by (simp add: step_bound_def logged_def)
  have "rc_spec c' = rc_spec c \<and> steps_of c' \<le> step_bound n c"
    by (rule walk_nodes_induct [where P = "\<lambda>d _. rc_spec d = rc_spec c \<and> steps_of d \<le> step_bound n c", OF w])
       (use assms(3) keep in blast)+
  then show ?thesis ..
qed (use assms(3) in simp)

lemma activated:
  assumes "node_by_id g i = Some node" "done_entry i st = Some (out, br)" "j \<in> set (activate_edges (g_edges g) node br active)"
    "\<forall>k\<in>set active. led_to g start st k"
  shows "led_to g start st j"
proof (cases "j \<in> set active")
  case False
  then obtain e where e: "e \<in> set (g_edges g)" "edge_taken node br e" "ge_target e = j"
    using assms(3) by (auto simp: activate_edges_def)
  then have "ge_source e = i" and
    "gn_type node = ''condition'' \<longrightarrow>
       ge_sourceHandle e = Some (if br = Some True then ''true'' else if br = Some False then ''false'' else ''undefined'')"
    using node_by_id_id [OF assms(1)] by (auto simp: edge_taken_def branch_text_def split: option.splits bool.splits)
  then show ?thesis using e(1,3) assms(1,2) unfolding led_to_def by blast
qed (use assms(4) in blast)

lemma walk_run_led:
  assumes "walk_run s c = Some (r, c')"
  shows "extends (rc_state c) (rc_state c')"
    "done_entry i (rc_state c') \<noteq> None \<Longrightarrow> done_entry i (rc_state c) = None \<Longrightarrow>
       \<exists>tr\<in>set (g_nodes (graph_of (rc_spec c))). gn_type tr = ''trigger'' \<and> led_to (graph_of (rc_spec c)) (gn_id tr) (rc_state c') i"
proof -
  let ?g = "graph_of (rc_spec c)"
  have "extends (rc_state c) (rc_state c') \<and> (\<forall>i. done_entry i (rc_state c') \<noteq> None \<longrightarrow> done_entry i (rc_state c) = None \<longrightarrow>
       (\<exists>tr\<in>set (g_nodes ?g). gn_type tr = ''trigger'' \<and> led_to ?g (gn_id tr) (rc_state c') i))"
    using assms
  proof (rule walk_run_nodes)
    fix order tr
    assume tr: "tr \<in> set (g_nodes ?g)" "gn_type tr = ''trigger''"
      and w: "walk_nodes s ?g order [gn_id tr] (templateCtx c) JNull c = Some (r, c')"
    define Q where "Q d \<longleftrightarrow> extends (rc_state c) (rc_state d) \<and>
      (\<forall>i. done_entry i (rc_state d) \<noteq> None \<longrightarrow> done_entry i (rc_state c) = None \<longrightarrow> led_to ?g (gn_id tr) (rc_state d) i)" for d :: "'a run_ctx"
    define P where "P d active \<longleftrightarrow> Q d \<and> (\<forall>i\<in>set active. led_to ?g (gn_id tr) (rc_state d) i)" for d :: "'a run_ctx" and active
    have step: "Q d' \<and> (\<forall>i\<in>set active. led_to ?g (gn_id tr) (rc_state d') i)"
      if p: "P d active" "i \<in> set active" "node_by_id ?g i = Some node" "visit s node t lst d = Some (x, d')"
      for d active i node t lst x d'
    proof -
      note v = visit_cases [OF p(4)]
      have act: "\<forall>i\<in>set active. led_to ?g (gn_id tr) (rc_state d') i"
        using p(1) led_to_mono [OF _ v(2)] by (auto simp: P_def)
      have "led_to ?g (gn_id tr) (rc_state d') j" if j: "done_entry j (rc_state d') \<noteq> None" "done_entry j (rc_state c) = None" for j
      proof (cases "j = i")
        case True
        then show ?thesis using act p(2) by blast
      next
        case False
        then have "done_entry j (rc_state d) \<noteq> None" using v(3) [of j] node_by_id_id [OF p(3)] j(1) by simp
        then show ?thesis using p(1) j(2) led_to_mono [OF _ v(2)] by (auto simp: P_def Q_def)
      qed
      with act show ?thesis using p(1) extends_trans [OF _ v(2)] by (auto simp: P_def Q_def)
    qed
    have "Q c'"
    proof (rule walk_nodes_induct [where P = P, OF w])
      show "P c [gn_id tr]" by (auto simp: P_def Q_def led_to_def)
      show "Q d" if "P d active" for d active using that by (simp add: P_def)
      show "Q d'" if "P d active" "i \<in> set active" "node_by_id ?g i = Some node" "visit s node t lst d = Some (x, d')"
        for i node t lst d x d' active using step [OF that] by blast
      show "P d' (activate_edges (g_edges ?g) node br active)"
        if p: "P d active" "i \<in> set active" "node_by_id ?g i = Some node" "visit s node t lst d = Some (Inr (Some (out, br)), d')"
        for i node t lst d out br d' active
      proof -
        have "done_entry i (rc_state d') = Some (out, br)"
          using visit_cases(4) [OF p(4) refl] node_by_id_id [OF p(3)] by simp
        then show ?thesis using step [OF p] activated [OF p(3)] unfolding P_def by blast
      qed
    qed
    with tr show ?thesis by (auto simp: Q_def)
  qed auto
  then show "extends (rc_state c) (rc_state c')"
    "done_entry i (rc_state c') \<noteq> None \<Longrightarrow> done_entry i (rc_state c) = None \<Longrightarrow>
       \<exists>tr\<in>set (g_nodes ?g). gn_type tr = ''trigger'' \<and> led_to ?g (gn_id tr) (rc_state c') i" by blast+
qed

text \<open>No payload of the step log holds a secret of the agent; a payload too long to store is a preview.\<close>

lemma logged_masks:
  assumes l: "logged (run_context s i spec st u vars p) c'"
  shows "map stp_index (rc_steps c') = [ru_steps u..<steps_of c']"
    "row \<in> set (rc_steps c') \<Longrightarrow> q \<in> set (step_payloads row) \<Longrightarrow> \<not> cut_short q \<Longrightarrow> t \<in> texts_within 41 q \<Longrightarrow>
       v \<in> set (secret_values vars) \<Longrightarrow> 4 \<le> length v \<Longrightarrow> plain_value v \<Longrightarrow> \<not> str_includes t v"
proof -
  let ?c = "run_context s i spec st u vars p"
  show "map stp_index (rc_steps c') = [ru_steps u..<steps_of c']"
    using l by (auto simp: logged_def run_context_def)
  assume row: "row \<in> set (rc_steps c')" "q \<in> set (step_payloads row)" "\<not> cut_short q" "t \<in> texts_within 41 q"
    and v: "v \<in> set (secret_values vars)" "4 \<le> length v" "plain_value v"
  have "masked_step (rc_redactor ?c) row" using l row(1) by (auto simp: logged_def run_context_def)
  then have "masked (rc_redactor ?c) q" using row(2) by (auto simp: masked_step_def step_payloads_def)
  moreover have "v \<in> set (rc_redactor ?c)" using redactor_knows [OF v(1,2)] by (simp add: run_context_def)
  ultimately show "\<not> str_includes t v" using masked_hides row(3,4) v(3) by blast
qed

text \<open>
  A node whose id is a member every object inherits counts as finished from the start, so it never
  runs; the validator takes such an id.
\<close>

lemma inherited_node_skipped:
  assumes "gn_id node \<in> set INHERITED" "map_of (rs_done (rc_state c)) (gn_id node) = None"
  shows "visit s node t lst c = Some (Inr (Some (JUndef, None)), c)"
  using assms by (simp add: visit_def done_entry_def)

lemma inherited_id_accepted: "node_id_ok ''constructor'' \<and> ''constructor'' \<in> set INHERITED"
  by code_simp

end
