(* ===== verification/Access.thy ===== *)
theory Access
  imports Actor
begin

text \<open>
  Who may call the API: \<open>modules/iam/token.service.ts\<close> (API tokens, console sessions, ops console
  sessions) and \<open>common/auth/auth.guard.ts\<close> (the guard in front of every route).

  The tables the two read are \<open>auth_db\<close>.  Code outside the repository is a parameter: \<open>sha\<close> is
  the SHA-256 of \<open>node:crypto\<close>, \<open>sign\<close> and \<open>verify\<close> are \<open>jose\<close> (\<open>verify\<close> yields the claims of a
  token whose signature and expiry are valid; the audience option of \<open>jwtVerify\<close> is the comparison
  written out here).  Random identifiers and the current time are arguments.  The locale, address
  and user agent of an actor are not modelled.
\<close>

record jwt_claims =
  jw_sub :: "string option"
  jw_tid :: "string option"
  jw_jti :: "string option"
  jw_aud :: "string option"

record session =
  se_id :: id
  se_userId :: id
  se_teamId :: "id option"
  se_audience :: string
  se_secondFactor :: "string option"
  se_expiresAt :: instant
  se_lastSeenAt :: instant
  se_revokedAt :: "instant option"

record stored_token =
  to_id :: id
  to_teamId :: id
  to_userId :: id
  to_projectId :: "id option"
  to_name :: string
  to_prefix :: string
  to_hash :: string
  to_scopes :: "string list"
  to_isAgent :: bool
  to_spendCapMinor :: "int option"
  to_requireApprovalFor :: "string list"
  to_expiresAt :: "instant option"
  to_revokedAt :: "instant option"
  to_lastUsedAt :: "instant option"

record user =
  us_id :: id
  us_isStaff :: bool
  us_staffRoles :: "string list"
  us_totpEnabled :: bool

record membership =
  ms_teamId :: id
  ms_userId :: id
  ms_role :: team_role

datatype team_status = TsActive | TsPendingVerification | TsSuspended | TsClosed

record auth_db =
  db_sessions :: "session list"
  db_tokens :: "stored_token list"
  db_users :: "user list"
  db_members :: "membership list"
  db_teamStatus :: "id \<Rightarrow> team_status option"

text \<open>A JavaScript string that is neither undefined nor empty.\<close>

definition given :: "string option \<Rightarrow> bool" where
  "given s \<longleftrightarrow> s \<noteq> None \<and> s \<noteq> Some []"

section \<open>Tokens and sessions\<close>

definition TOKEN_PREFIX :: string where "TOKEN_PREFIX = ''prgd_''"
definition OPS_AUDIENCE :: string where "OPS_AUDIENCE = ''ops''"
definition OPS_CHALLENGE_AUDIENCE :: string where "OPS_CHALLENGE_AUDIENCE = ''ops-signin''"

record token_input =
  ti_teamId :: id
  ti_userId :: id
  ti_projectId :: "id option"
  ti_name :: string
  ti_scopes :: "string list"
  ti_isAgent :: "bool option"
  ti_spendCapMinor :: "int option"
  ti_requireApprovalFor :: "string list option"
  ti_expiresAt :: "instant option"

definition issueApiToken ::
  "(string \<Rightarrow> string) \<Rightarrow> id \<Rightarrow> string \<Rightarrow> token_input \<Rightarrow> auth_db \<Rightarrow> (id \<times> string \<times> string) \<times> auth_db" where
  "issueApiToken sha newId random i db =
     (let raw = TOKEN_PREFIX @ random;
          tok = \<lparr>to_id = newId, to_teamId = ti_teamId i, to_userId = ti_userId i, to_projectId = ti_projectId i,
                 to_name = ti_name i, to_prefix = slice raw 0 12, to_hash = sha raw, to_scopes = ti_scopes i,
                 to_isAgent = (ti_isAgent i = Some True), to_spendCapMinor = ti_spendCapMinor i,
                 to_requireApprovalFor = (case ti_requireApprovalFor i of None \<Rightarrow> [] | Some xs \<Rightarrow> xs),
                 to_expiresAt = ti_expiresAt i, to_revokedAt = None, to_lastUsedAt = None\<rparr>
      in ((newId, raw, to_prefix tok), db\<lparr>db_tokens := db_tokens db @ [tok]\<rparr>))"

definition revoke :: "id \<Rightarrow> id \<Rightarrow> instant \<Rightarrow> auth_db \<Rightarrow> auth_db" where
  "revoke teamId i now db =
     db\<lparr>db_tokens := update_where (\<lambda>t. to_id t = i \<and> to_teamId t = teamId \<and> to_revokedAt t = None)
          (\<lambda>t. t\<lparr>to_revokedAt := Some now\<rparr>) (db_tokens db)\<rparr>"

definition issueSession ::
  "(jwt_claims \<Rightarrow> string) \<Rightarrow> id \<Rightarrow> int \<Rightarrow> instant \<Rightarrow> id \<Rightarrow> id \<Rightarrow> auth_db \<Rightarrow> string \<times> auth_db" where
  "issueSession sign newId ttl now userId teamId db =
     (sign \<lparr>jw_sub = Some userId, jw_tid = Some teamId, jw_jti = Some newId, jw_aud = None\<rparr>,
      db\<lparr>db_sessions := db_sessions db @
           [\<lparr>se_id = newId, se_userId = userId, se_teamId = Some teamId, se_audience = ''console'',
             se_secondFactor = None, se_expiresAt = now + ttl * 1000, se_lastSeenAt = now, se_revokedAt = None\<rparr>]\<rparr>)"

definition listSessions :: "id \<Rightarrow> instant \<Rightarrow> auth_db \<Rightarrow> session list" where
  "listSessions userId now db =
     sort_key (\<lambda>s. - se_lastSeenAt s)
       (filter (\<lambda>s. se_userId s = userId \<and> se_audience s = ''console'' \<and> se_revokedAt s = None \<and> now < se_expiresAt s)
          (db_sessions db))"

definition revokeSession :: "id \<Rightarrow> id \<Rightarrow> instant \<Rightarrow> auth_db \<Rightarrow> auth_db" where
  "revokeSession userId i now db =
     db\<lparr>db_sessions := update_where (\<lambda>s. se_id s = i \<and> se_userId s = userId \<and> se_revokedAt s = None)
          (\<lambda>s. s\<lparr>se_revokedAt := Some now\<rparr>) (db_sessions db)\<rparr>"

definition revokeAllSessions :: "id \<Rightarrow> id option \<Rightarrow> instant \<Rightarrow> auth_db \<Rightarrow> auth_db" where
  "revokeAllSessions userId exceptId now db =
     db\<lparr>db_sessions := update_where
          (\<lambda>s. se_userId s = userId \<and> se_revokedAt s = None \<and> (given exceptId \<longrightarrow> Some (se_id s) \<noteq> exceptId))
          (\<lambda>s. s\<lparr>se_revokedAt := Some now\<rparr>) (db_sessions db)\<rparr>"

definition issueOpsSession ::
  "(jwt_claims \<Rightarrow> string) \<Rightarrow> id \<Rightarrow> string \<Rightarrow> int \<Rightarrow> instant \<Rightarrow> id \<Rightarrow> auth_db \<Rightarrow> (string \<times> id \<times> instant) \<times> auth_db" where
  "issueOpsSession sign newId secondFactor ttlSeconds now userId db =
     (let expiresAt = now + ttlSeconds * 1000 in
      ((sign \<lparr>jw_sub = Some userId, jw_tid = None, jw_jti = Some newId, jw_aud = Some OPS_AUDIENCE\<rparr>, newId, expiresAt),
       db\<lparr>db_sessions := db_sessions db @
            [\<lparr>se_id = newId, se_userId = userId, se_teamId = None, se_audience = ''ops'',
              se_secondFactor = Some secondFactor, se_expiresAt = expiresAt, se_lastSeenAt = now, se_revokedAt = None\<rparr>]\<rparr>))"

definition seen :: "id \<Rightarrow> int \<Rightarrow> instant \<Rightarrow> session \<Rightarrow> auth_db \<Rightarrow> auth_db" where
  "seen jti after now s db =
     (if after < now - se_lastSeenAt s
      then db\<lparr>db_sessions := update_where (\<lambda>r. se_id r = jti) (\<lambda>r. r\<lparr>se_lastSeenAt := now\<rparr>) (db_sessions db)\<rparr>
      else db)"

definition live_session :: "string \<Rightarrow> instant \<Rightarrow> string \<Rightarrow> session \<Rightarrow> bool" where
  "live_session audience now sub s \<longleftrightarrow>
     se_audience s = audience \<and> se_revokedAt s = None \<and> \<not> se_expiresAt s < now \<and> se_userId s = sub"

definition resolveOpsSession ::
  "(string \<Rightarrow> jwt_claims option) \<Rightarrow> instant \<Rightarrow> string \<Rightarrow> auth_db \<Rightarrow> (id \<times> id \<times> instant) option \<times> auth_db" where
  "resolveOpsSession verify now jwt db =
     (if startsWith jwt TOKEN_PREFIX then (None, db)
      else case verify jwt of
        None \<Rightarrow> (None, db)
      | Some p \<Rightarrow>
          if jw_aud p \<noteq> Some OPS_AUDIENCE then (None, db)
          else case (jw_sub p, jw_jti p) of
            (Some sub, Some jti) \<Rightarrow>
              if sub = [] \<or> jti = [] then (None, db)
              else (case find_by se_id jti (db_sessions db) of
                      None \<Rightarrow> (None, db)
                    | Some s \<Rightarrow>
                        if \<not> live_session ''ops'' now sub s then (None, db)
                        else (Some (sub, jti, se_expiresAt s), seen jti 60000 now s db))
          | _ \<Rightarrow> (None, db))"

definition issueOpsChallenge :: "(jwt_claims \<Rightarrow> string) \<Rightarrow> string \<Rightarrow> int \<Rightarrow> instant \<Rightarrow> id \<Rightarrow> string \<times> string \<times> instant" where
  "issueOpsChallenge sign random ttlSeconds now userId =
     (sign \<lparr>jw_sub = Some userId, jw_tid = None, jw_jti = Some random, jw_aud = Some OPS_CHALLENGE_AUDIENCE\<rparr>,
      random, now + ttlSeconds * 1000)"

definition verifyOpsChallenge :: "(string \<Rightarrow> jwt_claims option) \<Rightarrow> string \<Rightarrow> (id \<times> string) option" where
  "verifyOpsChallenge verify token =
     (case verify token of
        None \<Rightarrow> None
      | Some p \<Rightarrow>
          if jw_aud p \<noteq> Some OPS_CHALLENGE_AUDIENCE then None
          else if given (jw_sub p) \<and> given (jw_jti p) then Some (the (jw_sub p), the (jw_jti p)) else None)"

definition role_and_staff :: "team_role \<Rightarrow> user \<Rightarrow> string set" where
  "role_and_staff r u = scopesForRole r \<union> set (staffScopes (us_isStaff u) (us_staffRoles u))"

definition token_actor :: "stored_token \<Rightarrow> membership \<Rightarrow> user \<Rightarrow> auth_db \<Rightarrow> actor" where
  "token_actor t m u db =
     \<lparr>a_userId = to_userId t, a_teamId = to_teamId t, a_role = ms_role m, a_projectId = to_projectId t,
      a_scopes = set (filter (\<lambda>s. s \<in> role_and_staff (ms_role m) u) (to_scopes t)),
      a_tokenId = Some (to_id t), a_sessionId = None, a_isAgent = to_isAgent t,
      a_requireApprovalFor = set (to_requireApprovalFor t),
      a_suspended = (db_teamStatus db (to_teamId t) = Some TsSuspended), a_ops = False\<rparr>"

definition resolveApiToken :: "(string \<Rightarrow> string) \<Rightarrow> instant \<Rightarrow> string \<Rightarrow> auth_db \<Rightarrow> actor option \<times> auth_db" where
  "resolveApiToken sha now raw db =
     (case find_by to_hash (sha raw) (db_tokens db) of
        None \<Rightarrow> (None, db)
      | Some t \<Rightarrow>
          if to_revokedAt t \<noteq> None \<or> (case to_expiresAt t of None \<Rightarrow> False | Some e \<Rightarrow> e < now)
             \<or> db_teamStatus db (to_teamId t) = Some TsClosed
          then (None, db)
          else case (find_by (\<lambda>m. (ms_teamId m, ms_userId m)) (to_teamId t, to_userId t) (db_members db),
                     find_by us_id (to_userId t) (db_users db)) of
            (Some m, Some u) \<Rightarrow>
              (Some (token_actor t m u db),
               db\<lparr>db_tokens := update_where (\<lambda>r. to_id r = to_id t) (\<lambda>r. r\<lparr>to_lastUsedAt := Some now\<rparr>) (db_tokens db)\<rparr>)
          | _ \<Rightarrow> (None, db))"

definition session_actor :: "id \<Rightarrow> id \<Rightarrow> id \<Rightarrow> membership \<Rightarrow> user \<Rightarrow> auth_db \<Rightarrow> actor" where
  "session_actor sub tid jti m u db =
     \<lparr>a_userId = sub, a_teamId = tid, a_role = ms_role m, a_projectId = None, a_scopes = role_and_staff (ms_role m) u,
      a_tokenId = None, a_sessionId = Some jti, a_isAgent = False, a_requireApprovalFor = {},
      a_suspended = (db_teamStatus db tid = Some TsSuspended), a_ops = False\<rparr>"

definition resolveSession ::
  "(string \<Rightarrow> jwt_claims option) \<Rightarrow> instant \<Rightarrow> string \<Rightarrow> auth_db \<Rightarrow> actor option \<times> auth_db" where
  "resolveSession verify now jwt db =
     (case verify jwt of
        None \<Rightarrow> (None, db)
      | Some p \<Rightarrow>
          if jw_aud p \<noteq> None then (None, db)
          else case (jw_sub p, jw_tid p, jw_jti p) of
            (Some sub, Some tid, Some jti) \<Rightarrow>
              if sub = [] \<or> tid = [] \<or> jti = [] then (None, db)
              else (case find_by se_id jti (db_sessions db) of
                      None \<Rightarrow> (None, db)
                    | Some s \<Rightarrow>
                        if \<not> live_session ''console'' now sub s then (None, db)
                        else
                          let db1 = seen jti (5 * 60000) now s db
                          in case (find_by (\<lambda>m. (ms_teamId m, ms_userId m)) (tid, sub) (db_members db1),
                                   find_by us_id sub (db_users db1)) of
                               (Some m, Some u) \<Rightarrow>
                                 if db_teamStatus db1 tid = Some TsClosed then (None, db1)
                                 else (Some (session_actor sub tid jti m u db1), db1)
                             | _ \<Rightarrow> (None, db1))
          | _ \<Rightarrow> (None, db))"

definition resolveBearer ::
  "(string \<Rightarrow> string) \<Rightarrow> (string \<Rightarrow> jwt_claims option) \<Rightarrow> instant \<Rightarrow> string \<Rightarrow> auth_db \<Rightarrow> actor option \<times> auth_db" where
  "resolveBearer sha verify now credential db =
     (if startsWith credential TOKEN_PREFIX then resolveApiToken sha now credential db
      else resolveSession verify now credential db)"

section \<open>The guard\<close>

record route =
  ro_public :: bool
  ro_scopes :: "string list"
  ro_areas :: "string list"

record request =
  rq_method :: string
  rq_path :: string
  rq_authorization :: "string option"
  rq_cookie :: "string option"

record auth_config =
  ac_requireTotpForOwners :: bool
  ac_requireTotpForStaff :: bool

definition allowedWhileSuspended :: "string \<Rightarrow> string \<Rightarrow> string list \<Rightarrow> bool" where
  "allowedWhileSuspended meth path required \<longleftrightarrow>
     meth = ''GET'' \<and> path = ''/v1/account''
     \<or> meth = ''POST'' \<and> path = ''/v1/invitations/accept''
     \<or> meth = ''GET'' \<and> required \<noteq> [] \<and> list_all (\<lambda>s. s = ''billing:read'') required
     \<or> meth = ''POST'' \<and>
        (path = ''/v1/billing/topup''
         \<or> (let pre = ''/v1/billing/invoices/''; tail = drop (length pre) path
            in startsWith path pre \<and> takeWhile (\<lambda>c. c \<noteq> CHR ''/'') tail \<noteq> []
               \<and> dropWhile (\<lambda>c. c \<noteq> CHR ''/'') tail = ''/pay''))"

text \<open>\<open>decode\<close> stands for \<open>decodeURIComponent\<close>.\<close>

fun cookie_in :: "(string \<Rightarrow> string) \<Rightarrow> string \<Rightarrow> string list \<Rightarrow> string option" where
  "cookie_in decode name [] = None"
| "cookie_in decode name (part # parts) =
     (let kv = split_on CHR ''='' (trim part)
      in if hd kv = name then Some (decode (join ''='' (tl kv))) else cookie_in decode name parts)"

definition readCookie :: "(string \<Rightarrow> string) \<Rightarrow> string option \<Rightarrow> string \<Rightarrow> string option" where
  "readCookie decode header name =
     cookie_in decode name (split_on CHR '';'' (case header of None \<Rightarrow> [] | Some h \<Rightarrow> h))"

definition OPS_SESSION_COOKIE :: string where "OPS_SESSION_COOKIE = ''prgd_ops_session''"

text \<open>The second part of \<open>Authorization: Bearer \<dots>\<close>, when the scheme is bearer.\<close>

definition bearer_of :: "request \<Rightarrow> string option" where
  "bearer_of req =
     (let parts = split_on CHR '' '' (case rq_authorization req of None \<Rightarrow> [] | Some h \<Rightarrow> h)
      in if toLowerCase (hd parts) = ''bearer'' \<and> tl parts \<noteq> [] then Some (hd (tl parts)) else None)"

definition resolveOps ::
  "(string \<Rightarrow> string) \<Rightarrow> (string \<Rightarrow> jwt_claims option) \<Rightarrow> instant \<Rightarrow> request \<Rightarrow> auth_db \<Rightarrow> actor result \<times> auth_db" where
  "resolveOps decode verify now req db =
     (let credential =
            (if \<not> given (bearer_of req) \<and> (rq_method req = ''GET'' \<or> rq_method req = ''HEAD'')
             then readCookie decode (rq_cookie req) OPS_SESSION_COOKIE else bearer_of req)
      in if \<not> given credential then (Inl unauthorized, db)
         else case resolveOpsSession verify now (the credential) db of
           (None, db') \<Rightarrow> (Inl unauthorized, db')
         | (Some (userId, sessionId, _), db') \<Rightarrow>
             (Inr \<lparr>a_userId = userId, a_teamId = [], a_role = Member, a_projectId = None, a_scopes = {}, a_tokenId = None,
                   a_sessionId = Some sessionId, a_isAgent = False, a_requireApprovalFor = {}, a_suspended = False,
                   a_ops = True\<rparr>, db'))"

definition totp_on :: "id \<Rightarrow> auth_db \<Rightarrow> bool" where
  "totp_on userId db \<longleftrightarrow> (case find_by us_id userId (db_users db) of None \<Rightarrow> False | Some u \<Rightarrow> us_totpEnabled u)"

definition area_allowed :: "string set \<Rightarrow> string \<Rightarrow> bool" where
  "area_allowed scopes a \<longleftrightarrow> (if a = ''any'' then hasStaffScope scopes else (''admin:'' @ a) \<in> scopes)"

definition totp_setup_required :: error where "totp_setup_required = ApiError 403 ''totp_setup_required''"

text \<open>The checks after the actor is known, in the order of the code.\<close>

definition admit :: "auth_config \<Rightarrow> route \<Rightarrow> request \<Rightarrow> actor \<Rightarrow> auth_db \<Rightarrow> unit result" where
  "admit cfg r req who db =
     (let staffRoute = ''admin'' \<in> set (ro_scopes r);
          required = filter (\<lambda>s. s \<noteq> ''admin'') (ro_scopes r);
          staffCall = startsWith (rq_path req) ''/admin/'' \<and> hasStaffScope (a_scopes who)
      in if ac_requireTotpForOwners cfg \<and> \<not> given (a_tokenId who) \<and> a_role who = Owner
            \<and> \<not> startsWith (rq_path req) ''/v1/auth/totp'' \<and> \<not> startsWith (rq_path req) ''/v1/account''
            \<and> \<not> totp_on (a_userId who) db
         then Inl totp_setup_required
         else if staffRoute \<and> ''admin'' \<notin> a_scopes who \<and> \<not> list_ex (area_allowed (a_scopes who)) (ro_areas r)
         then Inl forbidden
         else if staffRoute \<and> ac_requireTotpForStaff cfg \<and> \<not> totp_on (a_userId who) db
         then Inl totp_setup_required
         else if a_suspended who \<and> \<not> staffCall \<and> \<not> allowedWhileSuspended (rq_method req) (rq_path req) required
         then Inl (ApiError 403 ''account_suspended'')
         else if \<not> list_all (\<lambda>s. s \<in> a_scopes who) required then Inl forbidden
         else Inr ())"

definition canActivate ::
  "(string \<Rightarrow> string) \<Rightarrow> (string \<Rightarrow> string) \<Rightarrow> (string \<Rightarrow> jwt_claims option) \<Rightarrow> auth_config \<Rightarrow> route \<Rightarrow> request \<Rightarrow> instant
     \<Rightarrow> auth_db \<Rightarrow> actor option result \<times> auth_db" where
  "canActivate decode sha verify cfg r req now db =
     (if ro_public r then (Inr None, db)
      else if startsWith (rq_path req) ''/ops/'' then
        (case resolveOps decode verify now req db of (Inl e, db') \<Rightarrow> (Inl e, db') | (Inr who, db') \<Rightarrow> (Inr (Some who), db'))
      else if \<not> given (bearer_of req) then (Inl unauthorized, db)
      else case resolveBearer sha verify now (the (bearer_of req)) db of
        (None, db') \<Rightarrow> (Inl unauthorized, db')
      | (Some who, db') \<Rightarrow>
          (case admit cfg r req who db' of Inl e \<Rightarrow> (Inl e, db') | Inr _ \<Rightarrow> (Inr (Some who), db')))"

section \<open>What a credential can do\<close>

lemma resolveApiToken_Some:
  assumes "resolveApiToken sha now raw db = (Some who, db')"
  shows "\<exists>t m u. find_by to_hash (sha raw) (db_tokens db) = Some t \<and> to_revokedAt t = None
    \<and> (\<forall>e. to_expiresAt t = Some e \<longrightarrow> now \<le> e) \<and> db_teamStatus db (to_teamId t) \<noteq> Some TsClosed
    \<and> find_by (\<lambda>m. (ms_teamId m, ms_userId m)) (to_teamId t, to_userId t) (db_members db) = Some m
    \<and> find_by us_id (to_userId t) (db_users db) = Some u \<and> who = token_actor t m u db"
  using assms by (auto simp: resolveApiToken_def split: option.splits if_splits)

lemma token_actor_scopes:
  "a_scopes (token_actor t m u db) \<subseteq> role_and_staff (a_role (token_actor t m u db)) u"
  by (auto simp: token_actor_def)

lemma not_staff_scopes: "\<not> us_isStaff u \<Longrightarrow> role_and_staff r u = scopesForRole r"
  by (simp add: role_and_staff_def staffScopes_none)

lemma hasStaffScope_mono: "hasStaffScope S \<Longrightarrow> S \<subseteq> T \<Longrightarrow> hasStaffScope T"
  by (auto simp: hasStaffScope_def)

lemma token_of_non_staff:
  assumes "resolveApiToken sha now raw db = (Some who, db')" "\<forall>u\<in>set (db_users db). \<not> us_isStaff u"
  shows "\<not> hasStaffScope (a_scopes who) \<and> a_scopes who \<subseteq> scopesForRole (a_role who)"
proof -
  obtain t m u where u: "find_by us_id (to_userId t) (db_users db) = Some u" and who: "who = token_actor t m u db"
    using resolveApiToken_Some [OF assms(1)] by blast
  have "\<not> us_isStaff u" using find_by_Some [OF u] assms(2) by blast
  then have "a_scopes who \<subseteq> scopesForRole (a_role who)" using token_actor_scopes [of t m u db] who by (simp add: not_staff_scopes)
  then show ?thesis using hasStaffScope_mono scopesForRole_not_staff by blast
qed

text \<open>Console and ops credentials are disjoint, over any database.\<close>

lemma ops_credential:
  assumes "resolveOpsSession verify now jwt db = (Some x, db')"
  shows "\<not> startsWith jwt TOKEN_PREFIX \<and> (\<exists>p. verify jwt = Some p \<and> jw_aud p = Some OPS_AUDIENCE)"
  using assms by (auto simp: resolveOpsSession_def split: if_splits option.splits)

lemma audiences_disjoint:
  assumes "fst (resolveOpsSession verify now jwt db) \<noteq> None"
  shows "fst (resolveBearer sha verify now' jwt db') = None"
proof -
  obtain x db1 where "resolveOpsSession verify now jwt db = (Some x, db1)"
    using assms by (cases "resolveOpsSession verify now jwt db") auto
  then show ?thesis
    using ops_credential by (fastforce simp: resolveBearer_def resolveSession_def)
qed

text \<open>A revoked session is dead, whatever token names it.\<close>

lemma revoked_rows:
  assumes "find_by se_id jti (db_sessions (revokeAllSessions userId None now db)) = Some s" "se_userId s = userId"
  shows "se_revokedAt s \<noteq> None"
proof -
  define hit where "hit = (\<lambda>s :: session. se_userId s = userId \<and> se_revokedAt s = None \<and> (given None \<longrightarrow> Some (se_id s) \<noteq> None))"
  have "db_sessions (revokeAllSessions userId None now db) = update_where hit (\<lambda>s. s\<lparr>se_revokedAt := Some now\<rparr>) (db_sessions db)"
    by (simp add: revokeAllSessions_def hit_def)
  then obtain r where "s = (if hit r then r\<lparr>se_revokedAt := Some now\<rparr> else r)"
    using find_by_Some [OF assms(1)] by (auto simp: in_update_where)
  then show ?thesis using assms(2) by (cases "hit r") (auto simp: hit_def)
qed

lemma resolveSession_Some:
  assumes "fst (resolveSession verify now jwt db) = Some who"
  shows "\<exists>sub tid jti s m u db1. find_by se_id jti (db_sessions db) = Some s \<and> live_session ''console'' now sub s
    \<and> who = session_actor sub tid jti m u db1"
  using assms unfolding resolveSession_def Let_def by (simp split: option.splits if_splits) blast

lemma resolveSession_user:
  assumes "fst (resolveSession verify now jwt db) = Some who"
  shows "\<exists>jti s. find_by se_id jti (db_sessions db) = Some s \<and> se_userId s = a_userId who \<and> se_revokedAt s = None"
  using resolveSession_Some [OF assms] unfolding live_session_def session_actor_def by fastforce

lemma revoke_all_ends_sessions:
  "fst (resolveSession verify now' jwt (revokeAllSessions userId None now db)) = Some who \<Longrightarrow> a_userId who \<noteq> userId"
  using resolveSession_user [of verify now' jwt "revokeAllSessions userId None now db" who] revoked_rows
  by blast

section \<open>What the guard lets through\<close>

lemma admit_ok:
  assumes "admit cfg r req who db = Inr ()"
  shows "(\<forall>s\<in>set (ro_scopes r). s \<noteq> ''admin'' \<longrightarrow> s \<in> a_scopes who)"
    and "''admin'' \<in> set (ro_scopes r) \<Longrightarrow> hasStaffScope (a_scopes who)"
    and "a_suspended who \<Longrightarrow> startsWith (rq_path req) ''/admin/'' \<and> hasStaffScope (a_scopes who)
           \<or> allowedWhileSuspended (rq_method req) (rq_path req) (filter (\<lambda>s. s \<noteq> ''admin'') (ro_scopes r))"
proof -
  show "\<forall>s\<in>set (ro_scopes r). s \<noteq> ''admin'' \<longrightarrow> s \<in> a_scopes who"
    using assms by (auto simp: admit_def Let_def list_all_iff split: if_splits)
  have area: "area_allowed S a \<Longrightarrow> hasStaffScope S" for S a
    by (cases "a = ''any''")
      (auto simp: area_allowed_def hasStaffScope_def startsWith_def intro: bexI [of _ "''admin:'' @ a"])
  show "hasStaffScope (a_scopes who)" if "''admin'' \<in> set (ro_scopes r)"
  proof -
    have "''admin'' \<in> a_scopes who \<or> list_ex (area_allowed (a_scopes who)) (ro_areas r)"
      using assms that by (auto simp: admit_def Let_def split: if_splits)
    then show ?thesis using area by (auto simp: list_ex_iff hasStaffScope_def)
  qed
  show "startsWith (rq_path req) ''/admin/'' \<and> hasStaffScope (a_scopes who)
      \<or> allowedWhileSuspended (rq_method req) (rq_path req) (filter (\<lambda>s. s \<noteq> ''admin'') (ro_scopes r))"
    if "a_suspended who"
    using assms that by (auto simp: admit_def Let_def split: if_splits)
qed

lemma canActivate_admits:
  assumes "canActivate decode sha verify cfg r req now db = (Inr (Some who), db')"
    and "\<not> startsWith (rq_path req) ''/ops/''"
  shows "admit cfg r req who db' = Inr ()"
  using assms by (auto simp: canActivate_def split: if_splits option.splits sum.splits prod.splits)

end
