(* ===== verification/Agent_Rows.thy ===== *)
theory Agent_Rows
  imports Agent_Walk Access
begin

text \<open>
  The life of a run's row (\<^verbatim>\<open>src/apps/api/src/modules/connect/runtime/run.service.ts\<close>): creation,
  the claim by an executor, parking for approval, the end, cancellation, the decisions of people
  and the expiry of their requests.

  The database calls of the source are single statements; between two of them any other process
  may act.  \<open>run_op\<close> are those statements, with what an executor or an approver carries from one to
  the next kept in \<open>run_world\<close>: \<open>rw_executors\<close> the runs being executed, \<open>rw_jobs\<close> the decisions in
  progress, at most one per run because of the run's lock.  Tool outcomes and node results are
  arguments, computed by \<open>Agent_Run\<close> and \<open>Agent_Walk\<close>.
\<close>

record run_row =
  rr_id :: id
  rr_teamId :: id
  rr_agentId :: id
  rr_status :: run_status
  rr_startedAt :: "instant option"
  rr_finishedAt :: "instant option"
  rr_errorCode :: "string option"
  rr_output :: json
  rr_durationMs :: int
  rr_usage :: run_usage
  rr_saved :: "(agent_spec \<times> run_state) option"

record run_db =
  rd_runs :: "run_row list"
  rd_approvals :: "approval list"
  rd_steps :: "(id \<times> run_step) list"

section \<open>Who a run acts as, and its creation\<close>

definition runActor :: "auth_db \<Rightarrow> agent_spec \<Rightarrow> actor result" where
  "runActor db spec =
     (let team = filter (\<lambda>m. ms_teamId m = sp_teamId spec) (db_members db);
          own = find_by ms_userId (sp_createdById spec) team
      in case (case own of None \<Rightarrow> List.find (\<lambda>m. ms_role m = Owner) team | Some m \<Rightarrow> Some m) of
           None \<Rightarrow> Inl (JsError ''agent_owner_missing'')
         | Some m \<Rightarrow>
             if db_teamStatus db (sp_teamId spec) = Some TsSuspended then Inl (ApiError 403 ''account_suspended'')
             else Inr \<lparr>a_userId = ms_userId m, a_teamId = sp_teamId spec, a_role = ms_role m, a_projectId = Some (sp_projectId spec),
                       a_scopes = scopesForRole (ms_role m), a_tokenId = None, a_sessionId = None, a_isAgent = True,
                       a_requireApprovalFor = {}, a_suspended = False, a_ops = False\<rparr>)"

definition no_usage :: run_usage where
  "no_usage = \<lparr>ru_inputTokens = 0, ru_outputTokens = 0, ru_cacheReadTokens = 0, ru_cacheWriteTokens = 0,
     ru_toolCalls = 0, ru_apiCalls = 0, ru_steps = 0, ru_providerCost = 0, ru_models = []\<rparr>"

definition new_state :: "trigger_data \<Rightarrow> run_state" where
  "new_state tr = \<lparr>rs_trigger = tr, rs_done = [], rs_agent = [], rs_approvals = [], rs_execMs = 0, rs_segments = 0\<rparr>"

definition in_progress :: "id \<Rightarrow> run_db \<Rightarrow> nat" where
  "in_progress team db = count_where (\<lambda>r. rr_teamId r = team \<and> rr_status r \<in> {RsQueued, RsRunning}) (rd_runs db)"

text \<open>
  \<open>checks\<close> are the spend controls (\<open>Trust\<close> and \<open>Spend\<close>) for the actor; \<open>required\<close> the variables the
  agent requires and \<open>present\<close> those that have a value.
\<close>

definition create_run ::
  "nat \<Rightarrow> auth_db \<Rightarrow> (actor \<Rightarrow> unit result) \<Rightarrow> string list \<Rightarrow> string list \<Rightarrow> agent_spec \<Rightarrow> trigger_data \<Rightarrow> id \<Rightarrow> run_db
   \<Rightarrow> run_row result \<times> run_db" where
  "create_run maxRuns auth checks required present spec tr newId db =
     (if maxRuns \<le> in_progress (sp_teamId spec) db then (Inl (ApiError 429 ''too_many_runs''), db)
      else case and_then (runActor auth spec) checks of
        Inl e \<Rightarrow> (Inl e, db)
      | Inr _ \<Rightarrow>
          if filter (\<lambda>k. k \<notin> set present) required \<noteq> [] then (Inl invalid, db)
          else let r = \<lparr>rr_id = newId, rr_teamId = sp_teamId spec, rr_agentId = sp_agentId spec, rr_status = RsQueued,
                        rr_startedAt = None, rr_finishedAt = None, rr_errorCode = None, rr_output = JNull, rr_durationMs = 0,
                        rr_usage = no_usage, rr_saved = Some (spec, new_state tr)\<rparr>
               in (Inr r, db\<lparr>rd_runs := rd_runs db @ [r]\<rparr>))"

section \<open>Statements on a row\<close>

definition update_run :: "id \<Rightarrow> run_status set \<Rightarrow> (run_row \<Rightarrow> run_row) \<Rightarrow> run_db \<Rightarrow> run_db" where
  "update_run i sts f db = db\<lparr>rd_runs := update_where (\<lambda>r. rr_id r = i \<and> rr_status r \<in> sts) f (rd_runs db)\<rparr>"

definition run_matches :: "id \<Rightarrow> run_status set \<Rightarrow> run_db \<Rightarrow> bool" where
  "run_matches i sts db \<longleftrightarrow> (\<exists>r\<in>set (rd_runs db). rr_id r = i \<and> rr_status r \<in> sts)"

definition claim_run :: "id \<Rightarrow> instant \<Rightarrow> run_db \<Rightarrow> bool \<times> run_db" where
  "claim_run i now db =
     (run_matches i {RsQueued} db,
      update_run i {RsQueued} (\<lambda>r. r\<lparr>rr_status := RsRunning,
        rr_startedAt := (case rr_startedAt r of None \<Rightarrow> Some now | Some t \<Rightarrow> Some t)\<rparr>) db)"

definition park_run :: "id \<Rightarrow> agent_spec \<Rightarrow> run_state \<Rightarrow> run_usage \<Rightarrow> int \<Rightarrow> run_db \<Rightarrow> run_db" where
  "park_run i spec st u ms db =
     update_run i {RsRunning} (\<lambda>r. r\<lparr>rr_status := RsWaitingApproval, rr_usage := u,
       rr_saved := Some (spec, st\<lparr>rs_execMs := rs_execMs st + ms, rs_segments := rs_segments st + 1\<rparr>)\<rparr>) db"

datatype run_end = Succeeded json | Failed "string option" | Cancelled

definition end_status :: "run_end \<Rightarrow> run_status" where
  "end_status e = (case e of Succeeded _ \<Rightarrow> RsSucceeded | Failed _ \<Rightarrow> RsFailed | Cancelled \<Rightarrow> RsCancelled)"

definition end_code :: "run_end \<Rightarrow> string option" where
  "end_code e = (case e of Succeeded _ \<Rightarrow> None | Failed code \<Rightarrow> Some (case code of None \<Rightarrow> ''run_error'' | Some x \<Rightarrow> x)
                 | Cancelled \<Rightarrow> Some ''cancelled'')"

definition finish_run :: "id \<Rightarrow> run_end \<Rightarrow> json \<Rightarrow> run_usage option \<Rightarrow> int \<Rightarrow> instant \<Rightarrow> run_db \<Rightarrow> run_db" where
  "finish_run i e out u ms now db =
     update_run i (if e = Cancelled then {RsRunning, RsCancelled} else {RsRunning})
       (\<lambda>r. r\<lparr>rr_status := end_status e, rr_output := out, rr_errorCode := end_code e, rr_finishedAt := Some now,
              rr_durationMs := ms, rr_saved := None, rr_usage := (case u of None \<Rightarrow> rr_usage r | Some x \<Rightarrow> x)\<rparr>) db"

text \<open>A failure with details is written to the step log before the row is finished.\<close>

definition note_failure :: "'p run_services \<Rightarrow> run_error \<Rightarrow> 'p run_ctx \<Rightarrow> 'p run_ctx" where
  "note_failure s e c =
     (case e of
        RunFailure code msg d \<Rightarrow>
          if d = JUndef then c
          else addStep s StNode None ''Run failed'' ''failed'' JUndef JUndef
                 (JObj [(''code'', JStr code), (''message'', JStr msg), (''details'', d)]) JUndef c
      | _ \<Rightarrow> c)"

text \<open>How \<open>execute\<close> ends a run whose walk returned or threw; None when it is parked instead.\<close>

definition code_ok :: "string \<Rightarrow> bool" where
  "code_ok s \<longleftrightarrow> s \<noteq> [] \<and> list_all (\<lambda>ch. is_lower ch \<or> ch = CHR ''_'') s"

definition walk_end :: "bool \<Rightarrow> run_error + walk_result \<Rightarrow> run_end option" where
  "walk_end timedOut r =
     (case r of
        Inr WWaiting \<Rightarrow> None
      | Inr (WOut out) \<Rightarrow> Some (Succeeded out)
      | Inl RunCancelled \<Rightarrow> Some Cancelled
      | Inl (RunFailure code _ _) \<Rightarrow> Some (Failed (Some (if timedOut then ''timeout'' else code)))
      | Inl (OtherError code _) \<Rightarrow>
          Some (Failed (Some (if timedOut then ''timeout''
                              else case code of Some x \<Rightarrow> if code_ok x then x else ''run_error'' | None \<Rightarrow> ''run_error''))))"

text \<open>
  The context that an execution ends with: after a walk that failed, unless its time ran out, the failure is noted.
  Nothing checks the step limit here.
\<close>

definition ended_ctx :: "'p run_services \<Rightarrow> bool \<Rightarrow> run_error + walk_result \<Rightarrow> 'p run_ctx \<Rightarrow> 'p run_ctx" where
  "ended_ctx s timedOut r c = (case r of Inl e \<Rightarrow> if timedOut then c else note_failure s e c | Inr _ \<Rightarrow> c)"

lemma note_failure_progress: "progress c (note_failure s e c)"
  by (auto simp: note_failure_def intro: addStep_progress split: run_error.splits)

lemma ended_ctx_logged:
  assumes "walk_run s c = Some (r, c')"
  shows "logged c (ended_ctx s timedOut r c')"
  using walk_run_logged [OF assms] logged_trans [OF walk_run_logged [OF assms]] note_failure_progress [of c' s]
  by (auto simp: ended_ctx_def progress_def split: sum.splits)

lemma ended_ctx_steps:
  "steps_of (ended_ctx s timedOut r c) \<le> Suc (steps_of c)"
  "steps_of (ended_ctx s timedOut r c) = Suc (steps_of c) \<Longrightarrow> \<exists>code msg d. r = Inl (RunFailure code msg d) \<and> d \<noteq> JUndef"
  by (auto simp: ended_ctx_def note_failure_def addStep_def Let_def split: sum.splits run_error.splits if_splits)

definition expire_requests :: "id \<Rightarrow> string \<Rightarrow> instant \<Rightarrow> run_db \<Rightarrow> run_db" where
  "expire_requests i why now db =
     db\<lparr>rd_approvals := update_where (\<lambda>a. ap_kind a = CONNECT_APPROVAL_KIND \<and> ap_resourceId a = Some i \<and> ap_status a = ApPending)
          (\<lambda>a. a\<lparr>ap_status := ApExpired, ap_decidedAt := Some now, ap_reason := Some (Said why)\<rparr>) (rd_approvals db)\<rparr>"

definition cancel_run :: "id \<Rightarrow> id \<Rightarrow> instant \<Rightarrow> run_db \<Rightarrow> bool \<times> run_db" where
  "cancel_run team i now db =
     (let hit = (\<lambda>r. rr_id r = i \<and> rr_teamId r = team \<and> rr_status r \<in> {RsQueued, RsRunning, RsWaitingApproval});
          db1 = db\<lparr>rd_runs := update_where hit (\<lambda>r. r\<lparr>rr_status := RsCancelled, rr_finishedAt := Some now,
                    rr_errorCode := Some ''cancelled''\<rparr>) (rd_runs db)\<rparr>
      in if 0 < count_where hit (rd_runs db) then (True, expire_requests i ''run cancelled'' now db1) else (False, db1))"

section \<open>Decisions\<close>

text \<open>The first pending call of the turn with that id gets its result.\<close>

fun decide_first :: "string \<Rightarrow> string \<times> bool \<Rightarrow> pending_call list \<Rightarrow> pending_call list" where
  "decide_first u res [] = []"
| "decide_first u res (p # ps) =
     (if pc_toolUseId p = u then p\<lparr>pc_result := Some res\<rparr> # ps else p # decide_first u res ps)"

definition decide_call :: "string \<Rightarrow> string \<times> bool \<Rightarrow> loop_state \<Rightarrow> loop_state" where
  "decide_call u res st = st\<lparr>ls_pending := map_option (decide_first u res) (ls_pending st)\<rparr>"

definition run_content :: "tool_run \<Rightarrow> string \<times> bool" where
  "run_content t = (case t of ToolOk _ content \<Rightarrow> (content, False) | ToolFailed content _ \<Rightarrow> (content, True))"

definition drop_approval :: "id \<Rightarrow> run_state \<Rightarrow> run_state" where
  "drop_approval a st = st\<lparr>rs_approvals := AList.delete a (rs_approvals st)\<rparr>"

text \<open>What the outcome of an approved call does to the state; None when it fails the run.\<close>

definition apply_approved :: "id \<Rightarrow> pending_approval \<Rightarrow> tool_run \<Rightarrow> run_state \<Rightarrow> run_state option" where
  "apply_approved a entry out st =
     (case pa_toolUseId entry of
        Some (ch # u) \<Rightarrow>
          Some (drop_approval a
            (case map_of (rs_agent st) (pa_nodeId entry) of
               None \<Rightarrow> st
             | Some loop \<Rightarrow> st\<lparr>rs_agent := AList.update (pa_nodeId entry) (decide_call (ch # u) (run_content out) loop) (rs_agent st)\<rparr>))
      | _ \<Rightarrow>
          (case out of
             ToolFailed _ _ \<Rightarrow> None
           | ToolOk v _ \<Rightarrow> Some (drop_approval a (st\<lparr>rs_done := AList.update (pa_nodeId entry) (v, None) (rs_done st)\<rparr>))))"

datatype run_job = Approving id pending_approval agent_spec run_state | Denying

text \<open>\<open>approveCall\<close> up to the call of the tool: the job it goes on with, if any.\<close>

definition approve_begin :: "id \<Rightarrow> id \<Rightarrow> run_db \<Rightarrow> run_job option" where
  "approve_begin a i db =
     (case find_by rr_id i (rd_runs db) of
        None \<Rightarrow> None
      | Some r \<Rightarrow>
          if rr_status r \<noteq> RsWaitingApproval then None
          else case rr_saved r of
            None \<Rightarrow> None
          | Some (spec, st) \<Rightarrow> map_option (\<lambda>entry. Approving a entry spec st) (map_of (rs_approvals st) a))"

text \<open>The tool and the input of an approved call: what the model sent, or the node's input with its secrets.\<close>

definition has_id :: "string option \<Rightarrow> bool" where
  "has_id x \<longleftrightarrow> x \<noteq> None \<and> x \<noteq> Some []"

definition approved_call ::
  "'p run_services \<Rightarrow> pending_approval \<Rightarrow> template_ctx \<Rightarrow> 'p run_ctx \<Rightarrow> run_error + tool_spec \<times> json" where
  "approved_call s entry t c =
     (let node = find_by gn_id (pa_nodeId entry) (g_nodes (graph_of (rc_spec c))) in
      if startsWith (pa_toolId entry) ''action:'' then
        (case node of
           None \<Rightarrow> Inl (RunFailure ''invalid_workflow'' ''The approved action is no longer in the workflow'' JUndef)
         | Some n \<Rightarrow> (case actionTool s n t ToolMode of Inl e \<Rightarrow> Inl (of_error e) | Inr ti \<Rightarrow> Inr ti))
      else
        (case (if has_id (pa_toolUseId entry) then Inr (pa_input entry)
               else render (srv_numStr s) (case node of None \<Rightarrow> JObj [] | Some n \<Rightarrow> tool_input n) t ToolMode 0) of
           Inl e \<Rightarrow> Inl (of_error e)
         | Inr inp \<Rightarrow>
             (case find_by tls_id (pa_toolId entry) (sp_tools (rc_spec c)) of
                None \<Rightarrow> Inl (RunFailure ''tool_missing'' ''The approved tool no longer exists'' JUndef)
              | Some tool \<Rightarrow> Inr (tool, inp))))"

definition approved_limits :: "nat \<Rightarrow> run_limits \<Rightarrow> run_limits" where
  "approved_limits steps l = l\<lparr>maxSteps := max (maxSteps l) (steps + 2), maxTokensPerRun := 9007199254740991\<rparr>"

definition with_limits :: "run_limits \<Rightarrow> 'p run_ctx \<Rightarrow> 'p run_ctx" where
  "with_limits l c = c\<lparr>rc_spec := (rc_spec c)\<lparr>sp_limits := l\<rparr>\<rparr>"

definition run_approved ::
  "'p run_services \<Rightarrow> id \<Rightarrow> id \<Rightarrow> pending_approval \<Rightarrow> 'p run_ctx \<Rightarrow> (run_error + tool_run) \<times> 'p run_ctx" where
  "run_approved s a who entry c0 =
     (let c = c0\<lparr>rc_deadline := srv_now s (rc_env c0) + 60000 + 5000\<rparr>
      in case approved_call s entry (templateCtx c) c of
           Inl e \<Rightarrow> (Inl e, c)
         | Inr (tool, inp) \<Rightarrow>
             (let c1 = addStep s StApproval (Some (pa_nodeId entry)) (''Approval: '' @ pa_toolName entry) ''approved'' JUndef
                         (JObj [(''approvalId'', JStr a), (''decidedBy'', JStr who)]) JUndef JUndef c;
                  l = sp_limits (rc_spec c1);
                  (r, c2) = runTool s tool inp (pa_nodeId entry) (pa_input entry) True (with_limits (approved_limits (steps_of c1) l) c1)
              in (r, with_limits l c2)))"

definition approve_end ::
  "id \<Rightarrow> id \<Rightarrow> pending_approval \<Rightarrow> agent_spec \<Rightarrow> run_state \<Rightarrow> tool_run \<Rightarrow> run_usage \<Rightarrow> instant \<Rightarrow> run_db \<Rightarrow> run_db" where
  "approve_end i a entry spec st out u now db =
     (case apply_approved a entry out st of
        None \<Rightarrow> update_run i {RsWaitingApproval} (\<lambda>r. r\<lparr>rr_status := RsFailed, rr_errorCode := Some ''tool_failed'',
                  rr_finishedAt := Some now, rr_durationMs := rs_execMs st, rr_saved := None, rr_usage := u\<rparr>) db
      | Some st' \<Rightarrow> update_run i UNIV (\<lambda>r. r\<lparr>rr_status := (if rs_approvals st' \<noteq> [] then RsWaitingApproval else RsQueued),
                  rr_saved := Some (spec, st'), rr_usage := u\<rparr>) db)"

definition deny_begin :: "id \<Rightarrow> run_db \<Rightarrow> run_job option" where
  "deny_begin i db =
     (case find_by rr_id i (rd_runs db) of
        None \<Rightarrow> None | Some r \<Rightarrow> if rr_status r = RsWaitingApproval then Some Denying else None)"

definition deny_step :: "id \<Rightarrow> id \<Rightarrow> string option \<Rightarrow> string option \<Rightarrow> id \<Rightarrow> string option \<Rightarrow> run_db \<Rightarrow> run_step" where
  "deny_step i a node tool who reason db =
     \<lparr>stp_index = count_where (\<lambda>x. fst x = i) (rd_steps db), stp_type = StApproval, stp_nodeId = node,
      stp_name = ''Approval: '' @ (case tool of None \<Rightarrow> ''tool'' | Some n \<Rightarrow> n), stp_status = ''denied'', stp_input = JNull,
      stp_output = JObj [(''approvalId'', JStr a), (''decidedBy'', JStr who), (''reason'', opt_str reason)],
      stp_error = JNull, stp_tokens = JNull\<rparr>"

definition deny_end :: "id \<Rightarrow> id \<Rightarrow> string option \<Rightarrow> string option \<Rightarrow> id \<Rightarrow> string option \<Rightarrow> instant \<Rightarrow> run_db \<Rightarrow> run_db" where
  "deny_end i a node tool who reason now db =
     (let n = count_where (\<lambda>x. fst x = i) (rd_steps db);
          db1 = db\<lparr>rd_steps := rd_steps db @ [(i, deny_step i a node tool who reason db)]\<rparr>
      in expire_requests i ''another request of the run was denied'' now
           (update_run i UNIV (\<lambda>r. r\<lparr>rr_status := RsFailed, rr_errorCode := Some ''approval_denied'', rr_finishedAt := Some now,
              rr_durationMs := (case rr_saved r of None \<Rightarrow> rr_durationMs r | Some (_, st) \<Rightarrow> rs_execMs st),
              rr_saved := None, rr_usage := (rr_usage r)\<lparr>ru_steps := n + 1\<rparr>\<rparr>) db1))"

definition open_requests :: "id \<Rightarrow> instant \<Rightarrow> run_db \<Rightarrow> nat" where
  "open_requests i now db =
     count_where (\<lambda>a. ap_kind a = CONNECT_APPROVAL_KIND \<and> ap_resourceId a = Some i \<and> ap_status a = ApPending \<and> now < ap_expiresAt a)
       (rd_approvals db)"

definition expire_run :: "instant \<Rightarrow> id \<Rightarrow> run_db \<Rightarrow> run_db" where
  "expire_run now i db =
     (if 0 < open_requests i now db then db
      else update_run i {RsWaitingApproval} (\<lambda>r. r\<lparr>rr_status := RsFailed, rr_errorCode := Some ''approval_expired'',
             rr_finishedAt := Some now, rr_saved := None\<rparr>) db)"

definition failExpiredApprovals :: "instant \<Rightarrow> run_db \<Rightarrow> run_db" where
  "failExpiredApprovals now db =
     fold (expire_run now) (map rr_id (take 500 (filter (\<lambda>r. rr_status r = RsWaitingApproval) (rd_runs db)))) db"

section \<open>Everything that happens to rows\<close>

record run_world =
  rw_db :: run_db
  rw_executors :: "id list"
  rw_jobs :: "(id \<times> run_job) list"

datatype run_op =
    OpCreate run_row
  | OpClaim id instant
  | OpPark id agent_spec run_state run_usage int
  | OpFinish id run_end json "run_usage option" int instant
  | OpCancel id id instant
  | OpApprove id id
  | OpApproved id tool_run run_usage instant
  | OpDeny id
  | OpDenied id id "string option" "string option" id "string option" instant
  | OpExpire instant

text \<open>An executor leaves the list when it parks or finishes; a decision starts only under the run's lock.\<close>

fun run_op_step :: "run_op \<Rightarrow> run_world \<Rightarrow> run_world" where
  "run_op_step (OpCreate r) w =
     (if rr_id r \<in> rr_id ` set (rd_runs (rw_db w)) \<or> rr_id r \<in> set (rw_executors w) \<or> rr_id r \<in> fst ` set (rw_jobs w) then w
      else w\<lparr>rw_db := (rw_db w)\<lparr>rd_runs := rd_runs (rw_db w) @ [r\<lparr>rr_status := RsQueued\<rparr>]\<rparr>\<rparr>)"
| "run_op_step (OpClaim i now) w =
     (let (claimed, db) = claim_run i now (rw_db w)
      in w\<lparr>rw_db := db, rw_executors := (if claimed then i # rw_executors w else rw_executors w)\<rparr>)"
| "run_op_step (OpPark i spec st u ms) w =
     (if i \<notin> set (rw_executors w) then w
      else w\<lparr>rw_db := park_run i spec st u ms (rw_db w), rw_executors := remove1 i (rw_executors w)\<rparr>)"
| "run_op_step (OpFinish i e out u ms now) w =
     (if i \<notin> set (rw_executors w) then w
      else w\<lparr>rw_db := finish_run i e out u ms now (rw_db w), rw_executors := remove1 i (rw_executors w)\<rparr>)"
| "run_op_step (OpCancel team i now) w = w\<lparr>rw_db := snd (cancel_run team i now (rw_db w))\<rparr>"
| "run_op_step (OpApprove a i) w =
     (if i \<in> fst ` set (rw_jobs w) then w
      else case approve_begin a i (rw_db w) of None \<Rightarrow> w | Some j \<Rightarrow> w\<lparr>rw_jobs := (i, j) # rw_jobs w\<rparr>)"
| "run_op_step (OpApproved i out u now) w =
     (case map_of (rw_jobs w) i of
        Some (Approving a entry spec st) \<Rightarrow>
          w\<lparr>rw_db := approve_end i a entry spec st out u now (rw_db w), rw_jobs := AList.delete i (rw_jobs w)\<rparr>
      | _ \<Rightarrow> w)"
| "run_op_step (OpDeny i) w =
     (if i \<in> fst ` set (rw_jobs w) then w
      else case deny_begin i (rw_db w) of None \<Rightarrow> w | Some j \<Rightarrow> w\<lparr>rw_jobs := (i, j) # rw_jobs w\<rparr>)"
| "run_op_step (OpDenied i a node tool who reason now) w =
     (case map_of (rw_jobs w) i of
        Some Denying \<Rightarrow> w\<lparr>rw_db := deny_end i a node tool who reason now (rw_db w), rw_jobs := AList.delete i (rw_jobs w)\<rparr>
      | _ \<Rightarrow> w)"
| "run_op_step (OpExpire now) w = w\<lparr>rw_db := failExpiredApprovals now (rw_db w)\<rparr>"

section \<open>One executor\<close>

definition job_on :: "id \<Rightarrow> run_world \<Rightarrow> bool" where
  "job_on i w \<longleftrightarrow> i \<in> fst ` set (rw_jobs w)"

definition run_row_ok :: "run_world \<Rightarrow> run_row \<Rightarrow> bool" where
  "run_row_ok w r \<longleftrightarrow>
     (rr_id r \<in> set (rw_executors w) \<longrightarrow> rr_status r \<in> {RsRunning, RsCancelled})
     \<and> (job_on (rr_id r) w \<longrightarrow> rr_status r \<in> {RsWaitingApproval, RsCancelled, RsFailed})"

definition one_executor :: "run_world \<Rightarrow> bool" where
  "one_executor w \<longleftrightarrow>
     uniq rr_id (rd_runs (rw_db w)) \<and> distinct (rw_executors w) \<and> (\<forall>i. job_on i w \<longrightarrow> i \<notin> set (rw_executors w))
     \<and> (\<forall>r\<in>set (rd_runs (rw_db w)). run_row_ok w r)"

lemma update_run_uniq:
  "(\<And>r. rr_id (f r) = rr_id r) \<Longrightarrow> uniq rr_id (rd_runs (update_run i sts f db)) = uniq rr_id (rd_runs db)"
  by (simp add: update_run_def uniq_update_where)

text \<open>A statement on one row keeps the invariant when the row it leaves fits who is busy with it.\<close>

definition busy_ok :: "id list \<Rightarrow> id set \<Rightarrow> run_row \<Rightarrow> bool" where
  "busy_ok ex js r \<longleftrightarrow>
     (rr_id r \<in> set ex \<longrightarrow> rr_status r \<in> {RsRunning, RsCancelled})
     \<and> (rr_id r \<in> js \<longrightarrow> rr_status r \<in> {RsWaitingApproval, RsCancelled, RsFailed})"

lemma run_row_ok_busy: "run_row_ok w r = busy_ok (rw_executors w) (fst ` set (rw_jobs w)) r"
  by (simp add: run_row_ok_def busy_ok_def job_on_def)

lemma one_executor_busy:
  "one_executor w \<longleftrightarrow> uniq rr_id (rd_runs (rw_db w)) \<and> distinct (rw_executors w)
     \<and> fst ` set (rw_jobs w) \<inter> set (rw_executors w) = {}
     \<and> (\<forall>r\<in>set (rd_runs (rw_db w)). busy_ok (rw_executors w) (fst ` set (rw_jobs w)) r)"
  by (auto simp: one_executor_def run_row_ok_busy job_on_def)

lemma update_one_executor:
  assumes "one_executor w" "\<And>r. rr_id (f r) = rr_id r" "distinct ex" "fst ` set jobs \<inter> set ex = {}"
    "\<And>r. rr_id r \<noteq> i \<Longrightarrow> busy_ok ex (fst ` set jobs) r = busy_ok (rw_executors w) (fst ` set (rw_jobs w)) r"
    "\<And>r. r \<in> set (rd_runs (rw_db w)) \<Longrightarrow> rr_id r = i \<Longrightarrow>
       busy_ok ex (fst ` set jobs) (if rr_status r \<in> sts then f r else r)"
  shows "one_executor (w\<lparr>rw_db := update_run i sts f (rw_db w), rw_executors := ex, rw_jobs := jobs\<rparr>)"
proof -
  have "busy_ok ex (fst ` set jobs) (if rr_id r = i \<and> rr_status r \<in> sts then f r else r)"
    if "r \<in> set (rd_runs (rw_db w))" for r
  proof (cases "rr_id r = i")
    case True
    with assms(6) [OF that] show ?thesis by simp
  next
    case False
    with assms(1,5) that show ?thesis by (simp add: one_executor_busy)
  qed
  then have all: "\<forall>r\<in>set (rd_runs (update_run i sts f (rw_db w))). busy_ok ex (fst ` set jobs) r"
    by (auto simp: update_run_def in_update_where)
  have "uniq rr_id (rd_runs (update_run i sts f (rw_db w)))"
    using assms(1) update_run_uniq [where f = f, OF assms(2)] by (simp add: one_executor_busy)
  with all assms(3,4) show ?thesis unfolding one_executor_busy by simp
qed

lemma one_executor_cong:
  "one_executor w \<Longrightarrow> rd_runs db = rd_runs (rw_db w) \<Longrightarrow> one_executor (w\<lparr>rw_db := db\<rparr>)"
  by (simp add: one_executor_def run_row_ok_def job_on_def)

lemma executor_status:
  "one_executor w \<Longrightarrow> r \<in> set (rd_runs (rw_db w)) \<Longrightarrow> rr_id r \<in> set (rw_executors w) \<Longrightarrow> rr_status r \<in> {RsRunning, RsCancelled}"
  by (auto simp: one_executor_def run_row_ok_def)

lemma job_status:
  "one_executor w \<Longrightarrow> r \<in> set (rd_runs (rw_db w)) \<Longrightarrow> job_on (rr_id r) w
   \<Longrightarrow> rr_status r \<in> {RsWaitingApproval, RsCancelled, RsFailed} \<and> rr_id r \<notin> set (rw_executors w)"
  by (auto simp: one_executor_def run_row_ok_def)

lemma claim_inv:
  assumes "one_executor w"
  shows "one_executor (run_op_step (OpClaim i now) w)"
proof (cases "run_matches i {RsQueued} (rw_db w)")
  case True
  then obtain r where r: "r \<in> set (rd_runs (rw_db w))" "rr_id r = i" "rr_status r = RsQueued"
    by (auto simp: run_matches_def)
  have free: "i \<notin> set (rw_executors w)" "\<not> job_on i w"
    using executor_status [OF assms r(1)] job_status [OF assms r(1)] r by auto
  have same: "r' = r" if "r' \<in> set (rd_runs (rw_db w))" "rr_id r' = i" for r'
    using assms that r by (auto simp: one_executor_def dest: uniq_inj)
  show ?thesis
  proof -
    have "one_executor (w\<lparr>rw_db := snd (claim_run i now (rw_db w)), rw_executors := i # rw_executors w, rw_jobs := rw_jobs w\<rparr>)"
      unfolding claim_run_def snd_conv
    proof (rule update_one_executor [OF assms])
      show "distinct (i # rw_executors w)" "fst ` set (rw_jobs w) \<inter> set (i # rw_executors w) = {}"
        using free assms by (auto simp: one_executor_busy job_on_def)
    qed (use free same r(3) in \<open>auto simp: busy_ok_def job_on_def\<close>)
    then show ?thesis using True by (simp add: claim_run_def)
  qed
next
  case False
  have "rd_runs (snd (claim_run i now (rw_db w))) = rd_runs (rw_db w)"
    using False by (auto simp: claim_run_def update_run_def run_matches_def intro!: update_where_none)
  then show ?thesis using False one_executor_cong [OF assms] by (simp add: claim_run_def)
qed

lemma leave_inv:
  assumes "one_executor w" "i \<in> set (rw_executors w)" "\<And>r. rr_id (f r) = rr_id r"
  shows "one_executor (w\<lparr>rw_db := update_run i sts f (rw_db w), rw_executors := remove1 i (rw_executors w)\<rparr>)"
proof -
  have d: "distinct (rw_executors w)" and nj: "\<not> job_on i w" using assms(1,2) by (auto simp: one_executor_def)
  have "one_executor (w\<lparr>rw_db := update_run i sts f (rw_db w), rw_executors := remove1 i (rw_executors w), rw_jobs := rw_jobs w\<rparr>)"
  proof (rule update_one_executor [OF assms(1,3)])
    show "fst ` set (rw_jobs w) \<inter> set (remove1 i (rw_executors w)) = {}"
      using assms(1) d by (auto simp: one_executor_busy)
  qed (use d nj assms(3) in \<open>auto simp: busy_ok_def job_on_def\<close>)
  then show ?thesis by simp
qed

lemma cancel_runs:
  "rd_runs (snd (cancel_run team i now db)) =
     update_where (\<lambda>r. rr_id r = i \<and> rr_teamId r = team \<and> rr_status r \<in> {RsQueued, RsRunning, RsWaitingApproval})
       (\<lambda>r. r\<lparr>rr_status := RsCancelled, rr_finishedAt := Some now, rr_errorCode := Some ''cancelled''\<rparr>) (rd_runs db)"
  by (simp add: cancel_run_def Let_def expire_requests_def)

lemma one_executor_rows:
  "one_executor (w\<lparr>rw_db := db, rw_jobs := js\<rparr>) \<Longrightarrow> rd_runs db' = rd_runs db \<Longrightarrow> one_executor (w\<lparr>rw_db := db', rw_jobs := js\<rparr>)"
  by (simp add: one_executor_busy)

lemma cancel_inv: "one_executor w \<Longrightarrow> one_executor (run_op_step (OpCancel team i now) w)"
  by (auto simp: one_executor_def cancel_runs ball_update_where uniq_update_where run_row_ok_def job_on_def)

lemma expire_inv: "one_executor w \<Longrightarrow> one_executor (w\<lparr>rw_db := expire_run now i (rw_db w)\<rparr>)"
  by (auto simp: one_executor_def expire_run_def update_run_def ball_update_where uniq_update_where run_row_ok_def job_on_def)

lemma failExpired_inv: "one_executor w \<Longrightarrow> one_executor (w\<lparr>rw_db := failExpiredApprovals now (rw_db w)\<rparr>)"
proof -
  have "one_executor w \<Longrightarrow> one_executor (w\<lparr>rw_db := fold (expire_run now) is (rw_db w)\<rparr>)" for "is" w
    by (induction "is" arbitrary: w) (use expire_inv in fastforce)+
  then show "one_executor w \<Longrightarrow> ?thesis" by (simp add: failExpiredApprovals_def)
qed

lemma begin_inv:
  assumes "one_executor w" "find_by rr_id i (rd_runs (rw_db w)) = Some r" "rr_status r = RsWaitingApproval"
  shows "one_executor (w\<lparr>rw_jobs := (i, j) # rw_jobs w\<rparr>)"
proof -
  have r: "r \<in> set (rd_runs (rw_db w))" "rr_id r = i" using find_by_Some [OF assms(2)] by auto
  have "i \<notin> set (rw_executors w)" using executor_status [OF assms(1) r(1)] assms(3) r(2) by auto
  moreover have "r' = r" if "r' \<in> set (rd_runs (rw_db w))" "rr_id r' = i" for r'
    using assms(1) that r by (auto simp: one_executor_def dest: uniq_inj)
  ultimately show ?thesis
    using assms(1,3) by (auto simp: one_executor_def run_row_ok_def job_on_def)
qed

lemma end_inv:
  assumes "one_executor w" "map_of (rw_jobs w) i = Some j" "\<And>r. rr_id (f r) = rr_id r"
  shows "one_executor (w\<lparr>rw_db := update_run i sts f (rw_db w), rw_jobs := AList.delete i (rw_jobs w)\<rparr>)"
proof -
  have "job_on i w" using assms(2) by (auto simp: job_on_def dest: map_of_SomeD intro: rev_image_eqI)
  then have nx: "i \<notin> set (rw_executors w)" using assms(1) by (auto simp: one_executor_def)
  have keys: "fst ` set (AList.delete i (rw_jobs w)) = fst ` set (rw_jobs w) - {i}"
    using delete_keys [of i "rw_jobs w"] by (metis list.set_map set_removeAll)
  have "one_executor (w\<lparr>rw_db := update_run i sts f (rw_db w), rw_executors := rw_executors w, rw_jobs := AList.delete i (rw_jobs w)\<rparr>)"
  proof (rule update_one_executor [OF assms(1,3)])
    show "fst ` set (AList.delete i (rw_jobs w)) \<inter> set (rw_executors w) = {}" "distinct (rw_executors w)"
      using assms(1) keys by (auto simp: one_executor_busy)
  qed (use nx keys assms(3) in \<open>auto simp: busy_ok_def\<close>)
  then show ?thesis by simp
qed

lemma run_op_inv: "one_executor w \<Longrightarrow> one_executor (run_op_step op w)"
proof (induction op w rule: run_op_step.induct)
  case (1 r w)
  then show ?case by (auto simp: one_executor_def uniq_def run_row_ok_def job_on_def)
next
  case (2 i now w)
  then show ?case by (rule claim_inv)
next
  case (3 i spec st u ms w)
  then show ?case by (simp add: park_run_def leave_inv)
next
  case (4 i e out u ms now w)
  then show ?case by (simp add: finish_run_def leave_inv)
next
  case (5 team i now w)
  then show ?case by (rule cancel_inv)
next
  case (6 a i w)
  then show ?case by (auto simp: approve_begin_def intro: begin_inv split: option.splits if_splits)
next
  case (7 i out u now w)
  then show ?case by (auto simp: approve_end_def intro!: end_inv split: option.splits run_job.splits)
next
  case (8 i w)
  then show ?case by (auto simp: deny_begin_def intro: begin_inv split: option.splits if_splits)
next
  case (9 i a node tool who reason now w)
  then show ?case
    by (auto simp: deny_end_def Let_def expire_requests_def update_run_def split: option.splits run_job.splits
        intro!: one_executor_rows [OF end_inv [where sts = UNIV and f = "\<lambda>r. r\<lparr>rr_status := RsFailed, rr_errorCode := Some ''approval_denied'',
          rr_finishedAt := Some now, rr_durationMs := (case rr_saved r of None \<Rightarrow> rr_durationMs r | Some (_, st) \<Rightarrow> rs_execMs st), rr_saved := None,
          rr_usage := (rr_usage r)\<lparr>ru_steps := count_where (\<lambda>x. fst x = i) (rd_steps (rw_db w)) + 1\<rparr>\<rparr>"]])
next
  case (10 now w)
  then show ?case by (simp add: failExpired_inv)
qed

interpretation fleet: guarded_system one_executor run_op_step
  by unfold_locales (rule run_op_inv)

section \<open>The end is final\<close>

definition ENDED :: "run_status set" where "ENDED = {RsSucceeded, RsFailed, RsCancelled}"

definition has_ended :: "id \<Rightarrow> run_row list \<Rightarrow> bool" where
  "has_ended i rows \<longleftrightarrow> (\<exists>r\<in>set rows. rr_id r = i \<and> rr_status r \<in> ENDED)"

lemma ENDED_simps [simp]:
  "RsSucceeded \<in> ENDED" "RsFailed \<in> ENDED" "RsCancelled \<in> ENDED" "RsQueued \<notin> ENDED" "RsRunning \<notin> ENDED" "RsWaitingApproval \<notin> ENDED"
  by (simp_all add: ENDED_def)

text \<open>A run that has ended, with nobody in the middle of a decision about it.\<close>

definition over :: "id \<Rightarrow> run_world \<Rightarrow> bool" where
  "over i w \<longleftrightarrow> one_executor w \<and> \<not> job_on i w \<and> has_ended i (rd_runs (rw_db w))"

lemma ended_update:
  assumes "has_ended i rows" "\<And>r. rr_id (f r) = rr_id r"
    "\<And>r. r \<in> set rows \<Longrightarrow> rr_id r = i \<Longrightarrow> rr_status r \<in> ENDED \<Longrightarrow> p r \<Longrightarrow> rr_status (f r) \<in> ENDED"
  shows "has_ended i (update_where p f rows)"
proof -
  obtain r where r: "r \<in> set rows" "rr_id r = i" "rr_status r \<in> ENDED" using assms(1) by (auto simp: has_ended_def)
  show ?thesis
  proof (cases "p r")
    case True
    then have "f r \<in> set (update_where p f rows)" using r(1) by (auto simp: in_update_where)
    then show ?thesis using assms(2,3) r True unfolding has_ended_def by blast
  next
    case False
    then have "r \<in> set (update_where p f rows)" using r(1) by (auto simp: in_update_where)
    then show ?thesis using r unfolding has_ended_def by blast
  qed
qed

lemma ended_append: "has_ended i rows \<Longrightarrow> has_ended i (rows @ qs)"
  by (auto simp: has_ended_def)

lemma ended_expire:
  "has_ended i (rd_runs db) \<Longrightarrow>
     has_ended i (rd_runs (fold (expire_run now) is db))" for "is"
proof (induction "is" arbitrary: db)
  case (Cons j js)
  have "has_ended i (rd_runs (expire_run now j db))"
    using Cons.prems by (auto simp: expire_run_def update_run_def intro!: ended_update)
  from Cons.IH [OF this] show ?case by simp
qed simp

lemma over_no_begin:
  assumes "over i w" "find_by rr_id i (rd_runs (rw_db w)) = Some r"
  shows "rr_status r \<noteq> RsWaitingApproval"
proof -
  obtain r' where "r' \<in> set (rd_runs (rw_db w))" "rr_id r' = i" "rr_status r' \<in> ENDED" "uniq rr_id (rd_runs (rw_db w))"
    using assms(1) by (auto simp: over_def one_executor_def has_ended_def)
  with find_by_uniq [of rr_id "rd_runs (rw_db w)" r'] assms(2) show ?thesis by (auto simp: ENDED_def)
qed

lemma over_rows:
  assumes "over i w" "one_executor w'" "\<And>j. j \<in> fst ` set (rw_jobs w') \<Longrightarrow> j \<noteq> i"
    "has_ended i (rd_runs (rw_db w'))"
  shows "over i w'"
  using assms by (auto simp: over_def job_on_def)

lemma over_rows_of: "over i w \<Longrightarrow> has_ended i (rd_runs (rw_db w))"
  by (simp add: over_def)

lemma over_other_job:
  assumes "over i w" "map_of (rw_jobs w) j = Some x"
  shows "j \<noteq> i" "\<And>k. k \<in> fst ` set (AList.delete j (rw_jobs w)) \<Longrightarrow> k \<noteq> i"
proof -
  have nj: "i \<notin> fst ` set (rw_jobs w)" using assms(1) by (simp add: over_def job_on_def)
  have "j \<in> fst ` set (rw_jobs w)" using assms(2) by (metis map_of_SomeD fst_conv image_eqI)
  with nj show "j \<noteq> i" by blast
  have "fst ` set (AList.delete j (rw_jobs w)) \<subseteq> fst ` set (rw_jobs w)"
    using delete_keys [of j "rw_jobs w"] by (metis Diff_subset list.set_map set_removeAll)
  with nj show "k \<noteq> i" if "k \<in> fst ` set (AList.delete j (rw_jobs w))" for k using that by blast
qed

lemma over_step:
  assumes "over i w"
  shows "over i (run_op_step op w)"
proof (rule over_rows [OF assms])
  have inv: "one_executor w" and nj: "i \<notin> fst ` set (rw_jobs w)" using assms by (auto simp: over_def job_on_def)
  show "one_executor (run_op_step op w)" by (rule run_op_inv [OF inv])
  show "j \<noteq> i" if "j \<in> fst ` set (rw_jobs (run_op_step op w))" for j
    using that nj over_no_begin [OF assms] over_other_job(2) [OF assms]
    by (cases op) (auto simp: Let_def claim_run_def approve_begin_def deny_begin_def split: if_splits option.splits run_job.splits)
  note ended = over_rows_of [OF assms]
  show "has_ended i (rd_runs (rw_db (run_op_step op w)))"
  proof (cases op)
    case (OpApproved j out u now)
    then show ?thesis
      using ended over_other_job(1) [OF assms]
      by (auto simp: approve_end_def update_run_def split: option.splits run_job.splits intro!: ended_update)
  next
    case (OpDenied j a node tool who reason now)
    then show ?thesis
      using ended
      by (auto simp: deny_end_def Let_def update_run_def expire_requests_def split: option.splits run_job.splits intro!: ended_update)
  next
    case (OpExpire now)
    then show ?thesis using ended_expire [OF ended] by (simp add: failExpiredApprovals_def)
  next
    case (OpFinish j e out u ms now)
    then show ?thesis
      using ended by (auto simp: finish_run_def update_run_def end_status_def split: run_end.splits intro!: ended_update)
  qed (use ended in \<open>auto simp: Let_def claim_run_def park_run_def cancel_runs update_run_def
         split: option.splits intro!: ended_update ended_append\<close>)
qed

interpretation grave: guarded_system "over i" run_op_step for i
  by unfold_locales (rule over_step)

text \<open>
  While a person's decision is being carried out the end is not final: the last statement of an
  approval writes the row whatever its status is, so a cancellation that lands during the
  approved call is lost and the run is queued again.
\<close>

lemma cancelled_run_requeued:
  assumes "find_by rr_id i (rd_runs (rw_db w)) = Some r" "rr_status r = RsWaitingApproval" "uniq rr_id (rd_runs (rw_db w))"
    "map_of (rw_jobs w) i = Some (Approving a entry spec st)"
    "apply_approved a entry out st = Some st'" "rs_approvals st' = []"
  shows "find_by rr_id i (rd_runs (rw_db (run_op_step (OpCancel (rr_teamId r) i t1) w)))
           = Some (r\<lparr>rr_status := RsCancelled, rr_finishedAt := Some t1, rr_errorCode := Some ''cancelled''\<rparr>)"
    and "\<exists>r'. find_by rr_id i (rd_runs (rw_db (fold run_op_step [OpCancel (rr_teamId r) i t1, OpApproved i out u t2] w))) = Some r'
           \<and> rr_status r' = RsQueued"
proof -
  have i: "rr_id r = i" using find_by_Some [OF assms(1)] by simp
  show c: "find_by rr_id i (rd_runs (rw_db (run_op_step (OpCancel (rr_teamId r) i t1) w)))
      = Some (r\<lparr>rr_status := RsCancelled, rr_finishedAt := Some t1, rr_errorCode := Some ''cancelled''\<rparr>)"
    using assms(1,2) i by (simp add: cancel_runs find_by_update_where)
  let ?w = "run_op_step (OpCancel (rr_teamId r) i t1) w"
  have "find_by rr_id i (rd_runs (approve_end i a entry spec st out u t2 (rw_db ?w))) =
      map_option (\<lambda>r. if rr_id r = i then r\<lparr>rr_status := RsQueued, rr_saved := Some (spec, st'), rr_usage := u\<rparr> else r)
        (find_by rr_id i (rd_runs (rw_db ?w)))"
    using assms(5,6) by (simp add: approve_end_def update_run_def find_by_update_where)
  then show "\<exists>r'. find_by rr_id i (rd_runs (rw_db (fold run_op_step [OpCancel (rr_teamId r) i t1, OpApproved i out u t2] w))) = Some r'
           \<and> rr_status r' = RsQueued"
    using assms(4) c i by simp
qed

section \<open>Decisions are carried out once\<close>

lemma apply_approved_drops: "apply_approved a entry out st = Some st' \<Longrightarrow> map_of (rs_approvals st') a = None"
  by (auto simp: apply_approved_def drop_approval_def delete_conv' split: option.splits list.splits tool_run.splits)

lemma approved_once:
  assumes "apply_approved a entry out st = Some st'"
  shows "approve_begin a i (approve_end i a entry spec st out u now db) = None"
proof -
  have "find_by rr_id i (rd_runs (approve_end i a entry spec st out u now db)) =
      map_option (\<lambda>r. if rr_id r = i then r\<lparr>rr_status := (if rs_approvals st' \<noteq> [] then RsWaitingApproval else RsQueued),
        rr_saved := Some (spec, st'), rr_usage := u\<rparr> else r) (find_by rr_id i (rd_runs db))"
    using assms by (simp add: approve_end_def update_run_def find_by_update_where)
  then show ?thesis
    using apply_approved_drops [OF assms] by (auto simp: approve_begin_def dest!: find_by_Some split: option.splits)
qed

lemma decide_first_ids: "map pc_toolUseId (decide_first u res ps) = map pc_toolUseId ps"
  by (induction ps) auto

lemma decide_first_empty: "decide_first u res ps = [] \<longleftrightarrow> ps = []"
  by (cases ps) auto

lemma decide_resumable:
  assumes "resumable ns st"
  shows "resumable ns (decide_call u res st)"
proof -
  have "pending_list (decide_call u res st) = decide_first u res (pending_list st)"
    by (simp add: decide_call_def pending_list_def split: option.split)
  moreover have "pc_toolUseId ` set (decide_first u res ps) = pc_toolUseId ` set ps" for ps
    using decide_first_ids [of u res ps] by (metis list.set_map)
  moreover have "ls_messages (decide_call u res st) = ls_messages st" "ls_order (decide_call u res st) = ls_order st"
    "results_list (decide_call u res st) = results_list st"
    by (simp_all add: decide_call_def results_list_def)
  ultimately show ?thesis using assms by (simp add: resumable_def decide_first_empty)
qed

text \<open>Limits on steps and tokens do not stop a call that a person approved.\<close>

lemma approved_not_limited:
  assumes "tokens_used (rc_usage c) < 9007199254740991"
    "guard_now s (with_limits (approved_limits (steps_of c) l) c) = (Some e, c')"
  shows "\<exists>spec. e = timeout_failure spec"
  using assms by (auto simp: guard_now_def with_limits_def approved_limits_def Let_def split: if_splits)

section \<open>Creation\<close>

lemma runActor_scopes:
  assumes "runActor db spec = Inr who"
  shows "a_scopes who = scopesForRole (a_role who)" "a_teamId who = sp_teamId spec" "a_projectId who = Some (sp_projectId spec)"
    "\<exists>m\<in>set (db_members db). ms_teamId m = sp_teamId spec \<and> ms_userId m = a_userId who \<and> ms_role m = a_role who
       \<and> (ms_userId m = sp_createdById spec \<or> ms_role m = Owner)"
proof -
  show "a_scopes who = scopesForRole (a_role who)" "a_teamId who = sp_teamId spec" "a_projectId who = Some (sp_projectId spec)"
    using assms by (auto simp: runActor_def Let_def split: option.splits if_splits)
  let ?team = "filter (\<lambda>m. ms_teamId m = sp_teamId spec) (db_members db)"
  obtain m where m: "(case find_by ms_userId (sp_createdById spec) ?team of None \<Rightarrow> List.find (\<lambda>m. ms_role m = Owner) ?team | Some m \<Rightarrow> Some m) = Some m"
    "a_userId who = ms_userId m" "a_role who = ms_role m"
    using assms by (auto simp: runActor_def Let_def split: option.splits if_splits)
  have "m \<in> set ?team \<and> (ms_userId m = sp_createdById spec \<or> ms_role m = Owner)"
    using m(1) by (auto simp: find_Some_iff dest!: find_by_Some split: option.splits) (use nth_mem [of _ ?team] in fastforce)+
  with m show "\<exists>m\<in>set (db_members db). ms_teamId m = sp_teamId spec \<and> ms_userId m = a_userId who \<and> ms_role m = a_role who
       \<and> (ms_userId m = sp_createdById spec \<or> ms_role m = Owner)" by auto
qed

lemma create_run_limit:
  assumes "create_run n auth checks required present spec tr newId db = (Inr r, db')"
  shows "in_progress (sp_teamId spec) db < n" "in_progress (sp_teamId spec) db' \<le> n" "rr_status r = RsQueued"
    "set required \<subseteq> set present" "is_ok (and_then (runActor auth spec) checks)"
  using assms
  by (auto simp: create_run_def in_progress_def count_where_def is_ok_def filter_empty_conv Let_def split: if_splits sum.splits)

end
