(* ===== verification/Team_Members.thy ===== *)
theory Team_Members
  imports Access Billing_Data
begin

text \<open>
  Members, invitations, the billing profile and the end of an account:
  \<open>modules/team/team.service.ts\<close>.

  The tables are those of \<open>Access\<close> (members, tokens, sessions, users, team status) with the rows only
  this service writes: invitations, email addresses, team profiles and webhooks.  \<open>sha\<close> is the
  SHA-256 of \<open>node:crypto\<close>, \<open>sign\<close> signs a session; identifiers, random tokens and the current time are
  arguments, and identifiers of new rows are fresh.  The two transactions run under an advisory
  lock per team and are one step each.  Audit events, mails and password hashes are not modelled.
  The sweep that deletes the resources of a closed team only starts deletions in other services; what
  it could not start is the argument \<open>remaining\<close>.
\<close>

section \<open>State\<close>

record invitation =
  iv_id :: id
  iv_teamId :: id
  iv_email :: string
  iv_role :: team_role
  iv_tokenHash :: string
  iv_invitedBy :: id
  iv_expiresAt :: instant
  iv_acceptedAt :: "instant option"
  iv_acceptedBy :: "id option"
  iv_revokedAt :: "instant option"
  iv_createdAt :: instant

record team_profile =
  tp_id :: id
  tp_name :: string
  tp_slug :: string
  tp_country :: string
  tp_billingEmail :: "string option"
  tp_taxId :: "string option"
  tp_billingAddress :: "string option"

record webhook =
  wh_id :: id
  wh_teamId :: id
  wh_active :: bool

record team_store =
  ts_auth :: auth_db
  ts_emails :: "(id \<times> string) list"
  ts_invitations :: "invitation list"
  ts_profiles :: "team_profile list"
  ts_webhooks :: "webhook list"

definition INVITE_TTL_MS :: int where "INVITE_TTL_MS = 7 * 86400000"

abbreviation member_key :: "membership \<Rightarrow> id \<times> id" where
  "member_key m \<equiv> (ms_teamId m, ms_userId m)"

definition human :: "actor \<Rightarrow> unit result" where
  "human who = (if a_isAgent who then Inl forbidden else Inr ())"

text \<open>Every answer ends with the team as the caller sees it, which a token needs a scope for.\<close>

definition get_team :: "actor \<Rightarrow> team_store \<Rightarrow> unit result" where
  "get_team who st =
     (if given (a_tokenId who) \<and> ''iam:read'' \<notin> a_scopes who then Inl forbidden
      else if find_by tp_id (a_teamId who) (ts_profiles st) = None then Inl (JsError ''team not found'')
      else Inr ())"

definition open_invitation :: "invitation \<Rightarrow> bool" where
  "open_invitation v \<longleftrightarrow> iv_acceptedAt v = None \<and> iv_revokedAt v = None"

definition listed_invitations :: "actor \<Rightarrow> instant \<Rightarrow> team_store \<Rightarrow> invitation list" where
  "listed_invitations who now st =
     sort_key (\<lambda>v. - iv_createdAt v)
       (filter (\<lambda>v. iv_teamId v = a_teamId who \<and> open_invitation v \<and> now < iv_expiresAt v) (ts_invitations st))"

section \<open>The billing profile\<close>

record profile_dto =
  pd_name :: "string option"
  pd_billingEmail :: "string option option"
  pd_taxId :: "string option option"
  pd_billingAddress :: "string option option"
  pd_country :: "string option"

definition or_null :: "string \<Rightarrow> string option" where
  "or_null s = (if s = [] then None else Some s)"

definition patch :: "'a option \<Rightarrow> 'a \<Rightarrow> 'a" where
  "patch new old = (case new of None \<Rightarrow> old | Some v \<Rightarrow> v)"

definition updateProfile :: "actor \<Rightarrow> profile_dto \<Rightarrow> team_store \<Rightarrow> unit result \<times> team_store" where
  "updateProfile who dto st =
     (case human who of
        Inl e \<Rightarrow> (Inl e, st)
      | Inr _ \<Rightarrow>
          if find_by tp_id (a_teamId who) (ts_profiles st) = None then (Inl (JsError ''team not found''), st)
          else
            (let clean = (\<lambda>f v. Option.bind v (\<lambda>s. or_null (f (trim s))));
                 st1 = st\<lparr> ts_profiles := update_where (\<lambda>p. tp_id p = a_teamId who)
                   (\<lambda>p. p\<lparr> tp_name := patch (map_option trim (pd_name dto)) (tp_name p),
                           tp_billingEmail := patch (map_option (clean toLowerCase) (pd_billingEmail dto)) (tp_billingEmail p),
                           tp_taxId := patch (map_option (clean (\<lambda>s. s)) (pd_taxId dto)) (tp_taxId p),
                           tp_billingAddress := patch (map_option (clean (\<lambda>s. s)) (pd_billingAddress dto)) (tp_billingAddress p),
                           tp_country := patch (pd_country dto) (tp_country p) \<rparr>) (ts_profiles st) \<rparr>
             in (get_team who st1, st1)))"

section \<open>Members\<close>

definition members :: "team_store \<Rightarrow> membership list" where "members st = db_members (ts_auth st)"

definition set_members :: "membership list \<Rightarrow> team_store \<Rightarrow> team_store" where
  "set_members ms st = st\<lparr> ts_auth := (ts_auth st)\<lparr> db_members := ms \<rparr> \<rparr>"

definition owner_count :: "id \<Rightarrow> team_store \<Rightarrow> nat" where
  "owner_count teamId st = count_where (\<lambda>m. ms_teamId m = teamId \<and> ms_role m = Owner) (members st)"

definition changeRole :: "actor \<Rightarrow> id \<Rightarrow> team_role \<Rightarrow> team_store \<Rightarrow> unit result \<times> team_store" where
  "changeRole who userId r st =
     (case human who of
        Inl e \<Rightarrow> (Inl e, st)
      | Inr _ \<Rightarrow>
          if a_role who \<noteq> Owner then (Inl forbidden, st)
          else case find_by member_key (a_teamId who, userId) (members st) of
                 None \<Rightarrow> (Inl notFound, st)
               | Some m \<Rightarrow>
                   if ms_role m = Owner \<and> r \<noteq> Owner \<and> owner_count (a_teamId who) st \<le> 1 then (Inl invalidState, st)
                   else (let st1 = set_members (update_where (\<lambda>x. member_key x = (a_teamId who, userId))
                                     (\<lambda>x. x\<lparr> ms_role := r \<rparr>) (members st)) st
                         in (get_team who st1, st1)))"

definition revoke_tokens :: "(stored_token \<Rightarrow> bool) \<Rightarrow> instant \<Rightarrow> team_store \<Rightarrow> team_store" where
  "revoke_tokens p now st =
     st\<lparr> ts_auth := (ts_auth st)\<lparr> db_tokens := update_where (\<lambda>t. p t \<and> to_revokedAt t = None)
           (\<lambda>t. t\<lparr> to_revokedAt := Some now \<rparr>) (db_tokens (ts_auth st)) \<rparr> \<rparr>"

definition removeMember :: "actor \<Rightarrow> id \<Rightarrow> instant \<Rightarrow> team_store \<Rightarrow> unit result \<times> team_store" where
  "removeMember who userId now st =
     (case human who of
        Inl e \<Rightarrow> (Inl e, st)
      | Inr _ \<Rightarrow>
          if userId \<noteq> a_userId who \<and> a_role who \<notin> {Owner, Admin} then (Inl forbidden, st)
          else case find_by member_key (a_teamId who, userId) (members st) of
                 None \<Rightarrow> (Inl notFound, st)
               | Some m \<Rightarrow>
                   if ms_role m = Owner \<and> userId \<noteq> a_userId who \<and> a_role who \<noteq> Owner then (Inl forbidden, st)
                   else if ms_role m = Owner \<and> owner_count (a_teamId who) st \<le> 1 then (Inl invalidState, st)
                   else (Inr (),
                         revoke_tokens (\<lambda>t. to_teamId t = a_teamId who \<and> to_userId t = userId) now
                           (set_members (filter (\<lambda>x. member_key x \<noteq> (a_teamId who, userId)) (members st)) st)))"

section \<open>Invitations\<close>

definition is_member :: "id \<Rightarrow> string \<Rightarrow> team_store \<Rightarrow> bool" where
  "is_member teamId email st \<longleftrightarrow>
     list_ex (\<lambda>m. ms_teamId m = teamId \<and> map_of (ts_emails st) (ms_userId m) = Some email) (members st)"

definition revoke_invitations :: "(invitation \<Rightarrow> bool) \<Rightarrow> instant \<Rightarrow> team_store \<Rightarrow> team_store" where
  "revoke_invitations p now st =
     st\<lparr> ts_invitations := update_where (\<lambda>v. p v \<and> open_invitation v) (\<lambda>v. v\<lparr> iv_revokedAt := Some now \<rparr>) (ts_invitations st) \<rparr>"

definition invite ::
  "(string \<Rightarrow> string) \<Rightarrow> actor \<Rightarrow> string \<Rightarrow> team_role \<Rightarrow> string \<Rightarrow> id \<Rightarrow> instant \<Rightarrow> team_store
     \<Rightarrow> invitation result \<times> team_store" where
  "invite sha who email r token newId now st =
     (case human who of
        Inl e \<Rightarrow> (Inl e, st)
      | Inr _ \<Rightarrow>
          if r = Owner \<and> a_role who \<noteq> Owner then (Inl forbidden, st)
          else
            (let addr = toLowerCase (trim email);
                 v = \<lparr> iv_id = newId, iv_teamId = a_teamId who, iv_email = addr, iv_role = r, iv_tokenHash = sha token,
                       iv_invitedBy = a_userId who, iv_expiresAt = now + INVITE_TTL_MS, iv_acceptedAt = None,
                       iv_acceptedBy = None, iv_revokedAt = None, iv_createdAt = now \<rparr>;
                 pending = (\<lambda>x. iv_teamId x = a_teamId who \<and> open_invitation x \<and> now < iv_expiresAt x);
                 st1 = revoke_invitations (\<lambda>x. iv_teamId x = a_teamId who \<and> iv_email x = addr) now st;
                 st2 = st1\<lparr> ts_invitations := ts_invitations st1 @ [v] \<rparr>
             in if is_member (a_teamId who) addr st then (Inl (conflict ''already_member''), st)
                else if 50 \<le> count_where pending (ts_invitations st) then (Inl quota, st)
                else if find_by tp_id (a_teamId who) (ts_profiles st) = None \<or> map_of (ts_emails st) (a_userId who) = None
                then (Inl (JsError ''row not found''), st2)
                else (Inr v, st2)))"

definition revokeInvitation :: "actor \<Rightarrow> id \<Rightarrow> instant \<Rightarrow> team_store \<Rightarrow> unit result \<times> team_store" where
  "revokeInvitation who i now st =
     (let hit = (\<lambda>v. iv_id v = i \<and> iv_teamId v = a_teamId who)
      in if count_where (\<lambda>v. hit v \<and> open_invitation v) (ts_invitations st) = 0 then (Inl notFound, st)
         else (Inr (), revoke_invitations hit now st))"

definition invitation_expired :: error where "invitation_expired = ApiError 410 ''invitation_expired''"

definition findUsable :: "(string \<Rightarrow> string) \<Rightarrow> string option \<Rightarrow> instant \<Rightarrow> team_store \<Rightarrow> invitation result" where
  "findUsable sha token now st =
     (case find_by iv_tokenHash (sha (case token of None \<Rightarrow> [] | Some t \<Rightarrow> t)) (ts_invitations st) of
        None \<Rightarrow> Inl notFound
      | Some v \<Rightarrow>
          if \<not> open_invitation v then Inl notFound
          else if iv_expiresAt v < now then Inl invitation_expired
          else if db_teamStatus (ts_auth st) (iv_teamId v) = Some TsClosed then Inl invalidState
          else Inr v)"

definition join_team ::
  "(jwt_claims \<Rightarrow> string) \<Rightarrow> id \<Rightarrow> int \<Rightarrow> invitation \<Rightarrow> id \<Rightarrow> instant \<Rightarrow> team_store \<Rightarrow> string result \<times> team_store" where
  "join_team sign sessionId ttl v userId now st =
     (let hit = (\<lambda>x. iv_id x = iv_id v \<and> open_invitation x);
          st1 = st\<lparr> ts_invitations := update_where hit (\<lambda>x. x\<lparr> iv_acceptedAt := Some now, iv_acceptedBy := Some userId \<rparr>)
                     (ts_invitations st) \<rparr>;
          st2 = set_members (upsert member_key (iv_teamId v, userId)
                  \<lparr> ms_teamId = iv_teamId v, ms_userId = userId, ms_role = iv_role v \<rparr> (\<lambda>m. m) (members st1)) st1
      in if count_where hit (ts_invitations st) = 0 then (Inl invalidState, st)
         else if find_by tp_id (iv_teamId v) (ts_profiles st) = None then (Inl (JsError ''team not found''), st2)
         else (let (jwt, auth) = issueSession sign sessionId ttl now userId (iv_teamId v) (ts_auth st2)
               in (Inr jwt, st2\<lparr> ts_auth := auth \<rparr>)))"

definition join_as ::
  "(jwt_claims \<Rightarrow> string) \<Rightarrow> id \<Rightarrow> int \<Rightarrow> invitation \<Rightarrow> id \<Rightarrow> instant \<Rightarrow> team_store \<Rightarrow> string result \<times> team_store" where
  "join_as sign sessionId ttl v userId now st =
     (case map_of (ts_emails st) userId of
        None \<Rightarrow> (Inl (JsError ''user not found''), st)
      | Some e \<Rightarrow> if e \<noteq> iv_email v then (Inl forbidden, st) else join_team sign sessionId ttl v userId now st)"

definition accept ::
  "(string \<Rightarrow> string) \<Rightarrow> (jwt_claims \<Rightarrow> string) \<Rightarrow> id \<Rightarrow> int \<Rightarrow> actor \<Rightarrow> string option \<Rightarrow> instant \<Rightarrow> team_store
     \<Rightarrow> string result \<times> team_store" where
  "accept sha sign sessionId ttl who token now st =
     (case human who of
        Inl e \<Rightarrow> (Inl e, st)
      | Inr _ \<Rightarrow>
          (case findUsable sha token now st of
             Inl e \<Rightarrow> (Inl e, st)
           | Inr v \<Rightarrow> join_as sign sessionId ttl v (a_userId who) now st))"

definition acceptForUser ::
  "(string \<Rightarrow> string) \<Rightarrow> (jwt_claims \<Rightarrow> string) \<Rightarrow> id \<Rightarrow> int \<Rightarrow> id \<Rightarrow> string option \<Rightarrow> instant \<Rightarrow> team_store
     \<Rightarrow> string result \<times> team_store" where
  "acceptForUser sha sign sessionId ttl userId token now st =
     (case findUsable sha token now st of
        Inl e \<Rightarrow> (Inl e, st)
      | Inr v \<Rightarrow> join_as sign sessionId ttl v userId now st)"

definition add_user :: "id \<Rightarrow> string \<Rightarrow> team_store \<Rightarrow> team_store" where
  "add_user userId email st =
     st\<lparr> ts_auth := (ts_auth st)\<lparr> db_users := db_users (ts_auth st)
           @ [\<lparr> us_id = userId, us_isStaff = False, us_staffRoles = [], us_totpEnabled = False \<rparr>] \<rparr>,
         ts_emails := ts_emails st @ [(userId, email)] \<rparr>"

definition acceptWithSignup ::
  "(string \<Rightarrow> string) \<Rightarrow> (jwt_claims \<Rightarrow> string) \<Rightarrow> id \<Rightarrow> int \<Rightarrow> id \<Rightarrow> string option \<Rightarrow> instant \<Rightarrow> team_store
     \<Rightarrow> string result \<times> team_store" where
  "acceptWithSignup sha sign sessionId ttl newUserId token now st =
     (case findUsable sha token now st of
        Inl e \<Rightarrow> (Inl e, st)
      | Inr v \<Rightarrow>
          if iv_email v \<in> snd ` set (ts_emails st) then (Inl (conflict ''email_taken''), st)
          else join_team sign sessionId ttl v newUserId now (add_user newUserId (iv_email v) st))"

definition invitationEmail :: "(string \<Rightarrow> string) \<Rightarrow> string option \<Rightarrow> instant \<Rightarrow> team_store \<Rightarrow> string result" where
  "invitationEmail sha token now st = map_sum id iv_email (findUsable sha token now st)"

definition describeInvitation ::
  "(string \<Rightarrow> string) \<Rightarrow> string option \<Rightarrow> instant \<Rightarrow> team_store \<Rightarrow> (string \<times> string \<times> team_role \<times> instant \<times> bool) result" where
  "describeInvitation sha token now st =
     (case findUsable sha token now st of
        Inl e \<Rightarrow> Inl e
      | Inr v \<Rightarrow>
          (case find_by tp_id (iv_teamId v) (ts_profiles st) of
             None \<Rightarrow> Inl (JsError ''team not found'')
           | Some p \<Rightarrow> Inr (tp_name p, iv_email v, iv_role v, iv_expiresAt v, iv_email v \<in> snd ` set (ts_emails st))))"

section \<open>Closing the account\<close>

definition unpaid_invoices :: "id \<Rightarrow> invoice list \<Rightarrow> nat" where
  "unpaid_invoices teamId vs = count_where (\<lambda>v. inv_teamId v = teamId \<and> inv_status v \<in> {InvOpen, InvUncollectible}) vs"

definition close_rows :: "id \<Rightarrow> instant \<Rightarrow> team_store \<Rightarrow> team_store" where
  "close_rows teamId now st =
     (let st1 = revoke_invitations (\<lambda>v. iv_teamId v = teamId) now (revoke_tokens (\<lambda>t. to_teamId t = teamId) now st)
      in st1\<lparr> ts_auth := (ts_auth st1)\<lparr> db_teamStatus := (db_teamStatus (ts_auth st1))(teamId := Some TsClosed) \<rparr>,
              ts_webhooks := update_where (\<lambda>w. wh_teamId w = teamId) (\<lambda>w. w\<lparr> wh_active := False \<rparr>) (ts_webhooks st1) \<rparr>)"

definition close_account ::
  "actor \<Rightarrow> string \<Rightarrow> invoice list \<Rightarrow> nat \<Rightarrow> instant \<Rightarrow> team_store \<Rightarrow> nat result \<times> team_store" where
  "close_account who confirmSlug invoices remaining now st =
     (case human who of
        Inl e \<Rightarrow> (Inl e, st)
      | Inr _ \<Rightarrow>
          if a_role who \<noteq> Owner then (Inl forbidden, st)
          else case find_by tp_id (a_teamId who) (ts_profiles st) of
                 None \<Rightarrow> (Inl (JsError ''team not found''), st)
               | Some p \<Rightarrow>
                   if db_teamStatus (ts_auth st) (a_teamId who) = Some TsClosed then (Inl invalidState, st)
                   else if confirmSlug \<noteq> tp_slug p then (Inl invalid, st)
                   else if unpaid_invoices (a_teamId who) invoices \<noteq> 0 then (Inl (ApiError 402 ''unpaid_invoices''), st)
                   else (Inr remaining, close_rows (a_teamId who) now st))"

section \<open>Requests in sequence\<close>

text \<open>Every request that changes the rows.  An invitation whose identifier is in use is not written.\<close>

datatype team_op = Profile actor profile_dto | ChangeRole actor id team_role | RemoveMember actor id instant
  | Invite actor string team_role string id instant | RevokeInvitation actor id instant
  | Accept id int actor "string option" instant | AcceptForUser id int id "string option" instant
  | AcceptWithSignup id int id "string option" instant | CloseAccount actor string "invoice list" nat instant

fun team_step :: "(string \<Rightarrow> string) \<Rightarrow> (jwt_claims \<Rightarrow> string) \<Rightarrow> team_op \<Rightarrow> team_store \<Rightarrow> team_store" where
  "team_step sha sign (Profile who dto) st = snd (updateProfile who dto st)"
| "team_step sha sign (ChangeRole who userId r) st = snd (changeRole who userId r st)"
| "team_step sha sign (RemoveMember who userId now) st = snd (removeMember who userId now st)"
| "team_step sha sign (Invite who email r token newId now) st =
     (if newId \<in> iv_id ` set (ts_invitations st) then st else snd (invite sha who email r token newId now st))"
| "team_step sha sign (RevokeInvitation who i now) st = snd (revokeInvitation who i now st)"
| "team_step sha sign (Accept sid ttl who token now) st = snd (accept sha sign sid ttl who token now st)"
| "team_step sha sign (AcceptForUser sid ttl userId token now) st = snd (acceptForUser sha sign sid ttl userId token now st)"
| "team_step sha sign (AcceptWithSignup sid ttl userId token now) st = snd (acceptWithSignup sha sign sid ttl userId token now st)"
| "team_step sha sign (CloseAccount who slug invoices n now) st = snd (close_account who slug invoices n now st)"

section \<open>What the helpers leave alone\<close>

lemma members_simps [simp]:
  "members (set_members ms st) = ms"
  "members (revoke_tokens p now st) = members st"
  "members (revoke_invitations q now st) = members st"
  "members (add_user u e st) = members st"
  "members (close_rows teamId now st) = members st"
  "members (st\<lparr> ts_invitations := vs \<rparr>) = members st"
  "members (st\<lparr> ts_profiles := ps \<rparr>) = members st"
  by (simp_all add: members_def set_members_def revoke_tokens_def revoke_invitations_def add_user_def close_rows_def Let_def)

lemma members_issueSession: "issueSession sign sid ttl now u tm (ts_auth st) = (j, auth) \<Longrightarrow> members (st\<lparr> ts_auth := auth \<rparr>) = members st"
  by (auto simp: members_def issueSession_def)

lemma invitations_simps [simp]:
  "ts_invitations (set_members ms st) = ts_invitations st"
  "ts_invitations (revoke_tokens p now st) = ts_invitations st"
  "ts_invitations (add_user u e st) = ts_invitations st"
  by (simp_all add: set_members_def revoke_tokens_def add_user_def)

definition joined :: "invitation \<Rightarrow> id \<Rightarrow> membership list \<Rightarrow> membership list" where
  "joined v userId ms =
     upsert member_key (iv_teamId v, userId) \<lparr> ms_teamId = iv_teamId v, ms_userId = userId, ms_role = iv_role v \<rparr> (\<lambda>m. m) ms"

lemma joined_eq:
  "joined v userId ms = (if (iv_teamId v, userId) \<in> member_key ` set ms then ms
     else ms @ [\<lparr> ms_teamId = iv_teamId v, ms_userId = userId, ms_role = iv_role v \<rparr>])"
  by (simp add: joined_def upsert_def update_where_def)

lemma join_team_members:
  "members (snd (join_team sign sid ttl v userId now st)) = members st
   \<or> (\<exists>x\<in>set (ts_invitations st). iv_id x = iv_id v \<and> open_invitation x)
      \<and> members (snd (join_team sign sid ttl v userId now st)) = joined v userId (members st)"
  by (auto simp: join_team_def Let_def joined_def count_where_0_iff members_issueSession split: prod.splits)

section \<open>A team keeps an owner\<close>

definition owner_of :: "id \<Rightarrow> membership \<Rightarrow> bool" where
  "owner_of teamId m \<longleftrightarrow> ms_teamId m = teamId \<and> ms_role m = Owner"

definition owned :: "id \<Rightarrow> team_store \<Rightarrow> bool" where
  "owned teamId st \<longleftrightarrow> uniq member_key (members st) \<and> (\<exists>m\<in>set (members st). owner_of teamId m)"

lemma another_row:
  assumes "uniq k rows" "m \<in> set rows" "1 < count_where P rows"
  shows "\<exists>x\<in>set rows. P x \<and> k x \<noteq> k m"
proof (rule ccontr)
  assume "\<not> ?thesis"
  then have all: "\<forall>x\<in>set rows. P x \<longrightarrow> x = m" using uniq_inj [OF assms(1) _ assms(2)] by blast
  have "distinct (filter P rows)" using assms(1) by (simp add: uniq_def distinct_map)
  then have "length (filter P rows) = card (set (filter P rows))" by (rule distinct_card [symmetric])
  also have "\<dots> \<le> card {m}" using all by (intro card_mono) auto
  finally show False using assms(3) by (simp add: count_where_def)
qed

lemma owner_count_eq: "owner_count teamId st = count_where (owner_of teamId) (members st)"
  by (simp add: owner_count_def count_where_def owner_of_def [abs_def])

text \<open>A row other than the one a request is about keeps the team owned.\<close>

lemma other_owner:
  assumes "owned teamId st" "find_by member_key (teamId, userId) (members st) = Some m"
    and "ms_role m = Owner \<longrightarrow> \<not> owner_count teamId st \<le> 1"
  shows "\<exists>x\<in>set (members st). owner_of teamId x \<and> member_key x \<noteq> (teamId, userId)"
proof (cases "ms_role m = Owner")
  case True
  then show ?thesis
    using another_row [of member_key "members st" m "owner_of teamId"] assms find_by_Some [OF assms(2)]
    by (auto simp: owned_def owner_count_eq)
next
  case False
  obtain x where x: "x \<in> set (members st)" "owner_of teamId x" using assms(1) by (auto simp: owned_def)
  have "member_key x \<noteq> (teamId, userId)"
    using uniq_inj [of member_key "members st" x m] assms(1) find_by_Some [OF assms(2)] x False
    by (auto simp: owned_def owner_of_def)
  with x show ?thesis by blast
qed

lemma changeRole_owned:
  assumes "owned teamId st"
  shows "owned teamId (snd (changeRole who userId r st))"
proof (cases "members (snd (changeRole who userId r st)) = members st")
  case True
  then show ?thesis using assms by (simp add: owned_def)
next
  case False
  then obtain m where m: "find_by member_key (a_teamId who, userId) (members st) = Some m"
    and guard: "\<not> (ms_role m = Owner \<and> r \<noteq> Owner \<and> owner_count (a_teamId who) st \<le> 1)"
    and ms: "members (snd (changeRole who userId r st))
        = update_where (\<lambda>x. member_key x = (a_teamId who, userId)) (\<lambda>x. x\<lparr> ms_role := r \<rparr>) (members st)"
    by (auto simp: changeRole_def Let_def split: sum.splits option.splits if_splits)
  have "uniq member_key (members (snd (changeRole who userId r st)))"
    unfolding ms using assms by (subst uniq_update_where) (auto simp: owned_def)
  moreover have "\<exists>x\<in>set (members st). owner_of teamId x \<and> (member_key x = (a_teamId who, userId) \<longrightarrow> r = Owner)"
  proof (cases "teamId = a_teamId who \<and> r \<noteq> Owner")
    case True
    then show ?thesis using other_owner [of teamId st userId m] assms m guard by auto
  next
    case False
    then show ?thesis using assms by (auto simp: owned_def owner_of_def)
  qed
  then have "\<exists>x\<in>set (members (snd (changeRole who userId r st))). owner_of teamId x"
    unfolding ms in_update_where Bex_def by (fastforce simp: owner_of_def)
  ultimately show ?thesis by (simp add: owned_def)
qed

lemma removeMember_owned:
  assumes "owned teamId st"
  shows "owned teamId (snd (removeMember who userId now st))"
proof (cases "members (snd (removeMember who userId now st)) = members st")
  case True
  then show ?thesis using assms by (simp add: owned_def)
next
  case False
  then obtain m where m: "find_by member_key (a_teamId who, userId) (members st) = Some m"
    and guard: "\<not> (ms_role m = Owner \<and> owner_count (a_teamId who) st \<le> 1)"
    and ms: "members (snd (removeMember who userId now st))
        = filter (\<lambda>x. member_key x \<noteq> (a_teamId who, userId)) (members st)"
    by (auto simp: removeMember_def split: sum.splits option.splits if_splits)
  have "\<exists>x\<in>set (members st). owner_of teamId x \<and> member_key x \<noteq> (a_teamId who, userId)"
  proof (cases "teamId = a_teamId who")
    case True
    then show ?thesis using other_owner [of teamId st userId m] assms m guard by auto
  next
    case False
    then show ?thesis using assms by (auto simp: owned_def owner_of_def)
  qed
  then show ?thesis using assms unfolding owned_def ms by (auto simp: uniq_def distinct_map_filter)
qed

lemma joined_owned: "owned teamId st \<Longrightarrow> members st' = joined v userId (members st) \<Longrightarrow> owned teamId st'"
  by (auto simp: owned_def joined_eq uniq_def)

lemma owned_members: "owned teamId st \<Longrightarrow> members st' = members st \<Longrightarrow> owned teamId st'"
  by (simp add: owned_def)

lemma join_team_owned: "owned teamId st \<Longrightarrow> owned teamId (snd (join_team sign sid ttl v userId now st))"
  using join_team_members [of sign sid ttl v userId now st] joined_owned [of teamId st] owned_members [of teamId st] by blast

lemma join_as_owned: "owned teamId st \<Longrightarrow> owned teamId (snd (join_as sign sid ttl v userId now st))"
  by (auto simp: join_as_def intro: join_team_owned split: option.splits)

lemma team_step_owned:
  assumes "owned teamId st"
  shows "owned teamId (team_step sha sign op st)"
proof (cases op)
  case (AcceptWithSignup sid ttl u tok now)
  then show ?thesis using assms
    by (auto simp: acceptWithSignup_def intro!: join_team_owned owned_members [of teamId st] split: sum.splits)
qed (use assms in \<open>auto intro: changeRole_owned removeMember_owned join_as_owned owned_members simp: updateProfile_def invite_def
     revokeInvitation_def accept_def acceptForUser_def close_account_def Let_def split: sum.splits option.splits if_splits\<close>)

interpretation crew: guarded_system "owned teamId" "team_step sha sign" for teamId sha sign
  by unfold_locales (rule team_step_owned)

section \<open>Nobody else makes an owner\<close>

lemma findUsable_Inr:
  assumes "findUsable sha token now st = Inr v"
  shows "v \<in> set (ts_invitations st)" "open_invitation v" "now \<le> iv_expiresAt v"
    and "db_teamStatus (ts_auth st) (iv_teamId v) \<noteq> Some TsClosed"
  using assms by (auto simp: findUsable_def dest: find_by_Some split: option.splits if_splits)

lemma join_team_new:
  assumes "x \<in> set (members (snd (join_team sign sid ttl v userId now st)))" "x \<notin> set (members st)"
  shows "ms_role x = iv_role v" "ms_teamId x = iv_teamId v" "ms_userId x = userId"
  using assms join_team_members [of sign sid ttl v userId now st] by (auto simp: joined_eq split: if_splits)

lemma join_as_new:
  assumes "x \<in> set (members (snd (join_as sign sid ttl v userId now st)))" "x \<notin> set (members st)"
  shows "ms_role x = iv_role v" "ms_teamId x = iv_teamId v" "map_of (ts_emails st) (ms_userId x) = Some (iv_email v)"
  using assms join_team_new [of x sign sid ttl v userId now st]
  by (auto simp: join_as_def split: option.splits if_splits)

text \<open>
  A membership a request writes was decided by an owner, or is the one an open invitation offers.  An
  invitation that offers ownership was written by an owner.
\<close>

definition invited :: "membership \<Rightarrow> team_store \<Rightarrow> bool" where
  "invited x st \<longleftrightarrow> (\<exists>v\<in>set (ts_invitations st). open_invitation v \<and> iv_role v = ms_role x \<and> iv_teamId v = ms_teamId x)"

lemma invitedI: "findUsable sha token now st = Inr v \<Longrightarrow> ms_role x = iv_role v \<Longrightarrow> ms_teamId x = iv_teamId v \<Longrightarrow> invited x st"
  using findUsable_Inr(1,2) [of sha token now st v] by (auto simp: invited_def)

lemma changeRole_new:
  assumes "x \<in> set (members (snd (changeRole who u r st)))" "x \<notin> set (members st)"
  shows "a_role who = Owner" "ms_teamId x = a_teamId who"
  using assms by (auto simp: changeRole_def Let_def in_update_where split: sum.splits option.splits if_splits)

theorem member_written_by:
  assumes "x \<in> set (members (team_step sha sign op st))" "x \<notin> set (members st)"
  shows "(\<exists>who u r. op = ChangeRole who u r \<and> a_role who = Owner \<and> ms_teamId x = a_teamId who) \<or> invited x st"
proof (cases op)
  case (ChangeRole who u r)
  then show ?thesis using assms changeRole_new [of x who u r st] by auto
next
  case (Accept sid ttl who tok now)
  then show ?thesis using assms join_as_new(1,2) [of x sign sid ttl _ "a_userId who" now st]
    by (auto simp: accept_def intro: invitedI split: sum.splits)
next
  case (AcceptForUser sid ttl u tok now)
  then show ?thesis using assms join_as_new(1,2) [of x sign sid ttl _ u now st]
    by (auto simp: acceptForUser_def intro: invitedI split: sum.splits)
next
  case (AcceptWithSignup sid ttl u tok now)
  then show ?thesis using assms join_team_new(1,2) [of x sign sid ttl _ u now "add_user u _ st"]
    by (auto simp: acceptWithSignup_def intro: invitedI split: sum.splits if_splits)
qed (use assms in \<open>auto simp: updateProfile_def removeMember_def invite_def revokeInvitation_def close_account_def Let_def
     split: sum.splits option.splits if_splits\<close>)

theorem owner_invited_by_owner:
  assumes "fst (invite sha who email Owner token newId now st) = Inr v"
  shows "a_role who = Owner \<and> \<not> a_isAgent who"
  using assms by (auto simp: invite_def human_def split: if_splits)

section \<open>An invitation is used once\<close>

definition spent :: "id \<Rightarrow> team_store \<Rightarrow> bool" where
  "spent i st \<longleftrightarrow> i \<in> iv_id ` set (ts_invitations st) \<and> (\<forall>v\<in>set (ts_invitations st). iv_id v = i \<longrightarrow> \<not> open_invitation v)"

lemma spent_update:
  assumes "spent i st" "\<And>v. iv_id (f v) = iv_id v" "\<And>v. \<not> open_invitation v \<Longrightarrow> \<not> open_invitation (f v)"
    and "ts_invitations st' = update_where p f (ts_invitations st)"
  shows "spent i st'"
proof -
  have "iv_id ` set (ts_invitations st') = iv_id ` set (ts_invitations st)"
    unfolding assms(4) using assms(2) by (rule keys_update_where)
  moreover have "\<not> open_invitation v" if "v \<in> set (ts_invitations st')" "iv_id v = i" for v
    using that assms(1-3) unfolding assms(4) in_update_where spent_def by (metis (full_types))
  ultimately show ?thesis using assms(1) by (simp add: spent_def)
qed

lemma spent_same: "spent i st \<Longrightarrow> ts_invitations st' = ts_invitations st \<Longrightarrow> spent i st'"
  by (simp add: spent_def)

lemma spent_revoke: "spent i st \<Longrightarrow> spent i (revoke_invitations p now st)"
  by (rule spent_update) (auto simp: revoke_invitations_def open_invitation_def)

lemma spent_add: "spent i st \<Longrightarrow> iv_id v \<notin> iv_id ` set (ts_invitations st) \<Longrightarrow> spent i (st\<lparr> ts_invitations := ts_invitations st @ [v] \<rparr>)"
  by (auto simp: spent_def)

lemma join_team_invitations:
  "ts_invitations (snd (join_team sign sid ttl v u now st)) =
     update_where (\<lambda>x. iv_id x = iv_id v \<and> open_invitation x) (\<lambda>x. x\<lparr> iv_acceptedAt := Some now, iv_acceptedBy := Some u \<rparr>)
       (ts_invitations st)"
  by (auto simp: join_team_def Let_def count_where_0_iff update_where_none split: prod.splits)

lemma spent_join: "spent i st \<Longrightarrow> spent i (snd (join_team sign sid ttl v u now st))"
  by (rule spent_update [OF _ _ _ join_team_invitations]) (auto simp: open_invitation_def)

lemma spent_join_as: "spent i st \<Longrightarrow> spent i (snd (join_as sign sid ttl v u now st))"
  by (auto simp: join_as_def intro: spent_join split: option.splits)

lemma revoke_invitations_ids [simp]: "iv_id ` set (ts_invitations (revoke_invitations p now st)) = iv_id ` set (ts_invitations st)"
  by (simp add: revoke_invitations_def keys_update_where)

lemma spent_replace:
  assumes "spent i st" "iv_id v \<notin> iv_id ` set (ts_invitations st)"
  shows "spent i ((revoke_invitations p now st)\<lparr> ts_invitations := ts_invitations (revoke_invitations p now st) @ [v] \<rparr>)"
  by (rule spent_add [OF spent_revoke [OF assms(1)]]) (simp only: revoke_invitations_ids assms(2) not_False_eq_True)

lemma spent_invite:
  assumes "spent i st" "newId \<notin> iv_id ` set (ts_invitations st)"
  shows "spent i (snd (invite sha who email r token newId now st))"
  using assms by (auto simp: invite_def Let_def intro!: spent_replace split: sum.splits)

lemma spent_close: "spent i st \<Longrightarrow> spent i (close_rows teamId now st)"
  by (rule spent_same [OF spent_revoke [OF spent_same [of i st]]]) (auto simp: close_rows_def Let_def)

lemma team_step_spent:
  assumes "spent i st"
  shows "spent i (team_step sha sign op st)"
proof (cases op)
  case (AcceptWithSignup sid ttl u tok now)
  then show ?thesis using assms
    by (auto simp: acceptWithSignup_def intro!: spent_join spent_same [of i st] split: sum.splits)
qed (use assms in \<open>auto intro: spent_join_as spent_invite spent_revoke spent_close spent_same simp: updateProfile_def changeRole_def
     removeMember_def revokeInvitation_def accept_def acceptForUser_def close_account_def Let_def
     split: sum.splits option.splits if_splits\<close>)

interpretation post: guarded_system "spent i" "team_step sha sign" for i sha sign
  by unfold_locales (rule team_step_spent)

lemma join_team_spends:
  assumes "join_team sign sid ttl v u now st = (Inr jwt, st')"
  shows "spent (iv_id v) st'"
proof -
  have inv: "ts_invitations st' = update_where (\<lambda>x. iv_id x = iv_id v \<and> open_invitation x)
      (\<lambda>x. x\<lparr> iv_acceptedAt := Some now, iv_acceptedBy := Some u \<rparr>) (ts_invitations st)"
    using join_team_invitations [of sign sid ttl v u now st] assms by simp
  have "\<exists>x\<in>set (ts_invitations st). iv_id x = iv_id v"
    using assms by (auto simp: join_team_def Let_def count_where_0_iff split: if_splits)
  then have "iv_id v \<in> iv_id ` set (ts_invitations st)" by (metis image_eqI)
  moreover have "\<forall>x\<in>set (ts_invitations st'). iv_id x = iv_id v \<longrightarrow> \<not> open_invitation x"
    unfolding inv ball_update_where by (auto simp: open_invitation_def)
  ultimately show ?thesis unfolding spent_def inv by (simp add: keys_update_where inv)
qed

theorem invitation_used_once:
  assumes "join_team sign sid ttl v u now st = (Inr jwt, st')"
  shows "fst (join_team sign' sid' ttl' v u' now' (fold (team_step sha signer) ops st')) = Inl invalidState"
  using post.run_inv [OF join_team_spends [OF assms], of sha signer ops]
  by (auto simp: join_team_def Let_def spent_def count_where_0_iff split: prod.splits)

section \<open>Who is locked out\<close>

lemma resolveSession_member:
  assumes "fst (resolveSession verify now jwt db) = Some who"
  shows "(a_teamId who, a_userId who) \<in> member_key ` set (db_members db) \<and> db_teamStatus db (a_teamId who) \<noteq> Some TsClosed"
  using assms unfolding resolveSession_def Let_def
  by (auto simp: session_actor_def seen_def dest!: find_by_Some split: option.splits if_splits intro!: rev_image_eqI)

lemma resolveApiToken_member:
  assumes "fst (resolveApiToken sha now raw db) = Some who"
  shows "(a_teamId who, a_userId who) \<in> member_key ` set (db_members db) \<and> db_teamStatus db (a_teamId who) \<noteq> Some TsClosed"
  using assms unfolding resolveApiToken_def
  by (auto simp: token_actor_def dest!: find_by_Some split: option.splits if_splits intro!: rev_image_eqI)

theorem bearer_is_member:
  assumes "fst (resolveBearer sha verify now cred db) = Some who"
  shows "(a_teamId who, a_userId who) \<in> member_key ` set (db_members db) \<and> db_teamStatus db (a_teamId who) \<noteq> Some TsClosed"
  using assms resolveSession_member resolveApiToken_member by (auto simp: resolveBearer_def split: if_splits)

theorem removed_bearer:
  assumes "removeMember who userId now st = (Inr (), st')"
    and "fst (resolveBearer sha verify now' cred (ts_auth st')) = Some x"
  shows "(a_teamId x, a_userId x) \<noteq> (a_teamId who, userId)"
proof -
  have "members st' = filter (\<lambda>m. member_key m \<noteq> (a_teamId who, userId)) (members st)"
    using assms(1) by (auto simp: removeMember_def split: sum.splits option.splits if_splits)
  then show ?thesis using bearer_is_member [OF assms(2)] by (auto simp: members_def)
qed

theorem closed_team_locked_out:
  assumes "close_account who slug invoices n now st = (Inr k, st')"
    and "fst (resolveBearer sha verify now' cred (ts_auth st')) = Some x"
  shows "a_teamId x \<noteq> a_teamId who"
proof -
  have "db_teamStatus (ts_auth st') (a_teamId who) = Some TsClosed"
    using assms(1) by (auto simp: close_account_def close_rows_def Let_def split: sum.splits option.splits if_splits)
  then show ?thesis using bearer_is_member [OF assms(2)] by auto
qed

end
