(* ===== verification/Ops_Guards.thy ===== *)
theory Ops_Guards
  imports Access Json
begin

text \<open>
  The guards of the ops console API: \<open>modules/ops/guards/ops.guards.ts\<close>, \<open>ops-context.ts\<close>,
  \<open>residency.ts\<close> and \<open>ip-allowlist.ts\<close>.  \<open>isIP\<close> of \<open>node:net\<close> (the family of an address literal, or 0)
  is a parameter.  The tables a reference can name are \<open>ops_db\<close>, each row with the contract it
  belongs to.
\<close>

unbundle bit_operations_syntax

section \<open>Address allowlists\<close>

definition hex_nat :: "string \<Rightarrow> nat" where
  "hex_nat s = foldl (\<lambda>n c. 16 * n + hex_value c) 0 (takeWhile is_hex s)"

fun show_hex :: "nat \<Rightarrow> string" where
  "show_hex n = (if n < 16 then [hex_digit n] else show_hex (n div 16) @ [hex_digit (n mod 16)])"

declare show_hex.simps [simp del]

text \<open>\<open>(\d+)\.(\d+)\.(\d+)\.(\d+)$\<close>: the dotted tail of an address, the first group of digits as long as it can be.\<close>

definition dotted_tail :: "string \<Rightarrow> (string \<times> nat list) option" where
  "dotted_tail s =
     (let tail = rev (takeWhile (\<lambda>c. is_digit c \<or> c = CHR ''.'') (rev s));
          parts = split_on CHR ''.'' tail
      in if 4 \<le> length parts \<and> list_all (\<lambda>p. p \<noteq> []) (drop (length parts - 4) parts)
         then (let last4 = drop (length parts - 4) parts
               in Some (take (length s - length (join ''.'' last4)) s, map parse_nat last4))
         else None)"

definition hex_tail :: "string \<Rightarrow> string" where
  "hex_tail ip =
     (case dotted_tail ip of
        Some (pre, [a, b, c, d]) \<Rightarrow> pre @ show_hex (a * 256 OR b) @ '':'' @ show_hex (c * 256 OR d)
      | _ \<Rightarrow> ip)"

text \<open>\<open>split('::')\<close>, as far as the two parts the code takes.\<close>

definition around_double_colon :: "string \<Rightarrow> string \<times> string option" where
  "around_double_colon s =
     (case indexOf s ''::'' of
        None \<Rightarrow> (s, None)
      | Some i \<Rightarrow>
          (let r = drop (i + 2) s
           in (take i s, Some (case indexOf r ''::'' of None \<Rightarrow> r | Some j \<Rightarrow> take j r))))"

definition ipv6_groups :: "string \<Rightarrow> string list option" where
  "ipv6_groups hex =
     (let (headPart, tailPart) = around_double_colon hex;
          h = (if headPart = [] then [] else split_on CHR '':'' headPart);
          t = (case tailPart of None \<Rightarrow> [] | Some x \<Rightarrow> if x = [] then [] else split_on CHR '':'' x);
          groups = (if tailPart = None then h else h @ replicate (8 - length h - length t) ''0'' @ t)
      in if length groups = 8 then Some groups else None)"

definition normalize :: "(string \<Rightarrow> nat) \<Rightarrow> string \<Rightarrow> (nat \<times> nat) option" where
  "normalize isIP raw =
     (if raw = [] then None
      else
        let t = trim raw;
            ip = (if startsWith (toLowerCase t) ''::ffff:'' \<and> isIP (drop 7 t) = 4 then drop 7 t else t)
        in if isIP ip = 4
           then Some (4, foldl (\<lambda>acc p. acc * 256 + parse_nat p) 0 (split_on CHR ''.'' ip))
           else if isIP ip = 6
           then map_option (\<lambda>gs. (6, foldl (\<lambda>acc g. acc * 65536 + hex_nat (if g = [] then ''0'' else g)) 0 gs))
                  (ipv6_groups (hex_tail ip))
           else None)"

definition net_mask :: "nat \<Rightarrow> nat \<Rightarrow> nat" where
  "net_mask width bits = (if bits = 0 then 0 else (2 ^ bits - 1) * 2 ^ (width - bits))"

definition entry_bits :: "nat \<Rightarrow> string list \<Rightarrow> nat option" where
  "entry_bits width parts =
     (if tl parts = [] then Some width
      else case js_Number (hd (tl parts)) of
        None \<Rightarrow> None
      | Some q \<Rightarrow> if q = of_int \<lfloor>q\<rfloor> \<and> 0 \<le> q \<and> q \<le> of_nat width then Some (nat \<lfloor>q\<rfloor>) else None)"

definition family_bits :: "nat \<Rightarrow> nat" where
  "family_bits family = (if family = 4 then 32 else 128)"

definition entry_allows :: "(string \<Rightarrow> nat) \<Rightarrow> nat \<times> nat \<Rightarrow> string \<Rightarrow> bool" where
  "entry_allows isIP addr entry \<longleftrightarrow>
     (let parts = split_on CHR ''/'' (trim entry)
      in case normalize isIP (hd parts) of
           None \<Rightarrow> False
         | Some net \<Rightarrow>
             if fst net \<noteq> fst addr then False
             else (case entry_bits (family_bits (fst addr)) parts of
                     None \<Rightarrow> False
                   | Some bits \<Rightarrow>
                       snd addr AND net_mask (family_bits (fst addr)) bits
                         = snd net AND net_mask (family_bits (fst addr)) bits))"

definition ipAllowed :: "(string \<Rightarrow> nat) \<Rightarrow> string \<Rightarrow> string list \<Rightarrow> bool" where
  "ipAllowed isIP ip allowlist \<longleftrightarrow>
     (case normalize isIP ip of None \<Rightarrow> False | Some addr \<Rightarrow> list_ex (entry_allows isIP addr) allowlist)"

definition isCidr :: "(string \<Rightarrow> nat) \<Rightarrow> string \<Rightarrow> bool" where
  "isCidr isIP entry \<longleftrightarrow>
     (let parts = split_on CHR ''/'' (trim entry)
      in case normalize isIP (hd parts) of
           None \<Rightarrow> False
         | Some a \<Rightarrow> entry_bits (family_bits (fst a)) parts \<noteq> None)"

section \<open>Residency and eligibility\<close>

definition STAFF_DEFAULT_COUNTRY :: string where "STAFF_DEFAULT_COUNTRY = ''SA''"

definition residencyAllows :: "string \<Rightarrow> string option \<Rightarrow> bool" where
  "residencyAllows policy country \<longleftrightarrow>
     (let c = toUpperCase (trim (case country of None \<Rightarrow> [] | Some x \<Rightarrow> x))
      in if policy = ''ANY'' then True
         else if policy = ''SAUDI_ONLY'' then c = ''SA''
         else if policy = ''TURKIYE_ONLY'' then c = ''TR''
         else False)"

definition isInternalEngineerStaff :: "bool \<Rightarrow> string list \<Rightarrow> bool" where
  "isInternalEngineerStaff isStaff staffRoles \<longleftrightarrow>
     isStaff \<and> (staffRoles = [] \<or> ''engineer'' \<in> set staffRoles \<or> ''support_lead'' \<in> set staffRoles)"

definition isLeadStaff :: "bool \<Rightarrow> string list \<Rightarrow> bool" where
  "isLeadStaff isStaff staffRoles \<longleftrightarrow> isStaff \<and> (staffRoles = [] \<or> ''support_lead'' \<in> set staffRoles)"

datatype engineer_kind = External | Internal
datatype engineer_status = EngActive | EngSuspended | EngOffboarded

record engineer_profile =
  ep_id :: id
  ep_kind :: engineer_kind
  ep_status :: engineer_status
  ep_country :: string
  ep_timezone :: string
  ep_ipAllowlist :: "string list"
  ep_assignments :: "id list"

record engineer_facts =
  ef_userId :: id
  ef_isStaff :: bool
  ef_staffRoles :: "string list"
  ef_profile :: "engineer_profile option"
  ef_assigned :: bool

datatype ineligible = NotEngineer | Inactive | NotAssigned | ResidencyBlocked

definition eligibility :: "engineer_facts \<Rightarrow> string \<Rightarrow> ineligible + (bool \<times> string)" where
  "eligibility f policy =
     (let external = (case ef_profile f of None \<Rightarrow> False | Some p \<Rightarrow> ep_kind p = External);
          internal = (\<not> external \<and> isInternalEngineerStaff (ef_isStaff f) (ef_staffRoles f));
          country = (case ef_profile f of None \<Rightarrow> STAFF_DEFAULT_COUNTRY | Some p \<Rightarrow> ep_country p)
      in if (case ef_profile f of None \<Rightarrow> False | Some p \<Rightarrow> ep_status p \<noteq> EngActive) then Inl Inactive
         else if \<not> internal \<and> \<not> external then Inl NotEngineer
         else if \<not> residencyAllows policy (Some country) then Inl ResidencyBlocked
         else if external \<and> \<not> ef_assigned f then Inl NotAssigned
         else Inr (internal, country))"

record ops_user =
  ou_id :: id
  ou_name :: string
  ou_isStaff :: bool
  ou_staffRoles :: "string list"
  ou_profile :: "engineer_profile option"

definition engineerFacts :: "ops_user list \<Rightarrow> id \<Rightarrow> id option \<Rightarrow> engineer_facts option" where
  "engineerFacts users userId contractId =
     (case find_by ou_id userId users of
        None \<Rightarrow> None
      | Some u \<Rightarrow>
          Some \<lparr>ef_userId = ou_id u, ef_isStaff = ou_isStaff u, ef_staffRoles = ou_staffRoles u, ef_profile = ou_profile u,
                ef_assigned = (case (ou_profile u, contractId) of
                    (Some p, Some c) \<Rightarrow> c \<noteq> [] \<and> c \<in> set (ep_assignments p) | _ \<Rightarrow> False)\<rparr>)"

section \<open>References\<close>

datatype ref_kind = RefContract | RefAsset | RefTicket | RefAlert | RefTask | RefRun | RefPage | RefGrant

definition BODY_REFS :: "(string \<times> ref_kind) list" where
  "BODY_REFS =
     [(''contractId'', RefContract), (''assetId'', RefAsset), (''ticketId'', RefTicket), (''alertId'', RefAlert),
      (''taskId'', RefTask), (''maintenanceRunId'', RefRun), (''runId'', RefRun), (''grantId'', RefGrant)]"

record ops_db =
  od_contracts :: "(id \<times> string) list"
  od_assets :: "(id \<times> id \<times> instant option) list"
  od_tickets :: "(id \<times> id option) list"
  od_alerts :: "(id \<times> id option) list"
  od_tasks :: "(id \<times> id) list"
  od_runs :: "(id \<times> id) list"
  od_grants :: "(id \<times> id) list"
  od_pages :: "(id \<times> id option \<times> id option) list"

definition contractOf :: "ops_db \<Rightarrow> ref_kind \<Rightarrow> id \<Rightarrow> id option" where
  "contractOf db kind i =
     (if i = [] then None
      else case kind of
        RefContract \<Rightarrow> if map_of (od_contracts db) i = None then None else Some i
      | RefAsset \<Rightarrow> (case List.find (\<lambda>(a, c, removed). a = i \<and> removed = None) (od_assets db) of
                       None \<Rightarrow> None | Some (_, c, _) \<Rightarrow> Some c)
      | RefTicket \<Rightarrow> Option.bind (map_of (od_tickets db) i) (\<lambda>c. c)
      | RefAlert \<Rightarrow> Option.bind (map_of (od_alerts db) i) (\<lambda>c. c)
      | RefTask \<Rightarrow> map_of (od_tasks db) i
      | RefRun \<Rightarrow> Option.bind (map_of (od_runs db) i) (map_of (od_tasks db))
      | RefGrant \<Rightarrow> map_of (od_grants db) i
      | RefPage \<Rightarrow>
          (case map_of (od_pages db) i of
             None \<Rightarrow> None
           | Some (alert, ticket) \<Rightarrow>
               (case Option.bind (Option.bind alert (map_of (od_alerts db))) (\<lambda>c. c) of
                  Some c \<Rightarrow> Some c
                | None \<Rightarrow> Option.bind (Option.bind ticket (map_of (od_tickets db))) (\<lambda>c. c))))"

record ops_request =
  or_params :: "(string \<times> string) list"
  or_body :: json
  or_query :: json

definition source_refs :: "json \<Rightarrow> (ref_kind \<times> id) list" where
  "source_refs v =
     (case v of
        JObj fs \<Rightarrow>
          List.map_filter (\<lambda>(field, kind). case get_prop field fs of
              JStr s \<Rightarrow> if s = [] then None else Some (kind, s) | _ \<Rightarrow> None) BODY_REFS
      | _ \<Rightarrow> [])"

definition refs :: "ops_request \<Rightarrow> (string \<times> ref_kind) list \<Rightarrow> (ref_kind \<times> id) list" where
  "refs req paramRefs =
     List.map_filter (\<lambda>(param, kind). case map_of (or_params req) param of
         None \<Rightarrow> None | Some v \<Rightarrow> if v = [] then None else Some (kind, v)) paramRefs
     @ source_refs (or_body req) @ source_refs (or_query req)"

section \<open>The guards\<close>

record ops_context =
  oc_userId :: id
  oc_profile :: "engineer_profile option"
  oc_external :: bool
  oc_lead :: bool
  oc_country :: string
  oc_timezone :: string
  oc_contractIds :: "id list option"
  oc_sessionId :: id
  oc_ip :: string
  oc_scopes :: "string list"

definition canSee :: "ops_context \<Rightarrow> id option \<Rightarrow> bool" where
  "canSee ctx contractId \<longleftrightarrow>
     given contractId \<and> (case oc_contractIds ctx of None \<Rightarrow> True | Some cs \<Rightarrow> the contractId \<in> set cs)"

definition contractFilter :: "ops_context \<Rightarrow> id list option" where
  "contractFilter ctx = oc_contractIds ctx"

definition engineer_guard ::
  "(string \<Rightarrow> nat) \<Rightarrow> ops_user list \<Rightarrow> string \<Rightarrow> actor option \<Rightarrow> ops_context result" where
  "engineer_guard isIP users ip who =
     (case who of
        None \<Rightarrow> Inl unauthorized
      | Some a \<Rightarrow>
          if \<not> a_ops a \<or> \<not> given (a_sessionId a) then Inl unauthorized
          else case find_by ou_id (a_userId a) users of
            None \<Rightarrow> Inl unauthorized
          | Some u \<Rightarrow>
              let profile = ou_profile u;
                  external = (case profile of None \<Rightarrow> False | Some p \<Rightarrow> ep_kind p = External);
                  internal = (\<not> external \<and> isInternalEngineerStaff (ou_isStaff u) (ou_staffRoles u))
              in if (case profile of None \<Rightarrow> False | Some p \<Rightarrow> ep_status p \<noteq> EngActive)
                 then Inl (ApiError 403 ''engineer_inactive'')
                 else if \<not> external \<and> \<not> internal then Inl (ApiError 403 ''not_engineer'')
                 else if (case profile of None \<Rightarrow> False
                          | Some p \<Rightarrow> ep_ipAllowlist p \<noteq> [] \<and> \<not> ipAllowed isIP ip (ep_ipAllowlist p))
                 then Inl (ApiError 403 ''ip_not_allowed'')
                 else Inr \<lparr>oc_userId = ou_id u, oc_profile = profile, oc_external = external,
                           oc_lead = (\<not> external \<and> isLeadStaff (ou_isStaff u) (ou_staffRoles u)),
                           oc_country = (case profile of None \<Rightarrow> STAFF_DEFAULT_COUNTRY | Some p \<Rightarrow> ep_country p),
                           oc_timezone = (case profile of None \<Rightarrow> ''Asia/Riyadh'' | Some p \<Rightarrow> ep_timezone p),
                           oc_contractIds = (if external then map_option ep_assignments profile else None),
                           oc_sessionId = the (a_sessionId a), oc_ip = ip,
                           oc_scopes = (if external then [] else staffScopes (ou_isStaff u) (ou_staffRoles u))\<rparr>)"

fun assign_refs :: "ops_db \<Rightarrow> ops_context \<Rightarrow> (ref_kind \<times> id) list \<Rightarrow> id list \<Rightarrow> id list result" where
  "assign_refs db ops [] contracts = Inr contracts"
| "assign_refs db ops ((kind, i) # rest) contracts =
     (case contractOf db kind i of
        None \<Rightarrow> Inl notFound
      | Some c \<Rightarrow>
          if \<not> canSee ops (Some c) then Inl notFound
          else assign_refs db ops rest (if c \<in> set contracts then contracts else contracts @ [c]))"

definition assignment_guard ::
  "ops_db \<Rightarrow> ops_context option \<Rightarrow> ops_request \<Rightarrow> (string \<times> ref_kind) list \<Rightarrow> id list result" where
  "assignment_guard db ops req paramRefs =
     (case ops of None \<Rightarrow> Inl unauthorized | Some ctx \<Rightarrow> assign_refs db ctx (refs req paramRefs) [])"

definition residency_guard :: "ops_db \<Rightarrow> bool \<Rightarrow> ops_context \<Rightarrow> id list \<Rightarrow> unit result" where
  "residency_guard db marked ops ids =
     (if \<not> marked \<or> ids = [] then Inr ()
      else if list_all (\<lambda>(c, policy). c \<in> set ids \<longrightarrow> residencyAllows policy (Some (oc_country ops))) (od_contracts db)
      then Inr () else Inl (ApiError 403 ''residency_blocked''))"

definition assertOpsLead :: "ops_context \<Rightarrow> unit result" where
  "assertOpsLead ops = (if oc_lead ops then Inr () else Inl forbidden)"

section \<open>An external engineer sees only assigned contracts\<close>

lemma assign_refs_visible:
  assumes "assign_refs db ops rs cs = Inr cs'" "\<forall>c\<in>set cs. canSee ops (Some c)"
  shows "(\<forall>c\<in>set cs'. canSee ops (Some c)) \<and> set cs \<subseteq> set cs'
    \<and> (\<forall>(k, i)\<in>set rs. \<exists>c\<in>set cs'. contractOf db k i = Some c)"
  using assms
proof (induction db ops rs cs rule: assign_refs.induct)
  case (2 db ops kind i rest contracts)
  obtain c where c: "contractOf db kind i = Some c" "canSee ops (Some c)"
    and rec: "assign_refs db ops rest (if c \<in> set contracts then contracts else contracts @ [c]) = Inr cs'"
    using "2.prems"(1) by (auto split: option.splits if_splits)
  let ?next = "if c \<in> set contracts then contracts else contracts @ [c]"
  have "\<forall>x\<in>set ?next. canSee ops (Some x)" using c(2) "2.prems"(2) by simp
  then have IH: "\<forall>x\<in>set cs'. canSee ops (Some x)" "set ?next \<subseteq> set cs'"
    "\<forall>(k, i)\<in>set rest. \<exists>c\<in>set cs'. contractOf db k i = Some c"
    using "2.IH" [OF c(1) _ rec] c(2) by simp_all
  have "c \<in> set cs'" "set contracts \<subseteq> set cs'" using IH(2) by (auto split: if_splits)
  then show ?case using c(1) IH(1,3) by simp
qed simp

lemma engineer_guard_external:
  assumes "engineer_guard isIP users ip who = Inr ctx" "oc_external ctx"
  shows "\<exists>a u p. who = Some a \<and> find_by ou_id (a_userId a) users = Some u \<and> ou_profile u = Some p
    \<and> ep_kind p = External \<and> ep_status p = EngActive \<and> (ep_ipAllowlist p \<noteq> [] \<longrightarrow> ipAllowed isIP ip (ep_ipAllowlist p))
    \<and> oc_contractIds ctx = Some (ep_assignments p) \<and> oc_scopes ctx = [] \<and> \<not> oc_lead ctx"
  using assms unfolding engineer_guard_def Let_def
  by (auto split: option.splits if_splits)

lemma external_assignment:
  assumes "engineer_guard isIP users ip who = Inr ctx" "oc_external ctx"
    and "assignment_guard db (Some ctx) req paramRefs = Inr cs"
  shows "\<exists>a u p. who = Some a \<and> find_by ou_id (a_userId a) users = Some u \<and> ou_profile u = Some p
    \<and> ep_status p = EngActive \<and> set cs \<subseteq> set (ep_assignments p)
    \<and> (\<forall>(k, i)\<in>set (refs req paramRefs). \<exists>c\<in>set cs. contractOf db k i = Some c)"
proof -
  obtain a u p where u: "who = Some a" "find_by ou_id (a_userId a) users = Some u" "ou_profile u = Some p"
    "ep_status p = EngActive" "oc_contractIds ctx = Some (ep_assignments p)"
    using engineer_guard_external [OF assms(1,2)] by blast
  have "(\<forall>c\<in>set cs. canSee ctx (Some c)) \<and> (\<forall>(k, i)\<in>set (refs req paramRefs). \<exists>c\<in>set cs. contractOf db k i = Some c)"
    using assign_refs_visible [of db ctx "refs req paramRefs" "[]" cs] assms(3) by (simp add: assignment_guard_def)
  then show ?thesis using u by (intro exI conjI) (auto simp: canSee_def)
qed

section \<open>Masks compare leading bits\<close>

lemma mask_div:
  assumes "bits \<le> width" "x < 2 ^ width"
  shows "x AND net_mask width bits = x div 2 ^ (width - bits) * 2 ^ (width - bits)"
proof -
  have m: "net_mask width bits = push_bit (width - bits) (mask bits)"
    by (simp add: net_mask_def push_bit_eq_mult mask_eq_exp_minus_1)
  have "drop_bit (width - bits) x < 2 ^ bits"
    using assms by (simp add: drop_bit_eq_div less_mult_imp_div_less flip: power_add)
  then have "take_bit bits (drop_bit (width - bits) x) = drop_bit (width - bits) x"
    by (simp add: take_bit_nat_eq_self_iff)
  moreover have "x AND push_bit (width - bits) (mask bits) = push_bit (width - bits) (take_bit bits (drop_bit (width - bits) x))"
    by (rule bit_eqI) (auto simp: bit_simps)
  ultimately show ?thesis unfolding m by (simp add: push_bit_eq_mult drop_bit_eq_div)
qed

lemma mask_eq_iff:
  assumes "bits \<le> width" "x < 2 ^ width" "y < 2 ^ width"
  shows "x AND net_mask width bits = y AND net_mask width bits \<longleftrightarrow> x div 2 ^ (width - bits) = y div 2 ^ (width - bits)"
  using assms by (simp add: mask_div)

end
