(* ===== verification/Access_Grants.thy ===== *)
theory Access_Grants
  imports Ops_Guards Timers
begin

text \<open>
  Time limited access of engineers to customers' systems: \<open>modules/ops/access/grants.service.ts\<close> and the
  pure rules of \<open>approval-rules.ts\<close>.

  The state is the table of grants, the table of SSH certificates and the calls made to the revoke
  listeners.  What the service only reads (assets, tickets, maintenance runs, shifts, users, contract policies,
  settings) is \<open>grants_env\<close>.  \<open>started\<close> and \<open>signalled\<close> say whether the Temporal workflow could be started or
  signalled, \<open>signed\<close> whether the certificate authority signed; revoking at the authority is best effort in the
  source and has no effect on the tables.  Audit records, mails and pages are not modelled.
\<close>

section \<open>Rules\<close>

datatype managed_priority = P1 | P2 | P3 | P4

record grant_rules =
  gu_autoGrantMinutes :: int
  gu_maxGrantMinutes :: int
  gu_maxExtensions :: nat
  gu_grantRequestExpiryMinutes :: int

record grant_facts =
  gf_priority :: "managed_priority option"
  gf_onCall :: bool
  gf_assetAssigned :: bool
  gf_requestedMinutes :: int

datatype grant_refusal = TooLong | GrantNotAssigned

record grant_approval =
  gd_auto :: bool
  gd_minutes :: int
  gd_emergency :: bool

definition isUrgent :: "managed_priority option \<Rightarrow> bool" where
  "isUrgent p \<longleftrightarrow> p = Some P1 \<or> p = Some P2"

definition decideGrant :: "grant_facts \<Rightarrow> grant_rules \<Rightarrow> grant_refusal + grant_approval" where
  "decideGrant f r =
     (if \<not> gf_assetAssigned f then Inl GrantNotAssigned
      else if gf_requestedMinutes f < 1 \<or> gu_maxGrantMinutes r < gf_requestedMinutes f then Inl TooLong
      else if isUrgent (gf_priority f) \<and> gf_onCall f
      then Inr \<lparr> gd_auto = True, gd_minutes = gu_autoGrantMinutes r, gd_emergency = True \<rparr>
      else Inr \<lparr> gd_auto = False, gd_minutes = gf_requestedMinutes f, gd_emergency = isUrgent (gf_priority f) \<rparr>)"

datatype grant_status = Requested | Approved | GrantActive | Denied | Expired | Revoked

datatype extension_refusal = NotActive | ExtensionUsed | ExtensionTooLong

definition decideExtension ::
  "grant_status \<Rightarrow> instant option \<Rightarrow> nat \<Rightarrow> int \<Rightarrow> grant_rules \<Rightarrow> instant \<Rightarrow> extension_refusal + instant" where
  "decideExtension status expiresAt extensions minutes r now =
     (case expiresAt of
        None \<Rightarrow> Inl NotActive
      | Some e \<Rightarrow>
          if status \<noteq> GrantActive \<or> e \<le> now then Inl NotActive
          else if gu_maxExtensions r \<le> extensions then Inl ExtensionUsed
          else if minutes < 1 \<or> gu_maxGrantMinutes r < minutes then Inl ExtensionTooLong
          else Inr (e + minutes * 60000))"

definition assetPrincipal :: "id \<Rightarrow> string" where "assetPrincipal assetId = ''prgd-asset-'' @ assetId"

section \<open>State\<close>

record access_grant =
  ag_id :: id
  ag_userId :: id
  ag_engineerId :: "id option"
  ag_contractId :: id
  ag_assetId :: id
  ag_ticketId :: "id option"
  ag_maintenanceRunId :: "id option"
  ag_reason :: string
  ag_requestedMinutes :: int
  ag_status :: grant_status
  ag_auto :: bool
  ag_emergency :: bool
  ag_grantedMinutes :: "int option"
  ag_approvedById :: "id option"
  ag_approvedAt :: "instant option"
  ag_deniedById :: "id option"
  ag_denyReason :: "string option"
  ag_startsAt :: "instant option"
  ag_expiresAt :: "instant option"
  ag_extensions :: nat
  ag_extendedAt :: "instant option"
  ag_extensionReason :: "string option"
  ag_revokedAt :: "instant option"
  ag_revokedById :: "id option"
  ag_revokeReason :: "string option"
  ag_certSerial :: "nat option"
  ag_principals :: "string list"
  ag_createdAt :: instant

record ssh_certificate =
  sk_grantId :: id
  sk_sessionId :: id
  sk_serial :: nat
  sk_keyId :: string
  sk_principals :: "string list"
  sk_validAfter :: instant
  sk_validBefore :: instant
  sk_revokedAt :: "instant option"

datatype asset_kind = PlatformServer | ExternalServer | Site
datatype asset_status = AssetPending | AssetApproved | AssetRejected

record managed_asset =
  ma_id :: id
  ma_contractId :: id
  ma_kind :: asset_kind
  ma_status :: asset_status
  ma_managementAddress :: "string option"
  ma_removedAt :: "instant option"

record grant_ticket =
  gt_id :: id
  gt_contractId :: "id option"
  gt_assetId :: "id option"
  gt_status :: ticket_status
  gt_managedPriority :: "managed_priority option"

record maintenance_run =
  mr_id :: id
  mr_contractId :: id
  mr_assetId :: "id option"

record on_call_shift =
  oc_shiftUserId :: id
  oc_startsAt :: instant
  oc_endsAt :: instant
  oc_endedAt :: "instant option"

record grants_env =
  ge_assets :: "managed_asset list"
  ge_tickets :: "grant_ticket list"
  ge_runs :: "maintenance_run list"
  ge_shifts :: "on_call_shift list"
  ge_users :: "ops_user list"
  ge_policies :: "(id \<times> string) list"
  ge_settings :: grant_rules

record grants_state =
  gs_grants :: "access_grant list"
  gs_certs :: "ssh_certificate list"
  gs_ended :: "(id \<times> string) list"

definition LIVE_GRANT :: "grant_status list" where "LIVE_GRANT = [Requested, Approved, GrantActive]"

definition live :: "access_grant \<Rightarrow> bool" where "live g \<longleftrightarrow> ag_status g \<in> set LIVE_GRANT"

definition update_grant :: "(access_grant \<Rightarrow> bool) \<Rightarrow> (access_grant \<Rightarrow> access_grant) \<Rightarrow> grants_state \<Rightarrow> grants_state" where
  "update_grant p f st = st\<lparr> gs_grants := update_where p f (gs_grants st) \<rparr>"

definition find_grant :: "id \<Rightarrow> grants_state \<Rightarrow> access_grant option" where
  "find_grant i st = find_by ag_id i (gs_grants st)"

definition secondsLeft :: "access_grant \<Rightarrow> instant \<Rightarrow> int option" where
  "secondsLeft g now =
     (case ag_expiresAt g of
        Some e \<Rightarrow> if ag_status g = GrantActive then Some (max 0 (js_round (js_div (of_int (e - now)) 1000))) else None
      | None \<Rightarrow> None)"

section \<open>Workflow steps\<close>

datatype grant_plan = PlanDone | PlanRequested instant | PlanApproved | PlanActive instant

definition plan :: "grant_rules \<Rightarrow> id \<Rightarrow> grants_state \<Rightarrow> grant_plan" where
  "plan r i st =
     (case find_grant i st of
        None \<Rightarrow> PlanDone
      | Some g \<Rightarrow>
          if ag_status g = Requested then PlanRequested (ag_createdAt g + gu_grantRequestExpiryMinutes r * 60000)
          else if ag_status g = Approved then PlanApproved
          else case ag_expiresAt g of Some e \<Rightarrow> if ag_status g = GrantActive then PlanActive e else PlanDone | None \<Rightarrow> PlanDone)"

definition activate :: "id \<Rightarrow> instant \<Rightarrow> grants_state \<Rightarrow> grants_state" where
  "activate i now st =
     (case find_grant i st of
        None \<Rightarrow> st
      | Some g \<Rightarrow>
          if ag_status g \<noteq> Approved then st
          else (let e = now + (case ag_grantedMinutes g of None \<Rightarrow> ag_requestedMinutes g | Some m \<Rightarrow> m) * 60000
                in update_grant (\<lambda>x. ag_id x = i \<and> ag_status x = Approved)
                     (\<lambda>x. x\<lparr> ag_status := GrantActive, ag_startsAt := Some now, ag_expiresAt := Some e \<rparr>) st))"

definition startWorkflow :: "bool \<Rightarrow> id \<Rightarrow> instant \<Rightarrow> grants_state \<Rightarrow> grants_state" where
  "startWorkflow started i now st = (if started then st else activate i now st)"

definition end_grant ::
  "access_grant \<Rightarrow> grant_status \<Rightarrow> string \<Rightarrow> id option \<Rightarrow> instant \<Rightarrow> grants_state \<Rightarrow> grants_state" where
  "end_grant g status reason who now st =
     (let hit = (\<lambda>x. ag_id x = ag_id g \<and> live x)
      in if count_where hit (gs_grants st) = 0 then st
         else (let st1 = update_grant hit (\<lambda>x. x\<lparr> ag_status := status, ag_revokedAt := Some now, ag_revokeReason := Some reason,
                                                  ag_revokedById := who \<rparr>) st
               in st1\<lparr> gs_certs := update_where (\<lambda>c. sk_grantId c = ag_id g \<and> sk_revokedAt c = None)
                                    (\<lambda>c. c\<lparr> sk_revokedAt := Some now \<rparr>) (gs_certs st1),
                       gs_ended := gs_ended st1 @ [(ag_id g, reason)] \<rparr>))"

definition expire_grant :: "grant_rules \<Rightarrow> id \<Rightarrow> instant \<Rightarrow> grants_state \<Rightarrow> grants_state" where
  "expire_grant r i now st =
     (case find_grant i st of
        None \<Rightarrow> st
      | Some g \<Rightarrow>
          (case plan r i st of
             PlanActive e \<Rightarrow> if e \<le> now then end_grant g Expired ''expired'' None now st else st
           | PlanRequested e \<Rightarrow> if e \<le> now then end_grant g Expired ''request not decided in time'' None now st else st
           | _ \<Rightarrow> st))"

section \<open>Engineers\<close>

definition onCallNow :: "id \<Rightarrow> instant \<Rightarrow> on_call_shift list \<Rightarrow> bool" where
  "onCallNow userId now shifts \<longleftrightarrow>
     list_ex (\<lambda>s. oc_shiftUserId s = userId \<and> oc_startsAt s \<le> now \<and> now < oc_endsAt s \<and> oc_endedAt s = None) shifts"

definition checkEligibility :: "grants_env \<Rightarrow> id \<Rightarrow> id \<Rightarrow> ineligible + (bool \<times> string)" where
  "checkEligibility env userId contractId =
     (case (map_of (ge_policies env) contractId, engineerFacts (ge_users env) userId (Some contractId)) of
        (Some policy, Some f) \<Rightarrow> eligibility f policy
      | _ \<Rightarrow> Inl NotEngineer)"

definition eligible :: "grants_env \<Rightarrow> id \<Rightarrow> id \<Rightarrow> unit result" where
  "eligible env userId contractId =
     (case checkEligibility env userId contractId of
        Inr _ \<Rightarrow> Inr ()
      | Inl why \<Rightarrow> Inl (ApiError 403 (if why = ResidencyBlocked then ''residency_blocked'' else ''forbidden'')))"

record grant_dto =
  gq_assetId :: id
  gq_ticketId :: "id option"
  gq_maintenanceRunId :: "id option"
  gq_reason :: string
  gq_durationMin :: int

definition row_missing :: error where "row_missing = JsError ''NotFoundError''"

definition usable_asset :: "managed_asset \<Rightarrow> unit result" where
  "usable_asset a =
     (if ma_status a \<noteq> AssetApproved \<or> ma_removedAt a \<noteq> None then Inl invalidState
      else if ma_kind a = Site then Inl invalid
      else if \<not> given (ma_managementAddress a) then Inl invalidState
      else Inr ())"

definition work_priority :: "grants_env \<Rightarrow> managed_asset \<Rightarrow> grant_dto \<Rightarrow> managed_priority option result" where
  "work_priority env a dto =
     (if given (gq_ticketId dto) then
        (case find_by gt_id (the (gq_ticketId dto)) (ge_tickets env) of
           None \<Rightarrow> Inl row_missing
         | Some t \<Rightarrow>
             if gt_contractId t \<noteq> Some (ma_contractId a) then Inl invalid
             else if given (gt_assetId t) \<and> gt_assetId t \<noteq> Some (ma_id a) then Inl invalid
             else if gt_status t \<noteq> TkOpen \<and> gt_status t \<noteq> TkAnswered then Inl invalidState
             else Inr (gt_managedPriority t))
      else
        (case find_by mr_id (the (gq_maintenanceRunId dto)) (ge_runs env) of
           None \<Rightarrow> Inl row_missing
         | Some r \<Rightarrow>
             if mr_contractId r \<noteq> ma_contractId a \<or> given (mr_assetId r) \<and> mr_assetId r \<noteq> Some (ma_id a) then Inl invalid
             else Inr None))"

definition new_grant ::
  "ops_context \<Rightarrow> managed_asset \<Rightarrow> grant_dto \<Rightarrow> grant_approval \<Rightarrow> id \<Rightarrow> instant \<Rightarrow> access_grant" where
  "new_grant ops a dto d newId now =
     \<lparr> ag_id = newId, ag_userId = oc_userId ops, ag_engineerId = map_option ep_id (oc_profile ops),
       ag_contractId = ma_contractId a, ag_assetId = ma_id a, ag_ticketId = gq_ticketId dto,
       ag_maintenanceRunId = gq_maintenanceRunId dto, ag_reason = gq_reason dto, ag_requestedMinutes = gq_durationMin dto,
       ag_status = (if gd_auto d then Approved else Requested), ag_auto = gd_auto d, ag_emergency = gd_emergency d,
       ag_grantedMinutes = (if gd_auto d then Some (gd_minutes d) else None), ag_approvedById = None,
       ag_approvedAt = (if gd_auto d then Some now else None), ag_deniedById = None, ag_denyReason = None,
       ag_startsAt = None, ag_expiresAt = None, ag_extensions = 0, ag_extendedAt = None, ag_extensionReason = None,
       ag_revokedAt = None, ag_revokedById = None, ag_revokeReason = None, ag_certSerial = None,
       ag_principals = [assetPrincipal (ma_id a)], ag_createdAt = now \<rparr>"

definition duplicate_grant :: "ops_context \<Rightarrow> managed_asset \<Rightarrow> grant_dto \<Rightarrow> access_grant \<Rightarrow> bool" where
  "duplicate_grant ops a dto g \<longleftrightarrow>
     ag_userId g = oc_userId ops \<and> ag_assetId g = ma_id a \<and> ag_ticketId g = gq_ticketId dto
     \<and> ag_maintenanceRunId g = gq_maintenanceRunId dto \<and> live g"

definition grant_decision :: "grants_env \<Rightarrow> ops_context \<Rightarrow> grant_dto \<Rightarrow> instant \<Rightarrow> (managed_asset \<times> grant_approval) result" where
  "grant_decision env ops dto now =
     (if given (gq_ticketId dto) = given (gq_maintenanceRunId dto) then Inl invalid
      else case find_by ma_id (gq_assetId dto) (ge_assets env) of
        None \<Rightarrow> Inl row_missing
      | Some a \<Rightarrow>
     (case usable_asset a of
        Inl e \<Rightarrow> Inl e
      | Inr _ \<Rightarrow>
     (case work_priority env a dto of
        Inl e \<Rightarrow> Inl e
      | Inr p \<Rightarrow>
     (case eligible env (oc_userId ops) (ma_contractId a) of
        Inl e \<Rightarrow> Inl e
      | Inr _ \<Rightarrow>
     (case decideGrant \<lparr> gf_priority = p, gf_onCall = onCallNow (oc_userId ops) now (ge_shifts env), gf_assetAssigned = True,
                         gf_requestedMinutes = gq_durationMin dto \<rparr> (ge_settings env) of
        Inl _ \<Rightarrow> Inl invalid
      | Inr d \<Rightarrow> Inr (a, d))))))"

definition request_grant ::
  "grants_env \<Rightarrow> ops_context \<Rightarrow> grant_dto \<Rightarrow> bool \<Rightarrow> id \<Rightarrow> instant \<Rightarrow> grants_state \<Rightarrow> unit result \<times> grants_state" where
  "request_grant env ops dto started newId now st =
     (case grant_decision env ops dto now of
        Inl e \<Rightarrow> (Inl e, st)
      | Inr (a, d) \<Rightarrow>
          if list_ex (duplicate_grant ops a dto) (gs_grants st) then (Inl (conflict ''grant_exists''), st)
          else if gq_ticketId dto = Some [] \<or> gq_maintenanceRunId dto = Some [] then (Inl (JsError ''foreign key''), st)
          else (Inr (), startWorkflow started newId now
                          (st\<lparr> gs_grants := gs_grants st @ [new_grant ops a dto d newId now] \<rparr>)))"

definition extend_grant ::
  "grant_rules \<Rightarrow> id \<Rightarrow> id \<Rightarrow> string \<Rightarrow> int \<Rightarrow> instant \<Rightarrow> grants_state \<Rightarrow> unit result \<times> grants_state" where
  "extend_grant r userId i reason minutes now st =
     (case List.find (\<lambda>g. ag_id g = i \<and> ag_userId g = userId) (gs_grants st) of
        None \<Rightarrow> (Inl notFound, st)
      | Some g \<Rightarrow>
          (case decideExtension (ag_status g) (ag_expiresAt g) (ag_extensions g) minutes r now of
             Inl ExtensionUsed \<Rightarrow> (Inl (conflict ''extension_used''), st)
           | Inl NotActive \<Rightarrow> (Inl invalidState, st)
           | Inl ExtensionTooLong \<Rightarrow> (Inl invalid, st)
           | Inr e \<Rightarrow>
               (let hit = (\<lambda>x. ag_id x = i \<and> ag_status x = GrantActive \<and> ag_extensions x = ag_extensions g)
                in if count_where hit (gs_grants st) = 0 then (Inl (conflict ''extension_used''), st)
                   else (Inr (), update_grant hit (\<lambda>x. x\<lparr> ag_expiresAt := Some e, ag_extensions := Suc (ag_extensions x),
                                                       ag_extendedAt := Some now, ag_extensionReason := Some reason \<rparr>) st))))"

datatype status_filter = AnyStatus | OnlyLive | OnlyStatus grant_status

definition in_status :: "status_filter \<Rightarrow> access_grant \<Rightarrow> bool" where
  "in_status q g \<longleftrightarrow> (case q of AnyStatus \<Rightarrow> True | OnlyLive \<Rightarrow> live g | OnlyStatus s \<Rightarrow> ag_status g = s)"

definition listMine :: "id \<Rightarrow> status_filter \<Rightarrow> grants_state \<Rightarrow> access_grant list" where
  "listMine userId q st =
     take 200 (sort_key (\<lambda>g. - ag_createdAt g) (filter (\<lambda>g. ag_userId g = userId \<and> in_status q g) (gs_grants st)))"

definition getMine :: "id \<Rightarrow> id \<Rightarrow> grants_state \<Rightarrow> access_grant result" where
  "getMine userId i st =
     (case List.find (\<lambda>g. ag_id g = i \<and> ag_userId g = userId) (gs_grants st) of None \<Rightarrow> Inl notFound | Some g \<Rightarrow> Inr g)"

section \<open>Support leads\<close>

text \<open>The database orders the values of the status by their declaration.\<close>

fun status_rank :: "grant_status \<Rightarrow> nat" where
  "status_rank Requested = 0"
| "status_rank Approved = 1"
| "status_rank GrantActive = 2"
| "status_rank Denied = 3"
| "status_rank Expired = 4"
| "status_rank Revoked = 5"

definition matches :: "string option \<Rightarrow> string \<Rightarrow> bool" where
  "matches wanted v \<longleftrightarrow> (given wanted \<longrightarrow> wanted = Some v)"

definition adminList ::
  "status_filter \<Rightarrow> id option \<Rightarrow> id option \<Rightarrow> id option \<Rightarrow> grants_state \<Rightarrow> access_grant list" where
  "adminList q userId contractId assetId st =
     take 500 (sort_key (\<lambda>g. status_rank (ag_status g)) (sort_key (\<lambda>g. - ag_createdAt g)
       (filter (\<lambda>g. in_status q g \<and> matches userId (ag_userId g) \<and> matches contractId (ag_contractId g)
          \<and> matches assetId (ag_assetId g)) (gs_grants st))))"

definition approve_grant ::
  "grants_env \<Rightarrow> actor \<Rightarrow> id \<Rightarrow> int option \<Rightarrow> bool \<Rightarrow> bool \<Rightarrow> instant \<Rightarrow> grants_state \<Rightarrow> unit result \<times> grants_state" where
  "approve_grant env who i minutes signalled started now st =
     (case find_grant i st of
        None \<Rightarrow> (Inl notFound, st)
      | Some g \<Rightarrow>
          if ag_userId g = a_userId who then (Inl forbidden, st)
          else if ag_status g \<noteq> Requested then (Inl invalidState, st)
          else case eligible env (ag_userId g) (ag_contractId g) of
                 Inl e \<Rightarrow> (Inl e, st)
               | Inr _ \<Rightarrow>
                   (let m = min (case minutes of None \<Rightarrow> ag_requestedMinutes g | Some x \<Rightarrow> x) (gu_maxGrantMinutes (ge_settings env));
                        hit = (\<lambda>x. ag_id x = i \<and> ag_status x = Requested);
                        st1 = update_grant hit (\<lambda>x. x\<lparr> ag_status := Approved, ag_grantedMinutes := Some m,
                                 ag_approvedById := Some (a_userId who), ag_approvedAt := Some now \<rparr>) st
                    in if count_where hit (gs_grants st) = 0 then (Inl invalidState, st)
                       else (Inr (), if signalled then st1 else startWorkflow started i now (activate i now st1))))"

definition deny_grant :: "actor \<Rightarrow> id \<Rightarrow> string \<Rightarrow> grants_state \<Rightarrow> unit result \<times> grants_state" where
  "deny_grant who i reason st =
     (case find_grant i st of
        None \<Rightarrow> (Inl notFound, st)
      | Some g \<Rightarrow>
          if ag_status g \<noteq> Requested then (Inl invalidState, st)
          else (Inr (), update_grant (\<lambda>x. ag_id x = i \<and> ag_status x = Requested)
                          (\<lambda>x. x\<lparr> ag_status := Denied, ag_deniedById := Some (a_userId who), ag_denyReason := Some reason \<rparr>) st))"

definition revoke_grant :: "id option \<Rightarrow> id \<Rightarrow> string \<Rightarrow> instant \<Rightarrow> grants_state \<Rightarrow> unit result \<times> grants_state" where
  "revoke_grant who i reason now st =
     (case find_grant i st of
        None \<Rightarrow> (Inl notFound, st)
      | Some g \<Rightarrow> if \<not> live g then (Inl invalidState, st) else (Inr (), end_grant g Revoked reason who now st))"

definition revokeWhere ::
  "(access_grant \<Rightarrow> bool) \<Rightarrow> string \<Rightarrow> id option \<Rightarrow> instant \<Rightarrow> grants_state \<Rightarrow> nat \<times> grants_state" where
  "revokeWhere p reason who now st =
     (let rows = filter (\<lambda>g. p g \<and> live g) (gs_grants st)
      in (length rows, fold (\<lambda>g. end_grant g Revoked reason who now) rows st))"

section \<open>Certificates\<close>

definition issueCertificate ::
  "access_grant \<Rightarrow> bool \<Rightarrow> nat \<Rightarrow> id \<Rightarrow> instant \<Rightarrow> grants_state \<Rightarrow> ssh_certificate result \<times> grants_state" where
  "issueCertificate g signed serial sessionId now st =
     (case ag_expiresAt g of
        None \<Rightarrow> (Inl invalidState, st)
      | Some e \<Rightarrow>
          if ag_status g \<noteq> GrantActive \<or> e \<le> now then (Inl invalidState, st)
          else if \<not> signed then (Inl (JsError ''certificate authority''), st)
          else (let c = \<lparr> sk_grantId = ag_id g, sk_sessionId = sessionId, sk_serial = serial,
                          sk_keyId = ''prgd-session-'' @ sessionId, sk_principals = ag_principals g,
                          sk_validAfter = now - 60000, sk_validBefore = e, sk_revokedAt = None \<rparr>
                in (Inr c, update_grant (\<lambda>x. ag_id x = ag_id g) (\<lambda>x. x\<lparr> ag_certSerial := Some serial \<rparr>)
                             (st\<lparr> gs_certs := gs_certs st @ [c] \<rparr>))))"

section \<open>Access is bounded\<close>

text \<open>
  A grant covers one asset, was not approved by the engineer it is for, and opens a window no longer than the
  rules allow.  A certificate carries the principals of its grant, ends with it at the latest, and is
  revoked unless the grant is active.
\<close>

definition rules_ok :: "grant_rules \<Rightarrow> bool" where
  "rules_ok r \<longleftrightarrow> gu_autoGrantMinutes r \<le> gu_maxGrantMinutes r \<and> 1 \<le> gu_maxGrantMinutes r"

definition window_ms :: "grant_rules \<Rightarrow> nat \<Rightarrow> int" where
  "window_ms r n = (1 + int n) * gu_maxGrantMinutes r * 60000"

definition grant_ok :: "grant_rules \<Rightarrow> access_grant \<Rightarrow> bool" where
  "grant_ok r g \<longleftrightarrow>
     ag_requestedMinutes g \<le> gu_maxGrantMinutes r
     \<and> (\<forall>m. ag_grantedMinutes g = Some m \<longrightarrow> m \<le> gu_maxGrantMinutes r)
     \<and> ag_extensions g \<le> gu_maxExtensions r
     \<and> ag_principals g = [assetPrincipal (ag_assetId g)]
     \<and> ag_approvedById g \<noteq> Some (ag_userId g)
     \<and> (\<forall>e. ag_expiresAt g = Some e \<longrightarrow> (\<exists>s. ag_startsAt g = Some s \<and> e \<le> s + window_ms r (ag_extensions g)))
     \<and> (ag_status g \<in> {Requested, Approved} \<longrightarrow> ag_extensions g = 0 \<and> ag_expiresAt g = None)"

definition covers :: "access_grant \<Rightarrow> ssh_certificate \<Rightarrow> bool" where
  "covers g c \<longleftrightarrow>
     ag_id g = sk_grantId c \<and> sk_principals c = ag_principals g
     \<and> (\<exists>e. ag_expiresAt g = Some e \<and> sk_validBefore c \<le> e)
     \<and> (sk_revokedAt c = None \<longrightarrow> ag_status g = GrantActive)"

definition grants_ok :: "grant_rules \<Rightarrow> grants_state \<Rightarrow> bool" where
  "grants_ok r st \<longleftrightarrow>
     uniq ag_id (gs_grants st) \<and> (\<forall>g\<in>set (gs_grants st). grant_ok r g)
     \<and> (\<forall>c\<in>set (gs_certs st). \<exists>g\<in>set (gs_grants st). covers g c)"

lemma grants_okD:
  assumes "grants_ok r st"
  shows "uniq ag_id (gs_grants st)" "g \<in> set (gs_grants st) \<Longrightarrow> grant_ok r g"
    and "c \<in> set (gs_certs st) \<Longrightarrow> \<exists>g\<in>set (gs_grants st). covers g c"
  using assms by (auto simp: grants_ok_def)

lemma grants_update:
  assumes ok: "grants_ok r st" and id: "\<And>g. ag_id (f g) = ag_id g"
    and grant: "\<And>g. g \<in> set (gs_grants st) \<Longrightarrow> p g \<Longrightarrow> grant_ok r g \<Longrightarrow> grant_ok r (f g)"
    and cert: "\<And>g c. g \<in> set (gs_grants st) \<Longrightarrow> p g \<Longrightarrow> grant_ok r g \<Longrightarrow> covers g c \<Longrightarrow> covers (f g) c"
  shows "grants_ok r (update_grant p f st)"
proof -
  have "uniq ag_id (update_where p f (gs_grants st))" using grants_okD(1) [OF ok] id by (subst uniq_update_where) auto
  moreover have "\<forall>g\<in>set (update_where p f (gs_grants st)). grant_ok r g"
    unfolding ball_update_where using grants_okD(2) [OF ok] grant by simp
  moreover have "\<exists>g\<in>set (update_where p f (gs_grants st)). covers g c" if c: "c \<in> set (gs_certs st)" for c
  proof -
    obtain g where g: "g \<in> set (gs_grants st)" "covers g c" using grants_okD(3) [OF ok c] by blast
    then have "covers (if p g then f g else g) c" using cert grants_okD(2) [OF ok] by simp
    then show ?thesis unfolding in_update_where Bex_def using g(1) by blast
  qed
  ultimately show ?thesis by (simp add: grants_ok_def update_grant_def)
qed

lemma find_grant_in: "find_grant i st = Some g \<Longrightarrow> g \<in> set (gs_grants st) \<and> ag_id g = i"
  by (auto simp: find_grant_def dest: find_by_Some)

lemma grants_same_id: "grants_ok r st \<Longrightarrow> g \<in> set (gs_grants st) \<Longrightarrow> h \<in> set (gs_grants st) \<Longrightarrow> ag_id g = ag_id h \<Longrightarrow> g = h"
  using grants_okD(1) uniq_inj by metis

lemma activate_ok:
  assumes "grants_ok r st"
  shows "grants_ok r (activate i now st)"
proof (cases "find_grant i st")
  case (Some g)
  have g: "g \<in> set (gs_grants st)" "ag_id g = i" using find_grant_in [OF Some] by auto
  define m where "m = (case ag_grantedMinutes g of None \<Rightarrow> ag_requestedMinutes g | Some x \<Rightarrow> x)"
  have m: "m \<le> gu_maxGrantMinutes r" using grants_okD(2) [OF assms g(1)] by (auto simp: m_def grant_ok_def split: option.splits)
  have "grants_ok r (update_grant (\<lambda>x. ag_id x = i \<and> ag_status x = Approved)
      (\<lambda>x. x\<lparr> ag_status := GrantActive, ag_startsAt := Some now, ag_expiresAt := Some (now + m * 60000) \<rparr>) st)"
    using m by (intro grants_update [OF assms]) (auto simp: grant_ok_def covers_def window_ms_def)
  then show ?thesis using assms Some by (simp add: activate_def m_def)
qed (use assms in \<open>simp add: activate_def\<close>)

lemma startWorkflow_ok: "grants_ok r st \<Longrightarrow> grants_ok r (startWorkflow started i now st)"
  by (simp add: startWorkflow_def activate_ok)

lemma end_grant_ok:
  assumes ok: "grants_ok r st" and "status \<in> {Revoked, Expired}"
  shows "grants_ok r (end_grant g status reason who now st)"
proof -
  define hit where "hit = (\<lambda>x. ag_id x = ag_id g \<and> live x)"
  define f :: "access_grant \<Rightarrow> access_grant" where "f = (\<lambda>x. x\<lparr> ag_status := status, ag_revokedAt := Some now, ag_revokeReason := Some reason, ag_revokedById := who \<rparr>)"
  define k where "k = (\<lambda>c. c\<lparr> sk_revokedAt := Some now \<rparr> :: ssh_certificate)"
  let ?p = "\<lambda>c. sk_grantId c = ag_id g \<and> sk_revokedAt c = None"
  have "uniq ag_id (update_where hit f (gs_grants st))" using grants_okD(1) [OF ok] by (subst uniq_update_where) (auto simp: f_def)
  moreover have "\<forall>x\<in>set (update_where hit f (gs_grants st)). grant_ok r x"
    unfolding ball_update_where using grants_okD(2) [OF ok] assms(2) by (auto simp: f_def grant_ok_def)
  moreover have "\<exists>x\<in>set (update_where hit f (gs_grants st)). covers x c"
    if c: "c \<in> set (update_where ?p k (gs_certs st))" for c
  proof -
    obtain d where d: "d \<in> set (gs_certs st)" "c = (if ?p d then k d else d)" using c unfolding in_update_where by blast
    obtain x where x: "x \<in> set (gs_grants st)" "covers x d" using grants_okD(3) [OF ok d(1)] by blast
    have "covers (if hit x then f x else x) c" using x(2) d(2) by (auto simp: covers_def hit_def f_def k_def)
    then show ?thesis unfolding in_update_where Bex_def using x(1) by blast
  qed
  ultimately show ?thesis using ok
    by (simp add: end_grant_def Let_def grants_ok_def update_grant_def flip: hit_def f_def k_def)
qed

lemma expire_ok: "grants_ok r st \<Longrightarrow> grants_ok r (expire_grant q i now st)"
  by (auto simp: expire_grant_def intro: end_grant_ok split: option.splits grant_plan.splits)

lemma decideGrant_ok:
  assumes "decideGrant f r = Inr d" "rules_ok r"
  shows "gd_minutes d \<le> gu_maxGrantMinutes r" "gf_requestedMinutes f \<le> gu_maxGrantMinutes r"
  using assms by (auto simp: decideGrant_def rules_ok_def split: if_splits)

lemma grant_decision_ok:
  assumes "grant_decision env ops dto now = Inr (a, d)" "rules_ok (ge_settings env)"
  shows "gd_minutes d \<le> gu_maxGrantMinutes (ge_settings env)" "gq_durationMin dto \<le> gu_maxGrantMinutes (ge_settings env)"
  using assms decideGrant_ok by (fastforce simp: grant_decision_def split: if_splits option.splits sum.splits)+

lemma grants_add:
  assumes "grants_ok r st" "grant_ok r g" "ag_id g \<notin> ag_id ` set (gs_grants st)"
  shows "grants_ok r (st\<lparr> gs_grants := gs_grants st @ [g] \<rparr>)"
  using assms by (auto simp: grants_ok_def uniq_def)

lemma request_ok:
  assumes ok: "grants_ok (ge_settings env) st" and r: "rules_ok (ge_settings env)" and new: "newId \<notin> ag_id ` set (gs_grants st)"
  shows "grants_ok (ge_settings env) (snd (request_grant env ops dto started newId now st))"
proof (cases "grant_decision env ops dto now")
  case (Inr ad)
  obtain a d where d: "ad = (a, d)" by fastforce
  have "grant_ok (ge_settings env) (new_grant ops a dto d newId now)"
    using grant_decision_ok [of env ops dto now a d] Inr r d by (auto simp: new_grant_def grant_ok_def)
  moreover have "ag_id (new_grant ops a dto d newId now) \<notin> ag_id ` set (gs_grants st)" using new by (simp add: new_grant_def)
  ultimately have "grants_ok (ge_settings env) (st\<lparr> gs_grants := gs_grants st @ [new_grant ops a dto d newId now] \<rparr>)"
    by (rule grants_add [OF ok])
  then show ?thesis using ok by (simp add: request_grant_def Inr d startWorkflow_ok)
qed (use ok in \<open>simp add: request_grant_def\<close>)

lemma window_Suc: "window_ms r (Suc n) = window_ms r n + gu_maxGrantMinutes r * 60000"
  by (simp add: window_ms_def algebra_simps)

lemma extend_ok:
  assumes ok: "grants_ok r st"
  shows "grants_ok r (snd (extend_grant r userId i reason minutes now st))"
proof (cases "List.find (\<lambda>g. ag_id g = i \<and> ag_userId g = userId) (gs_grants st)")
  case (Some g)
  then have g: "g \<in> set (gs_grants st)" "ag_id g = i" by (auto simp: find_Some_iff)
  show ?thesis
  proof (cases "decideExtension (ag_status g) (ag_expiresAt g) (ag_extensions g) minutes r now")
    case (Inr e)
    then obtain e0 where e: "ag_expiresAt g = Some e0" "e = e0 + minutes * 60000" "1 \<le> minutes" "minutes \<le> gu_maxGrantMinutes r"
      "ag_extensions g < gu_maxExtensions r"
      by (auto simp: decideExtension_def split: option.splits if_splits)
    have "grants_ok r (update_grant (\<lambda>x. ag_id x = i \<and> ag_status x = GrantActive \<and> ag_extensions x = ag_extensions g)
        (\<lambda>x. x\<lparr> ag_expiresAt := Some e, ag_extensions := Suc (ag_extensions x), ag_extendedAt := Some now,
                ag_extensionReason := Some reason \<rparr>) st)"
    proof (rule grants_update [OF ok], goal_cases)
      case (2 x)
      then have "x = g" using grants_same_id [OF ok] g by blast
      then show ?case using 2 e by (auto simp: grant_ok_def window_Suc)
    next
      case (3 x c)
      then have "x = g" using grants_same_id [OF ok] g by blast
      then show ?case using 3 e by (auto simp: covers_def)
    qed simp
    then show ?thesis using ok by (simp add: extend_grant_def Some Inr Let_def)
  next
    case (Inl why)
    then show ?thesis using ok by (cases why) (simp_all add: extend_grant_def Some)
  qed
qed (use ok in \<open>simp add: extend_grant_def\<close>)

lemma approve_ok:
  assumes ok: "grants_ok (ge_settings env) st"
  shows "grants_ok (ge_settings env) (snd (approve_grant env who i minutes signalled started now st))"
proof (cases "find_grant i st")
  case (Some g)
  have g: "g \<in> set (gs_grants st)" "ag_id g = i" using find_grant_in [OF Some] by auto
  define m where "m = min (case minutes of None \<Rightarrow> ag_requestedMinutes g | Some x \<Rightarrow> x) (gu_maxGrantMinutes (ge_settings env))"
  show ?thesis
  proof (cases "ag_userId g = a_userId who")
    case False
    have "grants_ok (ge_settings env) (update_grant (\<lambda>x. ag_id x = i \<and> ag_status x = Requested)
        (\<lambda>x. x\<lparr> ag_status := Approved, ag_grantedMinutes := Some m, ag_approvedById := Some (a_userId who), ag_approvedAt := Some now \<rparr>) st)"
    proof (rule grants_update [OF ok], goal_cases)
      case (2 x)
      then have "x = g" using grants_same_id [OF ok] g by blast
      then show ?case using 2 False by (auto simp: grant_ok_def m_def)
    qed (auto simp: covers_def)
    then show ?thesis using ok
      by (auto simp: approve_grant_def Some Let_def activate_ok startWorkflow_ok simp flip: m_def split: sum.splits)
  qed (use ok Some in \<open>simp add: approve_grant_def\<close>)
qed (use ok in \<open>simp add: approve_grant_def\<close>)

lemma deny_ok:
  assumes ok: "grants_ok r st"
  shows "grants_ok r (snd (deny_grant who i reason st))"
proof -
  have "grants_ok r (update_grant (\<lambda>x. ag_id x = i \<and> ag_status x = Requested)
      (\<lambda>x. x\<lparr> ag_status := Denied, ag_deniedById := Some (a_userId who), ag_denyReason := Some reason \<rparr>) st)"
    by (rule grants_update [OF ok]) (auto simp: grant_ok_def covers_def)
  then show ?thesis using ok by (auto simp: deny_grant_def split: option.splits)
qed

lemma revoke_ok: "grants_ok r st \<Longrightarrow> grants_ok r (snd (revoke_grant who i reason now st))"
  by (auto simp: revoke_grant_def intro: end_grant_ok split: option.splits)

lemma end_each_ok: "grants_ok r st \<Longrightarrow> grants_ok r (fold (\<lambda>g. end_grant g Revoked reason who now) gs st)"
  by (induction gs arbitrary: st) (simp_all add: end_grant_ok)

lemma revokeWhere_ok: "grants_ok r st \<Longrightarrow> grants_ok r (snd (revokeWhere p reason who now st))"
  by (simp add: revokeWhere_def Let_def end_each_ok)

lemma issue_ok:
  assumes ok: "grants_ok r st" and g: "g \<in> set (gs_grants st)"
  shows "grants_ok r (snd (issueCertificate g signed serial sessionId now st))"
proof (cases "ag_status g = GrantActive \<and> ag_expiresAt g \<noteq> None")
  case True
  then obtain e where e: "ag_expiresAt g = Some e" by blast
  define c where "c = \<lparr> sk_grantId = ag_id g, sk_sessionId = sessionId, sk_serial = serial,
      sk_keyId = ''prgd-session-'' @ sessionId, sk_principals = ag_principals g,
      sk_validAfter = now - 60000, sk_validBefore = e, sk_revokedAt = None \<rparr>"
  have "covers g c" using True e by (simp add: covers_def c_def)
  then have "grants_ok r (st\<lparr> gs_certs := gs_certs st @ [c] \<rparr>)" using ok g by (auto simp: grants_ok_def)
  then have "grants_ok r (update_grant (\<lambda>x. ag_id x = ag_id g) (\<lambda>x. x\<lparr> ag_certSerial := Some serial \<rparr>) (st\<lparr> gs_certs := gs_certs st @ [c] \<rparr>))"
    by (rule grants_update) (auto simp: grant_ok_def covers_def)
  then show ?thesis using ok e by (simp add: issueCertificate_def Let_def c_def)
qed (use ok in \<open>auto simp: issueCertificate_def split: option.splits\<close>)

section \<open>Every sequence of requests\<close>

datatype grant_op = RequestGrant ops_context grant_dto bool id instant | ExtendGrant id id string int instant
  | ApproveGrant actor id "int option" bool bool instant | DenyGrant actor id string | RevokeGrant "id option" id string instant
  | RevokeWhere "access_grant \<Rightarrow> bool" string "id option" instant | IssueCertificate id bool nat id instant
  | Activate id instant | ExpireGrant id instant

fun grant_step :: "grants_env \<Rightarrow> grant_op \<Rightarrow> grants_state \<Rightarrow> grants_state" where
  "grant_step env (RequestGrant ops dto started newId now) st =
     (if newId \<in> ag_id ` set (gs_grants st) then st else snd (request_grant env ops dto started newId now st))"
| "grant_step env (ExtendGrant userId i reason minutes now) st = snd (extend_grant (ge_settings env) userId i reason minutes now st)"
| "grant_step env (ApproveGrant who i minutes signalled started now) st = snd (approve_grant env who i minutes signalled started now st)"
| "grant_step env (DenyGrant who i reason) st = snd (deny_grant who i reason st)"
| "grant_step env (RevokeGrant who i reason now) st = snd (revoke_grant who i reason now st)"
| "grant_step env (RevokeWhere p reason who now) st = snd (revokeWhere p reason who now st)"
| "grant_step env (IssueCertificate i signed serial sessionId now) st =
     (case find_grant i st of None \<Rightarrow> st | Some g \<Rightarrow> snd (issueCertificate g signed serial sessionId now st))"
| "grant_step env (Activate i now) st = activate i now st"
| "grant_step env (ExpireGrant i now) st = expire_grant (ge_settings env) i now st"

definition grants_inv :: "grants_env \<Rightarrow> grants_state \<Rightarrow> bool" where
  "grants_inv env st \<longleftrightarrow> rules_ok (ge_settings env) \<and> grants_ok (ge_settings env) st"

lemma grant_step_inv:
  assumes "grants_inv env st"
  shows "grants_inv env (grant_step env op st)"
proof -
  have r: "rules_ok (ge_settings env)" and ok: "grants_ok (ge_settings env) st" using assms by (auto simp: grants_inv_def)
  have "grants_ok (ge_settings env) (grant_step env op st)"
    by (cases op) (auto simp: ok request_ok [OF ok r] extend_ok approve_ok deny_ok revoke_ok revokeWhere_ok activate_ok expire_ok
        dest: find_grant_in intro: issue_ok [OF ok] split: option.splits)
  with r show ?thesis by (simp add: grants_inv_def)
qed

interpretation vault: guarded_system "grants_inv env" "grant_step env" for env
  by unfold_locales (rule grant_step_inv)

section \<open>Ending access\<close>

definition ended :: "id \<Rightarrow> grants_state \<Rightarrow> bool" where
  "ended i st \<longleftrightarrow> (\<forall>x\<in>set (gs_grants st). ag_id x = i \<longrightarrow> \<not> live x)"

lemma end_grant_ends: "status \<notin> set LIVE_GRANT \<Longrightarrow> ended (ag_id g) (end_grant g status reason who now st)"
  by (auto simp: ended_def end_grant_def Let_def update_grant_def ball_update_where count_where_0_iff live_def)

lemma end_grant_keeps_ended:
  "status \<notin> set LIVE_GRANT \<Longrightarrow> ended i st \<Longrightarrow> ended i (end_grant g status reason who now st)"
  by (auto simp: ended_def end_grant_def Let_def update_grant_def ball_update_where live_def)

lemma end_each_ends:
  assumes "i \<in> ag_id ` set gs \<or> ended i st"
  shows "ended i (fold (\<lambda>g. end_grant g Revoked reason who now) gs st)"
  using assms
proof (induction gs arbitrary: st)
  case (Cons g gs)
  have "Revoked \<notin> set LIVE_GRANT" by (simp add: LIVE_GRANT_def)
  then show ?case using Cons.prems Cons.IH end_grant_ends end_grant_keeps_ended by auto
qed simp

lemma ended_certs_revoked:
  assumes "grants_ok r st" "ended i st" "c \<in> set (gs_certs st)" "sk_grantId c = i"
  shows "sk_revokedAt c \<noteq> None"
  using grants_okD(3) [OF assms(1,3)] assms(2,4) by (auto simp: covers_def ended_def live_def LIVE_GRANT_def)

text \<open>Revoking by a condition ends every live grant it selects, and with it every certificate issued under it.\<close>

theorem revokeWhere_ends:
  assumes ok: "grants_ok r st" and g: "g \<in> set (gs_grants st)" "p g"
    and after: "revokeWhere p reason who now st = (n, st')"
  shows "ended (ag_id g) st' \<and> (\<forall>c\<in>set (gs_certs st'). sk_grantId c = ag_id g \<longrightarrow> sk_revokedAt c \<noteq> None)"
proof -
  let ?rows = "filter (\<lambda>g. p g \<and> live g) (gs_grants st)"
  have "ag_id g \<in> ag_id ` set ?rows \<or> ended (ag_id g) st"
  proof (cases "live g")
    case True
    then show ?thesis using g by simp
  next
    case False
    then show ?thesis using grants_same_id [OF ok g(1)] unfolding ended_def by metis
  qed
  then have "ended (ag_id g) st'" using after end_each_ends [of "ag_id g" ?rows st] by (auto simp: revokeWhere_def Let_def)
  moreover have "grants_ok r st'" using revokeWhere_ok [OF ok, of p reason who now] after by simp
  ultimately show ?thesis using ended_certs_revoked by blast
qed

text \<open>Once an active grant is past its end, or a request past its decision time, expiring it ends it.\<close>

theorem expire_ends:
  assumes "find_grant i st = Some g" "plan r i st = PlanActive e \<or> plan r i st = PlanRequested e" "e \<le> now"
  shows "ended i (expire_grant r i now st)"
  using assms end_grant_ends [of Expired g] find_grant_in [OF assms(1)]
  by (auto simp: expire_grant_def LIVE_GRANT_def)

end
