(* ===== verification/Ssh_Cert.thy ===== *)
theory Ssh_Cert
  imports Redact
begin

text \<open>
  SSH certificates of the engineers' gateway: \<open>modules/ops/access/ca/openssh.ts\<close>.

  A \<open>Buffer\<close> is a list of numbers below 256.  The reader of the source keeps an offset into a buffer;
  here it is the bytes that are left.  Random bytes, the public key of the authority, \<open>sign\<close> and \<open>verify\<close>
  of \<open>node:crypto\<close> and \<open>localeCompare\<close> (as the sorting \<open>sortNames\<close> it is used for) are
  arguments.  Text is Latin 1: a decoded character outside it reads as a question mark.
\<close>

section \<open>Bytes\<close>

type_synonym bytes = "nat list"

definition is_bytes :: "bytes \<Rightarrow> bool" where "is_bytes bs \<longleftrightarrow> (\<forall>b\<in>set bs. b < 256)"

fun big_endian :: "nat \<Rightarrow> nat \<Rightarrow> bytes" where
  "big_endian 0 n = []"
| "big_endian (Suc k) n = (n div 256 ^ k mod 256) # big_endian k n"

definition of_big_endian :: "bytes \<Rightarrow> nat" where
  "of_big_endian bs = foldl (\<lambda>a b. a * 256 + b) 0 bs"

definition range_error :: error where "range_error = JsError ''RangeError''"

definition u32 :: "nat \<Rightarrow> bytes result" where
  "u32 n = (if n < 2 ^ 32 then Inr (big_endian 4 n) else Inl range_error)"

definition u64 :: "int \<Rightarrow> bytes result" where
  "u64 n = (if 0 \<le> n \<and> n < 2 ^ 64 then Inr (big_endian 8 (nat n)) else Inl range_error)"

definition sshString :: "bytes \<Rightarrow> bytes result" where
  "sshString b = and_then (u32 (length b)) (\<lambda>h. Inr (h @ b))"

fun concat_all :: "bytes result list \<Rightarrow> bytes result" where
  "concat_all [] = Inr []"
| "concat_all (r # rs) = and_then r (\<lambda>b. and_then (concat_all rs) (\<lambda>c. Inr (b @ c)))"

section \<open>Reading\<close>

definition truncated :: error where "truncated = JsError ''truncated SSH data''"

definition read_string :: "bytes \<Rightarrow> (bytes \<times> bytes) result" where
  "read_string buf =
     (if length buf < 4 then Inl truncated
      else let n = of_big_endian (take 4 buf); r = drop 4 buf
           in if length r < n then Inl truncated else Inr (take n r, drop n r))"

text \<open>The text of UTF-8 bytes.\<close>

fun utf8_text :: "bytes \<Rightarrow> string" where
  "utf8_text [] = []"
| "utf8_text [b] = [if b < 128 then char_of b else CHR ''?'']"
| "utf8_text (b # c # r) =
     (if b < 128 then char_of b # utf8_text (c # r)
      else if (b = 194 \<or> b = 195) \<and> 128 \<le> c \<and> c < 192 then char_of ((b - 192) * 64 + (c - 128)) # utf8_text r
      else CHR ''?'' # utf8_text (c # r))"

definition read_text :: "bytes \<Rightarrow> (string \<times> bytes) result" where
  "read_text buf = and_then (read_string buf) (\<lambda>(b, r). Inr (utf8_text b, r))"

definition read_fixed :: "nat \<Rightarrow> bytes \<Rightarrow> (nat \<times> bytes) result" where
  "read_fixed k buf = (if length buf < k then Inl range_error else Inr (of_big_endian (take k buf), drop k buf))"

definition read_uint32 :: "bytes \<Rightarrow> (nat \<times> bytes) result" where "read_uint32 = read_fixed 4"
definition read_uint64 :: "bytes \<Rightarrow> (nat \<times> bytes) result" where "read_uint64 = read_fixed 8"

section \<open>Base 64\<close>

definition base64_value :: "char \<Rightarrow> nat option" where
  "base64_value c =
     (let n = of_char c :: nat
      in if 65 \<le> n \<and> n \<le> 90 then Some (n - 65)
         else if 97 \<le> n \<and> n \<le> 122 then Some (n - 71)
         else if 48 \<le> n \<and> n \<le> 57 then Some (n + 4)
         else if c = CHR ''+'' \<or> c = CHR ''-'' then Some 62
         else if c = CHR ''/'' \<or> c = CHR ''_'' then Some 63
         else None)"

fun sextets :: "nat list \<Rightarrow> bytes" where
  "sextets (a # b # c # d # r) = [a * 4 + b div 16, b mod 16 * 16 + c div 4, c mod 4 * 64 + d] @ sextets r"
| "sextets [a, b, c] = [a * 4 + b div 16, b mod 16 * 16 + c div 4]"
| "sextets [a, b] = [a * 4 + b div 16]"
| "sextets _ = []"

definition base64_decode :: "string \<Rightarrow> bytes" where
  "base64_decode s = sextets (List.map_filter base64_value (takeWhile (\<lambda>c. c \<noteq> CHR ''='') s))"

section \<open>Keys\<close>

definition ED25519 :: string where "ED25519 = ''ssh-ed25519''"
definition ED25519_CERT :: string where "ED25519_CERT = ''ssh-ed25519-cert-v01@openssh.com''"

definition line_words :: "string \<Rightarrow> string list" where "line_words line = split_spaces (trim line)"

definition second_word :: "string \<Rightarrow> string option" where
  "second_word line = (case line_words line of _ # w # _ \<Rightarrow> Some w | _ \<Rightarrow> None)"

definition parseEd25519PublicKey :: "string \<Rightarrow> bytes result" where
  "parseEd25519PublicKey line =
     (case second_word line of
        None \<Rightarrow> Inl (JsError ''only ssh-ed25519 public keys are accepted'')
      | Some b64 \<Rightarrow>
          if hd (line_words line) \<noteq> ED25519 \<or> b64 = [] then Inl (JsError ''only ssh-ed25519 public keys are accepted'')
          else
            and_then (read_text (base64_decode b64)) (\<lambda>(ty, r).
              if ty \<noteq> ED25519 then Inl (JsError ''key type does not match'')
              else and_then (read_string r) (\<lambda>(pk, _).
                     if length pk \<noteq> 32 then Inl (JsError ''bad ed25519 key length'') else Inr pk)))"

definition ed25519Blob :: "bytes \<Rightarrow> bytes result" where
  "ed25519Blob pk = concat_all [sshString (utf8 ED25519), sshString pk]"

definition ed25519Line :: "bytes \<Rightarrow> string \<Rightarrow> string result" where
  "ed25519Line pk c =
     and_then (ed25519Blob pk) (\<lambda>b. Inr (ED25519 @ '' '' @ base64 b @ (if c = [] then [] else '' '' @ c)))"

definition drop_padding :: "string \<Rightarrow> string" where
  "drop_padding s = rev (dropWhile (\<lambda>c. c = CHR ''='') (rev s))"

definition fingerprint :: "(bytes \<Rightarrow> bytes) \<Rightarrow> string \<Rightarrow> string result" where
  "fingerprint sha256 line =
     (case second_word line of
        None \<Rightarrow> Inl (JsError ''TypeError'')
      | Some b64 \<Rightarrow> Inr (''SHA256:'' @ drop_padding (base64 (sha256 (base64_decode b64)))))"

definition randomSerial :: "bytes \<Rightarrow> nat" where
  "randomSerial random = (let v = of_big_endian random mod 2 ^ 63 in if v = 0 then 1 else v)"

section \<open>Certificates\<close>

record cert_request =
  cq_publicKey :: string
  cq_serial :: int
  cq_keyId :: string
  cq_principals :: "string list"
  cq_validAfter :: instant
  cq_validBefore :: instant
  cq_sourceAddresses :: "string list option"
  cq_extensions :: "string list option"

definition cert_seconds :: "instant \<Rightarrow> int" where "cert_seconds t = \<lfloor>js_div (of_int t) 1000\<rfloor>"

definition cert_option :: "string \<times> string \<Rightarrow> bytes result" where
  "cert_option nv =
     (case nv of (name, v) \<Rightarrow>
        concat_all [sshString (utf8 name),
                    if v = [] then sshString [] else and_then (sshString (utf8 v)) sshString])"

definition cert_options :: "((string \<times> string) list \<Rightarrow> (string \<times> string) list) \<Rightarrow> (string \<times> string) list \<Rightarrow> bytes result" where
  "cert_options sortNames pairs = concat_all (map cert_option (sortNames pairs))"

definition critical_pairs :: "cert_request \<Rightarrow> (string \<times> string) list" where
  "critical_pairs req =
     (case cq_sourceAddresses req of None \<Rightarrow> [] | Some [] \<Rightarrow> [] | Some as \<Rightarrow> [(''source-address'', join '','' as)])"

definition extension_pairs :: "cert_request \<Rightarrow> (string \<times> string) list" where
  "extension_pairs req = map (\<lambda>e. (e, [])) (case cq_extensions req of None \<Rightarrow> [''permit-pty''] | Some es \<Rightarrow> es)"

definition cert_body ::
  "((string \<times> string) list \<Rightarrow> (string \<times> string) list) \<Rightarrow> bytes \<Rightarrow> bytes \<Rightarrow> bytes \<Rightarrow> cert_request \<Rightarrow> bytes result" where
  "cert_body sortNames nonce pk caPk req =
     concat_all
       [sshString (utf8 ED25519_CERT),
        sshString nonce,
        sshString pk,
        u64 (cq_serial req),
        u32 1,
        sshString (utf8 (cq_keyId req)),
        and_then (concat_all (map (\<lambda>p. sshString (utf8 p)) (cq_principals req))) sshString,
        u64 (cert_seconds (cq_validAfter req)),
        u64 (cert_seconds (cq_validBefore req)),
        and_then (cert_options sortNames (critical_pairs req)) sshString,
        and_then (cert_options sortNames (extension_pairs req)) sshString,
        sshString [],
        and_then (ed25519Blob caPk) sshString]"

definition signUserCertificate ::
  "((string \<times> string) list \<Rightarrow> (string \<times> string) list) \<Rightarrow> (bytes \<Rightarrow> bytes) \<Rightarrow> bytes \<Rightarrow> bytes \<Rightarrow> cert_request \<Rightarrow> string result" where
  "signUserCertificate sortNames sign nonce caPk req =
     and_then (parseEd25519PublicKey (cq_publicKey req)) (\<lambda>pk.
     and_then (cert_body sortNames nonce pk caPk req) (\<lambda>body.
     and_then (and_then (concat_all [sshString (utf8 ED25519), sshString (sign body)]) sshString) (\<lambda>sig.
       Inr (ED25519_CERT @ '' '' @ base64 (body @ sig) @ '' '' @ cq_keyId req))))"

record parsed_certificate =
  pc_type :: string
  pc_publicKey :: bytes
  pc_serial :: nat
  pc_certType :: nat
  pc_keyId :: string
  pc_principals :: "string list"
  pc_validAfter :: "instant option"
  pc_validBefore :: "instant option"
  pc_criticalOptions :: "(string \<times> string) list"
  pc_extensions :: "string list"
  pc_signatureKey :: bytes
  pc_signatureValid :: bool

text \<open>\<open>new Date (Number (n) * 1000)\<close>, \<open>None\<close> for an invalid date.\<close>

definition cert_date :: "nat \<Rightarrow> instant option" where
  "cert_date n = (let q = js_mul (fl (of_nat n)) 1000 in if q \<le> 8640000000000000 then Some \<lfloor>q\<rfloor> else None)"

lemma read_string_shorter: "read_string buf = Inr (b, r) \<Longrightarrow> length r < length buf"
  by (auto simp: read_string_def Let_def split: if_splits)

lemma read_text_shorter: "read_text buf = Inr (b, r) \<Longrightarrow> length r < length buf"
  by (auto simp: read_text_def and_then_Inr read_string_shorter)

function read_texts :: "bytes \<Rightarrow> string list result" where
  "read_texts buf =
     (if buf = [] then Inr []
      else case read_text buf of
             Inl e \<Rightarrow> Inl e
           | Inr (s, r) \<Rightarrow> and_then (read_texts r) (\<lambda>ss. Inr (s # ss)))"
  by pat_completeness auto
termination by (relation "measure length") (auto dest: read_text_shorter)

declare read_texts.simps [simp del]

text \<open>An object keeps the place of a key it already has, and ignores an assignment of a string to \<open>__proto__\<close>.\<close>

fun set_key :: "string \<Rightarrow> string \<Rightarrow> (string \<times> string) list \<Rightarrow> (string \<times> string) list" where
  "set_key k v [] = [(k, v)]"
| "set_key k v ((k', v') # kvs) = (if k = k' then (k, v) # kvs else (k', v') # set_key k v kvs)"

definition assign_key :: "string \<Rightarrow> string \<Rightarrow> (string \<times> string) list \<Rightarrow> (string \<times> string) list" where
  "assign_key k v kvs = (if k = ''__proto__'' then kvs else set_key k v kvs)"

text \<open>\<open>Object.keys\<close>: the keys that are array indices come first, in increasing order.\<close>

definition is_index :: "string \<Rightarrow> bool" where
  "is_index k \<longleftrightarrow> k \<noteq> [] \<and> list_all is_digit k \<and> (hd k = CHR ''0'' \<longrightarrow> k = ''0'')
     \<and> parse_nat k < 2 ^ 32 - 1"

definition object_keys :: "(string \<times> string) list \<Rightarrow> string list" where
  "object_keys kvs =
     (let ks = map fst kvs
      in sort_key parse_nat (filter is_index ks) @ filter (\<lambda>k. \<not> is_index k) ks)"

definition option_value :: "bytes \<Rightarrow> string result" where
  "option_value data = (if data = [] then Inr [] else and_then (read_text data) (\<lambda>(s, _). Inr s))"

function readOptions :: "bytes \<Rightarrow> (string \<times> string) list \<Rightarrow> (string \<times> string) list result" where
  "readOptions buf out =
     (if buf = [] then Inr out
      else case read_text buf of
             Inl e \<Rightarrow> Inl e
           | Inr (name, r) \<Rightarrow>
               (case read_string r of
                  Inl e \<Rightarrow> Inl e
                | Inr (data, r') \<Rightarrow> and_then (option_value data) (\<lambda>v. readOptions r' (assign_key name v out))))"
  by pat_completeness auto
termination by (relation "measure (\<lambda>(b, _). length b)") (auto dest!: read_text_shorter read_string_shorter)

declare readOptions.simps [simp del]

definition parse_bytes :: "(bytes \<Rightarrow> bytes \<Rightarrow> bytes \<Rightarrow> bool result) \<Rightarrow> bytes \<Rightarrow> parsed_certificate result" where
  "parse_bytes verify raw =
     and_then (read_text raw) (\<lambda>(ty, r1).
     if ty \<noteq> ED25519_CERT then Inl (JsError ''unsupported certificate type'') else
     and_then (read_string r1) (\<lambda>(_, r2).
     and_then (read_string r2) (\<lambda>(pk, r3).
     and_then (read_uint64 r3) (\<lambda>(serial, r4).
     and_then (read_uint32 r4) (\<lambda>(ct, r5).
     and_then (read_text r5) (\<lambda>(keyId, r6).
     and_then (read_string r6) (\<lambda>(ps, r7).
     and_then (read_texts ps) (\<lambda>principals.
     and_then (read_uint64 r7) (\<lambda>(va, r8).
     and_then (read_uint64 r8) (\<lambda>(vb, r9).
     and_then (read_string r9) (\<lambda>(co, r10).
     and_then (readOptions co []) (\<lambda>critical.
     and_then (read_string r10) (\<lambda>(ex, r11).
     and_then (readOptions ex []) (\<lambda>exts.
     and_then (read_string r11) (\<lambda>(_, r12).
     and_then (read_string r12) (\<lambda>(keyBlob, r13).
     and_then (read_string r13) (\<lambda>(sigBlob, _).
     and_then (read_text sigBlob) (\<lambda>(_, s1).
     and_then (read_string s1) (\<lambda>(signature, _).
     and_then (read_text keyBlob) (\<lambda>(_, k1).
     and_then (read_string k1) (\<lambda>(key, _).
     and_then (verify key (take (length raw - length r13) raw) signature) (\<lambda>valid.
       Inr \<lparr> pc_type = ty, pc_publicKey = pk, pc_serial = serial, pc_certType = ct, pc_keyId = keyId,
             pc_principals = principals, pc_validAfter = cert_date va, pc_validBefore = cert_date vb,
             pc_criticalOptions = critical, pc_extensions = object_keys exts, pc_signatureKey = key,
             pc_signatureValid = valid \<rparr>))))))))))))))))))))))"

definition parseCertificate :: "(bytes \<Rightarrow> bytes \<Rightarrow> bytes \<Rightarrow> bool result) \<Rightarrow> string \<Rightarrow> parsed_certificate result" where
  "parseCertificate verify line =
     (case second_word line of
        None \<Rightarrow> Inl (JsError ''TypeError'')
      | Some b64 \<Rightarrow> parse_bytes verify (base64_decode b64))"

section \<open>What is written is read back\<close>

text \<open>
  A field of the format: a writer that may refuse, and a reader that yields the value and the bytes after it.
\<close>

locale wire_field =
  fixes enc :: "'a \<Rightarrow> bytes result"
    and dec :: "bytes \<Rightarrow> ('b \<times> bytes) result"
    and val :: "'a \<Rightarrow> 'b"
  assumes dec_enc: "enc v = Inr bs \<Longrightarrow> dec (bs @ r) = Inr (val v, r)"
begin

lemma field: "concat_all (enc v # rs) = Inr bs \<Longrightarrow> \<exists>c. concat_all rs = Inr c \<and> (\<forall>r. dec (bs @ r) = Inr (val v, c @ r))"
  by (auto simp: and_then_Inr dec_enc)

lemma whole: "enc v = Inr bs \<Longrightarrow> dec bs = Inr (val v, [])"
  using dec_enc [of v bs "[]"] by simp

end

lemma length_big_endian [simp]: "length (big_endian k n) = k"
  by (induction k) auto

lemma foldl_big_endian: "foldl (\<lambda>a b. a * 256 + b) (n div 256 ^ k) (big_endian k n) = n"
proof (induction k)
  case (Suc k)
  have "n div 256 ^ Suc k * 256 + n div 256 ^ k mod 256 = n div 256 ^ k"
    by (metis div_mult2_eq div_mult_mod_eq mult.commute power_Suc)
  then show ?case using Suc by (simp add: ac_simps)
qed simp

lemma of_big_endian: "n < 256 ^ k \<Longrightarrow> of_big_endian (big_endian k n) = n"
  using foldl_big_endian [of n k] by (simp add: of_big_endian_def)

interpretation uint32: wire_field u32 read_uint32 "\<lambda>n. n"
  by unfold_locales (auto simp: u32_def read_uint32_def read_fixed_def of_big_endian split: if_splits)

interpretation uint64: wire_field u64 read_uint64 nat
proof unfold_locales
  fix v bs r
  assume "u64 v = Inr bs"
  then have "bs = big_endian 8 (nat v)" "nat v < 256 ^ 8" by (auto simp: u64_def nat_less_iff split: if_splits)
  then show "read_uint64 (bs @ r) = Inr (nat v, r)" by (simp add: read_uint64_def read_fixed_def of_big_endian)
qed

interpretation blob: wire_field sshString read_string "\<lambda>b. b"
  by unfold_locales (auto simp: sshString_def u32_def read_string_def of_big_endian Let_def split: if_splits)

lemma utf8_text_char: "utf8_text (utf8_char c @ bs) = c # utf8_text bs"
proof (cases "of_char c < (128::nat)")
  case True
  then show ?thesis by (cases bs) (simp_all add: utf8_char_def)
next
  case False
  define n where "n = (of_char c :: nat)"
  have n: "128 \<le> n" "n < 256" using False by (simp_all add: n_def)
  have d: "n div 64 = 2 \<or> n div 64 = 3" using n by linarith
  have "(192 + n div 64 - 192) * 64 + (128 + n mod 64 - 128) = n" by simp
  moreover have "char_of n = c" by (simp add: n_def)
  ultimately show ?thesis using n d by (auto simp: utf8_char_def Let_def simp flip: n_def)
qed

lemma utf8_text_utf8 [simp]: "utf8_text (utf8 s) = s"
  by (induction s) (simp_all add: utf8_def utf8_text_char)

interpretation words: wire_field "\<lambda>s. sshString (utf8 s)" read_text "\<lambda>s. s"
  by unfold_locales (simp add: read_text_def blob.dec_enc)

section \<open>Base 64 round trip\<close>

lemma of_char_digit:
  "n < 64 \<Longrightarrow> of_char (base64_digit n) =
     (if n < 26 then 65 + n else if n < 52 then 71 + n else if n < 62 then n - 4 else if n = 62 then 43 else 47)"
  by (auto simp: base64_digit_def)

lemma base64_digit_facts:
  assumes "n < 64"
  shows "base64_value (base64_digit n) = Some n" "base64_digit n \<noteq> CHR ''=''" "\<not> is_space (base64_digit n)"
proof -
  show "base64_digit n \<noteq> CHR ''=''"
  proof
    assume "base64_digit n = CHR ''=''"
    then have "of_char (base64_digit n) = (61 :: nat)" by simp
    then show False using of_char_digit [OF assms] by (simp split: if_splits)
  qed
  show "\<not> is_space (base64_digit n)"
    using of_char_digit [OF assms] assms by (simp add: is_space_def Let_def) arith
  show "base64_value (base64_digit n) = Some n"
  proof (cases "n < 62")
    case True
    consider "n < 26" | "26 \<le> n" "n < 52" | "52 \<le> n" "n < 62" using True by linarith
    then show ?thesis
    proof cases
      case 3
      then obtain k where k: "n = 52 + k" "k < 10" using le_Suc_ex [of 52 n] by auto
      then show ?thesis using of_char_digit [OF assms] by (simp add: base64_value_def Let_def)
    qed (use of_char_digit [OF assms] in \<open>simp_all add: base64_value_def Let_def\<close>)
  next
    case False
    then have "n = 62 \<or> n = 63" using assms by linarith
    then show ?thesis by (auto simp: base64_digit_def base64_value_def)
  qed
qed

lemma high_low:
  fixes x y :: nat
  assumes "y < k"
  shows "(x * k + y) div k = x" "(x * k + y) mod k = y"
  using assms by simp_all

lemma byte_sextets:
  fixes a b c :: nat
  assumes "a < 256" "b < 256" "c < 256"
  shows "a div 4 < 64" "a mod 4 * 16 + b div 16 < 64" "b mod 16 * 4 + c div 64 < 64" "c mod 64 < 64" "a mod 4 * 16 < 64" "b mod 16 * 4 < 64"
    and "a div 4 * 4 + (a mod 4 * 16 + b div 16) div 16 = a"
    and "(a mod 4 * 16 + b div 16) mod 16 * 16 + (b mod 16 * 4 + c div 64) div 4 = b"
    and "(b mod 16 * 4 + c div 64) mod 4 * 64 + c mod 64 = c"
proof -
  have b: "b div 16 < 16" and c: "c div 64 < 4" and a: "a div 4 < 64" using assms by (simp_all add: less_mult_imp_div_less)
  have am: "a mod 4 < 4" and bm: "b mod 16 < 16" by simp_all
  show "a div 4 < 64" by (rule a)
  show "a mod 4 * 16 + b div 16 < 64" "a mod 4 * 16 < 64" using am b by linarith+
  show "b mod 16 * 4 + c div 64 < 64" "b mod 16 * 4 < 64" using bm c by linarith+
  show "c mod 64 < 64" by simp
  show "a div 4 * 4 + (a mod 4 * 16 + b div 16) div 16 = a" using high_low [OF b] by simp
  show "(a mod 4 * 16 + b div 16) mod 16 * 16 + (b mod 16 * 4 + c div 64) div 4 = b" using high_low [OF b] high_low [OF c] by simp
  show "(b mod 16 * 4 + c div 64) mod 4 * 64 + c mod 64 = c" using high_low [OF c] by simp
qed

lemma base64_decode_encode:
  assumes "is_bytes bs"
  shows "base64_decode (base64 bs) = bs"
  using assms
proof (induction bs rule: base64.induct)
  case (2 a)
  then have "a < 256" by (simp add: is_bytes_def)
  then show ?case using byte_sextets [of a 0 0] by (simp add: base64_decode_def base64_digit_facts List.map_filter_simps)
next
  case (3 a b)
  then have "a < 256" "b < 256" by (auto simp: is_bytes_def)
  then show ?case using byte_sextets [of a b 0] by (simp add: base64_decode_def base64_digit_facts List.map_filter_simps)
next
  case (4 a b c r)
  then have "a < 256" "b < 256" "c < 256" "is_bytes r" by (auto simp: is_bytes_def)
  then show ?case using byte_sextets [of a b c] 4 by (simp add: base64_decode_def base64_digit_facts List.map_filter_simps)
qed (simp add: base64_decode_def List.map_filter_simps)

lemma eq_not_space: "\<not> is_space CHR ''=''"
  by (simp add: is_space_def)

lemma base64_no_space: "is_bytes bs \<Longrightarrow> \<forall>c\<in>set (base64 bs). \<not> is_space c"
proof (induction bs rule: base64.induct)
  case (2 a)
  then show ?case using byte_sextets [of a 0 0] by (simp add: is_bytes_def base64_digit_facts eq_not_space)
next
  case (3 a b)
  then show ?case using byte_sextets [of a b 0] by (simp add: is_bytes_def base64_digit_facts eq_not_space)
next
  case (4 a b c r)
  then show ?case using byte_sextets [of a b c] by (simp add: is_bytes_def base64_digit_facts eq_not_space)
qed simp

lemma base64_ne: "bs \<noteq> [] \<Longrightarrow> base64 bs \<noteq> []"
  by (cases bs rule: base64.cases) auto

section \<open>Words of a line\<close>

lemma trimStart_append: "\<not> is_space c \<Longrightarrow> \<exists>x. trimStart (x0 @ c # y) = x @ c # y"
  by (induction x0) auto

lemma trim_keeps:
  assumes "w \<noteq> []" "\<not> is_space (hd w)" "\<not> is_space (last w)"
  shows "\<exists>r'. trim (w @ r) = w @ r' \<and> (r' = [] \<or> (\<exists>r0. r = r' @ r0))"
proof -
  have start: "trimStart (w @ r) = w @ r" using assms by (simp add: trimStart_id)
  have "\<exists>r'. trimStart (x @ rev w) = r' @ rev w \<and> (r' = [] \<or> (\<exists>x0. x = x0 @ r'))" for x
  proof (induction x)
    case Nil
    show ?case using assms by (intro exI [of _ "[]"]) (simp add: trimStart_id hd_rev)
  next
    case (Cons c x)
    then show ?case
    proof (cases "is_space c")
      case True
      obtain r' where "trimStart (x @ rev w) = r' @ rev w" "r' = [] \<or> (\<exists>x0. x = x0 @ r')" using Cons by blast
      then show ?thesis using True by (intro exI [of _ r']) (auto intro: exI [of _ "c # _"])
    next
      case False
      then show ?thesis by (intro exI [of _ "c # x"]) auto
    qed
  qed
  from this [of "rev r"] obtain r' where r': "trimStart (rev r @ rev w) = r' @ rev w" "r' = [] \<or> (\<exists>x0. rev r = x0 @ r')" by blast
  have "trim (w @ r) = w @ rev r'" using start r'(1) by (simp add: trim_def)
  moreover have "rev r' = [] \<or> (\<exists>r0. r = rev r' @ r0)" using r'(2) by (metis rev_append rev_rev_ident rev_is_Nil_conv)
  ultimately show ?thesis by blast
qed

lemma split_spaces_word:
  assumes "\<forall>c\<in>set w. \<not> is_space c" "r = [] \<or> is_space (hd r)"
  shows "split_spaces (w @ r) = (if r = [] then [w] else w # split_spaces (dropWhile is_space r))"
proof -
  have "takeWhile (\<lambda>c. \<not> is_space c) (w @ r) = w" "dropWhile (\<lambda>c. \<not> is_space c) (w @ r) = r"
    using assms by (cases r; simp add: takeWhile_append dropWhile_append)+
  then show ?thesis by (subst split_spaces.simps) (simp add: Let_def)
qed

lemma second_word_of:
  assumes "\<forall>c\<in>set v. \<not> is_space c" "\<forall>c\<in>set w. \<not> is_space c" "v \<noteq> []" "w \<noteq> []" "r = [] \<or> is_space (hd r)"
  shows "\<exists>ws. line_words (v @ '' '' @ w @ r) = v # w # ws"
proof -
  have "\<exists>r'. trim ((v @ '' '' @ w) @ r) = (v @ '' '' @ w) @ r' \<and> (r' = [] \<or> (\<exists>r0. r = r' @ r0))"
    by (rule trim_keeps) (use assms in \<open>auto simp: last_append\<close>)
  then obtain r' where t: "trim (v @ '' '' @ w @ r) = v @ '' '' @ w @ r'" and r': "r' = [] \<or> (\<exists>r0. r = r' @ r0)" by auto
  have sp: "is_space CHR '' ''" by code_simp
  have r'sp: "r' = [] \<or> is_space (hd r')" using r' assms(5) by (cases r') auto
  have dw: "dropWhile is_space ('' '' @ w @ r') = w @ r'" using sp assms by (cases w) auto
  have "split_spaces (v @ '' '' @ w @ r') = v # split_spaces (w @ r')"
    using split_spaces_word [OF assms(1), of "'' '' @ w @ r'"] dw sp by simp
  then show ?thesis unfolding line_words_def t using split_spaces_word [OF assms(2) r'sp] by auto
qed

section \<open>Keys and certificates round trip\<close>

lemma is_bytes_simps [simp]: "is_bytes []" "is_bytes (b # bs) \<longleftrightarrow> b < 256 \<and> is_bytes bs" "is_bytes (xs @ ys) \<longleftrightarrow> is_bytes xs \<and> is_bytes ys"
  by (auto simp: is_bytes_def)

lemma is_bytes_big_endian [simp]: "is_bytes (big_endian k n)"
  by (induction k) auto

lemma is_bytes_utf8 [simp]: "is_bytes (utf8 s)"
proof -
  have "is_bytes (utf8_char c)" for c
  proof -
    have "(of_char c :: nat) div 64 < 64" using nat_of_char_less_256 [of c] by linarith
    then show ?thesis by (auto simp: utf8_char_def Let_def)
  qed
  then show ?thesis by (induction s) (simp_all add: utf8_def)
qed

lemma sshString_bytes: "sshString b = Inr bs \<Longrightarrow> is_bytes b \<Longrightarrow> is_bytes bs"
  by (auto simp: sshString_def and_then_Inr u32_def split: if_splits)

lemma u_bytes: "u32 n = Inr bs \<Longrightarrow> is_bytes bs" "u64 i = Inr bs \<Longrightarrow> is_bytes bs"
  by (auto simp: u32_def u64_def split: if_splits)

lemma concat_all_bytes: "concat_all rs = Inr bs \<Longrightarrow> (\<And>r b. r \<in> set rs \<Longrightarrow> r = Inr b \<Longrightarrow> is_bytes b) \<Longrightarrow> is_bytes bs"
proof (induction rs arbitrary: bs)
  case (Cons r rs)
  then obtain b c where "r = Inr b" "concat_all rs = Inr c" "bs = b @ c" by (auto simp: and_then_Inr)
  then show ?case using Cons by simp
qed simp

lemma sshString_ne: "sshString b = Inr bs \<Longrightarrow> bs \<noteq> []"
  using blob.whole [of b bs] by (auto simp: read_string_def)

lemma read_texts_written:
  "concat_all (map (\<lambda>p. sshString (utf8 p)) ps) = Inr bs \<Longrightarrow> read_texts bs = Inr ps"
proof (induction ps arbitrary: bs)
  case Nil
  then show ?case by (simp add: read_texts.simps)
next
  case (Cons p ps)
  obtain c where c: "concat_all (map (\<lambda>p. sshString (utf8 p)) ps) = Inr c" "read_text bs = Inr (p, c)"
    using words.field [of p "map (\<lambda>p. sshString (utf8 p)) ps" bs] Cons.prems by (metis append_Nil2 list.simps(9))
  have "bs \<noteq> []" using Cons.prems by (auto simp: and_then_Inr dest: sshString_ne)
  then show ?case using Cons.IH [OF c(1)] c(2) by (subst read_texts.simps) simp
qed

lemma set_key_new: "k \<notin> fst ` set kvs \<Longrightarrow> set_key k v kvs = kvs @ [(k, v)]"
  by (induction kvs) auto

lemma cert_option_read:
  assumes "cert_option (k, v) = Inr bs"
  shows "\<exists>data r. read_text (bs @ rest) = Inr (k, r) \<and> read_string r = Inr (data, rest) \<and> option_value data = Inr v"
proof -
  obtain c where c: "concat_all [if v = [] then sshString [] else and_then (sshString (utf8 v)) sshString] = Inr c"
    and k: "read_text (bs @ rest) = Inr (k, c @ rest)"
    using words.field [of k "[if v = [] then sshString [] else and_then (sshString (utf8 v)) sshString]" bs] assms
    unfolding cert_option_def by auto
  show ?thesis
  proof (cases "v = []")
    case True
    then have "read_string (c @ rest) = Inr ([], rest)" using c blob.dec_enc by (simp add: and_then_Inr)
    then show ?thesis using k True by (simp add: option_value_def)
  next
    case False
    then obtain d where d: "sshString (utf8 v) = Inr d" "sshString d = Inr c" using c by (auto simp: and_then_Inr)
    then have "read_string (c @ rest) = Inr (d, rest)" by (simp add: blob.dec_enc)
    moreover have "option_value d = Inr v" using words.whole [OF d(1)] sshString_ne [OF d(1)] by (simp add: option_value_def)
    ultimately show ?thesis using k by blast
  qed
qed

lemma readOptions_written:
  assumes "concat_all (map cert_option kvs) = Inr bs" "distinct (map fst (out @ kvs))" "''__proto__'' \<notin> fst ` set kvs"
  shows "readOptions bs out = Inr (out @ kvs)"
  using assms
proof (induction kvs arbitrary: bs out)
  case Nil
  then show ?case by (simp add: readOptions.simps)
next
  case (Cons kv kvs)
  obtain k v where kv: "kv = (k, v)" by fastforce
  obtain b c where b: "cert_option (k, v) = Inr b" and c: "concat_all (map cert_option kvs) = Inr c" and bs: "bs = b @ c"
    using Cons.prems(1) kv by (auto simp: and_then_Inr)
  obtain data r where r: "read_text bs = Inr (k, r)" "read_string r = Inr (data, c)" "option_value data = Inr v"
    using cert_option_read [OF b, of c] bs by blast
  have "assign_key k v out = out @ [(k, v)]" using Cons.prems(2,3) kv by (auto simp: assign_key_def set_key_new)
  moreover have "readOptions c (out @ [(k, v)]) = Inr ((out @ [(k, v)]) @ kvs)"
    using Cons.IH [OF c, of "out @ [(k, v)]"] Cons.prems(2,3) kv by simp
  moreover have "bs \<noteq> []" using read_text_shorter [OF r(1)] by auto
  ultimately show ?case using r kv by (subst readOptions.simps) simp
qed

lemma cert_date_exact:
  assumes "0 \<le> n" "n \<le> 8640000000000"
  shows "cert_date (nat n) = Some (n * 1000)"
proof -
  have "fl (of_nat (nat n)) = of_int n" using assms fl_of_int [of n] by simp
  moreover have "js_mul (of_int n) 1000 = of_int (n * 1000)" using assms js_mul_of_int [of n 1000] by simp
  moreover have "(of_int (n * 1000) :: rat) \<le> 8640000000000000" using assms by linarith
  moreover have "\<lfloor>of_int (n * 1000) :: rat\<rfloor> = n * 1000" by (rule floor_of_int)
  ultimately show ?thesis by (simp only: cert_date_def Let_def if_True)
qed

lemma cert_seconds_le:
  assumes "t \<le> 8640000000000000"
  shows "cert_seconds t \<le> 8640000000000"
proof -
  have "js_div (of_int t) 1000 \<le> js_div (of_int 8640000000000000) 1000"
    using assms by (intro js_div_mono) simp_all
  also have "\<dots> = fl (of_int 8640000000000)" by (simp add: js_div_def)
  also have "\<dots> = of_int 8640000000000" by (rule fl_of_int) simp
  finally show ?thesis by (simp add: cert_seconds_def floor_le_iff)
qed

definition cert_of ::
  "((string \<times> string) list \<Rightarrow> (string \<times> string) list) \<Rightarrow> bytes \<Rightarrow> bytes \<Rightarrow> cert_request \<Rightarrow> bool \<Rightarrow> parsed_certificate" where
  "cert_of sortNames pk caPk req valid =
     \<lparr> pc_type = ED25519_CERT, pc_publicKey = pk, pc_serial = nat (cq_serial req), pc_certType = 1, pc_keyId = cq_keyId req,
       pc_principals = cq_principals req, pc_validAfter = Some (cert_seconds (cq_validAfter req) * 1000),
       pc_validBefore = Some (cert_seconds (cq_validBefore req) * 1000),
       pc_criticalOptions = sortNames (critical_pairs req), pc_extensions = map fst (sortNames (extension_pairs req)),
       pc_signatureKey = caPk, pc_signatureValid = valid \<rparr>"

text \<open>The names are distinct, as an object needs them to be, and sorting only reorders them.\<close>

definition names_ok :: "((string \<times> string) list \<Rightarrow> (string \<times> string) list) \<Rightarrow> cert_request \<Rightarrow> bool" where
  "names_ok sortNames req \<longleftrightarrow>
     (\<forall>kvs. mset (sortNames kvs) = mset kvs) \<and> distinct (map fst (extension_pairs req)) \<and>
     ''__proto__'' \<notin> fst ` set (extension_pairs req) \<and> (\<forall>k\<in>fst ` set (extension_pairs req). \<not> is_index k)"

lemma names_sorted:
  assumes "mset (sortNames kvs) = mset kvs" "distinct (map fst kvs)" "''__proto__'' \<notin> fst ` set kvs"
  shows "distinct (map fst (sortNames kvs))" "''__proto__'' \<notin> fst ` set (sortNames kvs)"
  using assms by (metis mset_eq_imp_distinct_iff mset_map, metis mset_eq_setD)

lemma critical_names: "distinct (map fst (critical_pairs req))" "''__proto__'' \<notin> fst ` set (critical_pairs req)"
  by (auto simp: critical_pairs_def split: option.splits list.splits)

lemma u64_nonneg: "u64 n = Inr b \<Longrightarrow> 0 \<le> n"
  by (auto simp: u64_def split: if_splits)

lemma key_blob_read:
  assumes "ed25519Blob k = Inr b"
  shows "\<exists>r. read_text b = Inr (ED25519, r) \<and> read_string r = Inr (k, [])"
proof -
  obtain c where "concat_all [sshString k] = Inr c" "read_text b = Inr (ED25519, c)"
    using words.field [of ED25519 "[sshString k]" b] assms unfolding ed25519Blob_def by (metis append_Nil2)
  then show ?thesis using blob.whole by (auto simp: and_then_Inr)
qed

text \<open>The fields of a written body, one after the other.\<close>

lemma nested_field:
  assumes "concat_all (and_then m sshString # rs) = Inr bs"
  shows "\<exists>b c. m = Inr b \<and> concat_all rs = Inr c \<and> (\<forall>r. read_string (bs @ r) = Inr (b, c @ r))"
proof -
  obtain b where m: "m = Inr b" using assms by (cases m) simp_all
  then show ?thesis using blob.field [of b rs bs] assms by auto
qed

lemma critical_read:
  assumes "cert_options sortNames (critical_pairs req) = Inr co" "names_ok sortNames req"
  shows "readOptions co [] = Inr (sortNames (critical_pairs req))"
  using readOptions_written [of "sortNames (critical_pairs req)" co "[]"] names_sorted [OF _ critical_names, of sortNames req] assms
  by (simp add: cert_options_def names_ok_def)

lemma extensions_read:
  assumes "cert_options sortNames (extension_pairs req) = Inr ex" "names_ok sortNames req"
  shows "readOptions ex [] = Inr (sortNames (extension_pairs req))"
  using readOptions_written [of "sortNames (extension_pairs req)" ex "[]"] names_sorted [of sortNames "extension_pairs req"] assms
  by (simp add: cert_options_def names_ok_def)

lemma object_keys_sorted:
  assumes "names_ok sortNames req"
  shows "object_keys (sortNames (extension_pairs req)) = map fst (sortNames (extension_pairs req))"
proof -
  have "set (sortNames (extension_pairs req)) = set (extension_pairs req)"
    using assms unfolding names_ok_def by (metis set_mset_mset)
  then have "\<not> is_index k" if "k \<in> set (map fst (sortNames (extension_pairs req)))" for k
    using that assms unfolding names_ok_def by auto
  then have "filter is_index (map fst (sortNames (extension_pairs req))) = []"
    "filter (\<lambda>k. \<not> is_index k) (map fst (sortNames (extension_pairs req))) = map fst (sortNames (extension_pairs req))"
    by (simp_all only: filter_empty_conv filter_id_conv) blast+
  then show ?thesis by (simp add: object_keys_def Let_def)
qed

lemma cert_date_written:
  assumes "\<exists>b. u64 (cert_seconds t) = Inr b" "t \<le> 8640000000000000"
  shows "cert_date (nat (cert_seconds t)) = Some (cert_seconds t * 1000)"
  using assms u64_nonneg cert_seconds_le by (blast intro: cert_date_exact)

lemma parse_written:
  assumes body: "cert_body sortNames nonce pk caPk req = Inr body"
    and sig: "and_then (concat_all [sshString (utf8 ED25519), sshString signature]) sshString = Inr s"
    and names: "names_ok sortNames req"
    and dates: "cq_validAfter req \<le> 8640000000000000" "cq_validBefore req \<le> 8640000000000000"
    and verify: "verify caPk body signature = Inr valid"
  shows "parse_bytes verify (body @ s) = Inr (cert_of sortNames pk caPk req valid)"
proof -
  define f12 where "f12 = [and_then (ed25519Blob caPk) sshString]"
  define f11 where "f11 = sshString [] # f12"
  define f10 where "f10 = and_then (cert_options sortNames (extension_pairs req)) sshString # f11"
  define f9 where "f9 = and_then (cert_options sortNames (critical_pairs req)) sshString # f10"
  define f8 where "f8 = u64 (cert_seconds (cq_validBefore req)) # f9"
  define f7 where "f7 = u64 (cert_seconds (cq_validAfter req)) # f8"
  define f6 where "f6 = and_then (concat_all (map (\<lambda>p. sshString (utf8 p)) (cq_principals req))) sshString # f7"
  define f5 where "f5 = sshString (utf8 (cq_keyId req)) # f6"
  define f4 where "f4 = u32 1 # f5"
  define f3 where "f3 = u64 (cq_serial req) # f4"
  define f2 where "f2 = sshString pk # f3"
  define f1 where "f1 = sshString nonce # f2"
  have "concat_all (sshString (utf8 ED25519_CERT) # f1) = Inr body"
    using body unfolding cert_body_def f1_def f2_def f3_def f4_def f5_def f6_def f7_def f8_def f9_def f10_def f11_def f12_def .
  from words.field [OF this] obtain c1 where c1: "concat_all f1 = Inr c1" "\<And>r. read_text (body @ r) = Inr (ED25519_CERT, c1 @ r)" by blast
  from blob.field [OF c1(1) [unfolded f1_def]] obtain c2 where c2: "concat_all f2 = Inr c2" "\<And>r. read_string (c1 @ r) = Inr (nonce, c2 @ r)" by blast
  from blob.field [OF c2(1) [unfolded f2_def]] obtain c3 where c3: "concat_all f3 = Inr c3" "\<And>r. read_string (c2 @ r) = Inr (pk, c3 @ r)" by blast
  from uint64.field [OF c3(1) [unfolded f3_def]] obtain c4
    where c4: "concat_all f4 = Inr c4" "\<And>r. read_uint64 (c3 @ r) = Inr (nat (cq_serial req), c4 @ r)" by blast
  from uint32.field [OF c4(1) [unfolded f4_def]] obtain c5 where c5: "concat_all f5 = Inr c5" "\<And>r. read_uint32 (c4 @ r) = Inr (1, c5 @ r)" by blast
  from words.field [OF c5(1) [unfolded f5_def]] obtain c6 where c6: "concat_all f6 = Inr c6" "\<And>r. read_text (c5 @ r) = Inr (cq_keyId req, c6 @ r)" by blast
  from nested_field [OF c6(1) [unfolded f6_def]] obtain ps c7 where c7: "concat_all f7 = Inr c7" "\<And>r. read_string (c6 @ r) = Inr (ps, c7 @ r)"
    and ps: "concat_all (map (\<lambda>p. sshString (utf8 p)) (cq_principals req)) = Inr ps" by blast
  from uint64.field [OF c7(1) [unfolded f7_def]] obtain c8 where c8: "concat_all f8 = Inr c8"
    "\<And>r. read_uint64 (c7 @ r) = Inr (nat (cert_seconds (cq_validAfter req)), c8 @ r)" by blast
  from uint64.field [OF c8(1) [unfolded f8_def]] obtain c9 where c9: "concat_all f9 = Inr c9"
    "\<And>r. read_uint64 (c8 @ r) = Inr (nat (cert_seconds (cq_validBefore req)), c9 @ r)" by blast
  from nested_field [OF c9(1) [unfolded f9_def]] obtain co c10 where c10: "concat_all f10 = Inr c10" "\<And>r. read_string (c9 @ r) = Inr (co, c10 @ r)"
    and co: "cert_options sortNames (critical_pairs req) = Inr co" by blast
  from nested_field [OF c10(1) [unfolded f10_def]] obtain ex c11 where c11: "concat_all f11 = Inr c11" "\<And>r. read_string (c10 @ r) = Inr (ex, c11 @ r)"
    and ex: "cert_options sortNames (extension_pairs req) = Inr ex" by blast
  from blob.field [OF c11(1) [unfolded f11_def]] obtain c12 where c12: "concat_all f12 = Inr c12" "\<And>r. read_string (c11 @ r) = Inr ([], c12 @ r)" by blast
  from nested_field [OF c12(1) [unfolded f12_def]] obtain kb where kb: "\<And>r. read_string (c12 @ r) = Inr (kb, r)" "ed25519Blob caPk = Inr kb" by auto
  have crit: "readOptions co [] = Inr (sortNames (critical_pairs req))" by (rule critical_read [OF co names])
  have exts: "readOptions ex [] = Inr (sortNames (extension_pairs req))" by (rule extensions_read [OF ex names])
  obtain k1 where k1: "read_text kb = Inr (ED25519, k1)" "read_string k1 = Inr (caPk, [])" using key_blob_read [OF kb(2)] by blast
  obtain sb where sb: "ed25519Blob signature = Inr sb" "sshString sb = Inr s" using sig by (auto simp: ed25519Blob_def and_then_Inr)
  obtain s1 where s1: "read_text sb = Inr (ED25519, s1)" "read_string s1 = Inr (signature, [])" using key_blob_read [OF sb(1)] by blast
  have after: "cert_date (nat (cert_seconds (cq_validAfter req))) = Some (cert_seconds (cq_validAfter req) * 1000)"
    using c7(1) dates by (intro cert_date_written) (auto simp: f7_def and_then_Inr)
  have before: "cert_date (nat (cert_seconds (cq_validBefore req))) = Some (cert_seconds (cq_validBefore req) * 1000)"
    using c8(1) dates by (intro cert_date_written) (auto simp: f8_def and_then_Inr)
  have keys: "object_keys (sortNames (extension_pairs req)) = map fst (sortNames (extension_pairs req))"
    by (rule object_keys_sorted [OF names])
  show ?thesis
    unfolding parse_bytes_def cert_of_def
    by (simp add: c1(2) c2(2) c3(2) c4(2) c5(2) c6(2) c7(2) c8(2) c9(2) c10(2) c11(2) c12(2) kb(1) read_texts_written [OF ps]
        crit exts k1 blob.whole [OF sb(2)] s1 verify after before keys)
qed

lemma sextets_bytes: "\<forall>x\<in>set xs. x < 64 \<Longrightarrow> is_bytes (sextets xs)"
proof (induction xs rule: sextets.induct)
  case (1 a b c d r)
  have "a * 4 + b div 16 < 256" "b mod 16 * 16 + c div 4 < 256" "c mod 4 * 64 + d < 256"
    using 1(2) mod_less_divisor [of 16 b] mod_less_divisor [of 4 c] div_le_mono [of b 63 16] div_le_mono [of c 63 4] by (auto simp del: mod_less_divisor)
  then show ?case using 1 by simp
next
  case (2 a b c)
  have "a * 4 + b div 16 < 256" "b mod 16 * 16 + c div 4 < 256"
    using 2 mod_less_divisor [of 16 b] div_le_mono [of b 63 16] div_le_mono [of c 63 4] by (auto simp del: mod_less_divisor)
  then show ?case by simp
next
  case (3 a b)
  have "a * 4 + b div 16 < 256" using 3 div_le_mono [of b 63 16] by auto
  then show ?case by simp
qed simp_all

lemma base64_value_less: "base64_value c = Some n \<Longrightarrow> n < 64"
  by (auto simp: base64_value_def Let_def split: if_splits)

lemma base64_decode_bytes: "is_bytes (base64_decode s)"
  unfolding base64_decode_def by (rule sextets_bytes) (auto simp: List.map_filter_def dest: base64_value_less)

lemma read_string_bytes: "read_string buf = Inr (b, r) \<Longrightarrow> is_bytes buf \<Longrightarrow> is_bytes b \<and> is_bytes r"
  by (auto simp: read_string_def is_bytes_def Let_def split: if_splits dest: in_set_takeD in_set_dropD)

lemma parsed_key_bytes: "parseEd25519PublicKey line = Inr pk \<Longrightarrow> is_bytes pk \<and> length pk = 32"
  by (auto simp: parseEd25519PublicKey_def and_then_Inr read_text_def split: option.splits if_splits
      dest!: read_string_bytes [OF _ base64_decode_bytes] dest: read_string_bytes)

lemma cert_option_bytes: "cert_option kv = Inr b \<Longrightarrow> is_bytes b"
  by (cases kv) (auto simp: cert_option_def and_then_Inr split: if_splits dest!: sshString_bytes)

lemma nested_bytes:
  assumes "and_then m sshString = Inr b" "\<And>c. m = Inr c \<Longrightarrow> is_bytes c"
  shows "is_bytes b"
  using assms by (auto simp: and_then_Inr intro: sshString_bytes)

lemma ed25519Blob_bytes: "ed25519Blob k = Inr b \<Longrightarrow> is_bytes k \<Longrightarrow> is_bytes b"
  unfolding ed25519Blob_def by (erule concat_all_bytes) (auto intro: sshString_bytes)

lemma cert_options_bytes: "cert_options sortNames kvs = Inr b \<Longrightarrow> is_bytes b"
  unfolding cert_options_def by (erule concat_all_bytes) (auto intro: cert_option_bytes)

lemma texts_bytes: "concat_all (map (\<lambda>p. sshString (utf8 p)) ps) = Inr b \<Longrightarrow> is_bytes b"
  by (erule concat_all_bytes) (auto intro: sshString_bytes)

lemma cert_body_bytes:
  assumes "cert_body sortNames nonce pk caPk req = Inr body" "is_bytes nonce" "is_bytes pk" "is_bytes caPk"
  shows "is_bytes body"
  by (rule concat_all_bytes [OF assms(1) [unfolded cert_body_def]])
    (use assms(2-4) in \<open>auto intro: sshString_bytes u_bytes nested_bytes cert_options_bytes ed25519Blob_bytes texts_bytes\<close>)

lemma cert_name_no_space: "\<forall>c\<in>set ED25519_CERT. \<not> is_space c"
  by code_simp

lemma parse_signed:
  assumes signed: "signUserCertificate sortNames sign nonce caPk req = Inr line"
    and bytes: "is_bytes nonce" "is_bytes caPk" "\<And>m. is_bytes (sign m)"
    and names: "names_ok sortNames req"
    and dates: "cq_validAfter req \<le> 8640000000000000" "cq_validBefore req \<le> 8640000000000000"
    and verify: "\<And>m. verify caPk m (sign m) = Inr True"
  shows "\<exists>pk. parseEd25519PublicKey (cq_publicKey req) = Inr pk \<and> parseCertificate verify line = Inr (cert_of sortNames pk caPk req True)"
proof -
  obtain pk body s where pk: "parseEd25519PublicKey (cq_publicKey req) = Inr pk"
    and body: "cert_body sortNames nonce pk caPk req = Inr body"
    and s: "and_then (concat_all [sshString (utf8 ED25519), sshString (sign body)]) sshString = Inr s"
    and line: "line = ED25519_CERT @ '' '' @ base64 (body @ s) @ '' '' @ cq_keyId req"
    using signed unfolding signUserCertificate_def and_then_Inr by blast
  have bb: "is_bytes body" using cert_body_bytes [OF body bytes(1) _ bytes(2)] parsed_key_bytes [OF pk] by blast
  have "is_bytes s" using nested_bytes [OF s] ed25519Blob_bytes [OF _ bytes(3)] unfolding ed25519Blob_def by blast
  then have raw: "is_bytes (body @ s)" using bb by simp
  have "body @ s \<noteq> []" using s by (auto simp: and_then_Inr dest: sshString_ne)
  then have "\<exists>ws. line_words line = ED25519_CERT # base64 (body @ s) # ws"
    unfolding line using base64_ne base64_no_space [OF raw]
    by (intro second_word_of cert_name_no_space) (simp_all add: ED25519_CERT_def is_space_def)
  then have "second_word line = Some (base64 (body @ s))" by (auto simp: second_word_def)
  then have "parseCertificate verify line = parse_bytes verify (body @ s)"
    by (simp add: parseCertificate_def base64_decode_encode [OF raw])
  then show ?thesis using pk parse_written [where verify = verify and valid = True, OF body s names dates] verify by simp
qed

text \<open>A key written as a line is read back from it, whatever comment follows.\<close>

lemma ed25519_no_space: "\<forall>c\<in>set ED25519. \<not> is_space c"
  by code_simp

lemma parse_key_line:
  assumes "ed25519Line pk words_after = Inr line" "is_bytes pk" "length pk = 32"
  shows "parseEd25519PublicKey line = Inr pk"
proof -
  obtain b where b: "ed25519Blob pk = Inr b" and line: "line = ED25519 @ '' '' @ base64 b @ (if words_after = [] then [] else '' '' @ words_after)"
    using assms(1) by (auto simp: ed25519Line_def and_then_Inr)
  have bytes: "is_bytes b" by (rule ed25519Blob_bytes [OF b assms(2)])
  obtain r where r: "read_text b = Inr (ED25519, r)" "read_string r = Inr (pk, [])" using key_blob_read [OF b] by blast
  have "b \<noteq> []" using read_text_shorter [OF r(1)] by auto
  then have ne: "base64 b \<noteq> []" by (rule base64_ne)
  have "\<exists>ws. line_words line = ED25519 # base64 b # ws"
    unfolding line using base64_no_space [OF bytes] ne
    by (intro second_word_of ed25519_no_space) (simp_all add: ED25519_def is_space_def)
  then obtain ws where "line_words line = ED25519 # base64 b # ws" ..
  then show ?thesis using ne r assms(3) by (simp add: parseEd25519PublicKey_def second_word_def base64_decode_encode [OF bytes])
qed

lemma signed_serial:
  assumes "signUserCertificate sortNames sign nonce caPk req = Inr line"
  shows "0 \<le> cq_serial req"
proof -
  obtain b where "u64 (cq_serial req) = Inr b"
    using assms by (auto simp: signUserCertificate_def cert_body_def and_then_Inr)
  then show ?thesis by (rule u64_nonneg)
qed

end
