(* ===== verification/Net_Guard.thy ===== *)
theory Net_Guard
  imports Redact "HOL-Library.Word"
begin

text \<open>
  The guards of outbound requests: \<open>modules/connect/net/guard.ts\<close> (flows) and \<open>common/net/safe-url.ts\<close> (webhooks).

  \<open>isIP\<close> and \<open>BlockList\<close> of \<open>node:net\<close> are written out; an address is its number of 128 bits, an IPv4 address the
  one of its mapped form.  The parser of URLs, the resolver and the exchange of one request over the network are
  arguments: the resolver and the network answer each attempt (\<open>hop\<close>) anew.  \<open>safeFetch\<close> also returns the
  contacts it made.  Timeouts are among the errors of an exchange.
\<close>

section \<open>Addresses\<close>

definition ip_octet :: "string \<Rightarrow> nat option" where
  "ip_octet s =
     (if s \<noteq> [] \<and> length s \<le> 3 \<and> list_all is_digit s \<and> (hd s = CHR ''0'' \<longrightarrow> length s = 1) \<and> parse_nat s \<le> 255
      then Some (parse_nat s) else None)"

definition v4_number :: "nat \<Rightarrow> nat \<Rightarrow> nat \<Rightarrow> nat \<Rightarrow> nat" where
  "v4_number a b c d = ((a * 256 + b) * 256 + c) * 256 + d"

definition parse_v4 :: "string \<Rightarrow> nat option" where
  "parse_v4 s =
     (case map ip_octet (split_on (CHR ''.'') s) of
        [Some a, Some b, Some c, Some d] \<Rightarrow> Some (v4_number a b c d)
      | _ \<Rightarrow> None)"

definition hex_number :: "string \<Rightarrow> nat" where "hex_number s = foldl (\<lambda>n c. 16 * n + hex_value c) 0 s"

definition v6_segment :: "string \<Rightarrow> nat option" where
  "v6_segment s = (if s \<noteq> [] \<and> length s \<le> 4 \<and> list_all is_hex s then Some (hex_number s) else None)"

text \<open>The groups of a text, the last of which may be an IPv4 address.\<close>

fun v6_groups :: "string list \<Rightarrow> nat list option" where
  "v6_groups [] = Some []"
| "v6_groups [p] =
     (case v6_segment p of
        Some g \<Rightarrow> Some [g]
      | None \<Rightarrow> map_option (\<lambda>n. [n div 65536, n mod 65536]) (parse_v4 p))"
| "v6_groups (p # ps) =
     (case v6_segment p of None \<Rightarrow> None | Some g \<Rightarrow> map_option (Cons g) (v6_groups ps))"

definition v6_segments :: "string list \<Rightarrow> nat list option" where
  "v6_segments ps = (if None \<in> set (map v6_segment ps) then None else Some (map (the \<circ> v6_segment) ps))"

definition colon_parts :: "string \<Rightarrow> string list" where
  "colon_parts s = (if s = [] then [] else split_on (CHR '':'') s)"

definition v6_eight :: "string \<Rightarrow> nat list option" where
  "v6_eight s =
     (case indexOf s ''::'' of
        None \<Rightarrow> (case v6_groups (colon_parts s) of Some gs \<Rightarrow> if length gs = 8 then Some gs else None | None \<Rightarrow> None)
      | Some i \<Rightarrow>
          (case (v6_segments (colon_parts (take i s)), v6_groups (colon_parts (drop (i + 2) s))) of
             (Some h, Some t) \<Rightarrow>
               if length h + length t \<le> 7 then Some (h @ replicate (8 - length h - length t) 0 @ t) else None
           | _ \<Rightarrow> None))"

definition zone_ok :: "string \<Rightarrow> bool" where
  "zone_ok z \<longleftrightarrow> z = [] \<or> tl z \<noteq> [] \<and> list_all (\<lambda>c. is_digit c \<or> is_alpha c \<or> c \<in> {CHR ''-'', CHR ''.'', CHR '':''}) (tl z)"

definition v6_number :: "nat list \<Rightarrow> nat" where "v6_number gs = foldl (\<lambda>n g. n * 65536 + g) 0 gs"

definition parse_v6 :: "string \<Rightarrow> nat option" where
  "parse_v6 s =
     (let a = takeWhile (\<lambda>c. c \<noteq> CHR ''%'') s; z = dropWhile (\<lambda>c. c \<noteq> CHR ''%'') s
      in if zone_ok z then map_option v6_number (v6_eight a) else None)"

definition isIP :: "string \<Rightarrow> nat" where
  "isIP s = (if parse_v4 s \<noteq> None then 4 else if parse_v6 s \<noteq> None then 6 else 0)"

section \<open>Block lists\<close>

type_synonym subnet = "nat \<times> nat"

definition mapped_v4 :: "nat \<Rightarrow> nat" where "mapped_v4 n = 65535 * 2 ^ 32 + n"

definition in_subnet :: "nat \<Rightarrow> subnet \<Rightarrow> bool" where
  "in_subnet v net = (v div 2 ^ (128 - snd net) = fst net div 2 ^ (128 - snd net))"

definition v4_subnet :: "nat \<Rightarrow> nat \<Rightarrow> nat \<Rightarrow> nat \<Rightarrow> nat \<Rightarrow> subnet" where
  "v4_subnet a b c d bits = (mapped_v4 (v4_number a b c d), 96 + bits)"

text \<open>\<open>check (address, family)\<close>; an address that does not parse is an error.\<close>

definition block_check :: "subnet list \<Rightarrow> string \<Rightarrow> nat \<Rightarrow> bool result" where
  "block_check nets ip family =
     (case (if family = 4 then map_option mapped_v4 (parse_v4 ip) else parse_v6 ip) of
        None \<Rightarrow> Inl (JsError ''ERR_INVALID_ADDRESS'')
      | Some v \<Rightarrow> Inr (list_ex (in_subnet v) nets))"

definition BLOCKED :: "subnet list" where
  "BLOCKED =
     [v4_subnet 0 0 0 0 8, v4_subnet 10 0 0 0 8, v4_subnet 100 64 0 0 10, v4_subnet 127 0 0 0 8, v4_subnet 169 254 0 0 16,
      v4_subnet 172 16 0 0 12, v4_subnet 192 0 0 0 24, v4_subnet 192 168 0 0 16, v4_subnet 198 18 0 0 15,
      v4_subnet 224 0 0 0 4, v4_subnet 240 0 0 0 4,
      (0, 128), (1, 128), (v6_number [0xfc00, 0, 0, 0, 0, 0, 0, 0], 7), (v6_number [0xfe80, 0, 0, 0, 0, 0, 0, 0], 10),
      (v6_number [0xfec0, 0, 0, 0, 0, 0, 0, 0], 10), (v6_number [0xff00, 0, 0, 0, 0, 0, 0, 0], 8),
      (v6_number [0x2001, 0xdb8, 0, 0, 0, 0, 0, 0], 32), (v6_number [0x100, 0, 0, 0, 0, 0, 0, 0], 64)]"

record net_policy =
  np_ips :: "subnet list"
  np_hosts :: "string list"

definition parse_entry :: "net_policy \<Rightarrow> string \<Rightarrow> net_policy result" where
  "parse_entry p entry =
     (let parts = split_on (CHR ''/'') entry; addr = hd parts; bits = (case parts of _ # b # _ \<Rightarrow> b | _ \<Rightarrow> []); kind = isIP addr
      in if kind = 0 then Inr (p\<lparr> np_hosts := np_hosts p @ [toLowerCase entry] \<rparr>)
         else
           let size = (if kind = 4 then 32 else 128);
               n = (if bits = [] then Some (of_nat size) else js_Number bits);
               base = (if kind = 4 then mapped_v4 (the (parse_v4 addr)) else the (parse_v6 addr))
           in case n of
                Some q \<Rightarrow>
                  if q \<in> \<int> \<and> 0 \<le> q \<and> q \<le> of_nat size
                  then Inr (p\<lparr> np_ips := np_ips p @ [(base, 128 - size + nat \<lfloor>q\<rfloor>)] \<rparr>)
                  else Inl (JsError ''ERR_OUT_OF_RANGE'')
              | None \<Rightarrow> Inl (JsError ''ERR_OUT_OF_RANGE''))"

fun parse_entries :: "net_policy \<Rightarrow> string list \<Rightarrow> net_policy result" where
  "parse_entries p [] = Inr p"
| "parse_entries p (e # es) = (case parse_entry p e of Inl err \<Rightarrow> Inl err | Inr p' \<Rightarrow> parse_entries p' es)"

definition parseAllowlist :: "string \<Rightarrow> net_policy result" where
  "parseAllowlist raw =
     parse_entries \<lparr> np_ips = [], np_hosts = [] \<rparr> (filter (\<lambda>s. s \<noteq> []) (map trim (split_on (CHR '','') raw)))"

definition dotted :: "string \<Rightarrow> bool" where
  "dotted s \<longleftrightarrow> length (split_on (CHR ''.'') s) = 4 \<and> list_all (\<lambda>p. p \<noteq> [] \<and> list_all is_digit p) (split_on (CHR ''.'') s)"

definition two_groups :: "string \<Rightarrow> bool" where
  "two_groups s \<longleftrightarrow> length (split_on (CHR '':'') s) = 2 \<and> list_all (\<lambda>p. p \<noteq> [] \<and> length p \<le> 4 \<and> list_all is_hex p) (split_on (CHR '':'') s)"

definition after_prefix :: "string \<Rightarrow> (string \<Rightarrow> bool) \<Rightarrow> string list \<Rightarrow> string option" where
  "after_prefix v ok ps =
     map_option (\<lambda>p. drop (length p) v) (List.find (\<lambda>p. startsWith v p \<and> ok (drop (length p) v)) ps)"

definition show_v4 :: "nat \<Rightarrow> nat \<Rightarrow> string" where
  "show_v4 a b =
     show_nat (a div 256) @ ''.'' @ show_nat (a mod 256) @ ''.'' @ show_nat (b div 256) @ ''.'' @ show_nat (b mod 256)"

definition embeddedV4 :: "string \<Rightarrow> string option" where
  "embeddedV4 ip =
     (let v = toLowerCase ip
      in case after_prefix v dotted [''::ffff:'', ''::ffff:0:'', ''64:ff9b::''] of
           Some d \<Rightarrow> Some d
         | None \<Rightarrow>
             (case after_prefix v two_groups [''::ffff:'', ''64:ff9b::''] of
                Some h \<Rightarrow>
                  (case split_on (CHR '':'') h of a # b # _ \<Rightarrow> Some (show_v4 (hex_number a) (hex_number b)) | _ \<Rightarrow> None)
              | None \<Rightarrow> None))"

definition isBlockedAddress :: "string \<Rightarrow> bool result" where
  "isBlockedAddress ip =
     (if isIP ip = 4 then block_check BLOCKED ip 4
      else if isIP ip = 6 then
        (case embeddedV4 ip of Some v4 \<Rightarrow> block_check BLOCKED v4 4 | None \<Rightarrow> block_check BLOCKED ip 6)
      else Inr True)"

definition hostAllowlisted :: "string \<Rightarrow> net_policy \<Rightarrow> bool" where
  "hostAllowlisted host policy =
     (let h = toLowerCase host
      in list_ex (\<lambda>p. if startsWith p ''*.'' then endsWith h (drop 1 p) else h = p) (np_hosts policy))"

definition addressAllowed :: "string \<Rightarrow> string \<Rightarrow> net_policy \<Rightarrow> bool result" where
  "addressAllowed host ip policy =
     and_then (isBlockedAddress ip) (\<lambda>b.
       if \<not> b then Inr True
       else if hostAllowlisted host policy then Inr True
       else
         let kind = isIP ip
         in case (if kind = 6 then embeddedV4 ip else None) of
              Some v4 \<Rightarrow> block_check (np_ips policy) v4 4
            | None \<Rightarrow> block_check (np_ips policy) ip (if kind = 4 then 4 else 6))"

definition hostMatches :: "string \<Rightarrow> string list option \<Rightarrow> bool" where
  "hostMatches host patterns =
     (case patterns of
        None \<Rightarrow> True
      | Some [] \<Rightarrow> True
      | Some ps \<Rightarrow>
          let h = toLowerCase host
          in list_ex (\<lambda>raw. let p = toLowerCase (trim raw)
                            in p \<noteq> [] \<and> (if startsWith p ''*.'' then endsWith h (drop 1 p) \<and> length p - 1 < length h else h = p)) ps)"

section \<open>Checked addresses\<close>

type_synonym address = "string \<times> nat"

definition bare_host :: "string \<Rightarrow> string" where
  "bare_host host =
     (let s = (if startsWith host ''['' then drop 1 host else host) in if endsWith s '']'' then butlast s else s)"

definition blocked :: "string \<Rightarrow> error" where "blocked why = JsError (''network_blocked: '' @ why)"

fun find_bad :: "net_policy \<Rightarrow> string \<Rightarrow> address list \<Rightarrow> address option result" where
  "find_bad policy host [] = Inr None"
| "find_bad policy host (a # as) =
     (case addressAllowed host (fst a) policy of
        Inl e \<Rightarrow> Inl e
      | Inr ok \<Rightarrow> if ok then find_bad policy host as else Inr (Some a))"

definition checkedAddresses :: "(string \<Rightarrow> address list) \<Rightarrow> net_policy \<Rightarrow> string \<Rightarrow> address list result" where
  "checkedAddresses resolve policy host =
     (let bare = bare_host host; lower = toLowerCase bare
      in if bare = [] then Inl (blocked ''no host given'')
         else if (lower = ''localhost'' \<or> endsWith lower ''.localhost'' \<or> endsWith lower ''.internal'' \<or> endsWith lower ''.local'')
              \<and> \<not> hostAllowlisted lower policy then Inl (blocked ''local host name'')
         else
           let addrs = (if isIP bare \<noteq> 0 then [(bare, isIP bare)] else resolve bare)
           in if addrs = [] then Inl (blocked ''does not resolve'')
              else case find_bad policy bare addrs of
                     Inl e \<Rightarrow> Inl e
                   | Inr (Some _) \<Rightarrow> Inl (blocked ''private or reserved address'')
                   | Inr None \<Rightarrow> Inr addrs)"

definition resolveSafeHost :: "(string \<Rightarrow> address list) \<Rightarrow> net_policy \<Rightarrow> string \<Rightarrow> address result" where
  "resolveSafeHost resolve policy host =
     (case checkedAddresses resolve policy host of
        Inl e \<Rightarrow> Inl e
      | Inr as \<Rightarrow> Inr (case List.find (\<lambda>a. snd a = 4) as of Some a \<Rightarrow> a | None \<Rightarrow> hd as))"

section \<open>Requests\<close>

record url =
  u_protocol :: string
  u_username :: string
  u_password :: string
  u_hostname :: string
  u_host :: string
  u_href :: string

definition checkUrl :: "(string \<Rightarrow> url option) \<Rightarrow> string \<Rightarrow> string list option \<Rightarrow> url result" where
  "checkUrl parse raw allowedHosts =
     (case parse raw of
        None \<Rightarrow> Inl (blocked ''not a valid URL'')
      | Some u \<Rightarrow>
          if u_protocol u \<noteq> ''https:'' \<and> u_protocol u \<noteq> ''http:'' then Inl (blocked ''only http and https URLs can be called'')
          else if u_username u \<noteq> [] \<or> u_password u \<noteq> [] then Inl (blocked ''credentials in the URL are not accepted'')
          else if \<not> hostMatches (bare_host (u_hostname u)) allowedHosts then Inl (blocked ''not in the allowed hosts'')
          else Inr u)"

record safe_request =
  sq_method :: "string option"
  sq_headers :: "(string \<times> string) list option"
  sq_body :: "string option"

datatype header_value = OneValue string | ManyValues "string list"

record reply =
  rp_status :: nat
  rp_headers :: "(string \<times> header_value) list"
  rp_chunks :: "nat list list"
  rp_failure :: "error option"

record exchange_result =
  xr_status :: nat
  xr_headers :: "(string \<times> header_value) list"
  xr_body :: "nat list"
  xr_truncated :: bool

record contact =
  ct_url :: url
  ct_request :: safe_request
  ct_addresses :: "address list"

record fetch_env =
  fe_policy :: net_policy
  fe_parse :: "string \<Rightarrow> url option"
  fe_join :: "string \<Rightarrow> url \<Rightarrow> url option"
  fe_resolve :: "nat \<Rightarrow> string \<Rightarrow> address list"
  fe_exchange :: "nat \<Rightarrow> contact \<Rightarrow> reply result"
  fe_allowedHosts :: "string list option"
  fe_maxBytes :: nat
  fe_maxRedirects :: nat

definition HTTP_TIMEOUT_MS :: nat where "HTTP_TIMEOUT_MS = 15000"
definition HTTP_MAX_BYTES :: nat where "HTTP_MAX_BYTES = 1024 * 1024"
definition HTTP_MAX_REDIRECTS :: nat where "HTTP_MAX_REDIRECTS = 3"

text \<open>The handler of the data of a response: what is kept, and whether anything was dropped.\<close>

fun collect :: "nat \<Rightarrow> nat list \<Rightarrow> nat list list \<Rightarrow> nat list \<times> bool" where
  "collect maxBytes acc [] = (acc, False)"
| "collect maxBytes acc (c # cs) =
     (if maxBytes < length acc + length c then (acc @ take (maxBytes - length acc) c, True)
      else collect maxBytes (acc @ c) cs)"

definition once :: "fetch_env \<Rightarrow> nat \<Rightarrow> url \<Rightarrow> safe_request \<Rightarrow> exchange_result result \<times> contact list" where
  "once env hop u req =
     (let host = bare_host (u_hostname u); lower = toLowerCase host;
          literal = (if isIP host = 0 then Inr True else addressAllowed host host (fe_policy env));
          addrs = (if isIP host \<noteq> 0 then Inr [(host, isIP host)]
                   else checkedAddresses (fe_resolve env hop) (fe_policy env) (u_hostname u))
      in case literal of
           Inl e \<Rightarrow> (Inl e, [])
         | Inr False \<Rightarrow> (Inl (blocked ''private or reserved address''), [])
         | Inr True \<Rightarrow>
             if (lower = ''localhost'' \<or> endsWith lower ''.localhost'') \<and> \<not> hostAllowlisted lower (fe_policy env)
             then (Inl (blocked ''local hosts cannot be reached''), [])
             else case addrs of
                    Inl e \<Rightarrow> (Inl e, [])
                  | Inr as \<Rightarrow>
                      let c = \<lparr> ct_url = u, ct_request = req, ct_addresses = as \<rparr>
                      in case fe_exchange env hop c of
                           Inl e \<Rightarrow> (Inl e, [c])
                         | Inr rp \<Rightarrow>
                             let (body, truncated) = collect (fe_maxBytes env) [] (rp_chunks rp)
                             in case rp_failure rp of
                                  Some e \<Rightarrow>
                                    (if truncated
                                     then Inr \<lparr> xr_status = rp_status rp, xr_headers = rp_headers rp, xr_body = body, xr_truncated = True \<rparr>
                                     else Inl e, [c])
                                | None \<Rightarrow>
                                    (Inr \<lparr> xr_status = rp_status rp, xr_headers = rp_headers rp, xr_body = body, xr_truncated = truncated \<rparr>, [c]))"

definition drop_headers :: "string list \<Rightarrow> (string \<times> string) list \<Rightarrow> (string \<times> string) list" where
  "drop_headers names hs = filter (\<lambda>(k, _). toLowerCase k \<notin> set names) hs"

definition as_get :: "nat \<Rightarrow> safe_request \<Rightarrow> safe_request" where
  "as_get status req =
     (let verb = toUpperCase (case sq_method req of None \<Rightarrow> ''GET'' | Some s \<Rightarrow> s)
      in if status = 303 \<or> (status = 301 \<or> status = 302) \<and> verb = ''POST''
         then \<lparr> sq_method = Some ''GET'',
                sq_headers = Some (drop_headers [''content-type'', ''content-length''] (case sq_headers req of None \<Rightarrow> [] | Some hs \<Rightarrow> hs)),
                sq_body = None \<rparr>
         else req)"

definition CREDENTIALS :: "string list" where "CREDENTIALS = [''authorization'', ''cookie'', ''proxy-authorization'']"

definition without_credentials :: "string \<Rightarrow> url \<Rightarrow> safe_request \<Rightarrow> safe_request" where
  "without_credentials home u req =
     (case sq_headers req of
        Some hs \<Rightarrow> if home \<noteq> u_host u then req\<lparr> sq_headers := Some (drop_headers CREDENTIALS hs) \<rparr> else req
      | None \<Rightarrow> req)"

record safe_response =
  sp_status :: nat
  sp_headers :: "(string \<times> string) list"
  sp_body :: "nat list"
  sp_truncated :: bool
  sp_url :: string
  sp_redirects :: nat
  sp_bytes :: nat

definition flat_header :: "header_value \<Rightarrow> string" where
  "flat_header v = (case v of OneValue s \<Rightarrow> s | ManyValues ss \<Rightarrow> join '', '' ss)"

definition location :: "exchange_result \<Rightarrow> string option" where
  "location x =
     (if 300 \<le> xr_status x \<and> xr_status x < 400
      then case map_of (xr_headers x) ''location'' of
             Some (OneValue s) \<Rightarrow> if s = [] then None else Some s
           | _ \<Rightarrow> None
      else None)"

function fetch_loop :: "fetch_env \<Rightarrow> string \<Rightarrow> nat \<Rightarrow> url \<Rightarrow> safe_request \<Rightarrow> safe_response result \<times> contact list" where
  "fetch_loop env home hop u req =
     (case once env hop u req of
        (Inl e, cs) \<Rightarrow> (Inl e, cs)
      | (Inr x, cs) \<Rightarrow>
          (case location x of
             None \<Rightarrow>
               (Inr \<lparr> sp_status = xr_status x, sp_headers = map (\<lambda>(k, v). (k, flat_header v)) (xr_headers x), sp_body = xr_body x,
                      sp_truncated = xr_truncated x, sp_url = u_href u, sp_redirects = hop, sp_bytes = length (xr_body x) \<rparr>, cs)
           | Some l \<Rightarrow>
               if fe_maxRedirects env \<le> hop then (Inl (blocked ''too many redirects''), cs)
               else case fe_join env l u of
                      None \<Rightarrow> (Inl (JsError ''TypeError''), cs)
                    | Some raw \<Rightarrow>
                        (case checkUrl (fe_parse env) (u_href raw) (fe_allowedHosts env) of
                           Inl e \<Rightarrow> (Inl e, cs)
                         | Inr u' \<Rightarrow>
                             (case fetch_loop env home (Suc hop) u' (without_credentials home u' (as_get (xr_status x) req)) of
                                (r, cs') \<Rightarrow> (r, cs @ cs')))))"
  by pat_completeness auto
termination by (relation "measure (\<lambda>(env, _, hop, _, _). fe_maxRedirects env - hop)") auto

declare fetch_loop.simps [simp del]

definition safeFetch :: "fetch_env \<Rightarrow> string \<Rightarrow> safe_request \<Rightarrow> safe_response result \<times> contact list" where
  "safeFetch env rawUrl req =
     (case checkUrl (fe_parse env) rawUrl (fe_allowedHosts env) of
        Inl e \<Rightarrow> (Inl e, [])
      | Inr u \<Rightarrow> fetch_loop env (u_host u) 0 u req)"

section \<open>Webhook addresses\<close>

definition v4ToInt :: "string \<Rightarrow> 32 word" where
  "v4ToInt ip = foldl (\<lambda>n p. push_bit 8 n + of_nat (parse_nat p)) 0 (split_on (CHR ''.'') ip)"

definition BLOCKED_V4 :: "(string \<times> nat) list" where
  "BLOCKED_V4 =
     [(''10.0.0.0'', 8), (''172.16.0.0'', 12), (''192.168.0.0'', 16), (''127.0.0.0'', 8), (''169.254.0.0'', 16),
      (''100.64.0.0'', 10), (''0.0.0.0'', 8), (''224.0.0.0'', 4), (''240.0.0.0'', 4)]"

function isPublicAddress :: "string \<Rightarrow> bool" where
  "isPublicAddress ip =
     (if isIP ip = 4
      then \<not> list_ex (\<lambda>(base, bits). drop_bit (32 - bits) (v4ToInt ip) = drop_bit (32 - bits) (v4ToInt base)) BLOCKED_V4
      else if isIP ip = 6
      then let v = toLowerCase ip
           in if v = ''::1'' \<or> v = ''::'' \<or> startsWith v ''fe80:'' \<or> startsWith v ''fc'' \<or> startsWith v ''fd'' then False
              else if startsWith v ''::ffff:'' then isPublicAddress (drop 7 v)
              else True
      else False)"
  by pat_completeness auto
termination
proof (relation "measure length", goal_cases)
  case (2 ip v)
  then have "ip \<noteq> []" by (auto simp: toLowerCase_def startsWith_def)
  then show ?case using 2 by (cases ip) (simp_all add: toLowerCase_def)
qed simp

declare isPublicAddress.simps [simp del]

definition assertSafeUrl :: "(string \<Rightarrow> url option) \<Rightarrow> (string \<Rightarrow> string list) \<Rightarrow> string \<Rightarrow> unit result" where
  "assertSafeUrl parse resolve raw =
     (case parse raw of
        None \<Rightarrow> Inl (JsError ''not a valid URL'')
      | Some u \<Rightarrow>
          if u_protocol u \<noteq> ''https:'' then Inl (JsError ''only https URLs are accepted'')
          else if u_username u \<noteq> [] \<or> u_password u \<noteq> [] then Inl (JsError ''credentials in the URL are not accepted'')
          else
            let host = bare_host (u_hostname u)
            in if host = ''localhost'' \<or> endsWith host ''.localhost'' \<or> endsWith host ''.internal'' \<or> endsWith host ''.local''
               then Inl (JsError ''local hosts are not accepted'')
               else
                 let addrs = (if isIP host \<noteq> 0 then [host] else resolve host)
                 in if addrs = [] then Inl (JsError ''the host does not resolve'')
                    else if list_ex (\<lambda>a. \<not> isPublicAddress a) addrs then Inl (JsError ''the host resolves to a private address'')
                    else Inr ())"

section \<open>What is kept of a response\<close>

lemma collect_take:
  assumes "length acc \<le> maxBytes"
  shows "collect maxBytes acc cs = (take maxBytes (acc @ concat cs), maxBytes < length (acc @ concat cs))"
  using assms
proof (induction cs arbitrary: acc)
  case (Cons c cs)
  then show ?case using Cons.IH [of "acc @ c"] by (cases "maxBytes < length acc + length c") simp_all
qed simp

section \<open>Only allowed addresses are contacted\<close>

lemma find_bad_None: "find_bad policy host as = Inr None \<Longrightarrow> a \<in> set as \<Longrightarrow> addressAllowed host (fst a) policy = Inr True"
  by (induction as) (auto split: sum.splits if_splits)

lemma checkedAddresses_allowed:
  assumes "checkedAddresses resolve policy host = Inr as"
  shows "as \<noteq> [] \<and> (\<forall>a\<in>set as. addressAllowed (bare_host host) (fst a) policy = Inr True)"
  using assms by (auto simp: checkedAddresses_def Let_def find_bad_None split: if_splits sum.splits option.splits)

lemma resolveSafeHost_allowed:
  assumes "resolveSafeHost resolve policy host = Inr a"
  shows "addressAllowed (bare_host host) (fst a) policy = Inr True"
proof -
  obtain as where as: "checkedAddresses resolve policy host = Inr as"
    "a = (case List.find (\<lambda>a. snd a = 4) as of Some a \<Rightarrow> a | None \<Rightarrow> hd as)"
    using assms by (auto simp: resolveSafeHost_def split: sum.splits)
  then have "a \<in> set as" using checkedAddresses_allowed [OF as(1)] by (auto simp: find_Some_iff split: option.splits)
  then show ?thesis using checkedAddresses_allowed [OF as(1)] by blast
qed

definition allowed_contact :: "fetch_env \<Rightarrow> contact \<Rightarrow> bool" where
  "allowed_contact env c \<longleftrightarrow>
     ct_addresses c \<noteq> []
     \<and> (\<forall>a\<in>set (ct_addresses c). addressAllowed (bare_host (u_hostname (ct_url c))) (fst a) (fe_policy env) = Inr True)"

lemma once_contacts:
  assumes "once env hop u req = (r, cs)"
  shows "(\<forall>c\<in>set cs. ct_url c = u \<and> ct_request c = req \<and> allowed_contact env c) \<and> length cs \<le> 1
    \<and> (\<forall>x. r = Inr x \<longrightarrow> length (xr_body x) \<le> fe_maxBytes env \<and> cs \<noteq> [])"
proof -
  let ?host = "bare_host (u_hostname u)"
  have ok: "allowed_contact env \<lparr> ct_url = u, ct_request = req, ct_addresses = as \<rparr>"
    if "(if isIP ?host = 0 then Inr True else addressAllowed ?host ?host (fe_policy env)) = Inr True"
      "(if isIP ?host \<noteq> 0 then Inr [(?host, isIP ?host)] else checkedAddresses (fe_resolve env hop) (fe_policy env) (u_hostname u)) = Inr as" for as
    using that checkedAddresses_allowed by (auto simp: allowed_contact_def split: if_splits)
  show ?thesis
    using assms ok unfolding once_def Let_def
    by (auto simp: collect_take split: sum.splits bool.splits if_splits option.splits prod.splits)
qed

lemma checkUrl_Inr:
  "checkUrl parse raw hosts = Inr u \<longleftrightarrow>
     parse raw = Some u \<and> (u_protocol u = ''https:'' \<or> u_protocol u = ''http:'') \<and> u_username u = [] \<and> u_password u = []
     \<and> hostMatches (bare_host (u_hostname u)) hosts"
  by (auto simp: checkUrl_def split: option.splits)

text \<open>
  The headers that \<open>safeFetch\<close> takes for credentials are the three of \<open>CREDENTIALS\<close>.  Every other header, also one a
  connection was configured to carry its secret in, is passed on with a redirect; the two that describe a body may be dropped.
\<close>

definition names_credentials :: "safe_request \<Rightarrow> bool" where
  "names_credentials req \<longleftrightarrow> (\<exists>hs. sq_headers req = Some hs \<and> (\<exists>(k, _)\<in>set hs. toLowerCase k \<in> set CREDENTIALS))"

lemma without_credentials_none: "home \<noteq> u_host u \<Longrightarrow> \<not> names_credentials (without_credentials home u req)"
  by (auto simp: names_credentials_def without_credentials_def drop_headers_def split: option.splits)

definition passed_on :: "safe_request \<Rightarrow> (string \<times> string) list" where
  "passed_on req = drop_headers (CREDENTIALS @ [''content-type'', ''content-length''])
     (case sq_headers req of None \<Rightarrow> [] | Some hs \<Rightarrow> hs)"

lemma drop_drop:
  "drop_headers (a @ b) (drop_headers a hs) = drop_headers (a @ b) hs"
  "drop_headers (a @ b) (drop_headers b hs) = drop_headers (a @ b) hs"
  by (auto simp: drop_headers_def filter_filter intro!: filter_cong)

lemma passed_on_without: "passed_on (without_credentials home u req) = passed_on req"
  by (simp add: passed_on_def without_credentials_def drop_drop split: option.splits)

lemma passed_on_get: "passed_on (as_get status req) = passed_on req"
  by (simp add: passed_on_def as_get_def drop_drop Let_def)

text \<open>What a contact of \<open>safeFetch\<close> satisfies; \<open>home\<close> is the host of the URL that was asked for.\<close>

definition contact_ok :: "fetch_env \<Rightarrow> string \<Rightarrow> contact \<Rightarrow> bool" where
  "contact_ok env home c \<longleftrightarrow>
     (let u = ct_url c
      in (u_protocol u = ''https:'' \<or> u_protocol u = ''http:'') \<and> u_username u = [] \<and> u_password u = []
         \<and> hostMatches (bare_host (u_hostname u)) (fe_allowedHosts env)
         \<and> allowed_contact env c \<and> (u_host u \<noteq> home \<longrightarrow> \<not> names_credentials (ct_request c)))"

lemma fetch_loop_contacts:
  assumes "fetch_loop env home hop u req = (r, cs)" "checkUrl (fe_parse env) raw (fe_allowedHosts env) = Inr u"
    and "u_host u \<noteq> home \<Longrightarrow> \<not> names_credentials req"
  shows "(\<forall>c\<in>set cs. contact_ok env home c) \<and> length cs \<le> Suc (fe_maxRedirects env - hop)
    \<and> (\<forall>x. r = Inr x \<longrightarrow> sp_bytes x \<le> fe_maxBytes env \<and> sp_redirects x \<le> max hop (fe_maxRedirects env) \<and> sp_url x = u_href (ct_url (last cs)) \<and> cs \<noteq> [])"
  using assms
proof (induction env home hop u req arbitrary: r cs raw rule: fetch_loop.induct)
  case (1 env home hop u req)
  obtain r1 cs1 where o: "once env hop u req = (r1, cs1)" by fastforce
  note oc = once_contacts [OF o]
  have mine: "\<forall>c\<in>set cs1. contact_ok env home c"
    using oc "1.prems"(2,3) by (auto simp: contact_ok_def Let_def checkUrl_Inr)
  have here: "r = r1' \<Longrightarrow> cs = cs1 \<Longrightarrow> (\<And>x. r1' = Inr x \<Longrightarrow> sp_bytes x \<le> fe_maxBytes env \<and> sp_redirects x = hop \<and> sp_url x = u_href u \<and> cs1 \<noteq> []) \<Longrightarrow> ?case" for r1'
  proof -
    assume a: "r = r1'" "cs = cs1" "\<And>x. r1' = Inr x \<Longrightarrow> sp_bytes x \<le> fe_maxBytes env \<and> sp_redirects x = hop \<and> sp_url x = u_href u \<and> cs1 \<noteq> []"
    have "ct_url (last cs1) = u" if "cs1 \<noteq> []" using oc that by simp
    then show ?case using a mine oc by auto
  qed
  show ?case
  proof (cases r1)
    case (Inl e)
    then show ?thesis using "1.prems"(1) o by (intro here [of r]) (auto simp: fetch_loop.simps [of env home hop])
  next
    case (Inr x)
    show ?thesis
    proof (cases "location x")
      case None
      then show ?thesis using "1.prems"(1) o Inr oc by (intro here [of r]) (auto simp: fetch_loop.simps [of env home hop])
    next
      case (Some l)
      show ?thesis
      proof (cases "\<exists>j u'. \<not> fe_maxRedirects env \<le> hop \<and> fe_join env l u = Some j \<and> checkUrl (fe_parse env) (u_href j) (fe_allowedHosts env) = Inr u'")
        case False
        then have "cs = cs1 \<and> (\<exists>e. r = Inl e)"
          using "1.prems"(1) o Inr Some by (auto simp: fetch_loop.simps [of env home hop] split: if_splits option.splits sum.splits)
        then show ?thesis by (intro here [of r]) auto
      next
        case True
        then obtain j u' where j: "\<not> fe_maxRedirects env \<le> hop" "fe_join env l u = Some j"
          and u': "checkUrl (fe_parse env) (u_href j) (fe_allowedHosts env) = Inr u'" by blast
        define req' where "req' = without_credentials home u' (as_get (xr_status x) req)"
        obtain cs2 where rest: "fetch_loop env home (Suc hop) u' req' = (r, cs2)" "cs = cs1 @ cs2"
          using "1.prems"(1) o Inr Some j u' by (auto simp: fetch_loop.simps [of env home hop] req'_def split: prod.splits)
        have "u_host u' \<noteq> home \<Longrightarrow> \<not> names_credentials req'" unfolding req'_def using without_credentials_none by metis
        then have ih: "(\<forall>c\<in>set cs2. contact_ok env home c) \<and> length cs2 \<le> Suc (fe_maxRedirects env - Suc hop)
          \<and> (\<forall>x. r = Inr x \<longrightarrow> sp_bytes x \<le> fe_maxBytes env \<and> sp_redirects x \<le> max (Suc hop) (fe_maxRedirects env)
               \<and> sp_url x = u_href (ct_url (last cs2)) \<and> cs2 \<noteq> [])"
          using "1.IH" [OF o [symmetric] Inr Some j u' rest(1) [unfolded req'_def] u'] unfolding req'_def by blast
        then show ?thesis using mine oc j(1) rest(2) by auto
      qed
    qed
  qed
qed

lemma safeFetch_contacts:
  assumes "fe_parse env rawUrl = Some u" "safeFetch env rawUrl req = (r, cs)"
  shows "(\<forall>c\<in>set cs. contact_ok env (u_host u) c) \<and> length cs \<le> Suc (fe_maxRedirects env)
    \<and> (\<forall>x. r = Inr x \<longrightarrow> sp_bytes x \<le> fe_maxBytes env \<and> sp_redirects x \<le> fe_maxRedirects env \<and> sp_url x = u_href (ct_url (last cs)))"
proof (cases "checkUrl (fe_parse env) rawUrl (fe_allowedHosts env)")
  case (Inl e)
  then show ?thesis using assms(2) by (auto simp: safeFetch_def)
next
  case (Inr v)
  then have "v = u" using assms(1) by (simp add: checkUrl_Inr)
  then have "fetch_loop env (u_host u) 0 u req = (r, cs)" using assms(2) Inr by (simp add: safeFetch_def)
  then show ?thesis using fetch_loop_contacts [of env "u_host u" 0 u req r cs rawUrl] Inr \<open>v = u\<close> by auto
qed

text \<open>A redirect, also to another host, carries every other header of the request.\<close>

lemma fetch_loop_passes:
  assumes "fetch_loop env home hop u req = (r, cs)" "c \<in> set cs"
  shows "passed_on (ct_request c) = passed_on req"
  using assms
proof (induction env home hop u req arbitrary: r cs rule: fetch_loop.induct)
  case (1 env home hop u req)
  obtain r1 cs1 where o: "once env hop u req = (r1, cs1)" by fastforce
  show ?case
  proof (cases "c \<in> set cs1")
    case True
    then show ?thesis using once_contacts [OF o] by simp
  next
    case False
    then obtain x l raw u' r2 cs2 where h: "r1 = Inr x" "location x = Some l" "\<not> fe_maxRedirects env \<le> hop"
      "fe_join env l u = Some raw" "checkUrl (fe_parse env) (u_href raw) (fe_allowedHosts env) = Inr u'"
      "fetch_loop env home (Suc hop) u' (without_credentials home u' (as_get (xr_status x) req)) = (r2, cs2)" "c \<in> set cs2"
      using "1.prems" o by (auto simp: fetch_loop.simps [of env home hop] split: sum.splits option.splits if_splits prod.splits)
    then show ?thesis using "1.IH" [OF o [symmetric] h(1-6)] by (simp add: passed_on_without passed_on_get)
  qed
qed

lemma safeFetch_passes:
  assumes "safeFetch env rawUrl req = (r, cs)" "c \<in> set cs"
  shows "passed_on (ct_request c) = passed_on req"
  using assms fetch_loop_passes by (auto simp: safeFetch_def split: sum.splits)

lemma once_named:
  assumes "isIP (bare_host (u_hostname u)) = 0"
    and "\<not> (toLowerCase (bare_host (u_hostname u)) = ''localhost'' \<or> endsWith (toLowerCase (bare_host (u_hostname u))) ''.localhost'')"
    and "checkedAddresses (fe_resolve env hop) (fe_policy env) (u_hostname u) = Inr as"
  shows "snd (once env hop u req) = [\<lparr> ct_url = u, ct_request = req, ct_addresses = as \<rparr>]"
  using assms by (auto simp: once_def Let_def split: sum.splits option.splits prod.splits)

lemma first_contact: "set (snd (once env hop u req)) \<subseteq> set (snd (fetch_loop env home hop u req))"
  by (subst fetch_loop.simps) (auto split: prod.splits sum.splits option.splits)

lemma contact_allowed:
  assumes "c \<in> set (snd (safeFetch env rawUrl req))"
  shows "allowed_contact env c"
proof -
  obtain r cs where f: "safeFetch env rawUrl req = (r, cs)" by fastforce
  then obtain u where "fe_parse env rawUrl = Some u"
    using assms by (cases "fe_parse env rawUrl") (auto simp: safeFetch_def checkUrl_def)
  from safeFetch_contacts [OF this f] show ?thesis using assms f by (auto simp: contact_ok_def Let_def)
qed

section \<open>Spellings of an address\<close>

lemma ip_octet_less: "ip_octet s = Some n \<Longrightarrow> n < 256"
  by (auto simp: ip_octet_def split: if_splits)

lemma parse_v4_Some:
  assumes "parse_v4 s = Some n"
  obtains a b c d where "split_on (CHR ''.'') s = [a, b, c, d]"
    "n = v4_number (parse_nat a) (parse_nat b) (parse_nat c) (parse_nat d)"
    "ip_octet a = Some (parse_nat a)" "ip_octet b = Some (parse_nat b)" "ip_octet c = Some (parse_nat c)" "ip_octet d = Some (parse_nat d)"
  using assms that
  by (auto simp: parse_v4_def map_eq_Cons_conv split: list.splits option.splits) (auto simp: ip_octet_def split: if_splits)

lemma v4_number_less: "a < 256 \<Longrightarrow> b < 256 \<Longrightarrow> c < 256 \<Longrightarrow> d < 256 \<Longrightarrow> v4_number a b c d < 2 ^ 32"
  by (simp add: v4_number_def)

lemma parse_v4_less: "parse_v4 s = Some n \<Longrightarrow> n < 2 ^ 32"
proof (elim parse_v4_Some)
  fix a b c d
  assume "ip_octet a = Some (parse_nat a)" "ip_octet b = Some (parse_nat b)" "ip_octet c = Some (parse_nat c)" "ip_octet d = Some (parse_nat d)"
    and n: "n = v4_number (parse_nat a) (parse_nat b) (parse_nat c) (parse_nat d)"
  then show "n < 2 ^ 32" unfolding n by (intro v4_number_less ip_octet_less)
qed

lemma lower_hex: "is_hex (lower_char c) = is_hex c" "is_hex c \<Longrightarrow> hex_value (lower_char c) = hex_value c"
proof -
  show "is_hex (lower_char c) = is_hex c"
    by (cases "is_upper c") (auto simp: is_hex_def is_digit_def lower_char_def is_upper_def Let_def)
  assume "is_hex c"
  then show "hex_value (lower_char c) = hex_value c"
    by (auto simp: hex_value_def is_hex_def is_digit_def lower_char_def is_upper_def Let_def)
qed

lemma lower_char_eq:
  assumes "c \<in> set ''.:%0123456789''"
  shows "lower_char x = c \<longleftrightarrow> x = c"
proof -
  have "lower_char c = c" using assms by (auto simp: lower_char_def is_upper_def)
  moreover have "of_char c < (65::nat)" using assms by auto
  moreover have "x = c" if "lower_char x = c" "of_char c < (65::nat)"
    using that by (auto simp: lower_char_def is_upper_def Let_def split: if_splits)
  ultimately show ?thesis by blast
qed

lemma lower_digit: "is_digit (lower_char c) = is_digit c"
  by (auto simp: is_digit_def lower_char_def is_upper_def Let_def)

lemma lower_digits: "list_all is_digit s \<Longrightarrow> toLowerCase s = s"
  by (induction s) (auto simp: toLowerCase_def digit_facts)

lemma ip_octet_lower: "ip_octet (toLowerCase s) = ip_octet s"
proof (cases "list_all is_digit s")
  case False
  then have "\<not> list_all is_digit (toLowerCase s)" by (simp add: toLowerCase_def list.pred_map comp_def lower_digit)
  then show ?thesis using False by (simp add: ip_octet_def)
qed (simp add: lower_digits)

lemma split_on_lower:
  assumes "c \<in> set ''.:%0123456789''"
  shows "split_on c (toLowerCase s) = map toLowerCase (split_on c s)"
  using lower_char_eq [OF assms] by (induction s) (auto simp: toLowerCase_def split: list.splits)

lemma parse_v4_lower: "parse_v4 (toLowerCase s) = parse_v4 s"
  by (simp add: parse_v4_def split_on_lower comp_def ip_octet_lower)

lemma hex_number_lower: "list_all is_hex s \<Longrightarrow> hex_number (toLowerCase s) = hex_number s"
proof -
  have "list_all is_hex s \<Longrightarrow> foldl (\<lambda>n c. 16 * n + hex_value c) k (toLowerCase s) = foldl (\<lambda>n c. 16 * n + hex_value c) k s" for k
    by (induction s arbitrary: k) (simp_all add: toLowerCase_def lower_hex)
  then show "list_all is_hex s \<Longrightarrow> hex_number (toLowerCase s) = hex_number s" by (simp add: hex_number_def)
qed

lemma v6_segment_lower: "v6_segment (toLowerCase s) = v6_segment s"
proof -
  have "list_all is_hex (toLowerCase s) = list_all is_hex s" by (simp add: toLowerCase_def list.pred_map comp_def lower_hex)
  moreover have "toLowerCase s = [] \<longleftrightarrow> s = []" by (simp add: toLowerCase_def)
  ultimately show ?thesis by (simp add: v6_segment_def hex_number_lower)
qed

lemma v6_groups_lower: "v6_groups (map toLowerCase ps) = v6_groups ps"
  by (induction ps rule: v6_groups.induct) (simp_all add: v6_segment_lower parse_v4_lower split: option.split)

lemma v6_segments_lower: "v6_segments (map toLowerCase ps) = v6_segments ps"
  by (simp add: v6_segments_def v6_segment_lower comp_def)

lemma colon_parts_lower: "colon_parts (toLowerCase s) = map toLowerCase (colon_parts s)"
  by (simp add: colon_parts_def split_on_lower) (simp add: toLowerCase_def)

lemma indexOf_lower: "indexOf (toLowerCase s) ''::'' = indexOf s ''::''"
proof (induction s)
  case (Cons c s)
  have "startsWith (toLowerCase (c # s)) ''::'' = startsWith (c # s) ''::''"
    by (cases s) (simp_all add: startsWith_def toLowerCase_def lower_char_eq)
  then show ?case using Cons by (simp add: toLowerCase_def)
qed (simp add: toLowerCase_def)

lemma v6_eight_lower: "v6_eight (toLowerCase s) = v6_eight s"
proof -
  have "take i (toLowerCase s) = toLowerCase (take i s)" "drop i (toLowerCase s) = toLowerCase (drop i s)" for i
    by (simp_all add: toLowerCase_def take_map drop_map)
  then show ?thesis by (simp add: v6_eight_def indexOf_lower colon_parts_lower v6_groups_lower v6_segments_lower split: option.split)
qed

lemma parse_v6_no_zone: "CHR ''%'' \<notin> set s \<Longrightarrow> parse_v6 s = map_option v6_number (v6_eight s)"
proof -
  assume "CHR ''%'' \<notin> set s"
  then have "\<forall>c\<in>set s. c \<noteq> CHR ''%''" by blast
  then have "takeWhile (\<lambda>c. c \<noteq> CHR ''%'') s = s" "dropWhile (\<lambda>c. c \<noteq> CHR ''%'') s = []"
    by (simp_all only: takeWhile_eq_all_conv dropWhile_eq_Nil_conv)
  then show "parse_v6 s = map_option v6_number (v6_eight s)" by (simp only: parse_v6_def Let_def zone_ok_def) simp
qed

lemma parse_v6_lower:
  assumes "CHR ''%'' \<notin> set (toLowerCase s)"
  shows "parse_v6 s = parse_v6 (toLowerCase s)"
proof -
  have "CHR ''%'' \<notin> set s" 
  proof
    assume "CHR ''%'' \<in> set s"
    then have "lower_char CHR ''%'' \<in> set (toLowerCase s)" unfolding toLowerCase_def by simp
    moreover have "lower_char CHR ''%'' = CHR ''%''" by (simp add: lower_char_def is_upper_def)
    ultimately show False using assms by simp
  qed
  then show ?thesis using assms by (simp add: parse_v6_no_zone v6_eight_lower)
qed

lemma split_on_chars: "x \<in> set s \<Longrightarrow> x = c \<or> (\<exists>w\<in>set (split_on c s). x \<in> set w)"
  by (induction s) (auto split: list.splits)

lemma dotted_chars:
  assumes "dotted r"
  shows "x \<in> set r \<Longrightarrow> x = CHR ''.'' \<or> is_digit x" and "CHR ''.'' \<in> set r" and "r \<noteq> []"
proof -
  show "x \<in> set r \<Longrightarrow> x = CHR ''.'' \<or> is_digit x"
    using assms split_on_chars [of x r "CHR ''.''"] by (auto simp: dotted_def list_all_iff)
  show "CHR ''.'' \<in> set r"
  proof (rule ccontr)
    assume "CHR ''.'' \<notin> set r"
    then have "split_on (CHR ''.'') r = [r]" by (rule split_on_none)
    then show False using assms by (simp add: dotted_def)
  qed
  then show "r \<noteq> []" by auto
qed

lemma dot_not_hex: "\<not> is_hex CHR ''.''"
  by (simp add: is_hex_def is_digit_def)

lemma dotted_groups:
  assumes "dotted r"
  shows "v6_groups (split_on (CHR '':'') r) = map_option (\<lambda>n. [n div 65536, n mod 65536]) (parse_v4 r)"
proof -
  have "CHR '':'' \<notin> set r" using dotted_chars(1) [OF assms, of "CHR '':''"] by (auto simp: is_digit_def)
  moreover have "v6_segment r = None"
    using dotted_chars(2) [OF assms] dot_not_hex by (auto simp: v6_segment_def list_all_iff)
  ultimately show ?thesis by (simp add: split_on_none)
qed

lemma segment_cons:
  "v6_groups (p # split_on c r) = (case v6_segment p of None \<Rightarrow> None | Some g \<Rightarrow> map_option (Cons g) (v6_groups (split_on c r)))"
  by (cases "split_on c r") (simp_all split: option.split)

lemma literal_segments [simp]: "v6_segment ''ffff'' = Some 65535" "v6_segment ''0'' = Some 0" "v6_segment ''64'' = Some 100" "v6_segment ''ff9b'' = Some 65435"
  by (simp_all add: v6_segment_def is_hex_def is_digit_def hex_number_def hex_value_def char_digit_def lower_char_def is_upper_def)

lemma cut_colon: "CHR '':'' \<notin> set w \<Longrightarrow> split_on (CHR '':'') (w @ '':'' @ s) = w # split_on (CHR '':'') s"
  using split_on_append [of "CHR '':''" w s] by simp

lemma groups_after:
  assumes "v6_segment w = Some g" "CHR '':'' \<notin> set w"
  shows "v6_groups (split_on (CHR '':'') (w @ '':'' @ r)) = map_option (Cons g) (v6_groups (split_on (CHR '':'') r))"
  by (simp add: cut_colon [OF assms(2), simplified] segment_cons assms(1))

lemma eight_front:
  assumes "s \<noteq> []"
  shows "v6_eight (''::'' @ s) =
    (case v6_groups (split_on (CHR '':'') s) of
       None \<Rightarrow> None | Some t \<Rightarrow> if length t \<le> 7 then Some (replicate (8 - length t) 0 @ t) else None)"
proof -
  have i: "indexOf (''::'' @ s) ''::'' = Some 0" by (cases s) (simp_all add: startsWith_def)
  have "v6_segments (colon_parts []) = Some []" by (simp add: colon_parts_def v6_segments_def)
  then show ?thesis using assms unfolding v6_eight_def i by (simp add: colon_parts_def split: option.split)
qed

lemma eight_nat64:
  assumes "r \<noteq> []"
  shows "v6_eight (''64:ff9b::'' @ r) =
    (case v6_groups (split_on (CHR '':'') r) of
       None \<Rightarrow> None | Some t \<Rightarrow> if length t \<le> 5 then Some ([100, 65435] @ replicate (6 - length t) 0 @ t) else None)"
proof -
  have i: "indexOf (''64:ff9b'' @ ''::'' @ r) ''::'' = Some 7" by (simp add: startsWith_def)
  have "v6_segments (colon_parts ''64:ff9b'') = Some [100, 65435]" by (simp add: colon_parts_def v6_segments_def)
  then have "v6_eight (''64:ff9b'' @ ''::'' @ r) =
    (case v6_groups (split_on (CHR '':'') r) of
       None \<Rightarrow> None | Some t \<Rightarrow> if length t \<le> 5 then Some ([100, 65435] @ replicate (6 - length t) 0 @ t) else None)"
    using assms unfolding v6_eight_def i by (simp add: colon_parts_def split: option.split)
  then show ?thesis by simp
qed

text \<open>The numbers of the three forms that hold an IPv4 address.\<close>

lemma embedded_eight:
  assumes "v6_groups (split_on (CHR '':'') r) = map_option (\<lambda>(x, y). [x, y]) xy" "r \<noteq> []"
  shows "v6_eight (''::ffff:'' @ r) = map_option (\<lambda>(x, y). [0, 0, 0, 0, 0, 65535, x, y]) xy"
    and "v6_eight (''::ffff:0:'' @ r) = map_option (\<lambda>(x, y). [0, 0, 0, 0, 65535, 0, x, y]) xy"
    and "v6_eight (''64:ff9b::'' @ r) = map_option (\<lambda>(x, y). [100, 65435, 0, 0, 0, 0, x, y]) xy"
proof -
  have reps: "replicate 4 (0 :: nat) = [0, 0, 0, 0]" "replicate 5 (0 :: nat) = [0, 0, 0, 0, 0]" by (simp_all add: eval_nat_numeral)
  have g1: "v6_groups (split_on (CHR '':'') (''ffff'' @ '':'' @ r)) = map_option (\<lambda>(x, y). [65535, x, y]) xy"
    by (subst groups_after [of _ 65535]) (simp_all add: assms(1) option.map_comp comp_def case_prod_unfold)
  have "v6_groups (split_on (CHR '':'') (''0'' @ '':'' @ r)) = map_option (\<lambda>(x, y). [0, x, y]) xy"
    by (subst groups_after [of _ 0]) (simp_all add: assms(1) option.map_comp comp_def case_prod_unfold)
  then have g2: "v6_groups (split_on (CHR '':'') (''ffff'' @ '':'' @ ''0'' @ '':'' @ r)) = map_option (\<lambda>(x, y). [65535, 0, x, y]) xy"
    by (subst groups_after [of _ 65535]) (simp_all add: option.map_comp comp_def case_prod_unfold)
  show "v6_eight (''::ffff:'' @ r) = map_option (\<lambda>(x, y). [0, 0, 0, 0, 0, 65535, x, y]) xy"
    using eight_front [of "''ffff:'' @ r"] g1 reps by (cases xy) auto
  show "v6_eight (''::ffff:0:'' @ r) = map_option (\<lambda>(x, y). [0, 0, 0, 0, 65535, 0, x, y]) xy"
    using eight_front [of "''ffff:0:'' @ r"] g2 reps by (cases xy) auto
  show "v6_eight (''64:ff9b::'' @ r) = map_option (\<lambda>(x, y). [100, 65435, 0, 0, 0, 0, x, y]) xy"
    using eight_nat64 [OF assms(2)] assms(1) reps by (cases xy) auto
qed

lemma embedded_number:
  assumes "v6_groups (split_on (CHR '':'') r) = map_option (\<lambda>(x, y). [x, y]) xy" "CHR ''%'' \<notin> set r" "r \<noteq> []"
    and "\<And>x y. xy = Some (x, y) \<Longrightarrow> x < 65536 \<and> y < 65536"
    and v: "v \<in> {''::ffff:'' @ r, ''::ffff:0:'' @ r, ''64:ff9b::'' @ r}" and "parse_v6 v = Some (mapped_v4 n)" "n < 2 ^ 32"
  shows "v = ''::ffff:'' @ r \<and> (\<exists>x y. xy = Some (x, y) \<and> n = x * 65536 + y)"
proof -
  have "CHR ''%'' \<notin> set v" using v assms(2) by auto
  then have e: "map_option v6_number (v6_eight v) = Some (mapped_v4 n)" using assms(6) parse_v6_no_zone by simp
  then obtain x y where xy: "xy = Some (x, y)" using v embedded_eight [OF assms(1,3)] by (cases xy) auto
  have lt: "x < 65536" "y < 65536" using assms(4) xy by blast+
  have n: "n < 4294967296" using assms(7) by simp
  show ?thesis using v e embedded_eight [OF assms(1,3)] xy lt n
    by (elim insertE) (simp_all add: v6_number_def mapped_v4_def)
qed

lemma show_nat_head: "0 < n \<Longrightarrow> hd (show_nat n) \<noteq> CHR ''0''"
proof (induction n rule: show_nat.induct)
  case (1 n)
  show ?case
  proof (cases "n < 10")
    case True
    then have "char_digit (hd (show_nat n)) = n" by (simp add: show_nat.simps [of n])
    then show ?thesis using 1(2) by (auto simp: char_digit_def)
  next
    case False
    then show ?thesis using 1 by (simp add: show_nat.simps [of n])
  qed
qed

lemma ip_octet_show: "n < 256 \<Longrightarrow> ip_octet (show_nat n) = Some n"
proof -
  assume n: "n < 256"
  have two: "length (show_nat m) \<le> 2" if "m < 100" for m
    using that less_mult_imp_div_less [of m 10 10] by (subst show_nat.simps) (simp add: show_nat.simps [of "m div 10"])
  have "length (show_nat n) \<le> 3" using n two [of "n div 10"] by (subst show_nat.simps) simp
  moreover have "hd (show_nat n) = CHR ''0'' \<Longrightarrow> length (show_nat n) = 1"
    using show_nat_head [of n] by (cases "n = 0") (simp_all add: show_nat.simps [of 0])
  ultimately show ?thesis using n show_nat_digits [of n] by (simp add: ip_octet_def list_all_iff)
qed

lemma parse_show_v4:
  assumes "x < 65536" "y < 65536"
  shows "parse_v4 (show_v4 x y) = Some (x * 65536 + y)"
proof -
  have no: "CHR ''.'' \<notin> set (show_nat k)" for k using show_nat_digits [of k] by (auto simp: is_digit_def)
  have "split_on (CHR ''.'') (show_v4 x y) = [show_nat (x div 256), show_nat (x mod 256), show_nat (y div 256), show_nat (y mod 256)]"
    using no by (simp add: show_v4_def split_on_append split_on_none)
  moreover have "x div 256 < 256" "y div 256 < 256" using assms by (simp_all add: less_mult_imp_div_less)
  moreover have "v4_number (x div 256) (x mod 256) (y div 256) (y mod 256) = x * 65536 + y"
    unfolding v4_number_def div_mult_mod_eq by (simp add: algebra_simps)
  ultimately show ?thesis by (simp add: parse_v4_def ip_octet_show)
qed

lemma hex_number_less: "list_all is_hex s \<Longrightarrow> hex_number s < 16 ^ length s"
proof (induction s rule: rev_induct)
  case (snoc c s)
  have "hex_value c < 16" using snoc.prems by (auto simp: hex_value_def is_hex_def is_digit_def char_digit_def lower_char_def is_upper_def Let_def)
  then show ?case using snoc by (simp add: hex_number_def)
qed (simp add: hex_number_def)

lemma two_groups_parse:
  assumes "two_groups h"
  obtains a b where "split_on (CHR '':'') h = [a, b]" "v6_groups [a, b] = Some [hex_number a, hex_number b]"
    "hex_number a < 65536" "hex_number b < 65536" "CHR ''%'' \<notin> set h" "h \<noteq> []"
proof -
  obtain a b where ab: "split_on (CHR '':'') h = [a, b]" using assms by (auto simp: two_groups_def length_Suc_conv numeral_2_eq_2)
  then have hex: "a \<noteq> []" "length a \<le> 4" "list_all is_hex a" "b \<noteq> []" "length b \<le> 4" "list_all is_hex b"
    using assms by (simp_all add: two_groups_def)
  have small: "hex_number s < 65536" if "list_all is_hex s" "length s \<le> 4" for s
    using hex_number_less [OF that(1)] power_increasing [OF that(2), of "16 :: nat"] by simp
  have "is_hex x \<or> x = CHR '':''" if "x \<in> set h" for x
    using split_on_chars [OF that, of "CHR '':''"] ab hex by (auto simp: list_all_iff)
  then have "CHR ''%'' \<notin> set h" by (force simp: is_hex_def is_digit_def)
  moreover have "h \<noteq> []" using ab by auto
  ultimately show ?thesis using that [of a b] ab hex small by (simp add: v6_segment_def)
qed

lemma after_prefix_Some: "after_prefix v ok ps = Some r \<Longrightarrow> \<exists>p\<in>set ps. v = p @ r \<and> ok r"
  by (auto simp: after_prefix_def find_Some_iff startsWith_iff)

lemma embeddedV4_value:
  assumes "embeddedV4 ip = Some w" "parse_v6 ip = Some (mapped_v4 n)" "n < 2 ^ 32"
  shows "parse_v4 w = Some n"
proof -
  define v where "v = toLowerCase ip"
  consider (dots) "after_prefix v dotted [''::ffff:'', ''::ffff:0:'', ''64:ff9b::''] = Some w"
    | (hex) h a b where "after_prefix v two_groups [''::ffff:'', ''64:ff9b::''] = Some h" "split_on (CHR '':'') h = [a, b]"
        "w = show_v4 (hex_number a) (hex_number b)"
    using assms(1) unfolding embeddedV4_def v_def [symmetric] Let_def
    by (auto split: option.splits list.splits dest!: after_prefix_Some simp: two_groups_def) 
  then show ?thesis
  proof cases
    case dots
    have d: "dotted w" and v: "v \<in> {''::ffff:'' @ w, ''::ffff:0:'' @ w, ''64:ff9b::'' @ w}" using after_prefix_Some [OF dots] by auto
    have p: "CHR ''%'' \<notin> set w" using dotted_chars(1) [OF d, of "CHR ''%''"] by (auto simp: is_digit_def)
    then have "CHR ''%'' \<notin> set v" using v by auto
    then have pv: "parse_v6 v = Some (mapped_v4 n)" using assms(2) parse_v6_lower [of ip] by (simp add: v_def)
    let ?xy = "map_option (\<lambda>n. (n div 65536, n mod 65536)) (parse_v4 w)"
    have g: "v6_groups (split_on (CHR '':'') w) = map_option (\<lambda>(x, y). [x, y]) ?xy"
      using dotted_groups [OF d] by (simp add: option.map_comp comp_def)
    have "\<exists>x y. ?xy = Some (x, y) \<and> n = x * 65536 + y"
      using embedded_number [OF g p dotted_chars(3) [OF d] _ v pv assms(3)] parse_v4_less by (fastforce simp: less_mult_imp_div_less)
    then show ?thesis by auto
  next
    case hex
    have t: "two_groups h" and v: "v \<in> {''::ffff:'' @ h, ''::ffff:0:'' @ h, ''64:ff9b::'' @ h}" using after_prefix_Some [OF hex(1)] by auto
    have f: "v6_groups [a, b] = Some [hex_number a, hex_number b]" "hex_number a < 65536" "hex_number b < 65536" "CHR ''%'' \<notin> set h" "h \<noteq> []"
      using two_groups_parse [OF t] hex(2) by auto
    then have "CHR ''%'' \<notin> set v" using v by auto
    then have pv: "parse_v6 v = Some (mapped_v4 n)" using assms(2) parse_v6_lower [of ip] by (simp add: v_def)
    have g: "v6_groups (split_on (CHR '':'') h) = map_option (\<lambda>(x, y). [x, y]) (Some (hex_number a, hex_number b))"
      using f(1) hex(2) by simp
    have "n = hex_number a * 65536 + hex_number b"
      using embedded_number [OF g f(4,5) _ v pv assms(3)] f(2,3) by simp
    then show ?thesis using parse_show_v4 f(2,3) hex(3) by simp
  qed
qed

definition blocked_v4 :: "nat \<Rightarrow> bool" where "blocked_v4 n \<longleftrightarrow> list_ex (in_subnet (mapped_v4 n)) BLOCKED"

lemma v4_text_not_v6:
  assumes "parse_v4 s = Some n"
  shows "parse_v6 s = None"
proof -
  obtain a b c d where sp: "split_on (CHR ''.'') s = [a, b, c, d]" and oct: "ip_octet a \<noteq> None" "ip_octet b \<noteq> None" "ip_octet c \<noteq> None" "ip_octet d \<noteq> None"
    using parse_v4_Some [OF assms] by (metis option.discI)
  have "list_all (\<lambda>p. p \<noteq> [] \<and> list_all is_digit p) [a, b, c, d]" using oct by (auto simp: ip_octet_def split: if_splits)
  then have d: "dotted s" using sp by (simp add: dotted_def)
  have no: "CHR '':'' \<notin> set s" "CHR ''%'' \<notin> set s"
    using dotted_chars(1) [OF d, of "CHR '':''"] dotted_chars(1) [OF d, of "CHR ''%''"] by (auto simp: is_digit_def)
  have "indexOf s ''::'' = None"
  proof (rule ccontr)
    assume "indexOf s ''::'' \<noteq> None"
    then have "str_includes s ''::''" by (simp add: str_includes_def)
    then show False using no(1) by (auto simp: str_includes_iff)
  qed
  then show ?thesis
    using no dotted_groups [OF d] dotted_chars(3) [OF d] assms by (simp add: parse_v6_no_zone v6_eight_def colon_parts_def)
qed

text \<open>However an IPv4 address is spelled, it is refused exactly when its number is in one of the subnets.\<close>

lemma blocked_spellings:
  assumes "parse_v4 ip = Some n \<or> parse_v6 ip = Some (mapped_v4 n) \<and> n < 2 ^ 32"
  shows "isBlockedAddress ip = Inr (blocked_v4 n)"
proof (cases "parse_v4 ip")
  case None
  then have six: "parse_v6 ip = Some (mapped_v4 n)" "n < 2 ^ 32" "isIP ip = 6" using assms by (simp_all add: isIP_def)
  then show ?thesis
    using embeddedV4_value [OF _ six(1,2)] by (simp add: isBlockedAddress_def block_check_def blocked_v4_def split: option.split)
next
  case (Some m)
  then have "m = n" using assms v4_text_not_v6 by fastforce
  then show ?thesis using Some by (simp add: isBlockedAddress_def isIP_def block_check_def blocked_v4_def)
qed

lemma allowed_public:
  assumes "addressAllowed host ip policy = Inr True" "\<not> hostAllowlisted host policy" "np_ips policy = []"
  shows "isBlockedAddress ip = Inr False"
  using assms by (auto simp: addressAllowed_def and_then_Inr Let_def block_check_def split: if_splits option.splits)

lemma allowed_public_v4:
  assumes "addressAllowed host ip policy = Inr True" "\<not> hostAllowlisted host policy" "np_ips policy = []"
    and "parse_v4 ip = Some n \<or> parse_v6 ip = Some (mapped_v4 n) \<and> n < 2 ^ 32"
  shows "\<not> blocked_v4 n"
  using allowed_public [OF assms(1-3)] blocked_spellings [OF assms(4)] by simp

section \<open>The two lists of blocked networks\<close>

lemma in_v4_subnet:
  assumes "n < 2 ^ 32" "bits \<le> 32"
  shows "in_subnet (mapped_v4 n) (v4_subnet a b c d bits) \<longleftrightarrow> n div 2 ^ (32 - bits) = v4_number a b c d div 2 ^ (32 - bits)"
proof -
  have "(65535 * 2 ^ 32 + m) div 2 ^ (32 - bits) = 65535 * 2 ^ bits + m div (2 ^ (32 - bits) :: nat)" for m
  proof -
    have "(2 :: nat) ^ 32 = 2 ^ bits * 2 ^ (32 - bits)" using assms(2) by (simp flip: power_add)
    then have "65535 * 2 ^ 32 + m = m + 65535 * 2 ^ bits * 2 ^ (32 - bits)" by (simp only: mult.assoc add.commute)
    then show ?thesis using div_mult_self1 [of "(2 :: nat) ^ (32 - bits)" m "65535 * 2 ^ bits"] by (simp only:) simp
  qed
  then show ?thesis using assms(2) by (simp only: in_subnet_def v4_subnet_def mapped_v4_def fst_conv snd_conv) simp
qed

lemma mapped_not_v6:
  assumes "n < 2 ^ 32"
  shows "\<not> in_subnet (mapped_v4 n) (0, 128)" "\<not> in_subnet (mapped_v4 n) (1, 128)"
    "48 \<le> 128 - bits \<Longrightarrow> base div 2 ^ (128 - bits) \<noteq> 0 \<Longrightarrow> \<not> in_subnet (mapped_v4 n) (base, bits)"
proof -
  show "\<not> in_subnet (mapped_v4 n) (0, 128)" "\<not> in_subnet (mapped_v4 n) (1, 128)" by (simp_all add: in_subnet_def mapped_v4_def)
  assume b: "48 \<le> 128 - bits" "base div 2 ^ (128 - bits) \<noteq> 0"
  have "mapped_v4 n < 2 ^ 48" using assms by (simp add: mapped_v4_def)
  also have "(2 :: nat) ^ 48 \<le> 2 ^ (128 - bits)" using b(1) by (intro power_increasing) simp_all
  finally show "\<not> in_subnet (mapped_v4 n) (base, bits)" using b(2) by (simp add: in_subnet_def)
qed

text \<open>The networks the webhook guard blocks, and the two that only the guard of flows does.\<close>

definition webhook_nets :: "subnet list" where
  "webhook_nets =
     [v4_subnet 10 0 0 0 8, v4_subnet 172 16 0 0 12, v4_subnet 192 168 0 0 16, v4_subnet 127 0 0 0 8, v4_subnet 169 254 0 0 16,
      v4_subnet 100 64 0 0 10, v4_subnet 0 0 0 0 8, v4_subnet 224 0 0 0 4, v4_subnet 240 0 0 0 4]"

definition flow_only_nets :: "subnet list" where
  "flow_only_nets = [v4_subnet 192 0 0 0 24, v4_subnet 198 18 0 0 15]"

lemma list_ex_parts: "list_ex P [] = False" "list_ex P (x # xs) = (P x \<or> list_ex P xs)"
  by simp_all

lemma blocked_v4_split:
  assumes "n < 2 ^ 32"
  shows "blocked_v4 n \<longleftrightarrow> list_ex (in_subnet (mapped_v4 n)) webhook_nets \<or> list_ex (in_subnet (mapped_v4 n)) flow_only_nets"
proof -
  have six: "\<not> in_subnet (mapped_v4 n) (v6_number [0xfc00, 0, 0, 0, 0, 0, 0, 0], 7)"
    "\<not> in_subnet (mapped_v4 n) (v6_number [0xfe80, 0, 0, 0, 0, 0, 0, 0], 10)"
    "\<not> in_subnet (mapped_v4 n) (v6_number [0xfec0, 0, 0, 0, 0, 0, 0, 0], 10)"
    "\<not> in_subnet (mapped_v4 n) (v6_number [0xff00, 0, 0, 0, 0, 0, 0, 0], 8)"
    "\<not> in_subnet (mapped_v4 n) (v6_number [0x2001, 0xdb8, 0, 0, 0, 0, 0, 0], 32)"
    "\<not> in_subnet (mapped_v4 n) (v6_number [0x100, 0, 0, 0, 0, 0, 0, 0], 64)"
    by (rule mapped_not_v6(3) [OF assms]; simp add: v6_number_def)+
  show ?thesis
    unfolding blocked_v4_def BLOCKED_def webhook_nets_def flow_only_nets_def
    by (simp only: list_ex_parts six mapped_not_v6(1,2) [OF assms]) blast
qed

text \<open>The same networks as ranges of numbers.\<close>

definition reserved_v4 :: "nat \<Rightarrow> bool" where
  "reserved_v4 n \<longleftrightarrow>
     n div 2 ^ 24 \<in> {0, 10, 127} \<or> 224 \<le> n div 2 ^ 24
     \<or> n div 2 ^ 16 \<in> {169 * 256 + 254, 192 * 256 + 168}
     \<or> 172 * 256 + 16 \<le> n div 2 ^ 16 \<and> n div 2 ^ 16 < 172 * 256 + 32
     \<or> 100 * 256 + 64 \<le> n div 2 ^ 16 \<and> n div 2 ^ 16 < 100 * 256 + 128"

lemma reserved_in_nets:
  assumes "n < 2 ^ 32"
  shows "list_ex (in_subnet (mapped_v4 n)) webhook_nets \<longleftrightarrow> reserved_v4 n"
proof -
  have cut: "n div 2 ^ (k + j) = n div 2 ^ k div 2 ^ j" for k j by (simp add: power_add div_mult2_eq)
  define h where "h = n div 2 ^ 16"
  have small: "h < 65536" using assms by (simp add: h_def less_mult_imp_div_less)
  have high: "n div 2 ^ 24 = h div 256" "n div 2 ^ 20 = h div 16" "n div 2 ^ 22 = h div 64" "n div 2 ^ 28 = h div 4096"
    using cut [of 16 8] cut [of 16 4] cut [of 16 6] cut [of 16 12] by (simp_all add: h_def)
  have nets: "list_ex (in_subnet (mapped_v4 n)) webhook_nets \<longleftrightarrow>
     h div 256 = 10 \<or> h div 16 = 2753 \<or> h = 49320 \<or> h div 256 = 127 \<or> h = 43518 \<or> h div 64 = 401 \<or> h div 256 = 0
     \<or> h div 4096 = 14 \<or> h div 4096 = 15"
    unfolding webhook_nets_def list_ex_parts using high h_def
    by (simp add: in_v4_subnet [OF assms] v4_number_def)
  have d: "x div k = q \<longleftrightarrow> q * k \<le> x \<and> x < Suc q * k" if "0 < k" for x k q :: nat
    using less_eq_div_iff_mult_less_eq [OF that, of q x] div_less_iff_less_mult [OF that, of x "Suc q"] by linarith
  have "h div 16 = 2753 \<longleftrightarrow> 44048 \<le> h \<and> h < 44064" "h div 64 = 401 \<longleftrightarrow> 25664 \<le> h \<and> h < 25728"
    "h div 4096 = 14 \<or> h div 4096 = 15 \<longleftrightarrow> 224 \<le> h div 256"
    using small d [of 16 h 2753] d [of 64 h 401] d [of 4096 h 14] d [of 4096 h 15] less_eq_div_iff_mult_less_eq [of 256 224 h] by auto
  then show ?thesis unfolding nets reserved_v4_def high h_def [symmetric] by simp blast
qed

lemma blocked_v4_reserved: "n < 2 ^ 32 \<Longrightarrow> reserved_v4 n \<Longrightarrow> blocked_v4 n"
  by (simp only: blocked_v4_split reserved_in_nets simp_thms)

lemma v4ToInt_number:
  assumes "parse_v4 s = Some n"
  shows "v4ToInt s = of_nat n"
proof -
  have sh: "push_bit 8 w = w * 256" for w :: "32 word" by (simp add: push_bit_eq_mult)
  show ?thesis
    by (rule parse_v4_Some [OF assms]) (simp add: v4ToInt_def sh v4_number_def)
qed

lemma drop_bit_number: "n < 2 ^ 32 \<Longrightarrow> unat (drop_bit k (of_nat n :: 32 word)) = n div 2 ^ k"
  by (simp only: unat_drop_bit_eq) (simp add: drop_bit_eq_div unsigned_of_nat take_bit_nat_eq_self)

lemma same_prefix:
  assumes "m < 2 ^ 32" "n < 2 ^ 32"
  shows "drop_bit k (of_nat m :: 32 word) = drop_bit k (of_nat n) \<longleftrightarrow> m div 2 ^ k = n div 2 ^ k"
  using drop_bit_number [OF assms(1), of k] drop_bit_number [OF assms(2), of k] by (metis word_unat_eq_iff)

lemma public_v4:
  assumes "parse_v4 ip = Some n"
  shows "isPublicAddress ip \<longleftrightarrow> \<not> list_ex (in_subnet (mapped_v4 n)) webhook_nets"
proof -
  have n: "n < 2 ^ 32" by (rule parse_v4_less [OF assms])
  have base: "drop_bit (32 - bits) (v4ToInt ip) = drop_bit (32 - bits) (v4ToInt (show_v4 (a * 256 + b) (c * 256 + d)))
      \<longleftrightarrow> in_subnet (mapped_v4 n) (v4_subnet a b c d bits)"
    if "a < 256" "b < 256" "c < 256" "d < 256" "bits \<le> 32" for a b c d bits
  proof -
    have "parse_v4 (show_v4 (a * 256 + b) (c * 256 + d)) = Some (v4_number a b c d)"
      using that parse_show_v4 [of "a * 256 + b" "c * 256 + d"] by (simp add: v4_number_def)
    then show ?thesis
      using same_prefix [OF n v4_number_less [OF that(1-4)]] in_v4_subnet [OF n that(5)] v4ToInt_number [OF assms] v4ToInt_number by simp
  qed
  have texts: "''10.0.0.0'' = show_v4 (10 * 256 + 0) (0 * 256 + 0)" "''172.16.0.0'' = show_v4 (172 * 256 + 16) (0 * 256 + 0)"
    "''192.168.0.0'' = show_v4 (192 * 256 + 168) (0 * 256 + 0)" "''127.0.0.0'' = show_v4 (127 * 256 + 0) (0 * 256 + 0)"
    "''169.254.0.0'' = show_v4 (169 * 256 + 254) (0 * 256 + 0)" "''100.64.0.0'' = show_v4 (100 * 256 + 64) (0 * 256 + 0)"
    "''0.0.0.0'' = show_v4 (0 * 256 + 0) (0 * 256 + 0)" "''224.0.0.0'' = show_v4 (224 * 256 + 0) (0 * 256 + 0)"
    "''240.0.0.0'' = show_v4 (240 * 256 + 0) (0 * 256 + 0)"
    by (simp_all add: show_v4_def show_nat.simps digit_char_def char_of_def bit_0)
  have "isPublicAddress ip \<longleftrightarrow> \<not> list_ex (\<lambda>(base, bits). drop_bit (32 - bits) (v4ToInt ip) = drop_bit (32 - bits) (v4ToInt base)) BLOCKED_V4"
    using assms by (subst isPublicAddress.simps) (simp add: isIP_def)
  also have "\<dots> \<longleftrightarrow> \<not> list_ex (in_subnet (mapped_v4 n)) webhook_nets"
    unfolding BLOCKED_V4_def webhook_nets_def texts(1-6,8,9) unfolding texts(7) by (simp only: list_ex_parts case_prod_conv) (simp only: base)
  finally show ?thesis .
qed

lemma lists_compared:
  assumes "parse_v4 ip = Some n"
  shows "isBlockedAddress ip = Inr (\<not> isPublicAddress ip \<or> list_ex (in_subnet (mapped_v4 n)) flow_only_nets)"
  using blocked_spellings [of ip n] blocked_v4_split [OF parse_v4_less [OF assms]] public_v4 [OF assms] assms by simp

lemma assertSafeUrl_Inr:
  assumes "assertSafeUrl parse resolve raw = Inr ()" "parse raw = Some u" "isIP (bare_host (u_hostname u)) = 0" "a \<in> set (resolve (bare_host (u_hostname u)))"
  shows "u_protocol u = ''https:'' \<and> isPublicAddress a"
  using assms by (auto simp: assertSafeUrl_def Let_def list_ex_iff split: if_splits)

text \<open>
  A NAT64 address written out in full is not recognised as one, although its short form is refused: the metadata
  service behind a translator.  The webhook guard only knows one network of the link local ones.
\<close>

lemmas address_eval = isIP_def parse_v6_def parse_v4_def ip_octet_def zone_ok_def v6_eight_def v6_segments_def v6_segment_def colon_parts_def
  startsWith_def is_hex_def is_digit_def is_upper_def hex_number_def hex_value_def char_digit_def lower_char_def v6_number_def
  toLowerCase_def

lemma nat64_spellings:
  "parse_v6 ''64:ff9b:0:0:0:0:a9fe:a9fe'' = parse_v6 ''64:ff9b::a9fe:a9fe''"
  "isBlockedAddress ''64:ff9b::a9fe:a9fe'' = Inr True"
  "isBlockedAddress ''64:ff9b:0:0:0:0:a9fe:a9fe'' = Inr False"
proof -
  have four: "replicate 4 (0 :: nat) = [0, 0, 0, 0]" by (simp add: eval_nat_numeral)
  have short: "parse_v6 ''64:ff9b::a9fe:a9fe'' = Some (v6_number [0x64, 0xff9b, 0, 0, 0, 0, 0xa9fe, 0xa9fe])" 
    and long: "parse_v6 ''64:ff9b:0:0:0:0:a9fe:a9fe'' = Some (v6_number [0x64, 0xff9b, 0, 0, 0, 0, 0xa9fe, 0xa9fe])"
    using four by (simp_all add: address_eval)
  then show "parse_v6 ''64:ff9b:0:0:0:0:a9fe:a9fe'' = parse_v6 ''64:ff9b::a9fe:a9fe''" by simp
  have "embeddedV4 ''64:ff9b::a9fe:a9fe'' = Some (show_v4 0xa9fe 0xa9fe)"
    by (simp add: embeddedV4_def after_prefix_def dotted_def two_groups_def address_eval)
  moreover have "parse_v4 (show_v4 0xa9fe 0xa9fe) = Some (v4_number 169 254 169 254)"
    by (subst parse_show_v4) (simp_all add: v4_number_def)
  moreover have "list_ex (in_subnet (mapped_v4 (v4_number 169 254 169 254))) BLOCKED"
    by (simp add: BLOCKED_def in_subnet_def v4_subnet_def mapped_v4_def v4_number_def)
  ultimately show "isBlockedAddress ''64:ff9b::a9fe:a9fe'' = Inr True"
    using short by (simp add: isBlockedAddress_def isIP_def block_check_def parse_v4_def ip_octet_def)
  have "embeddedV4 ''64:ff9b:0:0:0:0:a9fe:a9fe'' = None"
    by (simp add: embeddedV4_def after_prefix_def dotted_def two_groups_def address_eval)
  moreover have "\<not> list_ex (in_subnet (v6_number [0x64, 0xff9b, 0, 0, 0, 0, 0xa9fe, 0xa9fe])) BLOCKED"
    by (simp add: BLOCKED_def in_subnet_def v4_subnet_def mapped_v4_def v4_number_def v6_number_def)
  ultimately show "isBlockedAddress ''64:ff9b:0:0:0:0:a9fe:a9fe'' = Inr False"
    using long by (simp add: isBlockedAddress_def isIP_def block_check_def parse_v4_def ip_octet_def)
qed

lemma webhook_link_local: "isPublicAddress ''fe90::1''" "isBlockedAddress ''fe90::1'' = Inr True"
proof -
  have six: "replicate 6 (0 :: nat) = [0, 0, 0, 0, 0, 0]" by (simp add: eval_nat_numeral)
  have v: "parse_v6 ''fe90::1'' = Some (v6_number [0xfe90, 0, 0, 0, 0, 0, 0, 1])" using six by (simp add: address_eval)
  then have k: "isIP ''fe90::1'' = 6" by (simp add: isIP_def parse_v4_def ip_octet_def)
  then show "isPublicAddress ''fe90::1''" by (subst isPublicAddress.simps) (simp add: address_eval)
  have "embeddedV4 ''fe90::1'' = None"
    by (simp add: embeddedV4_def after_prefix_def dotted_def two_groups_def address_eval)
  moreover have "list_ex (in_subnet (v6_number [0xfe90, 0, 0, 0, 0, 0, 0, 1])) BLOCKED"
    by (simp add: BLOCKED_def in_subnet_def v4_subnet_def mapped_v4_def v4_number_def v6_number_def)
  ultimately show "isBlockedAddress ''fe90::1'' = Inr True" using v k by (simp add: isBlockedAddress_def block_check_def)
qed

end
