(* ===== verification/Private_Nets.thy ===== *)
theory Private_Nets
  imports Json "HOL-Library.Word"
begin

text \<open>
  Private networks of a project (\<open>modules/network/private-networks.service.ts\<close>): the /24 a project
  gets from the region pool, the static address a server gets from it, and the IPv4 arithmetic on
  32 bit words.

  The two unique indexes of the schema, (region, poolIndex) and (network, address), are what
  makes allocation safe under concurrency.  \<open>race\<close> is what other requests do to the table between
  the read of an attempt and its insert, and \<open>pick\<close> is the choice of \<open>Math.random\<close>.  The settings of
  \<open>config.ts\<close> are \<open>net_config\<close>.  \<open>bridgeFor\<close> talks to the hypervisor and is modelled with its
  outcome as an argument.
\<close>

unbundle bit_operations_syntax

section \<open>Addresses as 32 bit words\<close>

type_synonym ipv4 = "32 word"

definition octet :: "string \<Rightarrow> nat option" where
  "octet s =
     (case js_Number s of
        None \<Rightarrow> None
      | Some q \<Rightarrow> if q = of_int \<lfloor>q\<rfloor> \<and> 0 \<le> q \<and> q \<le> 255 then Some (nat \<lfloor>q\<rfloor>) else None)"

definition ipToInt :: "string \<Rightarrow> ipv4 option" where
  "ipToInt ip =
     (case map octet (split_on CHR ''.'' ip) of
        [Some a, Some b, Some c, Some d] \<Rightarrow>
          Some (push_bit 24 (of_nat a) + push_bit 16 (of_nat b) + push_bit 8 (of_nat c) + of_nat d)
      | _ \<Rightarrow> None)"

definition octets :: "ipv4 \<Rightarrow> nat list" where
  "octets n = [unat (drop_bit 24 n), unat (drop_bit 16 n AND 255), unat (drop_bit 8 n AND 255), unat (n AND 255)]"

definition intToIp :: "ipv4 \<Rightarrow> string" where
  "intToIp n = join ''.'' (map show_nat (octets n))"

definition parseCidr :: "string \<Rightarrow> (ipv4 \<times> nat) result" where
  "parseCidr cidr =
     (let parts = split_on CHR ''/'' cidr;
          bits = (if tl parts = [] then None else js_Number (hd (tl parts)))
      in case (bits, ipToInt (hd parts)) of
           (Some q, Some n) \<Rightarrow>
             if q = of_int \<lfloor>q\<rfloor> \<and> 0 \<le> q \<and> q \<le> 32
             then Inr (let b = nat \<lfloor>q\<rfloor>; m = (if b = 0 then 0 else push_bit (32 - b) 4294967295 :: ipv4) in (n AND m, b))
             else Inl (JsError ''invalid IPv4 CIDR'')
         | _ \<Rightarrow> Inl (JsError ''invalid IPv4 CIDR''))"

definition prefixOf :: "string \<Rightarrow> rat option" where
  "prefixOf cidr = (case tl (split_on CHR ''/'' cidr) of [] \<Rightarrow> None | b # _ \<Rightarrow> js_Number b)"

fun base36 :: "nat \<Rightarrow> string" where
  "base36 n = (let d = (\<lambda>k. if k < 10 then char_of (48 + k) else char_of (87 + k))
               in if n < 36 then [d n] else base36 (n div 36) @ [d (n mod 36)])"

declare base36.simps [simp del]

definition vnetId :: "nat \<Rightarrow> string" where "vnetId tag = ''pn'' @ base36 tag"

fun region_entry :: "string list \<Rightarrow> string \<Rightarrow> string option" where
  "region_entry [] regionId = None"
| "region_entry (p # ps) regionId =
     (let kv = map trim (split_on CHR ''='' p)
      in if hd kv = regionId \<and> tl kv \<noteq> [] \<and> hd (tl kv) \<noteq> [] then Some (hd (tl kv)) else region_entry ps regionId)"

definition perRegion :: "string \<Rightarrow> string \<Rightarrow> string option" where
  "perRegion setting regionId =
     (let parts = filter (\<lambda>p. p \<noteq> []) (map trim (split_on CHR '','' setting))
      in case parts of
           [p] \<Rightarrow> if str_includes p ''='' then region_entry parts regionId else Some p
         | _ \<Rightarrow> region_entry parts regionId)"

definition guestAddressMismatch :: "string option \<Rightarrow> string list option \<Rightarrow> bool" where
  "guestAddressMismatch allocated guest \<longleftrightarrow>
     (case (allocated, guest) of
        (Some a, Some (g # gs)) \<Rightarrow> a \<noteq> [] \<and> a \<notin> set (g # gs)
      | _ \<Rightarrow> False)"

section \<open>Networks\<close>

record private_network =
  pn_id :: id
  pn_projectId :: id
  pn_regionId :: id
  pn_cidr :: string
  pn_poolIndex :: nat
  pn_vxlanTag :: nat
  pn_vnet :: string
  pn_sdnAppliedAt :: "instant option"

record private_ip =
  pi_networkId :: id
  pi_serverId :: "id option"
  pi_address :: string

record net_config =
  nc_pool :: string
  nc_prefix :: nat
  nc_vxlanBase :: nat
  nc_mode :: string

definition network_of :: "id \<Rightarrow> id \<Rightarrow> private_network list \<Rightarrow> private_network option" where
  "network_of projectId regionId nets = find_by (\<lambda>n. (pn_projectId n, pn_regionId n)) (projectId, regionId) nets"

text \<open>\<open>while (used.has(index)) index++\<close>: the search stops within one more step than there are used indexes.\<close>

definition first_free :: "nat list \<Rightarrow> nat" where
  "first_free used = hd (filter (\<lambda>i. i \<notin> set used) [0..<Suc (length used)])"

definition clashes :: "private_network \<Rightarrow> private_network \<Rightarrow> bool" where
  "clashes n m \<longleftrightarrow>
     pn_regionId n = pn_regionId m
     \<and> (pn_projectId n = pn_projectId m \<or> pn_cidr n = pn_cidr m \<or> pn_poolIndex n = pn_poolIndex m)"

definition no_networks :: error where "no_networks = ApiError 403 ''quota_exceeded''"

fun network_attempts ::
  "(nat \<Rightarrow> private_network list \<Rightarrow> private_network list) \<Rightarrow> net_config \<Rightarrow> ipv4 \<Rightarrow> nat \<Rightarrow> id \<Rightarrow> id \<Rightarrow> id \<Rightarrow> nat
     \<Rightarrow> private_network list \<Rightarrow> private_network result \<times> private_network list" where
  "network_attempts race cfg base bits newId projectId regionId 0 nets =
     (Inl (JsError ''could not allocate a private network''), nets)"
| "network_attempts race cfg base bits newId projectId regionId (Suc n) nets =
     (let index = first_free (map pn_poolIndex (filter (\<lambda>m. pn_regionId m = regionId) nets));
          tag = nc_vxlanBase cfg + index;
          net = \<lparr>pn_id = newId, pn_projectId = projectId, pn_regionId = regionId,
                 pn_cidr = intToIp (base + of_nat (index * 2 ^ (32 - nc_prefix cfg))) @ ''/'' @ show_nat (nc_prefix cfg),
                 pn_poolIndex = index, pn_vxlanTag = tag, pn_vnet = vnetId tag, pn_sdnAppliedAt = None\<rparr>;
          raced = race n nets
      in if 2 ^ (nc_prefix cfg - bits) \<le> index then (Inl no_networks, nets)
         else if 16777215 < tag then (Inl no_networks, nets)
         else if \<not> list_ex (clashes net) raced then (Inr net, raced @ [net])
         else case network_of projectId regionId raced of
           Some m \<Rightarrow> (Inr m, raced)
         | None \<Rightarrow> network_attempts race cfg base bits newId projectId regionId n raced)"

definition ensureNetwork ::
  "(nat \<Rightarrow> private_network list \<Rightarrow> private_network list) \<Rightarrow> net_config \<Rightarrow> id \<Rightarrow> id \<Rightarrow> id \<Rightarrow> private_network list
     \<Rightarrow> private_network result \<times> private_network list" where
  "ensureNetwork race cfg newId projectId regionId nets =
     (case network_of projectId regionId nets of
        Some m \<Rightarrow> (Inr m, nets)
      | None \<Rightarrow>
          (case parseCidr (case perRegion (nc_pool cfg) regionId of None \<Rightarrow> ''10.96.0.0/12'' | Some p \<Rightarrow> p) of
             Inl e \<Rightarrow> (Inl e, nets)
           | Inr (base, bits) \<Rightarrow>
               if nc_prefix cfg < bits then (Inl (JsError ''PRIVATE_NETWORK_PREFIX is larger than the pool''), nets)
               else network_attempts race cfg base bits newId projectId regionId 10 nets))"

section \<open>Addresses\<close>

definition held_by :: "id \<Rightarrow> private_ip list \<Rightarrow> private_ip option" where
  "held_by serverId ips = List.find (\<lambda>p. pi_serverId p = Some serverId) ips"

text \<open>The first sixteen free addresses from .2 up to the one before broadcast.\<close>

definition free_addresses :: "ipv4 \<Rightarrow> nat \<Rightarrow> string list \<Rightarrow> ipv4 list" where
  "free_addresses base bits used =
     take 16 (filter (\<lambda>a. intToIp a \<notin> set used)
       (map (\<lambda>k. base + of_nat k) [2..<2 ^ (32 - bits) - 1]))"

fun address_attempts ::
  "(nat \<Rightarrow> private_ip list \<Rightarrow> private_ip list) \<Rightarrow> (nat \<Rightarrow> nat) \<Rightarrow> private_network \<Rightarrow> ipv4 \<Rightarrow> nat \<Rightarrow> id \<Rightarrow> bool \<Rightarrow> nat
     \<Rightarrow> private_ip list \<Rightarrow> (string \<times> nat) result \<times> private_ip list" where
  "address_attempts race pick net base bits serverId first 0 ips =
     (Inl (JsError ''could not reserve a private address''), ips)"
| "address_attempts race pick net base bits serverId first (Suc n) ips =
     (let used = map pi_address (filter (\<lambda>p. pi_networkId p = pn_id net) ips);
          free = free_addresses base bits used;
          candidate = (if first then hd free else free ! (pick n mod length free));
          new = \<lparr>pi_networkId = pn_id net, pi_serverId = Some serverId, pi_address = intToIp candidate\<rparr>;
          raced = race n ips
      in if free = [] then (Inl (ApiError 403 ''quota_exceeded''), ips)
         else if \<not> list_ex (\<lambda>p. pi_serverId p = Some serverId \<or> pi_networkId p = pn_id net \<and> pi_address p = pi_address new) raced
         then (Inr (pi_address new, bits), raced @ [new])
         else case held_by serverId raced of
           Some p \<Rightarrow> (Inr (pi_address p, bits), raced)
         | None \<Rightarrow> address_attempts race pick net base bits serverId False n raced)"

definition reserve_on ::
  "(nat \<Rightarrow> private_ip list \<Rightarrow> private_ip list) \<Rightarrow> (nat \<Rightarrow> nat) \<Rightarrow> private_network \<Rightarrow> id \<Rightarrow> private_ip list
     \<Rightarrow> (string \<times> nat) result \<times> private_ip list" where
  "reserve_on race pick net serverId ips =
     (case parseCidr (pn_cidr net) of
        Inl e \<Rightarrow> (Inl e, ips)
      | Inr (base, bits) \<Rightarrow> address_attempts race pick net base bits serverId True 30 ips)"

record net_state =
  ns_networks :: "private_network list"
  ns_ips :: "private_ip list"

definition reserveForServer ::
  "(nat \<Rightarrow> private_network list \<Rightarrow> private_network list) \<Rightarrow> (nat \<Rightarrow> private_ip list \<Rightarrow> private_ip list) \<Rightarrow> (nat \<Rightarrow> nat)
     \<Rightarrow> net_config \<Rightarrow> id \<Rightarrow> id \<Rightarrow> id \<Rightarrow> id \<Rightarrow> net_state \<Rightarrow> string result \<times> net_state" where
  "reserveForServer raceNet raceIp pick cfg newId serverId projectId regionId s =
     (case held_by serverId (ns_ips s) of
        Some p \<Rightarrow> (Inr (pi_address p), s)
      | None \<Rightarrow>
          (case ensureNetwork raceNet cfg newId projectId regionId (ns_networks s) of
             (Inl e, nets) \<Rightarrow> (Inl e, s\<lparr>ns_networks := nets\<rparr>)
           | (Inr net, nets) \<Rightarrow>
               (case reserve_on raceIp pick net serverId (ns_ips s) of
                  (Inl e, ips) \<Rightarrow> (Inl e, s\<lparr>ns_networks := nets, ns_ips := ips\<rparr>)
                | (Inr (address, _), ips) \<Rightarrow> (Inr address, s\<lparr>ns_networks := nets, ns_ips := ips\<rparr>))))"

definition releaseForServer :: "id \<Rightarrow> net_state \<Rightarrow> net_state" where
  "releaseForServer serverId s = s\<lparr>ns_ips := filter (\<lambda>p. pi_serverId p \<noteq> Some serverId) (ns_ips s)\<rparr>"

definition network_mode :: "net_config \<Rightarrow> id \<Rightarrow> string" where
  "network_mode cfg regionId = (case perRegion (nc_mode cfg) regionId of None \<Rightarrow> ''shared_bridge'' | Some m \<Rightarrow> m)"

definition bridgeFor :: "bool \<Rightarrow> net_config \<Rightarrow> private_network \<Rightarrow> instant \<Rightarrow> net_state \<Rightarrow> string option result \<times> net_state" where
  "bridgeFor driverOk cfg net now s =
     (if network_mode cfg (pn_regionId net) \<noteq> ''sdn_vnet'' then (Inr None, s)
      else if pn_sdnAppliedAt net \<noteq> None then (Inr (Some (pn_vnet net)), s)
      else if \<not> driverOk then (Inl (JsError ''agent failed''), s)
      else (Inr (Some (pn_vnet net)),
            s\<lparr>ns_networks := update_where (\<lambda>n. pn_id n = pn_id net) (\<lambda>n. n\<lparr>pn_sdnAppliedAt := Some now\<rparr>) (ns_networks s)\<rparr>))"

section \<open>Round trip of addresses\<close>

lemma octet_show_nat: "n \<le> 255 \<Longrightarrow> octet (show_nat n) = Some n"
  using js_Number_show_nat [of n] by (simp add: octet_def)

lemma and_255: "(x AND 255 :: ipv4) = take_bit 8 x"
  by (simp add: take_bit_eq_mask mask_eq_exp_minus_1)

lemma octets_sum:
  "push_bit 24 (drop_bit 24 n) + push_bit 16 (drop_bit 16 n AND 255) + push_bit 8 (drop_bit 8 n AND 255) + (n AND 255) = n"
  for n :: ipv4
proof -
  have s: "drop_bit k n = push_bit 8 (drop_bit (8 + k) n) + take_bit 8 (drop_bit k n)" for k
    using bits_ident [of 8 "drop_bit k n"] by (simp add: drop_bit_drop_bit)
  have "n = push_bit 8 (drop_bit 8 n) + take_bit 8 n" using s [of 0] by simp
  also have "push_bit 8 (drop_bit 8 n) = push_bit 16 (drop_bit 16 n) + push_bit 8 (take_bit 8 (drop_bit 8 n))"
    by (subst s [of 8]) (simp add: push_bit_add push_bit_push_bit)
  also have "push_bit 16 (drop_bit 16 n) = push_bit 24 (drop_bit 24 n) + push_bit 16 (take_bit 8 (drop_bit 16 n))"
    by (subst s [of 16]) (simp add: push_bit_add push_bit_push_bit)
  finally show ?thesis by (simp add: and_255)
qed

lemma octets_small: "\<forall>k\<in>set (octets n). k \<le> 255"
proof -
  have small: "unat (x AND 255) \<le> 255" for x :: ipv4
    using word_and_le1 [of x 255] by (simp add: word_le_nat_alt)
  have "unat (drop_bit 24 n) = unat n div 2 ^ 24"
    using unat_drop_bit_eq [of 24 n] drop_bit_eq_div [of 24 "unat n"] by simp
  moreover have "unat n < 2 ^ 8 * 2 ^ 24" using unsigned_less [of n, where 'a = nat] by simp
  ultimately have "unat (drop_bit 24 n) < 2 ^ 8" by (metis less_mult_imp_div_less)
  then show ?thesis using small by (auto simp: octets_def)
qed

lemma ip_round_trip: "ipToInt (intToIp n) = Some n"
proof -
  have "CHR ''.'' \<notin> set (show_nat k)" for k using show_nat_digits [of k] by (auto simp: is_digit_def)
  then have "split_on CHR ''.'' (intToIp n) = map show_nat (octets n)"
    unfolding intToIp_def by (intro split_on_join) (auto simp: octets_def)
  moreover have "map octet (map show_nat (octets n)) = map Some (octets n)"
    using octets_small [of n] by (simp add: octet_show_nat)
  ultimately show ?thesis using octets_sum [of n] by (simp add: ipToInt_def octets_def and_255)
qed

lemma intToIp_inj: "intToIp m = intToIp n \<longleftrightarrow> m = n"
  by (metis ip_round_trip option.inject)

section \<open>The lowest free index\<close>

lemma hd_sorted_le: "sorted xs \<Longrightarrow> x \<in> set xs \<Longrightarrow> hd xs \<le> x"
  by (cases xs) auto

lemma first_free_spec: "first_free used \<notin> set used \<and> (\<forall>i<first_free used. i \<in> set used)"
proof -
  define free where "free = filter (\<lambda>i. i \<notin> set used) [0..<Suc (length used)]"
  have free: "i \<in> set free \<longleftrightarrow> i \<notin> set used \<and> i < Suc (length used)" for i
    by (auto simp: free_def simp del: upt_Suc)
  have "sorted free" by (simp add: free_def sorted_wrt_filter del: upt_Suc)
  have "\<not> set [0..<Suc (length used)] \<subseteq> set used"
  proof
    assume "set [0..<Suc (length used)] \<subseteq> set used"
    then have "card (set [0..<Suc (length used)]) \<le> card (set used)" by (intro card_mono) simp_all
    also have "\<dots> \<le> length used" by (rule card_length)
    finally show False by simp
  qed
  then obtain j where "j \<in> set [0..<Suc (length used)]" "j \<notin> set used" by blast
  then have "j \<in> set free" by (simp add: free del: upt_Suc)
  then have "hd free \<in> set free" by (intro hd_in_set) auto
  moreover have ff: "first_free used = hd free" by (simp only: first_free_def free_def)
  ultimately have hd: "first_free used \<in> set free" by simp
  have "i \<in> set used" if "i < first_free used" for i
    using hd_sorted_le [OF \<open>sorted free\<close>, of i] free [of i] free [of "first_free used"] hd that
    unfolding ff by (metis less_Suc_eq_le linorder_not_less order_less_trans)
  then show ?thesis using hd free by auto
qed

section \<open>An address is held once\<close>

definition ip_key :: "private_ip \<Rightarrow> id \<times> string" where "ip_key p = (pi_networkId p, pi_address p)"

definition held_once :: "private_ip list \<Rightarrow> bool" where
  "held_once ips \<longleftrightarrow> uniq ip_key ips \<and> distinct (List.map_filter pi_serverId ips)"

lemma map_filter_snoc: "List.map_filter f (xs @ [x]) = List.map_filter f xs @ (case f x of None \<Rightarrow> [] | Some y \<Rightarrow> [y])"
  by (simp add: List.map_filter_def split: option.split)

lemma held_once_add:
  assumes "held_once ips" "\<not> list_ex (\<lambda>q. pi_serverId q = Some i \<or> pi_networkId q = pi_networkId p \<and> pi_address q = pi_address p) ips"
    and "pi_serverId p = Some i"
  shows "held_once (ips @ [p])"
proof -
  have "ip_key p \<notin> ip_key ` set ips" using assms(2) by (auto simp: list_ex_iff ip_key_def)
  moreover have "i \<notin> set (List.map_filter pi_serverId ips)" using assms(2) by (auto simp: list_ex_iff List.map_filter_def)
  ultimately show ?thesis using assms(1,3) by (simp add: held_once_def uniq_def map_filter_snoc)
qed

lemma address_attempts_held:
  assumes race: "\<And>k t. held_once t \<Longrightarrow> held_once (race k t)" and "held_once ips"
  shows "held_once (snd (address_attempts race pick net base bits serverId first n ips))
    \<and> (\<forall>a b. fst (address_attempts race pick net base bits serverId first n ips) = Inr (a, b) \<longrightarrow>
          (\<exists>p\<in>set (snd (address_attempts race pick net base bits serverId first n ips)).
             pi_serverId p = Some serverId \<and> pi_address p = a))"
  using assms(2)
proof (induction n arbitrary: ips first)
  case (Suc n)
  define new where "new = \<lparr>pi_networkId = pn_id net, pi_serverId = Some serverId, pi_address =
    intToIp (let free = free_addresses base bits (map pi_address (filter (\<lambda>p. pi_networkId p = pn_id net) ips))
             in if first then hd free else free ! (pick n mod length free))\<rparr>"
  have raced: "held_once (race n ips)" by (rule race [OF Suc.prems])
  have add: "held_once (race n ips @ [new])"
    if "\<not> list_ex (\<lambda>p. pi_serverId p = Some serverId \<or> pi_networkId p = pn_id net \<and> pi_address p = pi_address new) (race n ips)"
    using held_once_add [OF raced, of serverId new] that by (simp add: new_def)
  show ?case
    using Suc.IH [OF raced, of False] Suc.prems raced add
    by (auto simp: Let_def held_by_def new_def find_Some_iff split: option.splits)
qed simp

end
