(* ===== verification/Scheduler.thy ===== *)
theory Scheduler
  imports Private_Nets
begin

text \<open>
  Placement of servers on hosts: \<open>modules/scheduler/scheduler.service.ts\<close>.

  Placements of a region run one at a time under a Redis lock; \<open>locked\<close> tells whether the lock was
  obtained within the fifty attempts of \<open>waitLock\<close>.  The load of a host is a quotient of doubles
  (\<open>js_div\<close>); hosts of equal load keep the order of the query, as the stable sort of JavaScript does.
  \<open>sc_warned\<close> is the in-memory map of the last mismatch warned per server.
\<close>

datatype host_status = HsActive | HsDraining | HsMaintenance | HsDown

record host =
  ho_id :: id
  ho_regionId :: id
  ho_driver :: string
  ho_driverRef :: string
  ho_status :: host_status
  ho_totalVcpu :: int
  ho_totalMemoryMb :: int
  ho_totalDiskGb :: int
  ho_usedVcpu :: int
  ho_usedMemoryMb :: int
  ho_usedDiskGb :: int
  ho_overcommitCpu :: rat
  ho_family :: "string option"
  ho_lastHeartbeatAt :: "instant option"

record placed_server =
  ps_id :: id
  ps_name :: string
  ps_hostId :: "id option"
  ps_privateIp :: "string option"
  ps_deletedAt :: "instant option"

record sched_state =
  sc_hosts :: "host list"
  sc_servers :: "placed_server list"
  sc_warned :: "(id \<times> string) list"

record placement =
  pl_regionId :: id
  pl_vcpu :: int
  pl_memoryMb :: int
  pl_diskGb :: int
  pl_avoidServerIds :: "id list"
  pl_softAvoid :: bool
  pl_serverId :: "id option"
  pl_family :: "string option"
  pl_onlyHostId :: "id option"

section \<open>Choosing a host\<close>

definition avoid_hosts :: "placement \<Rightarrow> sched_state \<Rightarrow> id list" where
  "avoid_hosts req s =
     List.map_filter (\<lambda>v. if ps_id v \<in> set (pl_avoidServerIds req) then ps_hostId v else None) (sc_servers s)"

definition live_hosts :: "placement \<Rightarrow> instant \<Rightarrow> sched_state \<Rightarrow> host list" where
  "live_hosts req now s =
     filter (\<lambda>h. ho_regionId h = pl_regionId req \<and> ho_status h = HsActive
                 \<and> (case pl_onlyHostId req of None \<Rightarrow> True | Some i \<Rightarrow> i = [] \<or> ho_id h = i)
                 \<and> (case ho_lastHeartbeatAt h of None \<Rightarrow> True | Some t \<Rightarrow> now - 3 * 60000 < t \<or> ho_driver h = ''fake''))
       (sc_hosts s)"

definition has_room :: "placement \<Rightarrow> host \<Rightarrow> bool" where
  "has_room req h \<longleftrightarrow>
     ho_usedMemoryMb h + pl_memoryMb req \<le> ho_totalMemoryMb h
     \<and> of_int (ho_usedVcpu h + pl_vcpu req) \<le> js_mul (of_int (ho_totalVcpu h)) (ho_overcommitCpu h)
     \<and> ho_usedDiskGb h + pl_diskGb req \<le> ho_totalDiskGb h
     \<and> (case pl_family req of None \<Rightarrow> True | Some f \<Rightarrow> f = [] \<or> f = ''shared'' \<or> ho_family h = Some f)"

definition load :: "host \<Rightarrow> rat" where
  "load h = js_div (of_int (ho_usedMemoryMb h)) (of_int (ho_totalMemoryMb h))"

definition fits :: "placement \<Rightarrow> host list \<Rightarrow> host list" where
  "fits req hs = sort_key load (filter (has_room req) hs)"

definition choose_host :: "placement \<Rightarrow> instant \<Rightarrow> sched_state \<Rightarrow> (host \<times> bool) option" where
  "choose_host req now s =
     (let live = live_hosts req now s;
          apart = filter (\<lambda>h. ho_id h \<notin> set (avoid_hosts req s)) live
      in case fits req apart of
           h # _ \<Rightarrow> Some (h, False)
         | [] \<Rightarrow> if pl_softAvoid req \<and> apart = []
                 then (case fits req live of [] \<Rightarrow> None | h # _ \<Rightarrow> Some (h, True))
                 else None)"

definition take_room :: "placement \<Rightarrow> host \<Rightarrow> host" where
  "take_room req h = h\<lparr>ho_usedVcpu := ho_usedVcpu h + pl_vcpu req, ho_usedMemoryMb := ho_usedMemoryMb h + pl_memoryMb req,
                       ho_usedDiskGb := ho_usedDiskGb h + pl_diskGb req\<rparr>"

definition place :: "bool \<Rightarrow> placement \<Rightarrow> instant \<Rightarrow> sched_state \<Rightarrow> (id \<times> string \<times> bool) result \<times> sched_state" where
  "place locked req now s =
     (if \<not> locked then (Inl (JsError ''could not acquire scheduler lock''), s)
      else case choose_host req now s of
        None \<Rightarrow> (Inl quota, s)
      | Some (h, shared) \<Rightarrow>
          let s1 = s\<lparr>sc_hosts := update_where (\<lambda>r. ho_id r = ho_id h) (take_room req) (sc_hosts s)\<rparr>
          in case pl_serverId req of
               None \<Rightarrow> (Inr (ho_id h, ho_driverRef h, shared), s1)
             | Some v \<Rightarrow>
                 if v = [] then (Inr (ho_id h, ho_driverRef h, shared), s1)
                 else if v \<notin> ps_id ` set (sc_servers s1) then (Inl (JsError ''server not found''), s1)
                 else (Inr (ho_id h, ho_driverRef h, shared),
                       s1\<lparr>sc_servers := update_where (\<lambda>r. ps_id r = v) (\<lambda>r. r\<lparr>ps_hostId := Some (ho_id h)\<rparr>) (sc_servers s1)\<rparr>))"

definition release_room :: "id \<Rightarrow> int \<Rightarrow> int \<Rightarrow> int \<Rightarrow> sched_state \<Rightarrow> sched_state" where
  "release_room hostId vcpu memoryMb diskGb s =
     s\<lparr>sc_hosts := update_where (\<lambda>h. ho_id h = hostId)
          (\<lambda>h. h\<lparr>ho_usedVcpu := ho_usedVcpu h - vcpu, ho_usedMemoryMb := ho_usedMemoryMb h - memoryMb,
                 ho_usedDiskGb := ho_usedDiskGb h - diskGb\<rparr>) (sc_hosts s)\<rparr>"

section \<open>Heartbeats\<close>

record heartbeat =
  hb_hostId :: id
  hb_totalVcpu :: int
  hb_totalMemoryMb :: int
  hb_totalDiskGb :: int
  hb_usedVcpu :: int
  hb_usedMemoryMb :: int
  hb_usedDiskGb :: int
  hb_at :: instant
  hb_vms :: "(id option \<times> string list option) list"

definition warn_vm :: "placed_server list \<Rightarrow> id option \<times> string list option \<Rightarrow> (id \<times> string) list \<Rightarrow> (id \<times> string) list" where
  "warn_vm servers vm warned =
     (case vm of
        (Some i, Some addrs) \<Rightarrow>
          (case List.find (\<lambda>v. ps_id v = i \<and> ps_deletedAt v = None) servers of
             None \<Rightarrow> warned
           | Some v \<Rightarrow>
               if \<not> guestAddressMismatch (ps_privateIp v) (Some addrs) then filter (\<lambda>(k, _). k \<noteq> i) warned
               else if map_of warned i = Some (join '', '' addrs) then warned
               else (i, join '', '' addrs) # filter (\<lambda>(k, _). k \<noteq> i) warned)
      | _ \<Rightarrow> warned)"

definition checkGuestAddresses :: "heartbeat \<Rightarrow> sched_state \<Rightarrow> sched_state" where
  "checkGuestAddresses hb s =
     (let reported = filter (\<lambda>(i, a). (i \<noteq> None \<and> i \<noteq> Some []) \<and> (case a of None \<Rightarrow> False | Some xs \<Rightarrow> xs \<noteq> [])) (hb_vms hb)
      in s\<lparr>sc_warned := fold (warn_vm (sc_servers s)) reported (sc_warned s)\<rparr>)"

definition listenHeartbeats :: "heartbeat \<Rightarrow> sched_state \<Rightarrow> sched_state" where
  "listenHeartbeats hb s =
     (let s1 = s\<lparr>sc_hosts := update_where (\<lambda>h. ho_id h = hb_hostId hb)
                   (\<lambda>h. h\<lparr>ho_totalVcpu := hb_totalVcpu hb, ho_totalMemoryMb := hb_totalMemoryMb hb,
                          ho_totalDiskGb := hb_totalDiskGb hb, ho_usedVcpu := hb_usedVcpu hb,
                          ho_usedMemoryMb := hb_usedMemoryMb hb, ho_usedDiskGb := hb_usedDiskGb hb,
                          ho_lastHeartbeatAt := Some (hb_at hb)\<rparr>) (sc_hosts s)\<rparr>;
          s2 = s1\<lparr>sc_hosts := update_where (\<lambda>h. ho_id h = hb_hostId hb \<and> ho_status h = HsDown)
                   (\<lambda>h. h\<lparr>ho_status := HsActive\<rparr>) (sc_hosts s1)\<rparr>
      in checkGuestAddresses hb s2)"

section \<open>A placement fits and keeps servers apart\<close>

lemma fits_in: "h \<in> set (fits req hs) \<longleftrightarrow> h \<in> set hs \<and> has_room req h"
  by (auto simp: fits_def)

lemma choose_host_Some:
  assumes "choose_host req now s = Some (h, shared)"
  shows "h \<in> set (live_hosts req now s)" "has_room req h"
    and "\<not> shared \<Longrightarrow> ho_id h \<notin> set (avoid_hosts req s)"
    and "shared \<Longrightarrow> pl_softAvoid req \<and> (\<forall>g\<in>set (live_hosts req now s). ho_id g \<in> set (avoid_hosts req s))"
    and "\<forall>g\<in>set (live_hosts req now s). has_room req g \<and> (shared \<or> ho_id g \<notin> set (avoid_hosts req s)) \<longrightarrow> load h \<le> load g"
proof -
  let ?live = "live_hosts req now s"
  let ?apart = "filter (\<lambda>h. ho_id h \<notin> set (avoid_hosts req s)) ?live"
  have first: "h \<in> set hs \<and> has_room req h \<and> (\<forall>g\<in>set hs. has_room req g \<longrightarrow> load h \<le> load g)"
    if "fits req hs = h # rest" for hs rest
  proof -
    have "h \<in> set (fits req hs)" using that by simp
    moreover have "sorted (map load (fits req hs))" by (simp add: fits_def)
    then have "\<forall>g\<in>set (fits req hs). load h \<le> load g" using that by auto
    ultimately show ?thesis by (simp add: fits_in)
  qed
  have cases: "(\<not> shared \<and> (\<exists>rest. fits req ?apart = h # rest))
      \<or> (shared \<and> pl_softAvoid req \<and> ?apart = [] \<and> (\<exists>rest. fits req ?live = h # rest))"
    using assms by (auto simp: choose_host_def Let_def split: list.splits if_splits)
  have plain: "\<not> shared \<Longrightarrow> h \<in> set ?apart \<and> has_room req h \<and> (\<forall>g\<in>set ?apart. has_room req g \<longrightarrow> load h \<le> load g)"
    using cases first by blast
  have soft: "shared \<Longrightarrow> pl_softAvoid req \<and> ?apart = [] \<and> h \<in> set ?live \<and> has_room req h
      \<and> (\<forall>g\<in>set ?live. has_room req g \<longrightarrow> load h \<le> load g)"
    using cases first by blast
  show "h \<in> set ?live" "has_room req h" using plain soft by (cases shared; simp)+
  show "\<not> shared \<Longrightarrow> ho_id h \<notin> set (avoid_hosts req s)" using plain by simp
  show "shared \<Longrightarrow> pl_softAvoid req \<and> (\<forall>g\<in>set ?live. ho_id g \<in> set (avoid_hosts req s))"
    using soft by (simp add: filter_empty_conv)
  show "\<forall>g\<in>set ?live. has_room req g \<and> (shared \<or> ho_id g \<notin> set (avoid_hosts req s)) \<longrightarrow> load h \<le> load g"
    using plain soft by (cases shared) auto
qed

section \<open>Hosts are never overbooked\<close>

definition within_capacity :: "host \<Rightarrow> bool" where
  "within_capacity h \<longleftrightarrow> ho_usedMemoryMb h \<le> ho_totalMemoryMb h \<and> ho_usedDiskGb h \<le> ho_totalDiskGb h"

definition capacity_ok :: "sched_state \<Rightarrow> bool" where
  "capacity_ok s \<longleftrightarrow> uniq ho_id (sc_hosts s) \<and> (\<forall>h\<in>set (sc_hosts s). within_capacity h)"

lemma take_room_id [simp]: "ho_id (take_room req h) = ho_id h"
  by (simp add: take_room_def)

lemma place_hosts:
  "sc_hosts (snd (place locked req now s)) = sc_hosts s
   \<or> (\<exists>h shared. choose_host req now s = Some (h, shared)
        \<and> sc_hosts (snd (place locked req now s)) = update_where (\<lambda>r. ho_id r = ho_id h) (take_room req) (sc_hosts s))"
  by (simp add: place_def Let_def split: option.splits prod.splits)

lemma place_capacity:
  assumes "capacity_ok s"
  shows "capacity_ok (snd (place locked req now s))"
  using place_hosts [of locked req now s]
proof
  assume "\<exists>h shared. choose_host req now s = Some (h, shared)
      \<and> sc_hosts (snd (place locked req now s)) = update_where (\<lambda>r. ho_id r = ho_id h) (take_room req) (sc_hosts s)"
  then obtain h shared where c: "choose_host req now s = Some (h, shared)"
    and hosts: "sc_hosts (snd (place locked req now s)) = update_where (\<lambda>r. ho_id r = ho_id h) (take_room req) (sc_hosts s)"
    by blast
  have h: "h \<in> set (sc_hosts s)" using choose_host_Some(1) [OF c] by (simp add: live_hosts_def)
  have "within_capacity (take_room req h)"
    using choose_host_Some(2) [OF c] by (simp add: within_capacity_def has_room_def take_room_def)
  moreover have "r = h" if "r \<in> set (sc_hosts s)" "ho_id r = ho_id h" for r
    using uniq_inj [of ho_id "sc_hosts s" r h] assms that h by (simp add: capacity_ok_def)
  ultimately show ?thesis
    using assms by (auto simp: capacity_ok_def hosts uniq_update_where ball_update_where)
qed (use assms in \<open>simp add: capacity_ok_def\<close>)

datatype sched_op = Place bool placement instant | Release id nat nat nat

fun sched_step :: "sched_op \<Rightarrow> sched_state \<Rightarrow> sched_state" where
  "sched_step (Place locked req now) s = snd (place locked req now s)"
| "sched_step (Release hostId vcpu memoryMb diskGb) s = release_room hostId (int vcpu) (int memoryMb) (int diskGb) s"

lemma release_capacity: "capacity_ok s \<Longrightarrow> capacity_ok (release_room hostId vcpu (int m) (int d) s)"
  by (auto simp: capacity_ok_def release_room_def uniq_update_where ball_update_where within_capacity_def)

interpretation rack: guarded_system capacity_ok sched_step
proof
  fix s op assume "capacity_ok s"
  then show "capacity_ok (sched_step op s)"
    by (cases op) (simp_all add: place_capacity release_capacity)
qed

end
