(* ===== verification/Addresses.thy ===== *)
theory Addresses
  imports Actor "HOL-Library.List_Lexorder" "HOL-Library.Char_ord"
begin

text \<open>
  The pool of public addresses: \<open>modules/network/ips.service.ts\<close>.

  The service relies on conditional updates (\<open>updateMany\<close> with the expected state in its filter) for
  safety under concurrency, so the operations take what other requests do to the table between a
  read and the conditional write: \<open>race\<close>.  The hypervisor driver is a parameter: whether it carried
  out the change.  Addresses are ordered as texts.
\<close>

datatype ip_status = IpFree | IpReserved | IpAssigned

record public_ip =
  ip_id :: id
  ip_regionId :: id
  ip_projectId :: "id option"
  ip_serverId :: "id option"
  ip_address :: string
  ip_status :: ip_status
  ip_floating :: bool
  ip_reverseDns :: "string option"
  ip_assignedAt :: "instant option"
  ip_product :: bool

record ip_server =
  is_id :: id
  is_projectId :: id
  is_regionId :: id
  is_status :: string
  is_driverRef :: "string option"
  is_hostRef :: "string option"
  is_managedBy :: "string option"
  is_deletedAt :: "instant option"

definition update_ip :: "id \<Rightarrow> (public_ip \<Rightarrow> public_ip) \<Rightarrow> public_ip list \<Rightarrow> public_ip list" where
  "update_ip i f ips = update_where (\<lambda>p. ip_id p = i) f ips"

section \<open>Reserving and releasing\<close>

definition candidate :: "id \<Rightarrow> public_ip list \<Rightarrow> public_ip option" where
  "candidate regionId ips =
     (case sort_key ip_address (filter (\<lambda>p. ip_regionId p = regionId \<and> ip_status p = IpFree) ips) of
        [] \<Rightarrow> None | p # _ \<Rightarrow> Some p)"

definition taken :: "id \<Rightarrow> id option \<Rightarrow> instant \<Rightarrow> public_ip \<Rightarrow> public_ip" where
  "taken projectId serverId now p =
     p\<lparr>ip_status := (if serverId = None then IpReserved else IpAssigned), ip_projectId := Some projectId,
       ip_serverId := serverId, ip_assignedAt := (if serverId = None then None else Some now)\<rparr>"

fun reserve_attempts ::
  "(nat \<Rightarrow> public_ip list \<Rightarrow> public_ip list) \<Rightarrow> id \<Rightarrow> id \<Rightarrow> id option \<Rightarrow> instant \<Rightarrow> nat \<Rightarrow> public_ip list
     \<Rightarrow> public_ip result \<times> public_ip list" where
  "reserve_attempts race regionId projectId serverId now 0 ips =
     (Inl (JsError ''could not reserve a public IP after 5 attempts''), ips)"
| "reserve_attempts race regionId projectId serverId now (Suc n) ips =
     (case candidate regionId ips of
        None \<Rightarrow> (Inl quota, ips)
      | Some c \<Rightarrow>
          let raced = race n ips;
              hit = (\<lambda>p. ip_id p = ip_id c \<and> ip_status p = IpFree);
              ips' = update_where hit (taken projectId serverId now) raced
          in if count_where hit raced = 1
             then (case find_by ip_id (ip_id c) ips' of
                     None \<Rightarrow> (Inl (JsError ''public ip not found''), ips')
                   | Some p \<Rightarrow> (Inr p, ips'))
             else reserve_attempts race regionId projectId serverId now n ips')"

definition reserve ::
  "(nat \<Rightarrow> public_ip list \<Rightarrow> public_ip list) \<Rightarrow> id \<Rightarrow> id \<Rightarrow> id option \<Rightarrow> instant \<Rightarrow> public_ip list
     \<Rightarrow> public_ip result \<times> public_ip list" where
  "reserve race regionId projectId serverId now ips = reserve_attempts race regionId projectId serverId now 5 ips"

definition freed :: "public_ip \<Rightarrow> public_ip" where
  "freed p = p\<lparr>ip_status := IpFree, ip_projectId := None, ip_serverId := None, ip_assignedAt := None,
               ip_reverseDns := None, ip_floating := False\<rparr>"

definition release_ip :: "id \<Rightarrow> public_ip list \<Rightarrow> public_ip list" where
  "release_ip i ips = update_ip i freed ips"

fun release_each :: "public_ip list \<Rightarrow> public_ip list \<Rightarrow> public_ip list" where
  "release_each [] ips = ips"
| "release_each (p # ps) ips =
     release_each ps
       (if ip_floating p then update_ip (ip_id p) (\<lambda>q. q\<lparr>ip_serverId := None, ip_status := IpReserved\<rparr>) ips
        else release_ip (ip_id p) ips)"

definition release_server_ips :: "id \<Rightarrow> public_ip list \<Rightarrow> public_ip list" where
  "release_server_ips serverId ips = release_each (filter (\<lambda>p. ip_serverId p = Some serverId) ips) ips"

section \<open>Moving an address\<close>

definition mustOwn :: "id \<Rightarrow> id \<Rightarrow> public_ip list \<Rightarrow> public_ip result" where
  "mustOwn projectId i ips =
     (case List.find (\<lambda>p. ip_id p = i \<and> ip_projectId p = Some projectId) ips of
        None \<Rightarrow> Inl notFound
      | Some p \<Rightarrow> if ip_product p then Inl invalidState else Inr p)"

definition hypervisorError :: error where "hypervisorError = ApiError 502 ''hypervisor_error''"

definition attachable :: "public_ip \<Rightarrow> id \<Rightarrow> id \<Rightarrow> ip_server list \<Rightarrow> public_ip list \<Rightarrow> unit result" where
  "attachable p projectId serverId servers ips =
     (case List.find (\<lambda>v. is_id v = serverId \<and> is_projectId v = projectId \<and> is_deletedAt v = None) servers of
        None \<Rightarrow> Inl notFound
      | Some v \<Rightarrow>
          if is_managedBy v \<noteq> None \<and> is_managedBy v \<noteq> Some [] then Inl invalidState
          else if is_status v \<notin> {''active'', ''off''} \<or> is_driverRef v = None \<or> is_driverRef v = Some [] \<or> is_hostRef v = None
          then Inl invalidState
          else if is_regionId v \<noteq> ip_regionId p then Inl invalid
          else if list_ex (\<lambda>q. ip_serverId q = Some serverId) ips then Inl invalidState
          else Inr ())"

definition attach ::
  "(public_ip list \<Rightarrow> public_ip list) \<Rightarrow> bool \<Rightarrow> ip_server list \<Rightarrow> id \<Rightarrow> id \<Rightarrow> id \<Rightarrow> instant \<Rightarrow> public_ip list
     \<Rightarrow> public_ip result \<times> public_ip list" where
  "attach race driverOk servers projectId i serverId now ips =
     (case mustOwn projectId i ips of
        Inl e \<Rightarrow> (Inl e, ips)
      | Inr p \<Rightarrow>
          if ip_serverId p = Some serverId then (Inr p, ips)
          else if ip_serverId p \<noteq> None \<and> ip_serverId p \<noteq> Some [] then (Inl invalidState, ips)
          else case attachable p projectId serverId servers ips of
            Inl e \<Rightarrow> (Inl e, ips)
          | Inr _ \<Rightarrow>
              let raced = race ips;
                  hit = (\<lambda>q. ip_id q = i \<and> ip_serverId q = None);
                  claimed = update_where hit (\<lambda>q. q\<lparr>ip_serverId := Some serverId, ip_status := IpAssigned,
                                                   ip_floating := True, ip_assignedAt := Some now\<rparr>) raced
              in if count_where hit raced = 0 then (Inl (conflict ''ip_busy''), raced)
                 else if \<not> driverOk then
                   (Inl hypervisorError,
                    update_where (\<lambda>q. ip_id q = i \<and> ip_serverId q = Some serverId)
                      (\<lambda>q. q\<lparr>ip_serverId := None, ip_status := IpReserved, ip_assignedAt := None\<rparr>) claimed)
                 else (mustOwn projectId i claimed, claimed))"

definition detach :: "bool \<Rightarrow> ip_server list \<Rightarrow> id \<Rightarrow> id \<Rightarrow> public_ip list \<Rightarrow> public_ip result \<times> public_ip list" where
  "detach driverOk servers projectId i ips =
     (case mustOwn projectId i ips of
        Inl e \<Rightarrow> (Inl e, ips)
      | Inr p \<Rightarrow>
          (case ip_serverId p of
             None \<Rightarrow> (Inr p, ips)
           | Some sid \<Rightarrow>
               let server = find_by is_id sid servers;
                   moves = (case server of None \<Rightarrow> False
                            | Some v \<Rightarrow> is_driverRef v \<noteq> None \<and> is_driverRef v \<noteq> Some [] \<and> is_hostRef v \<noteq> None)
               in if (case server of None \<Rightarrow> False | Some v \<Rightarrow> is_managedBy v \<noteq> None \<and> is_managedBy v \<noteq> Some [])
                  then (Inl invalidState, ips)
                  else if moves \<and> \<not> driverOk then (Inl hypervisorError, ips)
                  else
                    let ips' = update_ip i (\<lambda>q. q\<lparr>ip_serverId := None, ip_status := IpReserved, ip_floating := True,
                                                  ip_assignedAt := None\<rparr>) ips
                    in (mustOwn projectId i ips', ips')))"

definition releaseReserved :: "id \<Rightarrow> id \<Rightarrow> public_ip list \<Rightarrow> unit result \<times> public_ip list" where
  "releaseReserved projectId i ips =
     (case mustOwn projectId i ips of
        Inl e \<Rightarrow> (Inl e, ips)
      | Inr p \<Rightarrow> if ip_serverId p \<noteq> None \<and> ip_serverId p \<noteq> Some [] then (Inl invalidState, ips)
                 else (Inr (), release_ip i ips))"

section \<open>The pool stays consistent\<close>

definition row_ok :: "public_ip \<Rightarrow> bool" where
  "row_ok p \<longleftrightarrow>
     (ip_status p = IpAssigned \<longleftrightarrow> ip_serverId p \<noteq> None)
     \<and> (ip_status p = IpFree \<longleftrightarrow> ip_projectId p = None)"

definition pool_ok :: "public_ip list \<Rightarrow> bool" where
  "pool_ok ips \<longleftrightarrow> uniq ip_id ips \<and> (\<forall>p\<in>set ips. row_ok p)"

lemma pool_update:
  assumes "pool_ok ips" "\<And>p. ip_id (f p) = ip_id p" "\<And>p. p \<in> set ips \<Longrightarrow> P p \<Longrightarrow> row_ok p \<Longrightarrow> row_ok (f p)"
  shows "pool_ok (update_where P f ips)"
  using assms by (simp add: pool_ok_def uniq_update_where ball_update_where)

lemma taken_ok: "row_ok (taken projectId serverId now p)"
  by (cases serverId) (simp_all add: row_ok_def taken_def)

lemma freed_ok: "row_ok (freed p)"
  by (simp add: row_ok_def freed_def)

lemma ip_id_ops [simp]: "ip_id (taken pr sv now p) = ip_id p" "ip_id (freed p) = ip_id p"
  by (simp_all add: taken_def freed_def)

lemma reserve_attempts_pool:
  assumes "pool_ok ips" "\<And>k t. pool_ok t \<Longrightarrow> pool_ok (race k t)"
  shows "pool_ok (snd (reserve_attempts race regionId projectId serverId now n ips))"
  using assms(1)
proof (induction n arbitrary: ips)
  case (Suc n)
  have upd: "pool_ok (update_where hit (taken projectId serverId now) (race n ips))" for hit
    using assms(2) [OF Suc.prems] by (intro pool_update) (simp_all add: taken_ok)
  show ?case using Suc.prems Suc.IH [OF upd] upd by (auto simp: Let_def split: option.splits)
qed simp

lemma release_ip_pool: "pool_ok ips \<Longrightarrow> pool_ok (release_ip i ips)"
  unfolding release_ip_def update_ip_def by (intro pool_update) (simp_all add: freed_ok)

text \<open>A floating row that is on a server belongs to a project, so it can stay reserved for it.\<close>

lemma release_each_pool:
  assumes "pool_ok ips" "distinct (map ip_id ps)"
    and "\<forall>p\<in>set ps. \<exists>q\<in>set ips. ip_id q = ip_id p \<and> ip_serverId q \<noteq> None"
  shows "pool_ok (release_each ps ips)"
  using assms
proof (induction ps arbitrary: ips)
  case (Cons p ps)
  obtain q where q: "q \<in> set ips" "ip_id q = ip_id p" "ip_serverId q \<noteq> None" using Cons.prems(3) by auto
  have same: "r = q" if "r \<in> set ips" "ip_id r = ip_id p" for r
    using uniq_inj [of ip_id ips r q] Cons.prems(1) that q by (simp add: pool_ok_def)
  let ?ips = "if ip_floating p then update_ip (ip_id p) (\<lambda>q. q\<lparr>ip_serverId := None, ip_status := IpReserved\<rparr>) ips
              else release_ip (ip_id p) ips"
  have "row_ok q" using Cons.prems(1) q by (simp add: pool_ok_def)
  then have "pool_ok (update_ip (ip_id p) (\<lambda>q. q\<lparr>ip_serverId := None, ip_status := IpReserved\<rparr>) ips)"
    unfolding update_ip_def using Cons.prems(1) q(3)
    by (intro pool_update) (auto simp: row_ok_def dest!: same)
  then have "pool_ok ?ips" using release_ip_pool [OF Cons.prems(1)] by simp
  moreover have "\<exists>s\<in>set ?ips. ip_id s = ip_id r \<and> ip_serverId s \<noteq> None" if r: "r \<in> set ps" for r
  proof -
    obtain s where s: "s \<in> set ips" "ip_id s = ip_id r" "ip_serverId s \<noteq> None"
      using bspec [OF Cons.prems(3), of r] r by auto
    moreover have "ip_id r \<noteq> ip_id p" using Cons.prems(2) that by (auto simp: image_iff)
    ultimately have "s \<in> set ?ips" by (auto simp: update_ip_def release_ip_def in_update_where intro!: bexI [of _ s])
    with s show ?thesis by blast
  qed
  ultimately show ?case using Cons.IH [of ?ips] Cons.prems(2) by simp
qed simp

lemma release_server_pool: "pool_ok ips \<Longrightarrow> pool_ok (release_server_ips serverId ips)"
  unfolding release_server_ips_def
  by (rule release_each_pool) (auto simp: pool_ok_def uniq_def distinct_map inj_on_def)

lemma mustOwn_Inr: "mustOwn projectId i ips = Inr p \<Longrightarrow> p \<in> set ips \<and> ip_id p = i \<and> ip_projectId p = Some projectId"
  by (auto simp: mustOwn_def find_Some_iff split: option.splits if_splits)

text \<open>\<open>owned\<close>: while the request runs, the address stays with its project.\<close>

lemma attach_pool:
  assumes "pool_ok ips" "pool_ok (race ips)"
    and owned: "\<And>q. q \<in> set (race ips) \<Longrightarrow> ip_id q = i \<Longrightarrow> ip_projectId q \<noteq> None"
  shows "pool_ok (snd (attach race driverOk servers projectId i serverId now ips))"
proof -
  let ?claimed = "update_where (\<lambda>q. ip_id q = i \<and> ip_serverId q = None) (\<lambda>q. q\<lparr>ip_serverId := Some serverId,
      ip_status := IpAssigned, ip_floating := True, ip_assignedAt := Some now\<rparr>) (race ips)"
  have claimed: "pool_ok ?claimed"
    using assms(2) owned by (intro pool_update) (auto simp: row_ok_def)
  have "\<forall>q\<in>set ?claimed. ip_id q = i \<longrightarrow> ip_projectId q \<noteq> None"
    unfolding ball_update_where using owned by simp
  then have "pool_ok (update_where (\<lambda>q. ip_id q = i \<and> ip_serverId q = Some serverId)
      (\<lambda>q. q\<lparr>ip_serverId := None, ip_status := IpReserved, ip_assignedAt := None\<rparr>) ?claimed)"
    by (intro pool_update [OF claimed]) (auto simp: row_ok_def)
  then show ?thesis
    using assms(1,2) claimed by (simp add: attach_def Let_def split: sum.splits)
qed

lemma detach_pool:
  assumes "pool_ok ips"
  shows "pool_ok (snd (detach driverOk servers projectId i ips))"
proof -
  have "pool_ok (update_ip i (\<lambda>q. q\<lparr>ip_serverId := None, ip_status := IpReserved, ip_floating := True, ip_assignedAt := None\<rparr>) ips)"
    if "mustOwn projectId i ips = Inr p" for p
  proof -
    note p = mustOwn_Inr [OF that]
    have "r = p" if "r \<in> set ips" "ip_id r = i" for r
      using uniq_inj [of ip_id ips r p] assms that p by (simp add: pool_ok_def)
    then show ?thesis unfolding update_ip_def using assms p
      by (intro pool_update) (auto simp: row_ok_def)
  qed
  then show ?thesis using assms by (auto simp: detach_def Let_def split: sum.splits option.splits)
qed

lemma releaseReserved_pool: "pool_ok ips \<Longrightarrow> pool_ok (snd (releaseReserved projectId i ips))"
  by (auto simp: releaseReserved_def release_ip_pool split: sum.splits)

datatype pool_op = Reserve id id "id option" instant | ReleaseServer id
  | Attach bool "ip_server list" id id id instant | Detach bool "ip_server list" id id | ReleaseReserved id id

fun pool_step :: "pool_op \<Rightarrow> public_ip list \<Rightarrow> public_ip list" where
  "pool_step (Reserve regionId projectId serverId now) ips = snd (reserve (\<lambda>_ t. t) regionId projectId serverId now ips)"
| "pool_step (ReleaseServer serverId) ips = release_server_ips serverId ips"
| "pool_step (Attach driverOk servers projectId i serverId now) ips =
     snd (attach (\<lambda>t. t) driverOk servers projectId i serverId now ips)"
| "pool_step (Detach driverOk servers projectId i) ips = snd (detach driverOk servers projectId i ips)"
| "pool_step (ReleaseReserved projectId i) ips = snd (releaseReserved projectId i ips)"

lemma attach_alone_pool:
  assumes "pool_ok ips"
  shows "pool_ok (snd (attach (\<lambda>t. t) driverOk servers projectId i serverId now ips))"
proof (cases "mustOwn projectId i ips")
  case (Inr p)
  then have "q = p" if "q \<in> set ips" "ip_id q = i" for q
    using uniq_inj [of ip_id ips q p] assms that mustOwn_Inr [OF Inr] by (simp add: pool_ok_def)
  then show ?thesis using assms mustOwn_Inr [OF Inr] by (intro attach_pool) auto
qed (use assms in \<open>simp add: attach_def\<close>)

interpretation pool: guarded_system pool_ok pool_step
proof
  fix s op assume "pool_ok s"
  then show "pool_ok (pool_step op s)"
    by (cases op) (simp_all add: reserve_def reserve_attempts_pool release_server_pool attach_alone_pool detach_pool
        releaseReserved_pool)
qed

section \<open>An address is handed out once, whatever other requests do\<close>

lemma reserve_attempts_was_free:
  assumes "reserve_attempts race regionId projectId serverId now n ips = (Inr p, ips')"
    and "\<And>k t. uniq ip_id t \<Longrightarrow> uniq ip_id (race k t)" "uniq ip_id ips"
  shows "\<exists>t q. q \<in> set t \<and> ip_status q = IpFree \<and> ip_id q = ip_id p \<and> uniq ip_id t
    \<and> p = taken projectId serverId now q
    \<and> ips' = update_where (\<lambda>r. ip_id r = ip_id q) (taken projectId serverId now) t"
  using assms(1,3)
proof (induction n arbitrary: ips)
  case (Suc n)
  obtain c where c: "candidate regionId ips = Some c" using Suc.prems(1) by (auto split: option.splits)
  define hit where "hit = (\<lambda>p :: public_ip. ip_id p = ip_id c \<and> ip_status p = IpFree)"
  let ?t = "race n ips"
  let ?t' = "update_where hit (taken projectId serverId now) ?t"
  have u: "uniq ip_id ?t" using assms(2) Suc.prems(2) .
  show ?case
  proof (cases "count_where hit ?t = 1")
    case True
    then obtain q where q: "q \<in> set ?t" "hit q"
      using count_where_0_iff [of hit ?t] by force
    have "hit r \<longleftrightarrow> ip_id r = ip_id q" if "r \<in> set ?t" for r
      using uniq_inj [OF u that q(1)] q(2) by (auto simp: hit_def)
    then have upd: "?t' = update_where (\<lambda>r. ip_id r = ip_id q) (taken projectId serverId now) ?t"
      by (simp add: update_where_def)
    have "find_by ip_id (ip_id c) ?t' = Some (taken projectId serverId now q)"
      using find_by_uniq [OF u q(1)] q(2) unfolding upd by (simp add: find_by_update_where hit_def)
    then have "p = taken projectId serverId now q" "ips' = ?t'"
      using Suc.prems(1) c True by (simp_all add: Let_def hit_def)
    then show ?thesis using q u upd by (intro exI [of _ ?t] exI [of _ q]) (simp add: hit_def)
  next
    case False
    moreover have "uniq ip_id ?t'" using u by (simp add: uniq_update_where)
    ultimately show ?thesis using Suc.IH [of ?t'] Suc.prems(1) c by (simp add: Let_def hit_def)
  qed
qed simp

end
