(* ===== verification/Firewalls.thy ===== *)
theory Firewalls
  imports Json
begin

text \<open>
  Firewalls of servers (\<^verbatim>\<open>src/apps/api/src/modules/network/firewalls.service.ts\<close> and \<open>vipNetworkFor\<close> of
  \<^verbatim>\<open>src/apps/api/src/common/platform-agent.ts\<close>): rule rows, links to servers, the effective rules,
  the addresses each network card may send from, and pushing both to the hosts.

  The hypervisor driver is outside the source: a call either succeeds, and the host then holds the
  rules and addresses it was given, or it fails, for the servers whose reference is in \<open>down\<close>.
  \<open>isIP\<close> of \<open>node:net\<close> is a parameter.
\<close>

section \<open>State\<close>

datatype direction = Inbound | Outbound
datatype protocol = Tcp | Udp | Icmp | Vrrp | AnyProtocol

record rule_spec =
  rs_direction :: direction
  rs_protocol :: protocol
  rs_ports :: "string option"
  rs_cidrs :: "string list"

record rule_dto = rule_spec +
  rd_description :: "string option"

record rule_row =
  rr_firewallId :: id
  rr_direction :: direction
  rr_protocol :: protocol
  rr_ports :: "string option"
  rr_sources :: "string list"
  rr_destinations :: "string list"
  rr_description :: "string option"

record firewall =
  fw_id :: id
  fw_projectId :: id
  fw_name :: string

record fw_server =
  fsv_id :: id
  fsv_projectId :: id
  fsv_ready :: bool
  fsv_hostRef :: "string option"
  fsv_driverRef :: "string option"
  fsv_privateIp :: "string option"
  fsv_managedBy :: "string option"
  fsv_publicIps :: "string list"

type_synonym nics = "(string \<times> string list) list"

record fw_state =
  fs_firewalls :: "firewall list"
  fs_rules :: "rule_row list"
  fs_links :: "(id \<times> id) list"
  fs_servers :: "fw_server list"
  fs_vips :: "((string \<times> id) \<times> string option) list"
  fs_applied :: "string \<Rightarrow> (rule_spec list \<times> nics option) option"

definition everywhere :: "string list" where "everywhere = [''0.0.0.0/0'', ''::/0'']"

definition DEFAULT_RULES :: "rule_spec list" where
  "DEFAULT_RULES =
    [\<lparr> rs_direction = Inbound, rs_protocol = Tcp, rs_ports = Some ''22'', rs_cidrs = everywhere \<rparr>,
     \<lparr> rs_direction = Inbound, rs_protocol = Tcp, rs_ports = Some ''80'', rs_cidrs = everywhere \<rparr>,
     \<lparr> rs_direction = Inbound, rs_protocol = Tcp, rs_ports = Some ''443'', rs_cidrs = everywhere \<rparr>,
     \<lparr> rs_direction = Inbound, rs_protocol = Icmp, rs_ports = None, rs_cidrs = everywhere \<rparr>,
     \<lparr> rs_direction = Outbound, rs_protocol = AnyProtocol, rs_ports = None, rs_cidrs = everywhere \<rparr>]"

section \<open>Rules\<close>

text \<open>An empty text of ports is false in the test and stored as given.\<close>
definition toRow :: "id \<Rightarrow> rule_dto \<Rightarrow> rule_row result" where
  "toRow fid r =
     (if (case rs_ports r of None \<Rightarrow> False | Some p \<Rightarrow> p \<noteq> []) \<and> rs_protocol r \<notin> {Tcp, Udp} then Inl invalid
      else Inr \<lparr> rr_firewallId = fid, rr_direction = rs_direction r, rr_protocol = rs_protocol r, rr_ports = rs_ports r,
                 rr_sources = (if rs_direction r = Inbound then rs_cidrs r else []),
                 rr_destinations = (if rs_direction r = Outbound then rs_cidrs r else []),
                 rr_description = rd_description r \<rparr>)"

fun toRows :: "id \<Rightarrow> rule_dto list \<Rightarrow> rule_row list result" where
  "toRows fid [] = Inr []"
| "toRows fid (r # rs) =
     (case toRow fid r of
        Inl e \<Rightarrow> Inl e
      | Inr row \<Rightarrow> (case toRows fid rs of Inl e \<Rightarrow> Inl e | Inr rows \<Rightarrow> Inr (row # rows)))"

definition spec_of :: "rule_row \<Rightarrow> rule_spec" where
  "spec_of r = \<lparr> rs_direction = rr_direction r, rs_protocol = rr_protocol r, rs_ports = rr_ports r,
                 rs_cidrs = (if rr_direction r = Inbound then rr_sources r else rr_destinations r) \<rparr>"

definition server_rules :: "id \<Rightarrow> fw_state \<Rightarrow> rule_row list" where
  "server_rules sid st = filter (\<lambda>r. (rr_firewallId r, sid) \<in> set (fs_links st)) (fs_rules st)"

definition effectiveRules :: "id \<Rightarrow> fw_state \<Rightarrow> rule_spec list" where
  "effectiveRules sid st =
     (let rows = server_rules sid st in if rows = [] then DEFAULT_RULES else map spec_of rows)"

section \<open>Addresses of the network cards\<close>

definition vipNetworkFor :: "(string \<Rightarrow> nat) \<Rightarrow> string option \<Rightarrow> bool" where
  "vipNetworkFor isIP address =
     (case address of
        None \<Rightarrow> False
      | Some s \<Rightarrow>
          s \<noteq> [] \<and> isIP s = 4
          \<and> (case map js_Number (split_on (CHR ''.'') s) of
               Some a # rest \<Rightarrow>
                 a = 10
                 \<or> (case rest of
                      Some b # _ \<Rightarrow> a = 172 \<and> 16 \<le> b \<and> b \<le> 31 \<or> a = 192 \<and> b = 168
                    | _ \<Rightarrow> False)
             | _ \<Rightarrow> False))"

definition clusterVip :: "string option \<Rightarrow> fw_state \<Rightarrow> string option" where
  "clusterVip managedBy st =
     (case split_on (CHR '':'') (case managedBy of None \<Rightarrow> [] | Some m \<Rightarrow> m) of
        kind # cid # _ \<Rightarrow>
          if cid \<noteq> [] \<and> kind \<in> {''lb'', ''db'', ''k8s''} then Option.bind (map_of (fs_vips st) (kind, cid)) id else None
      | _ \<Rightarrow> None)"

fun add_address :: "string \<Rightarrow> string \<Rightarrow> nics \<Rightarrow> nics" where
  "add_address nic a [] = [(nic, [a])]"
| "add_address nic a ((n, as) # r) =
     (if n = nic then (n, if a \<in> set as then as else as @ [a]) # r else (n, as) # add_address nic a r)"

definition nicAddresses :: "(string \<Rightarrow> nat) \<Rightarrow> id \<Rightarrow> fw_state \<Rightarrow> nics option" where
  "nicAddresses isIP sid st =
     (case find_by fsv_id sid (fs_servers st) of
        None \<Rightarrow> None
      | Some s \<Rightarrow>
          (let n0 = (case fsv_privateIp s of None \<Rightarrow> [] | Some [] \<Rightarrow> [] | Some p \<Rightarrow> add_address ''net0'' p []);
               n1 = fold (add_address ''net1'') (fsv_publicIps s) n0;
               vip = clusterVip (fsv_managedBy s) st;
               n2 = (case vip of
                       None \<Rightarrow> n1
                     | Some [] \<Rightarrow> n1
                     | Some v \<Rightarrow> add_address (if vipNetworkFor isIP vip then ''net0'' else ''net1'') v n1)
           in if n2 = [] then None else Some n2))"

section \<open>Pushing to the hosts\<close>

definition driver_error :: error where "driver_error = JsError ''driver''"

definition applyToServer :: "(string \<Rightarrow> nat) \<Rightarrow> string set \<Rightarrow> id \<Rightarrow> fw_state \<Rightarrow> unit result \<times> fw_state" where
  "applyToServer isIP down sid st =
     (case find_by fsv_id sid (fs_servers st) of
        None \<Rightarrow> (Inr (), st)
      | Some s \<Rightarrow>
          (case (fsv_hostRef s, fsv_driverRef s) of
             (Some h, Some d) \<Rightarrow>
               if \<not> fsv_ready s \<or> d = [] then (Inr (), st)
               else if d \<in> down then (Inl driver_error, st)
               else (Inr (), st\<lparr> fs_applied := (fs_applied st)(d := Some (effectiveRules sid st, nicAddresses isIP sid st)) \<rparr>)
           | _ \<Rightarrow> (Inr (), st)))"

fun apply_each :: "(string \<Rightarrow> nat) \<Rightarrow> string set \<Rightarrow> id list \<Rightarrow> fw_state \<Rightarrow> unit result \<times> fw_state" where
  "apply_each isIP down [] st = (Inr (), st)"
| "apply_each isIP down (sid # sids) st =
     (case applyToServer isIP down sid st of
        (Inl e, st1) \<Rightarrow> (Inl e, st1)
      | (Inr _, st1) \<Rightarrow> apply_each isIP down sids st1)"

definition linked_servers :: "id \<Rightarrow> fw_state \<Rightarrow> id list" where
  "linked_servers fid st = map snd (filter (\<lambda>l. fst l = fid) (fs_links st))"

definition pushToServers :: "(string \<Rightarrow> nat) \<Rightarrow> string set \<Rightarrow> id \<Rightarrow> fw_state \<Rightarrow> unit result \<times> fw_state" where
  "pushToServers isIP down fid st = apply_each isIP down (linked_servers fid st) st"

section \<open>Operations\<close>

definition get_firewall :: "id \<Rightarrow> id \<Rightarrow> fw_state \<Rightarrow> firewall result" where
  "get_firewall projectId fid st =
     (case List.find (\<lambda>f. fw_id f = fid \<and> fw_projectId f = projectId) (fs_firewalls st) of
        None \<Rightarrow> Inl notFound
      | Some f \<Rightarrow> Inr f)"

definition create_firewall :: "id \<Rightarrow> string \<Rightarrow> rule_dto list \<Rightarrow> id \<Rightarrow> fw_state \<Rightarrow> firewall result \<times> fw_state" where
  "create_firewall projectId name rules newId st =
     (case toRows newId rules of
        Inl e \<Rightarrow> (Inl e, st)
      | Inr rows \<Rightarrow>
          (let f = \<lparr> fw_id = newId, fw_projectId = projectId, fw_name = name \<rparr>
           in (Inr f, st\<lparr> fs_firewalls := fs_firewalls st @ [f], fs_rules := fs_rules st @ rows \<rparr>)))"

definition replaceRules ::
  "(string \<Rightarrow> nat) \<Rightarrow> string set \<Rightarrow> id \<Rightarrow> id \<Rightarrow> rule_dto list \<Rightarrow> fw_state \<Rightarrow> unit result \<times> fw_state" where
  "replaceRules isIP down projectId fid rules st =
     (case get_firewall projectId fid st of
        Inl e \<Rightarrow> (Inl e, st)
      | Inr _ \<Rightarrow>
          (case toRows fid rules of
             Inl e \<Rightarrow> (Inl e, st)
           | Inr rows \<Rightarrow>
               pushToServers isIP down fid
                 (st\<lparr> fs_rules := filter (\<lambda>r. rr_firewallId r \<noteq> fid) (fs_rules st) @ rows \<rparr>)))"

definition attach_firewall ::
  "(string \<Rightarrow> nat) \<Rightarrow> string set \<Rightarrow> id \<Rightarrow> id \<Rightarrow> id \<Rightarrow> fw_state \<Rightarrow> unit result \<times> fw_state" where
  "attach_firewall isIP down projectId fid sid st =
     (case get_firewall projectId fid st of
        Inl e \<Rightarrow> (Inl e, st)
      | Inr _ \<Rightarrow>
          (case List.find (\<lambda>s. fsv_id s = sid \<and> fsv_projectId s = projectId) (fs_servers st) of
             None \<Rightarrow> (Inl notFound, st)
           | Some _ \<Rightarrow>
               applyToServer isIP down sid
                 (st\<lparr> fs_links := (if (fid, sid) \<in> set (fs_links st) then fs_links st else fs_links st @ [(fid, sid)]) \<rparr>)))"

definition detach_firewall ::
  "(string \<Rightarrow> nat) \<Rightarrow> string set \<Rightarrow> id \<Rightarrow> id \<Rightarrow> id \<Rightarrow> fw_state \<Rightarrow> unit result \<times> fw_state" where
  "detach_firewall isIP down projectId fid sid st =
     (case get_firewall projectId fid st of
        Inl e \<Rightarrow> (Inl e, st)
      | Inr _ \<Rightarrow> applyToServer isIP down sid (st\<lparr> fs_links := filter (\<lambda>l. l \<noteq> (fid, sid)) (fs_links st) \<rparr>))"

text \<open>Deleting the row cascades to its rules and links.\<close>
definition remove_firewall :: "(string \<Rightarrow> nat) \<Rightarrow> string set \<Rightarrow> id \<Rightarrow> id \<Rightarrow> fw_state \<Rightarrow> unit result \<times> fw_state" where
  "remove_firewall isIP down projectId fid st =
     (case get_firewall projectId fid st of
        Inl e \<Rightarrow> (Inl e, st)
      | Inr _ \<Rightarrow>
          apply_each isIP down (linked_servers fid st)
            (st\<lparr> fs_firewalls := filter (\<lambda>f. fw_id f \<noteq> fid) (fs_firewalls st),
                 fs_rules := filter (\<lambda>r. rr_firewallId r \<noteq> fid) (fs_rules st),
                 fs_links := filter (\<lambda>l. fst l \<noteq> fid) (fs_links st) \<rparr>))"

section \<open>Hosts hold the effective rules\<close>

text \<open>The driver reference of a server the rules are pushed to.\<close>
definition pushed_ref :: "fw_server \<Rightarrow> string option" where
  "pushed_ref s =
     (case (fsv_hostRef s, fsv_driverRef s) of (Some _, Some d) \<Rightarrow> if fsv_ready s \<and> d \<noteq> [] then Some d else None | _ \<Rightarrow> None)"

definition in_sync :: "fw_state \<Rightarrow> bool" where
  "in_sync st \<longleftrightarrow>
     (\<forall>s\<in>set (fs_servers st). \<forall>d. pushed_ref s = Some d \<longrightarrow> map_option fst (fs_applied st d) = Some (effectiveRules (fsv_id s) st))"

text \<open>The servers whose host does not hold the rules the tables give for them.\<close>
definition stale :: "fw_state \<Rightarrow> id set" where
  "stale st = {fsv_id s | s d. s \<in> set (fs_servers st) \<and> pushed_ref s = Some d
     \<and> map_option fst (fs_applied st d) \<noteq> Some (effectiveRules (fsv_id s) st)}"

lemma in_sync_stale: "in_sync st \<longleftrightarrow> stale st = {}"
  by (auto simp: in_sync_def stale_def)

text \<open>Server ids and driver references identify a server.\<close>
definition servers_ok :: "fw_state \<Rightarrow> bool" where
  "servers_ok st \<longleftrightarrow>
     uniq fsv_id (fs_servers st)
     \<and> (\<forall>s\<in>set (fs_servers st). \<forall>t\<in>set (fs_servers st). pushed_ref s \<noteq> None \<and> pushed_ref s = pushed_ref t \<longrightarrow> s = t)"

definition sync_except :: "id set \<Rightarrow> fw_state \<Rightarrow> bool" where
  "sync_except sids st \<longleftrightarrow> stale st \<subseteq> sids"

lemma sync_except_iff:
  "sync_except sids st \<longleftrightarrow>
     (\<forall>s\<in>set (fs_servers st). \<forall>d. fsv_id s \<notin> sids \<longrightarrow> pushed_ref s = Some d
        \<longrightarrow> map_option fst (fs_applied st d) = Some (effectiveRules (fsv_id s) st))"
  unfolding sync_except_def stale_def by blast

lemma in_sync_except: "in_sync st \<longleftrightarrow> sync_except {} st"
  by (simp add: in_sync_stale sync_except_def)

lemma applyToServer_same:
  assumes "applyToServer isIP down sid st = (r, st')"
  shows "fs_rules st' = fs_rules st" "fs_links st' = fs_links st" "fs_servers st' = fs_servers st" "fs_firewalls st' = fs_firewalls st"
  using assms unfolding applyToServer_def by (auto split: option.splits if_splits)

lemma effectiveRules_cong:
  "fs_rules st' = fs_rules st \<Longrightarrow> fs_links st' = fs_links st \<Longrightarrow> effectiveRules sid st' = effectiveRules sid st"
  by (simp add: effectiveRules_def server_rules_def)

lemma applyToServer_sync:
  assumes "applyToServer isIP down sid st = (Inr u, st')" "servers_ok st" "sync_except sids st"
  shows "sync_except (sids - {sid}) st'"
  unfolding sync_except_iff
proof (intro ballI allI impI)
  fix s d assume s: "s \<in> set (fs_servers st')" "fsv_id s \<notin> sids - {sid}" "pushed_ref s = Some d"
  note same = applyToServer_same [OF assms(1)]
  have eff: "effectiveRules i st' = effectiveRules i st" for i by (rule effectiveRules_cong [OF same(1,2)])
  have s': "s \<in> set (fs_servers st)" using s(1) same(3) by simp
  show "map_option fst (fs_applied st' d) = Some (effectiveRules (fsv_id s) st')"
  proof (cases "fsv_id s = sid")
    case True
    then have "find_by fsv_id sid (fs_servers st) = Some s"
      using find_by_uniq [of fsv_id "fs_servers st" s] s' assms(2) by (simp add: servers_ok_def)
    then have "fs_applied st' d = Some (effectiveRules sid st, nicAddresses isIP sid st)"
      using assms(1) s(3) by (auto simp: applyToServer_def pushed_ref_def split: option.splits if_splits)
    then show ?thesis using True eff by simp
  next
    case False
    have "fs_applied st' d = fs_applied st d"
    proof (cases "fs_applied st' = fs_applied st")
      case False
      then obtain t e where t: "find_by fsv_id sid (fs_servers st) = Some t" "pushed_ref t = Some e"
        "fs_applied st' = (fs_applied st)(e := Some (effectiveRules sid st, nicAddresses isIP sid st))"
        using assms(1) by (auto simp: applyToServer_def pushed_ref_def split: option.splits if_splits)
      then have "t \<in> set (fs_servers st)" "fsv_id t = sid" using find_by_Some [OF t(1)] by auto
      then have "d \<noteq> e" using assms(2) s' s(3) t(2) \<open>fsv_id s \<noteq> sid\<close> unfolding servers_ok_def by force
      then show ?thesis using t(3) by simp
    qed simp
    then show ?thesis using assms(3) s' s(2,3) False eff unfolding sync_except_iff by auto
  qed
qed

lemma servers_ok_cong: "fs_servers st' = fs_servers st \<Longrightarrow> servers_ok st' \<longleftrightarrow> servers_ok st"
  by (simp only: servers_ok_def)

lemma applyToServer_failed: "applyToServer isIP down sid st = (Inl e, st') \<Longrightarrow> st' = st"
  by (auto simp: applyToServer_def split: option.splits if_splits)

lemma sync_except_mono: "sync_except S st \<Longrightarrow> S \<subseteq> T \<Longrightarrow> sync_except T st"
  by (auto simp: sync_except_def)

text \<open>Pushing to a list of servers leaves none of them stale, and a push that fails makes none stale.\<close>

lemma apply_each_sync:
  assumes "apply_each isIP down todo st = (r, st')" "servers_ok st" "sync_except sids st"
  shows "sync_except (if r = Inr () then sids - set todo else sids) st'"
  using assms
proof (induction todo arbitrary: st sids)
  case (Cons sid todo)
  obtain r1 st1 where st1: "applyToServer isIP down sid st = (r1, st1)" by fastforce
  show ?case
  proof (cases r1)
    case (Inl e)
    then show ?thesis using Cons.prems st1 applyToServer_failed [of isIP down sid st e st1] by auto
  next
    case (Inr u)
    have go: "apply_each isIP down todo st1 = (r, st')" using Cons.prems(1) st1 Inr by simp
    have "servers_ok st1" using Cons.prems(2) servers_ok_cong [OF applyToServer_same(3) [OF st1]] by simp
    moreover have "sync_except (sids - {sid}) st1" by (rule applyToServer_sync [OF st1 [unfolded Inr] Cons.prems(2,3)])
    ultimately have *: "sync_except (if r = Inr () then sids - {sid} - set todo else sids - {sid}) st'" by (rule Cons.IH [OF go])
    have "sids - insert sid (set todo) = sids - {sid} - set todo" by blast
    then show ?thesis using * by (cases "r = Inr ()") (auto intro: sync_except_mono)
  qed
qed simp

text \<open>Changing rules or links of one firewall leaves the servers it is not linked to as they were.\<close>
lemma sync_except_change:
  assumes "sync_except S st" "fs_servers st' = fs_servers st" "fs_applied st' = fs_applied st"
    and "\<And>sid. sid \<notin> sids \<Longrightarrow> server_rules sid st' = server_rules sid st"
  shows "sync_except (S \<union> sids) st'"
  using assms unfolding sync_except_iff effectiveRules_def by (simp add: Let_def)

text \<open>What a request owes: the servers it touches end in step with the tables, and no other falls behind.\<close>

definition settles :: "id set \<Rightarrow> id set \<Rightarrow> unit result \<Rightarrow> fw_state \<Rightarrow> bool" where
  "settles S touched r st' \<longleftrightarrow> sync_except (if r = Inr () then S - touched else S \<union> touched) st'"

lemma push_settles:
  assumes "apply_each isIP down todo st = (r, st')" "servers_ok st" "sync_except (S \<union> set todo) st"
  shows "settles S (set todo) r st'"
  using apply_each_sync [OF assms] by (auto simp: settles_def Un_Diff split: if_splits)

lemma refused_settles: "sync_except S st \<Longrightarrow> settles S touched (Inl e) st"
  by (auto simp: settles_def intro: sync_except_mono)

lemma toRows_firewall: "toRows fid rs = Inr rows \<Longrightarrow> r \<in> set rows \<Longrightarrow> rr_firewallId r = fid"
  by (induction rs arbitrary: rows) (auto simp: toRow_def split: if_splits sum.splits)

lemma replaceRules_settles:
  assumes "replaceRules isIP down projectId fid rules st = (r, st')" "servers_ok st" "sync_except S st"
  shows "settles S (set (linked_servers fid st)) r st'"
proof (cases "r \<noteq> Inr () \<and> st' = st")
  case True
  then show ?thesis using assms(3) by (cases r) (auto intro: refused_settles)
next
  case False
  then obtain rows where rows: "toRows fid rules = Inr rows"
    and push: "pushToServers isIP down fid (st\<lparr> fs_rules := filter (\<lambda>r. rr_firewallId r \<noteq> fid) (fs_rules st) @ rows \<rparr>) = (r, st')"
    using assms(1) by (auto simp: replaceRules_def split: sum.splits)
  let ?st = "st\<lparr> fs_rules := filter (\<lambda>r. rr_firewallId r \<noteq> fid) (fs_rules st) @ rows \<rparr>"
  have linked: "linked_servers fid ?st = linked_servers fid st" by (simp add: linked_servers_def)
  have sync: "sync_except (S \<union> set (linked_servers fid st)) ?st"
  proof (rule sync_except_change [OF assms(3)])
    fix sid assume "sid \<notin> set (linked_servers fid st)"
    then have no: "(fid, sid) \<notin> set (fs_links st)" by (force simp: linked_servers_def)
    then have "filter (\<lambda>r. (rr_firewallId r, sid) \<in> set (fs_links st)) rows = []"
      using toRows_firewall [OF rows] by (auto simp: filter_empty_conv)
    moreover have "filter (\<lambda>r. (rr_firewallId r, sid) \<in> set (fs_links st)) (filter (\<lambda>r. rr_firewallId r \<noteq> fid) (fs_rules st))
       = filter (\<lambda>r. (rr_firewallId r, sid) \<in> set (fs_links st)) (fs_rules st)"
      using no by (auto intro!: filter_cong simp: filter_filter)
    ultimately show "server_rules sid ?st = server_rules sid st" by (simp add: server_rules_def)
  qed simp_all
  have ok: "servers_ok ?st" using assms(2) by (rule servers_ok_cong [THEN iffD2, rotated]) simp
  show ?thesis by (rule push_settles [OF push [unfolded pushToServers_def linked] ok sync])
qed

lemma apply_one: "applyToServer isIP down sid st = (r, st') \<Longrightarrow> apply_each isIP down [sid] st = (r, st')"
  by (cases r) simp_all

lemma attach_settles:
  assumes "attach_firewall isIP down projectId fid sid st = (r, st')" "servers_ok st" "sync_except S st"
  shows "settles S {sid} r st'"
proof (cases "r \<noteq> Inr () \<and> st' = st")
  case True
  then show ?thesis using assms(3) by (cases r) (auto intro: refused_settles)
next
  case False
  let ?st = "st\<lparr> fs_links := (if (fid, sid) \<in> set (fs_links st) then fs_links st else fs_links st @ [(fid, sid)]) \<rparr>"
  have go: "applyToServer isIP down sid ?st = (r, st')"
    using assms(1) False by (auto simp: attach_firewall_def split: sum.splits option.splits)
  have sync: "sync_except (S \<union> {sid}) ?st" by (rule sync_except_change [OF assms(3)]) (auto simp: server_rules_def intro!: filter_cong)
  have ok: "servers_ok ?st" using assms(2) by (rule servers_ok_cong [THEN iffD2, rotated]) simp
  show ?thesis using push_settles [OF apply_one [OF go] ok] sync by simp
qed

lemma detach_settles:
  assumes "detach_firewall isIP down projectId fid sid st = (r, st')" "servers_ok st" "sync_except S st"
  shows "settles S {sid} r st'"
proof (cases "r \<noteq> Inr () \<and> st' = st")
  case True
  then show ?thesis using assms(3) by (cases r) (auto intro: refused_settles)
next
  case False
  let ?st = "st\<lparr> fs_links := filter (\<lambda>l. l \<noteq> (fid, sid)) (fs_links st) \<rparr>"
  have go: "applyToServer isIP down sid ?st = (r, st')"
    using assms(1) False by (auto simp: detach_firewall_def split: sum.splits)
  have sync: "sync_except (S \<union> {sid}) ?st" by (rule sync_except_change [OF assms(3)]) (auto simp: server_rules_def intro!: filter_cong)
  have ok: "servers_ok ?st" using assms(2) by (rule servers_ok_cong [THEN iffD2, rotated]) simp
  show ?thesis using push_settles [OF apply_one [OF go] ok] sync by simp
qed

lemma remove_settles:
  assumes "remove_firewall isIP down projectId fid st = (r, st')" "servers_ok st" "sync_except S st"
  shows "settles S (set (linked_servers fid st)) r st'"
proof (cases "r \<noteq> Inr () \<and> st' = st")
  case True
  then show ?thesis using assms(3) by (cases r) (auto intro: refused_settles)
next
  case False
  let ?st = "st\<lparr> fs_firewalls := filter (\<lambda>f. fw_id f \<noteq> fid) (fs_firewalls st),
                 fs_rules := filter (\<lambda>r. rr_firewallId r \<noteq> fid) (fs_rules st), fs_links := filter (\<lambda>l. fst l \<noteq> fid) (fs_links st) \<rparr>"
  have go: "apply_each isIP down (linked_servers fid st) ?st = (r, st')"
    using assms(1) False by (auto simp: remove_firewall_def split: sum.splits)
  have sync: "sync_except (S \<union> set (linked_servers fid st)) ?st"
  proof (rule sync_except_change [OF assms(3)])
    fix sid assume "sid \<notin> set (linked_servers fid st)"
    then have "(fid, sid) \<notin> set (fs_links st)" by (force simp: linked_servers_def)
    then show "server_rules sid ?st = server_rules sid st" by (auto simp: server_rules_def filter_filter intro!: filter_cong)
  qed simp_all
  have ok: "servers_ok ?st" using assms(2) by (rule servers_ok_cong [THEN iffD2, rotated]) simp
  show ?thesis by (rule push_settles [OF go ok sync])
qed

lemma create_settles:
  assumes "create_firewall projectId name rules newId st = (r, st')" "sync_except S st" "newId \<notin> fst ` set (fs_links st)"
  shows "sync_except S st'"
proof (cases r)
  case (Inl e)
  then show ?thesis using assms(1,2) by (auto simp: create_firewall_def Let_def split: sum.splits)
next
  case (Inr f)
  then obtain rows where rows: "toRows newId rules = Inr rows"
    and st': "st' = st\<lparr> fs_firewalls := fs_firewalls st @ [f], fs_rules := fs_rules st @ rows \<rparr>"
    using assms(1) by (auto simp: create_firewall_def Let_def split: sum.splits)
  have "sync_except (S \<union> {}) st'"
  proof (rule sync_except_change [OF assms(2)])
    fix sid
    have "filter (\<lambda>r. (rr_firewallId r, sid) \<in> set (fs_links st)) rows = []"
      using toRows_firewall [OF rows] assms(3) by (force simp: filter_empty_conv)
    then show "server_rules sid st' = server_rules sid st" by (simp add: server_rules_def st')
  qed (simp_all add: st')
  then show ?thesis by simp
qed

text \<open>What a rule says survives the trip through its row.\<close>
lemma spec_of_toRow:
  "toRow fid r = Inr row \<Longrightarrow> spec_of row = rule_spec.truncate r"
  by (cases r) (auto simp: toRow_def spec_of_def rule_spec.truncate_def split: if_splits direction.split intro: direction.exhaust [of "rs_direction r"])

section \<open>Sequences of requests\<close>

text \<open>
  The requests a project sends.  Identifiers of new firewalls come from the database and are fresh; a request
  with a used identifier is answered without effect.
\<close>

datatype fw_op = CreateFw id string "rule_dto list" id | ReplaceRules id id "rule_dto list" | AttachFw id id id
  | DetachFw id id id | RemoveFw id id

fun fw_call :: "(string \<Rightarrow> nat) \<Rightarrow> string set \<Rightarrow> fw_op \<Rightarrow> fw_state \<Rightarrow> unit result \<times> fw_state" where
  "fw_call isIP down (CreateFw projectId name rules newId) st =
     (if newId \<in> fst ` set (fs_links st) then (Inl invalid, st)
      else apfst (map_sum id (\<lambda>_. ())) (create_firewall projectId name rules newId st))"
| "fw_call isIP down (ReplaceRules projectId fid rules) st = replaceRules isIP down projectId fid rules st"
| "fw_call isIP down (AttachFw projectId fid sid) st = attach_firewall isIP down projectId fid sid st"
| "fw_call isIP down (DetachFw projectId fid sid) st = detach_firewall isIP down projectId fid sid st"
| "fw_call isIP down (RemoveFw projectId fid) st = remove_firewall isIP down projectId fid st"

text \<open>The servers whose rules a request can change, which are the ones it pushes to.\<close>

fun touched :: "fw_op \<Rightarrow> fw_state \<Rightarrow> id set" where
  "touched (CreateFw projectId name rules newId) st = {}"
| "touched (ReplaceRules projectId fid rules) st = set (linked_servers fid st)"
| "touched (AttachFw projectId fid sid) st = {sid}"
| "touched (DetachFw projectId fid sid) st = {sid}"
| "touched (RemoveFw projectId fid) st = set (linked_servers fid st)"

lemma fw_call_settles:
  assumes "fw_call isIP down op st = (r, st')" "servers_ok st" "sync_except S st"
  shows "settles S (touched op st) r st'"
proof (cases op)
  case (CreateFw projectId name rules newId)
  then show ?thesis
    using assms create_settles [of projectId name rules newId st _ st' S]
    by (cases "create_firewall projectId name rules newId st") (auto simp: settles_def split: if_splits)
qed (use assms replaceRules_settles attach_settles detach_settles remove_settles in auto)

lemma fw_call_stale:
  assumes "fw_call isIP down op st = (r, st')" "servers_ok st"
  shows "stale st' \<subseteq> stale st \<union> touched op st \<and> (r = Inr () \<longrightarrow> stale st' \<subseteq> stale st - touched op st)"
  using fw_call_settles [OF assms, of "stale st"] by (auto simp: settles_def sync_except_def split: if_splits)

lemma fw_call_sync:
  assumes "fw_call isIP down op st = (Inr u, st')" "servers_ok st" "in_sync st"
  shows "in_sync st'"
  using fw_call_stale [OF assms(1,2)] assms(3) by (auto simp: in_sync_stale)

lemma apply_each_same:
  "apply_each isIP down sids st = (r, st') \<Longrightarrow> fs_servers st' = fs_servers st"
  by (induction sids arbitrary: st) (auto dest: applyToServer_same(3) split: prod.splits sum.splits)

lemma fw_call_servers: "fw_call isIP down op st = (r, st') \<Longrightarrow> fs_servers st' = fs_servers st"
  by (cases op)
    (auto simp: create_firewall_def replaceRules_def attach_firewall_def detach_firewall_def remove_firewall_def
      pushToServers_def Let_def dest!: apply_each_same applyToServer_same(3) split: if_splits sum.splits option.splits)

text \<open>When every host answers, a request fails only before it changes anything.\<close>

lemma applyToServer_up: "fst (applyToServer isIP {} sid st) = Inr ()"
  by (auto simp: applyToServer_def split: option.splits)

lemma apply_each_up: "fst (apply_each isIP {} sids st) = Inr ()"
proof (induction sids arbitrary: st)
  case (Cons sid sids)
  then show ?case using applyToServer_up [of isIP sid st] by (cases "applyToServer isIP {} sid st") auto
qed simp

lemma fw_call_failed:
  assumes "fw_call isIP {} op st = (Inl e, st')"
  shows "st' = st"
  using assms apply_each_up applyToServer_up
  by (cases op)
    (auto simp: create_firewall_def replaceRules_def attach_firewall_def detach_firewall_def remove_firewall_def
      pushToServers_def Let_def prod_eq_iff split: if_splits sum.splits option.splits)

definition wall_ok :: "fw_state \<Rightarrow> bool" where "wall_ok st \<longleftrightarrow> servers_ok st \<and> in_sync st"

lemma fw_call_wall:
  assumes "wall_ok st"
  shows "wall_ok (snd (fw_call isIP {} op st))"
proof (cases "fw_call isIP {} op st")
  case (Pair r st')
  note ok = assms [unfolded wall_ok_def]
  have "servers_ok st'" using ok servers_ok_cong [OF fw_call_servers [OF Pair]] by blast
  moreover have "in_sync st'"
  proof (cases r)
    case (Inl e)
    then show ?thesis using fw_call_failed [of isIP op st e st'] Pair ok by blast
  next
    case (Inr u)
    then show ?thesis using fw_call_sync [of isIP "{}" op st u st'] Pair ok by blast
  qed
  ultimately show ?thesis by (simp add: wall_ok_def Pair)
qed

interpretation wall: guarded_system wall_ok "\<lambda>op st. snd (fw_call isIP {} op st)" for isIP
  by unfold_locales (rule fw_call_wall)

end
