(* ===== verification/Sql_Guard.thy ===== *)
theory Sql_Guard
  imports Template
begin

text \<open>
  The checks a database tool runs before it sends a query
  (\<^verbatim>\<open>src/apps/api/src/modules/connect/tools/sql-guard.ts\<close>): the SQL tokenizer, the read only
  rules, the extraction of table names, the table allow list, and the MongoDB variant.

  The reason texts of the source are the constructors of \<open>refusal\<close>.  Positions in the token
  array are modelled by the suffix of the token list that starts there.
\<close>

section \<open>Tokens\<close>

datatype sql_token = Word string | Ident string | Punct char | Str string | Num string

datatype lexed = Skip string | Emit sql_token string | LexError string

text \<open>The body of a quoted literal: backslash escapes, doubled quotes; the value and what follows the closing quote.\<close>
fun scan_string :: "string \<Rightarrow> (string \<times> string) option" where
  "scan_string [] = None"
| "scan_string (c # s) =
     (if c = CHR 0x5C \<and> s \<noteq> [] then map_option (apfst ((#) (hd s))) (scan_string (tl s))
      else if c = CHR 0x27 then
        (if s \<noteq> [] \<and> hd s = CHR 0x27 then map_option (apfst ((#) (CHR 0x27))) (scan_string (tl s))
         else Some ([], s))
      else map_option (apfst ((#) c)) (scan_string s))"

fun scan_quoted :: "char \<Rightarrow> string \<Rightarrow> (string \<times> string) option" where
  "scan_quoted close [] = None"
| "scan_quoted close (c # s) =
     (if c = close then
        (if s \<noteq> [] \<and> hd s = close then map_option (apfst ((#) close)) (scan_quoted close (tl s))
         else Some ([], s))
      else map_option (apfst ((#) c)) (scan_quoted close s))"

definition str_tag_char :: "char \<Rightarrow> bool" where
  "str_tag_char c \<longleftrightarrow> is_alpha c \<or> c = CHR ''_''"

text \<open>The opening tag of a dollar quoted string, without the leading dollar.\<close>
definition dollar_tag :: "string \<Rightarrow> string option" where
  "dollar_tag s =
     (let t = takeWhile str_tag_char s
      in if startsWith (dropWhile str_tag_char s) ''$'' then Some (t @ ''$'') else None)"

definition sql_number :: "string \<Rightarrow> string" where
  "sql_number s =
     (let ip = takeWhile is_digit s; r = dropWhile is_digit s;
          fp = takeWhile is_digit (tl r)
      in if r \<noteq> [] \<and> hd r = CHR ''.'' \<and> fp \<noteq> [] then ip @ ''.'' @ fp else ip)"

definition word_rest :: "char \<Rightarrow> bool" where
  "word_rest c \<longleftrightarrow> is_word c \<or> c = CHR ''$''"

text \<open>The tail of the loop body: numbers, words, single characters.\<close>
definition lex_plain :: "char \<Rightarrow> string \<Rightarrow> lexed" where
  "lex_plain c r =
     (if is_digit c then (let n = sql_number (c # r) in Emit (Num n) (drop (length n) (c # r)))
      else if is_alpha c \<or> c = CHR ''_'' then
        Emit (Word (c # takeWhile word_rest r)) (dropWhile word_rest r)
      else Emit (Punct c) r)"

definition lex_string :: "string \<Rightarrow> lexed" where
  "lex_string r = (case scan_string r of None \<Rightarrow> LexError ''unclosed string literal'' | Some (v, r') \<Rightarrow> Emit (Str v) r')"

definition lex_dollar :: "string \<Rightarrow> lexed" where
  "lex_dollar r =
     (case dollar_tag r of
        None \<Rightarrow> Emit (Punct (CHR ''$'')) r
      | Some t \<Rightarrow>
          (let body = drop (length t) r in
           case indexOf body (CHR ''$'' # t) of
             None \<Rightarrow> LexError ''unclosed dollar quoted string''
           | Some e \<Rightarrow> Emit (Str (take e body)) (drop (e + length t + 1) body)))"

definition lex_comment :: "string \<Rightarrow> lexed" where
  "lex_comment r =
     (if startsWith r ''!'' \<or> startsWith r ''+'' then LexError ''executable comments are not allowed''
      else case indexOf r ''*/'' of
             None \<Rightarrow> LexError ''unclosed comment''
           | Some j \<Rightarrow> Skip (drop (j + 2) r))"

definition lex_one :: "char \<Rightarrow> string \<Rightarrow> lexed" where
  "lex_one c r =
     (if is_space c then Skip r
      else if startsWith (c # r) ''--'' \<or> c = CHR ''#'' then
        Skip (tl (dropWhile (\<lambda>x. x \<noteq> CHR 0x0A) (c # r)))
      else if startsWith (c # r) ''/*'' then lex_comment (drop 1 r)
      else if c = CHR 0x27 then lex_string r
      else if (c = CHR ''E'' \<or> c = CHR ''e'') \<and> startsWith r [CHR 0x27] then lex_string (drop 1 r)
      else if c = CHR ''$'' then lex_dollar r
      else if c = CHR 0x22 \<or> c = CHR 0x60 \<or> c = CHR ''['' then
        (case scan_quoted (if c = CHR ''['' then CHR '']'' else c) r of
           None \<Rightarrow> LexError ''unclosed quoted identifier''
         | Some (v, r') \<Rightarrow> Emit (Ident v) r')
      else lex_plain c r)"

lemma scan_string_shorter: "scan_string s = Some (v, r) \<Longrightarrow> length r < length s"
proof (induction s arbitrary: v rule: scan_string.induct)
  case (2 c s)
  then show ?case by (fastforce simp: neq_Nil_conv split: if_splits)
qed simp

lemma scan_quoted_shorter: "scan_quoted q s = Some (v, r) \<Longrightarrow> length r < length s"
proof (induction q s arbitrary: v rule: scan_quoted.induct)
  case (2 q c s)
  then show ?case by (fastforce simp: neq_Nil_conv split: if_splits)
qed simp

lemma sql_number_ne: "is_digit c \<Longrightarrow> sql_number (c # r) \<noteq> []"
  by (simp add: sql_number_def Let_def)

text \<open>A step of the tokenizer leaves at most the text that follows its first character.\<close>
definition leaves :: "string \<Rightarrow> lexed \<Rightarrow> bool" where
  "leaves r x \<longleftrightarrow> (case x of Skip r' \<Rightarrow> length r' \<le> length r | Emit _ r' \<Rightarrow> length r' \<le> length r | LexError _ \<Rightarrow> True)"

lemma leaves_simps [simp]:
  "leaves r (Skip r') \<longleftrightarrow> length r' \<le> length r"
  "leaves r (Emit t r') \<longleftrightarrow> length r' \<le> length r"
  "leaves r (LexError m)"
  by (simp_all add: leaves_def)

lemma leaves_if: "leaves r a \<Longrightarrow> leaves r b \<Longrightarrow> leaves r (if c then a else b)"
  by simp

lemma leaves_trans: "leaves (drop n r) x \<Longrightarrow> leaves r x"
  by (cases x) auto

lemma lex_plain_leaves: "leaves r (lex_plain c r)"
proof (cases "is_digit c")
  case True
  then have "1 \<le> length (sql_number (c # r))" using sql_number_ne [of c r] by (simp add: Suc_le_eq)
  then show ?thesis using True by (simp add: lex_plain_def Let_def)
next
  case False
  then show ?thesis by (simp add: lex_plain_def length_dropWhile_le)
qed

lemma lex_dollar_leaves: "leaves r (lex_dollar r)"
  by (simp add: lex_dollar_def Let_def split: option.split)

lemma lex_string_leaves: "leaves r (lex_string r)"
  by (auto simp: lex_string_def dest: scan_string_shorter split: option.split)

lemma lex_comment_leaves: "leaves r (lex_comment r)"
  by (simp add: lex_comment_def split: option.split)

lemma lex_line_leaves: "leaves r (Skip (tl (dropWhile P (c # r))))"
  using length_dropWhile_le [of P r] by (simp, linarith)

lemma lex_ident_leaves:
  "leaves r (case scan_quoted q r of None \<Rightarrow> LexError m | Some (v, r') \<Rightarrow> Emit (Ident v) r')"
  by (auto split: option.split dest: scan_quoted_shorter)

lemma lex_one_leaves: "leaves r (lex_one c r)"
  unfolding lex_one_def
  by (intro leaves_if lex_plain_leaves lex_dollar_leaves lex_string_leaves lex_line_leaves
      lex_ident_leaves leaves_trans [OF lex_comment_leaves] leaves_trans [OF lex_string_leaves]) simp

lemma lex_one_shorter:
  "lex_one c r = Skip r' \<Longrightarrow> length r' \<le> length r"
  "lex_one c r = Emit t r' \<Longrightarrow> length r' \<le> length r"
  using lex_one_leaves [of r c] by simp_all

function tokenizeSql :: "string \<Rightarrow> string + sql_token list" where
  "tokenizeSql [] = Inr []"
| "tokenizeSql (c # r) =
     (case lex_one c r of
        Skip r' \<Rightarrow> tokenizeSql r'
      | Emit t r' \<Rightarrow> map_sum id ((#) t) (tokenizeSql r')
      | LexError m \<Rightarrow> Inl m)"
  by pat_completeness auto
termination
  by (relation "measure length") (auto simp: less_Suc_eq_le dest: lex_one_shorter)

section \<open>Word lists\<close>

definition WRITE_WORDS :: "string list" where
  "WRITE_WORDS =
    [''insert'', ''update'', ''delete'', ''merge'', ''upsert'', ''drop'', ''alter'', ''create'', ''truncate'', ''grant'',
     ''revoke'', ''copy'', ''call'', ''execute'', ''exec'', ''prepare'', ''lock'', ''vacuum'', ''analyze'', ''analyse'',
     ''refresh'', ''reindex'', ''cluster'', ''notify'', ''listen'', ''outfile'', ''dumpfile'']"

definition DANGEROUS_FUNCTIONS :: "string list" where
  "DANGEROUS_FUNCTIONS =
    [''pg_read_file'', ''pg_read_binary_file'', ''pg_ls_dir'', ''pg_stat_file'', ''lo_import'', ''lo_export'', ''lo_get'',
     ''dblink'', ''dblink_exec'', ''pg_sleep'', ''pg_terminate_backend'', ''pg_cancel_backend'', ''set_config'',
     ''pg_reload_conf'', ''pg_rotate_logfile'', ''query_to_xml'', ''load_file'', ''sleep'', ''benchmark'', ''sys_exec'',
     ''sys_eval'', ''nextval'', ''setval'', ''txid_current'']"

definition READ_STARTS :: "string list" where
  "READ_STARTS = [''select'', ''with'', ''show'', ''explain'', ''describe'', ''desc'', ''values'', ''table'']"

definition SYSTEM_SCHEMAS :: "string list" where
  "SYSTEM_SCHEMAS = [''information_schema'', ''pg_catalog'', ''mysql'', ''performance_schema'', ''sys'']"

text \<open>Words that end a FROM list.\<close>
definition FROM_ENDS :: "string list" where
  "FROM_ENDS = [''where'', ''group'', ''order'', ''limit'', ''having'', ''union'', ''on'', ''select'', ''offset'', ''fetch'',
     ''window'', ''using'']"

section \<open>Names and words\<close>

definition lower :: "sql_token \<Rightarrow> string" where
  "lower t = (case t of Word w \<Rightarrow> toLowerCase w | _ \<Rightarrow> [])"

definition name_part :: "sql_token \<Rightarrow> string option" where
  "name_part t = (case t of Word w \<Rightarrow> Some (toLowerCase w) | Ident w \<Rightarrow> Some (toLowerCase w) | _ \<Rightarrow> None)"

text \<open>Whether the token list begins with the given punctuation mark.\<close>
definition punct_next :: "char \<Rightarrow> sql_token list \<Rightarrow> bool" where
  "punct_next c ts \<longleftrightarrow> ts \<noteq> [] \<and> hd ts = Punct c"

definition word_next :: "string \<Rightarrow> sql_token list \<Rightarrow> bool" where
  "word_next w ts \<longleftrightarrow> ts \<noteq> [] \<and> lower (hd ts) = w"

fun read_parts :: "sql_token list \<Rightarrow> string list \<times> sql_token list" where
  "read_parts [] = ([], [])"
| "read_parts (t # ts) =
     (case name_part t of
        None \<Rightarrow> ([], t # ts)
      | Some n \<Rightarrow> if punct_next (CHR ''.'') ts then apfst ((#) n) (read_parts (tl ts)) else ([n], ts))"

definition readName :: "sql_token list \<Rightarrow> (string \<times> sql_token list) option" where
  "readName ts = (let (parts, r) = read_parts ts in if parts = [] then None else Some (join ''.'' parts, r))"

section \<open>The checks\<close>

datatype refusal = BadToken string | ManyStatements | EmptyQuery | NotARead | WriteWord string | RowLock | SelectInto
  | Dangerous string | FunctionsInFrom "string list" | SystemTable string | DeniedTables "string list"

record sql_check =
  sc_ok :: bool
  sc_reason :: "refusal option"
  sc_tables :: "string list"

definition refused :: "refusal \<Rightarrow> string list \<Rightarrow> sql_check" where
  "refused why ts = \<lparr> sc_ok = False, sc_reason = Some why, sc_tables = ts \<rparr>"

definition first_word :: "sql_token list \<Rightarrow> string option" where
  "first_word ts = (case filter (\<lambda>w. w \<noteq> []) (map lower ts) of [] \<Rightarrow> None | w # _ \<Rightarrow> Some w)"

text \<open>The first write word that is neither called as a function nor qualified; \<open>dot\<close> says that a dot precedes.\<close>
fun write_word :: "bool \<Rightarrow> sql_token list \<Rightarrow> string option" where
  "write_word dot [] = None"
| "write_word dot (t # ts) =
     (if lower t \<in> set WRITE_WORDS \<and> \<not> punct_next (CHR ''('') ts \<and> \<not> dot then Some (lower t)
      else write_word (t = Punct (CHR ''.'')) ts)"

fun locks_rows :: "sql_token list \<Rightarrow> refusal option" where
  "locks_rows (t # u # ts) =
     (if lower t = ''for'' \<and> lower u \<in> {''update'', ''share'', ''no''} then Some RowLock
      else if lower t = ''into'' then Some SelectInto
      else locks_rows (u # ts))"
| "locks_rows _ = None"

fun dangerous_call :: "sql_token list \<Rightarrow> string option" where
  "dangerous_call (t # u # ts) =
     (if lower t \<in> set DANGEROUS_FUNCTIONS \<and> u = Punct (CHR ''('') then Some (lower t)
      else dangerous_call (u # ts))"
| "dangerous_call _ = None"

text \<open>Names a WITH clause introduces, over every position with at least two tokens behind it.\<close>
definition cte_here :: "sql_token \<Rightarrow> sql_token list \<Rightarrow> string list" where
  "cte_here t ts =
     (case readName ts of
        None \<Rightarrow> []
      | Some (n, r) \<Rightarrow>
          (if (lower t = ''with'' \<or> t = Punct (CHR '','')) \<and> (word_next ''as'' r \<or> punct_next (CHR ''('') r) then [n] else [])
          @ (if lower t = ''recursive'' then [n] else []))"

fun cte_names :: "sql_token list \<Rightarrow> string list" where
  "cte_names [] = []"
| "cte_names (t # ts) = (if length ts < 2 then [] else cte_here t ts @ cte_names ts)"

definition is_source :: "bool \<Rightarrow> string \<Rightarrow> bool" where
  "is_source first w \<longleftrightarrow> w = ''from'' \<or> w = ''join'' \<or> w = ''into'' \<or> w = ''update'' \<or> w = ''table'' \<and> first"

text \<open>
  The scan for table names: \<open>first\<close> at index 0, \<open>depthFrom\<close> inside a FROM list; the names that
  are tables and the names that are called as functions, in the order they are met.
\<close>
fun scan_tables :: "bool \<Rightarrow> bool \<Rightarrow> sql_token list \<Rightarrow> string list \<times> string list" where
  "scan_tables first depthFrom [] = ([], [])"
| "scan_tables first depthFrom (t # ts) =
     (let w = lower t in
      if is_source first w \<or> depthFrom \<and> t = Punct (CHR '','') then
        (let depth = (if is_source first w then w = ''from'' else depthFrom);
             (tabs, funs) = scan_tables False depth ts
         in case readName ts of
              None \<Rightarrow> (tabs, funs)
            | Some (n, r) \<Rightarrow> if punct_next (CHR ''('') r then (tabs, n # funs) else (n # tabs, funs))
      else scan_tables False (if w \<in> set FROM_ENDS then False else depthFrom) ts)"

text \<open>A JavaScript set in insertion order.\<close>
definition insertion_set :: "'a list \<Rightarrow> 'a list" where
  "insertion_set xs = rev (remdups (rev xs))"

definition table_names :: "sql_token list \<Rightarrow> string list" where
  "table_names ts = insertion_set (filter (\<lambda>n. n \<notin> set (cte_names ts)) (fst (scan_tables True False ts)))"

definition schema_of :: "string \<Rightarrow> string" where "schema_of t = hd (split_on (CHR ''.'') t)"

definition table_allowed :: "string list \<Rightarrow> string \<Rightarrow> bool" where
  "table_allowed allowed t \<longleftrightarrow>
     t \<in> set allowed
     \<or> CHR ''.'' \<in> set t \<and> last (split_on (CHR ''.'') t) \<in> set allowed \<and> schema_of t \<notin> set SYSTEM_SCHEMAS"

definition allow_list :: "string list \<Rightarrow> string list" where
  "allow_list ts = filter (\<lambda>t. t \<noteq> []) (map (toLowerCase \<circ> trim) ts)"

definition read_only_refusal :: "sql_token list \<Rightarrow> refusal option" where
  "read_only_refusal ts =
     (if (case first_word ts of None \<Rightarrow> True | Some w \<Rightarrow> w \<notin> set READ_STARTS) then Some NotARead
      else case write_word False ts of Some w \<Rightarrow> Some (WriteWord w) | None \<Rightarrow> locks_rows ts)"

definition table_refusal :: "string list \<Rightarrow> string list \<Rightarrow> string list \<Rightarrow> refusal option" where
  "table_refusal allowed tables funs =
     (if funs \<noteq> [] then Some (FunctionsInFrom funs)
      else case List.find (\<lambda>t. schema_of t \<in> set SYSTEM_SCHEMAS \<and> t \<notin> set allowed) tables of
             Some t \<Rightarrow> Some (SystemTable t)
           | None \<Rightarrow>
               (let denied = filter (\<lambda>t. \<not> table_allowed allowed t) tables
                in if denied = [] then None else Some (DeniedTables denied)))"

definition check_statement :: "bool \<Rightarrow> string list option \<Rightarrow> sql_token list \<Rightarrow> sql_check" where
  "check_statement readOnly allowedTables ts =
     (case if readOnly then read_only_refusal ts else None of
        Some why \<Rightarrow> refused why []
      | None \<Rightarrow>
     (case dangerous_call ts of
        Some f \<Rightarrow> refused (Dangerous f) []
      | None \<Rightarrow>
     (let tables = table_names ts in
      case (case allowedTables of
              None \<Rightarrow> None
            | Some [] \<Rightarrow> None
            | Some a \<Rightarrow> table_refusal (allow_list a) tables (snd (scan_tables True False ts))) of
        Some why \<Rightarrow> refused why tables
      | None \<Rightarrow> \<lparr> sc_ok = True, sc_reason = None, sc_tables = tables \<rparr>)))"

text \<open>The token list without a single trailing semicolon.\<close>
definition one_statement :: "sql_token list \<Rightarrow> sql_token list option" where
  "one_statement ts =
     (if Punct (CHR '';'') \<in> set (butlast ts) then None
      else if ts \<noteq> [] \<and> last ts = Punct (CHR '';'') then Some (butlast ts) else Some ts)"

definition checkSql :: "string \<Rightarrow> bool \<Rightarrow> string list option \<Rightarrow> sql_check" where
  "checkSql sql readOnly allowedTables =
     (case tokenizeSql sql of
        Inl m \<Rightarrow> refused (BadToken m) []
      | Inr toks \<Rightarrow>
     (case one_statement toks of
        None \<Rightarrow> refused ManyStatements []
      | Some [] \<Rightarrow> refused EmptyQuery []
      | Some ts \<Rightarrow> check_statement readOnly allowedTables ts))"

section \<open>MongoDB\<close>

definition MONGO_BLOCKED_STAGES :: "string list" where "MONGO_BLOCKED_STAGES = [''$out'', ''$merge'']"
definition MONGO_BLOCKED_OPERATORS :: "string list" where
  "MONGO_BLOCKED_OPERATORS = [''$where'', ''$function'', ''$accumulator'']"

datatype mongo_bad = WritesData string | RunsCode string

record mongo_walk =
  mw_bad :: "mongo_bad option"
  mw_collections :: "string set"

definition field_of :: "string \<Rightarrow> json \<Rightarrow> json" where
  "field_of k v = (case v of JObj fs \<Rightarrow> get_prop k fs | _ \<Rightarrow> JUndef)"

definition looked_up :: "(rat \<Rightarrow> string) \<Rightarrow> string \<Rightarrow> json \<Rightarrow> string set" where
  "looked_up numStr k x =
     (if k = ''$lookup'' \<or> k = ''$graphLookup'' then (case field_of ''from'' x of JStr c \<Rightarrow> {c} | _ \<Rightarrow> {})
      else if k = ''$unionWith'' then
        (case x of
           JStr c \<Rightarrow> {c}
         | _ \<Rightarrow> {let c = field_of ''coll'' x in if c = JUndef \<or> c = JNull then [] else js_String numStr c})
      else {})"

definition visit_key :: "(rat \<Rightarrow> string) \<Rightarrow> string \<Rightarrow> json \<Rightarrow> mongo_walk \<Rightarrow> mongo_walk" where
  "visit_key numStr k x m =
     m\<lparr> mw_bad := (if k \<in> set MONGO_BLOCKED_STAGES then Some (WritesData k)
                    else if k \<in> set MONGO_BLOCKED_OPERATORS then Some (RunsCode k) else mw_bad m),
        mw_collections := mw_collections m \<union> looked_up numStr k x \<rparr>"

fun mongo_visit :: "(rat \<Rightarrow> string) \<Rightarrow> json \<Rightarrow> nat \<Rightarrow> mongo_walk \<Rightarrow> mongo_walk"
and visit_items :: "(rat \<Rightarrow> string) \<Rightarrow> json list \<Rightarrow> nat \<Rightarrow> mongo_walk \<Rightarrow> mongo_walk"
and visit_fields :: "(rat \<Rightarrow> string) \<Rightarrow> (string \<times> json) list \<Rightarrow> nat \<Rightarrow> mongo_walk \<Rightarrow> mongo_walk" where
  "mongo_visit numStr v depth m =
     (if mw_bad m \<noteq> None \<or> depth > 50 then m
      else case v of
             JArr vs \<Rightarrow> visit_items numStr vs (depth + 1) m
           | JObj fs \<Rightarrow> visit_fields numStr fs (depth + 1) m
           | _ \<Rightarrow> m)"
| "visit_items numStr [] depth m = m"
| "visit_items numStr (v # vs) depth m = visit_items numStr vs depth (mongo_visit numStr v depth m)"
| "visit_fields numStr [] depth m = m"
| "visit_fields numStr ((k, x) # fs) depth m =
     visit_fields numStr fs depth (mongo_visit numStr x depth (visit_key numStr k x m))"

declare mongo_visit.simps [simp del]

record mongo_query =
  mq_operation :: string
  mq_collection :: json
  mq_filter :: json
  mq_pipeline :: json

datatype mongo_refusal = BadOperation | NoCollection | Blocked mongo_bad | BadPipeline | DeniedCollections "string set"

definition mongo_walked :: "(rat \<Rightarrow> string) \<Rightarrow> string \<Rightarrow> mongo_query \<Rightarrow> mongo_walk" where
  "mongo_walked numStr c q =
     mongo_visit numStr (mq_pipeline q) 0
       (mongo_visit numStr (mq_filter q) 0 \<lparr> mw_bad = None, mw_collections = {c} \<rparr>)"

definition checkMongo :: "(rat \<Rightarrow> string) \<Rightarrow> mongo_query \<Rightarrow> string list option \<Rightarrow> mongo_refusal option" where
  "checkMongo numStr q allowedCollections =
     (if mq_operation q \<notin> {''find'', ''aggregate'', ''countDocuments''} then Some BadOperation
      else case mq_collection q of
        JStr c \<Rightarrow>
          if c = [] then Some NoCollection
          else (let m = mongo_walked numStr c q in
                case mw_bad m of
                  Some b \<Rightarrow> Some (Blocked b)
                | None \<Rightarrow>
                    if mq_pipeline q \<noteq> JUndef \<and> (case mq_pipeline q of JArr _ \<Rightarrow> False | _ \<Rightarrow> True) then Some BadPipeline
                    else (case allowedCollections of
                            None \<Rightarrow> None
                          | Some [] \<Rightarrow> None
                          | Some a \<Rightarrow>
                              (let denied = {d \<in> mw_collections m. d \<notin> trim ` set a}
                               in if denied = {} then None else Some (DeniedCollections denied))))
      | _ \<Rightarrow> Some NoCollection)"

section \<open>What an accepted statement satisfies\<close>

lemma punct_next_Cons [simp]: "punct_next c (t # ts) \<longleftrightarrow> t = Punct c"
  by (simp add: punct_next_def)

lemma punct_next_Nil [simp]: "\<not> punct_next c []"
  by (simp add: punct_next_def)

lemma write_word_None:
  assumes "write_word dot (pre @ t # post) = None" "lower t \<in> set WRITE_WORDS"
  shows "punct_next (CHR ''('') post \<or> (if pre = [] then dot else last pre = Punct (CHR ''.''))"
  using assms(1)
proof (induction pre arbitrary: dot)
  case Nil
  then show ?case using assms(2) by (auto split: if_splits)
next
  case (Cons u us)
  then have "write_word (u = Punct (CHR ''.'')) (us @ t # post) = None" by (simp split: if_splits)
  then show ?case using Cons.IH [of "u = Punct (CHR ''.'')"] by (cases us) auto
qed

lemma locks_rows_tl: "locks_rows (t # ts) = None \<Longrightarrow> locks_rows ts = None"
  by (cases ts) (simp_all split: if_splits)

lemma locks_rows_append: "locks_rows (pre @ ts) = None \<Longrightarrow> locks_rows ts = None"
  by (induction pre) (auto dest: locks_rows_tl)

lemma locks_rows_None:
  assumes "locks_rows (pre @ t # u # post) = None"
  shows "lower t \<noteq> ''into'' \<and> \<not> (lower t = ''for'' \<and> lower u \<in> {''update'', ''share'', ''no''})"
  using locks_rows_append [OF assms] by (simp split: if_splits)

lemma dangerous_call_tl: "dangerous_call (t # ts) = None \<Longrightarrow> dangerous_call ts = None"
  by (cases ts) (simp_all split: if_splits)

lemma dangerous_call_append: "dangerous_call (pre @ ts) = None \<Longrightarrow> dangerous_call ts = None"
  by (induction pre) (auto dest: dangerous_call_tl)

lemma dangerous_call_None:
  assumes "dangerous_call (pre @ t # post) = None" "lower t \<in> set DANGEROUS_FUNCTIONS"
  shows "\<not> punct_next (CHR ''('') post"
  using dangerous_call_append [OF assms(1)] assms(2) by (cases post) (auto split: if_splits)

lemma scan_tables_tl:
  "\<exists>d'. set (fst (scan_tables False d' ts)) \<subseteq> set (fst (scan_tables first d (t # ts)))
      \<and> set (snd (scan_tables False d' ts)) \<subseteq> set (snd (scan_tables first d (t # ts)))"
proof (cases "is_source first (lower t) \<or> d \<and> t = Punct (CHR '','')")
  case True
  then show ?thesis
    by (intro exI [of _ "if is_source first (lower t) then lower t = ''from'' else d"])
      (auto simp: Let_def split: option.split prod.split)
next
  case False
  then show ?thesis
    by (intro exI [of _ "if lower t \<in> set FROM_ENDS then False else d"])
      (simp only: scan_tables.simps Let_def if_False subset_refl simp_thms)
qed

lemma scan_tables_append:
  "\<exists>f d'. set (fst (scan_tables f d' ts)) \<subseteq> set (fst (scan_tables first d (pre @ ts)))
      \<and> set (snd (scan_tables f d' ts)) \<subseteq> set (snd (scan_tables first d (pre @ ts)))"
proof (induction pre arbitrary: first d)
  case Nil
  show ?case by auto
next
  case (Cons t us)
  obtain d1 where d1: "set (fst (scan_tables False d1 (us @ ts))) \<subseteq> set (fst (scan_tables first d (t # us @ ts)))"
      "set (snd (scan_tables False d1 (us @ ts))) \<subseteq> set (snd (scan_tables first d (t # us @ ts)))"
    using scan_tables_tl [of "us @ ts" first d t] by auto
  obtain f d2 where "set (fst (scan_tables f d2 ts)) \<subseteq> set (fst (scan_tables False d1 (us @ ts)))"
      "set (snd (scan_tables f d2 ts)) \<subseteq> set (snd (scan_tables False d1 (us @ ts)))"
    using Cons [of False d1] by auto
  then show ?case using d1 by (intro exI [of _ f] exI [of _ d2]) (simp del: scan_tables.simps, blast)
qed

text \<open>A name after a source keyword is collected, wherever the keyword stands.\<close>
lemma scan_tables_collects:
  assumes "readName post = Some (n, r)" "lower t \<in> {''from'', ''join'', ''into'', ''update''}"
  shows "if punct_next (CHR ''('') r then n \<in> set (snd (scan_tables first d (pre @ t # post)))
         else n \<in> set (fst (scan_tables first d (pre @ t # post)))"
proof -
  have src: "is_source f (lower t)" for f using assms(2) by (auto simp: is_source_def)
  have "if punct_next (CHR ''('') r then n \<in> set (snd (scan_tables f d' (t # post)))
        else n \<in> set (fst (scan_tables f d' (t # post)))" for f d'
    using assms(1) by (simp add: src Let_def split: prod.split)
  then show ?thesis using scan_tables_append [of "t # post" first d pre] by (auto split: if_splits)
qed

lemma table_refusal_None:
  assumes "table_refusal allowed tables funs = None"
  shows "funs = []" "\<forall>t\<in>set tables. table_allowed allowed t"
  using assms unfolding table_refusal_def Let_def
  by (auto simp: filter_empty_conv split: if_splits option.splits)

lemma set_insertion_set [simp]: "set (insertion_set xs) = set xs"
  by (simp add: insertion_set_def)

lemma one_statement_Some: "one_statement toks = Some ts \<Longrightarrow> Punct (CHR '';'') \<notin> set ts"
  unfolding one_statement_def
  by (cases toks rule: rev_cases) (auto split: if_splits)

lemma refused_not_ok [simp]: "\<not> sc_ok (refused why ts)"
  by (simp add: refused_def)

lemma check_statement_ok:
  assumes "sc_ok (check_statement ro al ts)"
  shows "ro \<longrightarrow> read_only_refusal ts = None"
    and "dangerous_call ts = None"
    and "sc_tables (check_statement ro al ts) = table_names ts"
    and "al = Some a \<Longrightarrow> a \<noteq> [] \<Longrightarrow> table_refusal (allow_list a) (table_names ts) (snd (scan_tables True False ts)) = None"
  using assms unfolding check_statement_def Let_def
  by (auto split: option.splits if_splits list.splits)

lemma checkSql_ok:
  assumes "sc_ok (checkSql sql ro al)"
  obtains toks ts where "tokenizeSql sql = Inr toks" "one_statement toks = Some ts" "ts \<noteq> []"
    "checkSql sql ro al = check_statement ro al ts" "sc_ok (check_statement ro al ts)"
  using assms that unfolding checkSql_def
  by (auto split: sum.splits option.splits list.splits)

lemma read_only_refusal_None:
  assumes "read_only_refusal ts = None"
  shows "\<exists>w\<in>set READ_STARTS. first_word ts = Some w" "write_word False ts = None" "locks_rows ts = None"
  using assms unfolding read_only_refusal_def by (auto split: option.splits if_splits)

section \<open>String literals\<close>

definition sql_escape :: "char \<Rightarrow> string" where
  "sql_escape c = (if c = CHR 0x27 \<or> c = CHR 0x5C then [c, c] else [c])"

definition sql_quote :: "string \<Rightarrow> string" where
  "sql_quote s = [CHR 0x27] @ concat (map sql_escape s) @ [CHR 0x27]"

lemma scan_string_escaped:
  assumes "\<not> startsWith r [CHR 0x27]"
  shows "scan_string (concat (map sql_escape s) @ CHR 0x27 # r) = Some (s, r)"
proof (induction s)
  case Nil
  then show ?case using assms by (cases r) (auto simp: startsWith_def)
qed (auto simp: sql_escape_def)

lemma is_space_quote: "\<not> is_space CHR 0x27"
  by (simp add: is_space_def)

lemma tokenize_quoted:
  assumes "\<not> startsWith r [CHR 0x27]"
  shows "tokenizeSql (sql_quote s @ r) = map_sum id ((#) (Str s)) (tokenizeSql r)"
  using scan_string_escaped [OF assms, of s]
  by (simp add: sql_quote_def lex_one_def lex_string_def is_space_quote startsWith_def)

section \<open>What an accepted MongoDB query satisfies\<close>

text \<open>The keys of objects nested at most \<open>n\<close> levels deep.\<close>
fun keys_within :: "nat \<Rightarrow> json \<Rightarrow> (string \<times> json) set" where
  "keys_within 0 v = {}"
| "keys_within (Suc n) v =
     (case v of
        JArr vs \<Rightarrow> \<Union> (keys_within n ` set vs)
      | JObj fs \<Rightarrow> set fs \<union> \<Union> (keys_within n ` snd ` set fs)
      | _ \<Rightarrow> {})"

definition blocked_key :: "string \<Rightarrow> bool" where
  "blocked_key k \<longleftrightarrow> k \<in> set MONGO_BLOCKED_STAGES \<union> set MONGO_BLOCKED_OPERATORS"

definition walk_covers :: "(rat \<Rightarrow> string) \<Rightarrow> (string \<times> json) set \<Rightarrow> mongo_walk \<Rightarrow> mongo_walk \<Rightarrow> bool" where
  "walk_covers numStr keys m m' \<longleftrightarrow>
     mw_bad m' = None \<longrightarrow>
       mw_bad m = None \<and> mw_collections m \<subseteq> mw_collections m'
       \<and> (\<forall>(k, x) \<in> keys. \<not> blocked_key k \<and> looked_up numStr k x \<subseteq> mw_collections m')"

lemma walk_covers_trans:
  "walk_covers n k1 a b \<Longrightarrow> walk_covers n k2 b c \<Longrightarrow> walk_covers n (k1 \<union> k2) a c"
  unfolding walk_covers_def by fastforce

lemma walk_covers_refl [simp]: "walk_covers n {} m m"
  by (simp add: walk_covers_def)

lemma visit_key_covers: "walk_covers n {(k, x)} m (visit_key n k x m)"
  by (auto simp: walk_covers_def visit_key_def blocked_key_def split: if_splits)

lemma walk_covers_mono: "walk_covers n k m m' \<Longrightarrow> k' \<subseteq> k \<Longrightarrow> walk_covers n k' m m'"
  unfolding walk_covers_def by fast

lemma visit_covers:
  "k + d \<le> 51 \<Longrightarrow> walk_covers n (keys_within k v) m (mongo_visit n v d m)"
  "k + d \<le> 51 \<Longrightarrow> walk_covers n (\<Union> (keys_within k ` set vs)) m' (visit_items n vs d m')"
  "k + d \<le> 51 \<Longrightarrow> walk_covers n (set fs \<union> \<Union> (keys_within k ` snd ` set fs)) m'' (visit_fields n fs d m'')"
proof (induction n v d m and n vs d m' and n fs d m'' arbitrary: k and k and k
    rule: mongo_visit_visit_items_visit_fields.induct)
  case (1 n v d m)
  show ?case
  proof (cases "mw_bad m \<noteq> None \<or> d > 50")
    case True
    then show ?thesis using 1(3) by (cases k) (auto simp: mongo_visit.simps walk_covers_def)
  next
    case False
    then have j: "k - 1 + (d + 1) \<le> 51" using 1(3) by (cases k) auto
    show ?thesis
    proof (cases v)
      case (JArr vs)
      then have "walk_covers n (\<Union> (keys_within (k - 1) ` set vs)) m (mongo_visit n v d m)"
        using 1(1) [OF False JArr j] False by (simp add: mongo_visit.simps)
      then show ?thesis using JArr by (cases k) (auto elim: walk_covers_mono)
    next
      case (JObj fs)
      then have "walk_covers n (set fs \<union> \<Union> (keys_within (k - 1) ` snd ` set fs)) m (mongo_visit n v d m)"
        using 1(2) [OF False JObj j] False by (simp add: mongo_visit.simps)
      then show ?thesis using JObj by (cases k) (auto elim: walk_covers_mono)
    qed (use False in \<open>cases k; simp add: mongo_visit.simps\<close>)+
  qed
next
  case (3 n v vs d m)
  show ?case using walk_covers_trans [OF 3(1) [OF 3(3)] 3(2) [OF 3(3)]] by simp
next
  case (5 n key x fs d m)
  show ?case
    using walk_covers_trans [OF visit_key_covers walk_covers_trans [OF 5(1) [OF 5(3)] 5(2) [OF 5(3)]]]
    unfolding visit_fields.simps by (rule walk_covers_mono) auto
qed auto

lemma mongo_walked_covers:
  "walk_covers n (keys_within 51 (mq_filter q) \<union> keys_within 51 (mq_pipeline q))
     \<lparr> mw_bad = None, mw_collections = {c} \<rparr> (mongo_walked n c q)"
  unfolding mongo_walked_def by (rule walk_covers_trans; rule visit_covers; simp)

lemma checkMongo_None:
  assumes "checkMongo n q al = None"
  obtains c where "mq_collection q = JStr c" "c \<noteq> []" "mw_bad (mongo_walked n c q) = None"
    "mq_operation q \<in> {''find'', ''aggregate'', ''countDocuments''}"
    "\<And>a. al = Some a \<Longrightarrow> a \<noteq> [] \<Longrightarrow> mw_collections (mongo_walked n c q) \<subseteq> trim ` set a"
  using assms that unfolding checkMongo_def Let_def
  by (auto split: if_splits json.splits option.splits list.splits)

section \<open>Limits of the checks\<close>

text \<open>
  A join ends the FROM list for the scan, so a table that follows the join after a comma is not
  collected and not compared with the allow list.
\<close>
lemma list_after_join_is_missed:
  "checkSql ''select * from a join b on true, secret'' True (Some [''a'', ''b''])
     = \<lparr> sc_ok = True, sc_reason = None, sc_tables = [''a'', ''b''] \<rparr>"
  by code_simp

text \<open>A filter nested deeper than the walk goes keeps its server side code.\<close>
fun deep_where :: "nat \<Rightarrow> json" where
  "deep_where 0 = JObj [(''$where'', JStr ''code'')]"
| "deep_where (Suc n) = JObj [(''$and'', JArr [deep_where n])]"

lemma deep_where_is_missed:
  "checkMongo (\<lambda>_. []) \<lparr> mq_operation = ''find'', mq_collection = JStr ''c'', mq_filter = deep_where 26, mq_pipeline = JUndef \<rparr> None
     = None"
  by (simp add: checkMongo_def mongo_walked_def Let_def eval_nat_numeral mongo_visit.simps visit_key_def looked_up_def
      MONGO_BLOCKED_STAGES_def MONGO_BLOCKED_OPERATORS_def)

end
