(* ===== verification/Trust.thy ===== *)
theory Trust
  imports Billing_Data
begin

text \<open>
  Trust and safety, \<open>trust/trust.service.ts\<close>: the checks before resources are created, abuse
  flags, suspension with power off and reinstatement with power on.  Whether the workflow engine
  accepts a \<open>powerServer\<close> workflow is outside the program: \<open>startOk\<close> says so per server and
  operation.
\<close>

definition BILLING_SUSPENSION :: string where "BILLING_SUSPENSION = ''billing:''"

record trust_config =
  cfg_requirePrepaid :: bool
  cfg_freeAllowanceMinor :: int

section \<open>Checks before provisioning\<close>

definition assertPrepaidBeforePostpaid ::
  "trust_config \<Rightarrow> id \<Rightarrow> int \<Rightarrow> instant \<Rightarrow> store \<Rightarrow> unit result" where
  "assertPrepaidBeforePostpaid cfg teamId added now st =
     (if \<not> cfg_requirePrepaid cfg then Inr ()
      else case find_by tm_id teamId (st_teams st) of
        None \<Rightarrow> Inl (JsError ''team not found'')
      | Some tm \<Rightarrow>
          if 0 < tm_kycLevel tm then Inr ()
          else if count_where (\<lambda>c. cr_teamId c = teamId \<and> cr_kind c = Prepaid) (st_credits st) \<noteq> 0
               \<or> count_where (\<lambda>p. pay_teamId p = teamId \<and> pay_invoiceId p = None
                                  \<and> pay_status p = PaySucceeded) (st_payments st) \<noteq> 0
          then Inr ()
          else
            let used = sum_by ur_amountMinor
                  (filter (\<lambda>u. ur_projectId u \<in> set (tm_projects tm) \<and> startOfMonth now \<le> ur_hourStart u)
                     (st_usage st));
                left = cfg_freeAllowanceMinor cfg - used
            in if 0 < left \<and> added \<le> left then Inr () else Inl (ApiError 402 ''payment_required''))"

definition assertCanProvision :: "trust_config \<Rightarrow> id \<Rightarrow> instant \<Rightarrow> store \<Rightarrow> unit result" where
  "assertCanProvision cfg teamId now st =
     (case find_by tm_id teamId (st_teams st) of
        None \<Rightarrow> Inl (JsError ''team not found'')
      | Some tm \<Rightarrow>
          if tm_status tm = AccSuspended then Inl (ApiError 403 ''account_suspended'')
          else if tm_status tm = AccClosed then Inl (ApiError 403 ''account_closed'')
          else if \<exists>f\<in>set (st_abuseFlags st). ab_teamId f = teamId \<and> ab_resolvedAt f = None \<and> 80 \<le> ab_score f
          then Inl (ApiError 403 ''account_under_review'')
          else
            case List.find (\<lambda>m. mb_teamId m = teamId \<and> mb_role m = ''owner'') (st_members st) of
              Some owner \<Rightarrow>
                if \<not> mb_emailVerified owner then Inl (ApiError 403 ''email_unverified'')
                else if tm_status tm = AccPendingVerification \<and> tm_kycLevel tm < 1
                     \<and> sum_by (\<lambda>c. if cr_kind c = Prepaid then cr_remainingMinor c else 0)
                         (filter (\<lambda>c. cr_teamId c = teamId) (st_credits st)) \<le> 0
                then Inl (ApiError 403 ''verification_required'')
                else assertPrepaidBeforePostpaid cfg teamId 0 now st
            | None \<Rightarrow>
                if tm_status tm = AccPendingVerification \<and> tm_kycLevel tm < 1
                   \<and> sum_by (\<lambda>c. if cr_kind c = Prepaid then cr_remainingMinor c else 0)
                       (filter (\<lambda>c. cr_teamId c = teamId) (st_credits st)) \<le> 0
                then Inl (ApiError 403 ''verification_required'')
                else assertPrepaidBeforePostpaid cfg teamId 0 now st)"

definition outboundLimitMbps :: "id \<Rightarrow> store \<Rightarrow> int option result" where
  "outboundLimitMbps teamId st =
     (case find_by tm_id teamId (st_teams st) of
        None \<Rightarrow> Inl (JsError ''team not found'')
      | Some tm \<Rightarrow> Inr (if 2 \<le> tm_kycLevel tm then None else Some 100))"

section \<open>Power\<close>

text \<open>\<open>power\<close>: record the action, set the status, start the workflow; a failed start of a
  start action puts the server back to off.\<close>

definition power ::
  "(id \<Rightarrow> power_op \<Rightarrow> bool) \<Rightarrow> id \<Rightarrow> power_op \<Rightarrow> server_status \<Rightarrow> store \<Rightarrow> bool \<times> store" where
  "power startOk serverId op nextStatus st =
     (let st1 = update_server serverId (\<lambda>s. s\<lparr>sv_status := nextStatus\<rparr>)
                  (st\<lparr>st_actions := st_actions st @
                       [\<lparr>ac_serverId = serverId, ac_type = op, ac_ok = startOk serverId op\<rparr>]\<rparr>)
      in if startOk serverId op then (True, st1)
         else (False, if op = OpStart then update_server serverId (\<lambda>s. s\<lparr>sv_status := SvOff\<rparr>) st1 else st1))"

fun power_off_each :: "(id \<Rightarrow> power_op \<Rightarrow> bool) \<Rightarrow> id list \<Rightarrow> nat \<Rightarrow> store \<Rightarrow> nat \<times> store" where
  "power_off_each startOk [] n st = (n, st)"
| "power_off_each startOk (i # ids) n st =
     (let st1 = update_server i (\<lambda>s. s\<lparr>sv_suspendedPoweredOff := True\<rparr>) st;
          (ok, st2) = power startOk i OpStop SvActive st1
      in power_off_each startOk ids (if ok then Suc n else n) st2)"

definition powerOffRunning :: "(id \<Rightarrow> power_op \<Rightarrow> bool) \<Rightarrow> id \<Rightarrow> store \<Rightarrow> nat \<times> store" where
  "powerOffRunning startOk teamId st =
     power_off_each startOk
       (map sv_id (filter (\<lambda>s. sv_teamId s = teamId \<and> sv_status s = SvActive \<and> sv_deletedAt s = None)
                     (st_servers st))) 0 st"

section \<open>Suspension and reinstatement\<close>

definition suspend :: "(id \<Rightarrow> power_op \<Rightarrow> bool) \<Rightarrow> id \<Rightarrow> string \<Rightarrow> instant \<Rightarrow> store \<Rightarrow> unit result \<times> store" where
  "suspend startOk teamId reason now st =
     (case find_by tm_id teamId (st_teams st) of
        None \<Rightarrow> (Inl (JsError ''team not found''), st)
      | Some tm \<Rightarrow>
          if tm_status tm = AccClosed then (Inr (), st)
          else
            let first = tm_status tm \<noteq> AccSuspended;
                st1 = update_team teamId
                        (\<lambda>t. t\<lparr>tm_status := AccSuspended, tm_suspensionReason := Some reason,
                               tm_suspendedAt := (if first then Some now else tm_suspendedAt t)\<rparr>) st;
                (n, st2) = powerOffRunning startOk teamId st1
            in (Inr (), if first then emit ''account.suspended'' teamId [] st2 else st2))"

definition enforceSuspension :: "(id \<Rightarrow> power_op \<Rightarrow> bool) \<Rightarrow> id \<Rightarrow> store \<Rightarrow> nat \<times> store" where
  "enforceSuspension startOk teamId st =
     (case find_by tm_id teamId (st_teams st) of
        None \<Rightarrow> (0, st)
      | Some tm \<Rightarrow> if tm_status tm \<noteq> AccSuspended then (0, st) else powerOffRunning startOk teamId st)"

definition flag ::
  "(id \<Rightarrow> power_op \<Rightarrow> bool) \<Rightarrow> id \<Rightarrow> string \<Rightarrow> int \<Rightarrow> instant \<Rightarrow> store \<Rightarrow> unit result \<times> store" where
  "flag startOk teamId kind score now st =
     (let st1 = st\<lparr>st_abuseFlags := st_abuseFlags st @
                    [\<lparr>ab_teamId = teamId, ab_kind = kind, ab_score = score, ab_resolvedAt = None\<rparr>]\<rparr>;
          st2 = update_team teamId (\<lambda>t. t\<lparr>tm_riskScore := tm_riskScore t + score\<rparr>) st1;
          st3 = emit ''abuse.flagged'' teamId [] st2
      in if 90 \<le> score then suspend startOk teamId (''automatic: '' @ kind) now st3 else (Inr (), st3))"

fun reinstate_each :: "(id \<Rightarrow> power_op \<Rightarrow> bool) \<Rightarrow> server list \<Rightarrow> nat \<Rightarrow> store \<Rightarrow> nat \<times> store" where
  "reinstate_each startOk [] n st = (n, st)"
| "reinstate_each startOk (s # ss) n st =
     (if sv_status s \<noteq> SvOff
      then reinstate_each startOk ss n (update_server (sv_id s) (\<lambda>r. r\<lparr>sv_suspendedPoweredOff := False\<rparr>) st)
      else
        let (ok, st1) = power startOk (sv_id s) OpStart SvProvisioning st
        in reinstate_each startOk ss (if ok then Suc n else n)
             (update_server (sv_id s) (\<lambda>r. r\<lparr>sv_suspendedPoweredOff := False\<rparr>) st1))"

definition reinstate :: "(id \<Rightarrow> power_op \<Rightarrow> bool) \<Rightarrow> id \<Rightarrow> store \<Rightarrow> store" where
  "reinstate startOk teamId st =
     (let st1 = update_team teamId
                  (\<lambda>t. t\<lparr>tm_status := AccActive, tm_suspensionReason := None, tm_suspendedAt := None\<rparr>) st;
          st2 = st1\<lparr>st_servers := update_where
                  (\<lambda>s. sv_teamId s = teamId \<and> sv_status s = SvSuspended \<and> sv_deletedAt s = None)
                  (\<lambda>s. s\<lparr>sv_status := SvOff, sv_suspendedPoweredOff := True\<rparr>) (st_servers st1)\<rparr>;
          marked = filter (\<lambda>s. sv_teamId s = teamId \<and> sv_suspendedPoweredOff s \<and> sv_deletedAt s = None)
                     (st_servers st2);
          (n, st3) = reinstate_each startOk marked 0 st2
      in emit ''account.reinstated'' teamId [] st3)"

definition reinstateIfSettled :: "(id \<Rightarrow> power_op \<Rightarrow> bool) \<Rightarrow> id \<Rightarrow> store \<Rightarrow> bool \<times> store" where
  "reinstateIfSettled startOk teamId st =
     (case find_by tm_id teamId (st_teams st) of
        None \<Rightarrow> (False, st)
      | Some tm \<Rightarrow>
          if tm_status tm \<noteq> AccSuspended
             \<or> (case tm_suspensionReason tm of None \<Rightarrow> True | Some r \<Rightarrow> \<not> startsWith r BILLING_SUSPENSION)
          then (False, st)
          else if count_where (\<lambda>v. inv_teamId v = teamId \<and> inv_status v = InvOpen \<and> 14 \<le> inv_reminderStage v)
                    (st_invoices st) \<noteq> 0
          then (False, st)
          else (True, reinstate startOk teamId st))"

section \<open>Frames: what the trust operations leave alone\<close>

lemma power_frame [simp]:
  "st_invoices (snd (power k i op n st)) = st_invoices st"
  "st_credits (snd (power k i op n st)) = st_credits st"
  "st_payments (snd (power k i op n st)) = st_payments st"
  "st_creditNotes (snd (power k i op n st)) = st_creditNotes st"
  "st_usage (snd (power k i op n st)) = st_usage st"
  "st_teams (snd (power k i op n st)) = st_teams st"
  by (simp_all add: power_def Let_def)

lemma power_off_each_frame:
  "st_invoices (snd (power_off_each k ids n st)) = st_invoices st
   \<and> st_credits (snd (power_off_each k ids n st)) = st_credits st
   \<and> st_payments (snd (power_off_each k ids n st)) = st_payments st
   \<and> st_creditNotes (snd (power_off_each k ids n st)) = st_creditNotes st
   \<and> st_usage (snd (power_off_each k ids n st)) = st_usage st
   \<and> st_teams (snd (power_off_each k ids n st)) = st_teams st"
  by (induction k ids n st rule: power_off_each.induct) (simp_all add: Let_def split_beta)

lemma reinstate_each_frame:
  "st_invoices (snd (reinstate_each k ss n st)) = st_invoices st
   \<and> st_credits (snd (reinstate_each k ss n st)) = st_credits st
   \<and> st_payments (snd (reinstate_each k ss n st)) = st_payments st
   \<and> st_creditNotes (snd (reinstate_each k ss n st)) = st_creditNotes st
   \<and> st_usage (snd (reinstate_each k ss n st)) = st_usage st
   \<and> st_teams (snd (reinstate_each k ss n st)) = st_teams st"
  by (induction k ss n st rule: reinstate_each.induct) (simp_all add: Let_def split_beta)

lemma reinstate_frame [simp]:
  "st_invoices (reinstate k t st) = st_invoices st"
  "st_credits (reinstate k t st) = st_credits st"
  "st_payments (reinstate k t st) = st_payments st"
  "st_creditNotes (reinstate k t st) = st_creditNotes st"
  "st_usage (reinstate k t st) = st_usage st"
  by (simp_all add: reinstate_def Let_def split_beta reinstate_each_frame)

lemma reinstateIfSettled_frame [simp]:
  "st_invoices (snd (reinstateIfSettled k t st)) = st_invoices st"
  "st_credits (snd (reinstateIfSettled k t st)) = st_credits st"
  "st_payments (snd (reinstateIfSettled k t st)) = st_payments st"
  "st_creditNotes (snd (reinstateIfSettled k t st)) = st_creditNotes st"
  "st_usage (snd (reinstateIfSettled k t st)) = st_usage st"
  by (simp_all add: reinstateIfSettled_def split: option.splits)

lemma suspend_frame:
  "st_invoices (snd (suspend k t r now st)) = st_invoices st
   \<and> st_credits (snd (suspend k t r now st)) = st_credits st
   \<and> st_payments (snd (suspend k t r now st)) = st_payments st"
  by (simp add: suspend_def Let_def split_beta powerOffRunning_def power_off_each_frame split: option.splits)

section \<open>Suspension\<close>

lemma suspend_team_status:
  assumes "find_by tm_id teamId (st_teams st) = Some tm" "tm_status tm \<noteq> AccClosed"
  shows "find_by tm_id teamId (st_teams (snd (suspend k teamId reason now st)))
     = Some (tm\<lparr>tm_status := AccSuspended, tm_suspensionReason := Some reason,
                tm_suspendedAt := (if tm_status tm \<noteq> AccSuspended then Some now else tm_suspendedAt tm)\<rparr>)"
  using assms find_by_Some [OF assms(1)]
  by (simp add: suspend_def Let_def split_beta powerOffRunning_def power_off_each_frame find_by_update_where)

lemma suspend_closed:
  assumes "find_by tm_id teamId (st_teams st) = Some tm" "tm_status tm = AccClosed"
  shows "suspend k teamId reason now st = (Inr (), st)"
  using assms by (simp add: suspend_def)

text \<open>Powering off marks exactly the servers in the list and leaves every other server alone.\<close>

lemma power_stop_servers:
  "st_servers (snd (power k i OpStop SvActive st))
     = update_where (\<lambda>s. sv_id s = i) (\<lambda>s. s\<lparr>sv_status := SvActive\<rparr>) (st_servers st)"
  by (simp add: power_def Let_def update_server_def)

lemma power_off_each_find:
  assumes "x \<notin> set ids"
  shows "find_by sv_id x (st_servers (snd (power_off_each k ids n st))) = find_by sv_id x (st_servers st)"
  using assms
proof (induction k ids n st rule: power_off_each.induct)
  case (2 k i ids n st)
  have keep: "find_by sv_id x (update_where (\<lambda>s. sv_id s = i) f rows) = find_by sv_id x rows"
    if "\<And>s. sv_id (f s) = sv_id s" for f rows
    using that 2(2) find_by_Some [of sv_id x rows]
    by (cases "find_by sv_id x rows") (simp_all add: find_by_update_where)
  from 2 show ?case
    by (simp add: Let_def split_beta power_stop_servers keep)
qed simp

section \<open>Reinstatement\<close>

lemma power_start_servers:
  "st_servers (snd (power k i OpStart SvProvisioning st))
     = update_where (\<lambda>s. sv_id s = i)
         (\<lambda>s. s\<lparr>sv_status := (if k i OpStart then SvProvisioning else SvOff)\<rparr>) (st_servers st)"
proof -
  have "update_where p f (update_where p g rows) = update_where p f rows"
    if "\<And>r. p (g r) = p r" "\<And>r. f (g r) = f r" for p and f g :: "server \<Rightarrow> server" and rows
    using that by (induction rows) auto
  then show ?thesis by (simp add: power_def Let_def update_server_def)
qed

text \<open>The effect of reinstatement on one server row.\<close>

definition reinstated :: "(id \<Rightarrow> power_op \<Rightarrow> bool) \<Rightarrow> server \<Rightarrow> server" where
  "reinstated k s =
     s\<lparr>sv_suspendedPoweredOff := False,
       sv_status := (if sv_status s = SvOff then (if k (sv_id s) OpStart then SvProvisioning else SvOff)
                     else sv_status s)\<rparr>"

lemma update_where_hit_rows:
  assumes "uniq k rows" "r \<in> set rows"
  shows "update_where (\<lambda>s. k s = k r) f rows = map (\<lambda>s. if s = r then f r else s) rows"
  using assms by (auto simp: update_where_def uniq_def distinct_map inj_on_def)

lemma reinstate_each_servers:
  assumes "uniq sv_id (st_servers st)" "set ss \<subseteq> set (st_servers st)" "distinct ss"
  shows "st_servers (snd (reinstate_each k ss n st))
     = map (\<lambda>s. if s \<in> set ss then reinstated k s else s) (st_servers st)"
  using assms
proof (induction ss arbitrary: n st)
  case (Cons s ss)
  let ?f = "\<lambda>rows. map (\<lambda>r. if r = s then reinstated k s else r) rows"
  have u: "uniq sv_id (st_servers st)" and s: "s \<in> set (st_servers st)" using Cons.prems by auto
  define st1 where "st1 = (if sv_status s \<noteq> SvOff
      then update_server (sv_id s) (\<lambda>r. r\<lparr>sv_suspendedPoweredOff := False\<rparr>) st
      else update_server (sv_id s) (\<lambda>r. r\<lparr>sv_suspendedPoweredOff := False\<rparr>)
             (snd (power k (sv_id s) OpStart SvProvisioning st)))"
  have upd2: "update_where p f (update_where p g rows) = update_where p (f \<circ> g) rows"
    if "\<And>r. p (g r) = p r" for p and f g :: "server \<Rightarrow> server" and rows
    using that by (induction rows) auto
  have "st_servers st1 = update_where (\<lambda>r. sv_id r = sv_id s)
      (\<lambda>r. (if sv_status s = SvOff then r\<lparr>sv_status := (if k (sv_id s) OpStart then SvProvisioning else SvOff)\<rparr>
            else r)\<lparr>sv_suspendedPoweredOff := False\<rparr>) (st_servers st)"
    by (simp add: st1_def power_start_servers upd2 comp_def)
  also have "\<dots> = ?f (st_servers st)"
    unfolding update_where_hit_rows [OF u s] by (simp add: reinstated_def)
  finally have rows: "st_servers st1 = ?f (st_servers st)" .
  have IH: "st_servers (snd (reinstate_each k ss m st1)) = map (\<lambda>r. if r \<in> set ss then reinstated k r else r) (st_servers st1)" for m
  proof -
    have same: "map sv_id (st_servers st1) = map sv_id (st_servers st)"
      by (simp add: rows reinstated_def)
    have "uniq sv_id (st_servers st1)" using u same by (simp add: uniq_def)
    moreover have "set ss \<subseteq> set (st_servers st1)" "distinct ss"
      using Cons.prems by (auto simp: rows)
    ultimately show ?thesis by (rule Cons.IH)
  qed
  have ns: "reinstated k s \<notin> set ss"
  proof
    assume "reinstated k s \<in> set ss"
    then have "reinstated k s \<in> set (st_servers st)" using Cons.prems by auto
    moreover have "sv_id (reinstated k s) = sv_id s" by (simp add: reinstated_def)
    ultimately have "reinstated k s = s" using u s by (auto simp: uniq_def distinct_map inj_on_def)
    with \<open>reinstated k s \<in> set ss\<close> Cons.prems show False by simp
  qed
  have "snd (reinstate_each k (s # ss) n st) = snd (reinstate_each k ss (if sv_status s \<noteq> SvOff then n
      else if fst (power k (sv_id s) OpStart SvProvisioning st) then Suc n else n) st1)"
    by (simp add: st1_def Let_def split_beta)
  then show ?case using IH rows ns by auto
qed simp

end
