(* ===== verification/Credits.thy ===== *)
theory Credits
  imports Billing_Data "HOL-Library.Product_Lexorder"
begin

text \<open>
  Team credit: consuming it for an invoice (\<open>consumeCredits\<close> of \<open>invoices.service.ts\<close>) and taking
  refunded prepaid money back (\<open>takeBackPrepaid\<close> and \<open>prepaidBalance\<close> of
  \<open>billing-admin.service.ts\<close>).  Both are \<open>drain\<close> over a query; what they share is proved once in
  the locale \<open>balance_source\<close> and both queries interpret it.
\<close>

section \<open>The two queries\<close>

text \<open>\<open>orderBy expiresAt asc, createdAt asc\<close>; PostgreSQL sorts nulls last.\<close>

definition expiry_key :: "credit \<Rightarrow> int \<times> int \<times> int" where
  "expiry_key c = (case cr_expiresAt c of Some e \<Rightarrow> (0, e, cr_createdAt c) | None \<Rightarrow> (1, 0, cr_createdAt c))"

definition spendable :: "id \<Rightarrow> instant \<Rightarrow> credit \<Rightarrow> bool" where
  "spendable teamId now c \<longleftrightarrow>
     cr_teamId c = teamId \<and> 0 < cr_remainingMinor c
     \<and> (case cr_expiresAt c of None \<Rightarrow> True | Some e \<Rightarrow> now < e)"

definition spendable_credits :: "id \<Rightarrow> instant \<Rightarrow> credit list \<Rightarrow> credit list" where
  "spendable_credits teamId now rows = sort_key expiry_key (filter (spendable teamId now) rows)"

definition unused_prepaid :: "id \<Rightarrow> credit \<Rightarrow> bool" where
  "unused_prepaid teamId c \<longleftrightarrow> cr_teamId c = teamId \<and> cr_kind c = Prepaid \<and> 0 < cr_remainingMinor c"

definition prepaid_newest_first :: "id \<Rightarrow> credit list \<Rightarrow> credit list" where
  "prepaid_newest_first teamId rows = sort_key (\<lambda>c. - cr_createdAt c) (filter (unused_prepaid teamId) rows)"

section \<open>The operations\<close>

definition consumeCredits :: "id \<Rightarrow> int \<Rightarrow> instant \<Rightarrow> credit list \<Rightarrow> (int \<times> credit list) result" where
  "consumeCredits teamId amountMinor now rows =
     (case drain (spendable_credits teamId now rows) amountMinor rows of
        Inl e \<Rightarrow> Inl e
      | Inr (left, rows') \<Rightarrow> Inr (amountMinor - left, rows'))"

definition prepaidBalance :: "id \<Rightarrow> credit list \<Rightarrow> int" where
  "prepaidBalance teamId rows = sum_by cr_remainingMinor (filter (unused_prepaid teamId) rows)"

definition takeBackPrepaid :: "id \<Rightarrow> int \<Rightarrow> credit list \<Rightarrow> credit list result" where
  "takeBackPrepaid teamId amountMinor rows =
     (case drain (prepaid_newest_first teamId rows) amountMinor rows of
        Inl e \<Rightarrow> Inl e
      | Inr (left, rows') \<Rightarrow>
          if 0 < left then Inl (JsError ''not enough unused prepaid credit'') else Inr rows')"

section \<open>Draining, once and for all\<close>

lemma count_hit:
  assumes "uniq k rows" "c \<in> set rows" "P c"
  shows "count_where (\<lambda>r. k r = k c \<and> P r) rows = 1"
  using assms
proof (induction rows)
  case (Cons r rows)
  show ?case
  proof (cases "k r = k c")
    case True
    then have no: "k c \<notin> k ` set rows" using Cons.prems(1) by (auto simp: uniq_def)
    then have "count_where (\<lambda>r. k r = k c \<and> P r) rows = 0"
      by (subst count_where_0_iff) (auto simp: image_iff)
    moreover have "r = c" using Cons.prems(2) no by auto
    ultimately show ?thesis using Cons.prems(3) by simp
  next
    case False
    with Cons show ?thesis by (auto simp: uniq_def)
  qed
qed simp

lemma update_hit:
  assumes "uniq k rows" "c \<in> set rows" "P c"
  shows "update_where (\<lambda>r. k r = k c \<and> P r) f rows = update_where (\<lambda>r. k r = k c) f rows"
proof -
  have "r = c" if "r \<in> set rows" "k r = k c" for r
    using assms that by (auto simp: uniq_def distinct_map inj_on_def)
  then show ?thesis using assms(3) by (simp add: update_where_def) (metis (mono_tags, lifting))
qed

definition take_from :: "int \<Rightarrow> credit \<Rightarrow> credit" where
  "take_from use r = r\<lparr>cr_remainingMinor := cr_remainingMinor r - use\<rparr>"

lemma take_from_sel [simp]:
  "cr_id (take_from u r) = cr_id r" "cr_remainingMinor (take_from u r) = cr_remainingMinor r - u"
  "cr_teamId (take_from u r) = cr_teamId r" "cr_kind (take_from u r) = cr_kind r"
  by (simp_all add: take_from_def)

lemma drain_step:
  assumes "uniq cr_id rows" "c \<in> set rows" "0 < left"
  shows "drain (c # cs) left rows =
     drain cs (left - min (cr_remainingMinor c) left)
       (update_where (\<lambda>r. cr_id r = cr_id c) (take_from (min (cr_remainingMinor c) left)) rows)"
proof -
  let ?u = "min (cr_remainingMinor c) left"
  let ?hit = "\<lambda>r. cr_id r = cr_id c \<and> ?u \<le> cr_remainingMinor r"
  have "count_where ?hit rows = 1" using assms(1,2) by (intro count_hit) simp_all
  moreover have "update_where ?hit (take_from ?u) rows = update_where (\<lambda>r. cr_id r = cr_id c) (take_from ?u) rows"
    using assms(1,2) by (intro update_hit) simp_all
  ultimately show ?thesis using assms(3) by (simp add: take_from_def [abs_def] Let_def)
qed

text \<open>What draining a list of rows of the table does: it never fails, it takes exactly
  \<open>min amount available\<close>, it touches only the listed rows and leaves no balance negative.\<close>

lemma drain_spec:
  assumes "uniq cr_id rows" "set cs \<subseteq> set rows" "distinct (map cr_id cs)"
    "\<forall>c\<in>set cs. 0 \<le> cr_remainingMinor c" "0 \<le> left"
  shows "\<exists>rows'. drain cs left rows = Inr (max 0 (left - sum_by cr_remainingMinor cs), rows')
     \<and> map cr_id rows' = map cr_id rows
     \<and> sum_by cr_remainingMinor rows' = sum_by cr_remainingMinor rows - min left (sum_by cr_remainingMinor cs)
     \<and> (\<forall>x. x \<notin> cr_id ` set cs \<longrightarrow> find_by cr_id x rows' = find_by cr_id x rows)
     \<and> ((\<forall>r\<in>set rows. 0 \<le> cr_remainingMinor r) \<longrightarrow> (\<forall>r\<in>set rows'. 0 \<le> cr_remainingMinor r))"
  using assms
proof (induction cs arbitrary: left rows)
  case (Cons c cs)
  have pos: "0 \<le> sum_by cr_remainingMinor cs" using Cons.prems(4) by (intro sum_by_nonneg) auto
  show ?case
  proof (cases "left = 0")
    case True
    then show ?thesis using pos Cons.prems(4) by auto
  next
    case False
    with Cons.prems have left: "0 < left" and c: "c \<in> set rows" "0 \<le> cr_remainingMinor c" by auto
    let ?u = "min (cr_remainingMinor c) left"
    let ?rows = "update_where (\<lambda>r. cr_id r = cr_id c) (take_from ?u) rows"
    have u: "uniq cr_id ?rows" using Cons.prems(1) by (simp add: uniq_update_where)
    have ids: "map cr_id ?rows = map cr_id rows" by (rule map_update_where) simp
    have sub: "set cs \<subseteq> set ?rows"
    proof
      fix d assume d: "d \<in> set cs"
      then have "d \<in> set rows" "cr_id d \<noteq> cr_id c" using Cons.prems(2,3) by (auto simp: image_iff)
      then show "d \<in> set ?rows" by (auto simp: in_update_where)
    qed
    have sum: "sum_by cr_remainingMinor ?rows = sum_by cr_remainingMinor rows - ?u"
      using sum_by_update_row [OF Cons.prems(1) c(1), of cr_remainingMinor "take_from ?u"] by simp
    have nn: "(\<forall>r\<in>set rows. 0 \<le> cr_remainingMinor r) \<longrightarrow> (\<forall>r\<in>set ?rows. 0 \<le> cr_remainingMinor r)"
    proof (intro impI ballI)
      fix r assume all: "\<forall>r\<in>set rows. 0 \<le> cr_remainingMinor r" and r: "r \<in> set ?rows"
      then obtain s where s: "s \<in> set rows" "r = (if cr_id s = cr_id c then take_from ?u s else s)"
        by (auto simp: in_update_where)
      moreover have "cr_id s = cr_id c \<Longrightarrow> s = c"
        using Cons.prems(1) s(1) c(1) by (auto simp: uniq_def distinct_map inj_on_def)
      ultimately show "0 \<le> cr_remainingMinor r" using all by auto
    qed
    have d: "distinct (map cr_id cs)" "\<forall>c\<in>set cs. 0 \<le> cr_remainingMinor c"
      using Cons.prems(3,4) by auto
    have l: "0 \<le> left - ?u" by simp
    obtain rows' where IH: "drain cs (left - ?u) ?rows
          = Inr (max 0 (left - ?u - sum_by cr_remainingMinor cs), rows')"
      "map cr_id rows' = map cr_id ?rows"
      "sum_by cr_remainingMinor rows' = sum_by cr_remainingMinor ?rows - min (left - ?u) (sum_by cr_remainingMinor cs)"
      "\<forall>x. x \<notin> cr_id ` set cs \<longrightarrow> find_by cr_id x rows' = find_by cr_id x ?rows"
      "(\<forall>r\<in>set ?rows. 0 \<le> cr_remainingMinor r) \<longrightarrow> (\<forall>r\<in>set rows'. 0 \<le> cr_remainingMinor r)"
      using Cons.IH [OF u sub d l] by blast
    have frame: "find_by cr_id x ?rows = find_by cr_id x rows" if "x \<noteq> cr_id c" for x
      using that find_by_Some [of cr_id x rows]
      by (cases "find_by cr_id x rows") (simp_all add: find_by_update_where)
    let ?s = "sum_by cr_remainingMinor cs"
    have arith: "max 0 (left - ?u - ?s) = max 0 (left - (cr_remainingMinor c + ?s))"
      "?u + min (left - ?u) ?s = min left (cr_remainingMinor c + ?s)"
      using pos c(2) by (simp_all add: min_def max_def)
    have "drain (c # cs) left rows = Inr (max 0 (left - sum_by cr_remainingMinor (c # cs)), rows')"
      using IH(1) by (simp only: drain_step [OF Cons.prems(1) c(1) left] arith(1) sum_by_Cons)
    moreover have "map cr_id rows' = map cr_id rows" using IH(2) ids by simp
    moreover have "sum_by cr_remainingMinor rows'
        = sum_by cr_remainingMinor rows - min left (sum_by cr_remainingMinor (c # cs))"
      using IH(3) sum arith(2) by (simp only: sum_by_Cons)
    moreover have "\<forall>x. x \<notin> cr_id ` set (c # cs) \<longrightarrow> find_by cr_id x rows' = find_by cr_id x rows"
      using IH(4) frame by simp
    ultimately show ?thesis using IH(5) nn by blast
  qed
qed simp

section \<open>The interface\<close>

locale balance_source =
  fixes pick :: "credit list \<Rightarrow> credit list"
  assumes pick_sub: "set (pick rows) \<subseteq> set rows"
    and pick_distinct: "uniq cr_id rows \<Longrightarrow> distinct (map cr_id (pick rows))"
    and pick_positive: "c \<in> set (pick rows) \<Longrightarrow> 0 < cr_remainingMinor c"
begin

abbreviation available :: "credit list \<Rightarrow> int" where
  "available rows \<equiv> sum_by cr_remainingMinor (pick rows)"

lemma available_nonneg: "0 \<le> available rows"
  using pick_positive by (intro sum_by_nonneg) (auto intro: less_imp_le)

lemma drain_pick:
  assumes "uniq cr_id rows" "0 \<le> amount"
  obtains rows' where
    "drain (pick rows) amount rows = Inr (max 0 (amount - available rows), rows')"
    "map cr_id rows' = map cr_id rows"
    "sum_by cr_remainingMinor rows' = sum_by cr_remainingMinor rows - min amount (available rows)"
    "\<And>x. x \<notin> cr_id ` set (pick rows) \<Longrightarrow> find_by cr_id x rows' = find_by cr_id x rows"
    "(\<forall>r\<in>set rows. 0 \<le> cr_remainingMinor r) \<Longrightarrow> (\<forall>r\<in>set rows'. 0 \<le> cr_remainingMinor r)"
  using drain_spec [OF assms(1) pick_sub pick_distinct [OF assms(1)] _ assms(2)] pick_positive
  by (metis less_imp_le)

end

lemma sort_filter_distinct:
  "uniq k rows \<Longrightarrow> distinct (map k (sort_key f (filter p rows)))"
  by (simp add: uniq_def distinct_map inj_on_def)

interpretation spend: balance_source "spendable_credits teamId now" for teamId now
  by unfold_locales (auto simp: spendable_credits_def spendable_def sort_filter_distinct)

interpretation prepaid: balance_source "prepaid_newest_first teamId" for teamId
  by unfold_locales (auto simp: prepaid_newest_first_def unused_prepaid_def sort_filter_distinct)

section \<open>Consequences for the two operations\<close>

lemma consumeCredits_ok:
  assumes "uniq cr_id rows" "0 \<le> amount"
  obtains rows' where
    "consumeCredits teamId amount now rows
       = Inr (min amount (sum_by cr_remainingMinor (spendable_credits teamId now rows)), rows')"
    "map cr_id rows' = map cr_id rows"
    "sum_by cr_remainingMinor rows' = sum_by cr_remainingMinor rows
       - min amount (sum_by cr_remainingMinor (spendable_credits teamId now rows))"
    "\<And>x. x \<notin> cr_id ` set (spendable_credits teamId now rows) \<Longrightarrow> find_by cr_id x rows' = find_by cr_id x rows"
    "(\<forall>r\<in>set rows. 0 \<le> cr_remainingMinor r) \<Longrightarrow> (\<forall>r\<in>set rows'. 0 \<le> cr_remainingMinor r)"
proof -
  obtain rows' where d: "drain (spendable_credits teamId now rows) amount rows
      = Inr (max 0 (amount - sum_by cr_remainingMinor (spendable_credits teamId now rows)), rows')"
    and rest: "map cr_id rows' = map cr_id rows"
    "sum_by cr_remainingMinor rows' = sum_by cr_remainingMinor rows
       - min amount (sum_by cr_remainingMinor (spendable_credits teamId now rows))"
    "\<And>x. x \<notin> cr_id ` set (spendable_credits teamId now rows) \<Longrightarrow> find_by cr_id x rows' = find_by cr_id x rows"
    "(\<forall>r\<in>set rows. 0 \<le> cr_remainingMinor r) \<Longrightarrow> (\<forall>r\<in>set rows'. 0 \<le> cr_remainingMinor r)"
    using spend.drain_pick [OF assms, of teamId now] by metis
  have "consumeCredits teamId amount now rows
     = Inr (min amount (sum_by cr_remainingMinor (spendable_credits teamId now rows)), rows')"
    using spend.available_nonneg [of teamId now rows] by (simp add: consumeCredits_def d)
  with rest show thesis by (intro that)
qed

lemma prepaidBalance_eq: "prepaidBalance teamId rows = sum_by cr_remainingMinor (prepaid_newest_first teamId rows)"
  by (simp add: prepaidBalance_def prepaid_newest_first_def sum_by_sort_key)

lemma takeBackPrepaid_ok:
  assumes "uniq cr_id rows" "0 \<le> amount" "amount \<le> prepaidBalance teamId rows"
  obtains rows' where
    "takeBackPrepaid teamId amount rows = Inr rows'"
    "map cr_id rows' = map cr_id rows"
    "sum_by cr_remainingMinor rows' = sum_by cr_remainingMinor rows - amount"
    "(\<forall>r\<in>set rows. 0 \<le> cr_remainingMinor r) \<Longrightarrow> (\<forall>r\<in>set rows'. 0 \<le> cr_remainingMinor r)"
proof -
  obtain rows' where d: "drain (prepaid_newest_first teamId rows) amount rows
      = Inr (max 0 (amount - sum_by cr_remainingMinor (prepaid_newest_first teamId rows)), rows')"
    and rest: "map cr_id rows' = map cr_id rows"
    "sum_by cr_remainingMinor rows' = sum_by cr_remainingMinor rows
       - min amount (sum_by cr_remainingMinor (prepaid_newest_first teamId rows))"
    "(\<forall>r\<in>set rows. 0 \<le> cr_remainingMinor r) \<Longrightarrow> (\<forall>r\<in>set rows'. 0 \<le> cr_remainingMinor r)"
    using prepaid.drain_pick [OF assms(1,2), of teamId] by metis
  have "takeBackPrepaid teamId amount rows = Inr rows'"
    using assms(3) by (simp add: takeBackPrepaid_def d prepaidBalance_eq)
  moreover have "min amount (sum_by cr_remainingMinor (prepaid_newest_first teamId rows)) = amount"
    using assms(3) by (simp add: prepaidBalance_eq)
  ultimately show thesis using rest that by simp
qed

lemma takeBackPrepaid_refused:
  assumes "uniq cr_id rows" "prepaidBalance teamId rows < amount"
  shows "\<not> is_ok (takeBackPrepaid teamId amount rows)"
proof -
  have "0 \<le> prepaidBalance teamId rows"
    using prepaid.available_nonneg [of teamId rows] by (simp add: prepaidBalance_eq)
  then have "0 \<le> amount" using assms(2) by simp
  then obtain rows' where "drain (prepaid_newest_first teamId rows) amount rows
      = Inr (max 0 (amount - sum_by cr_remainingMinor (prepaid_newest_first teamId rows)), rows')"
    using prepaid.drain_pick [OF assms(1), of amount teamId] by metis
  then show ?thesis using assms(2) by (simp add: takeBackPrepaid_def prepaidBalance_eq)
qed

section \<open>Balances stay between zero and the amount granted\<close>

definition credit_ok :: "credit \<Rightarrow> bool" where
  "credit_ok c \<longleftrightarrow> 0 \<le> cr_remainingMinor c \<and> cr_remainingMinor c \<le> cr_amountMinor c"

lemma drain_credit_ok:
  assumes "drain cs left rows = Inr (l, rows')" "\<forall>c\<in>set cs. 0 \<le> cr_remainingMinor c"
    and "\<forall>r\<in>set rows. credit_ok r"
  shows "(\<forall>r\<in>set rows'. credit_ok r) \<and> map cr_id rows' = map cr_id rows"
  using assms
proof (induction cs arbitrary: left rows)
  case (Cons c cs)
  let ?u = "min (cr_remainingMinor c) left"
  let ?hit = "\<lambda>r. cr_id r = cr_id c \<and> ?u \<le> cr_remainingMinor r"
  let ?rows = "update_where ?hit (take_from ?u) rows"
  show ?case
  proof (cases "left \<le> 0")
    case False
    then have "drain cs (left - ?u) ?rows = Inr (l, rows')"
      using Cons.prems(1) by (simp add: Let_def take_from_def [abs_def] split: if_splits)
    moreover have "\<forall>r\<in>set ?rows. credit_ok r"
      using Cons.prems(2,3) False by (simp add: ball_update_where) (auto simp: credit_ok_def take_from_def)
    moreover have "map cr_id ?rows = map cr_id rows" by (rule map_update_where) simp
    ultimately show ?thesis using Cons.IH [of "left - ?u" ?rows] Cons.prems(2) by simp
  qed (use Cons in simp)
qed simp

lemma consumeCredits_credit_ok:
  assumes "consumeCredits teamId amount now rows = Inr (n, rows')" "\<forall>r\<in>set rows. credit_ok r"
  shows "(\<forall>r\<in>set rows'. credit_ok r) \<and> map cr_id rows' = map cr_id rows"
  using assms spend.pick_positive [of _ teamId now rows]
  by (auto simp: consumeCredits_def less_imp_le dest!: drain_credit_ok split: sum.splits)

lemma takeBackPrepaid_credit_ok:
  assumes "takeBackPrepaid teamId amount rows = Inr rows'" "\<forall>r\<in>set rows. credit_ok r"
  shows "(\<forall>r\<in>set rows'. credit_ok r) \<and> map cr_id rows' = map cr_id rows"
  using assms prepaid.pick_positive [of _ teamId rows]
  by (auto simp: takeBackPrepaid_def less_imp_le dest!: drain_credit_ok split: sum.splits if_splits)

end
