(* ===== verification/Payments.thy ===== *)
theory Payments
  imports Trust Credits Actor
begin

text \<open>
  Card payments, \<open>billing/payments/payments.service.ts\<close>: top ups, paying an invoice, and the
  provider's webhook.  The provider is outside the program: \<open>checkout\<close> is its answer to
  \<open>createCheckout\<close> (reference and redirect URL, or failure), and the webhook handler takes the
  events that \<open>parseEvent\<close> returned.
\<close>

definition PENDING_REUSE_MS :: int where "PENDING_REUSE_MS = 30 * 60000"

fun providerByName :: "provider \<Rightarrow> bool" where
  "providerByName Moyasar = True"
| "providerByName Fake = True"
| "providerByName _ = False"

definition limits :: "currency \<Rightarrow> int \<times> int" where
  "limits c = (if c = SAR then (2000, 2000000) else (500, 500000))"

definition new_payment ::
  "id \<Rightarrow> id \<Rightarrow> id option \<Rightarrow> provider \<Rightarrow> currency \<Rightarrow> int \<Rightarrow> instant \<Rightarrow> payment" where
  "new_payment newId teamId invoiceId prov cur amount now =
     \<lparr>pay_id = newId, pay_teamId = teamId, pay_invoiceId = invoiceId, pay_provider = prov,
      pay_providerRef = None, pay_currency = cur, pay_amountMinor = amount, pay_status = PayPending,
      pay_failureReason = None, pay_refundedMinor = 0, pay_refundRef = None, pay_refundedAt = None,
      pay_redirectUrl = None, pay_paidAt = None, pay_createdAt = now\<rparr>"

definition recent_pending :: "id \<Rightarrow> instant \<Rightarrow> payment \<Rightarrow> bool" where
  "recent_pending invoiceId now p \<longleftrightarrow>
     pay_invoiceId p = Some invoiceId \<and> pay_status p = PayPending \<and> now - PENDING_REUSE_MS < pay_createdAt p"

text \<open>What a started checkout returns: payment, amount and redirect URL.\<close>

definition start ::
  "provider \<Rightarrow> (string \<times> string) option \<Rightarrow> id \<Rightarrow> team \<Rightarrow> int \<Rightarrow> id option \<Rightarrow> instant \<Rightarrow> store
     \<Rightarrow> (id \<times> int \<times> string) result \<times> store" where
  "start prov checkout newId tm amount invoiceId now st =
     (if (case invoiceId of Some i \<Rightarrow> \<exists>p\<in>set (st_payments st). recent_pending i now p | None \<Rightarrow> False)
      then (Inl (conflict ''payment_in_progress''), st)
      else
        let p = new_payment newId (tm_id tm) invoiceId prov (tm_currency tm) amount now;
            st1 = st\<lparr>st_payments := st_payments st @ [p]\<rparr>
        in case checkout of
             Some (ref, url) \<Rightarrow>
               (Inr (newId, amount, url),
                emit ''payment.started'' (tm_id tm) newId
                  (update_payment newId (\<lambda>q. q\<lparr>pay_providerRef := Some ref, pay_redirectUrl := Some url\<rparr>) st1))
           | None \<Rightarrow>
               (Inl (JsError ''checkout failed''),
                update_payment newId (\<lambda>q. q\<lparr>pay_status := PayFailed, pay_failureReason := Some ''checkout failed''\<rparr>) st1))"

definition topup ::
  "provider \<Rightarrow> (string \<times> string) option \<Rightarrow> id \<Rightarrow> actor \<Rightarrow> int \<Rightarrow> instant \<Rightarrow> store
     \<Rightarrow> (id \<times> int \<times> string) result \<times> store" where
  "topup prov checkout newId who amount now st =
     (if a_isAgent who then (Inl forbidden, st)
      else case find_by tm_id (a_teamId who) (st_teams st) of
        None \<Rightarrow> (Inl (JsError ''team not found''), st)
      | Some tm \<Rightarrow>
          let (mn, mx) = limits (tm_currency tm)
          in if amount < mn \<or> mx < amount then (Inl invalid, st)
             else start prov checkout newId tm amount None now st)"

text \<open>The newest recent pending payment of the invoice (\<open>orderBy createdAt desc\<close>).\<close>

definition pending_for :: "id \<Rightarrow> instant \<Rightarrow> payment list \<Rightarrow> payment option" where
  "pending_for invoiceId now ps =
     (case sort_key (\<lambda>p. - pay_createdAt p) (filter (recent_pending invoiceId now) ps) of
        [] \<Rightarrow> None | p # _ \<Rightarrow> Some p)"

definition payInvoice ::
  "provider \<Rightarrow> (string \<times> string) option \<Rightarrow> id \<Rightarrow> actor \<Rightarrow> id \<Rightarrow> instant \<Rightarrow> store
     \<Rightarrow> (id \<times> int \<times> string) result \<times> store" where
  "payInvoice prov checkout newId who invoiceId now st =
     (if a_isAgent who then (Inl forbidden, st)
      else case find_by tm_id (a_teamId who) (st_teams st) of
        None \<Rightarrow> (Inl (JsError ''team not found''), st)
      | Some tm \<Rightarrow>
          case List.find (\<lambda>v. inv_id v = invoiceId \<and> inv_teamId v = tm_id tm) (st_invoices st) of
            None \<Rightarrow> (Inl notFound, st)
          | Some v \<Rightarrow>
              if inv_status v \<noteq> InvOpen then (Inl invalidState, st)
              else case pending_for invoiceId now (st_payments st) of
                Some p \<Rightarrow>
                  (case (pay_providerRef p, pay_redirectUrl p) of
                     (Some _, Some url) \<Rightarrow> (Inr (pay_id p, pay_amountMinor p, url), st)
                   | _ \<Rightarrow> (Inl (conflict ''payment_in_progress''), st))
              | None \<Rightarrow>
                  let due = inv_totalMinor v - inv_creditedMinor v
                  in if due \<le> 0 then (Inl invalidState, st)
                     else start prov checkout newId tm due (Some invoiceId) now st)"

section \<open>The webhook\<close>

record pay_event =
  ev_providerRef :: string
  ev_succeeded :: bool
  ev_amountMinor :: "int option"
  ev_currency :: "string option"
  ev_reason :: string

definition currency_name :: "currency \<Rightarrow> string" where
  "currency_name c = (case c of USD \<Rightarrow> ''USD'' | SAR \<Rightarrow> ''SAR'')"

definition report_matches :: "provider \<Rightarrow> pay_event \<Rightarrow> payment \<Rightarrow> bool" where
  "report_matches prov ev p \<longleftrightarrow>
     (case ev_amountMinor ev of None \<Rightarrow> prov = Fake | Some a \<Rightarrow> a = pay_amountMinor p)
     \<and> (case ev_currency ev of None \<Rightarrow> prov = Fake | Some c \<Rightarrow> toUpperCase c = currency_name (pay_currency p))"

definition new_prepaid :: "id \<Rightarrow> payment \<Rightarrow> instant \<Rightarrow> credit" where
  "new_prepaid newId p now =
     \<lparr>cr_id = newId, cr_teamId = pay_teamId p, cr_kind = Prepaid, cr_currency = pay_currency p,
      cr_amountMinor = pay_amountMinor p, cr_remainingMinor = pay_amountMinor p,
      cr_expiresAt = None, cr_createdAt = now\<rparr>"

text \<open>
  The transaction that applies a successful payment.  \<open>p\<close> is the row as it was read before the
  transaction; the claim \<open>updateMany where status = pending\<close> runs on the current table.
\<close>

definition settle :: "id \<Rightarrow> payment \<Rightarrow> instant \<Rightarrow> store \<Rightarrow> bool \<times> store" where
  "settle newId p now st =
     (let pending = (\<lambda>q. pay_id q = pay_id p \<and> pay_status q = PayPending)
      in if count_where pending (st_payments st) = 0 then (False, st)
         else
           let st1 = st\<lparr>st_payments := update_where pending
                          (\<lambda>q. q\<lparr>pay_status := PaySucceeded, pay_paidAt := Some now\<rparr>) (st_payments st)\<rparr>
           in case pay_invoiceId p of
                None \<Rightarrow> (True, add_credit (new_prepaid newId p now) st1)
              | Some i \<Rightarrow>
                  let opened = (\<lambda>v. inv_id v = i \<and> inv_status v = InvOpen);
                      n = count_where opened (st_invoices st1);
                      st2 = st1\<lparr>st_invoices := update_where opened
                                 (\<lambda>v. v\<lparr>inv_status := InvPaid, inv_paidAt := Some now\<rparr>) (st_invoices st1)\<rparr>
                  in if n = 1 then (True, st2)
                     else (True, add_credit (new_prepaid newId p now) st2))"

definition fail_pending :: "payment \<Rightarrow> string \<Rightarrow> store \<Rightarrow> store" where
  "fail_pending p reason st =
     st\<lparr>st_payments := update_where (\<lambda>q. pay_id q = pay_id p \<and> pay_status q = PayPending)
          (\<lambda>q. q\<lparr>pay_status := PayFailed, pay_failureReason := Some reason\<rparr>) (st_payments st)\<rparr>"

definition liftBillingSuspension :: "(id \<Rightarrow> power_op \<Rightarrow> bool) \<Rightarrow> id \<Rightarrow> store \<Rightarrow> store" where
  "liftBillingSuspension startOk teamId st = snd (reinstateIfSettled startOk teamId st)"

text \<open>One event: the payment and the status reported back, or nothing for an unknown payment.\<close>

definition handle_event ::
  "(id \<Rightarrow> power_op \<Rightarrow> bool) \<Rightarrow> provider \<Rightarrow> id \<Rightarrow> instant \<Rightarrow> pay_event \<Rightarrow> store
     \<Rightarrow> (id \<times> payment_status) option \<times> store" where
  "handle_event startOk prov newId now ev st =
     (case List.find (\<lambda>p. pay_provider p = prov \<and> pay_providerRef p = Some (ev_providerRef ev)) (st_payments st) of
        None \<Rightarrow> (None, st)
      | Some p \<Rightarrow>
          if pay_status p \<noteq> PayPending then (Some (pay_id p, pay_status p), st)
          else if ev_succeeded ev then
            if \<not> report_matches prov ev p then
              (Some (pay_id p, PayFailed),
               let n = count_where (\<lambda>q. pay_id q = pay_id p \<and> pay_status q = PayPending) (st_payments st);
                   st1 = fail_pending p ''amount mismatch'' st
               in if n \<noteq> 0 then emit ''payment.failed'' (pay_teamId p) (pay_id p) st1 else st1)
            else
              (case settle newId p now st of
                 (False, st1) \<Rightarrow> (Some (pay_id p, PaySucceeded), st1)
               | (True, st1) \<Rightarrow>
                   (Some (pay_id p, PaySucceeded),
                    emit (if pay_invoiceId p \<noteq> None then ''invoice.paid'' else ''payment.succeeded'')
                      (pay_teamId p) (pay_id p) (liftBillingSuspension startOk (pay_teamId p) st1)))
          else
            (Some (pay_id p, PayFailed),
             emit ''payment.failed'' (pay_teamId p) (pay_id p) (fail_pending p (ev_reason ev) st)))"

fun handle ::
  "(id \<Rightarrow> power_op \<Rightarrow> bool) \<Rightarrow> provider \<Rightarrow> instant \<Rightarrow> (id \<times> pay_event) list \<Rightarrow> store
     \<Rightarrow> (id \<times> payment_status) list \<times> store" where
  "handle startOk prov now [] st = ([], st)"
| "handle startOk prov now ((newId, ev) # evs) st =
     (let (r, st1) = handle_event startOk prov newId now ev st;
          (rs, st2) = handle startOk prov now evs st1
      in (case r of None \<Rightarrow> rs | Some x \<Rightarrow> x # rs, st2))"

section \<open>A payment is applied once\<close>

lemma settle_not_pending:
  assumes "\<forall>q\<in>set (st_payments st). pay_id q = pay_id p \<longrightarrow> pay_status q \<noteq> PayPending"
  shows "settle newId p now st = (False, st)"
proof -
  have "count_where (\<lambda>q. pay_id q = pay_id p \<and> pay_status q = PayPending) (st_payments st) = 0"
    using assms by (subst count_where_0_iff) auto
  then show ?thesis by (simp add: settle_def)
qed

lemma settle_claims:
  "\<forall>q\<in>set (st_payments (snd (settle newId p now st))). pay_id q = pay_id p \<longrightarrow> pay_status q \<noteq> PayPending"
proof (cases "count_where (\<lambda>q. pay_id q = pay_id p \<and> pay_status q = PayPending) (st_payments st) = 0")
  case True
  then show ?thesis by (simp add: settle_def count_where_0_iff)
next
  case False
  then have "st_payments (snd (settle newId p now st))
     = update_where (\<lambda>q. pay_id q = pay_id p \<and> pay_status q = PayPending)
         (\<lambda>q. q\<lparr>pay_status := PaySucceeded, pay_paidAt := Some now\<rparr>) (st_payments st)"
    by (simp add: settle_def Let_def split: option.splits)
  then show ?thesis by (simp add: ball_update_where)
qed

lemma settle_twice:
  "settle newId' p' now' (snd (settle newId p now st)) = (False, snd (settle newId p now st))"
  if "pay_id p' = pay_id p"
  using settle_claims [of newId p now st] that by (intro settle_not_pending) simp

text \<open>Every riyal that arrives either closes an open invoice or becomes prepaid credit.\<close>

lemma settle_value:
  assumes "settle newId p now st = (True, st')"
  shows "(st_credits st' = st_credits st
            \<and> (\<exists>i. pay_invoiceId p = Some i
                 \<and> count_where (\<lambda>v. inv_id v = i \<and> inv_status v = InvOpen) (st_invoices st) = 1
                 \<and> (\<forall>v\<in>set (st_invoices st'). inv_id v = i \<longrightarrow> inv_status v \<noteq> InvOpen)))
         \<or> st_credits st' = st_credits st @ [new_prepaid newId p now]"
proof (cases "pay_invoiceId p")
  case None
  with assms show ?thesis by (auto simp: settle_def Let_def split: if_splits)
next
  case (Some i)
  define opened where "opened = (\<lambda>v :: invoice. inv_id v = i \<and> inv_status v = InvOpen)"
  let ?close = "\<lambda>v. v\<lparr>inv_status := InvPaid, inv_paidAt := Some now\<rparr>"
  show ?thesis
  proof (cases "count_where opened (st_invoices st) = 1")
    case True
    let ?pending = "\<lambda>q. pay_id q = pay_id p \<and> pay_status q = PayPending"
    let ?st2 = "st\<lparr>st_payments := update_where ?pending
                       (\<lambda>q. q\<lparr>pay_status := PaySucceeded, pay_paidAt := Some now\<rparr>) (st_payments st),
                    st_invoices := update_where opened ?close (st_invoices st)\<rparr>"
    have "settle newId p now st = (if count_where ?pending (st_payments st) = 0 then (False, st) else (True, ?st2))"
      using True Some by (simp add: settle_def Let_def opened_def)
    with assms have "st' = ?st2" by (simp split: if_splits)
    then have "st_credits st' = st_credits st"
      "st_invoices st' = update_where opened ?close (st_invoices st)" by simp_all
    moreover have "\<forall>v\<in>set (update_where opened ?close (st_invoices st)). inv_id v = i \<longrightarrow> inv_status v \<noteq> InvOpen"
      by (simp add: ball_update_where opened_def)
    ultimately show ?thesis using True Some by (simp add: opened_def)
  next
    case False
    with assms Some have "st_credits st' = st_credits st @ [new_prepaid newId p now]"
      by (auto simp add: settle_def Let_def opened_def split: if_splits)
    then show ?thesis by simp
  qed
qed

lemma handle_event_mismatch:
  assumes "List.find (\<lambda>p. pay_provider p = prov \<and> pay_providerRef p = Some (ev_providerRef ev)) (st_payments st) = Some p"
    and "pay_status p = PayPending" "ev_succeeded ev" "\<not> report_matches prov ev p"
  shows "st_credits (snd (handle_event k prov newId now ev st)) = st_credits st
    \<and> st_invoices (snd (handle_event k prov newId now ev st)) = st_invoices st
    \<and> fst (handle_event k prov newId now ev st) = Some (pay_id p, PayFailed)"
  using assms by (simp add: handle_event_def Let_def fail_pending_def)

section \<open>A webhook delivered again\<close>

text \<open>
  The first delivery takes the payment out of \<open>pending\<close>; the event is matched to the same
  row again, and that row is no longer pending.
\<close>

lemma find_update_where:
  "(\<And>r. P (f r) = P r) \<Longrightarrow> List.find P (update_where q f rows) = map_option (\<lambda>r. if q r then f r else r) (List.find P rows)"
  by (induction rows) auto

definition event_hits :: "provider \<Rightarrow> string \<Rightarrow> payment \<Rightarrow> bool" where
  "event_hits prov ref p \<longleftrightarrow> pay_provider p = prov \<and> pay_providerRef p = Some ref"

definition closes :: "(payment \<Rightarrow> payment) \<Rightarrow> bool" where
  "closes f \<longleftrightarrow> (\<forall>q. pay_status (f q) \<noteq> PayPending \<and> pay_provider (f q) = pay_provider q
                       \<and> pay_providerRef (f q) = pay_providerRef q)"

definition pending_row :: "payment \<Rightarrow> payment \<Rightarrow> bool" where
  "pending_row p q \<longleftrightarrow> pay_id q = pay_id p \<and> pay_status q = PayPending"

lemma settle_payments:
  assumes "p \<in> set (st_payments st)" "pay_status p = PayPending"
  shows "fst (settle newId p now st)
    \<and> st_payments (snd (settle newId p now st))
        = update_where (pending_row p) (\<lambda>q. q\<lparr>pay_status := PaySucceeded, pay_paidAt := Some now\<rparr>) (st_payments st)"
proof -
  have "count_where (\<lambda>q. pay_id q = pay_id p \<and> pay_status q = PayPending) (st_payments st) \<noteq> 0"
    using assms unfolding count_where_0_iff by auto
  then show ?thesis by (simp add: settle_def Let_def pending_row_def [abs_def] split: option.split)
qed

lemma handle_event_payments:
  assumes find: "List.find (event_hits prov (ev_providerRef ev)) (st_payments st) = Some p" and "pay_status p = PayPending"
  obtains f where "closes f"
    "st_payments (snd (handle_event k prov newId now ev st)) = update_where (pending_row p) f (st_payments st)"
proof -
  have p: "p \<in> set (st_payments st)" using find by (auto simp: find_Some_iff)
  note settle = settle_payments [OF p assms(2), of newId now]
  have failed: "st_payments (fail_pending p r st) = update_where (pending_row p)
      (\<lambda>q. q\<lparr>pay_status := PayFailed, pay_failureReason := Some r\<rparr>) (st_payments st)" for r
    by (simp add: fail_pending_def pending_row_def [abs_def])
  have "\<exists>f. closes f \<and> st_payments (snd (handle_event k prov newId now ev st)) = update_where (pending_row p) f (st_payments st)"
  proof (cases "ev_succeeded ev \<and> report_matches prov ev p")
    case True
    then have "st_payments (snd (handle_event k prov newId now ev st))
        = update_where (pending_row p) (\<lambda>q. q\<lparr>pay_status := PaySucceeded, pay_paidAt := Some now\<rparr>) (st_payments st)"
      using find assms(2) settle
      by (auto simp: handle_event_def event_hits_def [abs_def] liftBillingSuspension_def split: prod.splits bool.splits)
    then show ?thesis
      by (intro exI [of _ "\<lambda>q. q\<lparr>pay_status := PaySucceeded, pay_paidAt := Some now\<rparr>"]) (simp add: closes_def)
  next
    case False
    define r where "r = (if ev_succeeded ev then ''amount mismatch'' else ev_reason ev)"
    from False have "st_payments (snd (handle_event k prov newId now ev st))
        = update_where (pending_row p) (\<lambda>q. q\<lparr>pay_status := PayFailed, pay_failureReason := Some r\<rparr>) (st_payments st)"
      using find assms(2) by (auto simp: handle_event_def event_hits_def [abs_def] Let_def failed r_def)
    then show ?thesis
      by (intro exI [of _ "\<lambda>q. q\<lparr>pay_status := PayFailed, pay_failureReason := Some r\<rparr>"]) (simp add: closes_def)
  qed
  then show ?thesis using that by blast
qed

lemma handle_event_again:
  assumes "ev_providerRef ev' = ev_providerRef ev"
  shows "snd (handle_event k' prov newId' now' ev' (snd (handle_event k prov newId now ev st)))
    = snd (handle_event k prov newId now ev st)"
proof (cases "List.find (event_hits prov (ev_providerRef ev)) (st_payments st)")
  case None
  then show ?thesis using assms by (simp add: handle_event_def event_hits_def [abs_def])
next
  case (Some p)
  show ?thesis
  proof (cases "pay_status p = PayPending")
    case False
    then show ?thesis using Some assms by (simp add: handle_event_def event_hits_def [abs_def])
  next
    case True
    obtain f where f: "closes f"
      and rows: "st_payments (snd (handle_event k prov newId now ev st)) = update_where (pending_row p) f (st_payments st)"
      using handle_event_payments [OF Some True] by blast
    have "List.find (event_hits prov (ev_providerRef ev)) (st_payments (snd (handle_event k prov newId now ev st))) = Some (f p)"
      unfolding rows using f True Some
      by (subst find_update_where) (auto simp: closes_def event_hits_def pending_row_def)
    moreover have "pay_status (f p) \<noteq> PayPending" using f by (simp add: closes_def)
    ultimately show ?thesis using assms by (simp add: handle_event_def event_hits_def [abs_def])
  qed
qed

end
