(* ===== verification/Invoices.thy ===== *)
theory Invoices
  imports Credits
begin

text \<open>
  Monthly invoicing, \<open>billing/invoices.service.ts\<close> with \<open>linkManagedWorkLogs\<close> of
  \<open>managed/billing-hooks/link-worklogs.ts\<close>.  A database transaction that throws leaves the tables
  as they were; the invoice number sequence is not rolled back, as in PostgreSQL.  Listing, the
  PDF row and the notification mails do not change billing state and are not modelled.
\<close>

section \<open>Operations\<close>

fun link_lines :: "id \<Rightarrow> (id \<times> instant) list \<Rightarrow> work_log list \<Rightarrow> work_log list" where
  "link_lines invoiceId [] logs = logs"
| "link_lines invoiceId ((contractId, period) # rest) logs =
     link_lines invoiceId rest
       (update_where (\<lambda>w. wl_contractId w = contractId \<and> wl_billedPeriod w = Some period
                          \<and> wl_billedInvoiceId w = None)
          (\<lambda>w. w\<lparr>wl_billedInvoiceId := Some invoiceId\<rparr>) logs)"

definition linkManagedWorkLogs :: "id \<Rightarrow> store \<Rightarrow> store" where
  "linkManagedWorkLogs invoiceId st =
     (let lines = filter (\<lambda>u. ur_invoiceId u = Some invoiceId
                              \<and> ur_resourceType u \<in> {RManagedPlan, RManagedOverage}) (st_usage st);
          keys = remdups (map (\<lambda>u. (ur_resourceId u, ur_hourStart u)) lines)
      in st\<lparr>st_workLogs := link_lines invoiceId keys (st_workLogs st)\<rparr>)"

text \<open>The usage records an invoice run bills for a team.\<close>

definition billable :: "team \<Rightarrow> instant \<Rightarrow> instant \<Rightarrow> usage_record \<Rightarrow> bool" where
  "billable tm pstart pend u \<longleftrightarrow>
     ur_projectId u \<in> set (tm_projects tm) \<and> pstart \<le> ur_hourStart u \<and> ur_hourStart u < pend
     \<and> ur_invoiceId u = None"

definition same_period :: "id \<Rightarrow> instant \<Rightarrow> instant \<Rightarrow> invoice \<Rightarrow> bool" where
  "same_period teamId pstart pend v \<longleftrightarrow>
     inv_teamId v = teamId \<and> inv_periodStart v = pstart \<and> inv_periodEnd v = pend"

definition new_invoice ::
  "id \<Rightarrow> team \<Rightarrow> nat \<Rightarrow> instant \<Rightarrow> instant \<Rightarrow> instant \<Rightarrow> int \<Rightarrow> int \<Rightarrow> int \<Rightarrow> invoice" where
  "new_invoice newId tm seq pstart pend now subtotal tax credit =
     (let total = subtotal + tax - credit in
      \<lparr>inv_id = newId, inv_teamId = tm_id tm,
       inv_number = invoiceNumber (nat (getUTCFullYear now)) seq,
       inv_currency = tm_currency tm, inv_periodStart = pstart, inv_periodEnd = pend,
       inv_subtotalMinor = subtotal, inv_taxMinor = tax, inv_creditMinor = credit,
       inv_totalMinor = total, inv_creditedMinor = 0,
       inv_status = (if total = 0 then InvPaid else InvOpen),
       inv_eInvoiceType = (if tm_country tm = ''SA'' then Some ''zatca'' else None),
       inv_dueAt = Some (pend + 14 * 86400000),
       inv_paidAt = (if total = 0 then Some now else None),
       inv_voidedAt = None, inv_reminderStage = 0, inv_lastReminderAt = None\<rparr>)"

text \<open>
  One team's invoice for one period.  The unique indexes on the number and on team and period
  turn a second invoice into \<open>P2002\<close>, which the service answers with null.
\<close>

definition issueForTeam ::
  "id \<Rightarrow> team \<Rightarrow> instant \<Rightarrow> instant \<Rightarrow> instant \<Rightarrow> store \<Rightarrow> invoice option result \<times> store" where
  "issueForTeam newId tm pstart pend now st =
     (if \<exists>v\<in>set (st_invoices st). same_period (tm_id tm) pstart pend v then (Inr None, st)
      else
        let records = filter (billable tm pstart pend) (st_usage st);
            subtotal = sum_by ur_amountMinor records
        in if subtotal \<le> 0 then (Inr None, st)
           else
             let tax = js_round (js_mul (of_int subtotal) (taxRateFor (tm_currency tm) (tm_country tm)))
             in case consumeCredits (tm_id tm) (subtotal + tax) now (st_credits st) of
                  Inl e \<Rightarrow> (Inl e, st)
                | Inr (credit, credits') \<Rightarrow>
                    let seq = Suc (st_invoiceSeq st);
                        bumped = st\<lparr>st_invoiceSeq := seq\<rparr>;
                        v = new_invoice newId tm seq pstart pend now subtotal tax credit;
                        claim = (\<lambda>u. ur_id u \<in> ur_id ` set records \<and> ur_invoiceId u = None)
                    in if inv_number v \<in> inv_number ` set (st_invoices st) then (Inr None, bumped)
                       else if count_where claim (st_usage st) \<noteq> length records
                       then (Inl (JsError ''usage records changed while invoicing''), bumped)
                       else (Inr (Some v),
                             linkManagedWorkLogs newId
                               (bumped\<lparr>st_credits := credits',
                                       st_invoices := st_invoices st @ [v],
                                       st_usage := update_where claim
                                         (\<lambda>u. u\<lparr>ur_invoiceId := Some newId\<rparr>) (st_usage st)\<rparr>)))"

text \<open>
  The monthly run.  \<open>gen\<close> gives the identifier the database generates for a team's invoice; the
  teams are read once at the start; a failure for one team is logged and the next one continues.
  The result counts the invoices issued and the failures.
\<close>

definition billed_team :: "instant \<Rightarrow> team \<Rightarrow> bool" where
  "billed_team pstart tm \<longleftrightarrow>
     tm_status tm \<noteq> AccClosed \<or> (case tm_closedAt tm of None \<Rightarrow> False | Some c \<Rightarrow> pstart \<le> c)"

fun issue_teams ::
  "(id \<Rightarrow> id) \<Rightarrow> instant \<Rightarrow> instant \<Rightarrow> instant \<Rightarrow> team list \<Rightarrow> nat \<times> nat \<Rightarrow> store \<Rightarrow> (nat \<times> nat) \<times> store" where
  "issue_teams gen pstart pend now [] counts st = (counts, st)"
| "issue_teams gen pstart pend now (tm # tms) (issued, failed) st =
     (case issueForTeam (gen (tm_id tm)) tm pstart pend now st of
        (Inl e, st') \<Rightarrow> issue_teams gen pstart pend now tms (issued, Suc failed) st'
      | (Inr None, st') \<Rightarrow> issue_teams gen pstart pend now tms (issued, failed) st'
      | (Inr (Some v), st') \<Rightarrow>
          issue_teams gen pstart pend now tms (Suc issued, failed)
            (emit ''invoice.issued'' (tm_id tm) (inv_id v) st'))"

definition issueForPreviousMonth :: "(id \<Rightarrow> id) \<Rightarrow> instant \<Rightarrow> store \<Rightarrow> nat \<times> store" where
  "issueForPreviousMonth gen now st =
     (let pend = startOfMonth now;
          pstart = startOfMonth (pend - 1);
          ((issued, failed), st') =
            issue_teams gen pstart pend now (filter (billed_team pstart) (st_teams st)) (0, 0) st
      in (issued, st'))"

section \<open>What an issued invoice looks like\<close>

text \<open>The money on an invoice adds up and nothing on it is negative.\<close>

definition invoice_ok :: "invoice \<Rightarrow> bool" where
  "invoice_ok v \<longleftrightarrow>
     inv_totalMinor v = inv_subtotalMinor v + inv_taxMinor v - inv_creditMinor v
     \<and> 0 \<le> inv_subtotalMinor v \<and> 0 \<le> inv_taxMinor v \<and> 0 \<le> inv_creditMinor v
     \<and> 0 \<le> inv_creditedMinor v \<and> inv_creditedMinor v \<le> inv_totalMinor v"

lemma new_invoice_ok:
  assumes "0 \<le> subtotal" "0 \<le> tax" "0 \<le> credit" "credit \<le> subtotal + tax"
  shows "invoice_ok (new_invoice newId tm seq pstart pend now subtotal tax credit)"
  using assms by (simp add: invoice_ok_def new_invoice_def Let_def)

lemma linkManagedWorkLogs_frame [simp]:
  "st_invoices (linkManagedWorkLogs i st) = st_invoices st"
  "st_credits (linkManagedWorkLogs i st) = st_credits st"
  "st_usage (linkManagedWorkLogs i st) = st_usage st"
  "st_teams (linkManagedWorkLogs i st) = st_teams st"
  "st_payments (linkManagedWorkLogs i st) = st_payments st"
  "st_creditNotes (linkManagedWorkLogs i st) = st_creditNotes st"
  "st_invoiceSeq (linkManagedWorkLogs i st) = st_invoiceSeq st"
  by (simp_all add: linkManagedWorkLogs_def Let_def)

text \<open>
  Everything a successful call implies, in one place: the amounts, the consumed credit, the
  linked records and the new row.
\<close>

lemma issueForTeam_Some:
  assumes run: "issueForTeam newId tm pstart pend now st = (Inr (Some v), st')"
    and uniq: "uniq cr_id (st_credits st)"
  defines "records \<equiv> filter (billable tm pstart pend) (st_usage st)"
  defines "subtotal \<equiv> sum_by ur_amountMinor records"
  defines "tax \<equiv> js_round (js_mul (of_int subtotal) (taxRateFor (tm_currency tm) (tm_country tm)))"
  defines "avail \<equiv> sum_by cr_remainingMinor (spendable_credits (tm_id tm) now (st_credits st))"
  shows "v = new_invoice newId tm (Suc (st_invoiceSeq st)) pstart pend now subtotal tax (min (subtotal + tax) avail)"
    and "0 < subtotal" "0 \<le> tax" "subtotal \<le> 2 ^ 53 \<Longrightarrow> tax \<le> subtotal" "0 \<le> avail"
    and "st_invoices st' = st_invoices st @ [v]"
    and "sum_by cr_remainingMinor (st_credits st') = sum_by cr_remainingMinor (st_credits st) - min (subtotal + tax) avail"
    and "st_usage st' = update_where (\<lambda>u. ur_id u \<in> ur_id ` set records \<and> ur_invoiceId u = None)
                          (\<lambda>u. u\<lparr>ur_invoiceId := Some newId\<rparr>) (st_usage st)"
    and "inv_number v \<notin> inv_number ` set (st_invoices st)"
    and "(\<forall>c\<in>set (st_credits st). 0 \<le> cr_remainingMinor c) \<Longrightarrow> (\<forall>c\<in>set (st_credits st'). 0 \<le> cr_remainingMinor c)"
    and "map cr_id (st_credits st') = map cr_id (st_credits st)"
    and "st_payments st' = st_payments st" "st_creditNotes st' = st_creditNotes st"
    and "\<exists>credit. consumeCredits (tm_id tm) (subtotal + tax) now (st_credits st) = Inr (credit, st_credits st')"
proof -
  note defs = records_def [symmetric] subtotal_def [symmetric] tax_def [symmetric]
  have ex: "\<not> (\<exists>v\<in>set (st_invoices st). same_period (tm_id tm) pstart pend v)" and pos: "\<not> subtotal \<le> 0"
    using run unfolding issueForTeam_def defs Let_def by (auto split: if_splits)
  show sub: "0 < subtotal" using pos by simp
  have rate: "0 \<le> taxRateFor (tm_currency tm) (tm_country tm)" "taxRateFor (tm_currency tm) (tm_country tm) \<le> 1"
    using taxRateFor_bounds [of "tm_currency tm" "tm_country tm"] by simp_all
  show tax: "0 \<le> tax" unfolding tax_def using rate(1) sub by (intro tax_nonneg) simp_all
  show "tax \<le> subtotal" if "subtotal \<le> 2 ^ 53"
    unfolding tax_def using tax_bounds [OF rate _ that] sub by simp
  show avail: "0 \<le> avail" unfolding avail_def by (rule spend.available_nonneg)
  obtain cs where cs: "consumeCredits (tm_id tm) (subtotal + tax) now (st_credits st) = Inr (min (subtotal + tax) avail, cs)"
    and csp: "map cr_id cs = map cr_id (st_credits st)"
      "sum_by cr_remainingMinor cs = sum_by cr_remainingMinor (st_credits st) - min (subtotal + tax) avail"
      "(\<forall>r\<in>set (st_credits st). 0 \<le> cr_remainingMinor r) \<Longrightarrow> (\<forall>r\<in>set cs. 0 \<le> cr_remainingMinor r)"
    using consumeCredits_ok [OF uniq, of "subtotal + tax" "tm_id tm" now] sub tax
    unfolding avail_def by (metis add_nonneg_nonneg less_imp_le)
  let ?v = "new_invoice newId tm (Suc (st_invoiceSeq st)) pstart pend now subtotal tax (min (subtotal + tax) avail)"
  let ?claim = "\<lambda>u. ur_id u \<in> ur_id ` set records \<and> ur_invoiceId u = None"
  have res: "inv_number ?v \<notin> inv_number ` set (st_invoices st)" "v = ?v"
    "st' = linkManagedWorkLogs newId (st\<lparr>st_invoiceSeq := Suc (st_invoiceSeq st), st_credits := cs,
        st_invoices := st_invoices st @ [?v],
        st_usage := update_where ?claim (\<lambda>u. u\<lparr>ur_invoiceId := Some newId\<rparr>) (st_usage st)\<rparr>)"
    using run ex pos cs unfolding issueForTeam_def defs Let_def
    by (auto split: if_splits)
  show "v = ?v" "st_invoices st' = st_invoices st @ [v]" "inv_number v \<notin> inv_number ` set (st_invoices st)"
    "sum_by cr_remainingMinor (st_credits st') = sum_by cr_remainingMinor (st_credits st) - min (subtotal + tax) avail"
    "st_usage st' = update_where ?claim (\<lambda>u. u\<lparr>ur_invoiceId := Some newId\<rparr>) (st_usage st)"
    "map cr_id (st_credits st') = map cr_id (st_credits st)"
    "st_payments st' = st_payments st" "st_creditNotes st' = st_creditNotes st"
    using res csp by simp_all
  show "\<exists>credit. consumeCredits (tm_id tm) (subtotal + tax) now (st_credits st) = Inr (credit, st_credits st')"
    using res cs by simp
  show "(\<forall>c\<in>set (st_credits st). 0 \<le> cr_remainingMinor c) \<Longrightarrow> (\<forall>c\<in>set (st_credits st'). 0 \<le> cr_remainingMinor c)"
    using res csp by simp
qed

lemma issueForTeam_again:
  assumes "issueForTeam newId tm pstart pend now st = (Inr (Some v), st')"
  shows "issueForTeam newId' tm pstart pend now' st' = (Inr None, st')"
proof -
  have "v \<in> set (st_invoices st')" "same_period (tm_id tm) pstart pend v"
    using assms unfolding issueForTeam_def Let_def
    by (auto split: if_splits sum.splits prod.splits simp: new_invoice_def same_period_def)
  then show ?thesis by (auto simp: issueForTeam_def)
qed

text \<open>Nothing the invoice covers is left to bill again.\<close>

lemma issueForTeam_bills_all:
  assumes "issueForTeam newId tm pstart pend now st = (Inr (Some v), st')" "uniq cr_id (st_credits st)"
  shows "\<forall>u\<in>set (st_usage st'). \<not> billable tm pstart pend u"
  unfolding issueForTeam_Some(8) [OF assms] ball_update_where
  by (auto simp: billable_def)

end
