(* ===== verification/Billing_Admin.thy ===== *)
theory Billing_Admin
  imports Payments Invoices
begin

text \<open>
  The back office money operations, \<open>billing/billing-admin.service.ts\<close>: card refunds, credit notes,
  void, payments received outside the card flow and write offs.  The card gateway is outside the
  program: \<open>cardRefund ref amount\<close> is its refund reference, or None when it fails.  Amounts are
  integers, so \<open>Number.isInteger\<close> always holds.  The advisory locks make the transactions of one
  invoice run one after the other, which is what explicit state passing expresses.
\<close>

text \<open>The transaction of \<open>refund\<close>: claim the payment row as it was read, then take the credit back.\<close>

definition refund_tx :: "payment \<Rightarrow> int \<Rightarrow> string \<Rightarrow> instant \<Rightarrow> store \<Rightarrow> store result" where
  "refund_tx p amount refundRef now st =
     (let left = pay_amountMinor p - pay_refundedMinor p;
          claim = (\<lambda>q. pay_id q = pay_id p \<and> pay_refundedMinor q = pay_refundedMinor p);
          st1 = st\<lparr>st_payments := update_where claim
                     (\<lambda>q. q\<lparr>pay_refundedMinor := pay_refundedMinor q + amount,
                            pay_refundRef := Some refundRef, pay_refundedAt := Some now,
                            pay_status := (if amount = left then PayRefunded else pay_status q)\<rparr>)
                     (st_payments st)\<rparr>
      in if count_where claim (st_payments st) = 0 then Inl (JsError ''payment changed during the refund'')
         else if pay_invoiceId p \<noteq> None then Inr st1
         else (case takeBackPrepaid (pay_teamId p) amount (st_credits st1) of
                 Inl e \<Rightarrow> Inl e
               | Inr credits' \<Rightarrow> Inr (st1\<lparr>st_credits := credits'\<rparr>)))"

definition refund ::
  "(string \<Rightarrow> int \<Rightarrow> string option) \<Rightarrow> id \<Rightarrow> int option \<Rightarrow> instant \<Rightarrow> store \<Rightarrow> payment result \<times> store" where
  "refund cardRefund paymentId amountMinor now st =
     (case find_by pay_id paymentId (st_payments st) of
        None \<Rightarrow> (Inl notFound, st)
      | Some p \<Rightarrow>
          if pay_status p \<noteq> PaySucceeded then (Inl invalidState, st)
          else if \<not> providerByName (pay_provider p) then (Inl invalidState, st)
          else case pay_providerRef p of
            None \<Rightarrow> (Inl invalidState, st)
          | Some ref \<Rightarrow>
              let left = pay_amountMinor p - pay_refundedMinor p;
                  amount = (case amountMinor of None \<Rightarrow> left | Some a \<Rightarrow> a)
              in if amount \<le> 0 \<or> left < amount then (Inl invalid, st)
                 else if pay_invoiceId p = None \<and> prepaidBalance (pay_teamId p) (st_credits st) < amount
                 then (Inl invalidState, st)
                 else case cardRefund ref amount of
                   None \<Rightarrow> (Inl (JsError ''gateway refund failed''), st)
                 | Some refundRef \<Rightarrow>
                     (case refund_tx p amount refundRef now st of
                        Inl e \<Rightarrow> (Inl e, st)
                      | Inr st1 \<Rightarrow>
                          let st2 = emit ''payment.refunded'' (pay_teamId p) (pay_id p) st1
                          in case find_by pay_id (pay_id p) (st_payments st2) of
                               None \<Rightarrow> (Inl (JsError ''payment not found''), st2)
                             | Some q \<Rightarrow> (Inr q, st2)))"

definition notes_total :: "id \<Rightarrow> credit_note list \<Rightarrow> int" where
  "notes_total invoiceId notes = sum_by cn_amountMinor (filter (\<lambda>n. cn_invoiceId n = invoiceId) notes)"

definition refund_credit :: "id \<Rightarrow> invoice \<Rightarrow> int \<Rightarrow> instant \<Rightarrow> credit" where
  "refund_credit newId v amount now =
     \<lparr>cr_id = newId, cr_teamId = inv_teamId v, cr_kind = Refund, cr_currency = inv_currency v,
      cr_amountMinor = amount, cr_remainingMinor = amount, cr_expiresAt = None, cr_createdAt = now\<rparr>"

definition creditNote ::
  "(id \<Rightarrow> power_op \<Rightarrow> bool) \<Rightarrow> id \<Rightarrow> id \<Rightarrow> actor \<Rightarrow> id \<Rightarrow> int \<Rightarrow> instant \<Rightarrow> store \<Rightarrow> credit_note result \<times> store" where
  "creditNote startOk creditId noteId who invoiceId amount now st =
     (case find_by inv_id invoiceId (st_invoices st) of
        None \<Rightarrow> (Inl notFound, st)
      | Some v \<Rightarrow>
          if inv_status v \<noteq> InvOpen \<and> inv_status v \<noteq> InvPaid then (Inl invalidState, st)
          else
            let gross = inv_subtotalMinor v + inv_taxMinor v;
                already = notes_total (inv_id v) (st_creditNotes st)
            in if amount \<le> 0 \<or> gross < already + amount then (Inl invalid, st)
               else
                 let due = (if inv_status v = InvOpen then inv_totalMinor v - inv_creditedMinor v else 0);
                     toDue = min due amount;
                     toCredit = amount - toDue;
                     st1 = (if 0 < toCredit then add_credit (refund_credit creditId v toCredit now) st else st);
                     seq = Suc (st_creditNoteSeq st1);
                     note = \<lparr>cn_id = noteId, cn_number = creditNoteNumber (nat (getUTCFullYear now)) seq,
                             cn_teamId = inv_teamId v, cn_invoiceId = inv_id v, cn_currency = inv_currency v,
                             cn_amountMinor = amount, cn_appliedToDueMinor = toDue,
                             cn_creditId = (if 0 < toCredit then Some creditId else None),
                             cn_createdBy = a_userId who\<rparr>;
                     st2 = st1\<lparr>st_creditNoteSeq := seq, st_creditNotes := st_creditNotes st1 @ [note]\<rparr>;
                     fully = (gross \<le> already + amount \<or> inv_status v = InvOpen \<and> toDue = due);
                     st3 = update_invoice (inv_id v)
                             (\<lambda>r. r\<lparr>inv_creditedMinor := inv_creditedMinor r + toDue,
                                    inv_status := (if fully then InvCredited else inv_status r)\<rparr>) st2;
                     st4 = emit ''invoice.credited'' (inv_teamId v) invoiceId st3
                 in (Inr note, if fully then liftBillingSuspension startOk (inv_teamId v) st4 else st4))"

text \<open>\<open>void\<close> is a keyword of neither language here, but the suffix keeps the name apart from others.\<close>

definition void_invoice ::
  "(id \<Rightarrow> power_op \<Rightarrow> bool) \<Rightarrow> id \<Rightarrow> id \<Rightarrow> instant \<Rightarrow> store \<Rightarrow> unit result \<times> store" where
  "void_invoice startOk creditId invoiceId now st =
     (case find_by inv_id invoiceId (st_invoices st) of
        None \<Rightarrow> (Inl notFound, st)
      | Some v \<Rightarrow>
          if inv_status v \<noteq> InvOpen \<and> inv_status v \<noteq> InvDraft
             \<or> (\<exists>p\<in>set (st_payments st). pay_invoiceId p = Some (inv_id v) \<and> pay_status p = PaySucceeded)
          then (Inl invalidState, st)
          else
            let st1 = update_invoice (inv_id v) (\<lambda>r. r\<lparr>inv_status := InvVoid, inv_voidedAt := Some now\<rparr>) st;
                st2 = st1\<lparr>st_payments := update_where
                        (\<lambda>p. pay_invoiceId p = Some (inv_id v) \<and> pay_status p = PayPending)
                        (\<lambda>p. p\<lparr>pay_status := PayFailed, pay_failureReason := Some ''invoice voided''\<rparr>)
                        (st_payments st1)\<rparr>;
                st3 = (if 0 < inv_creditMinor v
                       then add_credit (refund_credit creditId v (inv_creditMinor v) now) st2 else st2);
                st4 = emit ''invoice.voided'' (inv_teamId v) invoiceId st3
            in (Inr (), liftBillingSuspension startOk (inv_teamId v) st4))"

definition recordPayment ::
  "(id \<Rightarrow> power_op \<Rightarrow> bool) \<Rightarrow> id \<Rightarrow> id \<Rightarrow> provider \<Rightarrow> int option \<Rightarrow> string option \<Rightarrow> instant option \<Rightarrow> instant
     \<Rightarrow> store \<Rightarrow> payment result \<times> store" where
  "recordPayment startOk newId invoiceId prov amountMinor reference receivedAt now st =
     (case find_by inv_id invoiceId (st_invoices st) of
        None \<Rightarrow> (Inl notFound, st)
      | Some v \<Rightarrow>
          if inv_status v \<noteq> InvOpen \<and> inv_status v \<noteq> InvUncollectible then (Inl invalidState, st)
          else
            let due = inv_totalMinor v - inv_creditedMinor v;
                amount = (case amountMinor of None \<Rightarrow> due | Some a \<Rightarrow> a)
            in if amount \<noteq> due then (Inl invalid, st)
               else
                 let paidAt = (case receivedAt of None \<Rightarrow> now | Some t \<Rightarrow> t);
                     p = (new_payment newId (inv_teamId v) (Some (inv_id v)) prov (inv_currency v) amount now)
                           \<lparr>pay_providerRef := reference, pay_status := PaySucceeded, pay_paidAt := Some paidAt\<rparr>;
                     st1 = st\<lparr>st_payments := st_payments st @ [p]\<rparr>;
                     st2 = update_invoice (inv_id v) (\<lambda>r. r\<lparr>inv_status := InvPaid, inv_paidAt := Some paidAt\<rparr>) st1;
                     st3 = emit ''invoice.paid'' (inv_teamId v) newId st2
                 in (Inr p, liftBillingSuspension startOk (inv_teamId v) st3))"

definition markUncollectible :: "id \<Rightarrow> store \<Rightarrow> invoice result \<times> store" where
  "markUncollectible invoiceId st =
     (let opened = (\<lambda>v. inv_id v = invoiceId \<and> inv_status v = InvOpen);
          n = count_where opened (st_invoices st);
          st1 = st\<lparr>st_invoices := update_where opened (\<lambda>v. v\<lparr>inv_status := InvUncollectible\<rparr>) (st_invoices st)\<rparr>
      in case find_by inv_id invoiceId (st_invoices st1) of
           None \<Rightarrow> (Inl notFound, st1)
         | Some v \<Rightarrow>
             if n = 0 then (Inl invalidState, st1)
             else (Inr v, emit ''invoice.uncollectible'' (inv_teamId v) invoiceId st1))"

lemma liftBillingSuspension_frame [simp]:
  "st_invoices (liftBillingSuspension k t st) = st_invoices st"
  "st_credits (liftBillingSuspension k t st) = st_credits st"
  "st_payments (liftBillingSuspension k t st) = st_payments st"
  "st_creditNotes (liftBillingSuspension k t st) = st_creditNotes st"
  "st_usage (liftBillingSuspension k t st) = st_usage st"
  by (simp_all add: liftBillingSuspension_def)

section \<open>Refunding a top up takes the credit back\<close>

lemma refund_tx_topup:
  assumes "refund_tx p amount ref now st = Inr st'" "pay_invoiceId p = None"
    and "uniq cr_id (st_credits st)" "0 \<le> amount" "amount \<le> prepaidBalance (pay_teamId p) (st_credits st)"
  shows "sum_by cr_remainingMinor (st_credits st') = sum_by cr_remainingMinor (st_credits st) - amount"
proof -
  obtain cs where "takeBackPrepaid (pay_teamId p) amount (st_credits st) = Inr cs"
    and "sum_by cr_remainingMinor cs = sum_by cr_remainingMinor (st_credits st) - amount"
    using takeBackPrepaid_ok [OF assms(3-5)] by blast
  then show ?thesis using assms(1,2) by (auto simp: refund_tx_def Let_def split: if_splits)
qed

lemma refund_tx_payment:
  assumes "refund_tx p amount ref now st = Inr st'" "find_by pay_id (pay_id p) (st_payments st) = Some p"
  shows "map_option pay_refundedMinor (find_by pay_id (pay_id p) (st_payments st')) = Some (pay_refundedMinor p + amount)"
proof -
  have "st_payments st' = update_where (\<lambda>q. pay_id q = pay_id p \<and> pay_refundedMinor q = pay_refundedMinor p)
      (\<lambda>q. q\<lparr>pay_refundedMinor := pay_refundedMinor q + amount, pay_refundRef := Some ref, pay_refundedAt := Some now,
             pay_status := (if amount = pay_amountMinor p - pay_refundedMinor p then PayRefunded else pay_status q)\<rparr>)
      (st_payments st)"
    using assms(1) by (auto simp: refund_tx_def Let_def split: if_splits sum.splits)
  then show ?thesis using assms(2) by (simp add: find_by_update_where)
qed

lemma refund_topup:
  assumes run: "refund gw paymentId amountMinor now st = (Inr q, st')"
    and p: "find_by pay_id paymentId (st_payments st) = Some p" "pay_invoiceId p = None"
    and u: "uniq cr_id (st_credits st)"
  defines "amount \<equiv> (case amountMinor of None \<Rightarrow> pay_amountMinor p - pay_refundedMinor p | Some a \<Rightarrow> a)"
  shows "0 < amount \<and> pay_refundedMinor q = pay_refundedMinor p + amount
    \<and> sum_by cr_remainingMinor (st_credits st') = sum_by cr_remainingMinor (st_credits st) - amount"
proof -
  have pid: "pay_id p = paymentId" using find_by_Some [OF p(1)] by simp
  obtain ref st1 where a: "0 < amount" "amount \<le> prepaidBalance (pay_teamId p) (st_credits st)"
    and tx: "refund_tx p amount ref now st = Inr st1"
    and st': "st' = emit ''payment.refunded'' (pay_teamId p) (pay_id p) st1"
    and q: "find_by pay_id (pay_id p) (st_payments st1) = Some q"
    using run p by (auto simp: refund_def Let_def amount_def split: if_splits option.splits sum.splits)
  have "pay_refundedMinor q = pay_refundedMinor p + amount"
    using refund_tx_payment [OF tx] p(1) q by (simp add: pid)
  moreover have "sum_by cr_remainingMinor (st_credits st1) = sum_by cr_remainingMinor (st_credits st) - amount"
    using refund_tx_topup [OF tx p(2) u] a by simp
  ultimately show ?thesis using a st' by simp
qed

section \<open>Refunding a payment that arrived after its invoice was closed\<close>

lemma settle_closed_invoice:
  assumes "p \<in> set (st_payments st)" "pay_status p = PayPending" "pay_invoiceId p = Some i"
    and "\<forall>v\<in>set (st_invoices st). inv_id v = i \<longrightarrow> inv_status v \<noteq> InvOpen"
  shows "st_credits (snd (settle newId p now st)) = st_credits st @ [new_prepaid newId p now]"
proof -
  have "count_where (\<lambda>q. pay_id q = pay_id p \<and> pay_status q = PayPending) (st_payments st) \<noteq> 0"
    using assms(1,2) unfolding count_where_0_iff by auto
  moreover have "count_where (\<lambda>v. inv_id v = i \<and> inv_status v = InvOpen) (st_invoices st) = 0"
    using assms(4) by (simp add: count_where_0_iff)
  ultimately show ?thesis using assms(3) by (simp add: settle_def Let_def)
qed

lemma refund_invoice_credits:
  assumes "refund gw paymentId amountMinor now st = (Inr q, st')"
    and "find_by pay_id paymentId (st_payments st) = Some p" "pay_invoiceId p = Some i"
  shows "st_credits st' = st_credits st"
  using assms by (auto simp: refund_def refund_tx_def Let_def split: if_splits option.splits sum.splits)

lemma refund_of_late_payment:
  assumes p: "find_by pay_id (pay_id p) (st_payments st) = Some p" "pay_status p = PayPending" "pay_invoiceId p = Some i"
    and closed: "\<forall>v\<in>set (st_invoices st). inv_id v = i \<longrightarrow> inv_status v \<noteq> InvOpen"
    and run: "refund gw (pay_id p) amountMinor now' (snd (settle newId p now st)) = (Inr q, st')"
  shows "st_credits st' = st_credits st @ [new_prepaid newId p now]"
proof -
  have mem: "p \<in> set (st_payments st)" using find_by_Some [OF p(1)] by simp
  have "find_by pay_id (pay_id p) (st_payments (snd (settle newId p now st)))
      = Some (p\<lparr>pay_status := PaySucceeded, pay_paidAt := Some now\<rparr>)"
    using settle_payments [OF mem p(2), of newId now] p(1,2) by (simp add: find_by_update_where pending_row_def)
  then show ?thesis
    using refund_invoice_credits [OF run] p(3) settle_closed_invoice [OF mem p(2,3) closed, of newId now] by simp
qed

end
