(* ===== verification/Dunning.thy ===== *)
theory Dunning
  imports Trust
begin

text \<open>
  Daily dunning, \<open>billing/dunning.service.ts\<close>: reminders at 3, 7 and 14 days past due, suspension
  at 14 days, and the retry of the power off of suspended teams.  \<open>mailOk\<close> says, per invoice,
  whether the mails of \<open>remind\<close> are accepted; a refused mail throws and the loop goes on with the
  next invoice.  Invoices and team status are read once at the start.
\<close>

definition REMINDER_DAYS :: "int list" where "REMINDER_DAYS = [3, 7, 14]"
definition SUSPEND_AT :: int where "SUSPEND_AT = 14"
definition DAY :: int where "DAY = 86400000"

definition reminderStageFor :: "int \<Rightarrow> int" where
  "reminderStageFor daysOverdue =
     (case List.find (\<lambda>d. d \<le> daysOverdue) (rev REMINDER_DAYS) of None \<Rightarrow> 0 | Some d \<Rightarrow> d)"

text \<open>One invoice of the loop: the counters reminded and suspended, and the store.\<close>

definition dun_invoice ::
  "(id \<Rightarrow> bool) \<Rightarrow> (id \<Rightarrow> power_op \<Rightarrow> bool) \<Rightarrow> instant \<Rightarrow> invoice \<Rightarrow> account_status
     \<Rightarrow> nat \<times> nat \<Rightarrow> store \<Rightarrow> (nat \<times> nat) \<times> store" where
  "dun_invoice mailOk startOk now v status counts st =
     (case inv_dueAt v of
        None \<Rightarrow> (counts, st)
      | Some dueAt \<Rightarrow>
          let days = (now - dueAt) div DAY;
              stage = reminderStageFor days;
              due = inv_totalMinor v - inv_creditedMinor v;
              claim = (\<lambda>r. inv_id r = inv_id v \<and> inv_reminderStage r = inv_reminderStage v)
          in if stage \<le> inv_reminderStage v \<or> due \<le> 0 then (counts, st)
             else if count_where claim (st_invoices st) = 0 then (counts, st)
             else
               let st1 = st\<lparr>st_invoices := update_where claim
                              (\<lambda>r. r\<lparr>inv_reminderStage := stage, inv_lastReminderAt := Some now\<rparr>) (st_invoices st)\<rparr>;
                   suspending = (SUSPEND_AT \<le> stage \<and> status \<noteq> AccClosed)
               in if \<not> mailOk (inv_id v) then (counts, st1)
                  else
                    let st2 = emit ''invoice.overdue'' (inv_teamId v) (inv_id v) st1
                    in if suspending \<and> status \<noteq> AccSuspended then
                         let r = suspend startOk (inv_teamId v)
                                   (BILLING_SUSPENSION @ '' invoice '' @ inv_number v @ '' is '' @ show_nat (nat days)
                                      @ '' days overdue'') now st2
                         in ((Suc (fst counts), if is_ok (fst r) then Suc (snd counts) else snd counts), snd r)
                       else ((Suc (fst counts), snd counts), st2))"

fun dun_each ::
  "(id \<Rightarrow> bool) \<Rightarrow> (id \<Rightarrow> power_op \<Rightarrow> bool) \<Rightarrow> instant \<Rightarrow> (invoice \<times> account_status) list
     \<Rightarrow> nat \<times> nat \<Rightarrow> store \<Rightarrow> (nat \<times> nat) \<times> store" where
  "dun_each mailOk startOk now [] counts st = (counts, st)"
| "dun_each mailOk startOk now ((v, status) # rest) counts st =
     (case dun_invoice mailOk startOk now v status counts st of
        (counts', st') \<Rightarrow> dun_each mailOk startOk now rest counts' st')"

definition overdue_for :: "instant \<Rightarrow> invoice \<Rightarrow> bool" where
  "overdue_for now v \<longleftrightarrow>
     inv_status v = InvOpen
     \<and> (case inv_dueAt v of None \<Rightarrow> False | Some d \<Rightarrow> d < now - hd REMINDER_DAYS * DAY)
     \<and> inv_reminderStage v < SUSPEND_AT"

definition overdue_invoices :: "instant \<Rightarrow> store \<Rightarrow> (invoice \<times> account_status) list" where
  "overdue_invoices now st =
     (let withTeam = (\<lambda>v. map_option (\<lambda>t. (v, tm_status t)) (find_by tm_id (inv_teamId v) (st_teams st)))
      in List.map_filter withTeam
           (sort_key (\<lambda>v. case inv_dueAt v of None \<Rightarrow> 0 | Some d \<Rightarrow> d) (filter (overdue_for now) (st_invoices st))))"

definition needs_power_off :: "store \<Rightarrow> team \<Rightarrow> bool" where
  "needs_power_off st tm \<longleftrightarrow>
     tm_status tm = AccSuspended
     \<and> (\<exists>s\<in>set (st_servers st). sv_teamId s = tm_id tm \<and> sv_status s = SvActive \<and> sv_deletedAt s = None)"

fun enforce_each :: "(id \<Rightarrow> power_op \<Rightarrow> bool) \<Rightarrow> id list \<Rightarrow> store \<Rightarrow> store" where
  "enforce_each startOk [] st = st"
| "enforce_each startOk (t # ts) st = enforce_each startOk ts (snd (enforceSuspension startOk t st))"

definition dunning_run ::
  "(id \<Rightarrow> bool) \<Rightarrow> (id \<Rightarrow> power_op \<Rightarrow> bool) \<Rightarrow> instant \<Rightarrow> store \<Rightarrow> (nat \<times> nat) \<times> store" where
  "dunning_run mailOk startOk now st =
     (let (counts, st1) = dun_each mailOk startOk now (overdue_invoices now st) (0, 0) st;
          teams = map tm_id (filter (needs_power_off st1) (st_teams st1))
      in (counts, enforce_each startOk teams st1))"

section \<open>Stages\<close>

lemma reminderStageFor_cases:
  "reminderStageFor d = (if 14 \<le> d then 14 else if 7 \<le> d then 7 else if 3 \<le> d then 3 else 0)"
  by (simp add: reminderStageFor_def REMINDER_DAYS_def)

lemma reminderStageFor_mono: "a \<le> b \<Longrightarrow> reminderStageFor a \<le> reminderStageFor b"
  by (simp add: reminderStageFor_cases)

section \<open>Frames\<close>

lemma enforceSuspension_frame:
  "st_invoices (snd (enforceSuspension k t st)) = st_invoices st
   \<and> st_credits (snd (enforceSuspension k t st)) = st_credits st
   \<and> st_payments (snd (enforceSuspension k t st)) = st_payments st
   \<and> st_creditNotes (snd (enforceSuspension k t st)) = st_creditNotes st
   \<and> st_teams (snd (enforceSuspension k t st)) = st_teams st"
  by (simp add: enforceSuspension_def powerOffRunning_def power_off_each_frame split: option.splits)

lemma enforce_each_frame:
  "st_invoices (enforce_each k ts st) = st_invoices st
   \<and> st_credits (enforce_each k ts st) = st_credits st
   \<and> st_payments (enforce_each k ts st) = st_payments st
   \<and> st_creditNotes (enforce_each k ts st) = st_creditNotes st
   \<and> st_teams (enforce_each k ts st) = st_teams st"
  by (induction ts arbitrary: st) (simp_all add: enforceSuspension_frame)

text \<open>
  One invoice of the loop writes only reminder columns; \<open>dunned\<close> is the row transformer.
\<close>

definition dunned :: "instant \<Rightarrow> invoice \<Rightarrow> invoice list \<Rightarrow> invoice list" where
  "dunned now v rows =
     (case inv_dueAt v of None \<Rightarrow> rows
      | Some dueAt \<Rightarrow>
          let stage = reminderStageFor ((now - dueAt) div DAY)
          in if stage \<le> inv_reminderStage v \<or> inv_totalMinor v - inv_creditedMinor v \<le> 0 then rows
             else update_where (\<lambda>r. inv_id r = inv_id v \<and> inv_reminderStage r = inv_reminderStage v)
                    (\<lambda>r. r\<lparr>inv_reminderStage := stage, inv_lastReminderAt := Some now\<rparr>) rows)"

lemma suspend_notes [simp]:
  "st_creditNotes (snd (suspend k t r now st)) = st_creditNotes st"
  by (simp add: suspend_def Let_def split_beta powerOffRunning_def power_off_each_frame split: option.splits)

lemma dun_invoice_frame:
  "st_invoices (snd (dun_invoice m k now v s c st)) = dunned now v (st_invoices st)
   \<and> st_credits (snd (dun_invoice m k now v s c st)) = st_credits st
   \<and> st_payments (snd (dun_invoice m k now v s c st)) = st_payments st
   \<and> st_creditNotes (snd (dun_invoice m k now v s c st)) = st_creditNotes st"
proof (cases "inv_dueAt v")
  case (Some d)
  let ?claim = "\<lambda>r. inv_id r = inv_id v \<and> inv_reminderStage r = inv_reminderStage v"
  show ?thesis
  proof (cases "count_where ?claim (st_invoices st) = 0")
    case True
    then have "update_where ?claim f (st_invoices st) = st_invoices st" for f
      by (intro update_where_none) (simp add: count_where_0_iff)
    with True Some show ?thesis by (simp add: dun_invoice_def dunned_def Let_def)
  next
    case False
    with Some show ?thesis
      by (simp add: dun_invoice_def dunned_def Let_def suspend_frame)
  qed
qed (simp add: dun_invoice_def dunned_def)

section \<open>A stage goes out once, and suspension comes with it\<close>

text \<open>A reminder that is accepted on the last stage suspends a team that is not closed.\<close>

lemma dun_invoice_suspends:
  assumes "inv_dueAt v = Some d" "14 * DAY \<le> now - d" "inv_reminderStage v < 14"
    and "inv_creditedMinor v < inv_totalMinor v"
    and row: "v \<in> set (st_invoices st)" and mail: "mailOk (inv_id v)"
    and tm: "find_by tm_id (inv_teamId v) (st_teams st) = Some tm" "tm_status tm \<noteq> AccClosed" "tm_status tm \<noteq> AccSuspended"
  shows "\<exists>tm'. find_by tm_id (inv_teamId v) (st_teams (snd (dun_invoice mailOk startOk now v (tm_status tm) c st))) = Some tm'
      \<and> tm_status tm' = AccSuspended
      \<and> (\<exists>r. tm_suspensionReason tm' = Some r \<and> startsWith r BILLING_SUSPENSION)"
proof -
  have "14 \<le> (now - d) div DAY"
    using assms(2) by (simp add: DAY_def)
  then have stage: "reminderStageFor ((now - d) div DAY) = 14" by (simp add: reminderStageFor_cases)
  have "count_where (\<lambda>r. inv_id r = inv_id v \<and> inv_reminderStage r = inv_reminderStage v) (st_invoices st) \<noteq> 0"
    using row by (auto simp: count_where_0_iff)
  then show ?thesis
    using assms stage by (simp add: dun_invoice_def Let_def SUSPEND_AT_def suspend_team_status startsWith_iff)
qed

definition dun1 :: "instant \<Rightarrow> invoice \<Rightarrow> invoice" where
  "dun1 now v =
     (case inv_dueAt v of None \<Rightarrow> v
      | Some d \<Rightarrow>
          let stage = reminderStageFor ((now - d) div DAY)
          in if stage \<le> inv_reminderStage v \<or> inv_totalMinor v - inv_creditedMinor v \<le> 0 then v
             else v\<lparr>inv_reminderStage := stage, inv_lastReminderAt := Some now\<rparr>)"

lemma dun1_id [simp]: "inv_id (dun1 now v) = inv_id v"
  by (simp add: dun1_def Let_def split: option.splits)

lemma dunned_rows:
  assumes "uniq inv_id rows" "v \<in> set rows"
  shows "dunned now v rows = map (\<lambda>r. if r = v then dun1 now v else r) rows"
proof -
  have "(inv_id r = inv_id v \<and> inv_reminderStage r = inv_reminderStage v) = (r = v)" if "r \<in> set rows" for r
    using uniq_inj [OF assms(1) that assms(2)] by auto
  moreover have "rows = map (\<lambda>r. if r = v then dun1 now v else r) rows" if "dun1 now v = v"
    by (rule map_idI [symmetric]) (simp add: that)
  ultimately show ?thesis
    by (cases "inv_dueAt v") (auto simp: dunned_def dun1_def update_where_def Let_def cong: if_cong)
qed

lemma dun_each_invoices:
  "st_invoices (snd (dun_each m k now vs c st)) = fold (dunned now) (map fst vs) (st_invoices st)"
proof (induction vs arbitrary: c st)
  case (Cons x vs)
  then show ?case by (cases x) (simp add: split_beta dun_invoice_frame)
qed simp

lemma dun_each_frame:
  "st_credits (snd (dun_each m k now vs c st)) = st_credits st
   \<and> st_payments (snd (dun_each m k now vs c st)) = st_payments st
   \<and> st_creditNotes (snd (dun_each m k now vs c st)) = st_creditNotes st"
proof (induction vs arbitrary: c st)
  case (Cons x vs)
  then show ?case by (cases x) (simp add: split_beta dun_invoice_frame)
qed simp

lemma map_filter_fst:
  "map fst (List.map_filter (\<lambda>v. map_option (\<lambda>t. (v, g t)) (h v)) xs) = filter (\<lambda>v. h v \<noteq> None) xs"
  by (induction xs) (auto simp: List.map_filter_simps split: option.splits)

lemma overdue_fst:
  "map fst (overdue_invoices now st) =
     filter (\<lambda>v. find_by tm_id (inv_teamId v) (st_teams st) \<noteq> None)
       (sort_key (\<lambda>v. case inv_dueAt v of None \<Rightarrow> 0 | Some d \<Rightarrow> d) (filter (overdue_for now) (st_invoices st)))"
  by (simp add: overdue_invoices_def Let_def map_filter_fst)

lemma uniq_distinct: "uniq k rows \<Longrightarrow> distinct rows"
  by (simp add: uniq_def distinct_map)

lemma dunning_invoices:
  assumes "uniq inv_id (st_invoices st)"
  shows "st_invoices (snd (dunning_run m k now st))
     = map (\<lambda>r. if r \<in> set (map fst (overdue_invoices now st)) then dun1 now r else r) (st_invoices st)"
proof -
  have "st_invoices (snd (dunning_run m k now st))
     = fold (dunned now) (map fst (overdue_invoices now st)) (st_invoices st)"
    by (simp add: dunning_run_def split_beta Let_def enforce_each_frame dun_each_invoices)
  also have "\<dots> = map (\<lambda>r. if r \<in> set (map fst (overdue_invoices now st)) then dun1 now r else r) (st_invoices st)"
  proof (rule fold_row_updates [where k = inv_id])
    show "set (map fst (overdue_invoices now st)) \<subseteq> set (st_invoices st)"
      unfolding overdue_fst by auto
    show "distinct (map fst (overdue_invoices now st))"
      unfolding overdue_fst using uniq_distinct [OF assms] by simp
  qed (simp_all add: assms dunned_rows)
  finally show ?thesis .
qed

lemma suspend_team_ids: "map tm_id (st_teams (snd (suspend k t r now st))) = map tm_id (st_teams st)"
  by (simp add: suspend_def Let_def split_beta powerOffRunning_def power_off_each_frame map_update_where split: option.splits)

lemma dun_invoice_team_ids: "map tm_id (st_teams (snd (dun_invoice m k now v s c st))) = map tm_id (st_teams st)"
  by (simp add: dun_invoice_def Let_def suspend_team_ids split: option.splits)

lemma dun_each_team_ids: "map tm_id (st_teams (snd (dun_each m k now vs c st))) = map tm_id (st_teams st)"
proof (induction vs arbitrary: c st)
  case (Cons x vs)
  then show ?case by (cases x) (simp add: split_beta dun_invoice_team_ids)
qed simp

lemma dunning_team_ids: "map tm_id (st_teams (snd (dunning_run m k now st))) = map tm_id (st_teams st)"
  by (simp add: dunning_run_def split_beta Let_def enforce_each_frame dun_each_team_ids)

lemma find_by_same_keys:
  "map k rows = map k rows' \<Longrightarrow> (find_by k x rows = None) = (find_by k x rows' = None)"
  by (metis find_by_None list.set_map)

text \<open>A second run at the same time finds nothing left to remind.\<close>

lemma overdue_after_run:
  assumes u: "uniq inv_id (st_invoices st)"
    and v: "v \<in> set (map fst (overdue_invoices now (snd (dunning_run m k now st))))" and d: "inv_dueAt v = Some d"
  shows "reminderStageFor ((now - d) div DAY) \<le> inv_reminderStage v \<or> inv_totalMinor v - inv_creditedMinor v \<le> 0"
proof -
  have v': "v \<in> set (st_invoices (snd (dunning_run m k now st)))" "overdue_for now v"
    "find_by tm_id (inv_teamId v) (st_teams st) \<noteq> None"
    using v find_by_same_keys [OF dunning_team_ids [of m k now st]] unfolding overdue_fst by auto
  then have "v \<in> (\<lambda>r. if r \<in> set (map fst (overdue_invoices now st)) then dun1 now r else r) ` set (st_invoices st)"
    by (simp only: dunning_invoices [OF u] list.set_map)
  then obtain r where r: "r \<in> set (st_invoices st)"
    and vr: "v = (if r \<in> set (map fst (overdue_invoices now st)) then dun1 now r else r)"
    by (rule imageE)
  have "r \<in> set (map fst (overdue_invoices now st))"
  proof (rule ccontr)
    assume n: "r \<notin> set (map fst (overdue_invoices now st))"
    then have "v = r" using vr by simp
    with n r v' show False unfolding overdue_fst by simp
  qed
  then have "v = dun1 now r" using vr by simp
  then show ?thesis using d by (auto simp: dun1_def Let_def split: option.splits if_splits)
qed

lemma dun_each_idle:
  assumes "\<forall>v\<in>set (map fst vs). \<forall>d. inv_dueAt v = Some d \<longrightarrow>
     reminderStageFor ((now - d) div DAY) \<le> inv_reminderStage v \<or> inv_totalMinor v - inv_creditedMinor v \<le> 0"
  shows "dun_each m k now vs c st = (c, st)"
  using assms
proof (induction vs)
  case (Cons x vs)
  obtain v s where x: "x = (v, s)" by force
  with Cons.prems have "dun_invoice m k now v s c st = (c, st)"
    by (auto simp: dun_invoice_def Let_def split: option.splits)
  with Cons x show ?case by simp
qed simp

lemma dunning_rerun_counts:
  assumes "uniq inv_id (st_invoices st)"
  shows "fst (dunning_run m' k' now (snd (dunning_run m k now st))) = (0, 0)"
proof -
  have "dun_each m' k' now (overdue_invoices now (snd (dunning_run m k now st))) (0, 0) (snd (dunning_run m k now st))
      = ((0, 0), snd (dunning_run m k now st))"
    using overdue_after_run [OF assms] by (intro dun_each_idle) blast
  then show ?thesis by (simp add: dunning_run_def [of m' k'] Let_def split_beta)
qed

section \<open>A mail failure at the last stage\<close>

text \<open>
  The stage is claimed before the mail goes out.  When the mail of the last stage fails, the
  suspension is skipped with it, and the invoice is outside the query of every later run.
\<close>

lemma dun_invoice_mail_failure:
  assumes "inv_dueAt v = Some d" "14 * DAY \<le> now - d" "inv_reminderStage v < 14"
    and "inv_creditedMinor v < inv_totalMinor v"
    and u: "uniq inv_id (st_invoices st)" and row: "v \<in> set (st_invoices st)" and mail: "\<not> mailOk (inv_id v)"
  shows "st_teams (snd (dun_invoice mailOk startOk now v s c st)) = st_teams st"
    and "\<forall>r\<in>set (st_invoices (snd (dun_invoice mailOk startOk now v s c st))).
           inv_id r = inv_id v \<longrightarrow> (\<forall>later. \<not> overdue_for later r)"
proof -
  have "14 \<le> (now - d) div DAY" using assms(2) by (simp add: DAY_def)
  then have stage: "reminderStageFor ((now - d) div DAY) = 14" by (simp add: reminderStageFor_cases)
  show "st_teams (snd (dun_invoice mailOk startOk now v s c st)) = st_teams st"
    using assms(1) mail by (simp add: dun_invoice_def Let_def)
  have "dunned now v (st_invoices st) = map (\<lambda>r. if r = v then dun1 now v else r) (st_invoices st)"
    by (rule dunned_rows [OF u row])
  then show "\<forall>r\<in>set (st_invoices (snd (dun_invoice mailOk startOk now v s c st))).
           inv_id r = inv_id v \<longrightarrow> (\<forall>later. \<not> overdue_for later r)"
    using assms(1,3,4) stage
    by (auto simp: dun_invoice_frame dun1_def overdue_for_def SUSPEND_AT_def dest: uniq_inj [OF u _ row])
qed

end
