(* ===== verification/Ledger.thy ===== *)
theory Ledger
  imports Billing_Admin Dunning
begin

text \<open>
  The money invariant of the billing tables, kept by every operation that writes them:
  invoicing (\<open>invoices.service.ts\<close>), card payments (\<open>payments.service.ts\<close>), the back office
  (\<open>billing-admin.service.ts\<close>) and dunning (\<open>dunning.service.ts\<close>).

  \<open>ledger\<close> relates the four tables.  The lemmas of the first section treat the ways a table is
  written; each operation is then a composition of those writes.
\<close>

definition payment_ok :: "payment \<Rightarrow> bool" where
  "payment_ok p \<longleftrightarrow>
     0 < pay_amountMinor p \<and> 0 \<le> pay_refundedMinor p \<and> pay_refundedMinor p \<le> pay_amountMinor p
     \<and> (pay_status p = PayRefunded \<longleftrightarrow> pay_refundedMinor p = pay_amountMinor p)
     \<and> (pay_status p = PayPending \<or> pay_status p = PayFailed \<longrightarrow> pay_refundedMinor p = 0)"

text \<open>
  An invoice and its credit notes: the notes never exceed the gross amount, an invoice that can
  still be paid has something due, and its notes all went into what is due.
\<close>

definition receivable :: "invoice \<Rightarrow> bool" where
  "receivable v \<longleftrightarrow> inv_status v = InvOpen \<or> inv_status v = InvUncollectible"

definition notes_ok :: "credit_note list \<Rightarrow> invoice \<Rightarrow> bool" where
  "notes_ok notes v \<longleftrightarrow>
     invoice_ok v
     \<and> inv_creditedMinor v \<le> notes_total (inv_id v) notes
     \<and> notes_total (inv_id v) notes \<le> inv_subtotalMinor v + inv_taxMinor v
     \<and> (receivable v \<longrightarrow> notes_total (inv_id v) notes = inv_creditedMinor v
                          \<and> inv_creditedMinor v < inv_totalMinor v)"

definition ledger :: "invoice list \<Rightarrow> payment list \<Rightarrow> credit list \<Rightarrow> credit_note list \<Rightarrow> bool" where
  "ledger vs ps cs ns \<longleftrightarrow>
     uniq inv_id vs \<and> uniq inv_number vs \<and> uniq pay_id ps \<and> uniq cr_id cs
     \<and> (\<forall>v\<in>set vs. notes_ok ns v) \<and> (\<forall>p\<in>set ps. payment_ok p) \<and> (\<forall>c\<in>set cs. credit_ok c)
     \<and> (\<forall>n\<in>set ns. cn_invoiceId n \<in> inv_id ` set vs)"

definition ledger_ok :: "store \<Rightarrow> bool" where
  "ledger_ok st \<longleftrightarrow> ledger (st_invoices st) (st_payments st) (st_credits st) (st_creditNotes st)"

section \<open>Writes that keep the ledger\<close>

lemma ledger_add_payment:
  assumes "ledger vs ps cs ns" "payment_ok p" "pay_id p \<notin> pay_id ` set ps"
  shows "ledger vs (ps @ [p]) cs ns"
  using assms by (auto simp: ledger_def uniq_def)

lemma ledger_add_credit:
  assumes "ledger vs ps cs ns" "credit_ok c" "cr_id c \<notin> cr_id ` set cs"
  shows "ledger vs ps (cs @ [c]) ns"
  using assms by (auto simp: ledger_def uniq_def)

lemma ledger_credits:
  assumes "ledger vs ps cs ns" "\<forall>c\<in>set cs'. credit_ok c" "map cr_id cs' = map cr_id cs"
  shows "ledger vs ps cs' ns"
  using assms by (simp add: ledger_def uniq_def)

lemma ledger_payments:
  assumes "ledger vs ps cs ns" "\<And>p. pay_id (f p) = pay_id p"
    and "\<And>p. p \<in> set ps \<Longrightarrow> P p \<Longrightarrow> payment_ok p \<Longrightarrow> payment_ok (f p)"
  shows "ledger vs (update_where P f ps) cs ns"
  using assms by (auto simp: ledger_def uniq_update_where ball_update_where)

lemma ledger_invoices:
  assumes "ledger vs ps cs ns" "\<And>v. inv_id (f v) = inv_id v" "\<And>v. inv_number (f v) = inv_number v"
    and "\<And>v. v \<in> set vs \<Longrightarrow> P v \<Longrightarrow> notes_ok ns v \<Longrightarrow> notes_ok ns (f v)"
  shows "ledger (update_where P f vs) ps cs ns"
proof -
  have "inv_id ` set (update_where P f vs) = inv_id ` set vs"
    using assms(2) by (metis list.set_map map_update_where)
  then show ?thesis
    using assms by (auto simp: ledger_def uniq_update_where ball_update_where)
qed

lemma notes_total_snoc:
  "notes_total i (ns @ [n]) = notes_total i ns + (if cn_invoiceId n = i then cn_amountMinor n else 0)"
  by (simp add: notes_total_def)

lemma ledger_add_note:
  assumes "ledger vs ps cs ns" "\<And>v. inv_id (f v) = inv_id v" "\<And>v. inv_number (f v) = inv_number v"
    and "v \<in> set vs" "cn_invoiceId n = inv_id v" "notes_ok (ns @ [n]) (f v)"
  shows "ledger (update_where (\<lambda>r. inv_id r = inv_id v) f vs) ps cs (ns @ [n])"
proof -
  have ids: "inv_id ` set (update_where (\<lambda>r. inv_id r = inv_id v) f vs) = inv_id ` set vs"
    using assms(2) by (metis list.set_map map_update_where)
  have "notes_ok (ns @ [n]) w" if "w \<in> set vs" "inv_id w \<noteq> inv_id v" for w
    using assms(1,5) that by (auto simp: ledger_def notes_ok_def notes_total_snoc)
  moreover have "w = v" if "w \<in> set vs" "inv_id w = inv_id v" for w
    using assms(1,4) that uniq_inj [of inv_id vs w v] by (auto simp: ledger_def)
  ultimately have "\<forall>w\<in>set (update_where (\<lambda>r. inv_id r = inv_id v) f vs). notes_ok (ns @ [n]) w"
    using assms(6) by (simp add: ball_update_where) blast
  then show ?thesis
    using assms ids by (auto simp: ledger_def uniq_update_where)
qed

lemma ledger_add_invoice:
  assumes "ledger vs ps cs ns" "invoice_ok v" "inv_creditedMinor v = 0" "receivable v \<longrightarrow> 0 < inv_totalMinor v"
    and "inv_id v \<notin> inv_id ` set vs" "inv_number v \<notin> inv_number ` set vs"
  shows "ledger (vs @ [v]) ps cs ns"
proof -
  have "filter (\<lambda>n. cn_invoiceId n = inv_id v) ns = []"
    using assms(1,5) unfolding ledger_def filter_empty_conv by metis
  then have "notes_total (inv_id v) ns = 0" by (simp add: notes_total_def)
  then have "notes_ok ns v" using assms(2,3,4) by (auto simp: notes_ok_def invoice_ok_def)
  then show ?thesis using assms by (auto simp: ledger_def uniq_def)
qed

section \<open>The operations keep the ledger\<close>

lemma new_payment_ok: "0 < amount \<Longrightarrow> payment_ok (new_payment i t v pr c amount now)"
  by (simp add: payment_ok_def new_payment_def)

lemma start_ledger:
  assumes "ledger_ok st" "newId \<notin> pay_id ` set (st_payments st)" "0 < amount"
  shows "ledger_ok (snd (start prov checkout newId tm amount invoiceId now st))"
proof -
  let ?p = "new_payment newId (tm_id tm) invoiceId prov (tm_currency tm) amount now"
  have add: "ledger (st_invoices st) (st_payments st @ [?p]) (st_credits st) (st_creditNotes st)"
    using assms by (intro ledger_add_payment new_payment_ok) (auto simp: ledger_ok_def new_payment_def)
  have "ledger (st_invoices st) (update_where (\<lambda>r. pay_id r = newId) f (st_payments st @ [?p])) (st_credits st) (st_creditNotes st)"
    if "\<And>p. pay_id (f p) = pay_id p" "\<And>p. pay_status p = PayPending \<Longrightarrow> payment_ok p \<Longrightarrow> payment_ok (f p)" for f
  proof (rule ledger_payments [OF add that(1)])
    fix p assume "p \<in> set (st_payments st @ [?p])" "pay_id p = newId" "payment_ok p"
    moreover from this have "p = ?p" using assms(2) by auto
    ultimately show "payment_ok (f p)" using that(2) by (simp add: new_payment_def)
  qed
  then show ?thesis
    using assms(1) unfolding start_def ledger_ok_def
    by (auto simp: Let_def update_payment_def payment_ok_def split: option.splits simp del: update_where_append)
qed

lemma topup_ledger:
  assumes "ledger_ok st" "newId \<notin> pay_id ` set (st_payments st)"
  shows "ledger_ok (snd (topup prov checkout newId who amount now st))"
  using assms start_ledger [OF assms, of amount]
  by (auto simp: topup_def limits_def split: option.splits)

lemma payInvoice_ledger:
  assumes "ledger_ok st" "newId \<notin> pay_id ` set (st_payments st)"
  shows "ledger_ok (snd (payInvoice prov checkout newId who invoiceId now st))"
  using assms start_ledger [OF assms]
  by (auto simp: payInvoice_def Let_def split: option.splits)

lemma pay_close_ok: "payment_ok p \<Longrightarrow> pay_status p = PayPending \<Longrightarrow> payment_ok (p\<lparr>pay_status := PaySucceeded, pay_paidAt := t\<rparr>)"
  "payment_ok p \<Longrightarrow> pay_status p = PayPending \<Longrightarrow> payment_ok (p\<lparr>pay_status := PayFailed, pay_failureReason := r\<rparr>)"
  by (auto simp: payment_ok_def)

lemma invoice_close_ok:
  "notes_ok ns v \<Longrightarrow> notes_ok ns (v\<lparr>inv_status := InvPaid, inv_paidAt := t\<rparr>)"
  "notes_ok ns v \<Longrightarrow> notes_ok ns (v\<lparr>inv_status := InvVoid, inv_voidedAt := t\<rparr>)"
  "notes_ok ns v \<Longrightarrow> inv_status v = InvOpen \<Longrightarrow> notes_ok ns (v\<lparr>inv_status := InvUncollectible\<rparr>)"
  "notes_ok ns v \<Longrightarrow> notes_ok ns (v\<lparr>inv_reminderStage := s, inv_lastReminderAt := t\<rparr>)"
  by (auto simp: notes_ok_def invoice_ok_def receivable_def)

lemma settle_ledger:
  assumes "ledger_ok st" "newId \<notin> cr_id ` set (st_credits st)" "0 < pay_amountMinor p"
  shows "ledger_ok (snd (settle newId p now st))"
proof -
  let ?pending = "\<lambda>q. pay_id q = pay_id p \<and> pay_status q = PayPending"
  let ?ps = "update_where ?pending (\<lambda>q. q\<lparr>pay_status := PaySucceeded, pay_paidAt := Some now\<rparr>) (st_payments st)"
  let ?vs = "\<lambda>i. update_where (\<lambda>v. inv_id v = i \<and> inv_status v = InvOpen)
                (\<lambda>v. v\<lparr>inv_status := InvPaid, inv_paidAt := Some now\<rparr>) (st_invoices st)"
  have 1: "ledger (st_invoices st) ?ps (st_credits st) (st_creditNotes st)"
    using assms(1) by (intro ledger_payments) (auto simp: ledger_ok_def pay_close_ok)
  then have 2: "ledger (?vs i) ?ps (st_credits st) (st_creditNotes st)" for i
    by (intro ledger_invoices) (auto simp: invoice_close_ok)
  have c: "credit_ok (new_prepaid newId p now)" "cr_id (new_prepaid newId p now) \<notin> cr_id ` set (st_credits st)"
    using assms(2,3) by (simp_all add: credit_ok_def new_prepaid_def)
  note add = ledger_add_credit [OF 1 c] ledger_add_credit [OF 2 c]
  show ?thesis
    using assms(1) 1 2 add by (simp add: settle_def Let_def ledger_ok_def split: option.splits)
qed

lemma fail_pending_ledger: "ledger_ok st \<Longrightarrow> ledger_ok (fail_pending p r st)"
  unfolding ledger_ok_def fail_pending_def by (simp, intro ledger_payments) (auto simp: pay_close_ok)

lemma emit_ledger [simp]: "ledger_ok (emit n t r st) = ledger_ok st"
  by (simp add: ledger_ok_def)

lemma lift_ledger [simp]: "ledger_ok (liftBillingSuspension k t st) = ledger_ok st"
  by (simp add: ledger_ok_def)

lemma find_in: "List.find P xs = Some x \<Longrightarrow> x \<in> set xs \<and> P x"
  by (induction xs) (auto split: if_splits)

lemma handle_event_ledger:
  assumes "ledger_ok st" "newId \<notin> cr_id ` set (st_credits st)"
  shows "ledger_ok (snd (handle_event k prov newId now ev st))"
proof (cases "List.find (\<lambda>p. pay_provider p = prov \<and> pay_providerRef p = Some (ev_providerRef ev)) (st_payments st)")
  case (Some p)
  then have "0 < pay_amountMinor p"
    using assms(1) find_in [OF Some] by (auto simp: ledger_ok_def ledger_def payment_ok_def)
  then have "ledger_ok (snd (settle newId p now st))" using assms by (intro settle_ledger)
  then show ?thesis
    using Some assms(1) fail_pending_ledger [OF assms(1)]
    by (cases "settle newId p now st") (auto simp: handle_event_def Let_def split: bool.splits)
qed (use assms in \<open>simp add: handle_event_def\<close>)

lemma refund_tx_ledger:
  assumes ok: "ledger_ok st" and p: "p \<in> set (st_payments st)" "pay_status p = PaySucceeded"
    and a: "0 < amount" "amount \<le> pay_amountMinor p - pay_refundedMinor p"
    and run: "refund_tx p amount ref now st = Inr st'"
  shows "ledger_ok st'"
proof -
  let ?left = "pay_amountMinor p - pay_refundedMinor p"
  define claim where "claim = (\<lambda>q :: payment. pay_id q = pay_id p \<and> pay_refundedMinor q = pay_refundedMinor p)"
  let ?ps = "update_where claim
      (\<lambda>q. q\<lparr>pay_refundedMinor := pay_refundedMinor q + amount, pay_refundRef := Some ref, pay_refundedAt := Some now,
             pay_status := (if amount = ?left then PayRefunded else pay_status q)\<rparr>) (st_payments st)"
  have same: "q = p" if "q \<in> set (st_payments st)" "claim q" for q
    using ok that p uniq_inj [of pay_id "st_payments st" q p] by (auto simp: ledger_ok_def ledger_def claim_def)
  have upd: "ledger (st_invoices st) ?ps (st_credits st) (st_creditNotes st)"
    using ok a p(2) same unfolding ledger_ok_def
    by (intro ledger_payments) (auto simp: payment_ok_def dest!: same)
  show ?thesis
  proof (cases "pay_invoiceId p")
    case None
    then obtain cs where cs: "takeBackPrepaid (pay_teamId p) amount (st_credits st) = Inr cs"
      and st': "st' = st\<lparr>st_payments := ?ps, st_credits := cs\<rparr>"
      using run by (auto simp: refund_tx_def Let_def claim_def split: if_splits sum.splits)
    have "ledger (st_invoices st) ?ps cs (st_creditNotes st)"
      using takeBackPrepaid_credit_ok [OF cs] ok
      by (intro ledger_credits [OF upd]) (auto simp: ledger_ok_def ledger_def)
    then show ?thesis by (simp add: st' ledger_ok_def)
  next
    case (Some i)
    then have "st' = st\<lparr>st_payments := ?ps\<rparr>"
      using run by (simp add: refund_tx_def Let_def claim_def split: if_splits)
    with upd show ?thesis by (simp add: ledger_ok_def)
  qed
qed

lemma refund_ledger:
  assumes "ledger_ok st"
  shows "ledger_ok (snd (refund gw paymentId amountMinor now st))"
proof -
  have keep: "refund_tx p amount ref now st = Inr st' \<Longrightarrow> p \<in> set (st_payments st) \<Longrightarrow> pay_status p = PaySucceeded
      \<Longrightarrow> 0 < amount \<Longrightarrow> amount \<le> pay_amountMinor p - pay_refundedMinor p \<Longrightarrow> ledger_ok st'" for p amount ref st'
    by (rule refund_tx_ledger [OF assms])
  show ?thesis
    using assms find_by_Some [of pay_id paymentId "st_payments st"]
    by (auto simp: refund_def Let_def split: option.splits sum.splits) (erule keep; simp)+
qed

lemma creditNote_ledger:
  assumes ok: "ledger_ok st" and new: "creditId \<notin> cr_id ` set (st_credits st)"
  shows "ledger_ok (snd (creditNote k creditId noteId who invoiceId amount now st))"
proof (cases "find_by inv_id invoiceId (st_invoices st)")
  case (Some v)
  then have v: "v \<in> set (st_invoices st)" using find_by_Some [OF Some] by simp
  then have nok: "notes_ok (st_creditNotes st) v" using ok by (simp add: ledger_ok_def ledger_def)
  let ?already = "notes_total (inv_id v) (st_creditNotes st)"
  let ?gross = "inv_subtotalMinor v + inv_taxMinor v"
  let ?due = "if inv_status v = InvOpen then inv_totalMinor v - inv_creditedMinor v else 0"
  let ?fully = "?gross \<le> ?already + amount \<or> inv_status v = InvOpen \<and> min ?due amount = ?due"
  let ?f = "\<lambda>r :: invoice. r\<lparr>inv_creditedMinor := inv_creditedMinor r + min ?due amount,
                   inv_status := (if ?fully then InvCredited else inv_status r)\<rparr>"
  have noted: "ledger (update_where (\<lambda>r. inv_id r = inv_id v) ?f (st_invoices st)) (st_payments st) cs (st_creditNotes st @ [n])"
    if "ledger (st_invoices st) (st_payments st) cs (st_creditNotes st)"
      and st: "inv_status v = InvOpen \<or> inv_status v = InvPaid" and am: "0 < amount" "?already + amount \<le> ?gross"
      and n: "cn_invoiceId n = inv_id v" "cn_amountMinor n = amount" for cs n
  proof (rule ledger_add_note [OF that(1) _ _ v n(1)])
    show "notes_ok (st_creditNotes st @ [n]) (?f v)"
      using nok st am n by (auto simp: notes_ok_def invoice_ok_def receivable_def notes_total_snoc)
  qed simp_all
  have credit: "ledger (st_invoices st) (st_payments st) (st_credits st @ [refund_credit creditId v c now]) (st_creditNotes st)"
    if "0 \<le> c" for c
    using ok new that unfolding ledger_ok_def by (intro ledger_add_credit) (simp_all add: credit_ok_def refund_credit_def)
  show ?thesis
    using ok Some noted [OF credit] noted [of "st_credits st"]
    by (auto simp: creditNote_def Let_def ledger_ok_def)
qed (use ok in \<open>simp add: creditNote_def\<close>)

lemma void_ledger:
  assumes ok: "ledger_ok st" and new: "creditId \<notin> cr_id ` set (st_credits st)"
  shows "ledger_ok (snd (void_invoice k creditId invoiceId now st))"
proof (cases "find_by inv_id invoiceId (st_invoices st)")
  case (Some v)
  let ?vs = "update_where (\<lambda>r. inv_id r = inv_id v) (\<lambda>r. r\<lparr>inv_status := InvVoid, inv_voidedAt := Some now\<rparr>) (st_invoices st)"
  let ?ps = "update_where (\<lambda>p. pay_invoiceId p = Some (inv_id v) \<and> pay_status p = PayPending)
               (\<lambda>p. p\<lparr>pay_status := PayFailed, pay_failureReason := Some ''invoice voided''\<rparr>) (st_payments st)"
  have "ledger ?vs (st_payments st) (st_credits st) (st_creditNotes st)"
    using ok unfolding ledger_ok_def by (intro ledger_invoices) (auto simp: invoice_close_ok)
  then have 1: "ledger ?vs ?ps (st_credits st) (st_creditNotes st)"
    by (intro ledger_payments) (auto simp: pay_close_ok)
  have 2: "ledger ?vs ?ps (st_credits st @ [refund_credit creditId v c now]) (st_creditNotes st)" if "0 < c" for c
    using that new by (intro ledger_add_credit [OF 1]) (simp_all add: credit_ok_def refund_credit_def)
  show ?thesis
    using ok Some 1 2 by (simp add: void_invoice_def Let_def) (auto simp: ledger_ok_def)
qed (use ok in \<open>simp add: void_invoice_def\<close>)

lemma recordPayment_ledger:
  assumes ok: "ledger_ok st" and new: "newId \<notin> pay_id ` set (st_payments st)"
  shows "ledger_ok (snd (recordPayment k newId invoiceId prov amount ref received now st))"
proof (cases "find_by inv_id invoiceId (st_invoices st)")
  case (Some v)
  then have v: "v \<in> set (st_invoices st)" using find_by_Some [OF Some] by simp
  let ?due = "inv_totalMinor v - inv_creditedMinor v"
  let ?p = "\<lambda>t. (new_payment newId (inv_teamId v) (Some (inv_id v)) prov (inv_currency v) ?due now)
              \<lparr>pay_providerRef := ref, pay_status := PaySucceeded, pay_paidAt := Some t\<rparr>"
  have paid: "ledger (update_where (\<lambda>r. inv_id r = inv_id v) (\<lambda>r. r\<lparr>inv_status := InvPaid, inv_paidAt := Some t\<rparr>) (st_invoices st))
      (st_payments st @ [?p t]) (st_credits st) (st_creditNotes st)" if "receivable v" for t
  proof -
    have "0 < ?due" using ok v that by (auto simp: ledger_ok_def ledger_def notes_ok_def)
    then have "ledger (st_invoices st) (st_payments st @ [?p t]) (st_credits st) (st_creditNotes st)"
      using ok new unfolding ledger_ok_def
      by (intro ledger_add_payment) (simp_all add: payment_ok_def new_payment_def)
    then show ?thesis by (intro ledger_invoices) (auto simp: invoice_close_ok)
  qed
  show ?thesis
    using ok Some paid by (simp add: recordPayment_def Let_def receivable_def) (auto simp: ledger_ok_def)
qed (use ok in \<open>simp add: recordPayment_def\<close>)

lemma markUncollectible_ledger:
  assumes "ledger_ok st"
  shows "ledger_ok (snd (markUncollectible invoiceId st))"
proof -
  have "ledger (update_where (\<lambda>v. inv_id v = invoiceId \<and> inv_status v = InvOpen) (\<lambda>v. v\<lparr>inv_status := InvUncollectible\<rparr>) (st_invoices st))
      (st_payments st) (st_credits st) (st_creditNotes st)"
    using assms unfolding ledger_ok_def by (intro ledger_invoices) (auto simp: invoice_close_ok)
  then show ?thesis by (auto simp: markUncollectible_def Let_def ledger_ok_def split: option.splits)
qed

lemma issueForTeam_Inl_tables:
  assumes "issueForTeam newId tm pstart pend now st = (r, st')" "\<And>v. r \<noteq> Inr (Some v)"
  shows "st_invoices st' = st_invoices st \<and> st_payments st' = st_payments st
    \<and> st_credits st' = st_credits st \<and> st_creditNotes st' = st_creditNotes st"
  using assms unfolding issueForTeam_def Let_def by (auto split: if_splits sum.splits prod.splits)

lemma issueForTeam_ledger:
  assumes ok: "ledger_ok st" and new: "newId \<notin> inv_id ` set (st_invoices st)"
  shows "ledger_ok (snd (issueForTeam newId tm pstart pend now st))"
proof -
  obtain r st' where run: "issueForTeam newId tm pstart pend now st = (r, st')" by force
  show ?thesis
  proof (cases "\<exists>v. r = Inr (Some v)")
    case False
    then show ?thesis using issueForTeam_Inl_tables [OF run] ok run by (auto simp: ledger_ok_def)
  next
    case True
    then obtain v where v: "issueForTeam newId tm pstart pend now st = (Inr (Some v), st')" using run by auto
    have u: "uniq cr_id (st_credits st)" using ok by (simp add: ledger_ok_def ledger_def)
    note I = issueForTeam_Some [OF v u]
    obtain n cs where cs: "consumeCredits (tm_id tm) n now (st_credits st) = Inr (cs, st_credits st')"
      using I(14) by blast
    have "ledger (st_invoices st) (st_payments st) (st_credits st') (st_creditNotes st)"
    proof (rule ledger_credits)
      show led: "ledger (st_invoices st) (st_payments st) (st_credits st) (st_creditNotes st)"
        using ok by (simp add: ledger_ok_def)
      then have "\<forall>c\<in>set (st_credits st). credit_ok c" by (simp add: ledger_def)
      from consumeCredits_credit_ok [OF cs this]
      show "\<forall>c\<in>set (st_credits st'). credit_ok c" "map cr_id (st_credits st') = map cr_id (st_credits st)" by simp_all
    qed
    then have "ledger (st_invoices st @ [v]) (st_payments st) (st_credits st') (st_creditNotes st)"
    proof (rule ledger_add_invoice)
      show "invoice_ok v" using I(1-3,5) by (simp add: new_invoice_ok)
      show "inv_creditedMinor v = 0" "inv_id v \<notin> inv_id ` set (st_invoices st)"
        using new by (simp_all add: I(1) new_invoice_def Let_def)
      show "inv_number v \<notin> inv_number ` set (st_invoices st)" by (rule I(9))
      have "0 \<le> inv_totalMinor v" using I(1-3,5) by (simp add: new_invoice_def Let_def)
      then show "receivable v \<longrightarrow> 0 < inv_totalMinor v"
        using I(1) by (simp add: receivable_def new_invoice_def Let_def split: if_splits)
    qed
    then show ?thesis using I(6,12,13) v by (simp add: ledger_ok_def)
  qed
qed

lemma dun1_number [simp]: "inv_number (dun1 now v) = inv_number v"
  by (simp add: dun1_def Let_def split: option.splits)

lemma dun1_notes_ok: "notes_ok ns v \<Longrightarrow> notes_ok ns (dun1 now v)"
  by (simp add: dun1_def Let_def invoice_close_ok split: option.splits)

lemma dunning_ledger:
  assumes "ledger_ok st"
  shows "ledger_ok (snd (dunning_run m k now st))"
proof -
  have u: "uniq inv_id (st_invoices st)" using assms by (simp add: ledger_ok_def ledger_def)
  have "st_invoices (snd (dunning_run m k now st))
      = update_where (\<lambda>r. r \<in> set (map fst (overdue_invoices now st))) (dun1 now) (st_invoices st)"
    unfolding dunning_invoices [OF u] update_where_def by simp
  moreover have "ledger (update_where (\<lambda>r. r \<in> set (map fst (overdue_invoices now st))) (dun1 now) (st_invoices st))
      (st_payments st) (st_credits st) (st_creditNotes st)"
    using assms unfolding ledger_ok_def
    by (intro ledger_invoices) (simp_all add: dun1_notes_ok)
  ultimately show ?thesis
    by (simp add: ledger_ok_def dunning_run_def split_beta Let_def enforce_each_frame dun_each_frame)
qed

section \<open>Any sequence of operations\<close>

text \<open>
  The requests and jobs that write the billing tables.  Identifiers of new rows come from the
  database; a row whose identifier is taken is refused by the primary key, so such an operation
  changes nothing.
\<close>

datatype billing_op =
    Issue id id instant instant instant
  | TopUp provider "(string \<times> string) option" id actor int instant
  | PayInvoice provider "(string \<times> string) option" id actor id instant
  | Webhook provider id instant pay_event
  | RefundPayment id "int option" instant
  | CreditNote id id actor id int instant
  | VoidInvoice id id instant
  | RecordPayment id id provider "int option" "string option" "instant option" instant
  | MarkUncollectible id
  | Dun instant

record outside =
  out_startOk :: "id \<Rightarrow> power_op \<Rightarrow> bool"
  out_mailOk :: "id \<Rightarrow> bool"
  out_cardRefund :: "string \<Rightarrow> int \<Rightarrow> string option"

definition fresh :: "id \<Rightarrow> store \<Rightarrow> bool" where
  "fresh i st \<longleftrightarrow> i \<notin> inv_id ` set (st_invoices st) \<and> i \<notin> pay_id ` set (st_payments st)
     \<and> i \<notin> cr_id ` set (st_credits st)"

fun billing_step :: "outside \<Rightarrow> billing_op \<Rightarrow> store \<Rightarrow> store" where
  "billing_step out (Issue newId teamId pstart pend now) st =
     (case find_by tm_id teamId (st_teams st) of
        None \<Rightarrow> st
      | Some tm \<Rightarrow> if fresh newId st then snd (issueForTeam newId tm pstart pend now st) else st)"
| "billing_step out (TopUp prov checkout newId who amount now) st =
     (if fresh newId st then snd (topup prov checkout newId who amount now st) else st)"
| "billing_step out (PayInvoice prov checkout newId who invoiceId now) st =
     (if fresh newId st then snd (payInvoice prov checkout newId who invoiceId now st) else st)"
| "billing_step out (Webhook prov newId now ev) st =
     (if fresh newId st then snd (handle_event (out_startOk out) prov newId now ev st) else st)"
| "billing_step out (RefundPayment paymentId amount now) st =
     snd (refund (out_cardRefund out) paymentId amount now st)"
| "billing_step out (CreditNote creditId noteId who invoiceId amount now) st =
     (if fresh creditId st then snd (creditNote (out_startOk out) creditId noteId who invoiceId amount now st) else st)"
| "billing_step out (VoidInvoice creditId invoiceId now) st =
     (if fresh creditId st then snd (void_invoice (out_startOk out) creditId invoiceId now st) else st)"
| "billing_step out (RecordPayment newId invoiceId prov amount ref received now) st =
     (if fresh newId st then snd (recordPayment (out_startOk out) newId invoiceId prov amount ref received now st) else st)"
| "billing_step out (MarkUncollectible invoiceId) st = snd (markUncollectible invoiceId st)"
| "billing_step out (Dun now) st = snd (dunning_run (out_mailOk out) (out_startOk out) now st)"

lemmas ops_ledger = issueForTeam_ledger topup_ledger payInvoice_ledger handle_event_ledger refund_ledger
  creditNote_ledger void_ledger recordPayment_ledger markUncollectible_ledger dunning_ledger

interpretation books: guarded_system ledger_ok "billing_step out" for out
proof
  fix st op assume "ledger_ok st"
  then show "ledger_ok (billing_step out op st)"
    by (cases op) (simp_all add: ops_ledger fresh_def split: option.splits)
qed

end
