(* ===== verification/Spend.thy ===== *)
theory Spend
  imports Trust Actor Rating
begin

text \<open>
  Spend controls, \<open>billing/spend.service.ts\<close>: the checks before a workflow that adds cost starts.
  Projects and API tokens are the tables of \<open>spend_state\<close>; the checks write a token's counter and
  the event log.
\<close>

record project =
  pj_id :: id
  pj_spendLimitMinor :: "int option"

record api_token =
  tk_id :: id
  tk_spendCapMinor :: "int option"
  tk_spentThisMonthMinor :: int

record spend_state =
  sp_projects :: "project list"
  sp_tokens :: "api_token list"
  sp_store :: store

definition monthlyPriceMinor ::
  "price list \<Rightarrow> resource_type \<Rightarrow> string \<Rightarrow> currency \<Rightarrow> instant \<Rightarrow> fx_state \<Rightarrow> int \<times> fx_state" where
  "monthlyPriceMinor prices rt sku cur now fxs =
     (case sort_key (\<lambda>p. - pr_validFrom p)
             (filter (\<lambda>p. pr_resourceType p = rt \<and> pr_sku p = sku \<and> pr_currency p = BOOK_CURRENCY
                          \<and> pr_validTo p = None) prices) of
        [] \<Rightarrow> (0, fxs)
      | p # _ \<Rightarrow>
          if pr_unit p = ''percent'' then (pr_monthlyMinor p, fxs)
          else convert (pr_monthlyMinor p) cur now now fxs)"

definition monthToDate :: "id \<Rightarrow> instant \<Rightarrow> store \<Rightarrow> int" where
  "monthToDate projectId now st =
     sum_by ur_amountMinor (filter (\<lambda>u. ur_projectId u = projectId \<and> startOfMonth now \<le> ur_hourStart u) (st_usage st))"

definition live_balance :: "id \<Rightarrow> instant \<Rightarrow> store \<Rightarrow> int" where
  "live_balance teamId now st =
     sum_by (\<lambda>c. if (case cr_expiresAt c of None \<Rightarrow> True | Some t \<Rightarrow> now < t) then cr_remainingMinor c else 0)
       (filter (\<lambda>c. cr_teamId c = teamId) (st_credits st))"

definition spend_emit :: "id \<Rightarrow> id \<Rightarrow> spend_state \<Rightarrow> spend_state" where
  "spend_emit teamId resource s = s\<lparr>sp_store := emit ''spend.limit_reached'' teamId resource (sp_store s)\<rparr>"

definition assertCanSpend ::
  "trust_config \<Rightarrow> actor \<Rightarrow> id \<Rightarrow> int \<Rightarrow> instant \<Rightarrow> spend_state \<Rightarrow> unit result \<times> spend_state" where
  "assertCanSpend cfg who projectId added now s =
     (let st = sp_store s in
      case (find_by tm_id (a_teamId who) (st_teams st), find_by pj_id projectId (sp_projects s)) of
        (Some tm, Some pj) \<Rightarrow>
          if tm_status tm = AccPendingVerification \<and> live_balance (tm_id tm) now st \<le> 0 then (Inl spendLimit, s)
          else
            (case (if 0 < added then assertPrepaidBeforePostpaid cfg (tm_id tm) added now st else Inr ()) of
               Inl e \<Rightarrow> (Inl e, s)
             | Inr _ \<Rightarrow>
                 if (case pj_spendLimitMinor pj of
                       None \<Rightarrow> False | Some l \<Rightarrow> l < monthToDate projectId now st + added)
                 then (Inl spendLimit, spend_emit (a_teamId who) projectId s)
                 else
                   (case a_tokenId who of
                      None \<Rightarrow> (Inr (), s)
                    | Some t \<Rightarrow>
                        (case find_by tk_id t (sp_tokens s) of
                           None \<Rightarrow> (Inl (JsError ''token not found''), s)
                         | Some tk \<Rightarrow>
                             if (case tk_spendCapMinor tk of
                                   None \<Rightarrow> False | Some cap \<Rightarrow> cap < tk_spentThisMonthMinor tk + added)
                             then (Inl spendLimit, spend_emit (a_teamId who) (tk_id tk) s)
                             else (Inr (), s\<lparr>sp_tokens := update_where (\<lambda>r. tk_id r = tk_id tk)
                                     (\<lambda>r. r\<lparr>tk_spentThisMonthMinor := tk_spentThisMonthMinor r + added\<rparr>)
                                     (sp_tokens s)\<rparr>))))
      | _ \<Rightarrow> (Inl (JsError ''row not found''), s))"

definition resetTokenCounters :: "spend_state \<Rightarrow> spend_state" where
  "resetTokenCounters s =
     s\<lparr>sp_tokens := update_where (\<lambda>_. True) (\<lambda>t. t\<lparr>tk_spentThisMonthMinor := 0\<rparr>) (sp_tokens s)\<rparr>"

section \<open>Caps hold\<close>

text \<open>Every token is within its cap, and the caps are not negative.\<close>

definition token_ok :: "api_token \<Rightarrow> bool" where
  "token_ok t \<longleftrightarrow>
     (case tk_spendCapMinor t of None \<Rightarrow> True | Some cap \<Rightarrow> 0 \<le> cap \<and> tk_spentThisMonthMinor t \<le> cap)"

definition caps_ok :: "spend_state \<Rightarrow> bool" where
  "caps_ok s \<longleftrightarrow> uniq tk_id (sp_tokens s) \<and> (\<forall>t\<in>set (sp_tokens s). token_ok t)"

datatype spend_op = Spend trust_config actor id int instant | ResetCounters

fun spend_step :: "spend_op \<Rightarrow> spend_state \<Rightarrow> spend_state" where
  "spend_step (Spend cfg who projectId added now) s = snd (assertCanSpend cfg who projectId added now s)"
| "spend_step ResetCounters s = resetTokenCounters s"

lemma spend_emit_tokens [simp]: "sp_tokens (spend_emit t r s) = sp_tokens s"
  by (simp add: spend_emit_def)

lemma assertCanSpend_tokens:
  "sp_tokens (snd (assertCanSpend cfg who projectId added now s)) = sp_tokens s
   \<or> (\<exists>tk. find_by tk_id (tk_id tk) (sp_tokens s) = Some tk
        \<and> (\<forall>cap. tk_spendCapMinor tk = Some cap \<longrightarrow> tk_spentThisMonthMinor tk + added \<le> cap)
        \<and> sp_tokens (snd (assertCanSpend cfg who projectId added now s))
            = update_where (\<lambda>r. tk_id r = tk_id tk)
                (\<lambda>r. r\<lparr>tk_spentThisMonthMinor := tk_spentThisMonthMinor r + added\<rparr>) (sp_tokens s))"
proof (cases "a_tokenId who")
  case None
  then show ?thesis by (auto simp: assertCanSpend_def Let_def split: option.splits sum.splits)
next
  case (Some t)
  show ?thesis
  proof (cases "find_by tk_id t (sp_tokens s)")
    case None
    with Some show ?thesis by (auto simp: assertCanSpend_def Let_def split: option.splits sum.splits)
  next
    case (Some tk)
    then have "tk_id tk = t" using find_by_Some [OF Some] by simp
    with Some \<open>a_tokenId who = Some t\<close> show ?thesis
      by (auto simp: assertCanSpend_def Let_def split: option.splits sum.splits)
  qed
qed

interpretation caps: guarded_system caps_ok spend_step
proof
  fix s op assume ok: "caps_ok s"
  show "caps_ok (spend_step op s)"
  proof (cases op)
    case (Spend cfg who projectId added now)
    let ?s' = "snd (assertCanSpend cfg who projectId added now s)"
    consider "sp_tokens ?s' = sp_tokens s"
      | tk where "find_by tk_id (tk_id tk) (sp_tokens s) = Some tk"
        "\<forall>cap. tk_spendCapMinor tk = Some cap \<longrightarrow> tk_spentThisMonthMinor tk + added \<le> cap"
        "sp_tokens ?s' = update_where (\<lambda>r. tk_id r = tk_id tk)
           (\<lambda>r. r\<lparr>tk_spentThisMonthMinor := tk_spentThisMonthMinor r + added\<rparr>) (sp_tokens s)"
      using assertCanSpend_tokens [of cfg who projectId added now s] by blast
    then show ?thesis
    proof cases
      case 2
      have tk: "tk \<in> set (sp_tokens s)" using find_by_Some [OF 2(1)] by simp
      have same: "r = tk" if "r \<in> set (sp_tokens s)" "tk_id r = tk_id tk" for r
        using ok tk that uniq_inj [of tk_id "sp_tokens s" r tk] by (simp add: caps_ok_def)
      have "token_ok (tk\<lparr>tk_spentThisMonthMinor := tk_spentThisMonthMinor tk + added\<rparr>)"
        using ok tk 2(2) by (auto simp: caps_ok_def token_ok_def split: option.splits)
      then have "\<forall>t\<in>set (sp_tokens ?s'). token_ok t"
        using ok same unfolding 2(3) ball_update_where caps_ok_def by metis
      then show ?thesis using ok Spend by (simp add: caps_ok_def 2(3) uniq_update_where)
    qed (use ok Spend in \<open>simp add: caps_ok_def\<close>)
  next
    case ResetCounters
    with ok show ?thesis
      by (simp add: caps_ok_def resetTokenCounters_def uniq_update_where ball_update_where)
        (auto simp: token_ok_def split: option.splits)
  qed
qed

lemma assertCanSpend_project_limit:
  assumes "fst (assertCanSpend cfg who projectId added now s) = Inr ()"
    and "find_by pj_id projectId (sp_projects s) = Some pj" "pj_spendLimitMinor pj = Some l"
  shows "monthToDate projectId now (sp_store s) + added \<le> l"
  using assms by (auto simp: assertCanSpend_def Let_def split: option.splits sum.splits if_splits)

end
