(* ===== verification/Cron.thy ===== *)
theory Cron
  imports Sla Json
begin

text \<open>
  The maintenance scheduler's five field cron, \<open>managed/maintenance/cron.ts\<close>: the parser and the
  next run in a time zone.  A \<open>Set\<close> of numbers is the list of its elements in insertion order.
\<close>

section \<open>Parsing\<close>

record cron_schedule =
  cs_minutes :: "int list"
  cs_hours :: "int list"
  cs_days :: "int list"
  cs_months :: "int list"
  cs_weekdays :: "int list"
  cs_dayRestricted :: bool
  cs_weekdayRestricted :: bool

definition MONTHS :: "string list" where
  "MONTHS = [''JAN'', ''FEB'', ''MAR'', ''APR'', ''MAY'', ''JUN'', ''JUL'', ''AUG'', ''SEP'', ''OCT'', ''NOV'', ''DEC'']"

definition DAYS :: "string list" where
  "DAYS = [''SUN'', ''MON'', ''TUE'', ''WED'', ''THU'', ''FRI'', ''SAT'']"

fun index_in :: "'a \<Rightarrow> 'a list \<Rightarrow> nat option" where
  "index_in x [] = None"
| "index_in x (y # ys) = (if x = y then Some 0 else map_option Suc (index_in x ys))"

definition field_value :: "int \<Rightarrow> int \<Rightarrow> string list \<Rightarrow> int \<Rightarrow> string \<Rightarrow> int result" where
  "field_value mn mx names nameBase v =
     (let n = (case index_in (toUpperCase v) names of
                 Some k \<Rightarrow> Some (int k + nameBase)
               | None \<Rightarrow> if v \<noteq> [] \<and> list_all is_digit v then Some (int (parse_nat v)) else None)
      in case n of
           None \<Rightarrow> Inl (JsError ''out of range'')
         | Some k \<Rightarrow> if k < mn \<or> mx < k then Inl (JsError ''out of range'') else Inr k)"

function stepped :: "int \<Rightarrow> int \<Rightarrow> int \<Rightarrow> int list" where
  "stepped lo hi step = (if step < 1 \<or> hi < lo then [] else lo # stepped (lo + step) hi step)"
  by pat_completeness auto
termination by (relation "measure (\<lambda>(lo, hi, step). nat (hi + 1 - lo))") auto

declare stepped.simps [simp del]

definition field_part :: "int \<Rightarrow> int \<Rightarrow> string list \<Rightarrow> int \<Rightarrow> string \<Rightarrow> int list result" where
  "field_part mn mx names nameBase part =
     (let pieces = split_on CHR ''/'' part;
          rng = hd pieces;
          stepText = (if tl pieces = [] then None else Some (hd (tl pieces)));
          step = (case stepText of None \<Rightarrow> Some 1 | Some t \<Rightarrow> js_Number t)
      in case step of
           None \<Rightarrow> Inl (JsError ''bad step'')
         | Some q \<Rightarrow>
             if q \<noteq> of_int \<lfloor>q\<rfloor> \<or> q < 1 then Inl (JsError ''bad step'')
             else if rng = ''*'' then Inr (stepped mn mx \<lfloor>q\<rfloor>)
             else if str_includes rng ''-'' then
               (let ends = split_on CHR ''-'' rng in
                case field_value mn mx names nameBase (hd ends) of
                  Inl e \<Rightarrow> Inl e
                | Inr lo \<Rightarrow>
                    (case field_value mn mx names nameBase (hd (tl ends)) of
                       Inl e \<Rightarrow> Inl e
                     | Inr hi \<Rightarrow> if hi < lo then Inl (JsError ''bad range'') else Inr (stepped lo hi \<lfloor>q\<rfloor>)))
             else
               (case field_value mn mx names nameBase rng of
                  Inl e \<Rightarrow> Inl e
                | Inr lo \<Rightarrow> Inr (stepped lo (if stepText = None then lo else mx) \<lfloor>q\<rfloor>)))"

fun field_parts :: "int \<Rightarrow> int \<Rightarrow> string list \<Rightarrow> int \<Rightarrow> string list \<Rightarrow> int list \<Rightarrow> int list result" where
  "field_parts mn mx names nameBase [] acc = Inr acc"
| "field_parts mn mx names nameBase (p # ps) acc =
     (case field_part mn mx names nameBase p of
        Inl e \<Rightarrow> Inl e
      | Inr vs \<Rightarrow> field_parts mn mx names nameBase ps (acc @ filter (\<lambda>v. v \<notin> set acc) vs))"

definition field :: "string \<Rightarrow> int \<Rightarrow> int \<Rightarrow> string list \<Rightarrow> int \<Rightarrow> int list result" where
  "field spec mn mx names nameBase = field_parts mn mx names nameBase (split_on CHR '','' spec) []"

text \<open>\<open>split\<close> on runs of white space.\<close>

definition words_of :: "string \<Rightarrow> string list" where
  "words_of s = (if s = [] then [[]]
     else filter (\<lambda>w. w \<noteq> []) (split_on CHR '' '' (map (\<lambda>c. if is_space c then CHR '' '' else c) s)))"

definition parseCron :: "string \<Rightarrow> cron_schedule result" where
  "parseCron expr =
     (case words_of (trim expr) of
        [m, h, domF, mon, dow] \<Rightarrow>
          (case field dow 0 7 DAYS 0 of
             Inl e \<Rightarrow> Inl e
           | Inr wd \<Rightarrow>
               let weekdays = (if 7 \<in> set wd
                               then (let r = filter (\<lambda>d. d \<noteq> 7) wd in if 0 \<in> set r then r else r @ [0]) else wd)
               in case field m 0 59 [] 0 of Inl e \<Rightarrow> Inl e | Inr minutes \<Rightarrow>
                 (case field h 0 23 [] 0 of Inl e \<Rightarrow> Inl e | Inr hours \<Rightarrow>
                 (case field domF 1 31 [] 0 of Inl e \<Rightarrow> Inl e | Inr days \<Rightarrow>
                 (case field mon 1 12 MONTHS 1 of Inl e \<Rightarrow> Inl e | Inr months \<Rightarrow>
                    Inr \<lparr>cs_minutes = minutes, cs_hours = hours, cs_days = days, cs_months = months,
                         cs_weekdays = weekdays, cs_dayRestricted = (domF \<noteq> ''*''),
                         cs_weekdayRestricted = (dow \<noteq> ''*'')\<rparr>))))
      | _ \<Rightarrow> Inl (JsError ''A cron expression has five fields''))"

definition isValidCron :: "string \<Rightarrow> bool" where
  "isValidCron expr \<longleftrightarrow> is_ok (parseCron expr)"

section \<open>The next run\<close>

definition dayMatches :: "cron_schedule \<Rightarrow> int \<Rightarrow> int \<Rightarrow> int \<Rightarrow> bool" where
  "dayMatches s year month d \<longleftrightarrow>
     month \<in> set (cs_months s)
     \<and> (let weekday = getUTCDay (date_UTC year (month - 1) d 0 0 0 0);
            byDay = d \<in> set (cs_days s);
            byWeekday = weekday \<in> set (cs_weekdays s)
        in if cs_dayRestricted s \<and> cs_weekdayRestricted s then byDay \<or> byWeekday
           else if cs_dayRestricted s then byDay
           else if cs_weekdayRestricted s then byWeekday
           else True)"

text \<open>The wall clock times of a day in the order the loops visit them.\<close>

definition clock_times :: "cron_schedule \<Rightarrow> bool \<Rightarrow> local_parts \<Rightarrow> (int \<times> int) list" where
  "clock_times s first p =
     concat (map (\<lambda>h. if first \<and> h < lp_hour p then []
                      else map (\<lambda>m. (h, m)) (filter (\<lambda>m. \<not> (first \<and> h = lp_hour p \<and> m < lp_minute p))
                                               (sort (cs_minutes s))))
              (sort (cs_hours s)))"

fun next_loop ::
  "(instant \<Rightarrow> int) \<Rightarrow> cron_schedule \<Rightarrow> instant \<Rightarrow> local_parts \<Rightarrow> nat \<Rightarrow> bool \<Rightarrow> instant \<Rightarrow> instant result" where
  "next_loop tz s after p 0 first date = Inl (JsError ''never runs'')"
| "next_loop tz s after p (Suc n) first date =
     (let y = getUTCFullYear date; mo = getUTCMonth date + 1; d = getUTCDate date
      in case (if dayMatches s y mo d
               then List.find (\<lambda>t. after < t) (map (\<lambda>(h, m). zonedTime tz y mo d h m) (clock_times s first p))
               else None) of
           Some t \<Rightarrow> Inr t
         | None \<Rightarrow> next_loop tz s after p n False (date + 86400000))"

definition nextRun :: "(instant \<Rightarrow> int) \<Rightarrow> cron_schedule \<Rightarrow> instant \<Rightarrow> instant result" where
  "nextRun tz s after =
     (let start = after div 60000 * 60000 + 60000;
          p = localParts tz start
      in next_loop tz s after p (366 * 8) True (date_UTC (lp_year p) (lp_month p - 1) (lp_day p) 0 0 0 0))"

definition nextRunOf :: "(instant \<Rightarrow> int) \<Rightarrow> string \<Rightarrow> instant \<Rightarrow> instant result" where
  "nextRunOf tz expr after = (case parseCron expr of Inl e \<Rightarrow> Inl e | Inr s \<Rightarrow> nextRun tz s after)"

section \<open>Parsed schedules are in range\<close>

lemma stepped_range: "v \<in> set (stepped lo hi step) \<Longrightarrow> lo \<le> v \<and> v \<le> hi"
  by (induction lo hi step rule: stepped.induct) (subst (asm) stepped.simps, force split: if_splits)

lemma field_value_range: "field_value mn mx ns b v = Inr k \<Longrightarrow> mn \<le> k \<and> k \<le> mx"
  by (auto simp: field_value_def Let_def split: option.splits if_splits)

lemma field_part_range:
  "field_part mn mx ns b p = Inr vs \<Longrightarrow> v \<in> set vs \<Longrightarrow> mn \<le> v \<and> v \<le> mx"
  by (fastforce simp: field_part_def Let_def split: option.splits if_splits sum.splits
      dest!: stepped_range field_value_range)

lemma stepped_distinct: "distinct (stepped lo hi step)"
proof (induction lo hi step rule: stepped.induct)
  case (1 lo hi step)
  then show ?case
    using stepped_range [of lo "lo + step" hi step]
    by (subst stepped.simps) (auto split: if_splits)
qed

lemma field_part_distinct: "field_part mn mx ns b p = Inr vs \<Longrightarrow> distinct vs"
  by (auto simp: field_part_def Let_def stepped_distinct split: option.splits if_splits sum.splits)

lemma field_parts_ok:
  assumes "field_parts mn mx ns b ps acc = Inr vs" "distinct acc" "\<forall>v\<in>set acc. mn \<le> v \<and> v \<le> mx"
  shows "distinct vs \<and> (\<forall>v\<in>set vs. mn \<le> v \<and> v \<le> mx)"
  using assms
proof (induction ps arbitrary: acc)
  case (Cons p ps)
  then obtain ws where w: "field_part mn mx ns b p = Inr ws"
    "field_parts mn mx ns b ps (acc @ filter (\<lambda>v. v \<notin> set acc) ws) = Inr vs"
    by (auto split: sum.splits)
  show ?case
    using Cons.prems(2,3) field_part_distinct [OF w(1)] field_part_range [OF w(1)]
    by (intro Cons.IH [OF w(2)]) auto
qed simp

definition schedule_ok :: "cron_schedule \<Rightarrow> bool" where
  "schedule_ok s \<longleftrightarrow>
     distinct (cs_minutes s) \<and> (\<forall>m\<in>set (cs_minutes s). 0 \<le> m \<and> m \<le> 59)
     \<and> distinct (cs_hours s) \<and> (\<forall>h\<in>set (cs_hours s). 0 \<le> h \<and> h \<le> 23)
     \<and> (\<forall>d\<in>set (cs_days s). 1 \<le> d \<and> d \<le> 31) \<and> (\<forall>m\<in>set (cs_months s). 1 \<le> m \<and> m \<le> 12)
     \<and> (\<forall>w\<in>set (cs_weekdays s). 0 \<le> w \<and> w \<le> 6)"

lemma field_ok: "field spec mn mx ns b = Inr vs \<Longrightarrow> distinct vs \<and> (\<forall>v\<in>set vs. mn \<le> v \<and> v \<le> mx)"
  unfolding field_def by (erule field_parts_ok) simp_all

lemma parseCron_ok:
  assumes "parseCron expr = Inr s"
  shows "schedule_ok s"
proof -
  obtain m h domF mon dow wd minutes hours days months where
    f: "field dow 0 7 DAYS 0 = Inr wd" "field m 0 59 [] 0 = Inr minutes" "field h 0 23 [] 0 = Inr hours"
      "field domF 1 31 [] 0 = Inr days" "field mon 1 12 MONTHS 1 = Inr months"
    and s: "cs_minutes s = minutes" "cs_hours s = hours" "cs_days s = days" "cs_months s = months"
      "cs_weekdays s = (if 7 \<in> set wd
         then (let r = filter (\<lambda>d. d \<noteq> 7) wd in if 0 \<in> set r then r else r @ [0]) else wd)"
    using assms unfolding parseCron_def
    by (auto simp: Let_def split: list.splits sum.splits)
  note r = f [THEN field_ok]
  have "0 \<le> w \<and> w \<le> 6" if "w \<in> set (cs_weekdays s)" for w
  proof -
    have "0 \<le> w \<and> w \<le> 7 \<and> w \<noteq> 7" using that r(1) by (auto simp: s(5) Let_def split: if_splits)
    then show ?thesis by simp
  qed
  then show ?thesis using r(2-5) by (simp add: schedule_ok_def s(1-4))
qed

section \<open>Readings of a clock\<close>

text \<open>
  A zone is its offset from UTC in minutes at every instant; no zone is more than a day ahead or behind.  The local clock of
  an instant is the time in milliseconds whose UTC fields are the local fields, and \<open>reading D h m\<close> is the clock at
  \<open>h:m\<close> of the day \<open>D\<close>, counted from 1970.
\<close>

definition offsets_ok :: "(instant \<Rightarrow> int) \<Rightarrow> bool" where "offsets_ok tz \<longleftrightarrow> (\<forall>u. \<bar>tz u\<bar> \<le> 1440)"

definition local_clock :: "(instant \<Rightarrow> int) \<Rightarrow> instant \<Rightarrow> int" where "local_clock tz t = t + tz t * 60000"

definition reading :: "int \<Rightarrow> int \<Rightarrow> int \<Rightarrow> int" where "reading D h m = D * msPerDay + h * 3600000 + m * 60000"

text \<open>The minute after an instant, where the search starts.\<close>

definition next_minute :: "instant \<Rightarrow> instant" where "next_minute t = t div 60000 * 60000 + 60000"

definition matching_day :: "cron_schedule \<Rightarrow> int \<Rightarrow> bool" where
  "matching_day s D \<longleftrightarrow>
     (let l = D * msPerDay in dayMatches s (getUTCFullYear l) (getUTCMonth l + 1) (getUTCDate l))"

text \<open>A reading the schedule asks for, and the instant the code takes for it.\<close>

definition on_schedule :: "cron_schedule \<Rightarrow> int \<Rightarrow> int \<Rightarrow> int \<Rightarrow> bool" where
  "on_schedule s D h m \<longleftrightarrow> matching_day s D \<and> h \<in> set (cs_hours s) \<and> m \<in> set (cs_minutes s)"

definition runs_at :: "(instant \<Rightarrow> int) \<Rightarrow> int \<Rightarrow> int \<Rightarrow> int \<Rightarrow> instant" where
  "runs_at tz D h m =
     (let l = D * msPerDay in zonedTime tz (getUTCFullYear l) (getUTCMonth l + 1) (getUTCDate l) h m)"

text \<open>An instant matches a schedule when its wall clock time in the zone does, on the minute.\<close>

definition cron_matches :: "(instant \<Rightarrow> int) \<Rightarrow> cron_schedule \<Rightarrow> instant \<Rightarrow> bool" where
  "cron_matches tz s t \<longleftrightarrow>
     (let p = localParts tz t
      in dayMatches s (lp_year p) (lp_month p) (lp_day p)
         \<and> lp_hour p \<in> set (cs_hours s) \<and> lp_minute p \<in> set (cs_minutes s) \<and> 60000 dvd t)"

text \<open>The clock of the zone does not change from two days before the search to two days after its result.\<close>

definition steady :: "(instant \<Rightarrow> int) \<Rightarrow> instant \<Rightarrow> instant \<Rightarrow> bool" where
  "steady tz a t \<longleftrightarrow> (\<forall>u. a - 2 * msPerDay \<le> u \<and> u \<le> t + 2 * msPerDay \<longrightarrow> tz u = tz a)"

lemma getDay_midnight [simp]: "getDay (D * msPerDay) = D"
  by (simp add: getDay_def msPerDay_def)

lemma day_fields_cong:
  assumes "getDay l = getDay l'"
  shows "getUTCFullYear l = getUTCFullYear l'" "getUTCMonth l = getUTCMonth l'" "getUTCDate l = getUTCDate l'"
proof -
  show y: "getUTCFullYear l = getUTCFullYear l'" using assms by (simp add: getUTCFullYear_def)
  have yd: "yday l = yday l'" using assms y by (simp add: yday_def)
  show m: "getUTCMonth l = getUTCMonth l'" using y yd by (simp add: getUTCMonth_def)
  show "getUTCDate l = getUTCDate l'" using y yd m by (simp add: getUTCDate_def)
qed

lemma minute_split:
  assumes "60000 dvd l"
  shows "getDay l * msPerDay + getUTCHours l * 3600000 + getUTCMinutes l * 60000 = l"
proof -
  have "1000 dvd l" using assms by (rule dvd_trans [rotated]) simp
  then have "getUTCMilliseconds l = 0"
    by (simp add: getUTCMilliseconds_def getTimeOfDay_def msPerDay_def mod_mod_cancel)
  moreover have "getUTCSeconds l = 0"
  proof -
    obtain k where k: "l = 60000 * k" using assms by blast
    have "getTimeOfDay l = 60000 * (k mod 1440)"
      unfolding getTimeOfDay_def msPerDay_def k using mult_mod_right [of 60000 k 1440] by simp
    then have "getTimeOfDay l div 1000 = 60 * (k mod 1440)" by simp
    then show ?thesis by (simp add: getUTCSeconds_def)
  qed
  ultimately show ?thesis using day_split [of l] tod_fields [of l] by simp
qed

lemma local_clock_dvd [simp]: "60000 dvd local_clock tz t \<longleftrightarrow> 60000 dvd t"
  by (simp add: local_clock_def)

lemma next_minute_props: "60000 dvd next_minute a" "a < next_minute a" "next_minute a \<le> a + 60000"
  using div_mult_mod_eq [of a 60000] pos_mod_bound [of 60000 a] pos_mod_sign [of 60000 a]
  by (auto simp: next_minute_def)

lemma next_minute_least:
  assumes "a < u" "60000 dvd u"
  shows "next_minute a \<le> u"
proof -
  obtain k where k: "u = 60000 * k" using assms(2) by blast
  have "a div 60000 < k" using assms(1) k div_mult_mod_eq [of a 60000] pos_mod_sign [of 60000 a] by linarith
  then show ?thesis using k by (simp add: next_minute_def)
qed

lemma on_schedule_range:
  "schedule_ok s \<Longrightarrow> on_schedule s D h m \<Longrightarrow> 0 \<le> h \<and> h \<le> 23 \<and> 0 \<le> m \<and> m \<le> 59"
  by (auto simp: schedule_ok_def on_schedule_def)

lemma reading_day:
  assumes "0 \<le> h" "h \<le> 23" "0 \<le> m" "m \<le> 59"
  shows "D * msPerDay \<le> reading D h m" "reading D h m < (D + 1) * msPerDay"
  using assms by (simp_all add: reading_def msPerDay_def)

lemma reading_fields:
  assumes "0 \<le> h" "h \<le> 23" "0 \<le> m" "m \<le> 59"
  shows "getDay (reading D h m) = D" "getUTCHours (reading D h m) = h" "getUTCMinutes (reading D h m) = m"
proof -
  have l: "reading D h m = D * msPerDay + (h * 3600000 + m * 60000)" by (simp add: reading_def)
  have u: "0 \<le> h * 3600000 + m * 60000" "h * 3600000 + m * 60000 < 86400000" using assms by simp_all
  note day = getDay_plus [OF u, of D] and tod = getTimeOfDay_plus [OF u, of D]
  show "getDay (reading D h m) = D" by (simp add: l day)
  have "(h * 3600000 + m * 60000) div 3600000 = h" using assms by simp
  then show "getUTCHours (reading D h m) = h" by (simp add: l tod getUTCHours_def)
  have "(h * 3600000 + m * 60000) div 60000 = h * 60 + m" by simp
  moreover have "(h * 60 + m) mod 60 = m" using assms by simp
  ultimately show "getUTCMinutes (reading D h m) = m" by (simp add: l tod getUTCMinutes_def)
qed

lemma cron_matches_clock:
  "cron_matches tz s t \<longleftrightarrow>
     (let l = local_clock tz t
      in matching_day s (getDay l) \<and> getUTCHours l \<in> set (cs_hours s) \<and> getUTCMinutes l \<in> set (cs_minutes s) \<and> 60000 dvd t)"
  using day_fields_cong [of "getDay (local_clock tz t) * msPerDay" "local_clock tz t"]
  by (simp add: cron_matches_def matching_day_def localParts_def local_clock_def MINUTE_def Let_def)

lemma matches_reading:
  assumes "cron_matches tz s u"
  shows "\<exists>D h m. on_schedule s D h m \<and> local_clock tz u = reading D h m"
proof -
  let ?l = "local_clock tz u"
  have "60000 dvd ?l" using assms by (simp add: cron_matches_clock Let_def)
  then have "?l = reading (getDay ?l) (getUTCHours ?l) (getUTCMinutes ?l)"
    using minute_split [of ?l] by (simp add: reading_def)
  then show ?thesis using assms by (auto simp: cron_matches_clock on_schedule_def Let_def)
qed

lemma reading_matches:
  assumes "schedule_ok s" "on_schedule s D h m" "local_clock tz u = reading D h m"
  shows "cron_matches tz s u"
proof -
  have "60000 dvd local_clock tz u" unfolding assms(3) by (simp add: reading_def msPerDay_def)
  then have "60000 dvd u" by simp
  then show ?thesis
    using on_schedule_range [OF assms(1,2)] assms(2,3) by (simp add: cron_matches_clock on_schedule_def reading_fields Let_def)
qed

section \<open>The order of the search\<close>

definition skipped :: "bool \<Rightarrow> local_parts \<Rightarrow> int \<Rightarrow> int \<Rightarrow> bool" where
  "skipped first p h m \<longleftrightarrow> first \<and> (h < lp_hour p \<or> h = lp_hour p \<and> m < lp_minute p)"

lemma in_clock_times:
  "(h, m) \<in> set (clock_times s first p) \<longleftrightarrow>
     h \<in> set (cs_hours s) \<and> m \<in> set (cs_minutes s) \<and> \<not> skipped first p h m"
  by (auto simp: clock_times_def skipped_def split: if_splits)

lemma clock_sorted:
  assumes "sorted_wrt (<) hs" "sorted ms" "\<forall>m\<in>set ms. 0 \<le> m \<and> m \<le> (59::int)"
  shows "sorted (map (\<lambda>(h, m). reading D h m)
    (concat (map (\<lambda>h. if A h then [] else map (\<lambda>m. (h, m)) (filter (B h) ms)) hs)))"
  using assms(1)
proof (induction hs)
  case (Cons h hs)
  have "sorted (map (\<lambda>m. reading D h m) (filter (B h) ms))"
  proof -
    have "sorted (filter (B h) ms)" using assms(2) by (rule sorted_wrt_filter)
    then show ?thesis unfolding sorted_map by (rule sorted_wrt_mono_rel [rotated]) (simp add: reading_def)
  qed
  moreover have "reading D h m \<le> reading D h' m'" if "h < h'" "m \<in> set ms" "m' \<in> set ms" for m h' m'
  proof -
    have "m \<le> 59" "0 \<le> m'" using that(2,3) assms(3) by simp_all
    then show ?thesis using that(1) by (simp add: reading_def)
  qed
  ultimately show ?case
    using Cons by (auto simp: sorted_append comp_def split: if_splits)
qed simp

lemma clock_times_sorted:
  assumes "schedule_ok s"
  shows "sorted (map (\<lambda>(h, m). reading D h m) (clock_times s first p))"
  unfolding clock_times_def using assms
  by (intro clock_sorted) (auto simp: schedule_ok_def strict_sorted_iff)

text \<open>A search through a list that is sorted by a key finds the candidate with the least key.\<close>

lemma find_least:
  assumes "List.find P (map f xs) = Some v" "sorted (map g xs)"
  shows "\<exists>x\<in>set xs. v = f x \<and> P v \<and> (\<forall>y\<in>set xs. g y < g x \<longrightarrow> \<not> P (f y))"
  using assms
proof (induction xs)
  case (Cons x xs)
  show ?case
  proof (cases "P (f x)")
    case True
    then have "v = f x" using Cons.prems(1) by simp
    moreover have "\<forall>y\<in>set xs. g x \<le> g y" using Cons.prems(2) by simp
    ultimately show ?thesis using True by (intro bexI [of _ x]) auto
  next
    case False
    then have "\<exists>z\<in>set xs. v = f z \<and> P v \<and> (\<forall>y\<in>set xs. g y < g z \<longrightarrow> \<not> P (f y))" using Cons by simp
    with False show ?thesis by auto
  qed
qed simp

text \<open>The candidates of one day.\<close>

definition day_cands :: "(instant \<Rightarrow> int) \<Rightarrow> cron_schedule \<Rightarrow> bool \<Rightarrow> local_parts \<Rightarrow> int \<Rightarrow> instant list" where
  "day_cands tz s first p D =
     (if matching_day s D then map (\<lambda>(h, m). runs_at tz D h m) (clock_times s first p) else [])"

lemma next_loop_step:
  "next_loop tz s after p (Suc n) first (D * msPerDay) =
     (case List.find (\<lambda>t. after < t) (day_cands tz s first p D) of
        Some t \<Rightarrow> Inr t
      | None \<Rightarrow> next_loop tz s after p n False ((D + 1) * msPerDay))"
proof -
  let ?l = "D * msPerDay"
  have next_day: "D * msPerDay + 86400000 = (D + 1) * msPerDay" by (simp add: msPerDay_def)
  show ?thesis
    unfolding next_loop.simps Let_def next_day day_cands_def matching_day_def runs_at_def
    by (cases "dayMatches s (getUTCFullYear ?l) (getUTCMonth ?l + 1) (getUTCDate ?l)") simp_all
qed


lemma next_loop_order:
  assumes "schedule_ok s" "next_loop tz s after p n first (D * msPerDay) = Inr t"
  shows "\<exists>E h m. D \<le> E \<and> on_schedule s E h m \<and> \<not> (E = D \<and> skipped first p h m) \<and> t = runs_at tz E h m \<and> after < t
    \<and> (\<forall>D' h' m'. D \<le> D' \<and> on_schedule s D' h' m' \<and> \<not> (D' = D \<and> skipped first p h' m') \<and> reading D' h' m' < reading E h m
         \<longrightarrow> runs_at tz D' h' m' \<le> after)"
  using assms(2)
proof (induction n arbitrary: D first)
  case (Suc n)
  note step = Suc.prems [unfolded next_loop_step]
  note range = on_schedule_range [OF assms(1)]
  show ?case
  proof (cases "List.find (\<lambda>t. after < t) (day_cands tz s first p D)")
    case (Some v)
    then have v: "v = t" and today: "matching_day s D"
      using step by (auto simp: day_cands_def split: if_splits)
    have "List.find (\<lambda>t. after < t) (map (\<lambda>(h, m). runs_at tz D h m) (clock_times s first p)) = Some t"
      using Some v today by (simp add: day_cands_def)
    from find_least [OF this clock_times_sorted [OF assms(1), of D]] obtain x where
      x: "x \<in> set (clock_times s first p)" "t = (case x of (h, m) \<Rightarrow> runs_at tz D h m)" "after < t"
        "\<forall>y\<in>set (clock_times s first p). (case y of (h, m) \<Rightarrow> reading D h m) < (case x of (h, m) \<Rightarrow> reading D h m)
           \<longrightarrow> \<not> after < (case y of (h, m) \<Rightarrow> runs_at tz D h m)" by blast
    obtain h m where "x = (h, m)" by (cases x)
    with x have hm: "(h, m) \<in> set (clock_times s first p)" "t = runs_at tz D h m" "after < t"
      and least: "\<And>h' m'. (h', m') \<in> set (clock_times s first p) \<Longrightarrow> reading D h' m' < reading D h m \<Longrightarrow> runs_at tz D h' m' \<le> after"
      by (fastforce simp: not_less)+
    have on: "on_schedule s D h m" and "\<not> skipped first p h m"
      using hm(1) today by (auto simp: in_clock_times on_schedule_def)
    moreover have "runs_at tz D' h' m' \<le> after"
      if "D \<le> D'" "on_schedule s D' h' m'" "\<not> (D' = D \<and> skipped first p h' m')" "reading D' h' m' < reading D h m" for D' h' m'
    proof -
      have "reading D h m < (D + 1) * msPerDay" "D' * msPerDay \<le> reading D' h' m'"
        using reading_day range [OF on] range [OF that(2)] by blast+
      then have "D' = D" using that(1,4) by (simp add: msPerDay_def)
      then show ?thesis using that least by (auto simp: in_clock_times on_schedule_def)
    qed
    ultimately show ?thesis using hm(2,3) by blast
  next
    case None
    then obtain E h m where E: "D + 1 \<le> E" "on_schedule s E h m" "t = runs_at tz E h m" "after < t"
      and before: "\<And>D' h' m'. D + 1 \<le> D' \<Longrightarrow> on_schedule s D' h' m' \<Longrightarrow> reading D' h' m' < reading E h m \<Longrightarrow> runs_at tz D' h' m' \<le> after"
      using Suc.IH [of False "D + 1"] step by (auto simp: skipped_def)
    have today: "runs_at tz D h' m' \<le> after" if "on_schedule s D h' m'" "\<not> skipped first p h' m'" for h' m'
    proof -
      have "(h', m') \<in> set (clock_times s first p)" using that by (simp add: in_clock_times on_schedule_def)
      then have "runs_at tz D h' m' \<in> set (day_cands tz s first p D)" using that(1) by (force simp: day_cands_def on_schedule_def)
      then show ?thesis using None by (auto simp: find_None_iff)
    qed
    have "runs_at tz D' h' m' \<le> after"
      if "D \<le> D'" "on_schedule s D' h' m'" "\<not> (D' = D \<and> skipped first p h' m')" "reading D' h' m' < reading E h m" for D' h' m'
      using that today before by (cases "D' = D") auto
    then show ?thesis using E by (intro exI [of _ E] exI [of _ h] exI [of _ m]) auto
  qed
qed simp

text \<open>The clock that an offset of at most a day shows.\<close>

lemma zone_bound: "offsets_ok tz \<Longrightarrow> \<bar>tz u * 60000\<bar> \<le> msPerDay"
  by (simp add: offsets_ok_def msPerDay_def abs_mult)

lemma offset_zone:
  assumes "offsets_ok tz" "msPerDay \<le> u"
  shows "offsetMinutes tz u = tz u"
proof -
  have "offsetMinutes tz u = offsetMinutes (fixed_tz (tz u)) u"
    by (simp add: offsetMinutes_def localParts_def fixed_tz_def)
  also have "\<dots> = tz u"
  proof (rule offset_fixed)
    show "- (tz u * 60000) \<le> u" using zone_bound [OF assms(1), of u] assms(2) by linarith
    show "\<bar>tz u\<bar> \<le> 2 ^ 53" using assms(1) unfolding offsets_ok_def by (rule allE [of _ u]) simp
  qed
  finally show ?thesis .
qed

text \<open>The two passes of \<open>zonedTime\<close>.\<close>

lemma runs_at_zone:
  assumes "offsets_ok tz" "2 * msPerDay \<le> reading D h m" "0 \<le> h" "h \<le> 23" "0 \<le> m" "m \<le> 59"
  defines "g \<equiv> reading D h m"
  shows "runs_at tz D h m = g - tz (g - tz g * 60000) * 60000"
proof -
  let ?l = "D * msPerDay"
  have "2 * msPerDay < (D + 1) * msPerDay" using reading_day(2) [OF assms(3-6), of D] assms(2) by linarith
  then have "0 \<le> ?l" by (simp add: msPerDay_def)
  then have y: "100 \<le> getUTCFullYear ?l" using getUTCFullYear_epoch [of ?l] by simp
  have g: "date_UTC (getUTCFullYear ?l) (getUTCMonth ?l) (getUTCDate ?l) h m 0 0 = g"
    using fields_of_day [OF y] by (simp add: g_def reading_def)
  have "0 \<le> msPerDay" by (simp add: msPerDay_def)
  then have gd: "2 * msPerDay \<le> g" "msPerDay \<le> g" using assms(2) by (auto simp: g_def)
  have first: "msPerDay \<le> g - tz g * 60000" using zone_bound [OF assms(1), of g] gd(1) by linarith
  show ?thesis
    by (simp add: runs_at_def zonedTime_def g Let_def MINUTE_def offset_zone [OF assms(1)] gd(2) first)
qed


section \<open>The next run\<close>

text \<open>
  In every zone, the result is the first reading of the schedule, from the local clock of the next minute on, whose
  instant lies after the given one.
\<close>

lemma nextRun_order:
  assumes ok: "schedule_ok s" and zone: "offsets_ok tz" and after: "3 * msPerDay \<le> after" and run: "nextRun tz s after = Inr t"
  defines "l \<equiv> local_clock tz (next_minute after)"
  shows "\<exists>D h m. on_schedule s D h m \<and> l \<le> reading D h m \<and> t = runs_at tz D h m \<and> after < t
    \<and> (\<forall>D' h' m'. on_schedule s D' h' m' \<and> l \<le> reading D' h' m' \<and> reading D' h' m' < reading D h m \<longrightarrow> runs_at tz D' h' m' \<le> after)"
proof -
  define p where "p = localParts tz (next_minute after)"
  have "0 \<le> l"
    using zone_bound [OF zone, of "next_minute after"] next_minute_props(2) [of after] after
    by (simp add: l_def local_clock_def msPerDay_def)
  then have y: "100 \<le> getUTCFullYear l" using getUTCFullYear_epoch [of l] by simp
  have p': "lp_year p = getUTCFullYear l" "lp_month p - 1 = getUTCMonth l" "lp_day p = getUTCDate l"
    "lp_hour p = getUTCHours l" "lp_minute p = getUTCMinutes l"
    by (simp_all add: p_def localParts_def MINUTE_def l_def local_clock_def Let_def)
  have "next_loop tz s after p (366 * 8) True (getDay l * msPerDay) = Inr t"
    using run fields_of_day [OF y, of 0 0 0 0]
    by (simp add: nextRun_def Let_def p_def [symmetric] p' next_minute_def [symmetric])
  note N = next_loop_order [OF ok this]
  have "60000 dvd l" using next_minute_props(1) by (simp add: l_def)
  then have mid: "reading (getDay l) (getUTCHours l) (getUTCMinutes l) = l"
    using minute_split [of l] by (simp add: reading_def)
  have fields: "0 \<le> getUTCMinutes l" "getUTCMinutes l \<le> 59" "0 \<le> getUTCHours l" "getUTCHours l \<le> 23"
    using getTimeOfDay_bounds [of l] unfolding getUTCMinutes_def getUTCHours_def by arith+
  have from_start: "getDay l \<le> D \<and> \<not> (D = getDay l \<and> skipped True p h m) \<longleftrightarrow> l \<le> reading D h m"
    if on: "on_schedule s D h m" for D h m
  proof -
    note r = on_schedule_range [OF ok on]
    have "l \<le> reading D h m \<longleftrightarrow> reading (getDay l) (getUTCHours l) (getUTCMinutes l) \<le> reading D h m" by (simp only: mid)
    also have "\<dots> \<longleftrightarrow> getDay l \<le> D \<and> \<not> (D = getDay l \<and> (h < getUTCHours l \<or> h = getUTCHours l \<and> m < getUTCMinutes l))"
      using r fields unfolding reading_def msPerDay_def by auto
    finally show ?thesis by (simp add: skipped_def p')
  qed
  show ?thesis using N from_start by metis
qed


text \<open>Where the clock is steady, an instant around the search is its reading less the offset.\<close>

lemma steady_runs_at:
  assumes zone: "offsets_ok tz" and steady: "steady tz after t" and r: "2 * msPerDay \<le> reading D h m"
    and hm: "0 \<le> h" "h \<le> 23" "0 \<le> m" "m \<le> 59"
    and near: "after < runs_at tz D h m \<and> runs_at tz D h m \<le> t
      \<or> after < reading D h m - tz after * 60000 \<and> reading D h m - tz after * 60000 \<le> t"
  shows "runs_at tz D h m = reading D h m - tz after * 60000"
proof -
  define g where "g = reading D h m"
  define u where "u = g - tz g * 60000"
  have runs: "runs_at tz D h m = g - tz u * 60000" using runs_at_zone [OF zone r hm] by (simp add: g_def u_def)
  obtain v where v: "after < g - tz v * 60000" "g - tz v * 60000 \<le> t" using near unfolding runs g_def [symmetric] by blast
  have "tz g * 60000 \<le> msPerDay" "- msPerDay \<le> tz g * 60000" "tz v * 60000 \<le> msPerDay" "- msPerDay \<le> tz v * 60000"
    using zone_bound [OF zone, of g] zone_bound [OF zone, of v] by linarith+
  then have "after - 2 * msPerDay \<le> u \<and> u \<le> t + 2 * msPerDay" using v unfolding u_def by linarith
  then have "tz u = tz after" using steady by (simp add: steady_def)
  then show ?thesis by (simp add: runs g_def)
qed

lemma steady_local_clock:
  assumes "steady tz after t" "after \<le> u" "u \<le> t"
  shows "local_clock tz u = u + tz after * 60000"
proof -
  have "0 \<le> msPerDay" by (simp add: msPerDay_def)
  then have "after - 2 * msPerDay \<le> u \<and> u \<le> t + 2 * msPerDay" using assms(2,3) by linarith
  then have "tz u = tz after" using assms(1) unfolding steady_def by blast
  then show ?thesis by (simp only: local_clock_def)
qed

lemma nextRun_is_first:
  assumes ok: "schedule_ok s" and zone: "offsets_ok tz" and after: "3 * msPerDay \<le> after" and run: "nextRun tz s after = Inr t"
    and steady: "steady tz after t"
  shows "cron_matches tz s t \<and> (\<forall>u. after < u \<and> u < t \<longrightarrow> \<not> cron_matches tz s u)"
proof -
  let ?l = "local_clock tz (next_minute after)"
  obtain D h m where D: "on_schedule s D h m" "?l \<le> reading D h m" "t = runs_at tz D h m" "after < t"
    and before: "\<And>D' h' m'. on_schedule s D' h' m' \<Longrightarrow> ?l \<le> reading D' h' m' \<Longrightarrow> reading D' h' m' < reading D h m
      \<Longrightarrow> runs_at tz D' h' m' \<le> after"
    using nextRun_order [OF ok zone after run] by blast
  have late: "2 * msPerDay \<le> ?l"
    using zone_bound [OF zone, of "next_minute after"] next_minute_props(2) [of after] after by (simp add: local_clock_def)
  have t: "t = reading D h m - tz after * 60000"
    using steady_runs_at [OF zone steady _ _ _ _ _, of D h m] on_schedule_range [OF ok D(1)] D(2-4) late by simp
  have "cron_matches tz s t"
    by (rule reading_matches [OF ok D(1)]) (use steady_local_clock [OF steady, of t] D(4) t in simp)
  moreover have "\<not> cron_matches tz s u" if u: "after < u" "u < t" for u
  proof
    assume c: "cron_matches tz s u"
    from matches_reading [OF this] obtain E i j where E: "on_schedule s E i j" "local_clock tz u = reading E i j" by blast
    have clock: "local_clock tz u = u + tz after * 60000" using steady_local_clock [OF steady] u by simp
    have "60000 dvd u" using c by (simp add: cron_matches_def Let_def)
    then have n: "next_minute after \<le> u" using next_minute_least u(1) by blast
    then have "local_clock tz (next_minute after) = next_minute after + tz after * 60000"
      using steady_local_clock [OF steady, of "next_minute after"] next_minute_props(2) [of after] u(2) by simp
    with n clock E(2) have l: "?l \<le> reading E i j" by simp
    have "reading E i j < reading D h m" using clock E(2) t u(2) by simp
    then have "runs_at tz E i j \<le> after" using before [OF E(1) l] by blast
    moreover have "runs_at tz E i j = reading E i j - tz after * 60000"
      using steady_runs_at [OF zone steady _ _ _ _ _, of E i j] on_schedule_range [OF ok E(1)] l late clock E(2) u by simp
    ultimately show False using clock E(2) u(1) by simp
  qed
  ultimately show ?thesis by blast
qed

end
