(* ===== verification/Payout_Math.thy ===== *)
theory Payout_Math
  imports Sla
begin

text \<open>
  Contractor pay, \<open>ops/payouts/payout-math.ts\<close>: day and night minutes of a work log in the
  contract's zone and the statement of a month.  \<open>tz\<close> gives a zone's offset in minutes.
\<close>

definition localTime :: "(instant \<Rightarrow> int) \<Rightarrow> instant \<Rightarrow> int \<times> int" where
  "localTime tz t = (let l = t + tz t * 60000 in (getUTCHours l, getUTCMinutes l))"

definition isNightHour :: "int \<Rightarrow> int \<Rightarrow> int \<Rightarrow> bool" where
  "isNightHour hour start stop =
     (if stop < start then start \<le> hour \<or> hour < stop else start \<le> hour \<and> hour < stop)"

lemma minute_lt: "0 \<le> snd (localTime tz t) \<and> snd (localTime tz t) \<le> 59"
  by (simp add: localTime_def Let_def getUTCMinutes_def)

function night_loop :: "(instant \<Rightarrow> int) \<Rightarrow> instant \<Rightarrow> int \<Rightarrow> int \<Rightarrow> int \<Rightarrow> int \<Rightarrow> int \<Rightarrow> int" where
  "night_loop tz start minutes ns ne m night =
     (if m < minutes then
        let (hour, minute) = localTime tz (start + m * 60000);
            span = min (60 - minute) (minutes - m)
        in night_loop tz start minutes ns ne (m + span) (if isNightHour hour ns ne then night + span else night)
      else night)"
  by pat_completeness auto
termination
proof (relation "measure (\<lambda>(tz, start, minutes, ns, ne, m, night). nat (minutes - m))", goal_cases)
  case (2 tz start minutes ns ne m night x hour minute span)
  then have "minute \<le> 59" using minute_lt [of tz "start + m * 60000"] by (metis snd_conv)
  with 2 show ?case by auto
qed simp

declare night_loop.simps [simp del]

definition nightMinutes :: "(instant \<Rightarrow> int) \<Rightarrow> instant \<Rightarrow> int \<Rightarrow> int \<Rightarrow> int \<Rightarrow> int" where
  "nightMinutes tz start minutes ns ne = night_loop tz start minutes ns ne 0 0"

record payout_log =
  pl_id :: id
  pl_startedAt :: instant
  pl_minutes :: int
  pl_zone :: string

record payout_rates =
  pr_hourlyRateMinor :: int
  pr_standbyFeeMinor :: int
  pr_nightMultiplier :: rat
  pr_nightStartHour :: int
  pr_nightEndHour :: int

record payout_line =
  ln_workLogId :: id
  ln_startedAt :: instant
  ln_minutes :: int
  ln_nightMinutes :: int
  ln_amountMinor :: int

record payout =
  po_lines :: "payout_line list"
  po_workedMinutes :: int
  po_nightMinutes :: int
  po_workMinor :: int
  po_standbyShifts :: int
  po_standbyMinor :: int
  po_totalMinor :: int

definition payout_line_of :: "(string \<Rightarrow> instant \<Rightarrow> int) \<Rightarrow> payout_rates \<Rightarrow> payout_log \<Rightarrow> payout_line" where
  "payout_line_of zones r w =
     (let night = nightMinutes (zones (pl_zone w)) (pl_startedAt w) (pl_minutes w) (pr_nightStartHour r) (pr_nightEndHour r);
          dayM = pl_minutes w - night;
          amount = js_round (js_div
            (js_add (js_mul (of_int dayM) (of_int (pr_hourlyRateMinor r)))
                    (js_mul (js_mul (of_int night) (of_int (pr_hourlyRateMinor r))) (pr_nightMultiplier r))) 60)
      in \<lparr>ln_workLogId = pl_id w, ln_startedAt = pl_startedAt w, ln_minutes = pl_minutes w,
          ln_nightMinutes = night, ln_amountMinor = amount\<rparr>)"

definition computePayout :: "(string \<Rightarrow> instant \<Rightarrow> int) \<Rightarrow> payout_log list \<Rightarrow> int \<Rightarrow> payout_rates \<Rightarrow> payout" where
  "computePayout zones worklogs completedShifts r =
     (let lines = map (payout_line_of zones r) worklogs;
          workMinor = sum_by ln_amountMinor lines;
          standbyMinor = completedShifts * pr_standbyFeeMinor r
      in \<lparr>po_lines = lines, po_workedMinutes = sum_by ln_minutes lines, po_nightMinutes = sum_by ln_nightMinutes lines,
          po_workMinor = workMinor, po_standbyShifts = completedShifts, po_standbyMinor = standbyMinor,
          po_totalMinor = workMinor + standbyMinor\<rparr>)"

section \<open>The hour by hour walk counts the minutes one by one\<close>

definition night_minute :: "(instant \<Rightarrow> int) \<Rightarrow> instant \<Rightarrow> int \<Rightarrow> int \<Rightarrow> int \<Rightarrow> bool" where
  "night_minute tz start ns ne k \<longleftrightarrow> isNightHour (fst (localTime tz (start + k * 60000))) ns ne"

lemma hour_of_minute: "getUTCHours l = (l div 60000) div 60 mod 24" "getUTCMinutes l = (l div 60000) mod 60"
proof -
  have q: "getTimeOfDay l div 60000 = (l div 60000) mod 1440"
    unfolding getTimeOfDay_def msPerDay_def using zmod_zmult2_eq [of 1440 l 60000] by simp
  have "getTimeOfDay l div 3600000 = getTimeOfDay l div 60000 div 60"
    using zdiv_zmult2_eq [of 60 "getTimeOfDay l" 60000] by simp
  then show "getUTCHours l = (l div 60000) div 60 mod 24"
    using zmod_zmult2_eq [of 24 "l div 60000" 60] q by (simp add: getUTCHours_def)
  show "getUTCMinutes l = (l div 60000) mod 60" by (simp add: getUTCMinutes_def q mod_mod_cancel)
qed

lemma same_hour:
  assumes "0 \<le> j" "getUTCMinutes l + j \<le> 59"
  shows "getUTCHours (l + j * 60000) = getUTCHours l"
proof -
  let ?q = "l div 60000"
  have "(l + j * 60000) div 60000 = ?q + j" using div_mult_self1 [of 60000 l j] by simp
  moreover have "(?q + j) div 60 = ?q div 60"
  proof -
    have "?q + j = 60 * (?q div 60) + (?q mod 60 + j)" by simp
    moreover have "0 \<le> ?q mod 60 + j" "?q mod 60 + j < 60"
      using assms by (simp_all add: hour_of_minute(2))
    ultimately show ?thesis by (rule int_div_pos_eq)
  qed
  ultimately show ?thesis by (simp only: hour_of_minute(1))
qed

lemma night_minute_span:
  assumes "localTime (fixed_tz c) (start + m * 60000) = (hour, minute)" "m \<le> k" "k < m + (60 - minute)"
  shows "night_minute (fixed_tz c) start ns ne k = isNightHour hour ns ne"
proof -
  let ?l = "start + m * 60000 + c * 60000"
  have h: "hour = getUTCHours ?l" "minute = getUTCMinutes ?l"
    using assms(1) by (simp_all add: localTime_def fixed_tz_def Let_def)
  have "getUTCHours (?l + (k - m) * 60000) = getUTCHours ?l" using assms h by (intro same_hour) simp_all
  moreover have "?l + (k - m) * 60000 = start + k * 60000 + c * 60000" by (simp add: algebra_simps)
  ultimately have "getUTCHours (start + k * 60000 + c * 60000) = hour" by (simp only: h)
  then show ?thesis by (simp add: night_minute_def localTime_def fixed_tz_def Let_def)
qed

lemma night_loop_count:
  assumes "0 \<le> m"
  shows "night_loop (fixed_tz c) start minutes ns ne m night
     = night + int (card {k. m \<le> k \<and> k < minutes \<and> night_minute (fixed_tz c) start ns ne k})"
  using assms
proof (induction "nat (minutes - m)" arbitrary: m night rule: less_induct)
  case less
  let ?N = "night_minute (fixed_tz c) start ns ne"
  show ?case
  proof (cases "m < minutes")
    case True
    obtain hour minute where t: "localTime (fixed_tz c) (start + m * 60000) = (hour, minute)" by force
    have mi: "0 \<le> minute" "minute \<le> 59" using minute_lt [of "fixed_tz c" "start + m * 60000"] t by simp_all
    define span where "span = min (60 - minute) (minutes - m)"
    have sp: "0 < span" "m + span \<le> minutes" "span \<le> 60 - minute" using mi True by (auto simp: span_def)
    let ?n = "if isNightHour hour ns ne then night + span else night"
    have "night_loop (fixed_tz c) start minutes ns ne m night = night_loop (fixed_tz c) start minutes ns ne (m + span) ?n"
      using True t by (subst night_loop.simps) (simp add: span_def Let_def)
    also have "\<dots> = ?n + int (card {k. m + span \<le> k \<and> k < minutes \<and> ?N k})"
      using less.prems sp by (intro less.hyps) simp_all
    also have "\<dots> = night + int (card {k. m \<le> k \<and> k < m + span \<and> ?N k})
        + int (card {k. m + span \<le> k \<and> k < minutes \<and> ?N k})"
    proof -
      have "?N k = isNightHour hour ns ne" if "m \<le> k" "k < m + span" for k
        using night_minute_span [OF t, of k ns ne] that sp(3) by simp
      then have "{k. m \<le> k \<and> k < m + span \<and> ?N k} = (if isNightHour hour ns ne then {m..<m + span} else {})"
        by auto
      then have "card {k. m \<le> k \<and> k < m + span \<and> ?N k} = (if isNightHour hour ns ne then nat span else 0)"
        by (simp only:) simp
      then show ?thesis using sp(1) by (simp only:) simp
    qed
    also have "\<dots> = night + int (card {k. m \<le> k \<and> k < minutes \<and> ?N k})"
    proof -
      have "{k. m \<le> k \<and> k < minutes \<and> ?N k} = {k. m \<le> k \<and> k < m + span \<and> ?N k} \<union> {k. m + span \<le> k \<and> k < minutes \<and> ?N k}"
        using sp by auto
      moreover have "finite {k. m \<le> k \<and> k < m + span \<and> ?N k}" "finite {k. m + span \<le> k \<and> k < minutes \<and> ?N k}"
        by (rule finite_subset [of _ "{m..minutes}"], use sp in auto)+
      ultimately have "card {k. m \<le> k \<and> k < minutes \<and> ?N k}
          = card {k. m \<le> k \<and> k < m + span \<and> ?N k} + card {k. m + span \<le> k \<and> k < minutes \<and> ?N k}"
        by (metis (no_types, lifting) Int_emptyI card_Un_disjoint linorder_not_less mem_Collect_eq)
      then show ?thesis by linarith
    qed
    finally show ?thesis .
  next
    case False
    then have "{k. m \<le> k \<and> k < minutes \<and> ?N k} = {}" by auto
    then have "card {k. m \<le> k \<and> k < minutes \<and> ?N k} = 0" by (simp only: card.empty)
    then show ?thesis using False night_loop.simps [of "fixed_tz c" start minutes ns ne m night] by (simp only: if_False)
  qed
qed

lemma nightMinutes_count:
  "nightMinutes (fixed_tz c) start minutes ns ne
     = int (card {k. 0 \<le> k \<and> k < minutes \<and> night_minute (fixed_tz c) start ns ne k})"
  by (simp add: nightMinutes_def night_loop_count)

lemma nightMinutes_bounds:
  assumes "0 \<le> minutes"
  shows "0 \<le> nightMinutes (fixed_tz c) start minutes ns ne \<and> nightMinutes (fixed_tz c) start minutes ns ne \<le> minutes"
proof -
  have "card {k. 0 \<le> k \<and> k < minutes \<and> night_minute (fixed_tz c) start ns ne k} \<le> card {0..<minutes}"
    by (rule card_mono) auto
  then show ?thesis using assms by (simp add: nightMinutes_count)
qed

end
