(* ===== verification/Spec2Isabelle.thy ===== *)
theory Spec2Isabelle
  imports Managed_Billing Agent_Rows Team_Members Access_Grants Ssh_Cert Net_Guard Ops_Guards Scheduler Addresses Firewalls Approvals Redact Timers Flow_Graph Sql_Guard Connect_Usage Ledger Rating Spend Renewal Cron
    Payout_Math Expression
begin

text \<open>
  This development verifies the control plane of a cloud provider: the NestJS API under
  \<open>src/apps/api/src\<close>.  Customers belong to teams; a team has projects, projects have servers and other
  resources, resources are metered, rated and invoiced; agents of a team act through tokens with scopes,
  spending caps and approvals; external engineers look after customers' systems under contracts; flows connect
  language models with tools.  The tables live in PostgreSQL, described by \<open>prisma/schema.prisma\<close>.

  \<^bold>\<open>How the program is modelled.\<close>  A table is a list of records in insertion order, a service method is a
  function from its arguments and the tables to its result and the new tables; \<open>updateMany\<close> and \<open>update\<close> are
  \<open>update_where\<close>, \<open>findUnique\<close> is \<open>find_by\<close>.  A thrown error is \<open>Inl\<close> of an \<open>error\<close> (\<open>ApiError\<close> with its
  HTTP status and code, or \<open>JsError\<close> for any other exception); the state beside it is what the method wrote
  before it threw.  A transaction that throws returns the state it started with.  Instants are integers of
  milliseconds.  JavaScript numbers are rationals with rounding to 53 bits (\<open>fl\<close>) after every operation
  that can be inexact; amounts are unbounded integers (the columns are 32 bit, and the database raises an error instead
  of storing more).  Dates are unbounded as well, where JavaScript has no date beyond 8.64e15 milliseconds.  Strings are lists of characters, so a character outside Latin 1 is
  outside the model.  What is not in the repository is a parameter of the definition that uses it: the
  time zone data, hashing and signing, the printing of a number, the parsing of URLs, the resolver and the network, the
  payment gateway, the mail server, the host agents and the executors of approvals.  A race between requests
  is a function applied to the table between the read and the write of the method.

  \<^bold>\<open>Libraries.\<close>
  \<^item> \<open>Prelude\<close>: tables, unique keys, sums over tables, results, and the locale \<open>guarded_system\<close> of
    operations that keep an invariant, with its lemmas on runs.
  \<^item> \<open>JS_Number\<close>, \<open>JS_Date\<close>, \<open>JS_String\<close>, \<open>Json\<close>: rounding, the UTC calendar, string functions, JSON
    values, as the language has them.

  \<^bold>\<open>Billing\<close> (\<open>modules/billing\<close>, \<open>modules/trust\<close>).
  \<^item> \<open>Billing_Data\<close> has the rows; \<open>Pricing\<close> hourly rating, tax, document numbers and exchange rates
    (\<open>pricing.ts\<close>, \<open>fx.service.ts\<close>).
  \<^item> \<open>Credits\<close> and \<open>Invoices\<close>: consuming credit, issuing (\<open>invoices.service.ts\<close>, \<open>link-worklogs.ts\<close>);
    \<open>Payments\<close>: top up, payment, webhooks (\<open>payments.service.ts\<close>); \<open>Billing_Admin\<close>: refunds, credit notes,
    voiding, write offs (\<open>billing-admin.service.ts\<close>); \<open>Trust\<close>: suspension and reinstatement
    (\<open>trust.service.ts\<close>); \<open>Dunning\<close>: reminders (\<open>dunning.service.ts\<close>).
  \<^item> \<open>Ledger\<close> puts these operations into one step function and shows that every one keeps the books
    consistent.
  \<^item> \<open>Metering\<close>, \<open>Rating\<close>, \<open>Spend\<close>: minutes from agents and from the fallback meter
    (\<open>metering.service.ts\<close>), the hourly roll up (\<open>rating.service.ts\<close>), spending limits (\<open>spend.service.ts\<close>).
  The lemmas show what each operation writes on every branch, that work is billed once however often jobs and
  webhooks repeat, that limits hold, and two places where the code loses money or a suspension.

  \<^bold>\<open>Time\<close> (\<open>modules/managed\<close>, \<open>modules/ops\<close>).
  \<^item> \<open>Renewal\<close> (\<open>renewal.ts\<close>), \<open>Sla\<close> (\<open>sla-calculator.ts\<close>), \<open>Cron\<close> (\<open>cron.ts\<close>), \<open>Payout_Math\<close>
    (\<open>payout-math.ts\<close>), \<open>Timers\<close> (\<open>timers.service.ts\<close>).  Each loop is shown to end, and each calculation to
    agree with a direct description: the first instant, the number of minutes, the set of milliseconds.  The next run of
    a schedule is described in every zone by the order of the readings of its clock, and as the first match where the clock
    does not change.

  \<^bold>\<open>Managed contracts\<close> (\<open>modules/managed\<close>).
  \<^item> \<open>Contracts\<close> (\<open>contracts.service.ts\<close>, \<open>contract-terms.service.ts\<close>, \<open>access.service.ts\<close>,
    \<open>onboarding.service.ts\<close>, \<open>responsibility.service.ts\<close>): the tables of the desk and every operation on them, put
    into one step function.
  \<^item> \<open>Contract_Life\<close> specifies the five states of a contract as a step relation without tables and shows that
    every operation refines it.  The locale \<open>lifecycle\<close> derives from that alone that the row of a contract tells
    at which instants it was active.  Further lemmas: the checklist comes before activation, the daily job leaves
    nothing overdue, the end of a contract revokes its access, and two places where a cancellation is lost.
  \<^item> \<open>Managed_Billing\<close> (\<open>managed-billing.service.ts\<close>): proration by the milliseconds of activity, on the rows of
    \<open>Contracts\<close>, and the accrual of a month, which can be repeated.

  \<^bold>\<open>Access\<close> (\<open>common/auth\<close>, \<open>modules/iam\<close>, \<open>modules/team\<close>, \<open>modules/ops\<close>, \<open>modules/approvals\<close>).
  \<^item> \<open>Actor\<close> (\<open>actor.ts\<close>), \<open>Access\<close> (\<open>token.service.ts\<close>, \<open>auth.guard.ts\<close>), \<open>Ops_Guards\<close> (the guards of the
    engineers' API), \<open>Approvals\<close> (\<open>approvals.service.ts\<close>).  The lemmas bound what a credential, a staff role,
    an engineer and an approval can do.
  \<^item> \<open>Team_Members\<close> (\<open>team.service.ts\<close>) works on the memberships and tokens \<open>Access\<close> resolves: a team keeps an owner,
    an invitation is used once, who was removed is locked out.
  \<^item> \<open>Access_Grants\<close> (\<open>grants.service.ts\<close>, \<open>approval-rules.ts\<close>) is the state machine of an engineer's access to a
    customer's system, with its bounds as an invariant; \<open>Ssh_Cert\<close> (\<open>openssh.ts\<close>) is the format of the certificates
    it issues, over the locale \<open>wire_field\<close> of a field that is read back as it was written.

  \<^bold>\<open>Placement and network\<close> (\<open>modules/scheduler\<close>, \<open>modules/network\<close>).
  \<^item> \<open>Scheduler\<close>, \<open>Addresses\<close> (\<open>ips.service.ts\<close>), \<open>Private_Nets\<close> (\<open>private-networks.service.ts\<close>, on 32 bit
    words), \<open>Firewalls\<close>.  The lemmas are invariants under every sequence of requests, and
    under racing requests for the two allocators; for firewalls, which servers a request that succeeds or fails can leave out of
    step with the tables.

  \<^bold>\<open>Agent flows\<close> (\<open>modules/connect\<close>).
  \<^item> \<open>Template\<close>, \<open>Expression\<close>, \<open>Flow_Graph\<close>, \<open>Redact\<close> (\<open>runtime/\<close>), \<open>Sql_Guard\<close> (\<open>tools/sql-guard.ts\<close>),
    \<open>Connect_Usage\<close> (\<open>pricing.ts\<close>, \<open>models/catalog.ts\<close>, \<open>usage.service.ts\<close>).  The lemmas show that secrets reach
    neither prompts nor conditions nor, under conditions the property lists, stored steps, that the parser accepts exactly the
    grammar its source documents, that the graph algorithms are correct, and what an accepted query can contain.
  \<^item> \<open>Net_Guard\<close> (\<open>net/guard.ts\<close>, and \<open>common/net/safe-url.ts\<close> for webhooks): which addresses a request may reach, with
    the addresses of both families as numbers, and the loop over redirects with the contacts it makes.
  \<^item> \<open>Agent_Loop\<close> (\<open>runtime/agent-loop.ts\<close>, \<open>models/provider.ts\<close>): the conversation with the model, as a
    partial function over whatever the caller provides.  Its locale \<open>loop_host\<close> says what the caller owes: one
    outcome per call and a budget that the guard checks and every answer spends.  Then the loop ends and every
    conversation it sends is well formed, also after a pause for approval.
  \<^item> \<open>Agent_Run\<close>, \<open>Agent_Walk\<close> (\<open>runtime/run.service.ts\<close>, \<open>runtime/spec.ts\<close>): guard, step log, billing of
    answers, tools, approvals, and the walk over the nodes of \<open>Flow_Graph\<close> with the templates, conditions and
    redaction of the theories above.  The concurrent tool calls of a turn are phases between two \<open>await\<close>s that a
    scheduler, a parameter, picks from.  The service interprets \<open>loop_host\<close> with its steps as the budget.
  \<^item> \<open>Agent_Rows\<close> (\<open>runtime/run.service.ts\<close>): the statements that executors, approvers, people who cancel and
    the expiry job run on a run's row, in any order; one executor, and an end that is final unless a decision
    is being carried out.  The step that \<open>finish\<close> writes for a walk that failed is \<open>ended_ctx\<close>, after \<open>walk_run\<close>.

  \<^bold>\<open>Bounds.\<close>  Loops of the source are total functions here, with two kinds of exception.  Loops that retry are
  bounded as in the source (5 attempts for a public address, 10 for a network, 30 for a private address).  The
  calendar searches stop after the number of days the source gives them (three years for the service calendar, eight for cron);
  the renewal loop and the loop of an agent are unbounded in the source and modelled as partial functions that are shown
  to return.
  The depth limits of the source (40 for redaction, 50 for MongoDB documents, 40 for conditions, 32 for templates)
  are in the definitions.  A guarded request makes at most one contact more than the redirects it may follow.

  \<^bold>\<open>Not modelled.\<close>  The web applications, the Temporal workflows, the host agents and their drivers, and the
  services that only orchestrate them (databases, Kubernetes, load balancers, storage, application platform):
  their behaviour is the order of calls into systems outside the repository.  Texts of messages, mails and
  documents, audit records and logs are left out of the operations that produce them.

\<close>

section \<open>Concrete data\<close>

text \<open>A small store on which the properties below are exercised.\<close>

definition demo_team :: team where
  "demo_team = \<lparr>tm_id = ''t1'', tm_currency = SAR, tm_country = ''SA'', tm_status = AccActive,
     tm_suspensionReason = None, tm_suspendedAt = None, tm_closedAt = None, tm_kycLevel = 1, tm_riskScore = 0,
     tm_supportPlan = ''free'', tm_projects = [''p1'']\<rparr>"

definition demo_credit :: credit where
  "demo_credit = \<lparr>cr_id = ''c1'', cr_teamId = ''t1'', cr_kind = Prepaid, cr_currency = SAR,
     cr_amountMinor = 2000, cr_remainingMinor = 2000, cr_expiresAt = None, cr_createdAt = 0\<rparr>"

definition demo_usage :: usage_record where
  "demo_usage = \<lparr>ur_id = ''u1'', ur_projectId = ''p1'', ur_resourceType = RServer, ur_resourceId = ''s1'',
     ur_hourStart = 3600000, ur_quantity = 60, ur_unit = ''minute'', ur_priceId = None, ur_amountMinor = 10000,
     ur_currency = SAR, ur_invoiceId = None\<rparr>"

definition demo_payment :: payment where
  "demo_payment = \<lparr>pay_id = ''y1'', pay_teamId = ''t1'', pay_invoiceId = None, pay_provider = Fake,
     pay_providerRef = Some ''ref1'', pay_currency = SAR, pay_amountMinor = 5000, pay_status = PayPending,
     pay_failureReason = None, pay_refundedMinor = 0, pay_refundRef = None, pay_refundedAt = None,
     pay_redirectUrl = None, pay_paidAt = None, pay_createdAt = 0\<rparr>"

definition demo_invoice :: invoice where
  "demo_invoice = \<lparr>inv_id = ''i1'', inv_teamId = ''t1'', inv_number = invoiceNumber 1970 1, inv_currency = SAR,
     inv_periodStart = - 3600000, inv_periodEnd = 0, inv_subtotalMinor = 1000, inv_taxMinor = 150,
     inv_creditMinor = 0, inv_totalMinor = 1150, inv_creditedMinor = 0, inv_status = InvOpen,
     inv_eInvoiceType = None, inv_dueAt = Some 0, inv_paidAt = None, inv_voidedAt = None,
     inv_reminderStage = 0, inv_lastReminderAt = None\<rparr>"

definition demo_server :: server where
  "demo_server = \<lparr>sv_id = ''s1'', sv_teamId = ''t1'', sv_status = SvOff, sv_deletedAt = None, sv_suspendedPoweredOff = True\<rparr>"

definition demo_store :: store where
  "demo_store = \<lparr>st_invoices = [demo_invoice], st_payments = [demo_payment], st_credits = [demo_credit],
     st_creditNotes = [], st_usage = [demo_usage], st_teams = [demo_team], st_workLogs = [],
     st_servers = [demo_server], st_actions = [], st_abuseFlags = [], st_members = [], st_invoiceSeq = 1,
     st_creditNoteSeq = 0, st_events = []\<rparr>"

definition demo_actor :: actor where
  "demo_actor = \<lparr>a_userId = ''x1'', a_teamId = ''t1'', a_role = Owner, a_projectId = Some ''p1'', a_scopes = {},
     a_tokenId = Some ''k1'', a_sessionId = None, a_isAgent = False, a_requireApprovalFor = {}, a_suspended = False,
     a_ops = False\<rparr>"

definition demo_outside :: outside where
  "demo_outside = \<lparr>out_startOk = (\<lambda>_ _. True), out_mailOk = (\<lambda>_. True), out_cardRefund = (\<lambda>_ _. Some ''rf1'')\<rparr>"

definition demo_event :: "string \<Rightarrow> pay_event" where
  "demo_event ref = \<lparr>ev_providerRef = ref, ev_succeeded = True, ev_amountMinor = None, ev_currency = None, ev_reason = []\<rparr>"

definition demo_spend :: spend_state where
  "demo_spend = \<lparr>sp_projects = [\<lparr>pj_id = ''p1'', pj_spendLimitMinor = Some 50000\<rparr>],
     sp_tokens = [\<lparr>tk_id = ''k1'', tk_spendCapMinor = Some 9000, tk_spentThisMonthMinor = 1000\<rparr>],
     sp_store = demo_store\<rparr>"

definition demo_config :: trust_config where
  "demo_config = \<lparr>cfg_requirePrepaid = True, cfg_freeAllowanceMinor = 100\<rparr>"

definition demo_ctx :: "string \<Rightarrow> template_ctx" where
  "demo_ctx secret = \<lparr>tc_trigger = JStr ''hi'', tc_input = JNull, tc_steps = JNull, tc_vars = [(''name'', ''Ada'')],
     tc_secrets = [(''token'', secret)]\<rparr>"

definition demo_calendar :: sla_calendar where
  "demo_calendar = \<lparr>sla_coverage = TwentyFourSeven, sla_country = CalSA, sla_holidays = []\<rparr>"

definition demo_auth :: auth_db where
  "demo_auth = \<lparr>db_sessions = [],
     db_tokens = [\<lparr>to_id = ''k1'', to_teamId = ''t1'', to_userId = ''x1'', to_projectId = Some ''p1'', to_name = ''ci'',
       to_prefix = ''prgd_ab'', to_hash = ''prgd_ab'', to_scopes = [''servers:read''], to_isAgent = True, to_spendCapMinor = None,
       to_requireApprovalFor = [], to_expiresAt = None, to_revokedAt = None, to_lastUsedAt = None\<rparr>],
     db_users = [\<lparr>us_id = ''x1'', us_isStaff = False, us_staffRoles = [], us_totpEnabled = False\<rparr>],
     db_members = [\<lparr>ms_teamId = ''t1'', ms_userId = ''x1'', ms_role = Owner\<rparr>],
     db_teamStatus = (\<lambda>_. Some TsActive)\<rparr>"

definition demo_request :: request where
  "demo_request = \<lparr>rq_method = ''GET'', rq_path = ''/v1/servers'', rq_authorization = Some ''Bearer prgd_ab'', rq_cookie = None\<rparr>"

definition demo_route :: route where
  "demo_route = \<lparr>ro_public = False, ro_scopes = [''servers:read''], ro_areas = []\<rparr>"

definition demo_auth_config :: auth_config where
  "demo_auth_config = \<lparr>ac_requireTotpForOwners = True, ac_requireTotpForStaff = True\<rparr>"

definition demo_engineer :: ops_user where
  "demo_engineer = \<lparr>ou_id = ''x2'', ou_name = ''Ada'', ou_isStaff = False, ou_staffRoles = [],
     ou_profile = Some \<lparr>ep_id = ''g1'', ep_kind = External, ep_status = EngActive, ep_country = ''EG'',
       ep_timezone = ''Africa/Cairo'', ep_ipAllowlist = [], ep_assignments = [''c1'']\<rparr>\<rparr>"

definition demo_host :: host where
  "demo_host = \<lparr>ho_id = ''h1'', ho_regionId = ''ruh'', ho_driver = ''fake'', ho_driverRef = ''pve1'', ho_status = HsActive,
     ho_totalVcpu = 8, ho_totalMemoryMb = 16384, ho_totalDiskGb = 200, ho_usedVcpu = 0, ho_usedMemoryMb = 0,
     ho_usedDiskGb = 0, ho_overcommitCpu = 2, ho_family = None, ho_lastHeartbeatAt = None\<rparr>"

definition demo_placement :: placement where
  "demo_placement = \<lparr>pl_regionId = ''ruh'', pl_vcpu = 4, pl_memoryMb = 8192, pl_diskGb = 50, pl_avoidServerIds = [],
     pl_softAvoid = False, pl_serverId = None, pl_family = None, pl_onlyHostId = None\<rparr>"

definition demo_network :: private_network where
  "demo_network = \<lparr>pn_id = ''n1'', pn_projectId = ''p1'', pn_regionId = ''ruh'', pn_cidr = ''10.96.0.0/24'', pn_poolIndex = 0,
     pn_vxlanTag = 100, pn_vnet = ''pn2s'', pn_sdnAppliedAt = None\<rparr>"

definition demo_rival :: private_ip where
  "demo_rival = \<lparr>pi_networkId = ''n1'', pi_serverId = Some ''s9'', pi_address = ''10.96.0.2''\<rparr>"

definition demo_fw_server :: fw_server where
  "demo_fw_server = \<lparr>fsv_id = ''s1'', fsv_projectId = ''p1'', fsv_ready = True, fsv_hostRef = Some ''pve1'', fsv_driverRef = Some ''101'',
     fsv_privateIp = None, fsv_managedBy = None, fsv_publicIps = []\<rparr>"

definition demo_wall :: fw_state where
  "demo_wall = \<lparr>fs_firewalls = [\<lparr>fw_id = ''f1'', fw_projectId = ''p1'', fw_name = ''web''\<rparr>],
     fs_rules = [\<lparr>rr_firewallId = ''f1'', rr_direction = Inbound, rr_protocol = Icmp, rr_ports = None,
       rr_sources = everywhere, rr_destinations = [], rr_description = None\<rparr>],
     fs_links = [], fs_servers = [demo_fw_server], fs_vips = [],
     fs_applied = (\<lambda>d. if d = ''101'' then Some (DEFAULT_RULES, None) else None)\<rparr>"

definition demo_approver :: actor where
  "demo_approver = demo_actor\<lparr>a_tokenId := None, a_sessionId := Some ''j2''\<rparr>"

definition demo_approval :: approval where
  "demo_approval = \<lparr>ap_id = ''a1'', ap_teamId = ''t1'', ap_projectId = ''p1'', ap_tokenId = Some ''k1'', ap_requestedById = ''x1'',
     ap_kind = ''server.delete'', ap_resourceType = ''server'', ap_resourceId = Some ''s1'', ap_resourceName = None,
     ap_summary = ''delete s1'', ap_payload = JNull, ap_status = ApPending, ap_result = None, ap_reason = None,
     ap_decidedById = None, ap_decidedAt = None, ap_expiresAt = 86400000, ap_createdAt = 0\<rparr>"

definition demo_desk :: approvals_state where
  "demo_desk = \<lparr>as_approvals = [demo_approval], as_events = [], as_runs = [], as_mails = []\<rparr>"

definition demo_executors :: executors where
  "demo_executors kind = (if kind = ''server.delete'' then Some (\<lambda>_ _. Inr JNull) else None)"

definition demo_flow :: json where
  "demo_flow = JObj
     [(''nodes'', JArr [JObj [(''id'', JStr ''trigger''), (''type'', JStr ''trigger''), (''data'', JObj [(''source'', JStr ''api'')])],
                        JObj [(''id'', JStr ''agent''), (''type'', JStr ''agent''), (''data'', JObj [(''prompt'', JStr ''{{trigger.prompt}}'')])],
                        JObj [(''id'', JStr ''end''), (''type'', JStr ''end''), (''data'', JObj [(''output'', JStr ''{{steps.agent.output}}'')])]]),
      (''edges'', JArr [JObj [(''source'', JStr ''trigger''), (''target'', JStr ''agent'')],
                        JObj [(''source'', JStr ''agent''), (''target'', JStr ''end'')]])]"

definition demo_crew :: team_store where
  "demo_crew = \<lparr>ts_auth = demo_auth\<lparr>db_members := [\<lparr>ms_teamId = ''t1'', ms_userId = ''x1'', ms_role = Owner\<rparr>,
       \<lparr>ms_teamId = ''t1'', ms_userId = ''x2'', ms_role = Member\<rparr>]\<rparr>,
     ts_emails = [(''x1'', ''ada@example.com''), (''x2'', ''bob@example.com'')], ts_invitations = [],
     ts_profiles = [\<lparr>tp_id = ''t1'', tp_name = ''Team'', tp_slug = ''team'', tp_country = ''SA'', tp_billingEmail = None,
       tp_taxId = None, tp_billingAddress = None\<rparr>], ts_webhooks = []\<rparr>"

definition demo_grant :: access_grant where
  "demo_grant = \<lparr>ag_id = ''g1'', ag_userId = ''x2'', ag_engineerId = None, ag_contractId = ''c1'', ag_assetId = ''m1'',
     ag_ticketId = Some ''q1'', ag_maintenanceRunId = None, ag_reason = ''disk full'', ag_requestedMinutes = 60,
     ag_status = GrantActive, ag_auto = False, ag_emergency = False, ag_grantedMinutes = Some 60, ag_approvedById = Some ''x9'',
     ag_approvedAt = Some 0, ag_deniedById = None, ag_denyReason = None, ag_startsAt = Some 0, ag_expiresAt = Some 3600000,
     ag_extensions = 0, ag_extendedAt = None, ag_extensionReason = None, ag_revokedAt = None, ag_revokedById = None,
     ag_revokeReason = None, ag_certSerial = Some 7, ag_principals = [assetPrincipal ''m1''], ag_createdAt = 0\<rparr>"

definition demo_certificate :: ssh_certificate where
  "demo_certificate = \<lparr>sk_grantId = ''g1'', sk_sessionId = ''w1'', sk_serial = 7, sk_keyId = ''prgd-session-w1'',
     sk_principals = [assetPrincipal ''m1''], sk_validAfter = 0, sk_validBefore = 3600000, sk_revokedAt = None\<rparr>"

definition demo_vault :: grants_state where
  "demo_vault = \<lparr>gs_grants = [demo_grant], gs_certs = [demo_certificate], gs_ended = []\<rparr>"

definition demo_grants_env :: grants_env where
  "demo_grants_env = \<lparr>ge_assets = [], ge_tickets = [], ge_runs = [], ge_shifts = [], ge_users = [demo_engineer],
     ge_policies = [(''c1'', ''any'')],
     ge_settings = \<lparr>gu_autoGrantMinutes = 120, gu_maxGrantMinutes = 240, gu_maxExtensions = 1, gu_grantRequestExpiryMinutes = 60\<rparr>\<rparr>"

definition demo_key :: bytes where "demo_key = replicate 32 1"

definition demo_key_line :: string where
  "demo_key_line = (case ed25519Line demo_key [] of Inr l \<Rightarrow> l | Inl _ \<Rightarrow> [])"

definition demo_cert_request :: cert_request where
  "demo_cert_request = \<lparr>cq_publicKey = demo_key_line, cq_serial = 7, cq_keyId = ''s1'', cq_principals = [''a1''],
     cq_validAfter = 0, cq_validBefore = 3600000, cq_sourceAddresses = None, cq_extensions = None\<rparr>"

definition demo_url :: "string \<Rightarrow> url" where
  "demo_url host = \<lparr>u_protocol = ''https:'', u_username = [], u_password = [], u_hostname = host, u_host = host, u_href = host\<rparr>"

definition demo_fetch :: fetch_env where
  "demo_fetch = \<lparr>fe_policy = \<lparr>np_ips = [], np_hosts = []\<rparr>, fe_parse = (\<lambda>s. Some (demo_url s)), fe_join = (\<lambda>l u. Some (demo_url l)),
     fe_resolve = (\<lambda>_ h. if h = ''a.test'' then [(''9.9.9.9'', 4)] else [(''10.0.0.1'', 4)]),
     fe_exchange = (\<lambda>hop c. Inr \<lparr>rp_status = 302, rp_headers = [(''location'', OneValue ''b.test'')], rp_chunks = [], rp_failure = None\<rparr>),
     fe_allowedHosts = None, fe_maxBytes = HTTP_MAX_BYTES, fe_maxRedirects = HTTP_MAX_REDIRECTS\<rparr>"

definition demo_call :: safe_request where
  "demo_call = \<lparr>sq_method = None, sq_headers = Some [(''Authorization'', ''Bearer k'')], sq_body = None\<rparr>"

text \<open>A small agent, one tool, and services that answer at once.\<close>

definition demo_tool :: tool_spec where
  "demo_tool = \<lparr>tls_id = ''k1'', tls_name = ''look'', tls_kind = ''http_request'', tls_connectionId = None, tls_enabled = True,
     tls_requiresApproval = False, tls_config = JObj [], tls_inputSchema = JObj []\<rparr>"

definition demo_spec :: "nat \<Rightarrow> agent_spec" where
  "demo_spec n = \<lparr>sp_agentId = ''a1'', sp_teamId = ''t1'', sp_projectId = ''p1'', sp_createdById = ''u1'', sp_name = ''Helper'',
     sp_instructions = [], sp_model = ''m'', sp_effort = ''low'',
     sp_limits = \<lparr>maxSteps = n, maxTokensPerRun = 1000, timeoutSeconds = 120\<rparr>, sp_tools = [demo_tool], sp_workflow = None\<rparr>"

definition demo_reply :: model_response where
  "demo_reply = \<lparr>mr_content = [[(''type'', JStr ''text''), (''text'', JStr ''done'')]], mr_stopReason = ''end_turn'', mr_stopDetails = JUndef,
     mr_usage = \<lparr>tu_input = 3, tu_output = 2, tu_cacheRead = 0, tu_cacheWrite = 0, tu_cacheWrite1h = None\<rparr>,
     mr_attempts = None, mr_servedBy = ''m'', mr_fallbacks = []\<rparr>"

definition demo_services :: "unit run_services" where
  "demo_services = \<lparr>srv_now = (\<lambda>_. 0), srv_fired = (\<lambda>_. False), srv_status = (\<lambda>p. (Some RsRunning, p)),
     srv_complete = (\<lambda>_ _ p. (Inr demo_reply, p)),
     srv_executor = (\<lambda>_. Some \<lparr>ex_connectionRequired = False, ex_connectionKinds = [], ex_needsApproval = (\<lambda>_ _. False), ex_summarize = (\<lambda>_ _. None)\<rparr>),
     srv_execute = (\<lambda>_ _ _ _ p. (Inr JNull, 0, p)), srv_openConnection = (\<lambda>_ _ p. (None, p)), srv_createPending = (\<lambda>_ p. (Inr ''ap1'', p)),
     srv_ownsConnection = (\<lambda>_ _ p. (True, p)), srv_checkpoint = (\<lambda>_ _ _ p. p), srv_pick = (\<lambda>p. (0, p)),
     srv_modelTool = (\<lambda>_. JNull), srv_inputSchemaOf = (\<lambda>_. JObj []), srv_schemaErrors = (\<lambda>_ _. None), srv_parseJson = (\<lambda>_. None), srv_numStr = (\<lambda>_. [])\<rparr>"

definition demo_trigger :: trigger_data where
  "demo_trigger = \<lparr>tr_source = ''api'', tr_body = JNull, tr_message = None, tr_headers = JUndef, tr_prompt = ''go''\<rparr>"

definition demo_run :: "nat \<Rightarrow> unit run_ctx" where
  "demo_run n = run_context demo_services ''r1'' (demo_spec n) (new_state demo_trigger) no_usage [(''KEY'', ''hunter2'', True)] ()"

definition demo_node :: graph_node where
  "demo_node = \<lparr>gn_id = ''agent'', gn_type = ''agent'', gn_position = (JNum 0, JNum 0), gn_data = []\<rparr>"

definition demo_use :: "string \<Rightarrow> tool_use" where
  "demo_use i = \<lparr>use_id = i, use_name = ''look'', use_input = JObj []\<rparr>"

definition demo_row :: "run_status \<Rightarrow> run_row" where
  "demo_row st = \<lparr>rr_id = ''r1'', rr_teamId = ''t1'', rr_agentId = ''a1'', rr_status = st, rr_startedAt = None, rr_finishedAt = None,
     rr_errorCode = None, rr_output = JNull, rr_durationMs = 0, rr_usage = no_usage, rr_saved = Some (demo_spec 9, new_state demo_trigger)\<rparr>"

definition demo_world :: "run_status \<Rightarrow> (id \<times> run_job) list \<Rightarrow> run_world" where
  "demo_world st jobs = \<lparr>rw_db = \<lparr>rd_runs = [demo_row st], rd_approvals = [], rd_steps = []\<rparr>, rw_executors = [], rw_jobs = jobs\<rparr>"

definition demo_entry :: pending_approval where
  "demo_entry = \<lparr>pa_nodeId = ''n'', pa_toolUseId = None, pa_toolId = ''k1'', pa_toolName = ''look'', pa_input = JNull, pa_summary = []\<rparr>"

definition demo_plan :: managed_plan where
  "demo_plan = \<lparr>mpl_id = ''m1'', mpl_code = ''ESSENTIAL'', mpl_priceMinor = Some 100000, mpl_currency = SAR, mpl_maxAssets = None,
     mpl_coverage = BusinessHours, mpl_includedEngineerMinutes = 60, mpl_hourlyRateMinor = 20000, mpl_active = True\<rparr>"

definition demo_env :: draft_env where
  "demo_env = \<lparr>dre_newId = ''k1'', dre_matrixId = (\<lambda>n. ''r'' @ show_nat n), dre_accessPolicy = ''ANY''\<rparr>"

definition demo_signature :: activate_dto where
  "demo_signature = \<lparr>acd_liabilityCapMinor = 500000, acd_signedByName = ''Sara'', acd_signedAt = None, acd_overrideOnCallRule = False\<rparr>"

text \<open>The row a request leaves, and the checklist with one item still open.\<close>

definition demo_draft :: contract where
  "demo_draft = draft_row demo_env 0 demo_actor demo_team demo_plan (Some CalSA) None no_extra"

definition demo_items :: "onboarding_item list" where
  "demo_items = map (\<lambda>x. x\<lparr>obi_done := (obi_key x \<noteq> ''access'')\<rparr>) (default_items ''k1'')"

definition demo_office :: desk where
  "demo_office = \<lparr>dk_contracts = [], dk_plans = [demo_plan], dk_teams = [demo_team], dk_items = demo_items, dk_matrix = [], dk_assets = [],
     dk_tasks = [], dk_alerts = [], dk_shifts = [], dk_audit = [], dk_mails = [],
     dk_fx = \<lparr>fx_cache = None, fx_rows = [], fx_fallback = 4\<rparr>\<rparr>"

definition demo_trace :: "(instant \<times> desk_op) list" where
  "demo_trace =
     [(0, ORequest demo_env demo_actor ''essential'' None), (10, OActivate (dre_matrixId demo_env) demo_actor ''k1'' demo_signature),
      (20, OSetItem False demo_actor ''k1'' ''access'' True None),
      (40, OSuspend (Some demo_actor) ''k1''), (70, OResume (Some demo_actor) ''k1'')]"

definition demo_bills :: billing_desk where
  "demo_bills = \<lparr>bil_projects = [\<lparr>prj_id = ''p1'', prj_teamId = ''t1'', prj_createdAt = 0\<rparr>], bil_usage = [],
     bil_logs = [\<lparr>mwl_id = ''w1'', mwl_contractId = ''k1'', mwl_minutes = 90, mwl_billable = True, mwl_status = WlApproved,
       mwl_workedAt = 500, mwl_billedPeriod = None, mwl_billedInvoiceId = None\<rparr>],
     bil_fx = \<lparr>fx_cache = None, fx_rows = [], fx_fallback = 4\<rparr>\<rparr>"

lemmas demo_defs = demo_team_def demo_credit_def demo_usage_def demo_payment_def demo_invoice_def demo_server_def
  demo_store_def demo_actor_def demo_outside_def demo_event_def demo_spend_def demo_config_def
  demo_ctx_def

lemma demo_ledger: "ledger_ok demo_store"
  by (simp add: ledger_ok_def ledger_def demo_defs uniq_def notes_ok_def invoice_ok_def notes_total_def receivable_def
      payment_ok_def credit_ok_def)

lemma demo_uniq: "uniq cr_id (st_credits demo_store)" "uniq inv_id (st_invoices demo_store)"
  by (simp_all add: demo_defs uniq_def)

section \<open>Billing\<close>

text \<open>
  C1 (invariant).  Whatever sequence of requests, webhooks and jobs runs against the billing tables, the
  books stay consistent: invoices add up, nothing is credited or refunded beyond what was billed or paid,
  an open invoice has something due, balances stay between zero and what was granted, numbers are unique.
\<close>

theorem billing_keeps_ledger:
  assumes "ledger_ok st"
  shows "ledger_ok (fold (billing_step out) ops st)"
  using assms by (rule books.run_inv)

theorem billing_keeps_ledger_witness:
  "ledger_ok (fold (billing_step demo_outside)
     [Webhook Fake ''c2'' 5 (demo_event ''ref1''), Issue ''i2'' ''t1'' 0 7200000 7200000, RefundPayment ''y1'' None 9,
      CreditNote ''c3'' ''n1'' demo_actor ''i1'' 200 10, Dun 2000000000, VoidInvoice ''c4'' ''i1'' 12] demo_store)"
  by (rule billing_keeps_ledger [OF demo_ledger])

text \<open>
  C2 (safety).  A payment is applied once: a webhook that reports the same provider reference again, at any
  later time and with any content, changes nothing in the store.
\<close>

theorem webhook_applied_once:
  assumes "ev_providerRef ev' = ev_providerRef ev"
  shows "snd (handle_event k' prov newId' now' ev' (snd (handle_event k prov newId now ev st)))
    = snd (handle_event k prov newId now ev st)"
  using assms by (rule handle_event_again)

theorem webhook_applied_once_witness:
  "snd (handle_event (\<lambda>_ _. True) Fake ''c3'' 9 (demo_event ''ref1'')
      (snd (handle_event (\<lambda>_ _. True) Fake ''c2'' 5 (demo_event ''ref1'') demo_store)))
    = snd (handle_event (\<lambda>_ _. True) Fake ''c2'' 5 (demo_event ''ref1'') demo_store)"
  by (rule webhook_applied_once) simp

text \<open>
  Money that arrives is never lost: a settlement either closes the one open invoice the
  payment is for, or becomes prepaid credit of the payment's amount.
\<close>

lemma settlement_value:
  assumes "settle newId p now st = (True, st')"
  shows "(st_credits st' = st_credits st
            \<and> (\<exists>i. pay_invoiceId p = Some i
                 \<and> count_where (\<lambda>v. inv_id v = i \<and> inv_status v = InvOpen) (st_invoices st) = 1
                 \<and> (\<forall>v\<in>set (st_invoices st'). inv_id v = i \<longrightarrow> inv_status v \<noteq> InvOpen)))
         \<or> st_credits st' = st_credits st @ [new_prepaid newId p now]"
  using assms by (rule settle_value)

text \<open>
  C3 (functional).  An issued invoice bills exactly the open usage of the period, adds the tax of the team's
  country, takes what spendable credit there is and no more, and takes it from the balances.
\<close>

theorem issued_invoice_amounts:
  assumes "issueForTeam newId tm pstart pend now st = (Inr (Some v), st')" "uniq cr_id (st_credits st)"
    and "subtotal = sum_by ur_amountMinor (filter (billable tm pstart pend) (st_usage st))"
    and "tax = js_round (js_mul (of_int subtotal) (taxRateFor (tm_currency tm) (tm_country tm)))"
    and "credit = min (subtotal + tax) (sum_by cr_remainingMinor (spendable_credits (tm_id tm) now (st_credits st)))"
  shows "inv_subtotalMinor v = subtotal \<and> inv_taxMinor v = tax \<and> inv_creditMinor v = credit
    \<and> inv_totalMinor v = subtotal + tax - credit \<and> invoice_ok v \<and> 0 < subtotal
    \<and> st_invoices st' = st_invoices st @ [v]
    \<and> sum_by cr_remainingMinor (st_credits st') = sum_by cr_remainingMinor (st_credits st) - credit"
proof -
  note I = issueForTeam_Some [OF assms(1,2)]
  have "invoice_ok v" using I(1-3,5) by (simp add: new_invoice_ok)
  then show ?thesis using I(1-3,5-7) unfolding assms(3-5) by (simp add: new_invoice_def Let_def)
qed

lemma tax_15: "js_round (js_mul 10000 VAT_RATE) = 1500"
proof -
  have "fl (10000 * VAT_RATE) = of_int (6597069766655999 + 1) * 2 powi (10 - 52)"
  proof (rule fl_eval)
    show "rne (10000 * VAT_RATE / 2 powi (10 - 52)) = 6597069766655999 + 1"
      by (rule rne_eq(2)) (simp_all add: VAT_RATE_eq power_int_def power_divide floor_eq_iff)
  qed (simp_all add: VAT_RATE_eq power_int_def power_divide)
  then show ?thesis using js_round_of_int [of 1500] by (simp add: js_mul_def power_int_def power_divide)
qed

lemma demo_year: "getUTCFullYear 7200000 = 1970"
  by code_simp

lemma demo_issue_fst:
  "fst (issueForTeam ''i2'' demo_team 0 7200000 7200000 demo_store)
     = Inr (Some (new_invoice ''i2'' demo_team 2 0 7200000 7200000 10000 1500 2000))"
  by (simp add: issueForTeam_def demo_defs same_period_def billable_def consumeCredits_def spendable_credits_def
      spendable_def taxRateFor_def tax_15 new_invoice_def demo_year invoiceNumber_inj Let_def numeral_2_eq_2)

lemma demo_issue:
  "issueForTeam ''i2'' demo_team 0 7200000 7200000 demo_store =
     (Inr (Some (new_invoice ''i2'' demo_team 2 0 7200000 7200000 10000 1500 2000)),
      snd (issueForTeam ''i2'' demo_team 0 7200000 7200000 demo_store))"
  using demo_issue_fst by (metis prod.collapse)

theorem issued_invoice_amounts_witness:
  "sum_by cr_remainingMinor (st_credits (snd (issueForTeam ''i2'' demo_team 0 7200000 7200000 demo_store))) = 0"
proof -
  have "sum_by cr_remainingMinor (st_credits (snd (issueForTeam ''i2'' demo_team 0 7200000 7200000 demo_store)))
      = sum_by cr_remainingMinor (st_credits demo_store)
        - inv_creditMinor (new_invoice ''i2'' demo_team 2 0 7200000 7200000 10000 1500 2000)"
    using issued_invoice_amounts [OF demo_issue demo_uniq(1) refl refl refl] by simp
  then show ?thesis by (simp add: new_invoice_def Let_def demo_store_def demo_credit_def)
qed

text \<open>
  C4 (safety).  Usage is billed once: after an invoice of a period is issued no usage of the period is left to
  bill, and issuing the same period again returns nothing and changes nothing.
\<close>

theorem issued_once:
  assumes "issueForTeam newId tm pstart pend now st = (Inr (Some v), st')" "uniq cr_id (st_credits st)"
  shows "issueForTeam newId' tm pstart pend now' st' = (Inr None, st')
    \<and> (\<forall>u\<in>set (st_usage st'). \<not> billable tm pstart pend u)"
  using issueForTeam_again [OF assms(1)] issueForTeam_bills_all [OF assms] by simp

theorem issued_once_witness:
  "fst (issueForTeam ''i3'' demo_team 0 7200000 9 (snd (issueForTeam ''i2'' demo_team 0 7200000 7200000 demo_store))) = Inr None"
  using issued_once [OF demo_issue demo_uniq(1), of "''i3''" 9] by simp

text \<open>
  Consuming credit takes exactly what is asked or what is there, whichever is less; no other
  credit row is touched and no balance goes below zero.
\<close>

lemma credits_consumed_exactly:
  assumes "uniq cr_id rows" "0 \<le> amount" "\<forall>r\<in>set rows. 0 \<le> cr_remainingMinor r"
    and "got = min amount (sum_by cr_remainingMinor (spendable_credits teamId now rows))"
  shows "\<exists>rows'. consumeCredits teamId amount now rows = Inr (got, rows')
    \<and> sum_by cr_remainingMinor rows' = sum_by cr_remainingMinor rows - got
    \<and> (\<forall>x. x \<notin> cr_id ` set (spendable_credits teamId now rows) \<longrightarrow> find_by cr_id x rows' = find_by cr_id x rows)
    \<and> (\<forall>r\<in>set rows'. 0 \<le> cr_remainingMinor r)"
  using consumeCredits_ok [OF assms(1,2), of teamId now] assms(3,4) by metis

text \<open>
  Refunding a top up takes the prepaid credit back: the balances of the store fall by exactly
  the amount refunded, which is positive and recorded on the payment.
\<close>

lemma topup_refund_takes_credit_back:
  assumes "refund gw paymentId amountMinor now st = (Inr q, st')"
    and "find_by pay_id paymentId (st_payments st) = Some p" "pay_invoiceId p = None" "uniq cr_id (st_credits st)"
    and "amount = (case amountMinor of None \<Rightarrow> pay_amountMinor p - pay_refundedMinor p | Some a \<Rightarrow> a)"
  shows "0 < amount \<and> pay_refundedMinor q = pay_refundedMinor p + amount
    \<and> sum_by cr_remainingMinor (st_credits st') = sum_by cr_remainingMinor (st_credits st) - amount"
  using refund_topup [OF assms(1-4)] assms(5) by simp

text \<open>
  A payment that arrives for an invoice closed meanwhile becomes prepaid credit; refunding it to
  the card afterwards does not take that credit back, so the team keeps the credit and the money.
\<close>

lemma refund_of_late_payment_keeps_credit:
  assumes "find_by pay_id (pay_id p) (st_payments st) = Some p" "pay_status p = PayPending" "pay_invoiceId p = Some i"
    and "\<forall>v\<in>set (st_invoices st). inv_id v = i \<longrightarrow> inv_status v \<noteq> InvOpen"
    and "refund gw (pay_id p) amountMinor now' (snd (settle newId p now st)) = (Inr q, st')"
  shows "st_credits st' = st_credits st @ [new_prepaid newId p now]"
  using assms by (rule refund_of_late_payment)

section \<open>Metering and rating\<close>

text \<open>
  C5 (bounds).  Whatever agents report and whatever the fallback meter ticks, in any order and with repeats, one
  resource never has more than sixty metered minutes in an hour.
\<close>

theorem sixty_minutes_an_hour:
  "count_where (\<lambda>e. ue_resourceType e = typ \<and> ue_resourceId e = res \<and> h \<le> ue_at e \<and> ue_at e < h + 3600000)
     (fold meter_step ops []) \<le> 60"
  by (rule minutes_in_hour) (rule meter.run_inv, simp add: events_ok_def uniq_def)



text \<open>
  Rating an hour is idempotent: rolling up an hour again, at any later time, writes the same
  rows and the same amounts.
\<close>

lemma rollup_idempotent:
  assumes "60000 \<le> now - (h + 3600000)" "60000 \<le> now' - (h + 3600000)"
  shows "rollupHour env gen h now' es (snd (rollupHour env gen h now es s)) = rollupHour env gen h now es s"
  using assms by (rule rollupHour_again)

text \<open>
  Transfer overage of a month rated hour by hour telescopes: the hourly amounts add up to the
  overage of the whole month, less what the bytes before the first hour already cost.
\<close>

lemma bandwidth_telescopes:
  assumes "sorted_wrt (<) (h # map fst hs)" "\<forall>k\<in>set (map fst hs). startOfMonth k = startOfMonth h" "0 \<le> h"
    and "\<forall>u\<in>set rows. ur_hourStart u < h"
  shows "bandwidth_hours env srv perGb ((h, b) # hs) rows =
     overage_cost (included_bytes env srv) perGb (foldl js_add (prior_bytes srv h rows) (b # map snd hs))
     - overage_cost (included_bytes env srv) perGb (prior_bytes srv h rows)"
  using assms by (rule bandwidth_hours_total)

section \<open>Dunning, suspension and spending limits\<close>

text \<open>
  Running the dunning job twice at the same instant sends nothing the second time: no reminder and
  no suspension is repeated, whatever the mail server and the hypervisors answered.
\<close>

lemma dunning_rerun_idle:
  assumes "uniq inv_id (st_invoices st)"
  shows "fst (dunning_run m' k' now (snd (dunning_run m k now st))) = (0, 0)"
  using assms by (rule dunning_rerun_counts)

text \<open>
  An invoice fourteen days overdue suspends its team: when the reminder goes out the team is
  suspended with a billing reason, so a later payment lifts it.
\<close>

lemma overdue_suspends:
  assumes "inv_dueAt v = Some d" "14 * DAY \<le> now - d" "inv_reminderStage v < 14"
    and "inv_creditedMinor v < inv_totalMinor v" "v \<in> set (st_invoices st)" "mailOk (inv_id v)"
    and "find_by tm_id (inv_teamId v) (st_teams st) = Some tm" "tm_status tm \<noteq> AccClosed" "tm_status tm \<noteq> AccSuspended"
  shows "\<exists>tm'. find_by tm_id (inv_teamId v) (st_teams (snd (dun_invoice mailOk startOk now v (tm_status tm) c st))) = Some tm'
      \<and> tm_status tm' = AccSuspended
      \<and> (\<exists>r. tm_suspensionReason tm' = Some r \<and> startsWith r BILLING_SUSPENSION)"
  using assms by (rule dun_invoice_suspends)

text \<open>
  When the mail of the last stage fails the team is not suspended, and the invoice is not selected by
  any later run: the suspension never happens.
\<close>

lemma mail_failure_skips_suspension:
  assumes "inv_dueAt v = Some d" "14 * DAY \<le> now - d" "inv_reminderStage v < 14"
    and "inv_creditedMinor v < inv_totalMinor v" "uniq inv_id (st_invoices st)" "v \<in> set (st_invoices st)"
    and "\<not> mailOk (inv_id v)"
  shows "st_teams (snd (dun_invoice mailOk startOk now v s c st)) = st_teams st
    \<and> (\<forall>r\<in>set (st_invoices (snd (dun_invoice mailOk startOk now v s c st))).
           inv_id r = inv_id v \<longrightarrow> (\<forall>later. \<not> overdue_for later r))"
  using dun_invoice_mail_failure [where mailOk = mailOk, OF assms] by simp

text \<open>
  Reinstatement restarts exactly the marked servers: each of them loses its mark and, if it was
  off, is started (or stays off when the host refuses); every other server is left as it was.
\<close>

lemma reinstatement_restarts_marked:
  assumes "uniq sv_id (st_servers st)" "set ss \<subseteq> set (st_servers st)" "distinct ss"
  shows "st_servers (snd (reinstate_each k ss n st))
     = map (\<lambda>s. if s \<in> set ss then reinstated k s else s) (st_servers st)"
  using assms by (rule reinstate_each_servers)

text \<open>
  C7 (invariant).  No sequence of purchases and monthly resets takes a token beyond its spending cap.
\<close>

theorem token_caps_hold:
  assumes "caps_ok s"
  shows "caps_ok (fold spend_step ops s)"
  using assms by (rule caps.run_inv)

lemma demo_caps: "caps_ok demo_spend"
  by (simp add: caps_ok_def demo_spend_def uniq_def token_ok_def)

theorem token_caps_hold_witness:
  "caps_ok (fold spend_step [Spend demo_config demo_actor ''p1'' 5000 7, Spend demo_config demo_actor ''p1'' 5000 8,
     ResetCounters, Spend demo_config demo_actor ''p1'' 5000 9] demo_spend)"
  by (rule token_caps_hold [OF demo_caps])

text \<open>
  A purchase that is allowed keeps the project within its monthly limit.
\<close>

lemma project_limit_holds:
  assumes "fst (assertCanSpend cfg who projectId added now s) = Inr ()"
    and "find_by pj_id projectId (sp_projects s) = Some pj" "pj_spendLimitMinor pj = Some l"
  shows "monthToDate projectId now (sp_store s) + added \<le> l"
  using assms by (rule assertCanSpend_project_limit)

section \<open>Time\<close>

text \<open>
  Adding months keeps the calendar: the year and month move by exactly the months asked, and the
  day of the month stays, or is the last day of a shorter month.
\<close>

lemma months_added_exactly:
  assumes "0 \<le> d"
  shows "getUTCFullYear (addMonthsUtc d k) = getUTCFullYear d + (getUTCMonth d + k) div 12
    \<and> getUTCMonth (addMonthsUtc d k) = (getUTCMonth d + k) mod 12
    \<and> getUTCDate (addMonthsUtc d k) = min (getUTCDate d) (month_len d k)
    \<and> getTimeOfDay (addMonthsUtc d k) = getTimeOfDay d"
  using addMonths_fields [OF assms] addMonths_day(2) [OF assms] by simp

text \<open>
  C8 (termination).  The renewal loop ends for every contract, also one whose term ended years ago, and yields the
  first term end that lies in the future.
\<close>

theorem renewal_returns:
  assumes "0 \<le> termEndsAt"
  shows "\<exists>n\<ge>1. nextTermEnd termEndsAt termMonths now = Some (addMonthsUtc termEndsAt (max 1 termMonths * n))
      \<and> now < addMonthsUtc termEndsAt (max 1 termMonths * n)
      \<and> (\<forall>j. 1 \<le> j \<and> j < n \<longrightarrow> addMonthsUtc termEndsAt (max 1 termMonths * j) \<le> now)"
  using assms by (rule nextTermEnd_returns)

theorem renewal_returns_witness: "\<exists>n\<ge>1. nextTermEnd 0 12 1700000000000 = Some (addMonthsUtc 0 (12 * n))"
  using renewal_returns [of 0 12 1700000000000] by auto

text \<open>
  C9 (roundtrip).  The working time between an opening and the due date the service agreement gives it is exactly
  the minutes agreed, across nights, weekends and holidays.
\<close>

theorem sla_due_date_exact:
  assumes "0 \<le> opened" "0 < minutes" "minutes \<le> 2 ^ 53" "addSlaMinutes plus3 opened minutes cal = Inr due"
  shows "slaMinutesBetween plus3 opened due cal = of_int minutes"
  using assms by (rule sla_round_trip)

theorem sla_due_date_exact_witness: "slaMinutesBetween plus3 0 5400000 demo_calendar = 90"
  using sla_due_date_exact [of 0 90 demo_calendar 5400000]
  by (simp add: addSlaMinutes_def demo_calendar_def MINUTE_def)

text \<open>
  C10 (functional).  The next run of a cron expression, in any time zone whose offset from UTC is in whole minutes and at most a
  day, from 4 January 1970 on.
  The result is after the given instant and is the first reading of the local clock the schedule asks for, counted from
  the local clock of the next minute on, whose instant (what \<open>zonedTime\<close> gives for it) is after the given instant.  Where
  the zone does not change its clock from two days before the given instant to two days after the result, as in the
  zones the service takes by default, which have no summer time, the result matches every field on the local clock and no earlier
  instant after the given one does.  Around a change of the clock the result need not match.
\<close>

theorem cron_next_run_is_first:
  assumes "nextRunOf tz src after = Inr t" "offsets_ok tz" "3 * msPerDay \<le> after"
  shows "\<exists>s. parseCron src = Inr s \<and> after < t
    \<and> (\<exists>D h m. on_schedule s D h m \<and> t = runs_at tz D h m \<and> local_clock tz (next_minute after) \<le> reading D h m
          \<and> (\<forall>D' h' m'. on_schedule s D' h' m' \<and> local_clock tz (next_minute after) \<le> reading D' h' m'
                \<and> reading D' h' m' < reading D h m \<longrightarrow> runs_at tz D' h' m' \<le> after))
    \<and> (steady tz after t \<longrightarrow> cron_matches tz s t \<and> (\<forall>u. after < u \<and> u < t \<longrightarrow> \<not> cron_matches tz s u))"
proof -
  obtain s where s: "parseCron src = Inr s" and run: "nextRun tz s after = Inr t"
    using assms(1) by (auto simp: nextRunOf_def split: sum.splits)
  note ok = parseCron_ok [OF s]
  show ?thesis using nextRun_order [OF ok assms(2,3) run] nextRun_is_first [OF ok assms(2,3) run] s by blast
qed

text \<open>A zone an hour ahead that goes two hours ahead at 1:00 UTC on 29 March 2026.\<close>

definition summer_zone :: "instant \<Rightarrow> int" where "summer_zone u = (if u < 1774746000000 then 60 else 120)"

lemma summer_offsets: "offsets_ok summer_zone"
  by (simp add: offsets_ok_def summer_zone_def)

lemma demo_next_run: "nextRunOf summer_zone ''30 9 * * *'' 1767225600000 = Inr 1767256200000"
  by code_simp

lemma demo_steady: "steady summer_zone 1767225600000 1767256200000"
  by (simp add: steady_def summer_zone_def msPerDay_def)

theorem cron_next_run_is_first_witness:
  "\<exists>s. parseCron ''30 9 * * *'' = Inr s \<and> cron_matches summer_zone s 1767256200000
     \<and> (\<forall>u. 1767225600000 < u \<and> u < 1767256200000 \<longrightarrow> \<not> cron_matches summer_zone s u)"
  using cron_next_run_is_first [OF demo_next_run summer_offsets] demo_steady by (auto simp: msPerDay_def)

text \<open>In the night the clock goes forward, a task for 2:30 runs at 3:30, which is not on its schedule.\<close>

lemma cron_skipped_hour:
  "nextRunOf summer_zone ''30 2 * * *'' 1774742400000 = Inr 1774747800000
   \<and> (case parseCron ''30 2 * * *'' of Inr s \<Rightarrow> \<not> cron_matches summer_zone s 1774747800000 | Inl _ \<Rightarrow> False)"
  by code_simp

text \<open>
  The hour by hour walk over a work log counts the night minutes a minute by minute count would.
\<close>

lemma night_minutes_counted:
  "nightMinutes (fixed_tz c) t0 minutes ns ne
     = int (card {k. 0 \<le> k \<and> k < minutes \<and> night_minute (fixed_tz c) t0 ns ne k})"
  by (rule nightMinutes_count)

section \<open>Agent flows\<close>

text \<open>
  C11 (safety).  Secrets never reach the model: two contexts that differ only in the values of their secrets render
  every prompt to the same text.
\<close>

theorem prompt_independent_of_secrets:
  assumes "same_public c c'"
  shows "render n v c PromptMode d = render n v c' PromptMode d"
  using assms by (rule render_prompt)

theorem prompt_independent_of_secrets_witness:
  "render (\<lambda>_. ''n'') (JStr ''key {{vars.token}}'') (demo_ctx ''hunter2'') PromptMode 0
   = render (\<lambda>_. ''n'') (JStr ''key {{vars.token}}'') (demo_ctx ''other'') PromptMode 0"
  by (rule prompt_independent_of_secrets) (simp add: same_public_def demo_ctx_def)

text \<open>
  A condition cannot branch on a secret: its value, or the error it raises, is the same for any two
  contexts that differ only in the values of their secrets.
\<close>

lemma condition_independent_of_secrets:
  assumes "same_public c c'"
  shows "evaluate n src c = evaluate n src c'"
  using assms by (rule evaluate_prompt)

text \<open>
  C12 (equivalence).  The condition parser implements the grammar that \<open>expression.ts\<close> documents: a text parses to a tree
  exactly when its tokens derive from the nonterminal \<open>or\<close> of that grammar with this tree, \<open>&&\<close> binding tighter than \<open>||\<close>,
  both grouping to the left, a comparison taking two primaries and \<open>!\<close> one operand, within the depth limit: 38 levels,
  where \<open>!\<close> takes one and a pair of parentheses five.
\<close>

theorem condition_grammar:
  "parse src = Inr e \<longleftrightarrow> (\<exists>ts. tokenize src = Inr ts \<and> is_or (MAX_DEPTH - 2) ts e)"
  by (rule parse_iff)

lemma demo_condition: "parse ''a || !b && c'' = Inr (Or (Ref ''a'') (And (Not (Ref ''b'')) (Ref ''c'')))"
  by code_simp

text \<open>
  C13 (equivalence).  The topological sort of a flow succeeds exactly when the edges have no cycle, and the order it
  returns lists every node once, with the source of every edge before its target.
\<close>

theorem topological_order:
  assumes "graph_wf g"
  shows "(topoOrder g = None \<longleftrightarrow> \<not> acyclic (edge_rel (g_edges g)))
    \<and> (\<forall>out. topoOrder g = Some out \<longrightarrow> distinct out \<and> set out = gn_id ` set (g_nodes g)
          \<and> (\<forall>e\<in>set (g_edges g). precedes out (ge_source e) (ge_target e)))"
  using topoOrder_None [OF assms] topoOrder_Some [OF assms] by blast

lemma demo_order: "topoOrder implicitGraph = Some [''trigger'', ''agent'', ''end'']"
  by code_simp

theorem topological_order_witness: "acyclic (edge_rel (g_edges implicitGraph))"
  using topological_order [of implicitGraph] demo_order by (simp add: graph_wf_def implicitGraph_def uniq_def)

text \<open>
  C14 (type).  A graph the validator returns without issues is a flow: its nodes have distinct well formed ids and
  accepted data, its edges connect nodes and have no cycle, it has one trigger, every node is reachable from it,
  nothing enters the trigger or leaves an end, and every edge of a condition names its branch.
\<close>

theorem validated_graph:
  assumes "validateGraph v toolIds = Inr (g, [])"
  shows "flow_ok toolIds g"
  using assms by (rule validateGraph_clean)

lemma demo_flow_clean: "(case validateGraph demo_flow None of Inr (g, issues) \<Rightarrow> issues = [] | _ \<Rightarrow> False)"
  unfolding demo_flow_def by code_simp

theorem validated_graph_witness: "\<exists>g. validateGraph demo_flow None = Inr (g, []) \<and> flow_ok None g"
  using demo_flow_clean validated_graph [of demo_flow None] by (auto split: sum.splits prod.splits)




text \<open>
  No secret of four characters or more survives in what a run stores: once it is known to the
  redactor it occurs in no string of the redacted value, at any depth the redactor walks.
\<close>

lemma redaction_complete:
  assumes "Some s \<in> set secrets" "4 \<le> length s" "plain_value s"
    and "t \<in> texts_within 41 (redact_value (add secrets vs) x 0)"
  shows "\<not> str_includes t s"
  using redact_value_removes [OF add_known [OF assms(1,2)] assms(3) _ assms(4)] by simp

section \<open>Approvals\<close>

text \<open>
  C16 (invariant).  Whatever requests, decisions and expiries follow one another, an approved action runs at most
  once, and one that was denied, expired or is still open never runs.
\<close>

theorem approvals_run_once:
  assumes "executed_once st"
  shows "executed_once (fold (approval_step sj cs ex) ops st)"
  using assms by (rule desk.run_inv)

theorem approvals_run_once_witness:
  "executed_once (fold (approval_step (=) [] demo_executors)
     [Approve demo_approver ''a1'' 5, Approve demo_approver ''a1'' 6, Deny demo_approver ''a1'' None 7, Expire 90000000] demo_desk)"
  by (rule approvals_run_once) (simp add: executed_once_def demo_desk_def uniq_def runs_of_def)

text \<open>
  Two approvals of the same request that overlap both run the action: the status is read before the
  action and written after it, so the second call still finds the request pending.
\<close>

lemma overlapping_approvals:
  assumes "takeDecision x i now st = (Inr a, st)" "takeDecision y i now st = (Inr b, st)"
    and "ex (ap_kind a) = Some run" "uniq ap_id (as_approvals st)"
  shows "runs_of i (snd (approve_taken ex y b now (snd (approve_taken ex x a now st)))) = runs_of i st + 2"
  using assms by (rule overlapping_approvals_run_twice)

section \<open>Agent runs\<close>

text \<open>
  C17 (liveness).  Every run comes to rest: whatever the model answers, whatever the tools and the other services do and
  however the tool calls of a turn interleave, the walk over the workflow returns - an output, a
  failure, a cancellation or a wait for approval.
\<close>

theorem run_comes_to_rest: "\<exists>r c'. walk_run s c = Some (r, c')"
  using walk_run_returns [of s c] by auto

text \<open>
  C18 (bounds).  The step limit of one execution of a run that starts within its limit, if no answer of the model makes
  more than \<open>n\<close> tool calls: the walk over the nodes ends with at most \<open>n - 1\<close> steps more than the limit allows, and the
  execution, which may write one more step to note why the walk failed, with at most one beyond that; the extra step is written
  only for a failure with details.
\<close>

theorem step_limit_holds:
  assumes "calls_within s n" "walk_run s c = Some (r, c')" "ru_steps (rc_usage c) \<le> maxSteps (sp_limits (rc_spec c))"
  shows "ru_steps (rc_usage c') \<le> maxSteps (sp_limits (rc_spec c)) + (n - 1)
    \<and> ru_steps (rc_usage (ended_ctx s timedOut r c')) \<le> maxSteps (sp_limits (rc_spec c)) + (n - 1) + 1
    \<and> ((\<nexists>code msg d. r = Inl (RunFailure code msg d) \<and> d \<noteq> JUndef)
         \<longrightarrow> ru_steps (rc_usage (ended_ctx s timedOut r c')) \<le> maxSteps (sp_limits (rc_spec c)) + (n - 1))"
  using walk_run_steps [OF assms(1,2)] assms(3) ended_ctx_steps [of s timedOut r c'] by (auto simp: step_bound_def le_Suc_eq)

lemma demo_calls: "calls_within demo_services 1"
  by (simp add: calls_within_def demo_services_def demo_reply_def toolUsesOf_def echoable_def last_index_def has_type_def get_prop_def)

lemma demo_fields: "steps_of (demo_run n) = 0" "rc_spec (demo_run n) = demo_spec n"
  by (simp_all add: demo_run_def run_context_def no_usage_def)

theorem step_limit_holds_witness:
  "\<exists>r c'. walk_run demo_services (demo_run 25) = Some (r, c') \<and> ru_steps (rc_usage c') \<le> 25
     \<and> ru_steps (rc_usage (ended_ctx demo_services False r c')) \<le> 26"
proof -
  obtain r c' where w: "walk_run demo_services (demo_run 25) = Some (r, c')" using walk_run_returns by fastforce
  have "ru_steps (rc_usage (demo_run 25)) \<le> maxSteps (sp_limits (rc_spec (demo_run 25)))" by (simp add: demo_fields)
  from step_limit_holds [OF demo_calls w this, of False] w show ?thesis by (auto simp: demo_fields demo_spec_def)
qed

text \<open>
  The tool calls of one turn pass the guard before any of them has written its step, so two calls of
  one answer take a run beyond its limit: with one step allowed, two are written.
\<close>

lemma demo_use_started: "call_start demo_services [demo_tool] (demo_use i) (demo_run 1) = (CChecking (RunIt demo_tool (JObj [])), demo_run 1)"
  by (simp add: call_start_def demo_use_def demo_tool_def parsed_input_def enter_guard_def guard_now_def needs_approval_def demo_services_def
      demo_run_def run_context_def no_usage_def demo_spec_def tokens_used_def)

lemma env_unit: "c\<lparr>rc_env := ()\<rparr> = c" for c :: "unit run_ctx"
  by simp

lemma demo_use_checked:
  "call_step demo_services ''agent'' u (CChecking (RunIt demo_tool (JObj []))) c = (CExecuting demo_tool (JObj []) None, count_tool_call c)"
  by (simp add: guard_status_def call_prepared_def prepare_tool_def connection_id_def connection_problem_def demo_tool_def demo_services_def env_unit)

lemma demo_use_executed:
  "\<exists>r c'. call_step demo_services ''agent'' u (CExecuting demo_tool (JObj []) None) c = (CSettled r, c') \<and> steps_of c' = Suc (steps_of c)"
  by (simp add: execute_tool_def close_tool_def demo_services_def)

lemma demo_pick: "srv_pick demo_services p = (0, p)"
  by (simp add: demo_services_def)

lemma step_limit_overrun:
  "maxSteps (sp_limits (rc_spec (demo_run 1))) = 1
   \<and> steps_of (snd (callsFromModel demo_services ''agent'' [demo_tool] [demo_use ''x'', demo_use ''y''] (demo_run 1))) = 2"
proof -
  let ?wait = "CChecking (RunIt demo_tool (JObj []))" and ?run = "CExecuting demo_tool (JObj []) None"
  let ?us = "[demo_use ''x'', demo_use ''y'']"
  have count: "steps_of (count_tool_call c) = steps_of c" for c :: "unit run_ctx" by (simp add: count_tool_call_def)
  have last: "steps_of (snd (run_calls demo_services ''agent'' ?us [CSettled r, ?wait] c)) = Suc (steps_of c)" for r c
  proof -
    obtain r' c' where e: "call_step demo_services ''agent'' (demo_use ''y'') ?run (count_tool_call c) = (CSettled r', c')"
      "steps_of c' = Suc (steps_of (count_tool_call c))" using demo_use_executed by blast
    then show ?thesis
      by (simp add: run_calls.simps live_calls_def demo_pick demo_use_checked count env_unit del: call_step.simps)
  qed
  obtain r c where e: "call_step demo_services ''agent'' (demo_use ''x'') ?run (count_tool_call (demo_run 1)) = (CSettled r, c)"
    "steps_of c = Suc (steps_of (count_tool_call (demo_run 1)))" using demo_use_executed by blast
  have "run_calls demo_services ''agent'' ?us [?wait, ?wait] (demo_run 1) = run_calls demo_services ''agent'' ?us [CSettled r, ?wait] c"
    using e(1) by (simp add: run_calls.simps [of _ _ _ "[?wait, ?wait]"] run_calls.simps [of _ _ _ "[?run, ?wait]"] live_calls_def demo_pick demo_use_checked env_unit
        del: call_step.simps)
  then show ?thesis
    using last [of r c] e(2) by (simp add: callsFromModel_def demo_use_started [unfolded One_nat_def] count demo_fields demo_spec_def prod.case_eq_if)
qed

text \<open>
  C19 (safety).  The model is never sent a conversation it would refuse, and a pause for approval loses nothing: if paused
  answers carry no calls of their own, then from any saved state every request repeats the calls of
  each assistant message in the user message after it, one result per call and in order; the state saved when the loop
  waits lists exactly the missing approvals, and stays resumable when results are filled in.
\<close>

theorem conversations_answered:
  assumes "bare_pauses (node_deps s node c)" "resumable (srv_numStr s) saved"
  shows "(\<forall>st w ms. resume_turn (srv_numStr s) saved = Inr st \<longrightarrow> asked (node_deps s node c) st w ms
            \<longrightarrow> conversation_ok (srv_numStr s) ms)
       \<and> (\<forall>w st as w'. runAgentLoop (node_deps s node c) saved w = Some (Inr (LWaiting st as), w')
            \<longrightarrow> as = map pc_approvalId (undecided (pending_list st)) \<and> resumable (srv_numStr s) (decide_call u res st))"
proof -
  let ?d = "agent_deps s (gn_id node) (allowed_tools (rc_spec c) (get_prop ''toolIds'' (gn_data node))) (agent_request s node c)"
  have bare: "bare_pauses ?d" and ok: "resumable (ld_numStr ?d) saved"
    using assms by (simp_all add: node_deps_def)
  show ?thesis
    unfolding node_deps_def
  proof (intro conjI allI impI)
    fix st w ms
    assume "resume_turn (srv_numStr s) saved = Inr st" "asked ?d st w ms"
    then show "conversation_ok (srv_numStr s) ms" using run.asked_ok [OF bare ok] by simp
  next
    fix w st as w'
    assume "runAgentLoop ?d saved w = Some (Inr (LWaiting st as), w')"
    note ends = run.waiting_ok [OF bare ok this]
    show "as = map pc_approvalId (undecided (pending_list st))" using ends by simp
    show "resumable (srv_numStr s) (decide_call u res st)" using ends decide_resumable by simp
  qed
qed

lemma demo_bare: "bare_pauses (node_deps demo_services demo_node c)"
  by (simp add: bare_pauses_def node_deps_def agent_deps_def demo_services_def demo_reply_def Let_def)

theorem conversations_answered_witness:
  "asked (node_deps demo_services demo_node (demo_run 9)) (initialState ''go'') (demo_run 9) (ls_messages (initialState ''go''))
   \<and> conversation_ok (srv_numStr demo_services) (ls_messages (initialState ''go''))"
proof -
  have "guard demo_services (demo_run 9) = (None, demo_run 9)"
    by (simp add: guard_def guard_now_def guard_status_def demo_services_def demo_run_def run_context_def no_usage_def demo_spec_def tokens_used_def)
  then have a: "asked (node_deps demo_services demo_node (demo_run 9)) (initialState ''go'') (demo_run 9) (ls_messages (initialState ''go''))"
    by (intro asked_now) (simp add: node_deps_def)
  have "resume_turn (srv_numStr demo_services) (initialState ''go'') = Inr (initialState ''go'')"
    by (simp add: resume_turn_def pending_list_def initialState_def)
  with a conversations_answered [OF demo_bare initial_resumable] show ?thesis by blast
qed

text \<open>
  C20 (safety).  The step log of an execution, with the step that notes a failure, is numbered without a gap, and the value
  of a secret variable occurs in no text that its steps store as input, output or error, under these conditions:
  the value has at least four characters, no square bracket, and is no part of the mask; the text is a value and no
  object key, at most 40 levels deep; and the payload is not the preview kept of one that is too long.  Names of steps are not
  masked and not covered.
\<close>

theorem step_log_masked:
  assumes "walk_run s (run_context s i spec st u vars p) = Some (r, c')"
    and "v \<in> set (secret_values vars)" "4 \<le> length v" "plain_value v"
  shows "let d = ended_ctx s timedOut r c'
    in map stp_index (rc_steps d) = [ru_steps u..<ru_steps (rc_usage d)]
       \<and> (\<forall>x\<in>set (rc_steps d). \<forall>q\<in>set (step_payloads x). cut_short q \<or> (\<forall>t\<in>texts_within 41 q. \<not> str_includes t v))"
  using logged_masks [OF ended_ctx_logged [OF assms(1)]] assms(2-4) unfolding Let_def by blast

lemma demo_plain: "plain_value ''hunter2''"
  by code_simp

theorem step_log_masked_witness:
  "\<exists>r c'. walk_run demo_services (demo_run 9) = Some (r, c')
     \<and> (\<forall>x\<in>set (rc_steps (ended_ctx demo_services False r c')). \<forall>q\<in>set (step_payloads x).
          cut_short q \<or> (\<forall>t\<in>texts_within 41 q. \<not> str_includes t ''hunter2''))"
proof -
  obtain r c' where w: "walk_run demo_services (demo_run 9) = Some (r, c')" using walk_run_returns by fastforce
  have "''hunter2'' \<in> set (secret_values [(''KEY'', ''hunter2'', True)])" by (simp add: secret_values_def)
  from step_log_masked [OF w [unfolded demo_run_def] this _ demo_plain, of False] w
  show ?thesis by (simp add: demo_run_def Let_def)
qed

text \<open>
  C21 (safety).  A node runs only when finished nodes lead to it: every node a walk finishes is the trigger or the target
  of an edge of a finished node, for a condition the edge of its result; and what a checkpoint holds is never computed
  again or changed.
\<close>

theorem nodes_led_to:
  assumes "walk_run s c = Some (r, c')"
  shows "extends (rc_state c) (rc_state c')
       \<and> (\<forall>i. done_entry i (rc_state c') \<noteq> None \<longrightarrow> done_entry i (rc_state c) = None \<longrightarrow>
            (\<exists>tr\<in>set (g_nodes (graph_of (rc_spec c))). gn_type tr = ''trigger''
               \<and> led_to (graph_of (rc_spec c)) (gn_id tr) (rc_state c') i))"
  using walk_run_led [OF assms] by blast

theorem nodes_led_to_witness:
  "\<exists>r c'. walk_run demo_services (demo_run 9) = Some (r, c') \<and> extends (rc_state (demo_run 9)) (rc_state c')"
proof -
  obtain r c' where w: "walk_run demo_services (demo_run 9) = Some (r, c')" using walk_run_returns by fastforce
  with nodes_led_to [OF w] show ?thesis by blast
qed

text \<open>
  What the customer is billed for is what the model used: over all models, the billed tokens of every kind equal the
  counters of the run.
\<close>

lemma model_usage_billed:
  assumes "\<forall>r\<in>set rs. attempts_sum r"
  shows "balanced (rc_usage (fold (recordModel s node) rs (run_context s i spec st no_usage vars p)))"
proof -
  have "balanced (rc_usage c) \<Longrightarrow> balanced (rc_usage (fold (recordModel s node) rs c))" for c
    using assms by (induction rs arbitrary: c) (simp_all add: recordModel_balanced)
  then show ?thesis by (simp add: run_context_def balanced_def no_usage_def billed_def)
qed

text \<open>
  C22 (invariant).  Whatever executors, approvers, people who cancel and the expiry job do to runs, and however their
  statements interleave, at most one executor works on a run, only while it is running or has just been cancelled, and
  never while a decision about it is carried out.
\<close>

theorem one_executor_per_run:
  "one_executor (fold run_op_step ops \<lparr>rw_db = \<lparr>rd_runs = [], rd_approvals = apps, rd_steps = []\<rparr>, rw_executors = [], rw_jobs = []\<rparr>)"
  by (rule fleet.run_inv) (simp add: one_executor_def uniq_def job_on_def)

text \<open>
  C23 (safety).  The end of a run is final: once a run has succeeded, failed or been cancelled, and no decision about it is
  being carried out, nothing that happens later takes it out of the ended states or starts it again.
\<close>

theorem ended_run_stays_ended:
  assumes "over i w"
  shows "has_ended i (rd_runs (rw_db (fold run_op_step ops w))) \<and> i \<notin> fst ` set (rw_jobs (fold run_op_step ops w))"
  using grave.run_inv [of i w ops, OF assms] by (simp add: over_def job_on_def)

theorem ended_run_stays_ended_witness:
  "over ''r1'' (demo_world RsFailed [])
   \<and> has_ended ''r1'' (rd_runs (rw_db (fold run_op_step [OpApprove ''x'' ''r1'', OpClaim ''r1'' 5, OpCancel ''t1'' ''r1'' 6] (demo_world RsFailed []))))"
proof -
  have "over ''r1'' (demo_world RsFailed [])"
    by (simp add: over_def one_executor_def demo_world_def demo_row_def has_ended_def job_on_def uniq_def run_row_ok_def)
  with ended_run_stays_ended show ?thesis by blast
qed

text \<open>
  C24 (error).  A cancellation that lands while an approved call is executed is lost: the run is cancelled, and when the
  call returns and no other approval is missing its row is queued again, so the cancelled run goes on.
\<close>

theorem cancelled_run_goes_on:
  assumes "find_by rr_id i (rd_runs (rw_db w)) = Some r" "rr_status r = RsWaitingApproval" "uniq rr_id (rd_runs (rw_db w))"
    "map_of (rw_jobs w) i = Some (Approving a entry spec st)"
    "apply_approved a entry out st = Some st'" "rs_approvals st' = []"
  shows "map_option rr_status (find_by rr_id i (rd_runs (rw_db (run_op_step (OpCancel (rr_teamId r) i t1) w)))) = Some RsCancelled
       \<and> map_option rr_status (find_by rr_id i (rd_runs (rw_db
            (fold run_op_step [OpCancel (rr_teamId r) i t1, OpApproved i out u t2] w)))) = Some RsQueued"
  using cancelled_run_requeued(1) [OF assms] cancelled_run_requeued(2) [OF assms, of t1 u t2] by auto

theorem cancelled_run_goes_on_witness:
  "map_option rr_status (find_by rr_id ''r1'' (rd_runs (rw_db (fold run_op_step
     [OpCancel ''t1'' ''r1'' 5, OpApproved ''r1'' (ToolOk JNull ''ok'') no_usage 6]
     (demo_world RsWaitingApproval [(''r1'', Approving ''ap1'' demo_entry (demo_spec 9)
        ((new_state demo_trigger)\<lparr>rs_approvals := [(''ap1'', demo_entry)]\<rparr>))]))))) = Some RsQueued"
proof -
  let ?st = "(new_state demo_trigger)\<lparr>rs_approvals := [(''ap1'', demo_entry)]\<rparr>"
  let ?w = "demo_world RsWaitingApproval [(''r1'', Approving ''ap1'' demo_entry (demo_spec 9) ?st)]"
  have f: "find_by rr_id ''r1'' (rd_runs (rw_db ?w)) = Some (demo_row RsWaitingApproval)"
    and s: "rr_status (demo_row RsWaitingApproval) = RsWaitingApproval" "rr_teamId (demo_row RsWaitingApproval) = ''t1''"
    and u: "uniq rr_id (rd_runs (rw_db ?w))"
    and m: "map_of (rw_jobs ?w) ''r1'' = Some (Approving ''ap1'' demo_entry (demo_spec 9) ?st)"
    by (simp_all add: demo_world_def demo_row_def uniq_def)
  have a: "apply_approved ''ap1'' demo_entry (ToolOk JNull ''ok'') ?st
      = Some (drop_approval ''ap1'' (?st\<lparr>rs_done := [(''n'', JNull, None)]\<rparr>))"
    by (simp add: apply_approved_def demo_entry_def new_state_def)
  have d: "rs_approvals (drop_approval ''ap1'' (?st\<lparr>rs_done := [(''n'', JNull, None)]\<rparr>)) = []"
    by (simp add: drop_approval_def AList.delete_eq new_state_def)
  from cancelled_run_goes_on [OF f s(1) u m a d] s(2) show ?thesis by simp
qed

text \<open>
  A node whose id every object inherits counts as finished and never runs, although the validator takes its id.
\<close>

lemma inherited_node_never_runs:
  "node_id_ok ''constructor''
   \<and> visit s \<lparr>gn_id = ''constructor'', gn_type = ''tool'', gn_position = (JNum 0, JNum 0), gn_data = []\<rparr> t lst (run_context s i spec (new_state tr) u vars p)
       = Some (Inr (Some (JUndef, None)), run_context s i spec (new_state tr) u vars p)"
  using inherited_id_accepted by (simp add: visit_def done_entry_def run_context_def new_state_def)

section \<open>Managed contracts\<close>

lemma demo_upper: "toUpperCase ''essential'' = ''ESSENTIAL''" by code_simp

lemma demo_requested:
  "dk_contracts (desk_step 0 (ORequest demo_env demo_actor ''essential'' None) demo_office) = [demo_draft]"
  "dk_items (desk_step 0 (ORequest demo_env demo_actor ''essential'' None) demo_office) = demo_items"
  by (simp_all add: request_contract_def createDraft_def assertOwner_def demo_office_def demo_actor_def demo_draft_def demo_plan_def demo_upper demo_team_def Let_def)

lemma demo_checklist: "createMany_skip obi_id (default_items ''k1'') demo_items = demo_items"
  by code_simp

lemma demo_contract_signed:
  assumes "dk_contracts d = [demo_draft]" "dk_items d = demo_items"
  shows "dk_contracts (desk_step 10 (OActivate f demo_actor ''k1'' demo_signature) d) = [sign_contract 10 demo_actor demo_signature False demo_draft]"
   "dk_items (desk_step 10 (OActivate f demo_actor ''k1'' demo_signature) d) = demo_items"
  using assms
  by (simp_all add: activate_contract_def load_contract_def demo_draft_def draft_row_def demo_env_def demo_plan_def terms_of_def no_extra_def convert_minor_def
   demo_team_def on_call_count_def understaffed_def move_contract_def ensureChecklist_def demo_checklist)

lemma demo_ticked:
  "list_all obi_done (update_where (\<lambda>x. obi_id x = (''k1'', ''access''))
     (\<lambda>x. x\<lparr>obi_done := True, obi_doneById := Some ''x1'', obi_doneAt := Some 20, obi_note := obi_note x\<rparr>) demo_items)"
  "list_all (\<lambda>x. obi_contractId x = ''k1'') demo_items" "(''k1'', ''access'') \<in> obi_id ` set demo_items" "demo_items \<noteq> []"
  by code_simp+

lemma demo_onboarded:
  assumes "dk_contracts d = [c]" "mct_status c = COnboarding" "mct_id c = ''k1''" "dk_items d = demo_items"
  shows "dk_contracts (desk_step 20 (OSetItem False demo_actor ''k1'' ''access'' True None) d)
    = [c\<lparr>mct_status := CActive, mct_activatedAt := Some 20,
         mct_termEndsAt := Some (setUTCMonth 20 (getUTCMonth 20 + mct_termMonths c))\<rparr>]"
proof -
  let ?u = "update_where (\<lambda>x. obi_id x = (''k1'', ''access''))
     (\<lambda>x. x\<lparr>obi_done := True, obi_doneById := Some ''x1'', obi_doneAt := Some 20, obi_note := obi_note x\<rparr>) demo_items"
  have "filter (\<lambda>x. obi_contractId x = ''k1'') ?u = ?u"
    using demo_ticked(2) by (auto simp: filter_id_conv ball_update_where list_all_iff)
  moreover have "\<not> list_ex (\<lambda>x. \<not> obi_done x) ?u" using demo_ticked(1) by (simp add: list_all_iff list_ex_iff)
  moreover have "?u \<noteq> []" using demo_ticked(4) by (simp add: update_where_def)
  ultimately show ?thesis using assms demo_ticked(3)
    by (simp add: setItem_def load_contract_def activateIfComplete_def items_of_def move_contract_def demo_actor_def Let_def)
qed

lemma demo_paused:
  assumes "dk_contracts d = [c]" "mct_status c = CActive" "mct_id c = ''k1''" "mct_activatedAt c \<noteq> None" "mct_suspensions c = []"
  shows "dk_contracts (desk_step 70 (OResume (Some demo_actor) ''k1'') (desk_step 40 (OSuspend (Some demo_actor) ''k1'') d))
    = [c\<lparr>mct_status := CActive, mct_suspendedAt := None, mct_suspensions := [(40, 70)]\<rparr>]"
  using assms
  by (simp add: suspend_contract_def resume_contract_def load_contract_def suspend_write_def resume_write_def
      update_contract_def resumed_status_def Let_def)

lemma demo_trace_row:
  "\<exists>c. find_by mct_id ''k1'' (dk_contracts (desk_run demo_trace demo_office)) = Some c
     \<and> mct_activatedAt c = Some 20 \<and> mct_suspendedAt c = None \<and> mct_cancelledAt c = None \<and> mct_suspensions c = [(40, 70)]"
proof -
  note two = demo_contract_signed [OF demo_requested, of "dre_matrixId demo_env"]
  have row: "mct_status (sign_contract 10 demo_actor demo_signature False demo_draft) = COnboarding"
    "mct_id (sign_contract 10 demo_actor demo_signature False demo_draft) = ''k1''"
    "mct_suspensions (sign_contract 10 demo_actor demo_signature False demo_draft) = []"
    "mct_cancelledAt (sign_contract 10 demo_actor demo_signature False demo_draft) = None"
    by (simp_all add: sign_contract_def demo_draft_def draft_row_def demo_env_def)
  note final = demo_paused [OF demo_onboarded [OF two(1) row(1,2) two(2)]]
  show ?thesis
    by (simp add: desk_run_def demo_trace_def final row del: desk_step.simps)
qed

text \<open>
  C25 (equivalence).  The fee of a managed contract is prorated by the time it was active: whatever owners, staff and jobs did to
  the contracts, the fraction of a month that is billed is the number of milliseconds of the month at which the contract
  was in the state ACTIVE, up to the instant at which it ended, over the length of the month.
\<close>

theorem managed_fee_counts_active_time:
  assumes "dk_contracts db = []" "sorted (map fst tr)"
    and "find_by mct_id i (dk_contracts (desk_run tr db)) = Some c" "mct_activatedAt c \<noteq> None"
  shows "contract_fraction c ps pe =
    js_div (of_int (int (card {t. ps \<le> t \<and> t < pe \<and> contract_status_of i (desk_at tr db t) = Some CActive
                                  \<and> \<not> by_now t (mct_cancelledAt c)})))
      (of_int (pe - ps))"
  unfolding contract_fraction_due [OF assms(4)] row_tells_history [OF assms(1-3)] ..

lemma demo_sorted: "sorted (map fst demo_trace)"
  by (simp add: demo_trace_def)

theorem managed_fee_counts_active_time_witness:
  "\<exists>c. find_by mct_id ''k1'' (dk_contracts (desk_run demo_trace demo_office)) = Some c
     \<and> contract_fraction c 0 100 =
         js_div (of_int (int (card {t. 0 \<le> t \<and> t < 100 \<and> contract_status_of ''k1'' (desk_at demo_trace demo_office t) = Some CActive
                                      \<and> \<not> by_now t (mct_cancelledAt c)}))) 100"
proof -
  obtain c where c: "find_by mct_id ''k1'' (dk_contracts (desk_run demo_trace demo_office)) = Some c" "mct_activatedAt c \<noteq> None"
    using demo_trace_row by auto
  have "dk_contracts demo_office = []" by (simp add: demo_office_def)
  from managed_fee_counts_active_time [OF this demo_sorted c, of 0 100] c(1) show ?thesis by auto
qed

text \<open>
  C26 (invariant).  No contract is billed before it is onboarded: whatever happens to the contracts, one for which a fee is due at
  any instant has a checklist, and every item of it is done.
\<close>

theorem billed_only_when_onboarded:
  assumes "dk_contracts db = []" "c \<in> set (dk_contracts (desk_run tr db))" "fee_due (life_of c) t"
  shows "checklist_complete (mct_id c) (desk_run tr db)"
proof -
  have "desk_ok db" using assms(1) by (simp add: desk_ok_def uniq_def)
  then have "desk_ok (desk_run tr db)" by (rule desk_run_ok)
  then show ?thesis using assms(2,3) by (cases "mct_activatedAt c") (auto simp: desk_ok_def fee_due_def life_of_def)
qed

theorem billed_only_when_onboarded_witness: "checklist_complete ''k1'' (desk_run demo_trace demo_office)"
proof -
  obtain c where c: "find_by mct_id ''k1'' (dk_contracts (desk_run demo_trace demo_office)) = Some c"
    "mct_activatedAt c = Some 20" "mct_suspendedAt c = None" "mct_cancelledAt c = None" "mct_suspensions c = [(40, 70)]"
    using demo_trace_row by blast
  have "dk_contracts demo_office = []" by (simp add: demo_office_def)
  moreover have "fee_due (life_of c) 30" using c by (simp add: fee_due_def life_of_def)
  ultimately show ?thesis using billed_only_when_onboarded [of demo_office c demo_trace 30] find_by_Some [OF c(1)] by simp
qed

text \<open>
  C27 (liveness).  The daily job always finishes and leaves nothing overdue: no running contract is left whose scheduled
  cancellation, or whose term without renewal, has passed, and none whose term should have been renewed; a contract that
  was not overdue keeps its status.
\<close>

theorem renewals_leave_nothing_overdue:
  assumes "uniq mct_id (dk_contracts db)" "\<forall>c\<in>set (dk_contracts db). \<forall>e. mct_termEndsAt c = Some e \<longrightarrow> 0 \<le> e"
  shows "\<exists>out db'. runRenewals now db = Some (out, db') \<and> (\<forall>c\<in>set (dk_contracts db'). \<not> overdue now c)
    \<and> list_all2 (\<lambda>c c'. mct_id c' = mct_id c \<and> (\<not> overdue now c \<longrightarrow> mct_status c' = mct_status c)) (dk_contracts db) (dk_contracts db')"
proof -
  obtain out db' where run: "runRenewals now db = Some (out, db')"
    and rows: "dk_contracts db' = map (\<lambda>c. if renewal_due now c then renewal_outcome now c else c) (dk_contracts db)"
    using runRenewals_rows [OF assms] by blast
  have "\<not> overdue now c" if "c \<in> set (dk_contracts db')" for c
    using that assms(2) outcome_not_overdue overdue_is_due by (auto simp: rows)
  moreover have "list_all2 (\<lambda>c c'. mct_id c' = mct_id c \<and> (\<not> overdue now c \<longrightarrow> mct_status c' = mct_status c)) (dk_contracts db) (dk_contracts db')"
    unfolding rows by (auto simp: list_all2_map2 outcome_status intro: list_all2_refl)
  ultimately show ?thesis using run by blast
qed

theorem renewals_leave_nothing_overdue_witness:
  "\<exists>out db'. runRenewals 90 (demo_office\<lparr>dk_contracts := [demo_draft\<lparr>mct_status := CActive, mct_termEndsAt := Some 80\<rparr>]\<rparr>) = Some (out, db')
     \<and> (\<forall>c\<in>set (dk_contracts db'). \<not> overdue 90 c)"
  using renewals_leave_nothing_overdue [of "demo_office\<lparr>dk_contracts := [demo_draft\<lparr>mct_status := CActive, mct_termEndsAt := Some 80\<rparr>]\<rparr>" 90]
  by (auto simp: uniq_def)

text \<open>
  C28 (safety).  A month is accrued once: accruing it again gives the same amounts and leaves every table as it is, and a work log
  whose minutes were counted for the month is not counted for any other month.
\<close>

theorem month_accrued_once:
  assumes "accrueContract newIds now cur c ps pe db = (r, db1)" "60000 \<le> now - pe" "60000 \<le> now' - pe" "uniq mwl_id (bil_logs db)"
  shows "accrueContract newIds' now' cur c ps pe db1 = (r, db1)
    \<and> (\<forall>a. r = Some a \<longrightarrow> (\<forall>w\<in>set (bil_logs db). counted_log (mct_id c) ps pe w \<longrightarrow>
          (\<exists>w'\<in>set (bil_logs db1). mwl_id w' = mwl_id w \<and> (\<forall>ps' pe'. ps' \<noteq> ps \<longrightarrow> \<not> counted_log (mct_id c) ps' pe' w'))))"
proof -
  have "\<exists>w'\<in>set (bil_logs db1). mwl_id w' = mwl_id w \<and> (\<forall>ps' pe'. ps' \<noteq> ps \<longrightarrow> \<not> counted_log (mct_id c) ps' pe' w')"
    if "r = Some a" "w \<in> set (bil_logs db)" "counted_log (mct_id c) ps pe w" for a w
  proof (intro bexI [of _ "stamp ps w"] conjI allI impI)
    show "stamp ps w \<in> set (bil_logs db1)"
      unfolding accrued_logs [OF assms(1) [unfolded that(1)] assms(4)] in_update_where using that by force
  qed (simp_all add: stamped_not_counted, simp add: stamp_def)
  with accrue_again [OF assms] show ?thesis by blast
qed

theorem month_accrued_once_witness:
  "accrueContract (''v1'', ''v2'') 200000 SAR (demo_draft\<lparr>mct_status := CActive, mct_activatedAt := Some 0\<rparr>) 0 1000
     (snd (accrueContract (''u1'', ''u2'') 100000 SAR (demo_draft\<lparr>mct_status := CActive, mct_activatedAt := Some 0\<rparr>) 0 1000 demo_bills))
   = accrueContract (''u1'', ''u2'') 100000 SAR (demo_draft\<lparr>mct_status := CActive, mct_activatedAt := Some 0\<rparr>) 0 1000 demo_bills"
proof -
  let ?c = "demo_draft\<lparr>mct_status := CActive, mct_activatedAt := Some 0\<rparr>"
  have "accrueContract (''u1'', ''u2'') 100000 SAR ?c 0 1000 demo_bills
      = (fst (accrueContract (''u1'', ''u2'') 100000 SAR ?c 0 1000 demo_bills), snd (accrueContract (''u1'', ''u2'') 100000 SAR ?c 0 1000 demo_bills))"
    by simp
  from month_accrued_once [OF this, of 200000 "(''v1'', ''v2'')"] show ?thesis by (auto simp: demo_bills_def uniq_def)
qed

text \<open>
  C29 (error).  A cancellation that lands while a suspension is on its way is lost: the contract is cancelled and its access revoked,
  then the stale suspension writes its row, and a later resume makes the contract ACTIVE again although its monitoring and
  maintenance stay off.
\<close>

theorem cancelled_contract_revived:
  assumes "uniq mct_id (dk_contracts db)" "find_by mct_id i (dk_contracts db) = Some c"
    and "mct_status c = CActive" "mct_activatedAt c \<noteq> None"
    and "db1 = snd (cancel_contract now who i reason db)" "db2 = suspend_write later None c db1"
    and "db3 = snd (resume_contract later' who' i db2)"
  shows "contract_status_of i db1 = Some CCancelled \<and> contract_status_of i db2 = Some CSuspended
    \<and> contract_status_of i db3 = Some CActive \<and> access_revoked i db3"
  unfolding assms(5-7) by (intro conjI stale_suspension_revives [OF assms(1-4)])

theorem cancelled_contract_revived_witness:
  "contract_status_of ''k1'' (snd (resume_contract 30 None ''k1''
     (suspend_write 20 None (demo_draft\<lparr>mct_status := CActive, mct_activatedAt := Some 0\<rparr>)
       (snd (cancel_contract 10 demo_actor ''k1'' None
         (demo_office\<lparr>dk_contracts := [demo_draft\<lparr>mct_status := CActive, mct_activatedAt := Some 0\<rparr>]\<rparr>)))))) = Some CActive"
proof -
  let ?c = "demo_draft\<lparr>mct_status := CActive, mct_activatedAt := Some 0\<rparr>"
  have "find_by mct_id ''k1'' (dk_contracts (demo_office\<lparr>dk_contracts := [?c]\<rparr>)) = Some ?c"
    by (simp add: demo_draft_def draft_row_def demo_env_def)
  from cancelled_contract_revived [OF _ this _ _ refl refl refl] show ?thesis by (simp add: uniq_def)
qed

text \<open>
  The periodic job follows the team accounts: afterwards no contract of a suspended team is worked on, and a contract
  that staff suspended stays as it was.
\<close>

lemma suspended_accounts_stop:
  assumes "uniq mct_id (dk_contracts db)" "uniq tm_id (dk_teams db)"
  shows "(\<forall>c\<in>set (dk_contracts (syncWithTeamStatus now db)). mct_teamId c \<in> suspended_teams db \<longrightarrow> mct_status c \<notin> {CActive, COnboarding})
    \<and> (\<forall>i c. find_by mct_id i (dk_contracts db) = Some c \<and> mct_status c = CSuspended \<and> \<not> job_suspended i db
          \<longrightarrow> find_by mct_id i (dk_contracts (syncWithTeamStatus now db)) = Some c)"
  using sync_stops_suspended [OF assms] sync_keeps_staff_suspension [OF assms(1)] by blast

text \<open>
  A contract that was suspended during onboarding, given a cancellation date by its owner and resumed: the daily job does
  not end it and the owner cannot withdraw the date.
\<close>

lemma onboarding_cancellation_stuck:
  assumes "find_by mct_id i (dk_contracts db) = Some c" "mct_status c = COnboarding" "uniq mct_id (dk_contracts db)"
  shows "\<not> renewal_due now c \<and> fst (undoCancelForTeam now who i db) \<noteq> Inr c'"
  using onboarding_cancellation_ignored [OF assms(1,2)] assms(3) by blast

section \<open>Access\<close>

text \<open>
  C30 (safety).  A caller the guard admits to a customer or staff route has every scope the route asks for, is staff
  where the route is for staff, and when its team is suspended only reaches the routes left open to it.
\<close>

theorem guard_admits:
  assumes "canActivate decode sha verify cfg r req now db = (Inr (Some who), db')" "\<not> startsWith (rq_path req) ''/ops/''"
  shows "(\<forall>s\<in>set (ro_scopes r). s \<noteq> ''admin'' \<longrightarrow> s \<in> a_scopes who)
    \<and> (''admin'' \<in> set (ro_scopes r) \<longrightarrow> hasStaffScope (a_scopes who))
    \<and> (a_suspended who \<longrightarrow> startsWith (rq_path req) ''/admin/'' \<and> hasStaffScope (a_scopes who)
         \<or> allowedWhileSuspended (rq_method req) (rq_path req) (filter (\<lambda>s. s \<noteq> ''admin'') (ro_scopes r)))"
  using admit_ok [OF canActivate_admits [OF assms]] by blast

lemma demo_bearer: "bearer_of demo_request = Some ''prgd_ab''"
  unfolding demo_request_def by code_simp

lemma demo_servers_scope: "''servers:read'' \<in> scopesForRole Owner"
  by code_simp

lemma demo_resolved:
  "fst (resolveApiToken (\<lambda>s. s) 5 ''prgd_ab'' demo_auth) \<noteq> None
   \<and> (\<forall>who. fst (resolveApiToken (\<lambda>s. s) 5 ''prgd_ab'' demo_auth) = Some who \<longrightarrow>
        a_scopes who = {''servers:read''} \<and> a_tokenId who = Some ''k1'' \<and> \<not> a_suspended who)"
  using demo_servers_scope by (auto simp: resolveApiToken_def demo_auth_def token_actor_def role_and_staff_def)

lemma demo_admitted:
  "\<exists>who db'. canActivate (\<lambda>s. s) (\<lambda>s. s) (\<lambda>_. None) demo_auth_config demo_route demo_request 5 demo_auth = (Inr (Some who), db')"
  using demo_resolved demo_bearer
  by (cases "resolveApiToken (\<lambda>s. s) 5 ''prgd_ab'' demo_auth")
    (auto simp: canActivate_def resolveBearer_def TOKEN_PREFIX_def startsWith_def admit_def demo_route_def demo_request_def
      given_def demo_auth_config_def)

theorem guard_admits_witness:
  "\<exists>who db'. canActivate (\<lambda>s. s) (\<lambda>s. s) (\<lambda>_. None) demo_auth_config demo_route demo_request 5 demo_auth = (Inr (Some who), db')
     \<and> ''servers:read'' \<in> a_scopes who"
  using demo_admitted guard_admits [of "\<lambda>s. s" "\<lambda>s. s" "\<lambda>_. None" demo_auth_config demo_route demo_request 5 demo_auth]
  by (fastforce simp: demo_route_def demo_request_def startsWith_def)

text \<open>
  C31 (safety).  A token never has more than its owner: a token that resolves is stored, unexpired and not revoked,
  its owner is a member of a team that is not closed, and its scopes are among those granted to it and those its
  owner's role and staff grants give at this moment; the token of somebody who is not staff has no staff scope.
\<close>

theorem token_within_owner:
  assumes "resolveApiToken sha now raw db = (Some who, db')"
  shows "\<exists>t m u. find_by to_hash (sha raw) (db_tokens db) = Some t \<and> to_revokedAt t = None
    \<and> (\<forall>e. to_expiresAt t = Some e \<longrightarrow> now \<le> e) \<and> db_teamStatus db (to_teamId t) \<noteq> Some TsClosed
    \<and> find_by (\<lambda>m. (ms_teamId m, ms_userId m)) (a_teamId who, a_userId who) (db_members db) = Some m
    \<and> find_by us_id (a_userId who) (db_users db) = Some u
    \<and> a_scopes who \<subseteq> set (to_scopes t) \<inter> role_and_staff (ms_role m) u
    \<and> (\<not> us_isStaff u \<longrightarrow> \<not> hasStaffScope (a_scopes who))"
proof -
  obtain t m u where t: "find_by to_hash (sha raw) (db_tokens db) = Some t" "to_revokedAt t = None"
      "\<forall>e. to_expiresAt t = Some e \<longrightarrow> now \<le> e" "db_teamStatus db (to_teamId t) \<noteq> Some TsClosed"
      "find_by (\<lambda>m. (ms_teamId m, ms_userId m)) (to_teamId t, to_userId t) (db_members db) = Some m"
      "find_by us_id (to_userId t) (db_users db) = Some u"
    and who: "who = token_actor t m u db"
    using resolveApiToken_Some [OF assms] by blast
  have who': "a_teamId who = to_teamId t" "a_userId who = to_userId t"
    and sub: "a_scopes who \<subseteq> set (to_scopes t) \<inter> role_and_staff (ms_role m) u"
    unfolding who by (auto simp: token_actor_def)
  have "\<not> us_isStaff u \<longrightarrow> \<not> hasStaffScope (a_scopes who)"
    using sub not_staff_scopes [of u "ms_role m"] hasStaffScope_mono scopesForRole_not_staff by (metis le_inf_iff)
  then show ?thesis using t sub unfolding who' by blast
qed

theorem token_within_owner_witness:
  "\<exists>who. fst (resolveApiToken (\<lambda>s. s) 5 ''prgd_ab'' demo_auth) = Some who \<and> \<not> hasStaffScope (a_scopes who)"
proof -
  obtain who where who: "resolveApiToken (\<lambda>s. s) 5 ''prgd_ab'' demo_auth = (Some who, snd (resolveApiToken (\<lambda>s. s) 5 ''prgd_ab'' demo_auth))"
    using demo_resolved by (metis option.exhaust prod.collapse)
  obtain u where "find_by us_id (a_userId who) (db_users demo_auth) = Some u" "\<not> us_isStaff u \<longrightarrow> \<not> hasStaffScope (a_scopes who)"
    using token_within_owner [OF who] by blast
  moreover have "\<not> us_isStaff u" using calculation(1) by (auto simp: demo_auth_def split: if_splits)
  ultimately show ?thesis using who by (metis fst_conv)
qed

text \<open>
  An external engineer reaches assigned contracts only: when both guards pass, every object the request
  names belongs to a contract, and every such contract is assigned to the active engineer who calls.
\<close>

lemma external_engineer_sees_assigned:
  assumes "engineer_guard classify users ip who = Inr ctx" "oc_external ctx" "assignment_guard db (Some ctx) req paramRefs = Inr cs"
  shows "\<exists>a u p. who = Some a \<and> find_by ou_id (a_userId a) users = Some u \<and> ou_profile u = Some p
    \<and> ep_status p = EngActive \<and> set cs \<subseteq> set (ep_assignments p)
    \<and> (\<forall>(k, i)\<in>set (refs req paramRefs). \<exists>c\<in>set cs. contractOf db k i = Some c)"
  using assms by (rule external_assignment)

text \<open>
  C32 (invariant).  A team that has an owner keeps one: no sequence of role changes, removals, invitations, sign ups and
  closures leaves it without an owner or with two memberships of one person.
\<close>

theorem team_keeps_owner:
  assumes "owned teamId st"
  shows "owned teamId (fold (team_step sha sign) ops st)"
  using assms by (rule crew.run_inv)

theorem team_keeps_owner_witness:
  "owned ''t1'' (fold (team_step (\<lambda>s. s) (\<lambda>_. ''jwt''))
     [RemoveMember demo_approver ''x1'' 5, ChangeRole demo_approver ''x1'' Member, ChangeRole demo_approver ''x2'' Owner,
      Invite demo_approver ''eve@example.com'' Admin ''k'' ''v1'' 6, AcceptWithSignup ''j1'' 9 ''x3'' (Some ''k'') 7,
      RemoveMember demo_approver ''x1'' 8] demo_crew)"
  by (rule team_keeps_owner) (simp add: owned_def demo_crew_def members_def uniq_def owner_of_def)

text \<open>
  A removed member is locked out at once: no session and no token, old or new, resolves to that person
  acting for that team.
\<close>

lemma removed_member_locked_out:
  assumes "removeMember who userId now st = (Inr (), st')" "a_teamId x = a_teamId who" "a_userId x = userId"
  shows "fst (resolveBearer sha verify now' cred (ts_auth st')) \<noteq> Some x"
  using removed_bearer [OF assms(1)] assms(2,3) by blast

text \<open>
  C33 (invariant).  Access stays bounded whatever engineers, leads and workflows do: every grant covers one asset, was not
  approved by the engineer it is for and opens a window of at most the allowed minutes for the grant and each of its
  extensions; a certificate carries the principal of its asset, ends with its grant and is revoked unless the grant is active.
\<close>

theorem grants_bounded:
  assumes "grants_inv env st"
  shows "grants_inv env (fold (grant_step env) ops st)"
  using assms by (rule vault.run_inv)

lemma demo_vault_ok: "grants_ok (ge_settings demo_grants_env) demo_vault"
  by (simp add: grants_ok_def demo_vault_def uniq_def grant_ok_def demo_grant_def demo_grants_env_def window_ms_def covers_def
      demo_certificate_def)

theorem grants_bounded_witness:
  "grants_inv demo_grants_env (fold (grant_step demo_grants_env)
     [ExtendGrant ''x2'' ''g1'' ''more work'' 240 5, ExtendGrant ''x2'' ''g1'' ''again'' 240 6, IssueCertificate ''g1'' True 8 ''w2'' 7,
      RevokeGrant (Some ''x9'') ''g1'' ''done'' 8] demo_vault)"
  by (rule grants_bounded) (use demo_vault_ok in \<open>simp add: grants_inv_def rules_ok_def demo_grants_env_def\<close>)

text \<open>
  C34 (safety).  Revocation reaches everything: after access is revoked by a condition (a closed ticket, the end of a shift,
  a lost assignment) no grant that meets it is live, and every certificate issued under such a grant is revoked.
\<close>

theorem revocation_ends_access:
  assumes "grants_ok r st" "g \<in> set (gs_grants st)" "p g"
  shows "ended (ag_id g) (snd (revokeWhere p reason who now st))
    \<and> (\<forall>c\<in>set (gs_certs (snd (revokeWhere p reason who now st))). sk_grantId c = ag_id g \<longrightarrow> sk_revokedAt c \<noteq> None)"
  using revokeWhere_ends [where p = p, OF assms prod.collapse [symmetric]] .

theorem revocation_ends_access_witness:
  "ended ''g1'' (snd (revokeWhere (\<lambda>g. ag_ticketId g = Some ''q1'') ''ticket_closed'' None 9 demo_vault))"
  using revocation_ends_access [OF demo_vault_ok, of demo_grant "\<lambda>g. ag_ticketId g = Some ''q1''" "''ticket_closed''" None 9]
  by (simp add: demo_vault_def demo_grant_def)

text \<open>
  C35 (roundtrip).  A certificate that is signed is read back as it was asked for: the engineer's key, the serial, the
  principals, the window in whole seconds, the options and the key of the authority, with a signature that verifies.
  Assumed are: dates within the range of a JavaScript date; extension names that are distinct, none of them
  \<open>__proto__\<close> and none the decimal form of an array index (the reader keeps them as keys of an object); a sorting of names that
  only reorders; and of what is not in the repository, that the nonce, the key and the signature are bytes and that
  verification accepts what the authority signs.
\<close>

theorem certificate_round_trip:
  assumes "signUserCertificate sortNames sign nonce caPk req = Inr line"
    and "is_bytes nonce" "is_bytes caPk" "\<And>m. is_bytes (sign m)" "\<And>m. verify caPk m (sign m) = Inr True"
    and "names_ok sortNames req" "cq_validAfter req \<le> 8640000000000000" "cq_validBefore req \<le> 8640000000000000"
  shows "\<exists>pk c. parseEd25519PublicKey (cq_publicKey req) = Inr pk \<and> parseCertificate verify line = Inr c
    \<and> pc_publicKey c = pk \<and> int (pc_serial c) = cq_serial req \<and> pc_keyId c = cq_keyId req \<and> pc_principals c = cq_principals req
    \<and> pc_validAfter c = Some (cert_seconds (cq_validAfter req) * 1000) \<and> pc_validBefore c = Some (cert_seconds (cq_validBefore req) * 1000)
    \<and> pc_criticalOptions c = sortNames (critical_pairs req) \<and> pc_extensions c = map fst (sortNames (extension_pairs req))
    \<and> pc_signatureKey c = caPk \<and> pc_signatureValid c"
  using parse_signed [where verify = verify, OF assms(1-4,6-8)] assms(5) signed_serial [OF assms(1)] by (auto simp: cert_of_def)

lemma demo_key_read: "parseEd25519PublicKey demo_key_line = Inr demo_key"
proof -
  have "\<exists>l. ed25519Line demo_key [] = Inr l"
    by (simp add: ed25519Line_def ed25519Blob_def sshString_def u32_def demo_key_def ED25519_def utf8_def utf8_char_def)
  then have "ed25519Line demo_key [] = Inr demo_key_line" by (auto simp: demo_key_line_def)
  then show ?thesis by (rule parse_key_line) (simp_all add: demo_key_def is_bytes_def)
qed

lemma demo_seconds: "cert_seconds 0 = 0" "cert_seconds 3600000 = 3600"
proof -
  have "js_div (of_int 3600000) 1000 = of_int 3600" using fl_of_int [of 3600] by (simp add: js_div_def)
  then show "cert_seconds 3600000 = 3600" by (simp add: cert_seconds_def)
  have "js_div (of_int 0) 1000 = of_int 0" using fl_of_int [of 0] by (simp add: js_div_def)
  then show "cert_seconds 0 = 0" by (simp add: cert_seconds_def)
qed

lemma demo_signed:
  "\<exists>l. signUserCertificate (\<lambda>kvs. kvs) (\<lambda>_. [7]) (replicate 32 0) demo_key demo_cert_request = Inr l"
  by (simp add: signUserCertificate_def demo_cert_request_def demo_key_read cert_body_def demo_seconds sshString_def u32_def u64_def
      cert_options_def critical_pairs_def extension_pairs_def cert_option_def ed25519Blob_def ED25519_def ED25519_CERT_def utf8_def
      utf8_char_def demo_key_def)

theorem certificate_round_trip_witness:
  "\<exists>line c. signUserCertificate (\<lambda>kvs. kvs) (\<lambda>_. [7]) (replicate 32 0) demo_key demo_cert_request = Inr line
     \<and> parseCertificate (\<lambda>_ _ s. Inr (s = [7])) line = Inr c \<and> pc_principals c = [''a1''] \<and> pc_validBefore c = Some 3600000
     \<and> pc_extensions c = [''permit-pty''] \<and> pc_signatureValid c"
proof -
  obtain l where l: "signUserCertificate (\<lambda>kvs. kvs) (\<lambda>_. [7]) (replicate 32 0) demo_key demo_cert_request = Inr l"
    using demo_signed by blast
  have "is_bytes (replicate 32 0)" "is_bytes demo_key" by (simp_all add: is_bytes_def demo_key_def)
  moreover have "names_ok (\<lambda>kvs. kvs) demo_cert_request"
    by (simp add: names_ok_def extension_pairs_def demo_cert_request_def is_index_def is_digit_def)
  ultimately show ?thesis
    using certificate_round_trip [OF l, of "\<lambda>_ _ s. Inr (s = [7])"] l
    by (auto simp: demo_cert_request_def demo_seconds extension_pairs_def)
qed

section \<open>Placement and addresses\<close>

text \<open>
  C36 (invariant).  Hosts are never overbooked: whatever placements and releases follow one another, the memory and
  disk promised on a host stay within what it has.
\<close>

theorem placement_within_capacity:
  assumes "capacity_ok s"
  shows "capacity_ok (fold sched_step ops s)"
  using assms by (rule rack.run_inv)

theorem placement_within_capacity_witness:
  "capacity_ok (fold sched_step [Place True demo_placement 5, Place True demo_placement 6, Place True demo_placement 7,
     Release ''h1'' 4 8192 50] \<lparr>sc_hosts = [demo_host], sc_servers = [], sc_warned = []\<rparr>)"
  by (rule placement_within_capacity) (simp add: capacity_ok_def uniq_def within_capacity_def demo_host_def)

text \<open>
  The pool of public addresses stays consistent under every sequence of reservations, moves and
  releases: an address is assigned exactly when it names a server and free exactly when it names no project.
\<close>

lemma address_pool_consistent:
  assumes "pool_ok ips"
  shows "pool_ok (fold pool_step ops ips)"
  using assms by (rule pool.run_inv)

text \<open>
  C37 (safety).  Private addresses are held once, whatever other requests insert between reading the free addresses
  and writing the chosen one: as long as the others keep the unique indexes the reservation does, and an address it
  returns is recorded for the server.
\<close>

theorem private_addresses_unique:
  assumes "\<And>k t. held_once t \<Longrightarrow> held_once (race k t)" "held_once ips"
  shows "held_once (snd (reserve_on race pick net serverId ips))
    \<and> (\<forall>a b. fst (reserve_on race pick net serverId ips) = Inr (a, b) \<longrightarrow>
          (\<exists>p\<in>set (snd (reserve_on race pick net serverId ips)). pi_serverId p = Some serverId \<and> pi_address p = a))"
  using assms(2) address_attempts_held [of race ips pick net _ _ serverId True 30, OF assms]
  by (auto simp: reserve_on_def split: sum.splits prod.splits)

theorem private_addresses_unique_witness:
  "held_once (snd (reserve_on (\<lambda>_ t. if t = [] then [demo_rival] else t) (\<lambda>_. 0) demo_network ''s1'' []))"
proof -
  have "held_once (if t = [] then [demo_rival] else t)" if "held_once t" for t
    using that by (simp add: held_once_def uniq_def List.map_filter_simps demo_rival_def)
  then show ?thesis
    using private_addresses_unique [of "\<lambda>_ t. if t = [] then [demo_rival] else t" "[]" "\<lambda>_. 0" demo_network "''s1''"]
    by (simp add: held_once_def uniq_def List.map_filter_simps)
qed

text \<open>
  C38 (refinement).  What firewall requests do to the servers that are out of step with the tables: a server is behind when
  it is ready and its host does not hold the rules of the firewalls attached to it, or the default rules when there
  are none.  After a successful request no server it touches is behind, and no other server that was not behind before; for
  a server it does not touch and that an earlier failed push left behind, nothing is claimed.  A request that fails can
  leave only servers it touches behind.  Assumed is that ids and driver references identify servers.
\<close>

theorem firewall_hosts_in_sync:
  assumes "fw_call classify down op st = (r, st')" "servers_ok st"
  shows "stale st' \<subseteq> stale st \<union> touched op st \<and> (r = Inr () \<longrightarrow> stale st' \<subseteq> stale st - touched op st)"
  using assms by (rule fw_call_stale)

text \<open>The host of the server heard nothing so far; another host is down.\<close>

definition silent_wall :: fw_state where "silent_wall = demo_wall\<lparr>fs_applied := (\<lambda>_. None)\<rparr>"

lemma demo_attach:
  "fst (fw_call (\<lambda>_. 4) {''102''} (AttachFw ''p1'' ''f1'' ''s1'') silent_wall) = Inr ()"
  by (simp add: attach_firewall_def get_firewall_def silent_wall_def demo_wall_def demo_fw_server_def applyToServer_def)

lemma demo_behind: "stale silent_wall = {''s1''}" "servers_ok silent_wall"
  by (auto simp: stale_def servers_ok_def silent_wall_def demo_wall_def demo_fw_server_def uniq_def pushed_ref_def)

theorem firewall_hosts_in_sync_witness:
  "stale silent_wall = {''s1''} \<and> stale (snd (fw_call (\<lambda>_. 4) {''102''} (AttachFw ''p1'' ''f1'' ''s1'') silent_wall)) = {}"
  using firewall_hosts_in_sync [OF prod.collapse [symmetric] demo_behind(2),
      of "\<lambda>_. 4" "{''102''}" "AttachFw ''p1'' ''f1'' ''s1''"] demo_attach demo_behind(1)
  by (simp del: fw_call.simps)

section \<open>Outbound requests\<close>

text \<open>
  C39 (safety).  Every contact of a guarded request, redirects included, is made over http or https without credentials in the
  URL, to a host the connection allows, and only to addresses the policy lets through; a host other than the one asked
  for never receives the Authorization, Cookie or Proxy-Authorization header of the request, while every other header
  except the two that describe the body goes to every contact as it was, also one that carries a secret under
  a name of its own; the redirects and the bytes kept stay within their limits.
\<close>

theorem fetch_contacts_checked:
  assumes "fe_parse env rawUrl = Some u" "safeFetch env rawUrl req = (r, cs)"
  shows "(\<forall>c\<in>set cs. contact_ok env (u_host u) c \<and> passed_on (ct_request c) = passed_on req) \<and> length cs \<le> Suc (fe_maxRedirects env)
    \<and> (\<forall>x. r = Inr x \<longrightarrow> sp_bytes x \<le> fe_maxBytes env \<and> sp_redirects x \<le> fe_maxRedirects env \<and> sp_url x = u_href (ct_url (last cs)))"
  using safeFetch_contacts [OF assms] safeFetch_passes [OF assms(2)] by blast

theorem fetch_contacts_checked_witness:
  "length (snd (safeFetch demo_fetch ''a.test'' demo_call)) \<le> 4"
  using fetch_contacts_checked [of demo_fetch "''a.test''" "demo_url ''a.test''" demo_call, OF _ prod.collapse [symmetric]]
  by (simp add: demo_fetch_def HTTP_MAX_REDIRECTS_def)

text \<open>
  C40 (safety).  With an empty allow list no request reaches a private, shared, loopback, link local, multicast or
  reserved IPv4 address, however the resolver spells it: in dotted form, or mapped into IPv6 with dots, with hexadecimal groups,
  in capitals or written out in full.
\<close>

theorem requests_reach_public_addresses:
  assumes "c \<in> set (snd (safeFetch env rawUrl req))" "a \<in> set (ct_addresses c)"
    and "np_ips (fe_policy env) = []" "np_hosts (fe_policy env) = []"
    and "parse_v4 (fst a) = Some n \<or> parse_v6 (fst a) = Some (mapped_v4 n) \<and> n < 2 ^ 32"
  shows "\<not> reserved_v4 n"
proof -
  have n: "n < 2 ^ 32" using assms(5) parse_v4_less by blast
  have "addressAllowed (bare_host (u_hostname (ct_url c))) (fst a) (fe_policy env) = Inr True"
    using contact_allowed [OF assms(1)] assms(2) by (simp add: allowed_contact_def)
  moreover have "\<not> hostAllowlisted (bare_host (u_hostname (ct_url c))) (fe_policy env)"
    using assms(4) by (simp add: hostAllowlisted_def)
  ultimately have "\<not> blocked_v4 n" using assms(3,5) by (rule allowed_public_v4)
  then show ?thesis using blocked_v4_reserved [OF n] by blast
qed

lemma demo_addresses:
  "isIP ''a.test'' = 0" "parse_v4 ''9.9.9.9'' = Some (v4_number 9 9 9 9)" "isBlockedAddress ''9.9.9.9'' = Inr False"
proof -
  show "isIP ''a.test'' = 0" by (simp add: address_eval)
  show nines: "parse_v4 ''9.9.9.9'' = Some (v4_number 9 9 9 9)" by (simp add: parse_v4_def ip_octet_def parse_nat_def char_digit_def is_digit_def)
  have "\<not> blocked_v4 (v4_number 9 9 9 9)"
    by (simp add: blocked_v4_def BLOCKED_def in_subnet_def v4_subnet_def mapped_v4_def v4_number_def v6_number_def)
  then show "isBlockedAddress ''9.9.9.9'' = Inr False" using blocked_spellings [of "''9.9.9.9''" "v4_number 9 9 9 9"] nines by simp
qed

lemma demo_contacted:
  "\<exists>c\<in>set (snd (safeFetch demo_fetch ''a.test'' demo_call)). (''9.9.9.9'', 4) \<in> set (ct_addresses c)"
proof -
  have bare: "bare_host ''a.test'' = ''a.test''" by (simp add: bare_host_def startsWith_def endsWith_def)
  have ok: "checkedAddresses (fe_resolve demo_fetch 0) (fe_policy demo_fetch) ''a.test'' = Inr [(''9.9.9.9'', 4)]"
    unfolding checkedAddresses_def bare Let_def demo_addresses(1)
    by (simp add: demo_fetch_def addressAllowed_def demo_addresses(3) endsWith_def toLowerCase_def lower_char_def is_upper_def)
  have local: "\<not> (toLowerCase ''a.test'' = ''localhost'' \<or> endsWith (toLowerCase ''a.test'') ''.localhost'')"
    by (simp add: endsWith_def toLowerCase_def lower_char_def is_upper_def)
  let ?c = "\<lparr>ct_url = demo_url ''a.test'', ct_request = demo_call, ct_addresses = [(''9.9.9.9'', 4)]\<rparr>"
  have host: "u_hostname (demo_url ''a.test'') = ''a.test''" by (simp add: demo_url_def)
  have "snd (once demo_fetch 0 (demo_url ''a.test'') demo_call) = [?c]"
    by (rule once_named) (simp_all only: host bare demo_addresses(1) local ok not_False_eq_True)
  then have "?c \<in> set (snd (fetch_loop demo_fetch ''a.test'' 0 (demo_url ''a.test'') demo_call))"
    using first_contact [of demo_fetch 0 "demo_url ''a.test''" demo_call "''a.test''"] by simp
  moreover have "safeFetch demo_fetch ''a.test'' demo_call = fetch_loop demo_fetch ''a.test'' 0 (demo_url ''a.test'') demo_call"
    by (simp add: safeFetch_def checkUrl_def demo_fetch_def demo_url_def hostMatches_def)
  ultimately show ?thesis by (intro bexI [of _ ?c]) simp_all
qed

theorem requests_reach_public_addresses_witness: "\<not> reserved_v4 (v4_number 9 9 9 9)"
proof -
  obtain c where "c \<in> set (snd (safeFetch demo_fetch ''a.test'' demo_call))" "(''9.9.9.9'', 4) \<in> set (ct_addresses c)"
    using demo_contacted by blast
  then show ?thesis by (rule requests_reach_public_addresses) (simp_all add: demo_addresses(2) demo_fetch_def)
qed

section \<open>Engineer timers\<close>

text \<open>
  The sweep over an engineer's terminal sessions counts every millisecond of the timer's window
  in which some session was open exactly once, however the sessions overlap.
\<close>

lemma session_time_counted:
  "sweep (session_spans now userId beg fin rows) None = int (card (session_time now userId beg fin rows))"
  by (rule sweep_session_spans)

end
